(* ===== verification/Prelude.thy ===== *)
theory Prelude
  imports Complex_Main "HOL-Library.Word" "HOL-Library.Product_Lexorder"
begin

unbundle bit_operations_syntax

text \<open>
  What the component theories share: the names of the machine integer types, the
  saturating and checked arithmetic of Rust's standard library on words, the iterator
  adaptors the sources use (\<open>position\<close>, \<open>min_by_key\<close>, \<open>Reverse\<close>), slices of
  vectors with the out-of-range panic as \<open>None\<close>, a result type with its sequencing, and
  the \<open>safe_machine\<close> contract from which every component with state gets its invariant
  on reachable states.
\<close>

named_theorems machine_arith \<open>reading saturating and checked word arithmetic in the naturals\<close>
named_theorems grid_simps \<open>row-major grids: lengths and cells after an update\<close>

section \<open>Machine integers\<close>

type_synonym u8 = "8 word"
type_synonym u16 = "16 word"
type_synonym u32 = "32 word"
type_synonym u64 = "64 word"

text \<open>\<open>usize\<close> counts elements of vectors held in memory and never reaches its bound: it
  is modelled by \<open>nat\<close>. Conversions \<open>usize::from\<close> of a narrower word are \<open>unat\<close>.\<close>

definition saturating_add :: "'a::len word \<Rightarrow> 'a word \<Rightarrow> 'a word" where
  "saturating_add a b = (if unat a + unat b < 2 ^ LENGTH('a) then a + b else - 1)"

definition saturating_sub :: "'a::len word \<Rightarrow> 'a word \<Rightarrow> 'a word" where
  "saturating_sub a b = (if b \<le> a then a - b else 0)"

definition saturating_mul :: "'a::len word \<Rightarrow> 'a word \<Rightarrow> 'a word" where
  "saturating_mul a b = (if unat a * unat b < 2 ^ LENGTH('a) then a * b else - 1)"

definition checked_add :: "'a::len word \<Rightarrow> 'a word \<Rightarrow> 'a word option" where
  "checked_add a b = (if unat a + unat b < 2 ^ LENGTH('a) then Some (a + b) else None)"

definition abs_diff :: "'a::len word \<Rightarrow> 'a word \<Rightarrow> 'a word" where
  "abs_diff a b = (if a \<le> b then b - a else a - b)"

lemma unat_minus_one_max: "unat (- 1 :: 'a::len word) = 2 ^ LENGTH('a) - 1"
  by (simp add: unsigned_minus_1_eq_mask mask_eq_exp_minus_1)

lemma unat_saturating_add [machine_arith]:
  fixes a b :: "'a::len word"
  shows "unat (saturating_add a b) = min (unat a + unat b) (2 ^ LENGTH('a) - 1)"
proof (cases "unat a + unat b < 2 ^ LENGTH('a)")
  case True
  then show ?thesis by (simp add: saturating_add_def unat_word_ariths)
next
  case False
  then show ?thesis by (simp add: saturating_add_def unat_minus_one_max)
qed

lemma unat_saturating_sub [machine_arith]:
  "unat (saturating_sub a b) = unat a - unat b"
  by (auto simp: saturating_sub_def unat_sub word_le_nat_alt)

lemma unat_add_no_wrap:
  fixes a b :: "'a::len word"
  assumes "unat a + unat b < 2 ^ LENGTH('a)"
  shows "unat (a + b) = unat a + unat b"
  using assms by (simp add: unat_word_ariths)

lemma unat_u16_bound [simp]: "unat (a :: u16) < 65536"
  using unsigned_less [of a, where ?'a = nat] by simp

lemma unat_add_u16: "unat a + unat b < 65536 \<Longrightarrow> unat (a + b :: u16) = unat a + unat b"
  using unat_add_no_wrap [of a b] by simp

lemma checked_add_Some [machine_arith]:
  "checked_add a b = Some c \<longleftrightarrow> unat a + unat b < 2 ^ LENGTH('a) \<and> c = a + b"
  for a b c :: "'a::len word"
  by (auto simp: checked_add_def)

lemmas word_order_nat [machine_arith] = word_le_nat_alt word_less_nat_alt

section \<open>Bytes and decimal numbers\<close>

text \<open>A \<open>String\<close> is the list of its UTF-8 bytes, a \<open>string\<close> here.\<close>

definition le_bytes16 :: "u16 \<Rightarrow> u8 list" where
  "le_bytes16 w = [ucast w, ucast (drop_bit 8 w)]"

definition from_le16 :: "u8 \<Rightarrow> u8 \<Rightarrow> u16" where
  "from_le16 a b = ucast a OR push_bit 8 (ucast b)"

definition le_bytes32 :: "u32 \<Rightarrow> u8 list" where
  "le_bytes32 w = [ucast w, ucast (drop_bit 8 w), ucast (drop_bit 16 w), ucast (drop_bit 24 w)]"

definition from_le32 :: "u8 \<Rightarrow> u8 \<Rightarrow> u8 \<Rightarrow> u8 \<Rightarrow> u32" where
  "from_le32 a b c d =
     ucast a OR push_bit 8 (ucast b) OR push_bit 16 (ucast c) OR push_bit 24 (ucast d)"

lemma from_le16_bytes [simp]: "from_le16 (ucast w) (ucast (drop_bit 8 w)) = w" for w :: u16
  by (rule bit_word_eqI) (auto simp: from_le16_def bit_simps)

lemma from_le32_bytes [simp]:
  "from_le32 (ucast w) (ucast (drop_bit 8 w)) (ucast (drop_bit 16 w)) (ucast (drop_bit 24 w)) = w"
  for w :: u32
proof (rule bit_word_eqI)
  fix n :: nat
  assume "n < LENGTH(32)"
  then show "bit (from_le32 (ucast w) (ucast (drop_bit 8 w)) (ucast (drop_bit 16 w))
      (ucast (drop_bit 24 w))) n = bit w n"
    by (cases "24 \<le> n"; cases "16 \<le> n"; cases "8 \<le> n")
      (auto simp: from_le32_def bit_simps dest: bit_imp_le_length)
qed

fun show_nat :: "nat \<Rightarrow> string" where
  "show_nat n = (if n < 10 then [char_of (48 + n)] else show_nat (n div 10) @ [char_of (48 + n mod 10)])"

declare show_nat.simps [simp del]

text \<open>\<open>str::parse\<close> for an unsigned integer type with the given largest value: digits with an optional
  plus sign, refused as soon as the value is too large.\<close>

definition digit_value :: "char \<Rightarrow> nat option" where
  "digit_value c = (let n = of_char c in if 48 \<le> n \<and> n \<le> 57 then Some (n - 48) else None)"

fun parse_digits :: "nat \<Rightarrow> nat \<Rightarrow> string \<Rightarrow> nat option" where
  "parse_digits limit acc [] = Some acc"
| "parse_digits limit acc (c # cs) =
     (case digit_value c of
        None \<Rightarrow> None
      | Some d \<Rightarrow> if acc * 10 + d > limit then None else parse_digits limit (acc * 10 + d) cs)"

definition parse_unsigned :: "nat \<Rightarrow> string \<Rightarrow> nat option" where
  "parse_unsigned limit s =
     (case s of
        [] \<Rightarrow> None
      | c # cs \<Rightarrow> if c = CHR ''+'' then (if cs = [] then None else parse_digits limit 0 cs) else parse_digits limit 0 s)"

lemma digit_value_digit [simp]: "d < 10 \<Longrightarrow> digit_value (char_of (48 + d)) = Some d"
  by (simp add: digit_value_def of_char_mod_256)

lemma parse_digits_append:
  "parse_digits limit acc (xs @ ys) = Option.bind (parse_digits limit acc xs) (\<lambda>v. parse_digits limit v ys)"
  by (induction xs arbitrary: acc) (auto split: option.splits)

lemma parse_digits_show: "n \<le> limit \<Longrightarrow> parse_digits limit 0 (show_nat n) = Some n"
proof (induction n rule: show_nat.induct)
  case (1 n)
  show ?case
  proof (cases "n < 10")
    case True
    with 1(2) show ?thesis by (simp add: show_nat.simps)
  next
    case False
    with 1 have "parse_digits limit 0 (show_nat (n div 10)) = Some (n div 10)" by simp
    moreover have "digit_value (char_of (48 + n mod 10)) = Some (n mod 10)" by simp
    ultimately show ?thesis
      using False 1(2) by (subst show_nat.simps) (simp add: parse_digits_append del: digit_value_digit)
  qed
qed

lemma show_nat_digits: "show_nat n \<noteq> [] \<and> (\<forall>c \<in> set (show_nat n). \<exists>d < 10. c = char_of (48 + d :: nat))"
proof (induction n rule: show_nat.induct)
  case (1 n)
  have "\<exists>d < 10. (char_of (48 + n mod 10) :: char) = char_of (48 + d :: nat)" by (rule exI [of _ "n mod 10"]) simp
  with 1 show ?case by (cases "n < 10") (auto simp: show_nat.simps [of n] simp del: char_of_eq_iff)
qed

lemma parse_show: "n \<le> limit \<Longrightarrow> parse_unsigned limit (show_nat n) = Some n"
proof -
  assume n: "n \<le> limit"
  obtain c cs where s: "show_nat n = c # cs" using show_nat_digits [of n] by (cases "show_nat n") auto
  then obtain d :: nat where "d < 10" "c = char_of (48 + d)" using show_nat_digits [of n] by auto
  then have "digit_value c = Some d" by simp
  then have "c \<noteq> CHR ''+''" by (auto simp: digit_value_def)
  with s parse_digits_show [OF n] show ?thesis by (simp add: parse_unsigned_def)
qed

section \<open>Results\<close>

text \<open>\<open>Result<T, E>\<close> is \<open>'e + 'a\<close>, the error on the left; \<open>and_then\<close> is the
  sequencing the operator \<open>?\<close> performs.\<close>

definition and_then :: "'e + 'a \<Rightarrow> ('a \<Rightarrow> 'e + 'b) \<Rightarrow> 'e + 'b" where
  "and_then r f = (case r of Inl e \<Rightarrow> Inl e | Inr x \<Rightarrow> f x)"

lemma and_then_simps [simp]:
  "and_then (Inl e) f = Inl e"
  "and_then (Inr x) f = f x"
  by (simp_all add: and_then_def)

lemma and_then_Inr_iff: "and_then r f = Inr y \<longleftrightarrow> (\<exists>x. r = Inr x \<and> f x = Inr y)"
  by (cases r) auto

lemma and_then_InrE [elim!]:
  assumes "and_then r f = Inr y"
  obtains x where "r = Inr x" "f x = Inr y"
  using assms by (auto simp: and_then_Inr_iff)

definition ok_or :: "'e \<Rightarrow> 'a option \<Rightarrow> 'e + 'a" where
  "ok_or e r = (case r of None \<Rightarrow> Inl e | Some x \<Rightarrow> Inr x)"

lemma ok_or_Inr [simp]: "ok_or e r = Inr x \<longleftrightarrow> r = Some x"
  by (auto simp: ok_or_def split: option.splits)

section \<open>Iterators\<close>

fun position :: "('a \<Rightarrow> bool) \<Rightarrow> 'a list \<Rightarrow> nat option" where
  "position P [] = None"
| "position P (x # xs) = (if P x then Some 0 else map_option Suc (position P xs))"

lemma position_Some:
  "position P xs = Some i \<Longrightarrow> i < length xs \<and> P (xs ! i) \<and> (\<forall>j < i. \<not> P (xs ! j))"
proof (induction xs arbitrary: i)
  case Nil
  then show ?case by simp
next
  case (Cons x xs)
  show ?case
  proof (cases "P x")
    case True
    with Cons.prems show ?thesis by simp
  next
    case False
    with Cons.prems obtain k where k: "position P xs = Some k" "i = Suc k" by auto
    from Cons.IH [OF k(1)] False k(2) show ?thesis
      by (auto simp: less_Suc_eq_0_disj)
  qed
qed

lemma position_None: "position P xs = None \<longleftrightarrow> (\<forall>x \<in> set xs. \<not> P x)"
  by (induction xs) auto

lemma position_exists: "x \<in> set xs \<Longrightarrow> P x \<Longrightarrow> \<exists>i. position P xs = Some i"
  using position_None [of P xs] by (cases "position P xs") auto

text \<open>\<open>Iterator::min_by_key\<close> keeps the first of several minimal elements.\<close>

fun min_by_key :: "('a \<Rightarrow> 'k::linorder) \<Rightarrow> 'a list \<Rightarrow> 'a option" where
  "min_by_key key [] = None"
| "min_by_key key (x # xs) =
     (case min_by_key key xs of
        None \<Rightarrow> Some x
      | Some y \<Rightarrow> if key x \<le> key y then Some x else Some y)"

lemma min_by_key_None [simp]: "min_by_key key xs = None \<longleftrightarrow> xs = []"
  by (cases xs) (auto split: option.splits)

lemma min_by_key_Some:
  "min_by_key key xs = Some x \<Longrightarrow> x \<in> set xs \<and> (\<forall>y \<in> set xs. key x \<le> key y)"
proof (induction xs arbitrary: x)
  case Nil
  then show ?case by simp
next
  case (Cons z zs)
  show ?case
  proof (cases "min_by_key key zs")
    case None
    with Cons.prems show ?thesis by simp
  next
    case (Some y)
    with Cons.IH [OF Some] Cons.prems show ?thesis by (auto split: if_splits)
  qed
qed

text \<open>\<open>std::cmp::Reverse\<close>: the same values in the opposite order.\<close>

datatype 'a Reverse = Reverse (unreverse: 'a)

instantiation Reverse :: (linorder) linorder
begin

definition less_eq_Reverse :: "'a Reverse \<Rightarrow> 'a Reverse \<Rightarrow> bool" where
  "less_eq_Reverse a b \<longleftrightarrow> unreverse b \<le> unreverse a"

definition less_Reverse :: "'a Reverse \<Rightarrow> 'a Reverse \<Rightarrow> bool" where
  "less_Reverse a b \<longleftrightarrow> unreverse b < unreverse a"

instance
  by standard (auto simp: less_eq_Reverse_def less_Reverse_def intro: Reverse.expand)

end

section \<open>Slices\<close>

text \<open>\<open>v[a..b]\<close> panics unless \<open>a \<le> b \<le> len\<close>; \<open>slice_get\<close> gives \<open>None\<close> there.
  \<open>splice\<close> is the slice assignment \<open>v[a..a+n].clone_from_slice(w)\<close> with \<open>n = len w\<close>.\<close>

definition slice :: "nat \<Rightarrow> nat \<Rightarrow> 'a list \<Rightarrow> 'a list" where
  "slice a n xs = take n (drop a xs)"

definition splice :: "'a list \<Rightarrow> nat \<Rightarrow> 'a list \<Rightarrow> 'a list" where
  "splice xs a ws = take a xs @ ws @ drop (a + length ws) xs"

definition copy_into :: "'a list \<Rightarrow> nat \<Rightarrow> 'a list \<Rightarrow> 'a list option" where
  "copy_into xs a ws = (if a + length ws \<le> length xs then Some (splice xs a ws) else None)"

lemma length_splice [simp, grid_simps]:
  "a + length ws \<le> length xs \<Longrightarrow> length (splice xs a ws) = length xs"
  by (simp add: splice_def)

lemma nth_splice [grid_simps]:
  assumes "a + length ws \<le> length xs" "i < length xs"
  shows "splice xs a ws ! i = (if a \<le> i \<and> i < a + length ws then ws ! (i - a) else xs ! i)"
  using assms by (auto simp: splice_def nth_append)

lemma copy_into_Some [simp]:
  "copy_into xs a ws = Some ys \<longleftrightarrow> a + length ws \<le> length xs \<and> ys = splice xs a ws"
  by (auto simp: copy_into_def)

lemma length_slice [simp]: "a + n \<le> length xs \<Longrightarrow> length (slice a n xs) = n"
  by (simp add: slice_def)

lemma nth_slice [simp]: "a + n \<le> length xs \<Longrightarrow> i < n \<Longrightarrow> slice a n xs ! i = xs ! (a + i)"
  by (simp add: slice_def)

lemma splice_slice: "a + n \<le> length xs \<Longrightarrow> splice xs a (slice a n xs) = xs"
  by (rule nth_equalityI) (auto simp: nth_splice)

section \<open>State machines\<close>

text \<open>The states a machine can be in, and the contract that gives an invariant on all of
  them.\<close>

inductive reach :: "('s \<Rightarrow> bool) \<Rightarrow> ('s \<Rightarrow> 's \<Rightarrow> bool) \<Rightarrow> 's \<Rightarrow> bool"
  for init :: "'s \<Rightarrow> bool" and step :: "'s \<Rightarrow> 's \<Rightarrow> bool" where
  reach_init: "init s \<Longrightarrow> reach init step s"
| reach_step: "reach init step s \<Longrightarrow> step s t \<Longrightarrow> reach init step t"

locale safe_machine =
  fixes init :: "'s \<Rightarrow> bool"
    and step :: "'s \<Rightarrow> 's \<Rightarrow> bool"
    and inv :: "'s \<Rightarrow> bool"
  assumes init_inv: "init s \<Longrightarrow> inv s"
    and step_inv: "inv s \<Longrightarrow> step s t \<Longrightarrow> inv t"
begin

lemma reach_inv: "reach init step s \<Longrightarrow> inv s"
  by (induction rule: reach.induct) (auto intro: init_inv step_inv)

lemma steps_inv: "inv s \<Longrightarrow> step\<^sup>*\<^sup>* s t \<Longrightarrow> inv t"
  by (rotate_tac, induction rule: rtranclp_induct) (auto intro: step_inv)

end

text \<open>The contract of a component that implements an abstract one, step by step: a relation between
  the two states that every permitted operation keeps. It then holds after every run.\<close>

fun all_ok :: "('x \<Rightarrow> 'a \<Rightarrow> bool) \<Rightarrow> ('x \<Rightarrow> 'a \<Rightarrow> 'a) \<Rightarrow> 'x list \<Rightarrow> 'a \<Rightarrow> bool" where
  "all_ok ok astep [] a \<longleftrightarrow> True"
| "all_ok ok astep (x # xs) a \<longleftrightarrow> ok x a \<and> all_ok ok astep xs (astep x a)"

locale data_refinement =
  fixes rel :: "'c \<Rightarrow> 'a \<Rightarrow> bool"
    and cstep :: "'x \<Rightarrow> 'c \<Rightarrow> 'c"
    and astep :: "'x \<Rightarrow> 'a \<Rightarrow> 'a"
    and ok :: "'x \<Rightarrow> 'a \<Rightarrow> bool"
  assumes step_rel: "rel c a \<Longrightarrow> ok x a \<Longrightarrow> rel (cstep x c) (astep x a)"
begin

lemma run_rel: "rel c a \<Longrightarrow> all_ok ok astep xs a \<Longrightarrow> rel (fold cstep xs c) (fold astep xs a)"
  by (induction xs arbitrary: c a) (auto intro: step_rel)

end

end
