(* ===== verification/F32.thy ===== *)
theory F32
  imports Prelude "HOL-Library.Log_Nat"
begin

text \<open>
  Rust's \<open>f32\<close> as the sources use it: the IEEE binary32 values with their rounding to
  nearest, ties to even, on multiplication and addition, the comparisons that are false on
  a NaN, \<open>clamp\<close>, \<open>round\<close> (half away from zero) and the saturating cast to \<open>u16\<close>.
  A finite value is its exact rational; the sign of a zero is not kept, since nothing in
  the modelled code observes it.
\<close>

datatype f32 = NaN | Inf bool | Fin rat

definition ilog2 :: "rat \<Rightarrow> int" where
  "ilog2 x =
     (if x \<ge> 1 then int (floorlog 2 (nat \<lfloor>x\<rfloor>)) - 1
      else - int (floorlog 2 (nat (\<lceil>1 / x\<rceil> - 1))))"

definition round_half_even :: "rat \<Rightarrow> int" where
  "round_half_even x =
     (let n = \<lfloor>x\<rfloor>; d = x - of_int n in
      if d < 1 / 2 then n else if d > 1 / 2 then n + 1 else if even n then n else n + 1)"

text \<open>The exponent of the last bit of the significand around \<open>x\<close>: 24 significant bits,
  and no less than the exponent of the subnormals.\<close>

definition quantum_exp :: "rat \<Rightarrow> int" where
  "quantum_exp x = max (- 149) (ilog2 \<bar>x\<bar> - 23)"

definition f32_of_rat :: "rat \<Rightarrow> f32" where
  "f32_of_rat x =
     (if x = 0 then Fin 0
      else
        let q = 2 powi (quantum_exp x);
            v = of_int (round_half_even (x / q)) * q
        in if \<bar>v\<bar> \<ge> 2 ^ 128 then Inf (x < 0) else Fin v)"

definition is_finite :: "f32 \<Rightarrow> bool" where
  "is_finite a = (case a of Fin _ \<Rightarrow> True | _ \<Rightarrow> False)"

fun f32_lt :: "f32 \<Rightarrow> f32 \<Rightarrow> bool" where
  "f32_lt NaN _ = False"
| "f32_lt _ NaN = False"
| "f32_lt (Inf m) (Inf n) = (m \<and> \<not> n)"
| "f32_lt (Inf m) (Fin _) = m"
| "f32_lt (Fin _) (Inf n) = (\<not> n)"
| "f32_lt (Fin a) (Fin b) = (a < b)"

fun f32_eq :: "f32 \<Rightarrow> f32 \<Rightarrow> bool" where
  "f32_eq (Inf m) (Inf n) = (m = n)"
| "f32_eq (Fin a) (Fin b) = (a = b)"
| "f32_eq _ _ = False"

fun f32_neg :: "f32 \<Rightarrow> f32" where
  "f32_neg NaN = NaN"
| "f32_neg (Inf m) = Inf (\<not> m)"
| "f32_neg (Fin a) = Fin (- a)"

fun f32_add :: "f32 \<Rightarrow> f32 \<Rightarrow> f32" where
  "f32_add NaN _ = NaN"
| "f32_add _ NaN = NaN"
| "f32_add (Inf m) (Inf n) = (if m = n then Inf m else NaN)"
| "f32_add (Inf m) (Fin _) = Inf m"
| "f32_add (Fin _) (Inf n) = Inf n"
| "f32_add (Fin a) (Fin b) = f32_of_rat (a + b)"

fun f32_mul :: "f32 \<Rightarrow> f32 \<Rightarrow> f32" where
  "f32_mul NaN _ = NaN"
| "f32_mul _ NaN = NaN"
| "f32_mul (Inf m) (Inf n) = Inf (m \<noteq> n)"
| "f32_mul (Inf m) (Fin b) = (if b = 0 then NaN else Inf (m \<noteq> (b < 0)))"
| "f32_mul (Fin a) (Inf n) = (if a = 0 then NaN else Inf ((a < 0) \<noteq> n))"
| "f32_mul (Fin a) (Fin b) = f32_of_rat (a * b)"

definition f32_clamp :: "f32 \<Rightarrow> f32 \<Rightarrow> f32 \<Rightarrow> f32" where
  "f32_clamp a lo hi = (if f32_lt a lo then lo else if f32_lt hi a then hi else a)"

fun f32_round :: "f32 \<Rightarrow> f32" where
  "f32_round (Fin a) =
     Fin (of_int (if a \<ge> 0 then \<lfloor>a + 1 / 2\<rfloor> else - \<lfloor>- a + 1 / 2\<rfloor>))"
| "f32_round a = a"

definition f32_of_u16 :: "u16 \<Rightarrow> f32" where
  "f32_of_u16 w = Fin (of_nat (unat w))"

fun u16_of_f32 :: "f32 \<Rightarrow> u16" where
  "u16_of_f32 NaN = 0"
| "u16_of_f32 (Inf neg) = (if neg then 0 else - 1)"
| "u16_of_f32 (Fin a) =
     (if a \<le> 0 then 0 else if a \<ge> 65535 then - 1 else of_nat (nat \<lfloor>a\<rfloor>))"

text \<open>The literals \<open>0.1\<close>, \<open>0.5\<close> and \<open>0.9\<close> of type \<open>f32\<close>.\<close>

definition f32_tenth :: f32 where "f32_tenth = Fin (13421773 / 134217728)"
definition f32_half :: f32 where "f32_half = Fin (1 / 2)"
definition f32_nine_tenths :: f32 where "f32_nine_tenths = Fin (15099494 / 16777216)"

lemma f32_literals:
  "f32_of_rat (1 / 10) = f32_tenth"
  "f32_of_rat (1 / 2) = f32_half"
  "f32_of_rat (9 / 10) = f32_nine_tenths"
  by code_simp+

section \<open>Rounding\<close>

lemma round_half_even_bounds: "of_int (round_half_even x) \<le> x + 1 / 2" "x - 1 / 2 \<le> of_int (round_half_even x)"
  unfolding round_half_even_def Let_def by (auto split: if_splits, linarith+)

lemma round_half_even_of_int [simp]: "round_half_even (of_int n) = n"
  by (simp add: round_half_even_def)

lemma round_half_even_le_int:
  assumes "x \<le> of_int n"
  shows "round_half_even x \<le> n"
proof (cases "\<lfloor>x\<rfloor> < n")
  case True
  then show ?thesis by (simp add: round_half_even_def Let_def)
next
  case False
  with assms have "x = of_int n" by linarith
  then show ?thesis by simp
qed

lemma round_half_even_ge_int: "of_int n \<le> x \<Longrightarrow> n \<le> round_half_even x"
proof -
  assume "of_int n \<le> x"
  then have "n \<le> \<lfloor>x\<rfloor>" by (simp add: le_floor_iff)
  then show ?thesis by (simp add: round_half_even_def Let_def)
qed

lemma ilog2_less:
  assumes "0 < x" "x < 2 ^ k"
  shows "ilog2 x < int k"
proof (cases "x \<ge> 1")
  case True
  have "nat \<lfloor>x\<rfloor> < 2 ^ k"
    using assms True by (simp add: nat_less_iff floor_less_iff)
  then have "floorlog 2 (nat \<lfloor>x\<rfloor>) \<le> k"
    by (simp add: floorlog_leI)
  with True show ?thesis by (simp add: ilog2_def)
next
  case False
  then have "1 < \<lceil>1 / x\<rceil>" using assms by (simp add: less_ceiling_iff)
  then have "0 < floorlog 2 (nat (\<lceil>1 / x\<rceil> - 1))"
    by (simp add: floorlog_def)
  with False show ?thesis by (simp add: ilog2_def)
qed

text \<open>A product of a screen dimension with a ratio of at most one never rounds above that
  dimension: the dimension is a multiple of the quantum around the product.\<close>

lemma f32_of_rat_le_nat:
  assumes "0 < x" "x \<le> of_nat n" "n < 65536"
  shows "\<exists>v. f32_of_rat x = Fin v \<and> 0 \<le> v \<and> v \<le> of_nat n"
proof -
  define e where "e = quantum_exp x"
  define q :: rat where "q = 2 powi e"
  have q: "0 < q" by (simp add: q_def)
  have "of_nat n < (of_nat 65536 :: rat)" using assms(3) by (simp only: of_nat_less_iff)
  with assms(2) have "x < 2 ^ 16" by simp
  then have "ilog2 x < 16" using ilog2_less [of x 16] assms by simp
  with assms have e: "e \<le> 0" by (simp add: e_def quantum_exp_def)
  define m where "m = int n * 2 ^ nat (- e)"
  have m: "of_nat n / q = of_int m"
    using e by (simp add: m_def q_def power_int_def field_simps)
  have "x / q \<le> of_int m"
    using assms(2) q m by (metis divide_right_mono less_imp_le)
  then have le: "round_half_even (x / q) \<le> m" by (rule round_half_even_le_int)
  have ge: "0 \<le> round_half_even (x / q)"
    using assms q by (intro round_half_even_ge_int) simp
  define v where "v = of_int (round_half_even (x / q)) * q"
  have "v \<le> of_int m * q" using le q by (simp add: v_def)
  also have "\<dots> = of_nat n" using m q by (simp add: field_simps)
  finally have v: "v \<le> of_nat n" .
  have v0: "0 \<le> v" using ge q by (simp add: v_def)
  have "of_nat n < (2 :: rat) ^ 128" using assms(3) by (simp add: of_nat_less_iff)
  then have "\<not> 2 ^ 128 \<le> \<bar>v\<bar>" using v v0 by linarith
  then have "f32_of_rat x = Fin v"
    using assms by (simp add: f32_of_rat_def Let_def v_def q_def e_def)
  with v v0 show ?thesis by blast
qed

lemma f32_of_rat_neg:
  assumes "x < 0"
  shows "\<exists>v. f32_of_rat x = Inf True \<or> (f32_of_rat x = Fin v \<and> v \<le> 0)"
proof -
  define q :: rat where "q = 2 powi (quantum_exp x)"
  have q: "0 < q" by (simp add: q_def)
  have "x / q \<le> of_int 0" using assms q by (simp add: divide_nonpos_pos)
  then have "round_half_even (x / q) \<le> 0" by (rule round_half_even_le_int)
  then have "of_int (round_half_even (x / q)) * q \<le> 0"
    using q by (simp add: mult_le_0_iff)
  with assms show ?thesis
    by (auto simp: f32_of_rat_def Let_def q_def)
qed

text \<open>The ratios a split can have without its first part outgrowing the area.\<close>

definition ratio_ok :: "f32 \<Rightarrow> bool" where
  "ratio_ok r = (case r of NaN \<Rightarrow> True | Inf neg \<Rightarrow> neg | Fin a \<Rightarrow> a \<le> 1)"

definition scale_u16 :: "u16 \<Rightarrow> f32 \<Rightarrow> u16" where
  "scale_u16 w r = u16_of_f32 (f32_round (f32_mul (f32_of_u16 w) r))"

lemma unat_u16_of_f32: "unat (u16_of_f32 (Fin (of_int k))) = min (nat k) 65535"
proof -
  have "unat (word_of_int k :: u16) = nat k" if "0 \<le> k" "k < 65535"
    using that by (simp add: unat_eq_nat_uint uint_word_of_int)
  then show ?thesis by (auto simp: unat_minus_one_max)
qed

lemma u16_of_f32_le:
  assumes "0 \<le> v" "v \<le> of_nat n"
  shows "unat (u16_of_f32 (f32_round (Fin v))) \<le> n"
proof -
  have "v + 1 / 2 < of_int (int n) + 1" using assms(2) by simp
  then have "\<lfloor>v + 1 / 2\<rfloor> \<le> int n" by (simp only: floor_le_iff)
  moreover have "f32_round (Fin v) = Fin (of_int \<lfloor>v + 1 / 2\<rfloor>)" using assms(1) by simp
  ultimately show ?thesis
    by (simp add: unat_u16_of_f32 nat_le_iff del: f32_round.simps u16_of_f32.simps)
qed

theorem scale_u16_le: "ratio_ok r \<Longrightarrow> unat (scale_u16 w r) \<le> unat w"
proof -
  assume ok: "ratio_ok r"
  have nonpos: "unat (u16_of_f32 (f32_round (Fin v))) = 0" if "v \<le> 0" for v
  proof -
    have "f32_round (Fin v) = Fin (of_int (- \<lfloor>- v + 1 / 2\<rfloor>)) \<or> v = 0" using that by auto
    moreover have "0 \<le> \<lfloor>- v + 1 / 2\<rfloor>" using that by simp
    ultimately show ?thesis by (auto simp only: unat_u16_of_f32) auto
  qed
  show ?thesis
  proof (cases r)
    case (Fin a)
    let ?x = "of_nat (unat w) * a"
    have a: "a \<le> 1" using ok Fin by (simp add: ratio_ok_def)
    consider "?x = 0" | "?x < 0" | "0 < ?x" by linarith
    then show ?thesis
    proof cases
      case 1
      then show ?thesis by (simp add: scale_u16_def f32_of_u16_def Fin f32_of_rat_def)
    next
      case 2
      from f32_of_rat_neg [OF 2] nonpos show ?thesis
        by (auto simp: scale_u16_def f32_of_u16_def Fin)
    next
      case 3
      have "?x \<le> of_nat (unat w)" 
        by (rule mult_left_le [OF a of_nat_0_le_iff])
      from f32_of_rat_le_nat [OF 3 this] obtain v
        where "f32_of_rat ?x = Fin v" "0 \<le> v" "v \<le> of_nat (unat w)" by auto
      with u16_of_f32_le [of v "unat w"] show ?thesis
        by (simp add: scale_u16_def f32_of_u16_def Fin)
    qed
  qed (use ok in \<open>auto simp: scale_u16_def f32_of_u16_def ratio_ok_def simp del: of_nat_unat\<close>)
qed

lemma ratio_ok_clamp: "ratio_ok (f32_clamp a f32_tenth f32_nine_tenths)"
  by (cases a) (auto simp: f32_clamp_def ratio_ok_def f32_tenth_def f32_nine_tenths_def)

end
