(* ===== verification/Layout.thy ===== *)
theory Layout
  imports F32
begin

text \<open>
  The tiling layout of a tab (\<open>herdr/src/layout.rs\<close>): a binary tree of splits over pane
  ids, the focused pane and the pane focused before it. The definitions follow the file
  from top to bottom. \<open>Rect::new\<close> belongs to the \<open>ratatui\<close> package and is the argument
  \<open>rect_new\<close> of the operations that build rectangles; \<open>rect_new_spec\<close> is its
  documented behaviour. The process-wide counter \<open>NEXT_PANE_ID\<close> is passed explicitly.
  A panic (an \<open>unwrap\<close> of \<open>None\<close>, an index out of range) is the result \<open>None\<close>.
\<close>

section \<open>Data\<close>

datatype PaneId = PaneId (raw: u32)

definition alloc :: "u32 \<Rightarrow> PaneId \<times> u32" where
  "alloc next_pane_id = (PaneId next_pane_id, next_pane_id + 1)"

record Rect =
  rect_x :: u16
  rect_y :: u16
  rect_width :: u16
  rect_height :: u16

type_synonym rect_ctor = "u16 \<Rightarrow> u16 \<Rightarrow> u16 \<Rightarrow> u16 \<Rightarrow> Rect"

record PaneInfo =
  pane_id :: PaneId
  pane_rect :: Rect
  inner_rect :: Rect
  scrollbar_rect :: "Rect option"
  borders :: u8
  is_focused :: bool

datatype Direction = Horizontal | Vertical

record SplitBorder =
  split_pos :: u16
  split_direction :: Direction
  split_ratio :: f32
  split_area :: Rect
  split_path :: "bool list"

datatype NavDirection = NavLeft | NavRight | NavUp | NavDown

datatype Node = Pane PaneId | Split Direction f32 Node Node

record TileLayout =
  tl_root :: Node
  tl_focus :: PaneId
  tl_prev_focus :: "PaneId option"

section \<open>Tree operations\<close>

fun count_panes :: "Node \<Rightarrow> nat" where
  "count_panes (Pane _) = 1"
| "count_panes (Split _ _ f s) = count_panes f + count_panes s"

definition split_rect :: "rect_ctor \<Rightarrow> Rect \<Rightarrow> Direction \<Rightarrow> f32 \<Rightarrow> Rect \<times> Rect" where
  "split_rect rect_new area direction ratio =
     (case direction of
        Horizontal \<Rightarrow>
          (let first_w = u16_of_f32 (f32_round (f32_mul (f32_of_u16 (rect_width area)) ratio));
               second_w = saturating_sub (rect_width area) first_w
           in (rect_new (rect_x area) (rect_y area) first_w (rect_height area),
               rect_new (rect_x area + first_w) (rect_y area) second_w (rect_height area)))
      | Vertical \<Rightarrow>
          (let first_h = u16_of_f32 (f32_round (f32_mul (f32_of_u16 (rect_height area)) ratio));
               second_h = saturating_sub (rect_height area) first_h
           in (rect_new (rect_x area) (rect_y area) (rect_width area) first_h,
               rect_new (rect_x area) (rect_y area + first_h) (rect_width area) second_h)))"

fun collect_panes ::
    "rect_ctor \<Rightarrow> Node \<Rightarrow> Rect \<Rightarrow> PaneId \<Rightarrow> PaneInfo list \<Rightarrow> PaneInfo list" where
  "collect_panes rect_new (Pane i) area focus result =
     result @ [\<lparr>pane_id = i, pane_rect = area, inner_rect = area, scrollbar_rect = None,
                borders = 0, is_focused = (i = focus)\<rparr>]"
| "collect_panes rect_new (Split direction ratio f s) area focus result =
     (let (a, b) = split_rect rect_new area direction ratio in
      collect_panes rect_new s b focus (collect_panes rect_new f a focus result))"

fun collect_splits ::
    "rect_ctor \<Rightarrow> Node \<Rightarrow> Rect \<Rightarrow> bool list \<Rightarrow> SplitBorder list \<Rightarrow> SplitBorder list" where
  "collect_splits rect_new (Pane _) area path result = result"
| "collect_splits rect_new (Split direction ratio f s) area path result =
     (let (a, b) = split_rect rect_new area direction ratio;
          pos = (case direction of Horizontal \<Rightarrow> rect_x a + rect_width a
                                 | Vertical \<Rightarrow> rect_y a + rect_height a);
          result1 = result @ [\<lparr>split_pos = pos, split_direction = direction,
                               split_ratio = ratio, split_area = area, split_path = path\<rparr>];
          result2 = collect_splits rect_new f a (path @ [False]) result1
      in collect_splits rect_new s b (path @ [True]) result2)"

fun collect_ids :: "Node \<Rightarrow> PaneId list \<Rightarrow> PaneId list" where
  "collect_ids (Pane i) ids = ids @ [i]"
| "collect_ids (Split _ _ f s) ids = collect_ids s (collect_ids f ids)"

fun collect_ratios :: "Node \<Rightarrow> bool list \<Rightarrow> (bool list \<times> f32) list \<Rightarrow> (bool list \<times> f32) list" where
  "collect_ratios (Pane _) path out = out"
| "collect_ratios (Split _ ratio f s) path out =
     collect_ratios s (path @ [True]) (collect_ratios f (path @ [False]) (out @ [(path, ratio)]))"

definition split_ratios :: "Node \<Rightarrow> (bool list \<times> f32) list" where
  "split_ratios node = collect_ratios node [] []"

fun swap_pane_ids :: "Node \<Rightarrow> PaneId \<Rightarrow> PaneId \<Rightarrow> Node" where
  "swap_pane_ids (Pane i) p q = (if i = p then Pane q else if i = q then Pane p else Pane i)"
| "swap_pane_ids (Split d r f s) p q = Split d r (swap_pane_ids f p q) (swap_pane_ids s p q)"

text \<open>The mutable reference \<open>find_pane_mut\<close> returns is the path of the node it points to;
  assigning through it is \<open>assign_node\<close>.\<close>

fun find_pane_mut :: "Node \<Rightarrow> PaneId \<Rightarrow> bool list option" where
  "find_pane_mut (Pane i) target = (if i = target then Some [] else None)"
| "find_pane_mut (Split _ _ f s) target =
     (case find_pane_mut f target of
        Some p \<Rightarrow> Some (False # p)
      | None \<Rightarrow> map_option ((#) True) (find_pane_mut s target))"

fun assign_node :: "Node \<Rightarrow> bool list \<Rightarrow> Node \<Rightarrow> Node" where
  "assign_node node [] new = new"
| "assign_node (Pane i) (_ # _) new = Pane i"
| "assign_node (Split d r f s) (b # p) new =
     (if b then Split d r f (assign_node s p new) else Split d r (assign_node f p new) s)"

definition split_node :: "PaneId \<Rightarrow> Direction \<Rightarrow> PaneId \<Rightarrow> f32 \<Rightarrow> Node" where
  "split_node target direction new_id ratio = Split direction ratio (Pane target) (Pane new_id)"

definition valid_split_ratio :: "f32 \<Rightarrow> f32" where
  "valid_split_ratio ratio =
     (if is_finite ratio then f32_clamp ratio f32_tenth f32_nine_tenths else f32_half)"

fun remove_pane :: "Node \<Rightarrow> PaneId \<Rightarrow> Node option" where
  "remove_pane (Pane i) target = (if i = target then None else Some (Pane i))"
| "remove_pane (Split direction ratio f s) target =
     (case (remove_pane f target, remove_pane s target) of
        (None, Some s') \<Rightarrow> Some s'
      | (Some f', None) \<Rightarrow> Some f'
      | (Some f', Some s') \<Rightarrow> Some (Split direction ratio f' s')
      | (None, None) \<Rightarrow> None)"

fun node_set_ratio_at :: "Node \<Rightarrow> bool list \<Rightarrow> f32 \<Rightarrow> bool \<times> Node" where
  "node_set_ratio_at (Pane i) path new_ratio = (False, Pane i)"
| "node_set_ratio_at (Split d r f s) [] new_ratio = (True, Split d new_ratio f s)"
| "node_set_ratio_at (Split d r f s) (b # path) new_ratio =
     (if b then (let (ok, s') = node_set_ratio_at s path new_ratio in (ok, Split d r f s'))
      else (let (ok, f') = node_set_ratio_at f path new_ratio in (ok, Split d r f' s)))"

fun get_ratio_at :: "Node \<Rightarrow> bool list \<Rightarrow> f32 option" where
  "get_ratio_at (Pane _) path = None"
| "get_ratio_at (Split _ r _ _) [] = Some r"
| "get_ratio_at (Split _ _ f s) (b # path) = (if b then get_ratio_at s path else get_ratio_at f path)"

section \<open>Directional navigation\<close>

definition ranges_overlap :: "u16 \<Rightarrow> u16 \<Rightarrow> u16 \<Rightarrow> u16 \<Rightarrow> bool" where
  "ranges_overlap a_start a_len b_start b_len \<longleftrightarrow>
     a_start < b_start + b_len \<and> b_start < a_start + a_len"

definition range_overlap_amount :: "u16 \<Rightarrow> u16 \<Rightarrow> u16 \<Rightarrow> u16 \<Rightarrow> u16" where
  "range_overlap_amount a_start a_len b_start b_len =
     (let a_end = saturating_add a_start a_len; b_end = saturating_add b_start b_len
      in saturating_sub (min a_end b_end) (max a_start b_start))"

definition range_center_distance :: "u16 \<Rightarrow> u16 \<Rightarrow> u16 \<Rightarrow> u16 \<Rightarrow> u16" where
  "range_center_distance a_start a_len b_start b_len =
     (let a_center = saturating_add (saturating_mul a_start 2) a_len;
          b_center = saturating_add (saturating_mul b_start 2) b_len
      in abs_diff a_center b_center)"

definition lies_in_direction :: "NavDirection \<Rightarrow> Rect \<Rightarrow> Rect \<Rightarrow> bool" where
  "lies_in_direction direction fr r =
     (case direction of
        NavLeft \<Rightarrow> rect_x r + rect_width r \<le> rect_x fr \<and>
          ranges_overlap (rect_y r) (rect_height r) (rect_y fr) (rect_height fr)
      | NavRight \<Rightarrow> rect_x fr + rect_width fr \<le> rect_x r \<and>
          ranges_overlap (rect_y r) (rect_height r) (rect_y fr) (rect_height fr)
      | NavUp \<Rightarrow> rect_y r + rect_height r \<le> rect_y fr \<and>
          ranges_overlap (rect_x r) (rect_width r) (rect_x fr) (rect_width fr)
      | NavDown \<Rightarrow> rect_y fr + rect_height fr \<le> rect_y r \<and>
          ranges_overlap (rect_x r) (rect_width r) (rect_x fr) (rect_width fr))"

definition direction_key ::
    "NavDirection \<Rightarrow> Rect \<Rightarrow> nat \<times> PaneInfo \<Rightarrow> u16 \<times> u16 Reverse \<times> u16 \<times> nat" where
  "direction_key direction fr = (\<lambda>(index, p).
     (let r = pane_rect p;
          edge_distance =
            (case direction of
               NavLeft \<Rightarrow> saturating_sub (rect_x fr) (rect_x r + rect_width r)
             | NavRight \<Rightarrow> saturating_sub (rect_x r) (rect_x fr + rect_width fr)
             | NavUp \<Rightarrow> saturating_sub (rect_y fr) (rect_y r + rect_height r)
             | NavDown \<Rightarrow> saturating_sub (rect_y r) (rect_y fr + rect_height fr));
          vertical = (direction = NavLeft \<or> direction = NavRight);
          overlap =
            (if vertical
             then range_overlap_amount (rect_y r) (rect_height r) (rect_y fr) (rect_height fr)
             else range_overlap_amount (rect_x r) (rect_width r) (rect_x fr) (rect_width fr));
          center_distance =
            (if vertical
             then range_center_distance (rect_y r) (rect_height r) (rect_y fr) (rect_height fr)
             else range_center_distance (rect_x r) (rect_width r) (rect_x fr) (rect_width fr))
      in (edge_distance, Reverse overlap, center_distance, index)))"

definition find_in_direction :: "PaneInfo \<Rightarrow> NavDirection \<Rightarrow> PaneInfo list \<Rightarrow> PaneId option" where
  "find_in_direction focused direction panes =
     (let fr = pane_rect focused;
          candidates = filter (\<lambda>(_, p). lies_in_direction direction fr (pane_rect p))
                         (filter (\<lambda>(_, p). pane_id p \<noteq> pane_id focused)
                           (zip [0..<length panes] panes))
      in map_option (\<lambda>(_, p). pane_id p) (min_by_key (direction_key direction fr) candidates))"

definition split_edge_distance :: "SplitBorder \<Rightarrow> Rect \<Rightarrow> NavDirection \<Rightarrow> nat" where
  "split_edge_distance split focused nav =
     (let dist = (\<lambda>edge :: u16. nat \<bar>uint (split_pos split) - uint edge\<bar>)
      in case nav of
           NavLeft \<Rightarrow> dist (rect_x focused)
         | NavRight \<Rightarrow> dist (rect_x focused + rect_width focused)
         | NavUp \<Rightarrow> dist (rect_y focused)
         | NavDown \<Rightarrow> dist (rect_y focused + rect_height focused))"

definition split_on_requested_edge :: "SplitBorder \<Rightarrow> Rect \<Rightarrow> NavDirection \<Rightarrow> bool" where
  "split_on_requested_edge split focused nav \<longleftrightarrow> split_edge_distance split focused nav \<le> 1"

definition split_area_overlaps_focused_pane :: "SplitBorder \<Rightarrow> Rect \<Rightarrow> NavDirection \<Rightarrow> bool" where
  "split_area_overlaps_focused_pane split focused nav =
     (if nav = NavLeft \<or> nav = NavRight
      then ranges_overlap (rect_y (split_area split)) (rect_height (split_area split))
             (rect_y focused) (rect_height focused)
      else ranges_overlap (rect_x (split_area split)) (rect_width (split_area split))
             (rect_x focused) (rect_width focused))"

definition nearest_resize_split ::
    "SplitBorder list \<Rightarrow> Direction \<Rightarrow> Rect \<Rightarrow> NavDirection \<Rightarrow> SplitBorder option" where
  "nearest_resize_split splits target_dir focused nav =
     min_by_key (\<lambda>s. split_edge_distance s focused nav)
       (filter (\<lambda>s. split_on_requested_edge s focused nav)
         (filter (\<lambda>s. split_area_overlaps_focused_pane s focused nav)
           (filter (\<lambda>s. split_direction s = target_dir) splits)))"

fun opposite_direction :: "NavDirection \<Rightarrow> NavDirection" where
  "opposite_direction NavLeft = NavRight"
| "opposite_direction NavRight = NavLeft"
| "opposite_direction NavUp = NavDown"
| "opposite_direction NavDown = NavUp"

section \<open>Operations of a layout\<close>

definition new_layout :: "u32 \<Rightarrow> TileLayout \<times> PaneId \<times> u32" where
  "new_layout next_pane_id =
     (let (root_id, n) = alloc next_pane_id
      in (\<lparr>tl_root = Pane root_id, tl_focus = root_id, tl_prev_focus = None\<rparr>, root_id, n))"

definition set_focus :: "TileLayout \<Rightarrow> PaneId \<Rightarrow> TileLayout" where
  "set_focus self i =
     (if i \<noteq> tl_focus self
      then self\<lparr>tl_prev_focus := Some (tl_focus self), tl_focus := i\<rparr> else self)"

definition pane_count :: "TileLayout \<Rightarrow> nat" where
  "pane_count self = count_panes (tl_root self)"

definition panes :: "rect_ctor \<Rightarrow> TileLayout \<Rightarrow> Rect \<Rightarrow> PaneInfo list" where
  "panes rect_new self area = collect_panes rect_new (tl_root self) area (tl_focus self) []"

definition splits :: "rect_ctor \<Rightarrow> TileLayout \<Rightarrow> Rect \<Rightarrow> SplitBorder list" where
  "splits rect_new self area = collect_splits rect_new (tl_root self) area [] []"

definition pane_ids :: "TileLayout \<Rightarrow> PaneId list" where
  "pane_ids self = collect_ids (tl_root self) []"

definition split_pane ::
    "u32 \<Rightarrow> TileLayout \<Rightarrow> PaneId \<Rightarrow> Direction \<Rightarrow> f32 \<Rightarrow> PaneId option \<times> TileLayout \<times> u32" where
  "split_pane next_pane_id self target direction ratio =
     (case find_pane_mut (tl_root self) target of
        None \<Rightarrow> (None, self, next_pane_id)
      | Some node \<Rightarrow>
          (let (new_id, n) = alloc next_pane_id
           in (Some new_id,
               self\<lparr>tl_root := assign_node (tl_root self) node
                      (split_node target direction new_id (valid_split_ratio ratio))\<rparr>, n)))"

definition insert_pane_near ::
    "TileLayout \<Rightarrow> PaneId \<Rightarrow> PaneId \<Rightarrow> Direction \<Rightarrow> f32 \<Rightarrow> bool \<Rightarrow> bool \<times> TileLayout" where
  "insert_pane_near self target moved direction ratio focus =
     (if target = moved then (False, self)
      else if moved \<in> set (pane_ids self) then (False, self)
      else case find_pane_mut (tl_root self) target of
             None \<Rightarrow> (False, self)
           | Some node \<Rightarrow>
               (let self1 = self\<lparr>tl_root := assign_node (tl_root self) node
                              (split_node target direction moved (valid_split_ratio ratio))\<rparr>
                in (True, if focus then set_focus self1 moved else self1)))"

definition close_focused :: "TileLayout \<Rightarrow> (bool \<times> TileLayout) option" where
  "close_focused self =
     (if pane_count self \<le> 1 then Some (False, self)
      else
        let target = tl_focus self; ids = pane_ids self
        in case position (\<lambda>i. i = target) ids of
             None \<Rightarrow> None
           | Some pos \<Rightarrow>
               if \<not> pos + 1 < length ids \<and> pos = 0 then None
               else
                 let ordered = (if pos + 1 < length ids then ids ! (pos + 1) else ids ! (pos - 1));
                     new_focus =
                       (case tl_prev_focus self of
                          Some prev \<Rightarrow> if prev \<noteq> target \<and> prev \<in> set ids then prev else ordered
                        | None \<Rightarrow> ordered)
                 in case remove_pane (tl_root self) target of
                      Some new_root \<Rightarrow>
                        Some (True, self\<lparr>tl_root := new_root, tl_focus := new_focus,
                                         tl_prev_focus := None\<rparr>)
                    | None \<Rightarrow> Some (False, self\<lparr>tl_root := Pane (PaneId 0)\<rparr>))"

definition close_pane :: "TileLayout \<Rightarrow> PaneId \<Rightarrow> (bool \<times> TileLayout) option" where
  "close_pane self i =
     (if tl_focus self = i then close_focused self
      else if pane_count self \<le> 1 \<or> i \<notin> set (pane_ids self) then Some (False, self)
      else case remove_pane (tl_root self) i of
             None \<Rightarrow> Some (False, self\<lparr>tl_root := Pane (PaneId 0)\<rparr>)
           | Some new_root \<Rightarrow>
               (let self1 = self\<lparr>tl_root := new_root\<rparr>
                in Some (True, if tl_prev_focus self1 = Some i
                               then self1\<lparr>tl_prev_focus := None\<rparr> else self1)))"

definition focus_pane :: "TileLayout \<Rightarrow> PaneId \<Rightarrow> TileLayout" where
  "focus_pane self i = (if i \<in> set (pane_ids self) then set_focus self i else self)"

definition swap_panes :: "TileLayout \<Rightarrow> PaneId \<Rightarrow> PaneId \<Rightarrow> bool \<times> TileLayout" where
  "swap_panes self p q =
     (if p = q then (False, self)
      else if p \<notin> set (pane_ids self) \<or> q \<notin> set (pane_ids self) then (False, self)
      else (True, self\<lparr>tl_root := swap_pane_ids (tl_root self) p q\<rparr>))"

definition set_ratio_at :: "TileLayout \<Rightarrow> bool list \<Rightarrow> f32 \<Rightarrow> bool \<times> TileLayout" where
  "set_ratio_at self path ratio =
     (let (ok, r) = node_set_ratio_at (tl_root self) path
                      (f32_clamp ratio f32_tenth f32_nine_tenths)
      in (ok, self\<lparr>tl_root := r\<rparr>))"

definition resize_focused ::
    "rect_ctor \<Rightarrow> TileLayout \<Rightarrow> NavDirection \<Rightarrow> f32 \<Rightarrow> Rect \<Rightarrow> TileLayout" where
  "resize_focused rect_new self nav delta area =
     (case find is_focused (panes rect_new self area) of
        None \<Rightarrow> self
      | Some focused \<Rightarrow>
          (let focused_rect = pane_rect focused;
               ss = splits rect_new self area;
               target_dir = (if nav = NavLeft \<or> nav = NavRight then Horizontal else Vertical);
               grows = (nav = NavRight \<or> nav = NavDown);
               best = (case nearest_resize_split ss target_dir focused_rect nav of
                         Some s \<Rightarrow> Some s
                       | None \<Rightarrow> nearest_resize_split ss target_dir focused_rect
                                  (opposite_direction nav))
           in case best of
                None \<Rightarrow> self
              | Some split \<Rightarrow>
                  (let path = split_path split;
                       current_ratio = (case get_ratio_at (tl_root self) path of
                                          Some r \<Rightarrow> r | None \<Rightarrow> f32_half);
                       adj = (if grows then delta else f32_neg delta)
                   in snd (set_ratio_at self path (f32_add current_ratio adj)))))"

definition ratios_eq :: "(bool list \<times> f32) list \<Rightarrow> (bool list \<times> f32) list \<Rightarrow> bool" where
  "ratios_eq xs ys = list_all2 (\<lambda>(p, a) (q, b). p = q \<and> f32_eq a b) xs ys"

definition resize_pane ::
    "rect_ctor \<Rightarrow> TileLayout \<Rightarrow> PaneId \<Rightarrow> NavDirection \<Rightarrow> f32 \<Rightarrow> Rect \<Rightarrow> bool \<times> TileLayout" where
  "resize_pane rect_new self i nav delta area =
     (if i \<notin> set (pane_ids self) then (False, self)
      else
        let before = split_ratios (tl_root self);
            previous_focus = tl_focus self;
            self1 = resize_focused rect_new (self\<lparr>tl_focus := i\<rparr>) nav delta area;
            self2 = self1\<lparr>tl_focus := previous_focus\<rparr>
        in (\<not> ratios_eq (split_ratios (tl_root self2)) before, self2))"

definition from_saved :: "Node \<Rightarrow> PaneId \<Rightarrow> TileLayout" where
  "from_saved r focus = \<lparr>tl_root = r, tl_focus = focus, tl_prev_focus = None\<rparr>"

section \<open>The ids of a tree\<close>

fun node_ids :: "Node \<Rightarrow> PaneId list" where
  "node_ids (Pane i) = [i]"
| "node_ids (Split _ _ f s) = node_ids f @ node_ids s"

fun node_ratios :: "Node \<Rightarrow> f32 list" where
  "node_ratios (Pane _) = []"
| "node_ratios (Split _ r f s) = r # node_ratios f @ node_ratios s"

fun same_shape :: "Node \<Rightarrow> Node \<Rightarrow> bool" where
  "same_shape (Pane i) (Pane j) = (i = j)"
| "same_shape (Split d _ f s) (Split d' _ f' s') = (d = d' \<and> same_shape f f' \<and> same_shape s s')"
| "same_shape _ _ = False"

fun insert_after :: "'a \<Rightarrow> 'a \<Rightarrow> 'a list \<Rightarrow> 'a list" where
  "insert_after t n [] = []"
| "insert_after t n (x # xs) = (if x = t then x # n # xs else x # insert_after t n xs)"

lemma collect_ids_eq: "collect_ids node ids = ids @ node_ids node"
  by (induction node arbitrary: ids) auto

lemma pane_ids_eq: "pane_ids l = node_ids (tl_root l)"
  by (simp add: pane_ids_def collect_ids_eq)

lemma count_panes_eq: "count_panes node = length (node_ids node)"
  by (induction node) auto

lemma node_ids_nonempty [simp]: "node_ids node \<noteq> []"
  by (induction node) auto

lemma insert_after_notin [simp]: "t \<notin> set xs \<Longrightarrow> insert_after t n xs = xs"
  by (induction xs) auto

lemma insert_after_append:
  "insert_after t n (xs @ ys) =
     (if t \<in> set xs then insert_after t n xs @ ys else xs @ insert_after t n ys)"
  by (induction xs) auto

lemma set_insert_after [simp]: "t \<in> set xs \<Longrightarrow> set (insert_after t n xs) = insert n (set xs)"
  by (induction xs) auto

lemma distinct_insert_after: "distinct xs \<Longrightarrow> n \<notin> set xs \<Longrightarrow> distinct (insert_after t n xs)"
proof (induction xs)
  case (Cons x xs)
  then show ?case by (cases "t \<in> set xs") auto
qed simp

lemma find_pane_mut_None [simp]: "find_pane_mut node t = None \<longleftrightarrow> t \<notin> set (node_ids node)"
  by (induction node) (auto split: option.splits)

lemma find_pane_mut_in: "find_pane_mut node t = Some p \<Longrightarrow> t \<in> set (node_ids node)"
  by (rule ccontr) (simp flip: find_pane_mut_None)

lemma node_ids_assign:
  "find_pane_mut node t = Some p \<Longrightarrow>
     node_ids (assign_node node p (split_node t d n r)) = insert_after t n (node_ids node)"
proof (induction node arbitrary: p)
  case (Pane i)
  then show ?case by (auto simp: split_node_def split: if_splits)
next
  case (Split d' r' f s)
  then show ?case
    by (cases "find_pane_mut f t") (auto simp: insert_after_append dest: find_pane_mut_in)
qed

lemma node_ratios_assign:
  "set (node_ratios (assign_node node p (split_node t d n r))) \<subseteq> insert r (set (node_ratios node))"
proof (induction node p "split_node t d n r" rule: assign_node.induct)
  case (1 node)
  then show ?case by (simp add: split_node_def)
qed auto

lemma remove_pane_ids:
  "(case remove_pane node t of None \<Rightarrow> [] | Some node' \<Rightarrow> node_ids node') =
     filter (\<lambda>i. i \<noteq> t) (node_ids node)"
  by (induction node) (auto split: option.splits)

lemma remove_pane_ratios:
  "remove_pane node t = Some node' \<Longrightarrow> set (node_ratios node') \<subseteq> set (node_ratios node)"
  by (induction node arbitrary: node') (auto split: option.splits if_splits)

lemma remove_pane_absent [simp]: "t \<notin> set (node_ids node) \<Longrightarrow> remove_pane node t = Some node"
  by (induction node) auto

lemma remove_pane_assign:
  assumes "find_pane_mut node t = Some p" "n \<notin> set (node_ids node)"
  shows "remove_pane (assign_node node p (split_node t d n r)) n = Some node"
  using assms
proof (induction node arbitrary: p)
  case (Pane i)
  then show ?case by (auto simp: split_node_def split: if_splits)
next
  case (Split d' r' f s)
  then show ?case by (cases "find_pane_mut f t") auto
qed

lemma node_ids_swap:
  "node_ids (swap_pane_ids node p q) =
     map (\<lambda>i. if i = p then q else if i = q then p else i) (node_ids node)"
  by (induction node) auto

lemma node_ratios_swap [simp]: "node_ratios (swap_pane_ids node p q) = node_ratios node"
  by (induction node) auto

lemma swap_pane_ids_twice [simp]: "swap_pane_ids (swap_pane_ids node p q) p q = node"
  by (induction node) auto

lemma node_set_ratio_at_ids [simp]: "node_ids (snd (node_set_ratio_at node path r)) = node_ids node"
  by (induction node path r rule: node_set_ratio_at.induct) (auto split: prod.splits)

lemma node_set_ratio_at_shape: "same_shape node (snd (node_set_ratio_at node path r))"
proof -
  have refl: "same_shape m m" for m by (induction m) auto
  show ?thesis
    by (induction node path r rule: node_set_ratio_at.induct) (auto simp: refl split: prod.splits)
qed

lemma node_set_ratio_at_ratios:
  "set (node_ratios (snd (node_set_ratio_at node path r))) \<subseteq> insert r (set (node_ratios node))"
  by (induction node path r rule: node_set_ratio_at.induct) (auto split: prod.splits)

lemma node_set_ratio_at_iff: "fst (node_set_ratio_at node path r) \<longleftrightarrow> get_ratio_at node path \<noteq> None"
  by (induction node path r rule: node_set_ratio_at.induct) (auto split: prod.splits)

lemma node_set_get_ratio:
  "get_ratio_at (snd (node_set_ratio_at node path r)) path' =
     (if path' = path \<and> get_ratio_at node path \<noteq> None then Some r else get_ratio_at node path')"
proof (induction node path r arbitrary: path' rule: node_set_ratio_at.induct)
  case (2 d r f s r')
  then show ?case by (cases path') auto
next
  case (3 d r f s b path r')
  then show ?case by (cases path') (auto split: prod.splits)
qed simp

lemma node_set_ratio_absent: "get_ratio_at node path = None \<Longrightarrow> snd (node_set_ratio_at node path r) = node"
  by (induction node path r rule: node_set_ratio_at.induct) (auto split: prod.splits if_splits)

section \<open>Invariant of the layout machine\<close>

definition ratios_ok :: "Node \<Rightarrow> bool" where
  "ratios_ok node \<longleftrightarrow> list_all ratio_ok (node_ratios node)"

definition layout_inv :: "u32 \<times> TileLayout \<Rightarrow> bool" where
  "layout_inv = (\<lambda>(n, l).
     distinct (pane_ids l) \<and> tl_focus l \<in> set (pane_ids l) \<and>
     (case tl_prev_focus l of None \<Rightarrow> True | Some p \<Rightarrow> p \<in> set (pane_ids l) \<and> p \<noteq> tl_focus l) \<and>
     list_all (\<lambda>i. raw i < n) (pane_ids l) \<and> ratios_ok (tl_root l))"

text \<open>The steps a tab can make on its layout. A split draws an id from the process-wide
  counter, which has not run through all \<open>2^32\<close> values; an inserted pane was allocated
  before; other tabs and workspaces draw ids at any time.\<close>

inductive layout_step :: "u32 \<times> TileLayout \<Rightarrow> u32 \<times> TileLayout \<Rightarrow> bool" where
  step_split: "n \<noteq> - 1 \<Longrightarrow> split_pane n l t d r = (res, l', n') \<Longrightarrow> layout_step (n, l) (n', l')"
| step_insert: "raw moved < n \<Longrightarrow> layout_step (n, l) (n, snd (insert_pane_near l t moved d r foc))"
| step_close: "close_pane l i = Some (b, l') \<Longrightarrow> layout_step (n, l) (n, l')"
| step_focus: "layout_step (n, l) (n, focus_pane l i)"
| step_swap: "layout_step (n, l) (n, snd (swap_panes l p q))"
| step_ratio: "layout_step (n, l) (n, snd (set_ratio_at l path r))"
| step_resize_focused: "layout_step (n, l) (n, resize_focused rn l nav delta area)"
| step_resize: "layout_step (n, l) (n, snd (resize_pane rn l i nav delta area))"
| step_alloc: "n \<noteq> - 1 \<Longrightarrow> layout_step (n, l) (snd (alloc n), l)"

inductive_cases layout_stepE: "layout_step (n, l) (n', l')"

definition layout_init :: "u32 \<times> TileLayout \<Rightarrow> bool" where
  "layout_init = (\<lambda>(n', l). \<exists>n. n \<noteq> - 1 \<and> new_layout n = (l, tl_focus l, n'))"

lemma ratios_ok_mono:
  "ratios_ok node \<Longrightarrow> set (node_ratios node') \<subseteq> insert r (set (node_ratios node)) \<Longrightarrow> ratio_ok r \<Longrightarrow>
     ratios_ok node'"
  by (auto simp: ratios_ok_def list_all_iff)

lemma ratio_ok_valid [simp]: "ratio_ok (valid_split_ratio r)"
  by (simp add: valid_split_ratio_def ratio_ok_clamp) (simp add: ratio_ok_def f32_half_def)

lemma alloc_less: "n \<noteq> - 1 \<Longrightarrow> n < n + 1" for n :: u32
proof -
  assume "n \<noteq> - 1"
  then have "unat n \<noteq> 2 ^ 32 - 1"
    using unat_minus_one_max [where 'a = 32] by (auto simp: word_unat_eq_iff)
  then have "unat n + 1 < 2 ^ LENGTH(32)" using unsigned_less [of n, where ?'a = nat] by simp
  then show ?thesis by (simp add: word_less_nat_alt unat_add_no_wrap)
qed

text \<open>Both ways a tree grows: a pane, not yet in the tree, goes beside \<open>t\<close>.\<close>

lemma grow_inv:
  assumes inv: "layout_inv (n, l)" and p: "find_pane_mut (tl_root l) t = Some p"
    and new: "new \<notin> set (pane_ids l)" "raw new < n'" "n \<le> n'"
    and l': "l' = l\<lparr>tl_root := assign_node (tl_root l) p (split_node t d new (valid_split_ratio r))\<rparr>"
  shows "layout_inv (n', l')" and "pane_ids l' = insert_after t new (pane_ids l)"
    and "new \<in> set (pane_ids l')"
proof -
  show ids: "pane_ids l' = insert_after t new (pane_ids l)"
    by (simp add: l' pane_ids_eq node_ids_assign [OF p])
  have t: "t \<in> set (pane_ids l)" using find_pane_mut_in [OF p] by (simp add: pane_ids_eq)
  then show "new \<in> set (pane_ids l')" by (simp add: ids)
  have other: "tl_focus l' = tl_focus l" "tl_prev_focus l' = tl_prev_focus l" by (simp_all add: l')
  have "ratios_ok (tl_root l')"
    using inv node_ratios_assign [of "tl_root l" p t d new "valid_split_ratio r"]
    by (auto simp: layout_inv_def l' intro: ratios_ok_mono)
  with inv new t show "layout_inv (n', l')"
    by (auto simp: layout_inv_def ids other distinct_insert_after list_all_iff split: option.splits)
qed

lemma split_inv:
  assumes "layout_inv (n, l)" "n \<noteq> - 1" "split_pane n l t d r = (res, l', n')"
  shows "layout_inv (n', l')"
proof (cases "find_pane_mut (tl_root l) t")
  case None
  with assms show ?thesis by (simp add: split_pane_def del: find_pane_mut_None)
next
  case (Some p)
  have "PaneId n \<notin> set (pane_ids l)" using assms(1) by (auto simp: layout_inv_def list_all_iff)
  with Some assms alloc_less [OF assms(2)] show ?thesis
    by (auto simp: split_pane_def alloc_def intro!: grow_inv(1) [OF assms(1) Some])
qed

lemma set_focus_inv:
  "layout_inv (n, l) \<Longrightarrow> i \<in> set (pane_ids l) \<Longrightarrow> layout_inv (n, set_focus l i)"
  by (auto simp: layout_inv_def set_focus_def pane_ids_eq)

lemma insert_inv:
  assumes "layout_inv (n, l)" "raw moved < n"
  shows "layout_inv (n, snd (insert_pane_near l t moved d r foc))"
proof (cases "find_pane_mut (tl_root l) t")
  case None
  then show ?thesis using assms(1) by (simp add: insert_pane_near_def del: find_pane_mut_None)
next
  case (Some p)
  show ?thesis
  proof (cases "t = moved \<or> moved \<in> set (pane_ids l)")
    case True
    then show ?thesis using assms(1) by (auto simp: insert_pane_near_def)
  next
    case False
    then have new: "moved \<notin> set (pane_ids l)" by simp
    note grown = grow_inv [OF assms(1) Some new assms(2) order_refl refl, of d r]
    show ?thesis
      using False grown set_focus_inv [OF grown(1,3)]
      by (simp add: insert_pane_near_def Some Let_def)
  qed
qed

text \<open>What closing the focused pane focuses next: the pane focused before if it is still
  there, or the neighbour in reading order.\<close>

definition next_focus :: "TileLayout \<Rightarrow> PaneId \<Rightarrow> PaneId \<Rightarrow> bool" where
  "next_focus l t f \<longleftrightarrow>
     (case tl_prev_focus l of
        Some p \<Rightarrow> f = p
      | None \<Rightarrow> (\<exists>k. (pane_ids l ! k = t \<and> Suc k < length (pane_ids l) \<and> f = pane_ids l ! Suc k)
                  \<or> (pane_ids l ! Suc k = t \<and> length (pane_ids l) = Suc (Suc k) \<and> f = pane_ids l ! k)))"

lemma filter_neq_remove1: "distinct xs \<Longrightarrow> filter (\<lambda>i. i \<noteq> t) xs = remove1 t xs"
  by (induction xs) (auto simp: filter_id_conv)

lemma remove_pane_Some:
  assumes "distinct (node_ids node)" "1 < length (node_ids node)"
  obtains node' where "remove_pane node t = Some node'" "node_ids node' = remove1 t (node_ids node)"
proof -
  have "filter (\<lambda>i. i \<noteq> t) (node_ids node) \<noteq> []"
    using assms length_remove1 [of t "node_ids node"] by (auto simp: filter_neq_remove1 split: if_splits)
  with remove_pane_ids [of node t] that show ?thesis
    using filter_neq_remove1 [OF assms(1), of t] by (cases "remove_pane node t") auto
qed

lemma close_focused_spec:
  assumes "layout_inv (n, l)" "1 < length (pane_ids l)"
  shows "\<exists>root' f. close_focused l = Some (True, \<lparr>tl_root = root', tl_focus = f, tl_prev_focus = None\<rparr>) \<and>
           remove_pane (tl_root l) (tl_focus l) = Some root' \<and>
           node_ids root' = remove1 (tl_focus l) (pane_ids l) \<and>
           f \<in> set (pane_ids l) \<and> f \<noteq> tl_focus l \<and> next_focus l (tl_focus l) f"
proof -
  let ?ids = "pane_ids l" and ?t = "tl_focus l"
  have dist: "distinct ?ids" and foc: "?t \<in> set ?ids" using assms by (auto simp: layout_inv_def)
  obtain pos where pos: "position (\<lambda>i. i = ?t) ?ids = Some pos"
    using position_exists [OF foc, of "\<lambda>i. i = ?t"] by auto
  have posD: "pos < length ?ids" "?ids ! pos = ?t" using position_Some [OF pos] by auto
  obtain root' where root': "remove_pane (tl_root l) ?t = Some root'"
      "node_ids root' = remove1 ?t ?ids"
    using remove_pane_Some [of "tl_root l" ?t] dist assms(2) by (auto simp: pane_ids_eq)
  define ordered where "ordered = (if pos + 1 < length ?ids then ?ids ! (pos + 1) else ?ids ! (pos - 1))"
  have ordered: "ordered \<in> set ?ids \<and> ordered \<noteq> ?t"
    using posD assms(2) nth_eq_iff_index_eq [OF dist, of "pos + 1" pos]
      nth_eq_iff_index_eq [OF dist, of "pos - 1" pos] by (auto simp: ordered_def)
  have next_ordered: "tl_prev_focus l = None \<Longrightarrow> next_focus l ?t ordered"
    using posD assms(2) unfolding next_focus_def ordered_def
    by (cases "pos + 1 < length ?ids") (auto intro: exI [of _ pos] exI [of _ "pos - 1"])
  define f where "f = (case tl_prev_focus l of
        Some prev \<Rightarrow> if prev \<noteq> ?t \<and> prev \<in> set ?ids then prev else ordered | None \<Rightarrow> ordered)"
  have f: "f \<in> set ?ids" "f \<noteq> ?t" "next_focus l ?t f"
    using ordered next_ordered assms(1)
    by (auto simp: f_def layout_inv_def next_focus_def split: option.splits)
  have nonzero: "pos + 1 < length ?ids \<or> 0 < pos" using assms(2) by auto
  have "close_focused l = Some (True, \<lparr>tl_root = root', tl_focus = f, tl_prev_focus = None\<rparr>)"
    using assms(2) pos root'(1) posD(1) nonzero
    by (cases "tl_prev_focus l")
      (simp_all add: close_focused_def Let_def pane_count_def count_panes_eq pane_ids_eq [symmetric]
        f_def ordered_def)
  with root' f show ?thesis by blast
qed

lemma close_pane_other:
  assumes "layout_inv (n, l)" "1 < length (pane_ids l)" "i \<in> set (pane_ids l)" "i \<noteq> tl_focus l"
  shows "\<exists>root'. close_pane l i = Some (True, l\<lparr>tl_root := root',
             tl_prev_focus := (if tl_prev_focus l = Some i then None else tl_prev_focus l)\<rparr>) \<and>
           remove_pane (tl_root l) i = Some root' \<and> node_ids root' = remove1 i (pane_ids l)"
proof -
  obtain root' where root': "remove_pane (tl_root l) i = Some root'"
      "node_ids root' = remove1 i (pane_ids l)"
    using remove_pane_Some [of "tl_root l" i] assms by (auto simp: pane_ids_eq layout_inv_def)
  then have "close_pane l i = Some (True, l\<lparr>tl_root := root',
      tl_prev_focus := (if tl_prev_focus l = Some i then None else tl_prev_focus l)\<rparr>)"
    using assms(2-4) by (cases l)
      (auto simp: close_pane_def pane_count_def count_panes_eq pane_ids_eq)
  with root' show ?thesis by blast
qed

lemma close_pane_refused:
  assumes "layout_inv (n, l)" "length (pane_ids l) \<le> 1 \<or> i \<notin> set (pane_ids l)"
  shows "close_pane l i = Some (False, l)"
  using assms
  by (auto simp: close_pane_def close_focused_def pane_count_def count_panes_eq
      pane_ids_eq [symmetric] layout_inv_def)

lemma remove1_inv:
  assumes "layout_inv (n, l)" "remove_pane (tl_root l) i = Some root'"
    "node_ids root' = remove1 i (pane_ids l)" "f \<in> set (pane_ids l)" "f \<noteq> i"
    "case pf of None \<Rightarrow> True | Some p \<Rightarrow> p \<in> set (pane_ids l) \<and> p \<noteq> i \<and> p \<noteq> f"
  shows "layout_inv (n, \<lparr>tl_root = root', tl_focus = f, tl_prev_focus = pf\<rparr>)"
  using assms remove_pane_ratios [OF assms(2)]
  by (auto simp: layout_inv_def pane_ids_eq ratios_ok_def list_all_iff split: option.splits
      dest: notin_set_remove1)

lemma close_inv:
  assumes inv: "layout_inv (n, l)" and close: "close_pane l i = Some (b, l')"
  shows "layout_inv (n, l')"
proof -
  consider "length (pane_ids l) \<le> 1 \<or> i \<notin> set (pane_ids l)"
    | "1 < length (pane_ids l)" "i = tl_focus l"
    | "1 < length (pane_ids l)" "i \<in> set (pane_ids l)" "i \<noteq> tl_focus l" by fastforce
  then show ?thesis
  proof cases
    case 1
    with close_pane_refused [OF inv 1] close inv show ?thesis by simp
  next
    case 2
    with close_focused_spec [OF inv 2(1)] close inv show ?thesis
      by (auto simp: close_pane_def intro!: remove1_inv)
  next
    case 3
    from close_pane_other [OF inv 3] obtain root' where
      r: "l' = l\<lparr>tl_root := root',
             tl_prev_focus := (if tl_prev_focus l = Some i then None else tl_prev_focus l)\<rparr>"
        "remove_pane (tl_root l) i = Some root'" "node_ids root' = remove1 i (pane_ids l)"
      using close by auto
    let ?pf = "if tl_prev_focus l = Some i then None else tl_prev_focus l"
    have pf: "case ?pf of None \<Rightarrow> True | Some p \<Rightarrow> p \<in> set (pane_ids l) \<and> p \<noteq> i \<and> p \<noteq> tl_focus l"
      using inv by (auto simp: layout_inv_def split: option.splits)
    have "layout_inv (n, \<lparr>tl_root = root', tl_focus = tl_focus l, tl_prev_focus = ?pf\<rparr>)"
      using inv 3 by (intro remove1_inv [OF inv r(2,3) _ _ pf]) (auto simp: layout_inv_def)
    moreover have "l' = \<lparr>tl_root = root', tl_focus = tl_focus l, tl_prev_focus = ?pf\<rparr>"
      by (simp add: r(1))
    ultimately show ?thesis by simp
  qed
qed

lemma swap_inv:
  assumes "layout_inv (n, l)"
  shows "layout_inv (n, snd (swap_panes l p q))"
proof (cases "p = q \<or> p \<notin> set (pane_ids l) \<or> q \<notin> set (pane_ids l)")
  case True
  then show ?thesis using assms by (auto simp: swap_panes_def)
next
  case False
  let ?f = "\<lambda>i. if i = p then q else if i = q then p else i"
  have ids: "pane_ids (snd (swap_panes l p q)) = map ?f (pane_ids l)"
    using False by (simp add: swap_panes_def pane_ids_eq node_ids_swap)
  have inj: "inj ?f" by (auto simp: inj_def)
  have "?f ` set (pane_ids l) = set (pane_ids l)" using False by (auto simp: image_iff)
  then have set: "set (map ?f (pane_ids l)) = set (pane_ids l)" by simp
  have dist: "distinct (map ?f (pane_ids l))"
    using assms inj by (auto simp: distinct_map layout_inv_def intro: inj_on_subset)
  have "layout_inv (n, l) \<Longrightarrow> layout_inv (n, snd (swap_panes l p q))"
    unfolding layout_inv_def prod.case ids list_all_iff set
    using False dist by (simp add: swap_panes_def ratios_ok_def split: option.splits)
  with assms show ?thesis by simp
qed

lemma ratio_inv: "layout_inv (n, l) \<Longrightarrow> layout_inv (n, snd (set_ratio_at l path r))"
proof -
  assume inv: "layout_inv (n, l)"
  let ?r = "f32_clamp r f32_tenth f32_nine_tenths"
  have eq: "snd (set_ratio_at l path r) = l\<lparr>tl_root := snd (node_set_ratio_at (tl_root l) path ?r)\<rparr>"
    by (simp add: set_ratio_at_def split: prod.splits)
  have "ratios_ok (snd (node_set_ratio_at (tl_root l) path ?r))"
    using inv node_set_ratio_at_ratios [of "tl_root l" path ?r]
    by (auto simp: layout_inv_def intro: ratios_ok_mono ratio_ok_clamp)
  then show ?thesis using inv by (auto simp: eq layout_inv_def pane_ids_eq split: option.splits)
qed

text \<open>A resize sets at most one ratio, and nothing else depends on the geometry.\<close>

lemma resize_focused_cases:
  "resize_focused rn l nav delta area = l \<or>
   (\<exists>path r. resize_focused rn l nav delta area = snd (set_ratio_at l path r))"
proof (cases "find is_focused (panes rn l area)")
  case None
  then show ?thesis by (simp add: resize_focused_def)
next
  case (Some focused)
  have pick: "(case best of None \<Rightarrow> l | Some s \<Rightarrow> snd (set_ratio_at l (path s) (r s))) = l \<or>
      (\<exists>path' r'. (case best of None \<Rightarrow> l | Some s \<Rightarrow> snd (set_ratio_at l (path s) (r s))) =
        snd (set_ratio_at l path' r'))" for best :: "SplitBorder option" and path r
    by (cases best) auto
  show ?thesis unfolding resize_focused_def Let_def Some option.case by (rule pick)
qed

lemma resize_pane_cases:
  "snd (resize_pane rn l i nav delta area) = l \<or>
   (\<exists>path r. snd (resize_pane rn l i nav delta area) = snd (set_ratio_at l path r))"
proof (cases "i \<in> set (pane_ids l)")
  case True
  have cong: "snd (set_ratio_at (l\<lparr>tl_focus := i\<rparr>) path r)\<lparr>tl_focus := tl_focus l\<rparr> =
      snd (set_ratio_at l path r)" for path r
    by (cases l) (simp add: set_ratio_at_def split: prod.splits)
  have "snd (resize_pane rn l i nav delta area) =
      (resize_focused rn (l\<lparr>tl_focus := i\<rparr>) nav delta area)\<lparr>tl_focus := tl_focus l\<rparr>"
    using True by (simp add: resize_pane_def Let_def)
  moreover have "l\<lparr>tl_focus := i\<rparr>\<lparr>tl_focus := tl_focus l\<rparr> = l" by simp
  ultimately show ?thesis
    using resize_focused_cases [of rn "l\<lparr>tl_focus := i\<rparr>" nav delta area] cong by metis
qed (simp add: resize_pane_def)

lemma layout_step_inv: "layout_step s t \<Longrightarrow> layout_inv s \<Longrightarrow> layout_inv t"
proof (induction rule: layout_step.induct)
  case (step_resize_focused n l rn nav delta area)
  then show ?case
    using resize_focused_cases [of rn l nav delta area] ratio_inv by metis
next
  case (step_resize n l rn i nav delta area)
  then show ?case
    using resize_pane_cases [of rn l i nav delta area] ratio_inv by metis
next
  case (step_alloc n l)
  then show ?case
    using alloc_less [of n] by (auto simp: layout_inv_def alloc_def list_all_iff)
qed (auto intro: split_inv insert_inv close_inv swap_inv ratio_inv
      simp: focus_pane_def set_focus_inv)

lemma new_layout_inv: "layout_init s \<Longrightarrow> layout_inv s"
  by (auto simp: layout_init_def new_layout_def alloc_def layout_inv_def pane_ids_eq ratios_ok_def
      alloc_less)

interpretation layout_machine: safe_machine layout_init layout_step layout_inv
  by unfold_locales (auto intro: new_layout_inv layout_step_inv)

lemma get_ratio_in_ratios: "get_ratio_at node path = Some r \<Longrightarrow> r \<in> set (node_ratios node)"
  by (induction node path rule: get_ratio_at.induct) (auto split: if_splits)

section \<open>Properties\<close>

text \<open>C15: in every state a tab's layout can reach, the pane ids are distinct and were all
  allocated, the focused pane is in the tree, the remembered previous focus is another pane
  that is still open, and no ratio lets a first child outgrow its area.\<close>

theorem layout_reachable_invariant:
  assumes "reach layout_init layout_step (n, l)"
  shows "distinct (pane_ids l) \<and> tl_focus l \<in> set (pane_ids l) \<and>
    (\<forall>p. tl_prev_focus l = Some p \<longrightarrow> p \<in> set (pane_ids l) \<and> p \<noteq> tl_focus l) \<and>
    (\<forall>i \<in> set (pane_ids l). raw i < n) \<and>
    (\<forall>path r. get_ratio_at (tl_root l) path = Some r \<longrightarrow> ratio_ok r)"
proof -
  have "layout_inv (n, l)" using assms by (rule layout_machine.reach_inv)
  then show ?thesis
    by (auto simp: layout_inv_def list_all_iff ratios_ok_def dest!: get_ratio_in_ratios)
qed

lemma layout_example_reachable:
  "reach layout_init layout_step
     (3, \<lparr>tl_root = Split Horizontal f32_half (Pane (PaneId 1)) (Pane (PaneId 2)),
         tl_focus = PaneId 1, tl_prev_focus = None\<rparr>)"
proof (rule reach_step)
  show "reach layout_init layout_step (2, \<lparr>tl_root = Pane (PaneId 1), tl_focus = PaneId 1,
      tl_prev_focus = None\<rparr>)"
    by (rule reach_init) (auto simp: layout_init_def new_layout_def alloc_def intro!: exI [of _ 1])
  show "layout_step (2, \<lparr>tl_root = Pane (PaneId 1), tl_focus = PaneId 1, tl_prev_focus = None\<rparr>)
     (3, \<lparr>tl_root = Split Horizontal f32_half (Pane (PaneId 1)) (Pane (PaneId 2)),
         tl_focus = PaneId 1, tl_prev_focus = None\<rparr>)"
    by (rule step_split [where t = "PaneId 1" and d = Horizontal and r = f32_half])
      (simp_all add: split_pane_def alloc_def split_node_def valid_split_ratio_def f32_half_def
        is_finite_def f32_clamp_def f32_tenth_def f32_nine_tenths_def)
qed

theorem layout_reachable_invariant_witness:
  "distinct (pane_ids \<lparr>tl_root = Split Horizontal f32_half (Pane (PaneId 1)) (Pane (PaneId 2)),
     tl_focus = PaneId 1, tl_prev_focus = None\<rparr>)"
  using layout_reachable_invariant [OF layout_example_reachable] by blast

text \<open>C31: closing a pane never panics; it succeeds exactly when the pane is in the tree and
  is not the last one; then exactly that pane leaves the reading order, and focus moves only
  when the focused pane was closed, to the remembered pane or else to a neighbour. A refused
  close changes nothing.\<close>

theorem close_pane_correct:
  assumes "layout_inv (n, l)"
  shows "\<exists>ok l'. close_pane l i = Some (ok, l') \<and>
    (ok \<longleftrightarrow> i \<in> set (pane_ids l) \<and> 1 < length (pane_ids l)) \<and>
    (if \<not> ok then l' = l
     else pane_ids l' = remove1 i (pane_ids l) \<and>
       (if i = tl_focus l then next_focus l i (tl_focus l') \<and> tl_prev_focus l' = None
        else tl_focus l' = tl_focus l \<and>
          tl_prev_focus l' = (if tl_prev_focus l = Some i then None else tl_prev_focus l)))"
proof -
  consider "length (pane_ids l) \<le> 1 \<or> i \<notin> set (pane_ids l)"
    | "1 < length (pane_ids l)" "i = tl_focus l" "i \<in> set (pane_ids l)"
    | "1 < length (pane_ids l)" "i \<in> set (pane_ids l)" "i \<noteq> tl_focus l"
    by fastforce
  then show ?thesis
  proof cases
    case 1
    with close_pane_refused [OF assms 1] show ?thesis by auto
  next
    case 2
    obtain root' f where
      close: "close_focused l = Some (True, \<lparr>tl_root = root', tl_focus = f, tl_prev_focus = None\<rparr>)"
      and ids: "node_ids root' = remove1 (tl_focus l) (pane_ids l)"
      and next_f: "next_focus l (tl_focus l) f"
      using close_focused_spec [OF assms 2(1)] by blast
    have "close_pane l i = Some (True, \<lparr>tl_root = root', tl_focus = f, tl_prev_focus = None\<rparr>)"
      using close 2 by (simp add: close_pane_def)
    moreover have "pane_ids \<lparr>tl_root = root', tl_focus = f, tl_prev_focus = None\<rparr> =
        remove1 (tl_focus l) (pane_ids l)"
      using ids by (simp add: pane_ids_eq)
    ultimately show ?thesis using 2 next_f by (intro exI [of _ True]) simp
  next
    case 3
    obtain root' where
      close: "close_pane l i = Some (True, l\<lparr>tl_root := root',
        tl_prev_focus := (if tl_prev_focus l = Some i then None else tl_prev_focus l)\<rparr>)"
      and ids: "node_ids root' = remove1 i (pane_ids l)"
      using close_pane_other [OF assms 3] by blast
    moreover have "pane_ids (l\<lparr>tl_root := root',
        tl_prev_focus := (if tl_prev_focus l = Some i then None else tl_prev_focus l)\<rparr>) =
        remove1 i (pane_ids l)"
      using ids by (simp add: pane_ids_eq)
    ultimately show ?thesis using 3 by (intro exI [of _ True]) simp
  qed
qed

theorem close_pane_correct_witness:
  "\<exists>l'. close_pane \<lparr>tl_root = Split Horizontal f32_half (Pane (PaneId 1)) (Pane (PaneId 2)),
     tl_focus = PaneId 1, tl_prev_focus = None\<rparr> (PaneId 1) = Some (True, l')"
  using close_pane_correct [OF layout_machine.reach_inv [OF layout_example_reachable], of "PaneId 1"]
  by (auto simp: pane_ids_eq)

text \<open>Splitting a pane and closing the new pane restores the layout exactly: tree,
  ratios, focus and focus history.\<close>

theorem split_close_roundtrip:
  assumes "layout_inv (n, l)" "split_pane n l t d r = (Some new, l', n')"
  shows "close_pane l' new = Some (True, l)"
proof -
  obtain p where p: "find_pane_mut (tl_root l) t = Some p"
    using assms(2) by (auto simp: split_pane_def split: option.splits)
  have new: "new = PaneId n"
    and l': "l' = l\<lparr>tl_root := assign_node (tl_root l) p (split_node t d new (valid_split_ratio r))\<rparr>"
    using assms(2) p by (auto simp: split_pane_def alloc_def)
  have fresh: "new \<notin> set (pane_ids l)"
    using assms(1) by (auto simp: new layout_inv_def list_all_iff)
  have ids: "pane_ids l' = insert_after t new (pane_ids l)"
    by (simp add: l' pane_ids_eq node_ids_assign [OF p])
  have t: "t \<in> set (pane_ids l)" using find_pane_mut_in [OF p] by (simp add: pane_ids_eq)
  have len: "1 < length (pane_ids l')"
  proof -
    have "{t, new} \<subseteq> set (pane_ids l')" using t by (simp add: ids)
    then have "card {t, new} \<le> length (pane_ids l')"
      by (meson card_length card_mono finite_set le_trans)
    then show ?thesis using t fresh by (auto simp: card_insert_if split: if_splits)
  qed
  have "remove_pane (tl_root l') new = Some (tl_root l)"
    using remove_pane_assign [OF p] fresh by (simp add: l' pane_ids_eq)
  moreover have "tl_focus l \<noteq> new" "tl_prev_focus l \<noteq> Some new"
    using assms(1) fresh by (auto simp: layout_inv_def split: option.splits)
  ultimately show ?thesis
    using len t by (simp add: close_pane_def pane_count_def count_panes_eq pane_ids_eq [symmetric]
        ids Let_def) (simp add: l')
qed

theorem split_close_roundtrip_witness:
  "close_pane \<lparr>tl_root = Split Vertical f32_half (Pane (PaneId 1)) (Pane (PaneId 2)),
     tl_focus = PaneId 1, tl_prev_focus = None\<rparr> (PaneId 2) =
   Some (True, \<lparr>tl_root = Pane (PaneId 1), tl_focus = PaneId 1, tl_prev_focus = None\<rparr>)"
proof (rule split_close_roundtrip [where n = 2 and t = "PaneId 1" and d = Vertical and r = f32_half
      and n' = 3])
  show "layout_inv (2, \<lparr>tl_root = Pane (PaneId 1), tl_focus = PaneId 1, tl_prev_focus = None\<rparr>)"
    by (simp add: layout_inv_def pane_ids_eq ratios_ok_def)
qed (simp add: split_pane_def alloc_def split_node_def valid_split_ratio_def f32_half_def
        is_finite_def f32_clamp_def f32_tenth_def f32_nine_tenths_def)

text \<open>Setting a ratio reports whether the path names a split, writes the clamped value
  at that path only, and keeps every pane.\<close>

theorem set_ratio_at_lens:
  "let (ok, l') = set_ratio_at l path r
   in (ok \<longleftrightarrow> get_ratio_at (tl_root l) path \<noteq> None) \<and>
      l' = (if ok then l\<lparr>tl_root := tl_root l'\<rparr> else l) \<and>
      same_shape (tl_root l) (tl_root l') \<and>
      (\<forall>path'. get_ratio_at (tl_root l') path' =
         (if ok \<and> path' = path then Some (f32_clamp r f32_tenth f32_nine_tenths)
          else get_ratio_at (tl_root l) path'))"
  using node_set_ratio_at_iff [of "tl_root l" path "f32_clamp r f32_tenth f32_nine_tenths"]
    node_set_ratio_absent [of "tl_root l" path "f32_clamp r f32_tenth f32_nine_tenths"]
    node_set_ratio_at_shape [of "tl_root l" path "f32_clamp r f32_tenth f32_nine_tenths"]
    node_set_get_ratio [of "tl_root l" path "f32_clamp r f32_tenth f32_nine_tenths"]
  by (auto simp: set_ratio_at_def split: prod.splits)

text \<open>Resizing a pane from the keyboard keeps the panes, their order, the focus and its
  history, changes at most one split ratio, and that one to a ratio a split may have.\<close>

theorem resize_pane_frame:
  "let l' = snd (resize_pane rn l i nav delta area)
   in same_shape (tl_root l) (tl_root l') \<and> tl_focus l' = tl_focus l \<and>
      tl_prev_focus l' = tl_prev_focus l \<and>
      (\<exists>path. \<forall>path'. get_ratio_at (tl_root l') path' = get_ratio_at (tl_root l) path' \<or>
         path' = path \<and> (\<exists>r. get_ratio_at (tl_root l') path' = Some r \<and> ratio_ok r))"
proof -
  have refl: "same_shape m m" for m by (induction m) auto
  have eq: "snd (set_ratio_at l path r) = l\<lparr>tl_root := snd (node_set_ratio_at (tl_root l) path
      (f32_clamp r f32_tenth f32_nine_tenths))\<rparr>" for path r
    by (simp add: set_ratio_at_def split: prod.splits)
  show ?thesis
    using resize_pane_cases [of rn l i nav delta area]
    by (auto simp: Let_def refl eq node_set_ratio_at_shape node_set_get_ratio ratio_ok_clamp)
qed

end
