(* ===== verification/Layout_Geometry.thy ===== *)
theory Layout_Geometry
  imports Layout
begin

text \<open>
  The geometry of the tiling layout: the rectangles of the panes cover the area of the tab
  exactly once, swapping panes moves ids and never rectangles, the borders reported for
  mouse resizing name real splits, and the navigation picks a nearest pane on the requested
  side.
\<close>

section \<open>Rectangles as sets of cells\<close>

definition rect_fits :: "Rect \<Rightarrow> bool" where
  "rect_fits r \<longleftrightarrow> unat (rect_x r) + unat (rect_width r) \<le> 65535 \<and>
                 unat (rect_y r) + unat (rect_height r) \<le> 65535"

definition rect_cells :: "Rect \<Rightarrow> (nat \<times> nat) set" where
  "rect_cells r =
     {unat (rect_x r) ..< unat (rect_x r) + unat (rect_width r)} \<times>
     {unat (rect_y r) ..< unat (rect_y r) + unat (rect_height r)}"

text \<open>What \<open>ratatui\<close> documents of \<open>Rect::new\<close>: the sizes are kept unless the rectangle
  would end past the largest coordinate.\<close>

definition rect_new_spec :: "rect_ctor \<Rightarrow> bool" where
  "rect_new_spec rect_new \<longleftrightarrow>
     (\<forall>x y w h. unat x + unat w \<le> 65535 \<and> unat y + unat h \<le> 65535 \<longrightarrow>
        rect_new x y w h = \<lparr>rect_x = x, rect_y = y, rect_width = w, rect_height = h\<rparr>)"

definition clamped_rect :: rect_ctor where
  "clamped_rect x y w h =
     \<lparr>rect_x = x, rect_y = y, rect_width = saturating_add x w - x,
      rect_height = saturating_add y h - y\<rparr>"

lemma clamped_rect_spec: "rect_new_spec clamped_rect"
  by (simp add: rect_new_spec_def clamped_rect_def saturating_add_def)

lemma split_rect_cells:
  assumes "rect_new_spec rn" "rect_fits area" "ratio_ok r" "split_rect rn area d r = (a, b)"
  shows "rect_fits a \<and> rect_fits b \<and> rect_cells a \<union> rect_cells b = rect_cells area \<and>
    rect_cells a \<inter> rect_cells b = {}"
proof (cases d)
  case Horizontal
  let ?w = "scale_u16 (rect_width area) r"
  have w: "unat ?w \<le> unat (rect_width area)" using assms(3) by (rule scale_u16_le)
  have x: "unat (rect_x area + ?w) = unat (rect_x area) + unat ?w"
    using w assms(2) by (intro unat_add_u16) (simp add: rect_fits_def)
  have "a = \<lparr>rect_x = rect_x area, rect_y = rect_y area, rect_width = ?w, rect_height = rect_height area\<rparr>"
       "b = \<lparr>rect_x = rect_x area + ?w, rect_y = rect_y area,
             rect_width = saturating_sub (rect_width area) ?w, rect_height = rect_height area\<rparr>"
    using assms w x
    by (auto simp: split_rect_def Horizontal scale_u16_def [symmetric] rect_new_spec_def rect_fits_def
        unat_saturating_sub Let_def)
  then show ?thesis
    using w x assms(2) by (auto simp: rect_cells_def rect_fits_def unat_saturating_sub)
next
  case Vertical
  let ?h = "scale_u16 (rect_height area) r"
  have h: "unat ?h \<le> unat (rect_height area)" using assms(3) by (rule scale_u16_le)
  have y: "unat (rect_y area + ?h) = unat (rect_y area) + unat ?h"
    using h assms(2) by (intro unat_add_u16) (simp add: rect_fits_def)
  have "a = \<lparr>rect_x = rect_x area, rect_y = rect_y area, rect_width = rect_width area, rect_height = ?h\<rparr>"
       "b = \<lparr>rect_x = rect_x area, rect_y = rect_y area + ?h,
             rect_width = rect_width area, rect_height = saturating_sub (rect_height area) ?h\<rparr>"
    using assms h y
    by (auto simp: split_rect_def Vertical scale_u16_def [symmetric] rect_new_spec_def rect_fits_def
        unat_saturating_sub Let_def)
  then show ?thesis
    using h y assms(2) by (auto simp: rect_cells_def rect_fits_def unat_saturating_sub)
qed

section \<open>The collected panes\<close>

lemma collect_panes_append:
  "collect_panes rn node area f result = result @ collect_panes rn node area f []"
proof (induction node arbitrary: area result)
  case (Pane i)
  then show ?case by simp
next
  case (Split d r x y)
  show ?case
    by (simp split: prod.splits) (metis Split.IH append_assoc)
qed

lemma collect_panes_Split:
  "split_rect rn area d r = (a, b) \<Longrightarrow>
     collect_panes rn (Split d r x y) area f [] = collect_panes rn x a f [] @ collect_panes rn y b f []"
  using collect_panes_append [of rn y b f "collect_panes rn x a f []"] by simp

lemma collect_panes_ids: "map pane_id (collect_panes rn node area f []) = node_ids node"
proof (induction node arbitrary: area)
  case (Split d r x y)
  obtain a b where "split_rect rn area d r = (a, b)" by (cases "split_rect rn area d r")
  from collect_panes_Split [OF this] Split.IH show ?case by simp
qed simp

lemma collect_panes_focus: "p \<in> set (collect_panes rn node area f []) \<Longrightarrow> is_focused p \<longleftrightarrow> pane_id p = f"
proof (induction node arbitrary: area)
  case (Split d r x y)
  obtain a b where "split_rect rn area d r = (a, b)" by (cases "split_rect rn area d r")
  from collect_panes_Split [OF this] Split show ?case by auto
qed simp

lemma collect_panes_tile:
  assumes "rect_new_spec rn" "rect_fits area" "ratios_ok node"
  shows "(\<Union>p \<in> set (collect_panes rn node area f []). rect_cells (pane_rect p)) = rect_cells area \<and>
    sorted_wrt (\<lambda>p q. rect_cells (pane_rect p) \<inter> rect_cells (pane_rect q) = {})
      (collect_panes rn node area f [])"
  using assms(2,3)
proof (induction node arbitrary: area)
  case (Pane i)
  then show ?case by simp
next
  case (Split d r x y)
  obtain a b where ab: "split_rect rn area d r = (a, b)" by (cases "split_rect rn area d r")
  have ok: "ratio_ok r" "ratios_ok x" "ratios_ok y" using Split.prems(2) by (auto simp: ratios_ok_def)
  note cells = split_rect_cells [OF assms(1) Split.prems(1) ok(1) ab]
  let ?ps = "collect_panes rn x a f []" and ?qs = "collect_panes rn y b f []"
  have x: "(\<Union>p \<in> set ?ps. rect_cells (pane_rect p)) = rect_cells a"
      "sorted_wrt (\<lambda>p q. rect_cells (pane_rect p) \<inter> rect_cells (pane_rect q) = {}) ?ps"
    and y: "(\<Union>p \<in> set ?qs. rect_cells (pane_rect p)) = rect_cells b"
      "sorted_wrt (\<lambda>p q. rect_cells (pane_rect p) \<inter> rect_cells (pane_rect q) = {}) ?qs"
    using Split.IH(1) [of a] Split.IH(2) [of b] cells ok by auto
  have "rect_cells (pane_rect p) \<inter> rect_cells (pane_rect q) = {}"
    if "p \<in> set ?ps" "q \<in> set ?qs" for p q
  proof -
    have "rect_cells (pane_rect p) \<subseteq> rect_cells a" "rect_cells (pane_rect q) \<subseteq> rect_cells b"
      using that x(1) y(1) by auto
    with cells show ?thesis by blast
  qed
  with x y cells show ?case
    by (simp add: collect_panes_Split [OF ab] sorted_wrt_append UN_Un del: collect_panes.simps)
qed

section \<open>The collected splits\<close>

lemma collect_splits_append:
  "collect_splits rn node area path result = result @ collect_splits rn node area path []"
proof (induction node arbitrary: area path result)
  case (Pane i)
  then show ?case by simp
next
  case (Split d r x y)
  show ?case
    by (simp add: Let_def split: prod.splits) (metis Split.IH append.assoc append_Cons append_Nil)
qed

lemma collect_splits_Split:
  assumes "split_rect rn area d r = (a, b)"
  shows "\<exists>pos. collect_splits rn (Split d r x y) area path [] =
     \<lparr>split_pos = pos, split_direction = d, split_ratio = r, split_area = area, split_path = path\<rparr> #
     collect_splits rn x a (path @ [False]) [] @ collect_splits rn y b (path @ [True]) []"
proof -
  have "collect_splits rn (Split d r x y) area path [] =
     \<lparr>split_pos = (case d of Horizontal \<Rightarrow> rect_x a + rect_width a | Vertical \<Rightarrow> rect_y a + rect_height a),
       split_direction = d, split_ratio = r, split_area = area, split_path = path\<rparr> #
     collect_splits rn x a (path @ [False]) [] @ collect_splits rn y b (path @ [True]) []"
    using assms by (simp add: Let_def)
      (metis collect_splits_append append.assoc append_Cons append_Nil)
  then show ?thesis by blast
qed

lemma collect_splits_length: "length (collect_splits rn node area path []) + 1 = count_panes node"
proof (induction node arbitrary: area path)
  case (Split d r x y)
  obtain a b where ab: "split_rect rn area d r = (a, b)" by (cases "split_rect rn area d r")
  from collect_splits_Split [OF ab, of x y path] Split.IH(1) [of a "path @ [False]"]
    Split.IH(2) [of b "path @ [True]"] show ?case by (auto simp del: collect_splits.simps)
qed simp

lemma collect_splits_path:
  "s \<in> set (collect_splits rn node area path []) \<Longrightarrow>
     \<exists>p. split_path s = path @ p \<and> get_ratio_at node p = Some (split_ratio s)"
proof (induction node arbitrary: area path)
  case (Split d r x y)
  obtain a b where ab: "split_rect rn area d r = (a, b)" by (cases "split_rect rn area d r")
  from collect_splits_Split [OF ab, of x y path] Split.prems
  consider "split_path s = path" "split_ratio s = r"
    | "s \<in> set (collect_splits rn x a (path @ [False]) [])"
    | "s \<in> set (collect_splits rn y b (path @ [True]) [])"
    by (auto simp del: collect_splits.simps)
  then show ?case
  proof cases
    case 1
    then show ?thesis by (intro exI [of _ "[]"]) simp
  next
    case 2
    from Split.IH(1) [OF this] obtain p where
      "split_path s = path @ False # p" "get_ratio_at x p = Some (split_ratio s)" by auto
    then show ?thesis by (intro exI [of _ "False # p"]) simp
  next
    case 3
    from Split.IH(2) [OF this] obtain p where
      "split_path s = path @ True # p" "get_ratio_at y p = Some (split_ratio s)" by auto
    then show ?thesis by (intro exI [of _ "True # p"]) simp
  qed
qed simp

lemma collect_splits_distinct: "distinct (map split_path (collect_splits rn node area path []))"
proof (induction node arbitrary: area path)
  case (Split d r x y)
  obtain a b where ab: "split_rect rn area d r = (a, b)" by (cases "split_rect rn area d r")
  have "split_path s \<noteq> split_path t"
    if "s \<in> set (collect_splits rn x a (path @ [False]) [])"
      "t \<in> set (collect_splits rn y b (path @ [True]) [])" for s t
    using collect_splits_path [OF that(1)] collect_splits_path [OF that(2)] by auto
  moreover have "split_path s \<noteq> path"
    if "s \<in> set (collect_splits rn x a (path @ [False]) []) \<union>
            set (collect_splits rn y b (path @ [True]) [])" for s
    using that collect_splits_path by fastforce
  ultimately show ?case
    using collect_splits_Split [OF ab, of x y path] Split.IH
    by (fastforce simp del: collect_splits.simps)
qed simp

section \<open>Navigation in the plane\<close>

text \<open>The requested side and the gap to it, on the coordinates as numbers.\<close>

fun nav_side :: "NavDirection \<Rightarrow> Rect \<Rightarrow> Rect \<Rightarrow> bool" where
  "nav_side NavLeft f r \<longleftrightarrow> unat (rect_x r) + unat (rect_width r) \<le> unat (rect_x f) \<and>
     unat (rect_y r) < unat (rect_y f) + unat (rect_height f) \<and>
     unat (rect_y f) < unat (rect_y r) + unat (rect_height r)"
| "nav_side NavRight f r \<longleftrightarrow> unat (rect_x f) + unat (rect_width f) \<le> unat (rect_x r) \<and>
     unat (rect_y r) < unat (rect_y f) + unat (rect_height f) \<and>
     unat (rect_y f) < unat (rect_y r) + unat (rect_height r)"
| "nav_side NavUp f r \<longleftrightarrow> unat (rect_y r) + unat (rect_height r) \<le> unat (rect_y f) \<and>
     unat (rect_x r) < unat (rect_x f) + unat (rect_width f) \<and>
     unat (rect_x f) < unat (rect_x r) + unat (rect_width r)"
| "nav_side NavDown f r \<longleftrightarrow> unat (rect_y f) + unat (rect_height f) \<le> unat (rect_y r) \<and>
     unat (rect_x r) < unat (rect_x f) + unat (rect_width f) \<and>
     unat (rect_x f) < unat (rect_x r) + unat (rect_width r)"

fun nav_gap :: "NavDirection \<Rightarrow> Rect \<Rightarrow> Rect \<Rightarrow> nat" where
  "nav_gap NavLeft f r = unat (rect_x f) - (unat (rect_x r) + unat (rect_width r))"
| "nav_gap NavRight f r = unat (rect_x r) - (unat (rect_x f) + unat (rect_width f))"
| "nav_gap NavUp f r = unat (rect_y f) - (unat (rect_y r) + unat (rect_height r))"
| "nav_gap NavDown f r = unat (rect_y r) - (unat (rect_y f) + unat (rect_height f))"

lemma rect_fits_edges:
  assumes "rect_fits r"
  shows "unat (rect_x r + rect_width r) = unat (rect_x r) + unat (rect_width r)"
    and "unat (rect_y r + rect_height r) = unat (rect_y r) + unat (rect_height r)"
  using assms by (auto simp: rect_fits_def intro!: unat_add_u16)

lemma lies_in_direction_nat:
  assumes "rect_fits f" "rect_fits r"
  shows "lies_in_direction d f r = nav_side d f r"
  using assms
  by (cases d) (auto simp: lies_in_direction_def ranges_overlap_def word_order_nat rect_fits_edges)

lemma direction_key_gap:
  assumes "rect_fits f" "rect_fits (pane_rect p)" "rect_fits (pane_rect q)"
    "direction_key d f (i, p) \<le> direction_key d f (j, q)"
  shows "nav_gap d f (pane_rect p) \<le> nav_gap d f (pane_rect q)"
proof -
  have "fst (direction_key d f (i, p)) \<le> fst (direction_key d f (j, q))"
    using assms(4) by (auto simp: less_eq_prod_def)
  then show ?thesis
    using assms(1-3)
    by (cases d) (auto simp: direction_key_def Let_def word_order_nat unat_saturating_sub rect_fits_edges)
qed

section \<open>Properties\<close>

text \<open>C6: the panes of a tab tile its area: every cell of the area lies in the rectangle of
  exactly one pane, whatever the ratios (rounded in single precision) and the depth of the
  tree; the panes come in reading order and exactly the focused one is marked.\<close>

theorem panes_tile_area:
  assumes "rect_new_spec rn" "rect_fits area" "layout_inv (n, l)"
  shows "(\<Union>p \<in> set (panes rn l area). rect_cells (pane_rect p)) = rect_cells area \<and>
    sorted_wrt (\<lambda>p q. rect_cells (pane_rect p) \<inter> rect_cells (pane_rect q) = {}) (panes rn l area) \<and>
    map pane_id (panes rn l area) = pane_ids l \<and>
    map pane_id (filter is_focused (panes rn l area)) = [tl_focus l]"
proof (intro conjI)
  have ok: "ratios_ok (tl_root l)" using assms(3) by (simp add: layout_inv_def)
  show "(\<Union>p \<in> set (panes rn l area). rect_cells (pane_rect p)) = rect_cells area"
    and "sorted_wrt (\<lambda>p q. rect_cells (pane_rect p) \<inter> rect_cells (pane_rect q) = {}) (panes rn l area)"
    using collect_panes_tile [OF assms(1,2) ok] by (simp_all add: panes_def)
  show ids: "map pane_id (panes rn l area) = pane_ids l"
    by (simp add: panes_def pane_ids_eq collect_panes_ids)
  have "filter is_focused (panes rn l area) = filter (\<lambda>p. pane_id p = tl_focus l) (panes rn l area)"
    unfolding panes_def by (intro filter_cong refl) (rule collect_panes_focus)
  then have "map pane_id (filter is_focused (panes rn l area)) =
      filter (\<lambda>i. i = tl_focus l) (pane_ids l)"
    by (simp add: ids [symmetric] filter_map comp_def)
  moreover have "filter (\<lambda>i. i = t) xs = [t]" if "distinct xs" "t \<in> set xs" for t :: PaneId and xs
    using that by (induction xs) (auto simp: filter_empty_conv)
  ultimately show "map pane_id (filter is_focused (panes rn l area)) = [tl_focus l]"
    using assms(3) by (simp add: layout_inv_def)
qed

theorem panes_tile_area_witness:
  "(\<Union>p \<in> set (panes clamped_rect \<lparr>tl_root = Split Horizontal f32_half (Pane (PaneId 1)) (Pane (PaneId 2)),
       tl_focus = PaneId 1, tl_prev_focus = None\<rparr>
       \<lparr>rect_x = 0, rect_y = 1, rect_width = 81, rect_height = 24\<rparr>). rect_cells (pane_rect p)) =
   {0..<81} \<times> {1..<25}"
proof -
  have "rect_fits \<lparr>rect_x = 0, rect_y = 1, rect_width = 81, rect_height = 24\<rparr>"
    by (simp add: rect_fits_def)
  from panes_tile_area [OF clamped_rect_spec this
      layout_machine.reach_inv [OF layout_example_reachable]]
  show ?thesis by (simp add: rect_cells_def)
qed

text \<open>Swapping two panes exchanges their ids in the reading order and moves no rectangle;
  swapping them again restores the layout.\<close>

theorem swap_panes_geometry:
  "map pane_rect (panes rn (snd (swap_panes l p q)) area) = map pane_rect (panes rn l area) \<and>
   pane_ids (snd (swap_panes l p q)) =
     (if fst (swap_panes l p q)
      then map (\<lambda>i. if i = p then q else if i = q then p else i) (pane_ids l) else pane_ids l) \<and>
   snd (swap_panes (snd (swap_panes l p q)) p q) = l"
proof -
  have rects: "map pane_rect (collect_panes rn (swap_pane_ids node p q) area f []) =
      map pane_rect (collect_panes rn node area f [])" for node f area
  proof (induction node arbitrary: area)
    case (Split d r x y)
    obtain a b where "split_rect rn area d r = (a, b)" by (cases "split_rect rn area d r")
    from collect_panes_Split [OF this] Split.IH show ?case by simp
  qed simp
  have "p \<in> set (pane_ids l) \<Longrightarrow> q \<in> set (pane_ids l) \<Longrightarrow>
      {p, q} \<subseteq> set (node_ids (swap_pane_ids (tl_root l) p q))"
    by (auto simp: node_ids_swap pane_ids_eq image_iff)
  then show ?thesis
    by (auto simp: swap_panes_def panes_def rects pane_ids_eq node_ids_swap)
qed

text \<open>The borders offered for mouse resizing are exactly the splits of the tree: one for
  each pane but one, with distinct paths, each leading to a split with the reported ratio.\<close>

theorem splits_are_tree_splits:
  "length (splits rn l area) + 1 = pane_count l \<and>
   distinct (map split_path (splits rn l area)) \<and>
   list_all (\<lambda>s. get_ratio_at (tl_root l) (split_path s) = Some (split_ratio s)) (splits rn l area)"
proof -
  have "list_all (\<lambda>s. get_ratio_at (tl_root l) (split_path s) = Some (split_ratio s)) (splits rn l area)"
    using collect_splits_path [of _ rn "tl_root l" area "[]"]
    by (fastforce simp: splits_def list_all_iff)
  then show ?thesis
    using collect_splits_length [of rn "tl_root l" area "[]"]
      collect_splits_distinct [of rn "tl_root l" area "[]"]
    by (simp add: splits_def pane_count_def)
qed

text \<open>Directional navigation finds a pane exactly when another pane lies on that side and
  shares a row or column with the focused one, and the pane it finds has the least gap.\<close>

theorem find_in_direction_nearest:
  assumes "list_all (\<lambda>p. rect_fits (pane_rect p)) (focused # ps)"
  shows "case find_in_direction focused d ps of
     None \<Rightarrow> (\<forall>p \<in> set ps. pane_id p = pane_id focused \<or> \<not> nav_side d (pane_rect focused) (pane_rect p))
   | Some i \<Rightarrow> (\<exists>p \<in> set ps. pane_id p = i \<and> i \<noteq> pane_id focused \<and>
        nav_side d (pane_rect focused) (pane_rect p) \<and>
        (\<forall>q \<in> set ps. pane_id q \<noteq> pane_id focused \<and> nav_side d (pane_rect focused) (pane_rect q) \<longrightarrow>
           nav_gap d (pane_rect focused) (pane_rect p) \<le> nav_gap d (pane_rect focused) (pane_rect q)))"
proof -
  let ?f = "pane_rect focused"
  define cs where "cs = filter (\<lambda>(_, p). lies_in_direction d ?f (pane_rect p))
      (filter (\<lambda>(_, p). pane_id p \<noteq> pane_id focused) (zip [0..<length ps] ps))"
  have fits: "rect_fits ?f" "p \<in> set ps \<Longrightarrow> rect_fits (pane_rect p)" for p
    using assms by (auto simp: list_all_iff)
  have cs: "(\<exists>k. (k, p) \<in> set cs) \<longleftrightarrow> p \<in> set ps \<and> pane_id p \<noteq> pane_id focused \<and> nav_side d ?f (pane_rect p)" for p
  proof -
    have "(\<exists>k. (k, p) \<in> set cs) \<longleftrightarrow>
        p \<in> set ps \<and> pane_id p \<noteq> pane_id focused \<and> lies_in_direction d ?f (pane_rect p)"
      by (auto simp: cs_def set_zip in_set_conv_nth)
    then show ?thesis using fits by (auto simp: lies_in_direction_nat)
  qed
  have eq: "find_in_direction focused d ps =
      map_option (\<lambda>(_, p). pane_id p) (min_by_key (direction_key d ?f) cs)"
    by (simp add: find_in_direction_def cs_def Let_def)
  show ?thesis
  proof (cases "min_by_key (direction_key d ?f) cs")
    case None
    then have "cs = []" by simp
    with cs None show ?thesis by (auto simp: eq)
  next
    case (Some kp)
    obtain k p where kp: "kp = (k, p)" by (cases kp)
    from min_by_key_Some [OF Some] kp have mem: "(k, p) \<in> set cs"
      and least: "\<And>j q. (j, q) \<in> set cs \<Longrightarrow> direction_key d ?f (k, p) \<le> direction_key d ?f (j, q)"
      by auto
    have p: "p \<in> set ps" "pane_id p \<noteq> pane_id focused" "nav_side d ?f (pane_rect p)"
      using mem cs [of p] by blast+
    have "nav_gap d ?f (pane_rect p) \<le> nav_gap d ?f (pane_rect q)"
      if q: "q \<in> set ps" "pane_id q \<noteq> pane_id focused" "nav_side d ?f (pane_rect q)" for q
    proof -
      obtain j where j: "(j, q) \<in> set cs" using q cs [of q] by blast
      show ?thesis
        by (rule direction_key_gap [OF fits(1) fits(2) [OF p(1)] fits(2) [OF q(1)] least [OF j]])
    qed
    moreover have "find_in_direction focused d ps = Some (pane_id p)" by (simp add: eq Some kp)
    ultimately show ?thesis using p by auto
  qed
qed

theorem find_in_direction_nearest_witness:
  "\<exists>i. find_in_direction
     \<lparr>pane_id = PaneId 1, pane_rect = \<lparr>rect_x = 0, rect_y = 0, rect_width = 40, rect_height = 24\<rparr>,
      inner_rect = \<lparr>rect_x = 0, rect_y = 0, rect_width = 40, rect_height = 24\<rparr>,
      scrollbar_rect = None, borders = 0, is_focused = True\<rparr> NavRight
     [\<lparr>pane_id = PaneId 2, pane_rect = \<lparr>rect_x = 40, rect_y = 0, rect_width = 40, rect_height = 24\<rparr>,
      inner_rect = \<lparr>rect_x = 40, rect_y = 0, rect_width = 40, rect_height = 24\<rparr>,
      scrollbar_rect = None, borders = 0, is_focused = False\<rparr>] = Some i \<and> i = PaneId 2"
  (is "\<exists>i. find_in_direction ?f _ [?p] = Some i \<and> _")
proof -
  have "list_all (\<lambda>p. rect_fits (pane_rect p)) [?f, ?p]" by (simp add: rect_fits_def)
  from find_in_direction_nearest [OF this, of NavRight]
  show ?thesis by (auto split: option.splits)
qed

end
