(* ===== verification/Selection.thy ===== *)
theory Selection
  imports Layout_Geometry
begin

text \<open>
  Text selection in a pane (\<open>herdr/src/selection.rs\<close>): the gesture from mouse-down to release,
  the conversion between viewport and screen-buffer rows, the highlight rectangles and the test
  whether a cell is selected. \<open>Rect::new\<close> and \<open>Rect::is_empty\<close> of \<open>ratatui\<close> are arguments.
  \<open>Ord::clamp\<close> panics when its bounds are reversed: the value \<open>None\<close>. Writing the selection to the
  clipboard is input and output and is not modelled; which channel is preferred is.
\<close>

section \<open>Operations\<close>

record ScrollMetrics =
  offset_from_bottom :: nat
  max_offset_from_bottom :: nat
  viewport_rows :: nat

datatype Phase = Anchored | Dragging | Done

record 'p Selection =
  sel_pane_id :: 'p
  sel_anchor :: "u32 \<times> u16"
  sel_cursor :: "u32 \<times> u16"
  sel_phase :: Phase

definition viewport_top_row :: "ScrollMetrics option \<Rightarrow> u32" where
  "viewport_top_row metrics =
     of_nat (case metrics of None \<Rightarrow> 0 | Some m \<Rightarrow> max_offset_from_bottom m - offset_from_bottom m)"

definition absolute_row_for_viewport_row :: "u16 \<Rightarrow> ScrollMetrics option \<Rightarrow> u32" where
  "absolute_row_for_viewport_row viewport_row metrics = viewport_top_row metrics + ucast viewport_row"

definition viewport_row_for_absolute_row :: "u32 \<Rightarrow> ScrollMetrics option \<Rightarrow> u16" where
  "viewport_row_for_absolute_row absolute_row metrics =
     (let row = saturating_sub absolute_row (viewport_top_row metrics) in
      if unat row < 65536 then ucast row else 0)"

definition clamp :: "'a::linorder \<Rightarrow> 'a \<Rightarrow> 'a \<Rightarrow> 'a option" where
  "clamp v lo hi = (if lo \<le> hi then Some (if v < lo then lo else if v > hi then hi else v) else None)"

definition clamp_to_pane :: "u16 \<Rightarrow> u16 \<Rightarrow> Rect \<Rightarrow> (u16 \<times> u16) option" where
  "clamp_to_pane screen_col screen_row pane_inner =
     (case (clamp screen_col (rect_x pane_inner) (rect_x pane_inner + saturating_sub (rect_width pane_inner) 1),
            clamp screen_row (rect_y pane_inner) (rect_y pane_inner + saturating_sub (rect_height pane_inner) 1)) of
        (Some clamped_col, Some clamped_row) \<Rightarrow> Some (clamped_row - rect_y pane_inner, clamped_col - rect_x pane_inner)
      | _ \<Rightarrow> None)"

definition absolute_anchor :: "'p \<Rightarrow> u32 \<times> u16 \<Rightarrow> 'p Selection" where
  "absolute_anchor pane anchor_at =
     \<lparr>sel_pane_id = pane, sel_anchor = anchor_at, sel_cursor = anchor_at, sel_phase = Anchored\<rparr>"

definition anchor :: "'p \<Rightarrow> u16 \<Rightarrow> u16 \<Rightarrow> ScrollMetrics option \<Rightarrow> 'p Selection" where
  "anchor pane viewport_row col metrics =
     (let anchor_at = (absolute_row_for_viewport_row viewport_row metrics, col) in
      \<lparr>sel_pane_id = pane, sel_anchor = anchor_at, sel_cursor = anchor_at, sel_phase = Anchored\<rparr>)"

definition absolute_range :: "'p \<Rightarrow> u32 \<times> u16 \<Rightarrow> u32 \<times> u16 \<Rightarrow> 'p Selection" where
  "absolute_range pane anchor_at cursor_at =
     \<lparr>sel_pane_id = pane, sel_anchor = anchor_at, sel_cursor = cursor_at, sel_phase = Dragging\<rparr>"

definition line_range :: "'p \<Rightarrow> u32 \<Rightarrow> u32 \<Rightarrow> u16 \<Rightarrow> 'p Selection" where
  "line_range pane anchor_row cursor_row end_col =
     (let (anchor_col, cursor_col) = (if anchor_row \<le> cursor_row then (0, end_col) else (end_col, 0)) in
      \<lparr>sel_pane_id = pane, sel_anchor = (anchor_row, anchor_col), sel_cursor = (cursor_row, cursor_col),
       sel_phase = Dragging\<rparr>)"

definition anchor_screen_pos :: "'p Selection \<Rightarrow> Rect \<Rightarrow> ScrollMetrics option \<Rightarrow> (u16 \<times> u16) option" where
  "anchor_screen_pos sel pane_inner metrics =
     (let viewport_row = viewport_row_for_absolute_row (fst (sel_anchor sel)) metrics in
      case (clamp (saturating_add viewport_row (rect_y pane_inner)) (rect_y pane_inner)
              (rect_y pane_inner + saturating_sub (rect_height pane_inner) 1),
            clamp (saturating_add (snd (sel_anchor sel)) (rect_x pane_inner)) (rect_x pane_inner)
              (rect_x pane_inner + saturating_sub (rect_width pane_inner) 1)) of
        (Some row, Some col) \<Rightarrow> Some (row, col)
      | _ \<Rightarrow> None)"

definition drag :: "'p Selection \<Rightarrow> u16 \<Rightarrow> u16 \<Rightarrow> Rect \<Rightarrow> ScrollMetrics option \<Rightarrow> 'p Selection option" where
  "drag sel screen_col screen_row pane_inner metrics =
     (case clamp_to_pane screen_col screen_row pane_inner of
        None \<Rightarrow> None
      | Some (viewport_row, col) \<Rightarrow>
          (let sel = sel\<lparr>sel_cursor := (absolute_row_for_viewport_row viewport_row metrics, col)\<rparr> in
           Some (if sel_cursor sel \<noteq> sel_anchor sel then sel\<lparr>sel_phase := Dragging\<rparr> else sel)))"

definition finish :: "'p Selection \<Rightarrow> bool \<times> 'p Selection" where
  "finish sel = (if sel_phase sel = Dragging then (True, sel\<lparr>sel_phase := Done\<rparr>) else (False, sel))"

definition is_visible :: "'p Selection \<Rightarrow> bool" where
  "is_visible sel \<longleftrightarrow> sel_phase sel = Dragging \<or> sel_phase sel = Done"

definition is_just_click :: "'p Selection \<Rightarrow> bool" where
  "is_just_click sel \<longleftrightarrow> sel_phase sel = Anchored"

definition force_dragging :: "'p Selection \<Rightarrow> 'p Selection" where
  "force_dragging sel = (if sel_phase sel = Anchored then sel\<lparr>sel_phase := Dragging\<rparr> else sel)"

definition is_in_progress :: "'p Selection \<Rightarrow> bool" where
  "is_in_progress sel \<longleftrightarrow> sel_phase sel = Anchored \<or> sel_phase sel = Dragging"

definition is_dragging :: "'p Selection \<Rightarrow> bool" where
  "is_dragging sel \<longleftrightarrow> sel_phase sel = Dragging"

definition ordered :: "'p Selection \<Rightarrow> (u32 \<times> u16) \<times> (u32 \<times> u16)" where
  "ordered sel =
     (let (ar, ac) = sel_anchor sel; (cr, cc) = sel_cursor sel in
      if ar < cr \<or> ar = cr \<and> ac \<le> cc then ((ar, ac), (cr, cc)) else ((cr, cc), (ar, ac)))"

definition default_rect :: Rect where
  "default_rect = \<lparr>rect_x = 0, rect_y = 0, rect_width = 0, rect_height = 0\<rparr>"

definition visible_rect :: "rect_ctor \<Rightarrow> Rect \<Rightarrow> u32 \<Rightarrow> u32 \<Rightarrow> u32 \<Rightarrow> u32 \<Rightarrow> u16 \<Rightarrow> u16 \<Rightarrow> Rect" where
  "visible_rect rect_new inner top_row bottom_row first_row end_row left right =
     (let first_row = max first_row top_row;
          end_row = min end_row bottom_row;
          left = min left (rect_width inner);
          right = min right (rect_width inner) in
      if first_row \<ge> end_row \<or> left \<ge> right then default_rect
      else rect_new (rect_x inner + left) (rect_y inner + ucast (first_row - top_row)) (right - left)
             (ucast (end_row - first_row)))"

definition visible_rects :: "rect_ctor \<Rightarrow> (Rect \<Rightarrow> bool) \<Rightarrow> 'p Selection \<Rightarrow> Rect \<Rightarrow> ScrollMetrics option \<Rightarrow> Rect list" where
  "visible_rects rect_new is_empty sel inner metrics =
     (if \<not> is_visible sel \<or> is_empty inner then [default_rect, default_rect, default_rect]
      else let ((start_row, start_col), (end_row, end_col)) = ordered sel;
               top_row = viewport_top_row metrics;
               bottom_row = saturating_add top_row (ucast (rect_height inner));
               rect = visible_rect rect_new inner top_row bottom_row in
           if start_row = end_row
           then [rect start_row (saturating_add start_row 1) start_col (saturating_add end_col 1), default_rect, default_rect]
           else [rect start_row (saturating_add start_row 1) start_col (rect_width inner),
                 rect (saturating_add start_row 1) end_row 0 (rect_width inner),
                 rect end_row (saturating_add end_row 1) 0 (saturating_add end_col 1)])"

definition contains :: "'p Selection \<Rightarrow> u16 \<Rightarrow> u16 \<Rightarrow> ScrollMetrics option \<Rightarrow> bool" where
  "contains sel viewport_row col metrics =
     (if \<not> is_visible sel then False
      else let row = absolute_row_for_viewport_row viewport_row metrics;
               ((sr, sc), (er, ec)) = ordered sel in
           if row < sr \<or> row > er then False
           else if sr = er then col \<ge> sc \<and> col \<le> ec
           else if row = sr then col \<ge> sc
           else if row = er then col \<le> ec
           else True)"

text \<open>The choice between the native clipboard and the escape sequence; an \<open>OsStr\<close> only matters by
  its presence.\<close>

definition to_ascii_lowercase :: "string \<Rightarrow> string" where
  "to_ascii_lowercase = map (\<lambda>c. if 65 \<le> (of_char c :: nat) \<and> (of_char c :: nat) \<le> 90 then char_of ((of_char c :: nat) + 32) else c)"

fun has_substring :: "string \<Rightarrow> string \<Rightarrow> bool" where
  "has_substring needle [] \<longleftrightarrow> needle = []"
| "has_substring needle (c # cs) \<longleftrightarrow> take (length needle) (c # cs) = needle \<or> has_substring needle cs"

definition contains_wsl_marker :: "string \<Rightarrow> bool" where
  "contains_wsl_marker value =
     (let lower = to_ascii_lowercase value in
      has_substring ''microsoft'' lower \<or> has_substring ''wsl2'' lower \<or> has_substring ''-wsl'' lower)"

definition is_wsl_for_env :: "string option \<Rightarrow> string option \<Rightarrow> string option \<Rightarrow> string option \<Rightarrow> bool \<Rightarrow> bool" where
  "is_wsl_for_env os_release proc_version wsl_distro_name wsl_interop runtime_marker_exists \<longleftrightarrow>
     wsl_distro_name \<noteq> None \<or> wsl_interop \<noteq> None \<or>
     (case os_release of None \<Rightarrow> False | Some v \<Rightarrow> contains_wsl_marker v) \<or>
     (case proc_version of None \<Rightarrow> False | Some v \<Rightarrow> contains_wsl_marker v) \<or> runtime_marker_exists"

definition should_prefer_osc52_for_env :: "string option \<Rightarrow> string option \<Rightarrow> string option \<Rightarrow> bool \<Rightarrow> bool" where
  "should_prefer_osc52_for_env ssh_connection ssh_tty vscode_ipc_hook_cli wsl \<longleftrightarrow>
     ssh_connection \<noteq> None \<or> ssh_tty \<noteq> None \<or> vscode_ipc_hook_cli \<noteq> None \<or> wsl"

definition osc52_sequence :: "(u8 list \<Rightarrow> string) \<Rightarrow> u8 list \<Rightarrow> string" where
  "osc52_sequence base64 bytes = [CHR 0x1B] @ '']52;c;'' @ base64 bytes @ [CHR 0x07]"

section \<open>Rows\<close>

definition is_empty_spec :: "(Rect \<Rightarrow> bool) \<Rightarrow> bool" where
  "is_empty_spec is_empty \<longleftrightarrow> (\<forall>r. is_empty r \<longleftrightarrow> rect_width r = 0 \<or> rect_height r = 0)"

text \<open>The rows of the viewport are addressable: the last one is a \<open>u32\<close>.\<close>

definition rows_fit :: "ScrollMetrics option \<Rightarrow> u16 \<Rightarrow> bool" where
  "rows_fit metrics height \<longleftrightarrow> unat (viewport_top_row metrics) + unat height < 4294967296"

lemma unat_u16_to_u32 [simp]: "unat (ucast (a :: u16) :: u32) = unat a"
  by (simp add: unsigned_ucast_eq take_bit_nat_eq_self order_less_trans [OF unat_u16_bound])

lemma unat_u32_to_u16: "unat (a :: u32) < 65536 \<Longrightarrow> unat (ucast a :: u16) = unat a"
  by (simp add: unsigned_ucast_eq take_bit_nat_eq_self)

lemma unat_absolute_row:
  assumes "rows_fit metrics height" "row < height"
  shows "unat (absolute_row_for_viewport_row row metrics) = unat (viewport_top_row metrics) + unat row"
proof -
  have "unat (viewport_top_row metrics) + unat (ucast row :: u32) < 2 ^ LENGTH(32)"
    using assms by (simp add: rows_fit_def word_less_nat_alt)
  from unat_add_no_wrap [OF this] show ?thesis by (simp add: absolute_row_for_viewport_row_def)
qed

lemma viewport_row_back:
  assumes "rows_fit metrics height" "row < height"
  shows "viewport_row_for_absolute_row (absolute_row_for_viewport_row row metrics) metrics = row"
proof -
  have "unat (saturating_sub (absolute_row_for_viewport_row row metrics) (viewport_top_row metrics)) = unat row"
    by (simp add: unat_saturating_sub unat_absolute_row [OF assms])
  then show ?thesis
    by (simp add: viewport_row_for_absolute_row_def Let_def word_unat_eq_iff unat_u32_to_u16)
qed

section \<open>Highlighting\<close>

lemma rect_cells_default [simp]: "rect_cells default_rect = {}"
  by (simp add: rect_cells_def default_rect_def)

lemma unat_max: "unat (max a b) = max (unat a) (unat b)" for a b :: "'a::len word"
  by (simp add: max_def word_le_nat_alt)

lemma unat_min: "unat (min a b) = min (unat a) (unat b)" for a b :: "'a::len word"
  by (simp add: min_def word_le_nat_alt)

text \<open>One highlight rectangle covers the cells between its bounds, as far as they are in the pane.\<close>

lemma visible_rect_cells:
  assumes rn: "rect_new_spec rn" and fits: "rect_fits inner" and rows: "rows_fit metrics (rect_height inner)"
    and cell: "row < rect_height inner" "col < rect_width inner"
    and top_row: "top_row = viewport_top_row metrics" and bottom_row: "bottom_row = saturating_add top_row (ucast (rect_height inner))"
  shows "(unat (rect_x inner) + unat col, unat (rect_y inner) + unat row) \<in>
      rect_cells (visible_rect rn inner top_row bottom_row first_row end_row left right) \<longleftrightarrow>
    unat first_row \<le> unat top_row + unat row \<and> unat top_row + unat row < unat end_row \<and> left \<le> col \<and> col < right"
proof -
  let ?f = "max first_row top_row" and ?e = "min end_row bottom_row"
  let ?l = "min left (rect_width inner)" and ?r = "min right (rect_width inner)"
  have b: "unat bottom_row = unat top_row + unat (rect_height inner)"
    using rows by (simp add: bottom_row top_row rows_fit_def unat_saturating_add)
  have c: "unat row < unat (rect_height inner)" "unat col < unat (rect_width inner)"
    using cell by (simp_all add: word_less_nat_alt)
  show ?thesis
  proof (cases "?f \<ge> ?e \<or> ?l \<ge> ?r")
    case True
    then have "visible_rect rn inner top_row bottom_row first_row end_row left right = default_rect"
      by (simp add: visible_rect_def Let_def)
    moreover have "\<not> (unat first_row \<le> unat top_row + unat row \<and> unat top_row + unat row < unat end_row \<and> left \<le> col \<and> col < right)"
      using True c b by (auto simp: word_le_nat_alt word_less_nat_alt unat_max unat_min)
    ultimately show ?thesis by simp
  next
    case False
    define f e l r where "f = max first_row top_row" and "e = min end_row bottom_row"
      and "l = min left (rect_width inner)" and "r = min right (rect_width inner)"
    note bounds = f_def e_def l_def r_def
    have fe: "unat f < unat e" "unat l < unat r"
      using False by (simp_all add: bounds [symmetric] word_le_nat_alt)
    have le: "top_row \<le> f" "f \<le> e" "l \<le> r" "unat e \<le> unat top_row + unat (rect_height inner)"
        "unat top_row \<le> unat f" "unat r \<le> unat (rect_width inner)"
      using fe b by (simp_all add: bounds word_le_nat_alt unat_max unat_min)
    have sub: "unat (f - top_row) = unat f - unat top_row" "unat (e - f) = unat e - unat f" "unat (r - l) = unat r - unat l"
      using le by (simp_all add: unat_sub)
    have small: "unat f - unat top_row < 65536" "unat e - unat f < 65536"
      using fe le(4,5) unat_u16_bound [of "rect_height inner"] by linarith+
    have w: "unat (ucast (f - top_row) :: u16) = unat f - unat top_row" "unat (ucast (e - f) :: u16) = unat e - unat f"
      using unat_u32_to_u16 [of "f - top_row"] unat_u32_to_u16 [of "e - f"] sub(1,2) small by linarith+
    have x: "unat (rect_x inner + l) = unat (rect_x inner) + unat l"
      using fits fe(2) le(6) unat_add_u16 [of "rect_x inner" l] unfolding rect_fits_def by linarith
    have y: "unat (rect_y inner + ucast (f - top_row)) = unat (rect_y inner) + (unat f - unat top_row)"
      using fits fe(1) le(4,5) w(1) unat_add_u16 [of "rect_y inner" "ucast (f - top_row)"] unfolding rect_fits_def by linarith
    have "unat (rect_x inner + l) + unat (r - l) \<le> 65535"
        "unat (rect_y inner + ucast (f - top_row)) + unat (ucast (e - f) :: u16) \<le> 65535"
      using fits fe le(4-6) unfolding x y w sub(3) rect_fits_def by linarith+
    with rn False have "visible_rect rn inner top_row bottom_row first_row end_row left right =
        \<lparr>rect_x = rect_x inner + l, rect_y = rect_y inner + ucast (f - top_row), rect_width = r - l, rect_height = ucast (e - f)\<rparr>"
      by (simp add: visible_rect_def Let_def rect_new_spec_def bounds)
    then have "(unat (rect_x inner) + unat col, unat (rect_y inner) + unat row) \<in>
        rect_cells (visible_rect rn inner top_row bottom_row first_row end_row left right) \<longleftrightarrow>
        unat l \<le> unat col \<and> unat col < unat r \<and> unat f \<le> unat top_row + unat row \<and> unat top_row + unat row < unat e"
      using fe le(5) by (simp add: rect_cells_def x y w sub) linarith
    then show ?thesis
      using c b by (simp add: bounds unat_max unat_min word_le_nat_alt word_less_nat_alt min_le_iff_disj) blast
  qed
qed

lemma between_rows:
  fixes r s e :: nat
  assumes "s < e \<or> s = e"
  shows "(if s = e then r = s \<and> P \<and> Q else r = s \<and> P \<or> s < r \<and> r < e \<or> r = e \<and> Q) \<longleftrightarrow>
    s \<le> r \<and> r \<le> e \<and> (r = s \<longrightarrow> P) \<and> (r = e \<longrightarrow> Q)"
  using assms by auto

text \<open>C34: the highlight rectangles of a selection cover exactly the cells of the pane that the
  selection contains, at any scroll position and in either drag direction.\<close>

theorem visible_rects_match_contains:
  assumes "rect_new_spec rn" "is_empty_spec is_empty" "rect_fits inner" "rows_fit metrics (rect_height inner)"
    and "row < rect_height inner" "col < rect_width inner"
  shows "(\<exists>r \<in> set (visible_rects rn is_empty sel inner metrics).
      (unat (rect_x inner) + unat col, unat (rect_y inner) + unat row) \<in> rect_cells r) \<longleftrightarrow>
    contains sel row col metrics"
proof (cases "is_visible sel")
  case True
  obtain sr sc er ec where o: "ordered sel = ((sr, sc), (er, ec))" by (metis prod.collapse)
  have le: "sr < er \<or> sr = er \<and> sc \<le> ec"
    using o by (auto simp: ordered_def Let_def split: prod.splits if_splits)
  have ne: "\<not> is_empty inner" using assms(2,5,6) by (auto simp: is_empty_spec_def)
  let ?row = "absolute_row_for_viewport_row row metrics"
  have r: "unat ?row = unat (viewport_top_row metrics) + unat row" using unat_absolute_row [OF assms(4,5)] .
  note cells = visible_rect_cells [OF assms(1,3-6) refl refl]
  have R: "unat ?row < 4294967295" using assms(4,5) r by (simp add: rows_fit_def word_less_nat_alt)
  have after: "unat ?row < unat (saturating_add s 1) \<longleftrightarrow> unat ?row \<le> unat s"
      "unat (saturating_add s 1) \<le> unat ?row \<longleftrightarrow> unat s < unat ?row" for s :: u32
    using R unsigned_less [of s, where ?'a = nat] by (simp_all add: unat_saturating_add) linarith+
  have col: "col < saturating_add ec 1 \<longleftrightarrow> col \<le> ec"
  proof -
    have "unat col < 65535"
      using assms(6) unat_u16_bound [of "rect_width inner"] unfolding word_less_nat_alt by linarith
    then show ?thesis
      by (simp add: word_less_nat_alt word_le_nat_alt unat_saturating_add min_def less_Suc_eq_le)
  qed
  have "contains sel row col metrics \<longleftrightarrow> unat sr \<le> unat ?row \<and> unat ?row \<le> unat er \<and>
      (unat ?row = unat sr \<longrightarrow> sc \<le> col) \<and> (unat ?row = unat er \<longrightarrow> col \<le> ec)"
    using True le by (auto simp: contains_def o Let_def word_less_nat_alt word_le_nat_alt word_unat_eq_iff)
  moreover have "(\<exists>q \<in> set (visible_rects rn is_empty sel inner metrics).
      (unat (rect_x inner) + unat col, unat (rect_y inner) + unat row) \<in> rect_cells q) \<longleftrightarrow>
      (if unat sr = unat er then unat ?row = unat sr \<and> sc \<le> col \<and> col \<le> ec
       else unat ?row = unat sr \<and> sc \<le> col \<or> unat sr < unat ?row \<and> unat ?row < unat er \<or> unat ?row = unat er \<and> col \<le> ec)"
    using True ne assms(6) 
    by (simp add: visible_rects_def o Let_def cells r [symmetric] after col word_unat_eq_iff [symmetric])
      (auto simp: word_unat_eq_iff)
  moreover have "unat sr < unat er \<or> unat sr = unat er" using le by (auto simp: word_less_nat_alt)
  ultimately show ?thesis by (simp only: between_rows)
qed (auto simp: visible_rects_def contains_def)

text \<open>An example pane, scrolled down by five rows.\<close>

definition example_inner :: Rect where
  "example_inner = \<lparr>rect_x = 10, rect_y = 5, rect_width = 8, rect_height = 6\<rparr>"

definition example_metrics :: "ScrollMetrics option" where
  "example_metrics = Some \<lparr>offset_from_bottom = 0, max_offset_from_bottom = 5, viewport_rows = 6\<rparr>"

lemma example_pane_fits: "rect_fits example_inner" "rows_fit example_metrics (rect_height example_inner)"
  by (simp_all add: rect_fits_def example_inner_def rows_fit_def example_metrics_def viewport_top_row_def)

definition empty_area :: "Rect \<Rightarrow> bool" where
  "empty_area r \<longleftrightarrow> rect_width r = 0 \<or> rect_height r = 0"

theorem visible_rects_match_contains_witness:
  "(\<exists>r \<in> set (visible_rects clamped_rect empty_area (absolute_range () (9, 2) (6, 3)) example_inner example_metrics).
      (13, 6) \<in> rect_cells r) \<and> contains (absolute_range () (9, 2) (6, 3)) 1 3 example_metrics"
proof -
  have "contains (absolute_range () (9, 2) (6, 3)) 1 3 example_metrics"
    by (simp add: contains_def is_visible_def absolute_range_def ordered_def absolute_row_for_viewport_row_def
        viewport_top_row_def example_metrics_def)
  with visible_rects_match_contains [OF clamped_rect_spec _ example_pane_fits, of empty_area 1 3 "absolute_range () (9, 2) (6, 3)"]
  show ?thesis by (simp add: is_empty_spec_def empty_area_def example_inner_def)
qed

section \<open>Gestures\<close>

text \<open>A drag to a position: the cell it selects up to.\<close>

type_synonym drag_to = "u16 \<times> u16 \<times> Rect \<times> ScrollMetrics option"

fun drag_cell :: "drag_to \<Rightarrow> (u32 \<times> u16) option" where
  "drag_cell (screen_col, screen_row, pane_inner, metrics) =
     map_option (\<lambda>(row, col). (absolute_row_for_viewport_row row metrics, col)) (clamp_to_pane screen_col screen_row pane_inner)"

fun drags :: "'p Selection \<Rightarrow> drag_to list \<Rightarrow> 'p Selection option" where
  "drags sel [] = Some sel"
| "drags sel ((screen_col, screen_row, pane_inner, metrics) # moves) =
     (case drag sel screen_col screen_row pane_inner metrics of None \<Rightarrow> None | Some sel \<Rightarrow> drags sel moves)"

lemma clamp_total: "lo \<le> hi \<Longrightarrow> \<exists>c. clamp v lo hi = Some c \<and> lo \<le> c \<and> c \<le> hi \<and> (lo \<le> v \<and> v \<le> hi \<longrightarrow> c = v)"
  by (auto simp: clamp_def)

lemma saturating_add_u16: "unat a + unat b < 65536 \<Longrightarrow> saturating_add a b = a + b" for a b :: u16
  by (simp add: saturating_add_def)

lemma clamp_inside: "lo \<le> v \<Longrightarrow> v \<le> hi \<Longrightarrow> clamp v lo hi = Some v"
  by (auto simp: clamp_def)

lemma pane_edge:
  assumes "unat x + unat w \<le> 65535"
  shows "unat (x + saturating_sub w 1 :: u16) = unat x + (unat w - 1)" "x \<le> x + saturating_sub w 1"
proof -
  have "unat (saturating_sub w 1) = unat w - 1" by (simp add: unat_saturating_sub)
  with assms show e: "unat (x + saturating_sub w 1) = unat x + (unat w - 1)"
    using unat_add_u16 [of x "saturating_sub w 1"] by simp
  show "x \<le> x + saturating_sub w 1" by (simp add: word_le_nat_alt e)
qed

lemma clamp_to_pane_spec:
  assumes "rect_fits pane_inner"
  shows "\<exists>row col. clamp_to_pane screen_col screen_row pane_inner = Some (row, col) \<and>
    (0 < rect_height pane_inner \<longrightarrow> row < rect_height pane_inner) \<and> (0 < rect_width pane_inner \<longrightarrow> col < rect_width pane_inner)"
proof -
  have x: "unat (rect_x pane_inner) + unat (rect_width pane_inner) \<le> 65535"
    and y: "unat (rect_y pane_inner) + unat (rect_height pane_inner) \<le> 65535"
    using assms by (simp_all add: rect_fits_def)
  from clamp_total [OF pane_edge(2) [OF x], of screen_col] obtain c where
    c: "clamp screen_col (rect_x pane_inner) (rect_x pane_inner + saturating_sub (rect_width pane_inner) 1) = Some c"
      "rect_x pane_inner \<le> c" "c \<le> rect_x pane_inner + saturating_sub (rect_width pane_inner) 1" by blast
  from clamp_total [OF pane_edge(2) [OF y], of screen_row] obtain r where
    r: "clamp screen_row (rect_y pane_inner) (rect_y pane_inner + saturating_sub (rect_height pane_inner) 1) = Some r"
      "rect_y pane_inner \<le> r" "r \<le> rect_y pane_inner + saturating_sub (rect_height pane_inner) 1" by blast
  have "unat (c - rect_x pane_inner) = unat c - unat (rect_x pane_inner)" "unat (r - rect_y pane_inner) = unat r - unat (rect_y pane_inner)"
    using c(2) r(2) by (simp_all add: unat_sub)
  with c r pane_edge(1) [OF x] pane_edge(1) [OF y] show ?thesis
    by (auto simp: clamp_to_pane_def word_less_nat_alt word_le_nat_alt)
qed

lemma drag_spec:
  assumes "rect_fits pane_inner"
  shows "\<exists>cell. drag_cell (screen_col, screen_row, pane_inner, metrics) = Some cell \<and>
    drag sel screen_col screen_row pane_inner metrics =
      Some (sel\<lparr>sel_cursor := cell, sel_phase := if cell = sel_anchor sel then sel_phase sel else Dragging\<rparr>)"
proof -
  from clamp_to_pane_spec [OF assms, of screen_col screen_row] obtain row col where
    "clamp_to_pane screen_col screen_row pane_inner = Some (row, col)" by blast
  then show ?thesis by (simp add: drag_def Let_def)
qed

lemma drags_spec:
  assumes "\<forall>(_, _, pane_inner, _) \<in> set moves. rect_fits pane_inner" "sel_phase sel \<noteq> Done"
  shows "\<exists>sel'. drags sel moves = Some sel' \<and> sel_pane_id sel' = sel_pane_id sel \<and> sel_anchor sel' = sel_anchor sel \<and>
    Some (sel_cursor sel') = (if moves = [] then Some (sel_cursor sel) else drag_cell (last moves)) \<and>
    sel_phase sel' = (if list_all (\<lambda>move. drag_cell move = Some (sel_anchor sel)) moves then sel_phase sel else Dragging)"
  using assms
proof (induction moves arbitrary: sel)
  case (Cons move moves)
  obtain screen_col screen_row pane_inner metrics where m: "move = (screen_col, screen_row, pane_inner, metrics)" by (cases move)
  with Cons.prems have "rect_fits pane_inner" by simp
  from drag_spec [OF this, of screen_col screen_row metrics sel] obtain cell where
    d: "drag_cell move = Some cell" "drag sel screen_col screen_row pane_inner metrics =
      Some (sel\<lparr>sel_cursor := cell, sel_phase := if cell = sel_anchor sel then sel_phase sel else Dragging\<rparr>)"
    unfolding m by blast
  from Cons.IH [of "sel\<lparr>sel_cursor := cell, sel_phase := if cell = sel_anchor sel then sel_phase sel else Dragging\<rparr>"]
    Cons.prems d show ?case by (auto simp: m)
qed simp

text \<open>Whatever way the pointer takes after it went down, the gesture never panics, keeps its
  anchor and ends at the cell under the pointer, clamped to the pane; releasing it makes a
  selection exactly when the pointer left the anchor's cell at some time, and a mere click shows
  nothing.\<close>

theorem gesture_selects:
  assumes "\<forall>(_, _, pane_inner, _) \<in> set moves. rect_fits pane_inner"
  shows "\<exists>sel. drags (absolute_anchor pane cell) moves = Some sel \<and> sel_anchor sel = cell \<and> sel_pane_id sel = pane \<and>
    (moves \<noteq> [] \<longrightarrow> Some (sel_cursor sel) = drag_cell (last moves)) \<and>
    (let moved = list_ex (\<lambda>move. drag_cell move \<noteq> Some cell) moves in
     is_just_click sel = (\<not> moved) \<and> fst (finish sel) = moved \<and> is_visible (snd (finish sel)) = moved \<and>
     is_in_progress (snd (finish sel)) = (\<not> moved))"
proof -
  have "(\<not> list_all (\<lambda>move. drag_cell move = Some cell) moves) = list_ex (\<lambda>move. drag_cell move \<noteq> Some cell) moves"
    by (induction moves) auto
  moreover from drags_spec [OF assms, of "absolute_anchor pane cell"] obtain sel where
    "drags (absolute_anchor pane cell) moves = Some sel" "sel_anchor sel = cell" "sel_pane_id sel = pane"
    "moves \<noteq> [] \<longrightarrow> Some (sel_cursor sel) = drag_cell (last moves)"
    "sel_phase sel = (if list_all (\<lambda>move. drag_cell move = Some cell) moves then Anchored else Dragging)"
    by (auto simp: absolute_anchor_def)
  ultimately show ?thesis
    by (intro exI [of _ sel]) (auto simp: is_just_click_def finish_def is_visible_def is_in_progress_def Let_def)
qed

theorem gesture_selects_witness:
  "\<exists>sel. drags (absolute_anchor () (6, 3)) [(13, 6, example_inner, example_metrics), (12, 9, example_inner, example_metrics)] = Some sel \<and>
    sel_cursor sel = (9, 2) \<and> fst (finish sel)"
proof -
  let ?moves = "[(13, 6, example_inner, example_metrics), (12, 9, example_inner, example_metrics)] :: drag_to list"
  have "drag_cell (12, 9, example_inner, example_metrics) = Some (9, 2)" "drag_cell (13, 6, example_inner, example_metrics) = Some (6, 3)"
    by (simp_all add: clamp_to_pane_def clamp_def example_inner_def saturating_sub_def absolute_row_for_viewport_row_def
        viewport_top_row_def example_metrics_def)
  with gesture_selects [of ?moves "()" "(6, 3)"] example_pane_fits(1) show ?thesis by (auto simp: Let_def simp del: drags.simps drag_cell.simps)
qed

text \<open>The screen position of the anchor is where the pointer went down, as long as the pane has
  not scrolled.\<close>

theorem anchor_screen_roundtrip:
  assumes "rect_fits inner" "rows_fit metrics (rect_height inner)" "row < rect_height inner" "col < rect_width inner"
  shows "anchor_screen_pos (anchor pane row col metrics) inner metrics = Some (rect_y inner + row, rect_x inner + col)"
proof -
  have x: "unat (rect_x inner) + unat (rect_width inner) \<le> 65535" and y: "unat (rect_y inner) + unat (rect_height inner) \<le> 65535"
    and r: "unat row < unat (rect_height inner)" and c: "unat col < unat (rect_width inner)"
    using assms by (simp_all add: rect_fits_def word_less_nat_alt)
  have ux: "unat (rect_x inner + col) = unat (rect_x inner) + unat col" and uy: "unat (rect_y inner + row) = unat (rect_y inner) + unat row"
    using x y r c unat_add_u16 [of "rect_x inner" col] unat_add_u16 [of "rect_y inner" row] by linarith+
  have add: "saturating_add col (rect_x inner) = rect_x inner + col" "saturating_add row (rect_y inner) = rect_y inner + row"
  proof -
    have "unat col + unat (rect_x inner) < 65536" "unat row + unat (rect_y inner) < 65536" using x y r c by linarith+
    then show "saturating_add col (rect_x inner) = rect_x inner + col" "saturating_add row (rect_y inner) = rect_y inner + row"
      using saturating_add_u16 add.commute by metis+
  qed
  have "clamp (rect_x inner + col) (rect_x inner) (rect_x inner + saturating_sub (rect_width inner) 1) = Some (rect_x inner + col)"
    using c by (intro clamp_inside) (simp_all add: word_le_nat_alt pane_edge(1) [OF x] ux)
  moreover have "clamp (rect_y inner + row) (rect_y inner) (rect_y inner + saturating_sub (rect_height inner) 1) = Some (rect_y inner + row)"
    using r by (intro clamp_inside) (simp_all add: word_le_nat_alt pane_edge(1) [OF y] uy)
  ultimately show ?thesis
    by (simp add: anchor_screen_pos_def anchor_def viewport_row_back [OF assms(2,3)] add Let_def)
qed

theorem anchor_screen_roundtrip_witness:
  "anchor_screen_pos (anchor () 1 3 example_metrics) example_inner example_metrics = Some (6, 13)"
  using anchor_screen_roundtrip [OF example_pane_fits, of 1 3 "()"] by (simp add: example_inner_def)

end
