(* ===== verification/Wire.thy ===== *)
theory Wire
  imports Prelude
begin

text \<open>
  The wire types shared by server and client (\<open>herdr/src/protocol/wire.rs\<close>), the packing
  of colours and style bits, the length-prefixed framing and the version check. The
  \<open>bincode\<close> package is an argument (\<open>encode_to_vec\<close>, \<open>decode_from_slice\<close>); what the
  framing relies on is \<open>bincode_spec\<close>. A \<open>String\<close> is its bytes; a reader is the bytes
  still to come and how the stream ends.
\<close>

section \<open>Messages\<close>

definition PROTOCOL_VERSION :: u32 where "PROTOCOL_VERSION = 22"
definition MAX_FRAME_SIZE :: nat where "MAX_FRAME_SIZE = 2 * 1024 * 1024"
definition MAX_GRAPHICS_FRAME_SIZE :: nat where "MAX_GRAPHICS_FRAME_SIZE = 32 * 1024 * 1024"
definition LENGTH_PREFIX_BYTES :: nat where "LENGTH_PREFIX_BYTES = 4"

datatype RenderEncoding = SemanticFrame | TerminalAnsi

record CellData =
  cell_symbol :: string
  cell_fg :: u32
  cell_bg :: u32
  cell_modifier :: u16
  cell_skip :: bool
  cell_hyperlink :: "u32 option"

record CursorState =
  cursor_x :: u16
  cursor_y :: u16
  cursor_visible :: bool
  cursor_shape :: u8

record FrameData =
  fr_cells :: "CellData list"
  fr_width :: u16
  fr_height :: u16
  fr_cursor :: "CursorState option"
  fr_hyperlinks :: "string list"
  fr_graphics :: "u8 list"

record SurfaceRect =
  sr_x :: u16
  sr_y :: u16
  sr_width :: u16
  sr_height :: u16

record PaneSurfaceScrollMetrics =
  sm_offset_from_bottom :: u64
  sm_max_offset_from_bottom :: u64
  sm_viewport_rows :: u64

record PaneSurfacePane =
  sp_pane_id :: string
  sp_content_revision :: u64
  sp_rect :: SurfaceRect
  sp_inner_rect :: SurfaceRect
  sp_scrollbar_rect :: "SurfaceRect option"
  sp_scroll :: "PaneSurfaceScrollMetrics option"
  sp_focused :: bool
  sp_mouse_reporting :: bool
  sp_sgr_pixel_mouse :: bool
  sp_alternate_screen_active :: bool
  sp_pixel_width :: u32
  sp_pixel_height :: u32

datatype PaneSurfaceSplitDirection = SplitHorizontal | SplitVertical

record PaneSurfaceSplit =
  pss_direction :: PaneSurfaceSplitDirection
  pss_pos :: u16
  pss_area :: SurfaceRect
  pss_hit_rect :: SurfaceRect
  pss_path :: "bool list"

datatype SurfaceGraphicsTarget = TargetPane string | TargetPopup string

datatype SurfaceGraphicsSource = Terminal SurfaceGraphicsTarget u32 | PaneLayer string string

datatype SurfaceGraphicsFormat = Rgb | Rgba | Png

record SurfaceGraphicsAssetKey =
  ak_source :: SurfaceGraphicsSource
  ak_image_width :: u32
  ak_image_height :: u32
  ak_format :: SurfaceGraphicsFormat
  ak_data_len :: u64
  ak_data_fingerprint :: u64

record SurfaceGraphicsAsset =
  asset_key :: SurfaceGraphicsAssetKey
  asset_data :: "u8 list"

record SurfaceGraphicsPlacement =
  gp_asset :: SurfaceGraphicsAssetKey
  gp_logical_placement_id :: u32
  gp_x :: u16
  gp_y :: u16
  gp_cols :: u32
  gp_rows :: u32
  gp_source_x :: u32
  gp_source_y :: u32
  gp_source_width :: u32
  gp_source_height :: u32
  gp_x_offset :: u32
  gp_y_offset :: u32
  gp_z :: int
  gp_scrollback_offset :: u32

record SurfaceGraphicsScene =
  gs_assets :: "SurfaceGraphicsAsset list"
  gs_placements :: "SurfaceGraphicsPlacement list"
  gs_retained_assets :: "SurfaceGraphicsAssetKey list"

datatype ClientShellPopupSize = Cells u16 | Percent u8

record ClientShellPopupSurface =
  pop_terminal_id :: string
  pop_title :: string
  pop_width :: "ClientShellPopupSize option"
  pop_height :: "ClientShellPopupSize option"
  pop_frame :: FrameData
  pop_mouse_reporting :: bool
  pop_sgr_pixel_mouse :: bool
  pop_pixel_width :: u32
  pop_pixel_height :: u32

record PaneSurfaceFrame =
  sf_boot_id :: string
  sf_projection_revision :: u64
  sf_surface_revision :: u64
  sf_frame :: FrameData
  sf_panes :: "PaneSurfacePane list"
  sf_splits :: "PaneSurfaceSplit list"
  sf_popup :: "ClientShellPopupSurface option"
  sf_graphics :: SurfaceGraphicsScene

record PaneSurfacePatchRow =
  row_x :: u16
  row_y :: u16
  row_cells :: "CellData list"

record PaneSurfacePatch =
  patch_boot_id :: string
  patch_projection_revision :: u64
  patch_base_surface_revision :: u64
  patch_surface_revision :: u64
  patch_rows :: "PaneSurfacePatchRow list"
  patch_panes :: "PaneSurfacePane list"
  patch_cursor :: "CursorState option"

record TerminalFrame =
  tf_seq :: u64
  tf_width :: u16
  tf_height :: u16
  tf_full :: bool
  tf_bytes :: "u8 list"

datatype NotifyKind = Sound | Toast | SystemToast

text \<open>The constructors of \<open>ServerMessage\<close> in the frozen order of the source. The payloads of
  \<open>ClientShellSnapshot\<close> and \<open>SemanticNotification\<close> pass through the modelled code
  unread: they are type parameters.\<close>

datatype ('snapshot, 'notification) ServerMessage =
    Welcome u32 RenderEncoding "string option"
  | TerminalMsg TerminalFrame
  | Graphics "u8 list"
  | ServerShutdown "string option"
  | Notify NotifyKind string "string option"
  | Clipboard string
  | WindowTitle "string option"
  | ReloadSoundConfig
  | MouseCapture bool bool
  | TerminalBell u16
  | GraphicsFile string u64 u32 u64 "u8 list" string "SurfaceGraphicsAssetKey option"
  | GraphicsTransmissionRetired u64 u32
  | ClientShellSnapshot 'snapshot
  | PaneSurface PaneSurfaceFrame
  | SemanticNotification 'notification
  | ClientShellError string
  | DirectTerminalKeyboardProtocol u16 u8
  | ClientShellKeyboardReportAll bool
  | ClientShellEndpointResponseChunk string string bool "u8 list"
  | PatchMsg PaneSurfacePatch
  | EndpointControl string string

section \<open>Colours and style bits\<close>

text \<open>The variants of \<open>ratatui\<close>'s public enum \<open>Color\<close>.\<close>

datatype Color = Reset | Black | Red | Green | Yellow | Blue | Magenta | Cyan | Gray | DarkGray
  | LightRed | LightGreen | LightYellow | LightBlue | LightMagenta | LightCyan | White
  | Indexed u8 | RgbColor u8 u8 u8

fun color_to_u32 :: "Color \<Rightarrow> u32" where
  "color_to_u32 Reset = 0x00"
| "color_to_u32 Black = 0x01"
| "color_to_u32 Red = 0x02"
| "color_to_u32 Green = 0x03"
| "color_to_u32 Yellow = 0x04"
| "color_to_u32 Blue = 0x05"
| "color_to_u32 Magenta = 0x06"
| "color_to_u32 Cyan = 0x07"
| "color_to_u32 Gray = 0x08"
| "color_to_u32 DarkGray = 0x09"
| "color_to_u32 LightRed = 0x0A"
| "color_to_u32 LightGreen = 0x0B"
| "color_to_u32 LightYellow = 0x0C"
| "color_to_u32 LightBlue = 0x0D"
| "color_to_u32 LightMagenta = 0x0E"
| "color_to_u32 LightCyan = 0x0F"
| "color_to_u32 White = 0x10"
| "color_to_u32 (Indexed i) = 0x01000000 OR ucast i"
| "color_to_u32 (RgbColor r g b) =
     0x02000000 OR push_bit 16 (ucast r) OR push_bit 8 (ucast g) OR ucast b"

definition u32_to_color :: "u32 \<Rightarrow> Color" where
  "u32_to_color val =
     (let tag = drop_bit 24 val; low = val AND 0xFF in
      if tag = 0x00 then
        (if low = 0x00 then Reset else if low = 0x01 then Black else if low = 0x02 then Red
         else if low = 0x03 then Green else if low = 0x04 then Yellow else if low = 0x05 then Blue
         else if low = 0x06 then Magenta else if low = 0x07 then Cyan else if low = 0x08 then Gray
         else if low = 0x09 then DarkGray else if low = 0x0A then LightRed
         else if low = 0x0B then LightGreen else if low = 0x0C then LightYellow
         else if low = 0x0D then LightBlue else if low = 0x0E then LightMagenta
         else if low = 0x0F then LightCyan else if low = 0x10 then White else Reset)
      else if tag = 0x01 then Indexed (ucast low)
      else if tag = 0x02 then
        RgbColor (ucast (drop_bit 16 val AND 0xFF)) (ucast (drop_bit 8 val AND 0xFF)) (ucast low)
      else Reset)"

definition UNDERLINE_STYLE_MASK :: u16 where "UNDERLINE_STYLE_MASK = 0xF000"

definition underline_style_from_modifier :: "u16 \<Rightarrow> u8" where
  "underline_style_from_modifier modifier = ucast (drop_bit 12 (modifier AND UNDERLINE_STYLE_MASK))"

text \<open>\<open>Modifier\<close> of \<open>ratatui\<close> is its bits; \<open>from_bits_retain\<close> keeps all of them.\<close>

definition modifier_with_underline_style :: "u16 \<Rightarrow> u8 \<Rightarrow> u16" where
  "modifier_with_underline_style bits underline_style =
     bits OR push_bit 12 (ucast underline_style AND 0x0F)"

section \<open>Framing\<close>

datatype FramingError = Oversized nat nat | Io string | Bincode string | UnexpectedEof

fun framing_error_display :: "FramingError \<Rightarrow> string" where
  "framing_error_display (Oversized claimed limit) =
     ''frame size '' @ show_nat claimed @ '' exceeds maximum '' @ show_nat limit"
| "framing_error_display (Io e) = ''I/O error: '' @ e"
| "framing_error_display (Bincode e) = ''bincode error: '' @ e"
| "framing_error_display UnexpectedEof = ''unexpected end of stream''"

text \<open>A stream delivers its bytes and then ends, at its end (\<open>None\<close>) or with an I/O error.
  A failed \<open>read_exact\<close> has consumed what there was.\<close>

record reader =
  rd_bytes :: "u8 list"
  rd_error :: "string option"

definition read_exact_or_eof :: "reader \<Rightarrow> nat \<Rightarrow> (FramingError + u8 list) \<times> reader" where
  "read_exact_or_eof rd n =
     (if n \<le> length (rd_bytes rd)
      then (Inr (take n (rd_bytes rd)), rd\<lparr>rd_bytes := drop n (rd_bytes rd)\<rparr>)
      else (Inl (case rd_error rd of None \<Rightarrow> UnexpectedEof | Some e \<Rightarrow> Io e), rd\<lparr>rd_bytes := []\<rparr>))"

text \<open>Writing to memory cannot fail: the result is the bytes appended to the writer.\<close>

definition write_message :: "('m \<Rightarrow> string + u8 list) \<Rightarrow> 'm \<Rightarrow> FramingError + u8 list" where
  "write_message encode_to_vec msg =
     (case encode_to_vec msg of
        Inl e \<Rightarrow> Inl (Bincode e)
      | Inr payload \<Rightarrow>
          (let len = length payload in
           if len > 4294967295
           then Inl (Bincode (''payload length '' @ show_nat len @
                  '' exceeds u32::MAX (4294967295), would be truncated by length prefix''))
           else Inr (le_bytes32 (of_nat len) @ payload)))"

definition read_message ::
    "(u8 list \<Rightarrow> string + 'm \<times> nat) \<Rightarrow> reader \<Rightarrow> nat \<Rightarrow> (FramingError + 'm) \<times> reader" where
  "read_message decode_from_slice rd max_frame_size =
     (case read_exact_or_eof rd LENGTH_PREFIX_BYTES of
        (Inl e, rd1) \<Rightarrow> (Inl e, rd1)
      | (Inr len_buf, rd1) \<Rightarrow>
          (let claimed_len = unat (from_le32 (len_buf ! 0) (len_buf ! 1) (len_buf ! 2) (len_buf ! 3)) in
           if claimed_len > max_frame_size then (Inl (Oversized claimed_len max_frame_size), rd1)
           else case read_exact_or_eof rd1 claimed_len of
                  (Inl e, rd2) \<Rightarrow> (Inl e, rd2)
                | (Inr payload, rd2) \<Rightarrow>
                    (case decode_from_slice payload of
                       Inl e \<Rightarrow> (Inl (Bincode e), rd2)
                     | Inr (msg, consumed) \<Rightarrow>
                         if consumed \<noteq> claimed_len
                         then (Inl (Bincode (''decoded '' @ show_nat consumed @
                                '' bytes but payload length was '' @ show_nat claimed_len @
                                ''; trailing bytes are not allowed'')), rd2)
                         else (Inr msg, rd2))))"

datatype VersionCheck = Compatible | Incompatible string

definition check_client_version :: "u32 \<Rightarrow> VersionCheck" where
  "check_client_version client_version =
     (if client_version = 0
      then Incompatible ''pre-persistence client (version 0) is not supported''
      else if client_version = PROTOCOL_VERSION then Compatible
      else if client_version < PROTOCOL_VERSION
      then Incompatible (''client version '' @ show_nat (unat client_version) @
             '' is older than server version '' @ show_nat (unat PROTOCOL_VERSION) @
             ''; please upgrade your herdr client'')
      else Incompatible (''client version '' @ show_nat (unat client_version) @
             '' is newer than server version '' @ show_nat (unat PROTOCOL_VERSION) @
             ''; please upgrade the herdr server''))"

section \<open>Properties\<close>

text \<open>What the framing relies on in \<open>bincode\<close>: a decoder reads back an encoded value and
  reports that it used all of its bytes.\<close>

definition bincode_spec :: "('m \<Rightarrow> string + u8 list) \<Rightarrow> (u8 list \<Rightarrow> string + 'm \<times> nat) \<Rightarrow> bool" where
  "bincode_spec encode_to_vec decode_from_slice \<longleftrightarrow>
     (\<forall>msg bytes. encode_to_vec msg = Inr bytes \<longrightarrow> decode_from_slice bytes = Inr (msg, length bytes))"

lemma u32_of_nat_bytes:
  "n \<le> 4294967295 \<Longrightarrow> unat (of_nat n :: u32) = n"
  by (simp add: unat_of_nat)

lemma write_message_Inr:
  assumes "bincode_spec enc dec" and "write_message enc msg = Inr bytes"
  obtains payload where "bytes = le_bytes32 (of_nat (length payload)) @ payload"
    "dec payload = Inr (msg, length payload)" "unat (of_nat (length payload) :: u32) = length payload"
proof -
  obtain payload where p: "enc msg = Inr payload" "length payload \<le> 4294967295"
      "bytes = le_bytes32 (of_nat (length payload)) @ payload"
    using assms(2) by (auto simp: write_message_def Let_def split: sum.splits if_splits)
  have "dec payload = Inr (msg, length payload)"
    using assms(1) p(1) by (auto simp: bincode_spec_def)
  from that [OF p(3) this u32_of_nat_bytes [OF p(2)]] show thesis .
qed

lemma le_prefix:
  "from_le32 (le_bytes32 w ! 0) (le_bytes32 w ! Suc 0) (le_bytes32 w ! 2) (le_bytes32 w ! 3) = w"
  by (simp add: le_bytes32_def)

lemma read_exact_prefix:
  "read_exact_or_eof \<lparr>rd_bytes = le_bytes32 n @ tail, rd_error = e\<rparr> LENGTH_PREFIX_BYTES =
     (Inr (le_bytes32 n), \<lparr>rd_bytes = tail, rd_error = e\<rparr>)"
  by (simp add: read_exact_or_eof_def le_bytes32_def LENGTH_PREFIX_BYTES_def)

lemma read_message_written:
  assumes "bincode_spec enc dec" and "write_message enc msg = Inr bytes" and "length bytes \<le> limit + 4"
  shows "read_message dec \<lparr>rd_bytes = bytes @ rest, rd_error = e\<rparr> limit =
    (Inr msg, \<lparr>rd_bytes = rest, rd_error = e\<rparr>)"
proof -
  obtain payload where p: "bytes = le_bytes32 (of_nat (length payload)) @ payload"
      "dec payload = Inr (msg, length payload)" "unat (of_nat (length payload) :: u32) = length payload"
    using write_message_Inr [OF assms(1,2)] .
  have "length payload \<le> limit" using assms(3) by (simp add: p(1) le_bytes32_def)
  moreover have "read_exact_or_eof \<lparr>rd_bytes = payload @ rest, rd_error = e\<rparr> (length payload) =
      (Inr payload, \<lparr>rd_bytes = rest, rd_error = e\<rparr>)" by (simp add: read_exact_or_eof_def)
  ultimately show ?thesis
    by (simp add: p(1,3) read_message_def read_exact_prefix le_prefix Let_def p(2))
qed

text \<open>A message written to a stream is read back, and the reader stands exactly behind
  its frame, whatever follows; one larger than the reader's limit is refused before its
  payload is looked at, and a stream that ends inside the frame is an end-of-stream error.\<close>

theorem framing_roundtrip:
  assumes "bincode_spec enc dec" and "write_message enc msg = Inr bytes"
  shows "(length bytes \<le> limit + 4 \<longrightarrow>
      read_message dec \<lparr>rd_bytes = bytes @ rest, rd_error = e\<rparr> limit =
        (Inr msg, \<lparr>rd_bytes = rest, rd_error = e\<rparr>)) \<and>
    (limit + 4 < length bytes \<longrightarrow>
      fst (read_message dec \<lparr>rd_bytes = bytes @ rest, rd_error = e\<rparr> limit) =
        Inl (Oversized (length bytes - 4) limit)) \<and>
    (k < length bytes \<and> length bytes \<le> limit + 4 \<longrightarrow>
      fst (read_message dec \<lparr>rd_bytes = take k bytes, rd_error = None\<rparr> limit) = Inl UnexpectedEof)"
proof -
  obtain payload where p: "bytes = le_bytes32 (of_nat (length payload)) @ payload"
      "dec payload = Inr (msg, length payload)" "unat (of_nat (length payload) :: u32) = length payload"
    using write_message_Inr [OF assms] .
  have len: "length bytes = length payload + 4" by (simp add: p(1) le_bytes32_def)
  have over: "fst (read_message dec \<lparr>rd_bytes = bytes @ rest, rd_error = e\<rparr> limit) =
      Inl (Oversized (length payload) limit)" if "limit < length payload"
    using that by (simp add: p(1,3) read_message_def read_exact_prefix le_prefix Let_def)
  have eof: "fst (read_message dec \<lparr>rd_bytes = take k bytes, rd_error = None\<rparr> limit) = Inl UnexpectedEof"
    if "k < length bytes" "length payload \<le> limit"
  proof (cases "k < 4")
    case True
    with len show ?thesis by (simp add: read_message_def LENGTH_PREFIX_BYTES_def read_exact_or_eof_def)
  next
    case False
    then have cut: "take k bytes = le_bytes32 (of_nat (length payload)) @ take (k - 4) payload"
      by (simp add: p(1) le_bytes32_def take_Cons' numeral_eq_Suc)
    from False that len have "read_exact_or_eof \<lparr>rd_bytes = take (k - 4) payload, rd_error = None\<rparr>
        (length payload) = (Inl UnexpectedEof, \<lparr>rd_bytes = [], rd_error = None\<rparr>)"
      by (simp add: read_exact_or_eof_def)
    with that show ?thesis unfolding cut
      by (simp add: p(3) read_message_def read_exact_prefix le_prefix Let_def)
  qed
  from read_message_written [OF assms] over eof len show ?thesis by simp
qed

theorem framing_roundtrip_witness:
  "read_message (\<lambda>bs. Inr (hd bs, 1)) \<lparr>rd_bytes = [1, 0, 0, 0, 7, 9 :: u8], rd_error = None\<rparr> 16 =
     (Inr 7, \<lparr>rd_bytes = [9], rd_error = None\<rparr>)"
proof -
  have "bincode_spec (\<lambda>b :: u8. Inr [b]) (\<lambda>bs. Inr (hd bs, 1))" by (simp add: bincode_spec_def)
  moreover have "write_message (\<lambda>b. Inr [b]) (7 :: u8) = Inr [1, 0, 0, 0, 7]"
    by (simp add: write_message_def le_bytes32_def)
  ultimately show ?thesis using framing_roundtrip [of "\<lambda>b. Inr [b]" _ 7 _ 16 "[9]" None] by force
qed

lemma ucast_u8_u32_bit [simp]: "bit (ucast (b :: u8) :: u32) n \<longleftrightarrow> n < 8 \<and> bit b n"
  by (auto simp: bit_simps dest: bit_imp_le_length)

text \<open>The packing for any tag above bit 23 and any mask of the low byte.\<close>

lemma pack_bits:
  fixes r g b :: u8 and t m :: u32
  assumes "\<And>n. bit m n \<longleftrightarrow> n < 8" and "\<And>n. bit t n \<Longrightarrow> 24 \<le> n"
  defines "v \<equiv> t OR push_bit 16 (ucast r) OR push_bit 8 (ucast g) OR ucast b"
  shows "drop_bit 24 v = drop_bit 24 t"
    and "ucast (drop_bit 16 v AND m) = r"
    and "ucast (drop_bit 8 v AND m) = g"
    and "ucast (v AND m) = b"
  unfolding v_def
  by (rule bit_word_eqI, use assms(2) in \<open>auto simp: bit_simps assms(1), (fastforce dest: assms(2))?\<close>)+

lemma byte_mask_bit: "bit (0xFF :: u32) n \<longleftrightarrow> n < 8"
proof -
  have "(0xFF :: u32) = mask 8" by (simp add: mask_eq_exp_minus_1)
  then show ?thesis by (simp only: bit_mask_iff possible_bit_word) auto
qed

lemma bit_exp_word: "k < LENGTH('a) \<Longrightarrow> bit (2 ^ k :: 'a::len word) n \<longleftrightarrow> n = k"
  by (auto simp: bit_exp_iff possible_bit_def)

lemma tag_bits:
  "bit (0x01000000 :: u32) n \<Longrightarrow> 24 \<le> n" "bit (0x02000000 :: u32) n \<Longrightarrow> 24 \<le> n"
  using bit_exp_word [where ?'a = 32, of 24 n] bit_exp_word [where ?'a = 32, of 25 n] by simp_all

lemmas rgb_bits = pack_bits [OF byte_mask_bit, of "0x02000000", OF tag_bits(2)]
lemmas indexed_bits = pack_bits(1,4) [OF byte_mask_bit, of "0x01000000" 0 0, OF tag_bits(1)]

text \<open>Packing a colour for the wire loses nothing: every named, indexed or RGB colour is
  read back.\<close>

theorem color_roundtrip: "u32_to_color (color_to_u32 c) = c"
proof (cases c)
  case (Indexed i)
  have "drop_bit 24 (0x01000000 OR ucast i :: u32) = 1" "ucast ((0x01000000 OR ucast i :: u32) AND 0xFF) = i"
    using indexed_bits [of i] by simp_all
  with Indexed show ?thesis
    by (simp only: color_to_u32.simps u32_to_color_def Let_def) simp
next
  case (RgbColor r g b)
  then show ?thesis
    by (simp only: color_to_u32.simps u32_to_color_def Let_def rgb_bits) simp
qed (simp_all add: u32_to_color_def)

end
