(* ===== verification/Surface_Grid.thy ===== *)
theory Surface_Grid
  imports Wire
begin

text \<open>
  The cell grid of a pane surface and its sparse update (\<open>herdr/src/protocol/surface_delta.rs\<close>):
  the type of a delta, \<open>apply_rows\<close> and the scanner \<open>changed_rows\<close> that finds the spans in
  which two grids differ. A grid is a row-major list of cells; a slice out of range panics,
  which is the value \<open>None\<close>. The size of an encoded span and the length of its base64 text
  come from packages and are arguments.
\<close>

section \<open>Deltas\<close>

definition delta_MESSAGE_KIND :: string where "delta_MESSAGE_KIND = ''endpoint.surface-delta.v1''"
definition MAX_SPANS :: nat where "MAX_SPANS = 4096"

datatype GridUpdate = Patch "PaneSurfacePatchRow list" | Replace "CellData list"

record SurfaceDelta =
  base_projection_revision :: u64
  base_surface_revision :: u64
  delta_surface :: PaneSurfaceFrame
  delta_rows :: "PaneSurfacePatchRow list"
  popup_cells :: "GridUpdate option"

text \<open>\<open>CellSpan\<close> is a \<open>PaneSurfacePatchRow\<close> whose cells are borrowed, and is encoded alike.\<close>

type_synonym CellSpan = PaneSurfacePatchRow

section \<open>Operations\<close>

definition row_start :: "u16 \<Rightarrow> PaneSurfacePatchRow \<Rightarrow> nat" where
  "row_start width row = unat (row_y row) * unat width + unat (row_x row)"

fun apply_rows :: "CellData list \<Rightarrow> u16 \<Rightarrow> PaneSurfacePatchRow list \<Rightarrow> CellData list option" where
  "apply_rows cells width [] = Some cells"
| "apply_rows cells width (row # rows) =
     (case copy_into cells (row_start width row) (row_cells row) of
        None \<Rightarrow> None
      | Some cells' \<Rightarrow> apply_rows cells' width rows)"

function chunks :: "nat \<Rightarrow> 'a list \<Rightarrow> 'a list list" where
  "chunks n xs = (if n = 0 \<or> xs = [] then [] else take n xs # chunks n (drop n xs))"
  by auto
termination by (relation "measure (\<lambda>(n, xs). length xs)") auto

declare chunks.simps [simp del]

text \<open>The inner loop: the first column from \<open>x\<close> on at which the rows agree again.\<close>

function changed_end :: "CellData list \<Rightarrow> CellData list \<Rightarrow> nat \<Rightarrow> nat option" where
  "changed_end old_row new_row x =
     (if x < length new_row then
        (if \<not> x < length old_row then None
         else if old_row ! x \<noteq> new_row ! x then changed_end old_row new_row (x + 1)
         else Some x)
      else Some x)"
  by auto
termination by (relation "measure (\<lambda>(old_row, new_row, x). length new_row - x)") auto

declare changed_end.simps [simp del]

lemma changed_end_bounds:
  "changed_end old_row new_row x = Some e \<Longrightarrow> x \<le> length new_row \<Longrightarrow>
     x \<le> e \<and> e \<le> length new_row \<and> (\<forall>i. x \<le> i \<and> i < e \<longrightarrow> old_row ! i \<noteq> new_row ! i) \<and>
     (e < length new_row \<longrightarrow> old_row ! e = new_row ! e)"
proof (induction old_row new_row x rule: changed_end.induct)
  case (1 old_row new_row x)
  note unfold = changed_end.simps [of old_row new_row x]
  show ?case
  proof (cases "x < length new_row \<and> x < length old_row \<and> old_row ! x \<noteq> new_row ! x")
    case True
    with 1 unfold have "x + 1 \<le> e \<and> e \<le> length new_row \<and>
        (\<forall>i. x + 1 \<le> i \<and> i < e \<longrightarrow> old_row ! i \<noteq> new_row ! i) \<and>
        (e < length new_row \<longrightarrow> old_row ! e = new_row ! e)"
      by simp
    with True show ?thesis by (metis Suc_eq_plus1 Suc_leD Suc_leI le_neq_implies_less)
  next
    case False
    with 1(2,3) unfold show ?thesis by (auto split: if_splits)
  qed
qed

lemma changed_end_total: "length old_row = length new_row \<Longrightarrow> \<exists>e. changed_end old_row new_row x = Some e"
  by (induction old_row new_row x rule: changed_end.induct) (subst changed_end.simps, auto)

lemma changed_end_progress:
  assumes "x < length new_row" "x < length old_row" "old_row ! x \<noteq> new_row ! x"
    and "changed_end old_row new_row x = Some e"
  shows "x < e"
proof -
  from assms have "changed_end old_row new_row (x + 1) = Some e"
    by (simp add: changed_end.simps [of old_row new_row x])
  with assms(1) changed_end_bounds [of old_row new_row "x + 1" e] show ?thesis by simp
qed

text \<open>The outer loop on one row. The state is the column, the encoded size so far and the spans
  so far; \<open>Some (Inr None)\<close> is the early return when a full frame is no larger.\<close>

function scan_row :: "(CellSpan \<Rightarrow> string + nat) \<Rightarrow> (nat \<Rightarrow> nat option) \<Rightarrow> nat \<Rightarrow> nat \<Rightarrow>
    CellData list \<Rightarrow> CellData list \<Rightarrow> nat \<Rightarrow> nat \<Rightarrow> CellSpan list \<Rightarrow>
    (string + (nat \<times> CellSpan list) option) option" where
  "scan_row size_of encoded_len full_size y old_row new_row x sz rows =
     (if \<not> x < length new_row then Some (Inr (Some (sz, rows)))
      else if \<not> x < length old_row then None
      else if old_row ! x = new_row ! x
      then scan_row size_of encoded_len full_size y old_row new_row (x + 1) sz rows
      else case changed_end old_row new_row x of
             None \<Rightarrow> None
           | Some e \<Rightarrow>
               (let span = \<lparr>row_x = of_nat x, row_y = of_nat y, row_cells = slice x (e - x) new_row\<rparr> in
                case size_of span of
                  Inl err \<Rightarrow> Some (Inl err)
                | Inr n \<Rightarrow>
                    if length rows = MAX_SPANS \<or>
                       (case encoded_len (sz + n) of None \<Rightarrow> True | Some len \<Rightarrow> full_size \<le> len)
                    then Some (Inr None)
                    else scan_row size_of encoded_len full_size y old_row new_row e (sz + n)
                           (rows @ [span])))"
  by auto
termination
  by (relation "measure (\<lambda>(_, _, _, _, _, new_row, x, _, _). length new_row - x)")
    (auto intro: diff_less_mono2 changed_end_progress)

declare scan_row.simps [simp del]

fun scan_rows :: "(CellSpan \<Rightarrow> string + nat) \<Rightarrow> (nat \<Rightarrow> nat option) \<Rightarrow> nat \<Rightarrow> nat \<Rightarrow>
    (CellData list \<times> CellData list) list \<Rightarrow> nat \<Rightarrow> CellSpan list \<Rightarrow>
    (string + CellSpan list option) option" where
  "scan_rows size_of encoded_len full_size y [] sz rows = Some (Inr (Some rows))"
| "scan_rows size_of encoded_len full_size y ((old_row, new_row) # rest) sz rows =
     (case scan_row size_of encoded_len full_size y old_row new_row 0 sz rows of
        None \<Rightarrow> None
      | Some (Inl err) \<Rightarrow> Some (Inl err)
      | Some (Inr None) \<Rightarrow> Some (Inr None)
      | Some (Inr (Some (sz', rows'))) \<Rightarrow>
          scan_rows size_of encoded_len full_size (y + 1) rest sz' rows')"

definition changed_rows :: "(CellSpan \<Rightarrow> string + nat) \<Rightarrow> (nat \<Rightarrow> nat option) \<Rightarrow> CellData list \<Rightarrow>
    CellData list \<Rightarrow> u16 \<Rightarrow> nat \<Rightarrow> (string + CellSpan list option) option" where
  "changed_rows size_of encoded_len last_cells next_cells width full_size =
     (if width = 0 then Some (Inr (Some []))
      else scan_rows size_of encoded_len full_size 0
             (zip (chunks (unat width) last_cells) (chunks (unat width) next_cells)) 0 [])"

section \<open>Spans on a grid\<close>

definition row_end :: "u16 \<Rightarrow> PaneSurfacePatchRow \<Rightarrow> nat" where
  "row_end width row = row_start width row + length (row_cells row)"

text \<open>Spans of a well-formed update: not empty, inside their row and the grid, one after the
  other from position \<open>p\<close> on.\<close>

fun sorted_spans :: "u16 \<Rightarrow> nat \<Rightarrow> nat \<Rightarrow> PaneSurfacePatchRow list \<Rightarrow> bool" where
  "sorted_spans width sz p [] \<longleftrightarrow> True"
| "sorted_spans width sz p (row # rows) \<longleftrightarrow>
     p \<le> row_start width row \<and> row_cells row \<noteq> [] \<and>
     unat (row_x row) + length (row_cells row) \<le> unat width \<and> row_end width row \<le> sz \<and>
     sorted_spans width sz (row_end width row) rows"

definition covered_by :: "u16 \<Rightarrow> PaneSurfacePatchRow list \<Rightarrow> nat \<Rightarrow> bool" where
  "covered_by width rows i \<longleftrightarrow> (\<exists>row \<in> set rows. row_start width row \<le> i \<and> i < row_end width row)"

lemma covered_by_simps [simp]:
  "covered_by width [] i \<longleftrightarrow> False"
  "covered_by width (row # rows) i \<longleftrightarrow>
     row_start width row \<le> i \<and> i < row_end width row \<or> covered_by width rows i"
  "covered_by width (rows @ rows') i \<longleftrightarrow> covered_by width rows i \<or> covered_by width rows' i"
  by (auto simp: covered_by_def)

lemma sorted_spans_covered: "sorted_spans width sz p rows \<Longrightarrow> covered_by width rows i \<Longrightarrow> p \<le> i \<and> i < sz"
  by (induction rows arbitrary: p) (fastforce simp: row_end_def)+

lemma sorted_spans_mono: "sorted_spans width sz p rows \<Longrightarrow> q \<le> p \<Longrightarrow> sorted_spans width sz q rows"
  by (cases rows) auto

lemma sorted_spans_total:
  "sorted_spans width sz p rows \<Longrightarrow> p \<le> sz \<Longrightarrow>
     p + sum_list (map (\<lambda>row. length (row_cells row)) rows) \<le> sz"
  by (induction rows arbitrary: p) (fastforce simp: row_end_def)+

text \<open>Rows that fit the grid are applied without a panic; every cell is the one the last
  covering span gives it, or the old one.\<close>

lemma apply_rows_length: "apply_rows cells width rows = Some cells' \<Longrightarrow> length cells' = length cells"
  by (induction rows arbitrary: cells) (auto split: option.splits)

lemma apply_rows_total:
  "\<forall>row \<in> set rows. row_end width row \<le> length cells \<Longrightarrow> \<exists>cells'. apply_rows cells width rows = Some cells'"
  by (induction rows arbitrary: cells) (auto simp: row_end_def copy_into_def)

lemma apply_rows_outside:
  "apply_rows cells width rows = Some cells' \<Longrightarrow> \<not> covered_by width rows i \<Longrightarrow> i < length cells \<Longrightarrow>
     cells' ! i = cells ! i"
  by (induction rows arbitrary: cells)
    (auto split: option.splits simp: nth_splice row_end_def)

text \<open>What rows applied in order make of one cell.\<close>

fun paint :: "u16 \<Rightarrow> PaneSurfacePatchRow list \<Rightarrow> nat \<Rightarrow> CellData \<Rightarrow> CellData" where
  "paint width [] i c = c"
| "paint width (row # rows) i c =
     paint width rows i (if row_start width row \<le> i \<and> i < row_end width row
       then row_cells row ! (i - row_start width row) else c)"

lemma paint_append [simp]: "paint width (rows @ rows') i c = paint width rows' i (paint width rows i c)"
  by (induction rows arbitrary: c) simp_all

lemma apply_rows_paint:
  "apply_rows cells width rows = Some cells' \<Longrightarrow> i < length cells \<Longrightarrow> cells' ! i = paint width rows i (cells ! i)"
  by (induction rows arbitrary: cells) (auto split: option.splits simp: nth_splice row_end_def)

lemma apply_rows_append:
  "apply_rows cells width (rows @ rows') = Option.bind (apply_rows cells width rows) (\<lambda>cells. apply_rows cells width rows')"
  by (induction rows arbitrary: cells) (simp_all add: copy_into_def)

text \<open>Spans that carry the cells of a grid \<open>new\<close> move every covered cell to \<open>new\<close>.\<close>

definition spans_of :: "u16 \<Rightarrow> CellData list \<Rightarrow> PaneSurfacePatchRow list \<Rightarrow> bool" where
  "spans_of width new rows \<longleftrightarrow>
     (\<forall>row \<in> set rows. row_end width row \<le> length new \<and>
        row_cells row = slice (row_start width row) (length (row_cells row)) new)"

lemma paint_spans:
  "spans_of width new rows \<Longrightarrow> i < length new \<Longrightarrow> paint width rows i c = (if covered_by width rows i then new ! i else c)"
proof (induction rows arbitrary: c)
  case (Cons row rows)
  have "row_cells row ! (i - row_start width row) = new ! i" if "row_start width row \<le> i" "i < row_end width row"
  proof -
    from Cons.prems(1) have content: "row_cells row = slice (row_start width row) (length (row_cells row)) new"
      and fit: "row_start width row + length (row_cells row) \<le> length new"
      by (simp_all add: spans_of_def row_end_def)
    from that fit show ?thesis by (subst content) (simp add: row_end_def)
  qed
  with Cons show ?case by (simp add: spans_of_def)
qed simp

lemma apply_rows_spans:
  assumes "spans_of width new rows" and "length cells = length new"
  shows "\<exists>cells'. apply_rows cells width rows = Some cells' \<and> length cells' = length new \<and>
    (\<forall>i < length new. cells' ! i = (if covered_by width rows i then new ! i else cells ! i))"
proof -
  obtain cells' where c: "apply_rows cells width rows = Some cells'"
    using apply_rows_total [of rows width cells] assms by (auto simp: spans_of_def)
  with apply_rows_length [OF c] apply_rows_paint [OF c] paint_spans [OF assms(1)] assms(2) show ?thesis by simp
qed

section \<open>The scanner\<close>

text \<open>On one row: the spans are \<open>[a, b)\<close> intervals from column \<open>x\<close> on, and a column differs iff
  one of them has it.\<close>

fun intervals :: "nat \<Rightarrow> nat \<Rightarrow> (nat \<times> nat) list \<Rightarrow> bool" where
  "intervals n x [] \<longleftrightarrow> True"
| "intervals n x ((a, b) # ab) \<longleftrightarrow> x \<le> a \<and> a < b \<and> b \<le> n \<and> intervals n b ab"

definition interval_span :: "nat \<Rightarrow> CellData list \<Rightarrow> nat \<times> nat \<Rightarrow> CellSpan" where
  "interval_span y new_row ab =
     \<lparr>row_x = of_nat (fst ab), row_y = of_nat y, row_cells = slice (fst ab) (snd ab - fst ab) new_row\<rparr>"

definition diff_intervals :: "CellData list \<Rightarrow> CellData list \<Rightarrow> nat \<Rightarrow> (nat \<times> nat) list \<Rightarrow> bool" where
  "diff_intervals old_row new_row x ab \<longleftrightarrow> intervals (length new_row) x ab \<and>
     (\<forall>i. x \<le> i \<and> i < length new_row \<longrightarrow>
        (old_row ! i \<noteq> new_row ! i \<longleftrightarrow> (\<exists>p \<in> set ab. fst p \<le> i \<and> i < snd p)))"

lemma intervals_above: "intervals n x ab \<Longrightarrow> p \<in> set ab \<Longrightarrow> x \<le> fst p \<and> fst p < snd p \<and> snd p \<le> n"
  by (induction ab arbitrary: x) fastforce+

lemma intervals_mono: "intervals n x ab \<Longrightarrow> y \<le> x \<Longrightarrow> intervals n y ab"
  by (cases ab) auto

lemma diff_intervals_skip:
  assumes "diff_intervals old_row new_row (x + 1) ab" and "old_row ! x = new_row ! x"
  shows "diff_intervals old_row new_row x ab"
proof -
  have ab: "intervals (length new_row) (x + 1) ab" using assms(1) by (simp add: diff_intervals_def)
  then have "\<not> (fst p \<le> x \<and> x < snd p)" if "p \<in> set ab" for p
    using intervals_above [OF _ that] by fastforce
  with assms have "(old_row ! i \<noteq> new_row ! i) = (\<exists>p \<in> set ab. fst p \<le> i \<and> i < snd p)"
    if "x \<le> i" "i < length new_row" for i
    using that by (cases "i = x") (auto simp: diff_intervals_def)
  with intervals_mono [OF ab] show ?thesis by (simp add: diff_intervals_def)
qed

lemma diff_intervals_span:
  assumes "diff_intervals old_row new_row e ab" "x < e" "e \<le> length new_row"
    and "\<And>i. x \<le> i \<Longrightarrow> i < e \<Longrightarrow> old_row ! i \<noteq> new_row ! i"
  shows "diff_intervals old_row new_row x ((x, e) # ab)"
proof -
  have "(old_row ! i \<noteq> new_row ! i) = (\<exists>p \<in> set ((x, e) # ab). fst p \<le> i \<and> i < snd p)"
    if "x \<le> i" "i < length new_row" for i
    using assms that by (cases "i < e") (auto simp: diff_intervals_def)
  with assms show ?thesis by (simp add: diff_intervals_def)
qed

text \<open>What a scan of a row from column \<open>x\<close> with the spans \<open>rows\<close> so far may return: no panic,
  and when it is not cut short, the spans of the rest of the row.\<close>

definition scan_result :: "nat \<Rightarrow> CellData list \<Rightarrow> CellData list \<Rightarrow> nat \<Rightarrow> CellSpan list \<Rightarrow>
    (string + (nat \<times> CellSpan list) option) option \<Rightarrow> bool" where
  "scan_result y old_row new_row x rows r \<longleftrightarrow> r \<noteq> None \<and>
     (\<forall>sz' rows'. r = Some (Inr (Some (sz', rows'))) \<longrightarrow>
       (length rows \<le> MAX_SPANS \<longrightarrow> length rows' \<le> MAX_SPANS) \<and>
       (\<exists>ab. rows' = rows @ map (interval_span y new_row) ab \<and> diff_intervals old_row new_row x ab))"

lemma scan_result_early [simp]:
  "scan_result y old_row new_row x rows (Some (Inl err))"
  "scan_result y old_row new_row x rows (Some (Inr None))"
  by (simp_all add: scan_result_def)

lemma scan_result_stop:
  "\<not> x < length new_row \<Longrightarrow> scan_result y old_row new_row x rows (Some (Inr (Some (sz, rows))))"
  by (auto simp: scan_result_def diff_intervals_def)

lemma scan_result_skip:
  "scan_result y old_row new_row (x + 1) rows r \<Longrightarrow> old_row ! x = new_row ! x \<Longrightarrow>
     scan_result y old_row new_row x rows r"
  unfolding scan_result_def by (metis diff_intervals_skip)

lemma scan_result_span:
  assumes "scan_result y old_row new_row e (rows @ [interval_span y new_row (x, e)]) r"
    and "x < e" "e \<le> length new_row" "length rows \<noteq> MAX_SPANS"
    and "\<And>i. x \<le> i \<Longrightarrow> i < e \<Longrightarrow> old_row ! i \<noteq> new_row ! i"
  shows "scan_result y old_row new_row x rows r"
proof -
  have "\<exists>ab. rows' = rows @ map (interval_span y new_row) ab \<and> diff_intervals old_row new_row x ab"
    if "r = Some (Inr (Some (sz', rows')))" for sz' rows'
  proof -
    from assms(1) that obtain ab where
        "rows' = (rows @ [interval_span y new_row (x, e)]) @ map (interval_span y new_row) ab"
        "diff_intervals old_row new_row e ab"
      unfolding scan_result_def by blast
    with diff_intervals_span [OF _ assms(2,3,5)] show ?thesis
      by (intro exI [of _ "(x, e) # ab"]) simp
  qed
  with assms(1,4) show ?thesis by (auto simp: scan_result_def)
qed

lemma scan_row_spec:
  assumes "length old_row = length new_row"
  shows "scan_result y old_row new_row x rows
    (scan_row size_of encoded_len full y old_row new_row x sz rows)"
  using assms
proof (induction size_of encoded_len full y old_row new_row x sz rows rule: scan_row.induct)
  case (1 size_of encoded_len full y old_row new_row x sz rows)
  note unfold = scan_row.simps [of size_of encoded_len full y old_row new_row x sz rows]
  consider (stop) "\<not> x < length new_row" | (same) "x < length new_row" "old_row ! x = new_row ! x"
    | (diff) "x < length new_row" "old_row ! x \<noteq> new_row ! x" by blast
  then show ?case
  proof cases
    case stop
    with unfold show ?thesis by (simp add: scan_result_stop)
  next
    case same
    with 1(1,3) unfold show ?thesis by (simp add: scan_result_skip)
  next
    case diff
    then obtain e where e: "changed_end old_row new_row x = Some e" "x < e" "e \<le> length new_row"
        "\<And>i. x \<le> i \<Longrightarrow> i < e \<Longrightarrow> old_row ! i \<noteq> new_row ! i"
      using changed_end_total [OF 1(3)] changed_end_bounds [of old_row new_row x]
        changed_end_progress [of x new_row old_row] 1(3) by (metis less_imp_le)
    have span: "\<lparr>row_x = of_nat x, row_y = of_nat y, row_cells = slice x (e - x) new_row\<rparr> =
        interval_span y new_row (x, e)"
      by (simp add: interval_span_def)
    show ?thesis
    proof (cases "size_of (interval_span y new_row (x, e))")
      case (Inl err)
      with diff e(1) unfold 1(3) show ?thesis by (simp add: span)
    next
      case (Inr n)
      with 1(2) [OF _ _ _ e(1) span [symmetric] Inr] diff e 1(3) unfold show ?thesis
        by (auto simp: span intro: scan_result_span)
    qed
  qed
qed

text \<open>On the grid: from position \<open>p\<close> on, spans of \<open>next\<close> that cover exactly the cells that
  differ.\<close>

definition grid_diff :: "u16 \<Rightarrow> CellData list \<Rightarrow> CellData list \<Rightarrow> nat \<Rightarrow> CellSpan list \<Rightarrow> bool" where
  "grid_diff width last_cells next_cells p rows \<longleftrightarrow>
     sorted_spans width (length next_cells) p rows \<and> spans_of width next_cells rows \<and>
     (\<forall>i. p \<le> i \<and> i < length next_cells \<longrightarrow>
        (last_cells ! i \<noteq> next_cells ! i \<longleftrightarrow> covered_by width rows i))"

lemma grid_diff_end: "length next_cells \<le> p \<Longrightarrow> grid_diff width last_cells next_cells p []"
  by (auto simp: grid_diff_def spans_of_def)

text \<open>Row \<open>y\<close> of a grid.\<close>

definition grid_row :: "u16 \<Rightarrow> nat \<Rightarrow> 'a list \<Rightarrow> 'a list" where
  "grid_row width y cells = take (unat width) (drop (y * unat width) cells)"

lemma length_grid_row_le: "length (grid_row width y cells) \<le> unat width"
  by (simp add: grid_row_def)

lemma nth_grid_row: "x < length (grid_row width y cells) \<Longrightarrow> grid_row width y cells ! x = cells ! (y * unat width + x)"
  by (auto simp: grid_row_def)

lemma grid_row_inside: "x < length (grid_row width y cells) \<Longrightarrow> y * unat width + x < length cells"
  by (auto simp: grid_row_def)

lemma grid_row_end: "0 < n \<Longrightarrow> n \<le> length (grid_row width y cells) \<Longrightarrow> y * unat width + n \<le> length cells"
  using grid_row_inside [of "n - 1" width y cells] by (cases n) auto

lemma interval_span_bounds:
  assumes "fst ab < snd ab" "snd ab \<le> length (grid_row width y cells)" "y < 65536"
  shows "unat (row_x (interval_span y (grid_row width y cells) ab)) = fst ab"
    and "length (row_cells (interval_span y (grid_row width y cells) ab)) = snd ab - fst ab"
    and "row_start width (interval_span y (grid_row width y cells) ab) = y * unat width + fst ab"
    and "row_end width (interval_span y (grid_row width y cells) ab) = y * unat width + snd ab"
proof -
  have "fst ab < 65536"
    using assms(1,2) length_grid_row_le [of width y cells] unat_u16_bound [of width] by linarith
  then show x: "unat (row_x (interval_span y (grid_row width y cells) ab)) = fst ab"
    by (simp add: interval_span_def unat_of_nat)
  show len: "length (row_cells (interval_span y (grid_row width y cells) ab)) = snd ab - fst ab"
    using assms by (simp add: interval_span_def)
  show start: "row_start width (interval_span y (grid_row width y cells) ab) = y * unat width + fst ab"
    using x assms(3) by (simp add: row_start_def) (simp add: interval_span_def unat_of_nat)
  show "row_end width (interval_span y (grid_row width y cells) ab) = y * unat width + snd ab"
    using assms(1) by (simp add: row_end_def start len)
qed

lemma interval_span_content:
  assumes "fst ab < snd ab" "snd ab \<le> length (grid_row width y cells)" "y < 65536"
  shows "row_cells (interval_span y (grid_row width y cells) ab) =
    slice (y * unat width + fst ab) (snd ab - fst ab) cells"
proof (rule nth_equalityI)
  have fit: "y * unat width + fst ab + (snd ab - fst ab) \<le> length cells"
    using assms grid_row_end [of "snd ab" width y cells] by simp
  then show "length (row_cells (interval_span y (grid_row width y cells) ab)) =
      length (slice (y * unat width + fst ab) (snd ab - fst ab) cells)"
    using interval_span_bounds(2) [OF assms] by simp
  fix i
  assume "i < length (row_cells (interval_span y (grid_row width y cells) ab))"
  then have "i < snd ab - fst ab" using interval_span_bounds(2) [OF assms] by simp
  with assms fit show "row_cells (interval_span y (grid_row width y cells) ab) ! i =
      slice (y * unat width + fst ab) (snd ab - fst ab) cells ! i"
    by (simp add: interval_span_def nth_grid_row add.assoc)
qed

lemma sorted_spans_row:
  assumes "intervals (length (grid_row width y cells)) x ab" "y < 65536" "x \<le> unat width"
    and "sorted_spans width (length cells) ((y + 1) * unat width) rows"
  shows "sorted_spans width (length cells) (y * unat width + x)
    (map (interval_span y (grid_row width y cells)) ab @ rows)"
  using assms(1,3)
proof (induction ab arbitrary: x)
  case Nil
  then show ?case using sorted_spans_mono [OF assms(4)] by simp
next
  case (Cons p ab)
  then have p: "x \<le> fst p" "fst p < snd p" "snd p \<le> length (grid_row width y cells)"
      "intervals (length (grid_row width y cells)) (snd p) ab"
    by (cases p; simp)+
  note span = interval_span_bounds [OF p(2,3) assms(2)]
  have "snd p \<le> unat width" using p(3) length_grid_row_le [of width y cells] by linarith
  moreover have "y * unat width + snd p \<le> length cells"
    using p(2,3) grid_row_end [of "snd p" width y cells] by simp
  moreover have "row_cells (interval_span y (grid_row width y cells) p) \<noteq> []"
    using span(2) p(2) by auto
  ultimately show ?case using Cons.IH [OF p(4)] p(1,2) by (simp add: span)
qed

lemma covered_by_row:
  assumes "intervals (length (grid_row width y cells)) 0 ab" "y < 65536"
  shows "covered_by width (map (interval_span y (grid_row width y cells)) ab) i \<longleftrightarrow>
    (\<exists>p \<in> set ab. y * unat width + fst p \<le> i \<and> i < y * unat width + snd p)"
  using intervals_above [OF assms(1)] interval_span_bounds [OF _ _ assms(2)]
  unfolding covered_by_def by auto

lemma grid_diff_row:
  assumes "diff_intervals (grid_row width y last_cells) (grid_row width y next_cells) 0 ab"
    and "grid_diff width last_cells next_cells ((y + 1) * unat width) rows"
    and "length last_cells = length next_cells" "y < 65536"
  shows "grid_diff width last_cells next_cells (y * unat width)
    (map (interval_span y (grid_row width y next_cells)) ab @ rows)"
proof -
  let ?new = "grid_row width y next_cells" and ?spans = "map (interval_span y (grid_row width y next_cells)) ab"
  have ab: "intervals (length ?new) 0 ab" using assms(1) by (simp add: diff_intervals_def)
  have "sorted_spans width (length next_cells) (y * unat width) (?spans @ rows)"
    using sorted_spans_row [OF ab assms(4)] assms(2) by (simp add: grid_diff_def)
  moreover have "spans_of width next_cells ?spans"
  proof -
    have "row_end width (interval_span y ?new p) \<le> length next_cells \<and>
        row_cells (interval_span y ?new p) = slice (row_start width (interval_span y ?new p))
          (length (row_cells (interval_span y ?new p))) next_cells" if "p \<in> set ab" for p
      using intervals_above [OF ab that] interval_span_bounds [OF _ _ assms(4), of p width next_cells]
        interval_span_content [OF _ _ assms(4), of p width next_cells]
        grid_row_end [of "snd p" width y next_cells] by simp
    then show ?thesis by (simp add: spans_of_def)
  qed
  moreover have "(last_cells ! i \<noteq> next_cells ! i) = covered_by width (?spans @ rows) i"
    if i: "y * unat width \<le> i" "i < length next_cells" for i
  proof (cases "i < (y + 1) * unat width")
    case True
    with i assms(3) have x: "i - y * unat width < length ?new"
        "i - y * unat width < length (grid_row width y last_cells)"
      by (auto simp: grid_row_def)
    have "\<not> covered_by width rows i"
      using True assms(2) sorted_spans_covered by (fastforce simp: grid_diff_def)
    moreover have "(last_cells ! i \<noteq> next_cells ! i) =
        (\<exists>p \<in> set ab. fst p \<le> i - y * unat width \<and> i - y * unat width < snd p)"
      using assms(1) x i(1) by (auto simp: diff_intervals_def nth_grid_row)
    moreover have "(y * unat width + a \<le> i \<and> i < y * unat width + b) =
        (a \<le> i - y * unat width \<and> i - y * unat width < b)" for a b
      using i(1) by auto
    ultimately show ?thesis by (simp add: covered_by_row [OF ab assms(4)])
  next
    case False
    have "\<not> covered_by width ?spans i"
      using False intervals_above [OF ab] length_grid_row_le [of width y next_cells]
      by (fastforce simp: covered_by_row [OF ab assms(4)])
    with False i(2) assms(2) show ?thesis by (simp add: grid_diff_def)
  qed
  ultimately show ?thesis using assms(2) by (auto simp: grid_diff_def spans_of_def)
qed

lemma chunks_rows: "0 < unat width \<Longrightarrow> y * unat width < length cells \<Longrightarrow>
  chunks (unat width) (drop (y * unat width) cells) =
    grid_row width y cells # chunks (unat width) (drop ((y + 1) * unat width) cells)"
  by (subst chunks.simps) (simp add: grid_row_def add.commute)

lemma chunks_Nil [simp]: "chunks n [] = []"
  by (simp add: chunks.simps)

lemma scan_rows_spec:
  fixes y :: nat
  assumes "0 < unat width" "length last_cells = length next_cells"
    and "length next_cells \<le> 65536 * unat width" "length rows \<le> MAX_SPANS"
  shows "\<exists>r. scan_rows size_of encoded_len full y (zip (chunks (unat width) (drop (y * unat width) last_cells))
        (chunks (unat width) (drop (y * unat width) next_cells))) sz rows = Some r \<and>
    (\<forall>rows'. r = Inr (Some rows') \<longrightarrow> length rows' \<le> MAX_SPANS \<and>
       (\<exists>spans. rows' = rows @ spans \<and> grid_diff width last_cells next_cells (y * unat width) spans))"
  using assms(4)
proof (induction "length next_cells - y * unat width" arbitrary: y sz rows rule: less_induct)
  case less
  show ?case
  proof (cases "y * unat width < length next_cells")
    case False
    with assms(2) less.prems show ?thesis by (simp add: grid_diff_end)
  next
    case True
    then have y: "y < 65536" using assms(1,3) by (metis less_le_trans mult_less_cancel2)
    let ?old = "grid_row width y last_cells" and ?new = "grid_row width y next_cells"
    have "length ?old = length ?new" using assms(2) by (simp add: grid_row_def)
    from scan_row_spec [OF this] have scan: "scan_result y ?old ?new 0 rows
        (scan_row size_of encoded_len full y ?old ?new 0 sz rows)" .
    show ?thesis
    proof (cases "\<exists>sz' rows'. scan_row size_of encoded_len full y ?old ?new 0 sz rows = Some (Inr (Some (sz', rows')))")
      case False
      with scan True assms(1,2) show ?thesis
        by (auto simp: chunks_rows scan_result_def split: option.splits sum.splits)
    next
      case more: True
      then obtain sz' rows' ab where r: "scan_row size_of encoded_len full y ?old ?new 0 sz rows = Some (Inr (Some (sz', rows')))"
          "rows' = rows @ map (interval_span y ?new) ab" "diff_intervals ?old ?new 0 ab" "length rows' \<le> MAX_SPANS"
        using scan less.prems by (auto simp: scan_result_def)
      have "length next_cells - (y + 1) * unat width < length next_cells - y * unat width"
        using True assms(1) by simp
      from less.hyps [OF this r(4), of sz'] r True assms(1,2)
        grid_diff_row [OF r(3) _ assms(2) y]
      show ?thesis by (fastforce simp: chunks_rows simp del: One_nat_def add_Suc_right)
    qed
  qed
qed

text \<open>The scanner never panics on grids of the same size, and when it returns spans they
  take the old grid to the new one.\<close>

lemma changed_rows_spec:
  assumes "length last_cells = length next_cells" "length next_cells \<le> 65536 * unat width"
  shows "\<exists>r. changed_rows size_of encoded_len last_cells next_cells width full = Some r \<and>
    (\<forall>rows. r = Inr (Some rows) \<longrightarrow> length rows \<le> MAX_SPANS \<and> grid_diff width last_cells next_cells 0 rows)"
proof (cases "width = 0")
  case True
  with assms show ?thesis by (simp add: changed_rows_def grid_diff_end)
next
  case False
  then have "0 < unat width" by (simp add: unat_gt_0)
  from scan_rows_spec [OF this assms, of "[]" size_of encoded_len full 0 0] False show ?thesis
    by (simp add: changed_rows_def)
qed

lemma grid_diff_apply:
  assumes "grid_diff width last_cells next_cells 0 rows" "length last_cells = length next_cells"
  shows "apply_rows last_cells width rows = Some next_cells"
proof -
  from assms have sp: "spans_of width next_cells rows" by (simp add: grid_diff_def)
  from apply_rows_spans [OF sp assms(2)] obtain cells' where c: "apply_rows last_cells width rows = Some cells'"
      "length cells' = length next_cells"
      "\<forall>i < length next_cells. cells' ! i = (if covered_by width rows i then next_cells ! i else last_cells ! i)"
    by blast
  have "cells' = next_cells"
    using c(2,3) assms(1) by (intro nth_equalityI) (auto simp: grid_diff_def)
  with c(1) show ?thesis by simp
qed

text \<open>C18: between two grids of one size, the scanner does not panic; the spans it returns are at
  most \<open>MAX_SPANS\<close>, non-empty, inside their rows, sorted and disjoint, they cover exactly the
  cells that changed, and applying them to the old grid gives the new one.\<close>

theorem changed_rows_correct:
  assumes "length last_cells = unat width * unat (height :: u16)" "length next_cells = unat width * unat height"
  shows "changed_rows size_of encoded_len last_cells next_cells width full \<noteq> None \<and>
    (\<forall>rows. changed_rows size_of encoded_len last_cells next_cells width full = Some (Inr (Some rows)) \<longrightarrow>
       apply_rows last_cells width rows = Some next_cells \<and> length rows \<le> MAX_SPANS \<and>
       sorted_spans width (length next_cells) 0 rows \<and>
       (\<forall>i < length next_cells. covered_by width rows i \<longleftrightarrow> last_cells ! i \<noteq> next_cells ! i))"
proof -
  have "length next_cells \<le> 65536 * unat width"
    using assms(2) unat_u16_bound [of height] by (metis less_imp_le mult.commute mult_le_mono2)
  moreover have same: "length last_cells = length next_cells" using assms by simp
  ultimately have "\<exists>r. changed_rows size_of encoded_len last_cells next_cells width full = Some r \<and>
    (\<forall>rows. r = Inr (Some rows) \<longrightarrow> length rows \<le> MAX_SPANS \<and> grid_diff width last_cells next_cells 0 rows)"
    by (intro changed_rows_spec)
  with grid_diff_apply [OF _ same] show ?thesis
    by (auto simp: grid_diff_def)
qed

definition blank_cell :: "string \<Rightarrow> CellData" where
  "blank_cell s = \<lparr>cell_symbol = s, cell_fg = 0, cell_bg = 0, cell_modifier = 0, cell_skip = False,
     cell_hyperlink = None\<rparr>"

lemma changed_rows_example:
  "changed_rows (\<lambda>s. Inr 9) Some [blank_cell ''a'', blank_cell ''b'', blank_cell ''c'', blank_cell ''d'']
     [blank_cell ''a'', blank_cell ''x'', blank_cell ''y'', blank_cell ''d''] 2 100 =
   Some (Inr (Some [\<lparr>row_x = 1, row_y = 0, row_cells = [blank_cell ''x'']\<rparr>,
     \<lparr>row_x = 0, row_y = 1, row_cells = [blank_cell ''y'']\<rparr>]))"
  by (simp add: changed_rows_def chunks.simps scan_row.simps changed_end.simps blank_cell_def slice_def
      MAX_SPANS_def)

theorem changed_rows_correct_witness:
  "apply_rows [blank_cell ''a'', blank_cell ''b'', blank_cell ''c'', blank_cell ''d''] 2
     [\<lparr>row_x = 1, row_y = 0, row_cells = [blank_cell ''x'']\<rparr>,
      \<lparr>row_x = 0, row_y = 1, row_cells = [blank_cell ''y'']\<rparr>] =
   Some [blank_cell ''a'', blank_cell ''x'', blank_cell ''y'', blank_cell ''d'']"
  using changed_rows_correct [of "[blank_cell ''a'', blank_cell ''b'', blank_cell ''c'', blank_cell ''d'']" 2 2
      "[blank_cell ''a'', blank_cell ''x'', blank_cell ''y'', blank_cell ''d'']" "\<lambda>s. Inr 9" Some 100]
    changed_rows_example by simp

end
