(* ===== verification/Surface_Decode.thy ===== *)
theory Surface_Decode
  imports Surface_Grid
begin

text \<open>
  The allocation-bounded decoder of surface deltas
  (\<open>herdr/src/protocol/surface_delta/decode.rs\<close>). A decoder of \<open>bincode\<close> is a state \<open>'d\<close>
  that primitive decoders advance; the primitives, among them the derived decoders of the wire
  types without collections, are the argument \<open>P\<close>. \<open>usize\<close> has 64 bits, so that a decoded
  \<open>u64\<close> count always converts and products and sums of 16-bit dimensions never overflow.
\<close>

section \<open>Primitives\<close>

datatype DecodeError = Other string | DecodeFailed string

type_synonym ('d, 'a) decoder = "'d \<Rightarrow> DecodeError + 'a \<times> 'd"

record 'd prims =
  p_u8 :: "('d, u8) decoder"
  p_u16 :: "('d, u16) decoder"
  p_u32 :: "('d, u32) decoder"
  p_u64 :: "('d, u64) decoder"
  p_bool :: "('d, bool) decoder"
  p_string :: "('d, string) decoder"
  p_cursor :: "('d, CursorState option) decoder"
  p_popup_size :: "('d, ClientShellPopupSize option) decoder"
  p_pane :: "('d, PaneSurfacePane) decoder"
  p_direction :: "('d, PaneSurfaceSplitDirection) decoder"
  p_rect :: "('d, SurfaceRect) decoder"
  p_asset_key :: "('d, SurfaceGraphicsAssetKey) decoder"
  p_placement :: "('d, SurfaceGraphicsPlacement) decoder"
  p_cell :: "('d, CellData) decoder"
  p_claim :: "nat \<Rightarrow> 'd \<Rightarrow> DecodeError + 'd"
  p_read :: "nat \<Rightarrow> ('d, u8 list) decoder"

text \<open>\<open>read\<close> fills the buffer it is given: it delivers as many bytes as the buffer has.\<close>

definition read_spec :: "'d prims \<Rightarrow> bool" where
  "read_spec P \<longleftrightarrow> (\<forall>n d bytes d'. p_read P n d = Inr (bytes, d') \<longrightarrow> length bytes = n)"

section \<open>Limits\<close>

definition MAX_GRID_DIMENSION :: u16 where "MAX_GRID_DIMENSION = 4096"
definition MAX_GRID_CELLS :: nat where "MAX_GRID_CELLS = 1000000"
definition MAX_PANES :: nat where "MAX_PANES = 4096"
definition MAX_SPLITS :: nat where "MAX_SPLITS = 4096"
definition MAX_SPLIT_PATH :: nat where "MAX_SPLIT_PATH = 4096"
definition MAX_HYPERLINKS :: nat where "MAX_HYPERLINKS = 65536"
definition MAX_ASSETS :: nat where "MAX_ASSETS = 4096"
definition MAX_PLACEMENTS :: nat where "MAX_PLACEMENTS = 65536"
definition MAX_RETAINED_ASSETS :: nat where "MAX_RETAINED_ASSETS = 65536"

record DecodeContext =
  expected_size :: "(u16 \<times> u16) option"
  data_len :: nat

definition checked_grid_size :: "u16 \<Rightarrow> u16 \<Rightarrow> DecodeError + nat" where
  "checked_grid_size width height =
     (if width > MAX_GRID_DIMENSION \<or> height > MAX_GRID_DIMENSION
      then Inl (Other ''surface dimensions exceed the limit'')
      else let cells = unat width * unat height in
           if cells > MAX_GRID_CELLS then Inl (Other ''surface cell count exceeds the limit'')
           else Inr cells)"

section \<open>Sequences\<close>

definition decode_sequence_len :: "'d prims \<Rightarrow> ('d, nat) decoder" where
  "decode_sequence_len P d = and_then (p_u64 P d) (\<lambda>(count, d). Inr (unat count, d))"

definition decode_count :: "'d prims \<Rightarrow> nat \<Rightarrow> string \<Rightarrow> ('d, nat) decoder" where
  "decode_count P limit message d =
     and_then (decode_sequence_len P d) (\<lambda>(count, d).
       if count > limit then Inl (Other message) else Inr (count, d))"

text \<open>\<open>for _ in 0..count { values.push(T::decode(decoder)?) }\<close>.\<close>

fun decode_n :: "('d, 'a) decoder \<Rightarrow> nat \<Rightarrow> ('d, 'a list) decoder" where
  "decode_n f 0 d = Inr ([], d)"
| "decode_n f (Suc n) d =
     and_then (f d) (\<lambda>(x, d). and_then (decode_n f n d) (\<lambda>(xs, d). Inr (x # xs, d)))"

definition decode_bounded_vec :: "'d prims \<Rightarrow> ('d, 'a) decoder \<Rightarrow> nat \<Rightarrow> string \<Rightarrow> ('d, 'a list) decoder" where
  "decode_bounded_vec P item limit message d =
     and_then (decode_count P limit message d) (\<lambda>(count, d). decode_n item count d)"

definition decode_bytes_vec :: "'d prims \<Rightarrow> nat \<Rightarrow> string \<Rightarrow> ('d, u8 list) decoder" where
  "decode_bytes_vec P limit message d =
     and_then (decode_count P limit message d) (\<lambda>(count, d).
     and_then (p_claim P count d) (\<lambda>d. p_read P count d))"

definition require_empty_sequence :: "'d prims \<Rightarrow> string \<Rightarrow> ('d, unit) decoder" where
  "require_empty_sequence P message d =
     and_then (decode_sequence_len P d) (\<lambda>(count, d).
       if count = 0 then Inr ((), d) else Inl (Other message))"

section \<open>Rows\<close>

fun decode_row_loop :: "'d prims \<Rightarrow> u16 \<Rightarrow> u16 \<Rightarrow> nat \<Rightarrow> nat \<Rightarrow> nat \<Rightarrow> nat \<Rightarrow>
    ('d, PaneSurfacePatchRow list) decoder" where
  "decode_row_loop P width height cell_budget 0 total_cells previous_end d = Inr ([], d)"
| "decode_row_loop P width height cell_budget (Suc count) total_cells previous_end d =
     and_then (p_u16 P d) (\<lambda>(x, d).
     and_then (p_u16 P d) (\<lambda>(y, d).
     and_then (decode_sequence_len P d) (\<lambda>(cells_len, d).
       if cells_len = 0 \<or> y \<ge> height \<or> unat x \<ge> unat width \<or> cells_len > unat width - unat x
       then Inl (Other ''surface delta span is outside its row'')
       else let start = unat y * unat width + unat x in
            if start < previous_end then Inl (Other ''surface delta spans overlap or are not sorted'')
            else if total_cells + cells_len > cell_budget
            then Inl (Other ''surface delta cell budget exceeded'')
            else and_then (decode_n (p_cell P) cells_len d) (\<lambda>(cells, d).
                 and_then (decode_row_loop P width height cell_budget count
                   (total_cells + cells_len) (start + cells_len) d) (\<lambda>(rows, d).
                 Inr (\<lparr>row_x = x, row_y = y, row_cells = cells\<rparr> # rows, d))))))"

definition decode_rows :: "'d prims \<Rightarrow> u16 \<Rightarrow> u16 \<Rightarrow> ('d, PaneSurfacePatchRow list) decoder" where
  "decode_rows P width height d =
     and_then (checked_grid_size width height) (\<lambda>cell_budget.
     and_then (decode_count P (min MAX_SPANS cell_budget) ''too many surface delta spans'' d)
       (\<lambda>(count, d). decode_row_loop P width height cell_budget count 0 0 d))"

section \<open>Surface metadata\<close>

definition decode_frame :: "'d prims \<Rightarrow> ('d, FrameData) decoder" where
  "decode_frame P d =
     and_then (require_empty_sequence P ''surface metadata contains main cells'' d) (\<lambda>(_, d).
     and_then (p_u16 P d) (\<lambda>(width, d).
     and_then (p_u16 P d) (\<lambda>(height, d).
     and_then (checked_grid_size width height) (\<lambda>_.
     and_then (p_cursor P d) (\<lambda>(cursor, d).
     and_then (decode_bounded_vec P (p_string P) MAX_HYPERLINKS ''too many hyperlinks'' d) (\<lambda>(hyperlinks, d).
     and_then (decode_bytes_vec P MAX_GRAPHICS_FRAME_SIZE ''graphics payload too large'' d) (\<lambda>(graphics, d).
     Inr (\<lparr>fr_cells = [], fr_width = width, fr_height = height, fr_cursor = cursor,
       fr_hyperlinks = hyperlinks, fr_graphics = graphics\<rparr>, d))))))))"

definition decode_popup :: "'d prims \<Rightarrow> ('d, ClientShellPopupSurface option) decoder" where
  "decode_popup P d =
     and_then (p_u8 P d) (\<lambda>(tag, d).
       if tag = 0 then Inr (None, d)
       else if tag = 1 then
         and_then (p_string P d) (\<lambda>(terminal_id, d).
         and_then (p_string P d) (\<lambda>(title, d).
         and_then (p_popup_size P d) (\<lambda>(width, d).
         and_then (p_popup_size P d) (\<lambda>(height, d).
         and_then (decode_frame P d) (\<lambda>(frame, d).
         and_then (p_bool P d) (\<lambda>(mouse_reporting, d).
         and_then (p_bool P d) (\<lambda>(sgr_pixel_mouse, d).
         and_then (p_u32 P d) (\<lambda>(pixel_width, d).
         and_then (p_u32 P d) (\<lambda>(pixel_height, d).
         Inr (Some \<lparr>pop_terminal_id = terminal_id, pop_title = title, pop_width = width,
           pop_height = height, pop_frame = frame, pop_mouse_reporting = mouse_reporting,
           pop_sgr_pixel_mouse = sgr_pixel_mouse, pop_pixel_width = pixel_width,
           pop_pixel_height = pixel_height\<rparr>, d))))))))))
       else Inl (Other ''invalid popup option''))"

definition decode_split :: "'d prims \<Rightarrow> ('d, PaneSurfaceSplit) decoder" where
  "decode_split P d =
     and_then (p_direction P d) (\<lambda>(direction, d).
     and_then (p_u16 P d) (\<lambda>(pos, d).
     and_then (p_rect P d) (\<lambda>(area, d).
     and_then (p_rect P d) (\<lambda>(hit_rect, d).
     and_then (decode_bounded_vec P (p_bool P) MAX_SPLIT_PATH ''split path too long'' d) (\<lambda>(path, d).
     Inr (\<lparr>pss_direction = direction, pss_pos = pos, pss_area = area, pss_hit_rect = hit_rect,
       pss_path = path\<rparr>, d))))))"

definition decode_splits :: "'d prims \<Rightarrow> ('d, PaneSurfaceSplit list) decoder" where
  "decode_splits P d =
     and_then (decode_count P MAX_SPLITS ''too many splits'' d) (\<lambda>(count, d).
       decode_n (decode_split P) count d)"

definition decode_asset :: "'d prims \<Rightarrow> ('d, SurfaceGraphicsAsset) decoder" where
  "decode_asset P d =
     and_then (p_asset_key P d) (\<lambda>(key, d).
     and_then (decode_bytes_vec P MAX_GRAPHICS_FRAME_SIZE ''graphics asset payload too large'' d) (\<lambda>(data, d).
     Inr (\<lparr>asset_key = key, asset_data = data\<rparr>, d)))"

definition decode_graphics_scene :: "'d prims \<Rightarrow> ('d, SurfaceGraphicsScene) decoder" where
  "decode_graphics_scene P d =
     and_then (decode_count P MAX_ASSETS ''too many graphics assets'' d) (\<lambda>(asset_count, d).
     and_then (decode_n (decode_asset P) asset_count d) (\<lambda>(assets, d).
     and_then (decode_bounded_vec P (p_placement P) MAX_PLACEMENTS ''too many graphics placements'' d)
       (\<lambda>(placements, d).
     and_then (decode_bounded_vec P (p_asset_key P) MAX_RETAINED_ASSETS
         ''too many retained graphics assets'' d) (\<lambda>(retained_assets, d).
     Inr (\<lparr>gs_assets = assets, gs_placements = placements, gs_retained_assets = retained_assets\<rparr>, d)))))"

definition has_graphics :: "SurfaceGraphicsScene \<Rightarrow> bool" where
  "has_graphics graphics \<longleftrightarrow>
     gs_assets graphics \<noteq> [] \<or> gs_placements graphics \<noteq> [] \<or> gs_retained_assets graphics \<noteq> []"

definition decode_surface :: "'d prims \<Rightarrow> ('d, PaneSurfaceFrame \<times> bool) decoder" where
  "decode_surface P d =
     and_then (p_string P d) (\<lambda>(boot_id, d).
     and_then (p_u64 P d) (\<lambda>(projection_revision, d).
     and_then (p_u64 P d) (\<lambda>(surface_revision, d).
     and_then (decode_frame P d) (\<lambda>(frame, d).
     and_then (decode_bounded_vec P (p_pane P) MAX_PANES ''too many panes'' d) (\<lambda>(panes, d).
     and_then (decode_splits P d) (\<lambda>(splits, d).
     and_then (decode_popup P d) (\<lambda>(popup, d).
     and_then (decode_graphics_scene P d) (\<lambda>(graphics, d).
     Inr ((\<lparr>sf_boot_id = boot_id, sf_projection_revision = projection_revision,
        sf_surface_revision = surface_revision, sf_frame = frame, sf_panes = panes,
        sf_splits = splits, sf_popup = popup, sf_graphics = graphics\<rparr>, has_graphics graphics), d)))))))))"

definition decode_popup_update ::
    "'d prims \<Rightarrow> ClientShellPopupSurface option \<Rightarrow> ('d, GridUpdate option) decoder" where
  "decode_popup_update P popup d =
     and_then (p_u8 P d) (\<lambda>(tag, d).
       if tag = 0 then Inr (None, d)
       else if tag = 1 then
         and_then (ok_or (Other ''popup cell update has no popup metadata'') popup) (\<lambda>popup.
           let width = fr_width (pop_frame popup); height = fr_height (pop_frame popup) in
           and_then (p_u32 P d) (\<lambda>(variant, d).
             if variant = 0 then
               and_then (decode_rows P width height d) (\<lambda>(rows, d). Inr (Some (Patch rows), d))
             else if variant = 1 then
               and_then (checked_grid_size width height) (\<lambda>expected.
               and_then (decode_sequence_len P d) (\<lambda>(count, d).
                 if count \<noteq> expected
                 then Inl (Other ''popup replacement does not match popup dimensions'')
                 else and_then (decode_n (p_cell P) count d) (\<lambda>(cells, d). Inr (Some (Replace cells), d))))
             else Inl (Other ''invalid popup grid update'')))
       else Inl (Other ''invalid popup update option''))"

section \<open>Deltas\<close>

definition decode_Decoded :: "'d prims \<Rightarrow> DecodeContext \<Rightarrow> ('d, SurfaceDelta) decoder" where
  "decode_Decoded P context d =
     and_then (p_u64 P d) (\<lambda>(base_projection, d).
     and_then (p_u64 P d) (\<lambda>(base_surface, d).
     and_then (decode_surface P d) (\<lambda>((surface, graphics), d).
       if \<not> graphics \<and> data_len context > MAX_FRAME_SIZE
       then Inl (Other ''ordinary surface delta exceeds the frame limit'')
       else let metadata_dimensions = (fr_width (sf_frame surface), fr_height (sf_frame surface)) in
            and_then (case expected_size context of
                 Some expected \<Rightarrow>
                   if expected \<noteq> metadata_dimensions
                   then Inl (Other ''surface dimensions do not match the baseline'')
                   else Inr expected
               | None \<Rightarrow> Inr metadata_dimensions) (\<lambda>(width, height).
            and_then (checked_grid_size width height) (\<lambda>_.
            and_then (decode_rows P width height d) (\<lambda>(rows, d).
            and_then (decode_popup_update P (sf_popup surface) d) (\<lambda>(update, d).
            Inr (\<lparr>base_projection_revision = base_projection, base_surface_revision = base_surface,
              delta_surface = surface, delta_rows = rows, popup_cells = update\<rparr>, d))))))))"

text \<open>What \<open>decode\<close> calls outside the repository: base64 decoding with the text of its error,
  the display of a decode error, a decoder over bytes and how many it has consumed.\<close>

record 'd delta_input =
  in_base64 :: "string \<Rightarrow> string + u8 list"
  in_display :: "DecodeError \<Rightarrow> string"
  in_start :: "u8 list \<Rightarrow> 'd"
  in_consumed :: "u8 list \<Rightarrow> 'd \<Rightarrow> nat"

definition decode_bytes_with_data_len :: "'d delta_input \<Rightarrow> 'd prims \<Rightarrow> u8 list \<Rightarrow>
    (u16 \<times> u16) option \<Rightarrow> nat \<Rightarrow> string + SurfaceDelta" where
  "decode_bytes_with_data_len I P bytes expected len =
     (case decode_Decoded P \<lparr>expected_size = expected, data_len = len\<rparr> (in_start I bytes) of
        Inl e \<Rightarrow> Inl (in_display I e)
      | Inr (delta, d) \<Rightarrow>
          if in_consumed I bytes d \<noteq> length bytes then Inl ''trailing surface delta bytes''
          else Inr delta)"

definition decode_delta_data ::
    "'d delta_input \<Rightarrow> 'd prims \<Rightarrow> string \<Rightarrow> (u16 \<times> u16) option \<Rightarrow> string + SurfaceDelta" where
  "decode_delta_data I P data expected =
     (if length data > MAX_GRAPHICS_FRAME_SIZE then Inl ''surface delta exceeds the frame limit''
      else and_then (in_base64 I data) (\<lambda>bytes.
        if length bytes > MAX_GRAPHICS_FRAME_SIZE
        then Inl ''decoded surface delta exceeds the frame limit''
        else decode_bytes_with_data_len I P bytes expected (length data)))"

definition decode_for ::
    "'d delta_input \<Rightarrow> 'd prims \<Rightarrow> string \<Rightarrow> u16 \<times> u16 \<Rightarrow> string + SurfaceDelta" where
  "decode_for I P data expected = decode_delta_data I P data (Some expected)"

section \<open>The sender's check\<close>

definition frame_metadata_fits :: "FrameData \<Rightarrow> bool" where
  "frame_metadata_fits frame \<longleftrightarrow>
     (case checked_grid_size (fr_width frame) (fr_height frame) of
        Inl _ \<Rightarrow> False
      | Inr cells \<Rightarrow> length (fr_cells frame) = cells) \<and>
     length (fr_hyperlinks frame) \<le> MAX_HYPERLINKS \<and>
     length (fr_graphics frame) \<le> MAX_GRAPHICS_FRAME_SIZE"

definition metadata_fits :: "PaneSurfaceFrame \<Rightarrow> bool" where
  "metadata_fits surface \<longleftrightarrow>
     frame_metadata_fits (sf_frame surface) \<and>
     length (sf_panes surface) \<le> MAX_PANES \<and>
     length (sf_splits surface) \<le> MAX_SPLITS \<and>
     (\<forall>split \<in> set (sf_splits surface). length (pss_path split) \<le> MAX_SPLIT_PATH) \<and>
     (case sf_popup surface of None \<Rightarrow> True | Some popup \<Rightarrow> frame_metadata_fits (pop_frame popup)) \<and>
     length (gs_assets (sf_graphics surface)) \<le> MAX_ASSETS \<and>
     (\<forall>asset \<in> set (gs_assets (sf_graphics surface)). length (asset_data asset) \<le> MAX_GRAPHICS_FRAME_SIZE) \<and>
     length (gs_placements (sf_graphics surface)) \<le> MAX_PLACEMENTS \<and>
     length (gs_retained_assets (sf_graphics surface)) \<le> MAX_RETAINED_ASSETS"

section \<open>Everything accepted is within the limits\<close>

definition grid_fits :: "u16 \<Rightarrow> u16 \<Rightarrow> bool" where
  "grid_fits width height \<longleftrightarrow> width \<le> MAX_GRID_DIMENSION \<and> height \<le> MAX_GRID_DIMENSION \<and>
     unat width * unat height \<le> MAX_GRID_CELLS"

definition frame_limits :: "FrameData \<Rightarrow> bool" where
  "frame_limits frame \<longleftrightarrow> fr_cells frame = [] \<and> grid_fits (fr_width frame) (fr_height frame) \<and>
     length (fr_hyperlinks frame) \<le> MAX_HYPERLINKS \<and>
     length (fr_graphics frame) \<le> MAX_GRAPHICS_FRAME_SIZE"

definition scene_limits :: "SurfaceGraphicsScene \<Rightarrow> bool" where
  "scene_limits scene \<longleftrightarrow> length (gs_assets scene) \<le> MAX_ASSETS \<and>
     (\<forall>asset \<in> set (gs_assets scene). length (asset_data asset) \<le> MAX_GRAPHICS_FRAME_SIZE) \<and>
     length (gs_placements scene) \<le> MAX_PLACEMENTS \<and>
     length (gs_retained_assets scene) \<le> MAX_RETAINED_ASSETS"

definition splits_limits :: "PaneSurfaceSplit list \<Rightarrow> bool" where
  "splits_limits splits \<longleftrightarrow> length splits \<le> MAX_SPLITS \<and>
     (\<forall>split \<in> set splits. length (pss_path split) \<le> MAX_SPLIT_PATH)"

definition surface_limits :: "PaneSurfaceFrame \<Rightarrow> bool" where
  "surface_limits surface \<longleftrightarrow> frame_limits (sf_frame surface) \<and>
     length (sf_panes surface) \<le> MAX_PANES \<and> splits_limits (sf_splits surface) \<and>
     (\<forall>popup. sf_popup surface = Some popup \<longrightarrow> frame_limits (pop_frame popup)) \<and>
     scene_limits (sf_graphics surface)"

text \<open>Rows of a \<open>width\<close> by \<open>height\<close> grid: sorted, disjoint, not empty, each inside one row of
  the grid, and no more than the spans and cells the grid allows.\<close>

definition rows_limits :: "u16 \<Rightarrow> u16 \<Rightarrow> PaneSurfacePatchRow list \<Rightarrow> bool" where
  "rows_limits width height rows \<longleftrightarrow>
     length rows \<le> min MAX_SPANS (unat width * unat height) \<and>
     (\<forall>row \<in> set rows. row_y row < height) \<and>
     sorted_spans width (unat width * unat height) 0 rows"

definition update_limits :: "ClientShellPopupSurface option \<Rightarrow> GridUpdate option \<Rightarrow> bool" where
  "update_limits popup update \<longleftrightarrow>
     (case update of
        None \<Rightarrow> True
      | Some u \<Rightarrow>
          (case popup of
             None \<Rightarrow> False
           | Some p \<Rightarrow>
               grid_fits (fr_width (pop_frame p)) (fr_height (pop_frame p)) \<and>
               (case u of
                  Patch rows \<Rightarrow> rows_limits (fr_width (pop_frame p)) (fr_height (pop_frame p)) rows
                | Replace cells \<Rightarrow>
                    length cells = unat (fr_width (pop_frame p)) * unat (fr_height (pop_frame p)))))"

definition delta_limits :: "SurfaceDelta \<Rightarrow> bool" where
  "delta_limits delta \<longleftrightarrow> surface_limits (delta_surface delta) \<and>
     rows_limits (fr_width (sf_frame (delta_surface delta))) (fr_height (sf_frame (delta_surface delta)))
       (delta_rows delta) \<and>
     update_limits (sf_popup (delta_surface delta)) (popup_cells delta)"

lemma checked_grid_size_Inr [simp]:
  "checked_grid_size width height = Inr n \<longleftrightarrow> grid_fits width height \<and> n = unat width * unat height"
  by (auto simp: checked_grid_size_def grid_fits_def Let_def)

lemma decode_n_length: "decode_n f n d = Inr (xs, d') \<Longrightarrow> length xs = n"
  by (induction n arbitrary: d xs) auto

lemma decode_n_all:
  "decode_n f n d = Inr (xs, d') \<Longrightarrow> (\<And>d x d'. f d = Inr (x, d') \<Longrightarrow> Q x) \<Longrightarrow> \<forall>x \<in> set xs. Q x"
  by (induction n arbitrary: d xs) auto

lemma decode_count_limit: "decode_count P limit message d = Inr (n, d') \<Longrightarrow> n \<le> limit"
  by (auto simp: decode_count_def split: if_splits)

lemma decode_bounded_vec_limit: "decode_bounded_vec P item limit message d = Inr (xs, d') \<Longrightarrow> length xs \<le> limit"
  by (auto simp: decode_bounded_vec_def dest: decode_n_length decode_count_limit)

lemma decode_bytes_vec_limit:
  "read_spec P \<Longrightarrow> decode_bytes_vec P limit message d = Inr (bytes, d') \<Longrightarrow> length bytes \<le> limit"
  by (auto simp: decode_bytes_vec_def read_spec_def dest: decode_count_limit)

lemma decode_row_loop_limit:
  "decode_row_loop P width height budget n tot prev d = Inr (rows, d') \<Longrightarrow>
     length rows = n \<and> (\<forall>row \<in> set rows. row_y row < height) \<and>
     sorted_spans width (unat width * unat height) prev rows"
proof (induction n arbitrary: tot prev d rows)
  case 0
  then show ?case by simp
next
  case (Suc n)
  then obtain x y len d1 cells d2 rows1 where r: "rows = \<lparr>row_x = x, row_y = y, row_cells = cells\<rparr> # rows1"
    and g: "len \<noteq> 0" "y < height" "unat x < unat width" "len \<le> unat width - unat x"
      "prev \<le> unat y * unat width + unat x"
    and c: "decode_n (p_cell P) len d1 = Inr (cells, d2)"
    and l: "decode_row_loop P width height budget n (tot + len) (unat y * unat width + unat x + len) d2 = Inr (rows1, d')"
    by (auto simp: Let_def not_le not_less split: if_splits)
  have "Suc (unat y) * unat width \<le> unat height * unat width"
    using g(2) by (intro mult_le_mono1) (simp add: word_less_nat_alt)
  then have "unat y * unat width + unat x + len \<le> unat width * unat height"
    using g(3,4) by (simp add: mult.commute)
  with Suc.IH [OF l] r g decode_n_length [OF c] show ?case
    by (auto simp: row_start_def row_end_def)
qed

lemma decode_rows_limit: "decode_rows P width height d = Inr (rows, d') \<Longrightarrow> rows_limits width height rows"
  by (auto simp: decode_rows_def rows_limits_def dest!: decode_row_loop_limit decode_count_limit)

lemma decode_frame_limit: "read_spec P \<Longrightarrow> decode_frame P d = Inr (frame, d') \<Longrightarrow> frame_limits frame"
  by (auto simp: decode_frame_def frame_limits_def dest: decode_bounded_vec_limit decode_bytes_vec_limit)

lemma decode_popup_limit:
  assumes "read_spec P" "decode_popup P d = Inr (Some popup, d')"
  shows "frame_limits (pop_frame popup)"
  using assms(2) by (auto simp: decode_popup_def dest!: decode_frame_limit [OF assms(1)] split: if_splits)

lemma decode_split_limit:
  "decode_split P d = Inr (split, d') \<Longrightarrow> length (pss_path split) \<le> MAX_SPLIT_PATH"
  by (auto simp: decode_split_def dest!: decode_bounded_vec_limit)

lemma decode_asset_limit:
  assumes "read_spec P" "decode_asset P d = Inr (asset, d')"
  shows "length (asset_data asset) \<le> MAX_GRAPHICS_FRAME_SIZE"
  using assms(2) by (auto simp: decode_asset_def dest!: decode_bytes_vec_limit [OF assms(1)])

lemma decode_splits_limit:
  assumes "decode_splits P d = Inr (splits, d')"
  shows "splits_limits splits"
proof -
  from assms obtain n d1 where "n \<le> MAX_SPLITS" and n: "decode_n (decode_split P) n d1 = Inr (splits, d')"
    by (auto simp: decode_splits_def dest: decode_count_limit)
  with decode_n_length [OF n] decode_n_all [OF n decode_split_limit] show ?thesis
    by (simp add: splits_limits_def)
qed

lemma decode_graphics_scene_limit:
  assumes "read_spec P" "decode_graphics_scene P d = Inr (scene, d')"
  shows "scene_limits scene"
proof -
  from assms(2) obtain n d1 assets d2 where "n \<le> MAX_ASSETS"
    and n: "decode_n (decode_asset P) n d1 = Inr (assets, d2)" and "gs_assets scene = assets"
    and "length (gs_placements scene) \<le> MAX_PLACEMENTS" "length (gs_retained_assets scene) \<le> MAX_RETAINED_ASSETS"
    by (auto simp: decode_graphics_scene_def dest!: decode_count_limit decode_bounded_vec_limit)
  with decode_n_length [OF n] decode_n_all [OF n decode_asset_limit [OF assms(1)]] show ?thesis
    by (simp add: scene_limits_def)
qed

lemma decode_surface_limit:
  assumes "read_spec P" "decode_surface P d = Inr ((surface, g), d')"
  shows "surface_limits surface \<and> g = has_graphics (sf_graphics surface)"
proof -
  from assms(2) obtain d1 d2 d3 d4 d5 d6 where
      "decode_frame P d1 = Inr (sf_frame surface, d2)" "length (sf_panes surface) \<le> MAX_PANES"
      "decode_splits P d3 = Inr (sf_splits surface, d4)" "decode_popup P d4 = Inr (sf_popup surface, d5)"
      "decode_graphics_scene P d5 = Inr (sf_graphics surface, d6)" "g = has_graphics (sf_graphics surface)"
    by (auto simp: decode_surface_def dest!: decode_bounded_vec_limit)
  with decode_frame_limit [OF assms(1)] decode_splits_limit decode_popup_limit [OF assms(1)]
    decode_graphics_scene_limit [OF assms(1)]
  show ?thesis unfolding surface_limits_def by metis
qed

lemma decode_popup_update_limit:
  "decode_popup_update P popup d = Inr (update, d') \<Longrightarrow> update_limits popup update"
  by (auto simp: decode_popup_update_def update_limits_def Let_def decode_rows_def rows_limits_def
      dest!: decode_n_length decode_row_loop_limit decode_count_limit split: if_splits)

lemma decode_Decoded_limit:
  assumes "read_spec P" "decode_Decoded P context d = Inr (delta, d')"
  shows "delta_limits delta \<and>
    (\<forall>sz. expected_size context = Some sz \<longrightarrow>
       sz = (fr_width (sf_frame (delta_surface delta)), fr_height (sf_frame (delta_surface delta)))) \<and>
    (\<not> has_graphics (sf_graphics (delta_surface delta)) \<longrightarrow> data_len context \<le> MAX_FRAME_SIZE)"
  using assms(2)
  by (auto simp: decode_Decoded_def delta_limits_def Let_def
      dest!: decode_surface_limit [OF assms(1)] decode_rows_limit decode_popup_update_limit
      split: if_splits option.splits)

lemma decode_for_Inr:
  assumes "read_spec P" and "decode_for I P data (width, height) = Inr delta"
  obtains bytes d where "length data \<le> MAX_GRAPHICS_FRAME_SIZE" "in_base64 I data = Inr bytes"
    "decode_Decoded P \<lparr>expected_size = Some (width, height), data_len = length data\<rparr> (in_start I bytes) = Inr (delta, d)"
    "in_consumed I bytes d = length bytes" "delta_limits delta"
    "fr_width (sf_frame (delta_surface delta)) = width" "fr_height (sf_frame (delta_surface delta)) = height"
    "\<not> has_graphics (sf_graphics (delta_surface delta)) \<Longrightarrow> length data \<le> MAX_FRAME_SIZE"
proof -
  from assms(2) obtain bytes d where "length data \<le> MAX_GRAPHICS_FRAME_SIZE" "in_base64 I data = Inr bytes"
    and d: "decode_Decoded P \<lparr>expected_size = Some (width, height), data_len = length data\<rparr> (in_start I bytes) =
         Inr (delta, d)" and "in_consumed I bytes d = length bytes"
    by (auto simp: decode_for_def decode_delta_data_def decode_bytes_with_data_len_def
        split: if_splits sum.splits)
  with decode_Decoded_limit [OF assms(1) d] show thesis by (intro that) auto
qed

text \<open>C19: whatever the primitive decoders deliver, a delta is accepted only within every limit:
  its text fits the frame limit (the smaller one when it has no graphics), its metadata carries
  no cells, its dimensions, panes, splits, paths, links, assets and placements are bounded, its
  rows are sorted, disjoint, non-empty spans inside the receiver's grid, a popup update belongs
  to a popup and fits its grid, and no byte is left over.\<close>

theorem decode_within_limits:
  assumes "read_spec P" and "decode_for I P data (width, height) = Inr delta"
  shows "delta_limits delta \<and> length data \<le> MAX_GRAPHICS_FRAME_SIZE \<and>
    (\<not> has_graphics (sf_graphics (delta_surface delta)) \<longrightarrow> length data \<le> MAX_FRAME_SIZE) \<and>
    fr_width (sf_frame (delta_surface delta)) = width \<and> fr_height (sf_frame (delta_surface delta)) = height \<and>
    (\<exists>bytes d. in_base64 I data = Inr bytes \<and>
       decode_Decoded P \<lparr>expected_size = Some (width, height), data_len = length data\<rparr> (in_start I bytes) =
         Inr (delta, d) \<and> in_consumed I bytes d = length bytes)"
  using assms by (rule decode_for_Inr) blast

definition zero_prims :: "unit prims" where
  "zero_prims = \<lparr>p_u8 = \<lambda>d. Inr (0, d), p_u16 = \<lambda>d. Inr (2, d), p_u32 = \<lambda>d. Inr (0, d), p_u64 = \<lambda>d. Inr (0, d),
     p_bool = \<lambda>d. Inr (False, d), p_string = \<lambda>d. Inr (''boot'', d), p_cursor = \<lambda>d. Inr (None, d),
     p_popup_size = \<lambda>d. Inr (None, d), p_pane = \<lambda>d. Inl (Other ''pane''),
     p_direction = \<lambda>d. Inl (Other ''direction''), p_rect = \<lambda>d. Inl (Other ''rect''),
     p_asset_key = \<lambda>d. Inl (Other ''key''), p_placement = \<lambda>d. Inl (Other ''placement''),
     p_cell = \<lambda>d. Inl (Other ''cell''), p_claim = \<lambda>n d. Inr d, p_read = \<lambda>n d. Inr (replicate n 0, d)\<rparr>"

definition zero_input :: "unit delta_input" where
  "zero_input = \<lparr>in_base64 = \<lambda>data. Inr [], in_display = \<lambda>e. ''error'', in_start = \<lambda>bytes. (), in_consumed = \<lambda>bytes d. 0\<rparr>"

theorem decode_within_limits_witness:
  "\<exists>delta. decode_for zero_input zero_prims ''AAAA'' (2, 2) = Inr delta \<and> delta_limits delta"
proof -
  have spec: "read_spec zero_prims" by (simp add: read_spec_def zero_prims_def)
  have "\<exists>delta. decode_for zero_input zero_prims ''AAAA'' (2, 2) = Inr delta"
    by (simp add: decode_for_def decode_delta_data_def decode_bytes_with_data_len_def zero_input_def decode_Decoded_def
        decode_surface_def decode_frame_def require_empty_sequence_def decode_sequence_len_def decode_bounded_vec_def
        decode_count_def decode_bytes_vec_def decode_splits_def decode_popup_def decode_graphics_scene_def decode_rows_def
        decode_popup_update_def checked_grid_size_def MAX_GRID_DIMENSION_def MAX_GRID_CELLS_def zero_prims_def
        MAX_GRAPHICS_FRAME_SIZE_def MAX_FRAME_SIZE_def has_graphics_def)
  with decode_within_limits [OF spec] show ?thesis by blast
qed

end
