(* ===== verification/Surface_Codec.thy ===== *)
theory Surface_Codec
  imports Surface_Decode
begin

text \<open>
  The decoder of surface deltas accepts what the sender encodes. \<open>Serialize\<close> is derived for
  the delta and its parts, and \<open>bincode\<close> documents the layout: fields in order, a sequence as
  its length and its elements, an option as a tag byte, an enum as the number of its variant.
  \<open>enc_delta\<close> writes that layout down over primitive encoders \<open>E\<close>; \<open>prims_spec\<close> is what
  the primitives promise: reading back one encoded value from a stream within the byte limit
  of the decoder's configuration.
\<close>

section \<open>Layout\<close>

record encs =
  e_u8 :: "u8 \<Rightarrow> u8 list"
  e_u16 :: "u16 \<Rightarrow> u8 list"
  e_u32 :: "u32 \<Rightarrow> u8 list"
  e_u64 :: "u64 \<Rightarrow> u8 list"
  e_bool :: "bool \<Rightarrow> u8 list"
  e_string :: "string \<Rightarrow> u8 list"
  e_cursor :: "CursorState option \<Rightarrow> u8 list"
  e_popup_size :: "ClientShellPopupSize option \<Rightarrow> u8 list"
  e_pane :: "PaneSurfacePane \<Rightarrow> u8 list"
  e_direction :: "PaneSurfaceSplitDirection \<Rightarrow> u8 list"
  e_rect :: "SurfaceRect \<Rightarrow> u8 list"
  e_asset_key :: "SurfaceGraphicsAssetKey \<Rightarrow> u8 list"
  e_placement :: "SurfaceGraphicsPlacement \<Rightarrow> u8 list"
  e_cell :: "CellData \<Rightarrow> u8 list"

definition enc_seq :: "encs \<Rightarrow> ('a \<Rightarrow> u8 list) \<Rightarrow> 'a list \<Rightarrow> u8 list" where
  "enc_seq E e xs = e_u64 E (of_nat (length xs)) @ concat (map e xs)"

definition enc_bytes :: "encs \<Rightarrow> u8 list \<Rightarrow> u8 list" where
  "enc_bytes E bs = e_u64 E (of_nat (length bs)) @ bs"

definition enc_frame :: "encs \<Rightarrow> FrameData \<Rightarrow> u8 list" where
  "enc_frame E f = enc_seq E (e_cell E) (fr_cells f) @ e_u16 E (fr_width f) @ e_u16 E (fr_height f) @
     e_cursor E (fr_cursor f) @ enc_seq E (e_string E) (fr_hyperlinks f) @ enc_bytes E (fr_graphics f)"

definition enc_popup :: "encs \<Rightarrow> ClientShellPopupSurface \<Rightarrow> u8 list" where
  "enc_popup E p = e_string E (pop_terminal_id p) @ e_string E (pop_title p) @
     e_popup_size E (pop_width p) @ e_popup_size E (pop_height p) @ enc_frame E (pop_frame p) @
     e_bool E (pop_mouse_reporting p) @ e_bool E (pop_sgr_pixel_mouse p) @
     e_u32 E (pop_pixel_width p) @ e_u32 E (pop_pixel_height p)"

definition enc_option :: "encs \<Rightarrow> ('a \<Rightarrow> u8 list) \<Rightarrow> 'a option \<Rightarrow> u8 list" where
  "enc_option E e x = (case x of None \<Rightarrow> e_u8 E 0 | Some y \<Rightarrow> e_u8 E 1 @ e y)"

definition enc_split :: "encs \<Rightarrow> PaneSurfaceSplit \<Rightarrow> u8 list" where
  "enc_split E s = e_direction E (pss_direction s) @ e_u16 E (pss_pos s) @ e_rect E (pss_area s) @
     e_rect E (pss_hit_rect s) @ enc_seq E (e_bool E) (pss_path s)"

definition enc_asset :: "encs \<Rightarrow> SurfaceGraphicsAsset \<Rightarrow> u8 list" where
  "enc_asset E a = e_asset_key E (asset_key a) @ enc_bytes E (asset_data a)"

definition enc_scene :: "encs \<Rightarrow> SurfaceGraphicsScene \<Rightarrow> u8 list" where
  "enc_scene E g = enc_seq E (enc_asset E) (gs_assets g) @ enc_seq E (e_placement E) (gs_placements g) @
     enc_seq E (e_asset_key E) (gs_retained_assets g)"

definition enc_surface :: "encs \<Rightarrow> PaneSurfaceFrame \<Rightarrow> u8 list" where
  "enc_surface E s = e_string E (sf_boot_id s) @ e_u64 E (sf_projection_revision s) @
     e_u64 E (sf_surface_revision s) @ enc_frame E (sf_frame s) @ enc_seq E (e_pane E) (sf_panes s) @
     enc_seq E (enc_split E) (sf_splits s) @ enc_option E (enc_popup E) (sf_popup s) @
     enc_scene E (sf_graphics s)"

definition enc_row :: "encs \<Rightarrow> PaneSurfacePatchRow \<Rightarrow> u8 list" where
  "enc_row E r = e_u16 E (row_x r) @ e_u16 E (row_y r) @ enc_seq E (e_cell E) (row_cells r)"

definition enc_update :: "encs \<Rightarrow> GridUpdate \<Rightarrow> u8 list" where
  "enc_update E u = (case u of
      Patch rows \<Rightarrow> e_u32 E 0 @ enc_seq E (enc_row E) rows
    | Replace cells \<Rightarrow> e_u32 E 1 @ enc_seq E (e_cell E) cells)"

definition enc_delta :: "encs \<Rightarrow> SurfaceDelta \<Rightarrow> u8 list" where
  "enc_delta E d = e_u64 E (base_projection_revision d) @ e_u64 E (base_surface_revision d) @
     enc_surface E (delta_surface d) @ enc_seq E (enc_row E) (delta_rows d) @
     enc_option E (enc_update E) (popup_cells d)"

section \<open>What the primitives promise\<close>

definition reads :: "(u8 list, 'a) decoder \<Rightarrow> ('a \<Rightarrow> u8 list) \<Rightarrow> 'a \<Rightarrow> bool" where
  "reads p e x \<longleftrightarrow>
     (\<forall>rest. length (e x) + length rest \<le> MAX_GRAPHICS_FRAME_SIZE \<longrightarrow> p (e x @ rest) = Inr (x, rest))"

definition prims_spec :: "encs \<Rightarrow> u8 list prims \<Rightarrow> bool" where
  "prims_spec E P \<longleftrightarrow>
     (\<forall>x. reads (p_u8 P) (e_u8 E) x) \<and> (\<forall>x. reads (p_u16 P) (e_u16 E) x) \<and>
     (\<forall>x. reads (p_u32 P) (e_u32 E) x) \<and> (\<forall>x. reads (p_u64 P) (e_u64 E) x) \<and>
     (\<forall>x. reads (p_bool P) (e_bool E) x) \<and> (\<forall>x. reads (p_string P) (e_string E) x) \<and>
     (\<forall>x. reads (p_cursor P) (e_cursor E) x) \<and> (\<forall>x. reads (p_popup_size P) (e_popup_size E) x) \<and>
     (\<forall>x. reads (p_pane P) (e_pane E) x) \<and> (\<forall>x. reads (p_direction P) (e_direction E) x) \<and>
     (\<forall>x. reads (p_rect P) (e_rect E) x) \<and> (\<forall>x. reads (p_asset_key P) (e_asset_key E) x) \<and>
     (\<forall>x. reads (p_placement P) (e_placement E) x) \<and> (\<forall>x. reads (p_cell P) (e_cell E) x) \<and>
     (\<forall>n d. n \<le> length d \<and> length d \<le> MAX_GRAPHICS_FRAME_SIZE \<longrightarrow>
        p_claim P n d = Inr d \<and> p_read P n d = Inr (take n d, drop n d))"

section \<open>Reading back each part\<close>

lemma readsI: "(\<And>rest. length (e x) + length rest \<le> MAX_GRAPHICS_FRAME_SIZE \<Longrightarrow> p (e x @ rest) = Inr (x, rest)) \<Longrightarrow> reads p e x"
  by (simp add: reads_def)

lemma readsD: "reads p e x \<Longrightarrow> length (e x) + length rest \<le> MAX_GRAPHICS_FRAME_SIZE \<Longrightarrow> p (e x @ rest) = Inr (x, rest)"
  by (simp add: reads_def)

lemma prims_reads:
  assumes "prims_spec E P"
  shows "reads (p_u8 P) (e_u8 E) x1" "reads (p_u16 P) (e_u16 E) x2" "reads (p_u32 P) (e_u32 E) x3"
    "reads (p_u64 P) (e_u64 E) x4" "reads (p_bool P) (e_bool E) x5" "reads (p_string P) (e_string E) x6"
    "reads (p_cursor P) (e_cursor E) x7" "reads (p_popup_size P) (e_popup_size E) x8"
    "reads (p_pane P) (e_pane E) x9" "reads (p_direction P) (e_direction E) x10"
    "reads (p_rect P) (e_rect E) x11" "reads (p_asset_key P) (e_asset_key E) x12"
    "reads (p_placement P) (e_placement E) x13" "reads (p_cell P) (e_cell E) x14"
  using assms by (simp_all add: prims_spec_def)

lemmas prim_simps = prims_reads [THEN readsD]

lemma decode_n_reads:
  assumes "\<forall>x \<in> set xs. reads p e x"
  shows "reads (decode_n p (length xs)) (\<lambda>xs. concat (map e xs)) xs"
  using assms by (induction xs) (auto simp: reads_def)

lemma nat_u64: "n \<le> 1000000000 \<Longrightarrow> unat (of_nat n :: u64) = n"
  by (simp add: unat_of_nat)

lemma seq_len_reads:
  assumes "prims_spec E P" "n \<le> 1000000000"
    "length (e_u64 E (of_nat n)) + length rest \<le> MAX_GRAPHICS_FRAME_SIZE"
  shows "decode_sequence_len P (e_u64 E (of_nat n) @ rest) = Inr (n, rest)"
  using assms by (simp add: decode_sequence_len_def prim_simps [OF assms(1)] nat_u64)

lemma count_reads:
  assumes "prims_spec E P" "n \<le> limit" "limit \<le> 1000000000"
    "length (e_u64 E (of_nat n)) + length rest \<le> MAX_GRAPHICS_FRAME_SIZE"
  shows "decode_count P limit message (e_u64 E (of_nat n) @ rest) = Inr (n, rest)"
  using assms by (simp add: decode_count_def seq_len_reads)

lemma bounded_vec_reads:
  assumes "prims_spec E P" "\<forall>x \<in> set xs. reads p e x" "length xs \<le> limit" "limit \<le> 1000000000"
  shows "reads (decode_bounded_vec P p limit message) (enc_seq E e) xs"
proof (rule readsI)
  fix rest :: "u8 list"
  assume "length (enc_seq E e xs) + length rest \<le> MAX_GRAPHICS_FRAME_SIZE"
  with assms show "decode_bounded_vec P p limit message (enc_seq E e xs @ rest) = Inr (xs, rest)"
    using readsD [OF decode_n_reads [OF assms(2)], of rest]
    by (simp add: decode_bounded_vec_def enc_seq_def count_reads)
qed

lemma bytes_vec_reads:
  assumes "prims_spec E P" "length bs \<le> limit" "limit \<le> 1000000000"
  shows "reads (decode_bytes_vec P limit message) (enc_bytes E) bs"
proof (rule readsI)
  fix rest :: "u8 list"
  assume "length (enc_bytes E bs) + length rest \<le> MAX_GRAPHICS_FRAME_SIZE"
  moreover from assms(1) have "n \<le> length d \<and> length d \<le> MAX_GRAPHICS_FRAME_SIZE \<longrightarrow>
        p_claim P n d = Inr d \<and> p_read P n d = Inr (take n d, drop n d)" for n d
    by (simp add: prims_spec_def)
  ultimately show "decode_bytes_vec P limit message (enc_bytes E bs @ rest) = Inr (bs, rest)"
    using assms by (simp add: decode_bytes_vec_def enc_bytes_def count_reads)
qed

lemmas limit_defs = MAX_PANES_def MAX_SPLITS_def MAX_SPLIT_PATH_def MAX_HYPERLINKS_def MAX_ASSETS_def
  MAX_PLACEMENTS_def MAX_RETAINED_ASSETS_def

lemma frame_size_bound: "MAX_GRAPHICS_FRAME_SIZE \<le> 1000000000"
  by (simp add: MAX_GRAPHICS_FRAME_SIZE_def)

lemma frame_reads:
  assumes "prims_spec E P" "frame_limits f"
  shows "reads (decode_frame P) (enc_frame E) f"
proof (rule readsI)
  fix rest :: "u8 list"
  assume len: "length (enc_frame E f) + length rest \<le> MAX_GRAPHICS_FRAME_SIZE"
  have links: "reads (decode_bounded_vec P (p_string P) MAX_HYPERLINKS message) (enc_seq E (e_string E)) (fr_hyperlinks f)" for message
    using assms by (intro bounded_vec_reads) (auto simp: frame_limits_def limit_defs prims_reads)
  have gfx: "reads (decode_bytes_vec P MAX_GRAPHICS_FRAME_SIZE message) (enc_bytes E) (fr_graphics f)" for message
    using assms by (intro bytes_vec_reads) (auto simp: frame_limits_def frame_size_bound)
  have grid: "checked_grid_size (fr_width f) (fr_height f) = Inr (unat (fr_width f) * unat (fr_height f))"
    using assms(2) by (simp add: frame_limits_def)
  have empty: "fr_cells f = []" using assms(2) by (simp add: frame_limits_def)
  have zero: "decode_sequence_len P (e_u64 E 0 @ rest) = Inr (0, rest)"
    if "length (e_u64 E 0) + length rest \<le> MAX_GRAPHICS_FRAME_SIZE" for rest
    using seq_len_reads [OF assms(1), of 0] that by simp
  have f: "f = \<lparr>fr_cells = [], fr_width = fr_width f, fr_height = fr_height f, fr_cursor = fr_cursor f,
      fr_hyperlinks = fr_hyperlinks f, fr_graphics = fr_graphics f\<rparr>"
    using empty by simp
  show "decode_frame P (enc_frame E f @ rest) = Inr (f, rest)"
    using len f
    by (simp add: decode_frame_def enc_frame_def require_empty_sequence_def zero empty enc_seq_def [of E "e_cell E"]
        prim_simps [OF assms(1)] grid readsD [OF links] readsD [OF gfx])
qed

lemma popup_reads:
  assumes "prims_spec E P" "\<forall>p. popup = Some p \<longrightarrow> frame_limits (pop_frame p)"
  shows "reads (decode_popup P) (enc_option E (enc_popup E)) popup"
proof (cases popup)
  case None
  then show ?thesis
    using assms(1) by (simp add: reads_def decode_popup_def enc_option_def prim_simps)
next
  case (Some p)
  with assms have "reads (decode_frame P) (enc_frame E) (pop_frame p)" by (simp add: frame_reads)
  with Some show ?thesis
    by (intro readsI) (simp add: decode_popup_def enc_option_def enc_popup_def prim_simps [OF assms(1)] readsD)
qed

lemma split_reads:
  assumes "prims_spec E P" "length (pss_path s) \<le> MAX_SPLIT_PATH"
  shows "reads (decode_split P) (enc_split E) s"
proof -
  have "reads (decode_bounded_vec P (p_bool P) MAX_SPLIT_PATH message) (enc_seq E (e_bool E)) (pss_path s)" for message
    using assms by (intro bounded_vec_reads) (auto simp: limit_defs prims_reads)
  then show ?thesis
    by (intro readsI) (simp add: decode_split_def enc_split_def prim_simps [OF assms(1)] readsD)
qed

lemma splits_reads:
  assumes "prims_spec E P" "splits_limits splits"
  shows "reads (decode_splits P) (enc_seq E (enc_split E)) splits"
  using bounded_vec_reads [of E P splits "decode_split P" "enc_split E" MAX_SPLITS "''too many splits''"]
    split_reads assms
  by (simp add: splits_limits_def limit_defs reads_def decode_splits_def decode_bounded_vec_def)

lemma asset_reads:
  assumes "prims_spec E P" "length (asset_data a) \<le> MAX_GRAPHICS_FRAME_SIZE"
  shows "reads (decode_asset P) (enc_asset E) a"
proof -
  have "reads (decode_bytes_vec P MAX_GRAPHICS_FRAME_SIZE message) (enc_bytes E) (asset_data a)" for message
    using assms by (intro bytes_vec_reads) (auto simp: frame_size_bound)
  then show ?thesis
    by (intro readsI) (simp add: decode_asset_def enc_asset_def prim_simps [OF assms(1)] readsD)
qed

lemma scene_reads:
  assumes "prims_spec E P" "scene_limits g"
  shows "reads (decode_graphics_scene P) (enc_scene E) g"
proof -
  have assets: "reads (decode_bounded_vec P (decode_asset P) MAX_ASSETS message) (enc_seq E (enc_asset E)) (gs_assets g)" for message
    using assms by (intro bounded_vec_reads) (auto simp: scene_limits_def limit_defs asset_reads)
  have "decode_bounded_vec P (p_placement P) MAX_PLACEMENTS message (enc_seq E (e_placement E) (gs_placements g) @ rest) =
      Inr (gs_placements g, rest)"
    if "length (enc_seq E (e_placement E) (gs_placements g)) + length rest \<le> MAX_GRAPHICS_FRAME_SIZE" for message rest
    using assms that by (intro readsD bounded_vec_reads) (auto simp: scene_limits_def limit_defs prims_reads)
  moreover have "decode_bounded_vec P (p_asset_key P) MAX_RETAINED_ASSETS message
      (enc_seq E (e_asset_key E) (gs_retained_assets g) @ rest) = Inr (gs_retained_assets g, rest)"
    if "length (enc_seq E (e_asset_key E) (gs_retained_assets g)) + length rest \<le> MAX_GRAPHICS_FRAME_SIZE" for message rest
    using assms that by (intro readsD bounded_vec_reads) (auto simp: scene_limits_def limit_defs prims_reads)
  moreover have "decode_graphics_scene P d =
      and_then (decode_bounded_vec P (decode_asset P) MAX_ASSETS ''too many graphics assets'' d) (\<lambda>(assets, d).
      and_then (decode_bounded_vec P (p_placement P) MAX_PLACEMENTS ''too many graphics placements'' d)
        (\<lambda>(placements, d).
      and_then (decode_bounded_vec P (p_asset_key P) MAX_RETAINED_ASSETS ''too many retained graphics assets'' d)
        (\<lambda>(retained_assets, d).
      Inr (\<lparr>gs_assets = assets, gs_placements = placements, gs_retained_assets = retained_assets\<rparr>, d))))" for d
    unfolding decode_graphics_scene_def decode_bounded_vec_def [of P "decode_asset P"]
    by (cases "decode_count P MAX_ASSETS ''too many graphics assets'' d") (auto split: prod.splits)
  ultimately show ?thesis
    by (intro readsI) (simp add: enc_scene_def readsD [OF assets])
qed

lemma surface_reads:
  assumes "prims_spec E P" "surface_limits s"
  shows "reads (decode_surface P) (\<lambda>(s, g). enc_surface E s) (s, has_graphics (sf_graphics s))"
proof -
  have "reads (decode_frame P) (enc_frame E) (sf_frame s)"
    "reads (decode_splits P) (enc_seq E (enc_split E)) (sf_splits s)"
    "reads (decode_popup P) (enc_option E (enc_popup E)) (sf_popup s)"
    "reads (decode_graphics_scene P) (enc_scene E) (sf_graphics s)"
    using assms by (simp_all add: surface_limits_def frame_reads splits_reads popup_reads scene_reads)
  moreover have "reads (decode_bounded_vec P (p_pane P) MAX_PANES message) (enc_seq E (e_pane E)) (sf_panes s)" for message
    using assms by (intro bounded_vec_reads) (auto simp: surface_limits_def limit_defs prims_reads)
  ultimately show ?thesis
    by (intro readsI) (simp add: decode_surface_def enc_surface_def prim_simps [OF assms(1)] readsD)
qed

lemma cells_reads: "prims_spec E P \<Longrightarrow>
  length (concat (map (e_cell E) cells)) + length rest \<le> MAX_GRAPHICS_FRAME_SIZE \<Longrightarrow>
  decode_n (p_cell P) (length cells) (concat (map (e_cell E) cells) @ rest) = Inr (cells, rest)"
  using readsD [OF decode_n_reads [of cells "p_cell P" "e_cell E"]] by (simp add: prims_reads)

lemma row_loop_reads:
  assumes "prims_spec E P"
    and "sorted_spans width (unat width * unat height) prev rows" "\<forall>row \<in> set rows. row_y row < height"
    and "tot \<le> prev" "prev \<le> unat width * unat height"
  shows "reads (decode_row_loop P width height (unat width * unat height) (length rows) tot prev)
    (\<lambda>rows. concat (map (enc_row E) rows)) rows"
  using assms(2-5)
proof (induction rows arbitrary: prev tot)
  case Nil
  then show ?case by (simp add: reads_def)
next
  case (Cons row rows)
  let ?n = "length (row_cells row)"
  from Cons.prems have g: "?n \<noteq> 0" "\<not> height \<le> row_y row" "\<not> unat width \<le> unat (row_x row)"
      "\<not> unat width - unat (row_x row) < ?n"
      "\<not> unat (row_y row) * unat width + unat (row_x row) < prev"
      "\<not> unat width * unat height < tot + ?n"
    by (auto simp: row_start_def row_end_def length_greater_0_conv [symmetric] simp del: length_greater_0_conv)
  have big: "?n \<le> 1000000000" using g(4) unat_u16_bound [of width] by linarith
  from Cons.prems have tail: "reads (decode_row_loop P width height (unat width * unat height) (length rows)
      (tot + ?n) (unat (row_y row) * unat width + unat (row_x row) + ?n)) (\<lambda>rows. concat (map (enc_row E) rows)) rows"
    by (intro Cons.IH) (auto simp: row_start_def row_end_def)
  from g show ?case
    by (intro readsI) (simp add: readsD [OF tail] enc_row_def [of E row] enc_seq_def prim_simps [OF assms(1)]
        seq_len_reads [OF assms(1) big] cells_reads [OF assms(1)] Let_def)
qed

lemma rows_reads:
  assumes "prims_spec E P" "grid_fits width height" "rows_limits width height rows"
  shows "reads (decode_rows P width height) (enc_seq E (enc_row E)) rows"
proof (rule readsI)
  fix rest :: "u8 list"
  assume len: "length (enc_seq E (enc_row E) rows) + length rest \<le> MAX_GRAPHICS_FRAME_SIZE"
  have "decode_count P (min MAX_SPANS (unat width * unat height)) message
      (e_u64 E (of_nat (length rows)) @ concat (map (enc_row E) rows) @ rest) =
      Inr (length rows, concat (map (enc_row E) rows) @ rest)" for message
    using len assms by (intro count_reads [OF assms(1)]) (auto simp: rows_limits_def enc_seq_def MAX_SPANS_def)
  moreover have loop: "reads (decode_row_loop P width height (unat width * unat height) (length rows) 0 0)
    (\<lambda>rows. concat (map (enc_row E) rows)) rows"
    using assms by (intro row_loop_reads) (auto simp: rows_limits_def)
  moreover have grid: "checked_grid_size width height = Inr (unat width * unat height)"
    using assms(2) by simp
  ultimately show "decode_rows P width height (enc_seq E (enc_row E) rows @ rest) = Inr (rows, rest)"
    using len by (simp add: decode_rows_def enc_seq_def readsD [OF loop] grid)
qed

lemma update_reads:
  assumes "prims_spec E P" "update_limits popup update"
  shows "reads (decode_popup_update P popup) (enc_option E (enc_update E)) update"
proof (cases update)
  case None
  then show ?thesis
    using assms(1) by (simp add: reads_def decode_popup_update_def enc_option_def prim_simps)
next
  case (Some u)
  with assms(2) obtain p where p: "popup = Some p" "grid_fits (fr_width (pop_frame p)) (fr_height (pop_frame p))"
    by (auto simp: update_limits_def split: option.splits)
  show ?thesis
  proof (cases u)
    case (Patch rows)
    with assms p Some have "reads (decode_rows P (fr_width (pop_frame p)) (fr_height (pop_frame p)))
        (enc_seq E (enc_row E)) rows"
      by (intro rows_reads) (auto simp: update_limits_def)
    with Some Patch p show ?thesis
      by (intro readsI) (simp add: decode_popup_update_def enc_option_def enc_update_def ok_or_def
          prim_simps [OF assms(1)] Let_def readsD)
  next
    case (Replace cells)
    with assms p Some have n: "unat (fr_width (pop_frame p)) * unat (fr_height (pop_frame p)) = length cells"
        "length cells \<le> 1000000000"
      by (auto simp: update_limits_def grid_fits_def MAX_GRID_CELLS_def)
    have grid: "checked_grid_size (fr_width (pop_frame p)) (fr_height (pop_frame p)) = Inr (length cells)"
      using p(2) n(1) by simp
    from Some Replace p(1) show ?thesis
      by (intro readsI) (simp add: grid decode_popup_update_def enc_option_def enc_update_def ok_or_def enc_seq_def
          prim_simps [OF assms(1)] Let_def seq_len_reads [OF assms(1) n(2)] cells_reads [OF assms(1)])
  qed
qed

lemma delta_reads:
  assumes "prims_spec E P" "delta_limits delta"
    and "expected_size context = Some (fr_width (sf_frame (delta_surface delta)), fr_height (sf_frame (delta_surface delta)))"
    and "has_graphics (sf_graphics (delta_surface delta)) \<or> data_len context \<le> MAX_FRAME_SIZE"
  shows "reads (decode_Decoded P context) (enc_delta E) delta"
proof -
  let ?s = "delta_surface delta"
  have "reads (decode_surface P) (\<lambda>(s, g). enc_surface E s) (?s, has_graphics (sf_graphics ?s))"
    using assms(1,2) by (simp add: delta_limits_def surface_reads)
  then have surf: "decode_surface P (enc_surface E ?s @ rest) = Inr ((?s, has_graphics (sf_graphics ?s)), rest)"
    if "length (enc_surface E ?s) + length rest \<le> MAX_GRAPHICS_FRAME_SIZE" for rest
    using that by (auto dest: readsD)
  have grid: "grid_fits (fr_width (sf_frame ?s)) (fr_height (sf_frame ?s))"
    using assms(2) by (simp add: delta_limits_def surface_limits_def frame_limits_def)
  then have size_ok: "checked_grid_size (fr_width (sf_frame ?s)) (fr_height (sf_frame ?s)) =
      Inr (unat (fr_width (sf_frame ?s)) * unat (fr_height (sf_frame ?s)))" by simp
  have rows: "reads (decode_rows P (fr_width (sf_frame ?s)) (fr_height (sf_frame ?s))) (enc_seq E (enc_row E)) (delta_rows delta)"
    using assms(1,2) grid by (intro rows_reads) (auto simp: delta_limits_def)
  have upd: "reads (decode_popup_update P (sf_popup ?s)) (enc_option E (enc_update E)) (popup_cells delta)"
    using assms(1,2) by (intro update_reads) (auto simp: delta_limits_def)
  show ?thesis
    using assms(4)
    by (intro readsI) (auto simp: decode_Decoded_def enc_delta_def prim_simps [OF assms(1)] surf assms(3) size_ok
        readsD [OF rows] readsD [OF upd] Let_def)
qed

section \<open>The round trip\<close>

text \<open>The transport: base64 text is decoded to the bytes it encodes, a decoder starts at the
  first byte and has consumed what is no longer ahead of it.\<close>

definition transport_spec :: "(u8 list \<Rightarrow> string) \<Rightarrow> u8 list delta_input \<Rightarrow> bool" where
  "transport_spec base64 I \<longleftrightarrow>
     (\<forall>bytes. in_base64 I (base64 bytes) = Inr bytes) \<and> (\<forall>bytes. in_start I bytes = bytes) \<and>
     (\<forall>bytes rest. in_consumed I bytes rest = length bytes - length rest)"

lemma decode_delta_roundtrip:
  assumes "prims_spec E P" "transport_spec base64 I" "delta_limits delta"
    and "length (base64 (enc_delta E delta)) \<le>
      (if has_graphics (sf_graphics (delta_surface delta)) then MAX_GRAPHICS_FRAME_SIZE else MAX_FRAME_SIZE)"
    and "length (enc_delta E delta) \<le> MAX_GRAPHICS_FRAME_SIZE"
  shows "decode_for I P (base64 (enc_delta E delta))
    (fr_width (sf_frame (delta_surface delta)), fr_height (sf_frame (delta_surface delta))) = Inr delta"
proof -
  have "length (base64 (enc_delta E delta)) \<le> MAX_GRAPHICS_FRAME_SIZE"
    using assms(4) by (auto simp: MAX_FRAME_SIZE_def MAX_GRAPHICS_FRAME_SIZE_def split: if_splits)
  moreover have "reads (decode_Decoded P \<lparr>expected_size =
      Some (fr_width (sf_frame (delta_surface delta)), fr_height (sf_frame (delta_surface delta))),
      data_len = length (base64 (enc_delta E delta))\<rparr>) (enc_delta E) delta"
    using assms by (intro delta_reads) (auto split: if_splits)
  then have "decode_Decoded P \<lparr>expected_size =
      Some (fr_width (sf_frame (delta_surface delta)), fr_height (sf_frame (delta_surface delta))),
      data_len = length (base64 (enc_delta E delta))\<rparr> (enc_delta E delta) = Inr (delta, [])"
    using assms(5) readsD [where rest = "[]"] by fastforce
  ultimately show ?thesis
    using assms(2,5)
    by (simp add: decode_for_def decode_delta_data_def decode_bytes_with_data_len_def transport_spec_def)
qed

end
