(* ===== verification/Surface_Delta.thy ===== *)
theory Surface_Delta
  imports Surface_Codec
begin

text \<open>
  The sender of surface deltas: \<open>message\<close> of \<open>herdr/src/protocol/surface_delta.rs\<close>. It takes
  the cells out of the frame while it encodes the metadata and puts them back whatever happens.
  The result is \<open>None\<close> when the code would panic, else what \<open>message\<close> returns and the frame it
  leaves behind. Encoding, the sizes it would have and base64 are arguments.
\<close>

section \<open>Operations\<close>

record ('snapshot, 'notification) delta_output =
  out_size_span :: "CellSpan \<Rightarrow> string + nat"
  out_size_message :: "('snapshot, 'notification) ServerMessage \<Rightarrow> string + nat"
  out_size_delta :: "SurfaceDelta \<Rightarrow> string + nat"
  out_encode :: "SurfaceDelta \<Rightarrow> string + u8 list"
  out_encoded_len :: "nat \<Rightarrow> nat option"
  out_base64 :: "u8 list \<Rightarrow> string"

definition set_cells :: "CellData list \<Rightarrow> FrameData \<Rightarrow> FrameData" where
  "set_cells cells frame = frame\<lparr>fr_cells := cells\<rparr>"

definition take_cells :: "PaneSurfaceFrame \<Rightarrow> PaneSurfaceFrame" where
  "take_cells surface = surface\<lparr>sf_frame := set_cells [] (sf_frame surface),
     sf_popup := map_option (\<lambda>popup. popup\<lparr>pop_frame := set_cells [] (pop_frame popup)\<rparr>) (sf_popup surface)\<rparr>"

definition restore_cells :: "CellData list \<Rightarrow> CellData list option \<Rightarrow> PaneSurfaceFrame \<Rightarrow> PaneSurfaceFrame" where
  "restore_cells cells popup_grid surface =
     (let surface = surface\<lparr>sf_frame := set_cells cells (sf_frame surface)\<rparr> in
      case (sf_popup surface, popup_grid) of
        (Some popup, Some grid) \<Rightarrow> surface\<lparr>sf_popup := Some (popup\<lparr>pop_frame := set_cells grid (pop_frame popup)\<rparr>)\<rparr>
      | _ \<Rightarrow> surface)"

definition same_popup_grid :: "ClientShellPopupSurface \<Rightarrow> ClientShellPopupSurface \<Rightarrow> CellData list \<Rightarrow> bool" where
  "same_popup_grid previous popup grid \<longleftrightarrow>
     pop_terminal_id previous = pop_terminal_id popup \<and>
     fr_width (pop_frame previous) = fr_width (pop_frame popup) \<and>
     fr_height (pop_frame previous) = fr_height (pop_frame popup) \<and>
     length (fr_cells (pop_frame previous)) = length grid"

text \<open>The popup part of the closure: \<open>Some (Inr None)\<close> is its early \<open>return Ok(None)\<close>.\<close>

definition popup_update :: "('s, 'n) delta_output \<Rightarrow> PaneSurfaceFrame \<Rightarrow> PaneSurfaceFrame \<Rightarrow>
    CellData list option \<Rightarrow> nat \<Rightarrow> (string + GridUpdate option option) option" where
  "popup_update R previous_surface surface popup_grid full_size =
     (case (sf_popup surface, popup_grid) of
        (Some popup, Some grid) \<Rightarrow>
          (case (case sf_popup previous_surface of
                   None \<Rightarrow> None
                 | Some previous \<Rightarrow> if same_popup_grid previous popup grid then Some previous else None) of
             Some previous \<Rightarrow>
               (case changed_rows (out_size_span R) (out_encoded_len R) (fr_cells (pop_frame previous)) grid
                       (fr_width (pop_frame popup)) full_size of
                  None \<Rightarrow> None
                | Some (Inl e) \<Rightarrow> Some (Inl e)
                | Some (Inr None) \<Rightarrow> Some (Inr None)
                | Some (Inr (Some rows)) \<Rightarrow> Some (Inr (Some (Some (Patch rows)))))
           | None \<Rightarrow> Some (Inr (Some (Some (Replace grid)))))
      | _ \<Rightarrow> Some (Inr (Some None)))"

definition encode_delta :: "('s, 'n) delta_output \<Rightarrow> nat \<Rightarrow> nat \<Rightarrow> SurfaceDelta \<Rightarrow> string + u8 list option" where
  "encode_delta R limit full_size delta =
     and_then (out_size_delta R delta) (\<lambda>sz.
     and_then (ok_or ''surface delta size overflow'' (out_encoded_len R sz)) (\<lambda>encoded_len.
       if encoded_len > limit \<or> encoded_len \<ge> full_size then Inr None
       else and_then (out_encode R delta) (\<lambda>bytes. Inr (Some bytes))))"

definition delta_encoded :: "('s, 'n) delta_output \<Rightarrow> PaneSurfaceFrame \<Rightarrow> PaneSurfaceFrame \<Rightarrow>
    CellData list \<Rightarrow> CellData list option \<Rightarrow> nat \<Rightarrow> nat \<Rightarrow> (string + u8 list option) option" where
  "delta_encoded R previous surface cells popup_grid limit full_size =
     (case changed_rows (out_size_span R) (out_encoded_len R) (fr_cells (sf_frame previous)) cells
             (fr_width (sf_frame surface)) full_size of
        None \<Rightarrow> None
      | Some (Inl e) \<Rightarrow> Some (Inl e)
      | Some (Inr None) \<Rightarrow> Some (Inr None)
      | Some (Inr (Some rows)) \<Rightarrow>
          (case popup_update R previous surface popup_grid full_size of
             None \<Rightarrow> None
           | Some (Inl e) \<Rightarrow> Some (Inl e)
           | Some (Inr None) \<Rightarrow> Some (Inr None)
           | Some (Inr (Some update)) \<Rightarrow>
               Some (encode_delta R limit full_size
                 \<lparr>base_projection_revision = sf_projection_revision previous,
                  base_surface_revision = sf_surface_revision previous,
                  delta_surface = surface, delta_rows = rows, popup_cells = update\<rparr>)))"

definition delta_eligible :: "PaneSurfaceFrame \<Rightarrow> PaneSurfaceFrame \<Rightarrow> bool" where
  "delta_eligible previous surface \<longleftrightarrow>
     \<not> (sf_boot_id previous \<noteq> sf_boot_id surface \<or>
        fr_width (sf_frame previous) \<noteq> fr_width (sf_frame surface) \<or>
        fr_height (sf_frame previous) \<noteq> fr_height (sf_frame surface) \<or>
        length (fr_cells (sf_frame previous)) \<noteq>
          unat (fr_width (sf_frame surface)) * unat (fr_height (sf_frame surface)) \<or>
        \<not> metadata_fits surface)"

definition delta_limit :: "SurfaceGraphicsScene \<Rightarrow> nat" where
  "delta_limit graphics =
     (if gs_assets graphics = [] \<and> gs_placements graphics = [] \<and> gs_retained_assets graphics = []
      then MAX_FRAME_SIZE else MAX_GRAPHICS_FRAME_SIZE)"

definition delta_message :: "('s, 'n) delta_output \<Rightarrow> PaneSurfaceFrame \<Rightarrow> ('s, 'n) ServerMessage \<Rightarrow>
    ((string + ('s, 'n) ServerMessage option) \<times> ('s, 'n) ServerMessage) option" where
  "delta_message R previous full =
     (case full of
        PaneSurface surface \<Rightarrow>
          if \<not> delta_eligible previous surface then Some (Inr None, full)
          else (case out_size_message R full of
             Inl e \<Rightarrow> Some (Inl e, full)
           | Inr full_size \<Rightarrow>
               (let limit = delta_limit (sf_graphics surface);
                    cells = fr_cells (sf_frame surface);
                    popup_grid = map_option (\<lambda>popup. fr_cells (pop_frame popup)) (sf_popup surface);
                    taken = take_cells surface in
                case delta_encoded R previous taken cells popup_grid limit full_size of
                  None \<Rightarrow> None
                | Some encoded \<Rightarrow>
                    (let full = PaneSurface (restore_cells cells popup_grid taken) in
                     case encoded of
                       Inl e \<Rightarrow> Some (Inl e, full)
                     | Inr None \<Rightarrow> Some (Inr None, full)
                     | Inr (Some bytes) \<Rightarrow>
                         (let message = EndpointControl delta_MESSAGE_KIND (out_base64 R bytes) in
                          case out_size_message R message of
                            Inl e \<Rightarrow> Some (Inl e, full)
                          | Inr sz \<Rightarrow>
                              Some (Inr (if sz \<le> limit \<and> sz < full_size then Some message else None), full)))))
      | _ \<Rightarrow> Some (Inr None, full))"

section \<open>What a delta stands for\<close>

lemma restore_take:
  "restore_cells (fr_cells (sf_frame surface)) (map_option (\<lambda>popup. fr_cells (pop_frame popup)) (sf_popup surface))
     (take_cells surface) = surface"
  by (cases "sf_popup surface") (simp_all add: restore_cells_def take_cells_def set_cells_def Let_def)

lemma take_cells_simps [simp]:
  "sf_boot_id (take_cells s) = sf_boot_id s" "sf_projection_revision (take_cells s) = sf_projection_revision s"
  "sf_surface_revision (take_cells s) = sf_surface_revision s" "sf_panes (take_cells s) = sf_panes s"
  "sf_splits (take_cells s) = sf_splits s" "sf_graphics (take_cells s) = sf_graphics s"
  "fr_width (sf_frame (take_cells s)) = fr_width (sf_frame s)"
  "fr_height (sf_frame (take_cells s)) = fr_height (sf_frame s)"
  "fr_cells (sf_frame (take_cells s)) = []"
  "sf_popup (take_cells s) = map_option (\<lambda>popup. popup\<lparr>pop_frame := set_cells [] (pop_frame popup)\<rparr>) (sf_popup s)"
  by (simp_all add: take_cells_def set_cells_def)

lemma set_cells_simps [simp]:
  "fr_cells (set_cells cells f) = cells" "fr_width (set_cells cells f) = fr_width f"
  "fr_height (set_cells cells f) = fr_height f" "fr_hyperlinks (set_cells cells f) = fr_hyperlinks f"
  "fr_graphics (set_cells cells f) = fr_graphics f" "set_cells b (set_cells a f) = set_cells b f"
  "set_cells (fr_cells f) f = f"
  by (simp_all add: set_cells_def)

text \<open>The relation between a delta, the surface it is based on and the surface it stands for.\<close>

definition popup_delta :: "ClientShellPopupSurface option \<Rightarrow> ClientShellPopupSurface option \<Rightarrow> GridUpdate option \<Rightarrow> bool" where
  "popup_delta previous popup update \<longleftrightarrow>
     (case (popup, update) of
        (None, None) \<Rightarrow> True
      | (Some p, Some (Replace cells)) \<Rightarrow> cells = fr_cells (pop_frame p)
      | (Some p, Some (Patch rows)) \<Rightarrow>
          (\<exists>q. previous = Some q \<and> same_popup_grid q p (fr_cells (pop_frame p)) \<and>
             apply_rows (fr_cells (pop_frame q)) (fr_width (pop_frame p)) rows = Some (fr_cells (pop_frame p)))
      | _ \<Rightarrow> False)"

definition stands_for :: "PaneSurfaceFrame \<Rightarrow> SurfaceDelta \<Rightarrow> PaneSurfaceFrame \<Rightarrow> bool" where
  "stands_for previous delta surface \<longleftrightarrow>
     base_projection_revision delta = sf_projection_revision previous \<and>
     base_surface_revision delta = sf_surface_revision previous \<and>
     delta_surface delta = take_cells surface \<and>
     apply_rows (fr_cells (sf_frame previous)) (fr_width (sf_frame surface)) (delta_rows delta) =
       Some (fr_cells (sf_frame surface)) \<and>
     popup_delta (sf_popup previous) (sf_popup surface) (popup_cells delta)"

section \<open>The sender stays within the receiver's limits\<close>

lemma frame_metadata_fits_limits: "frame_metadata_fits f \<longleftrightarrow>
  frame_limits (set_cells [] f) \<and> length (fr_cells f) = unat (fr_width f) * unat (fr_height f)"
  by (auto simp: frame_metadata_fits_def frame_limits_def checked_grid_size_def grid_fits_def Let_def not_less
      split: if_splits)

lemma metadata_fits_iff:
  "metadata_fits surface \<longleftrightarrow> surface_limits (take_cells surface) \<and>
     length (fr_cells (sf_frame surface)) = unat (fr_width (sf_frame surface)) * unat (fr_height (sf_frame surface)) \<and>
     (case sf_popup surface of None \<Rightarrow> True
      | Some p \<Rightarrow> length (fr_cells (pop_frame p)) = unat (fr_width (pop_frame p)) * unat (fr_height (pop_frame p)))"
proof -
  have "sf_frame (take_cells surface) = set_cells [] (sf_frame surface)" by (simp add: take_cells_def)
  then show ?thesis
    by (cases "sf_popup surface") (auto simp: metadata_fits_def surface_limits_def splits_limits_def
        scene_limits_def frame_metadata_fits_limits)
qed

lemma sorted_spans_count: "sorted_spans width n p rows \<Longrightarrow> p \<le> n \<Longrightarrow> p + length rows \<le> n"
proof (induction rows arbitrary: p)
  case (Cons row rows)
  then have "row_end width row + length rows \<le> n" and "p < row_end width row"
    by (auto simp: row_end_def length_greater_0_conv [symmetric] simp del: length_greater_0_conv)
  then show ?case by simp
qed simp

lemma sorted_spans_height:
  "sorted_spans width (unat width * unat (height :: u16)) p rows \<Longrightarrow> row \<in> set rows \<Longrightarrow> row_y row < height"
proof (induction rows arbitrary: p)
  case (Cons r rows)
  show ?case
  proof (cases "row = r")
    case True
    have "0 < length (row_cells r)" "row_end width r \<le> unat width * unat height" using Cons.prems(1) by simp_all
    then have "unat (row_y r) * unat width < unat height * unat width"
      unfolding row_end_def row_start_def mult.commute [of "unat height"] by linarith
    then show ?thesis by (simp add: True word_less_nat_alt)
  next
    case False
    with Cons.prems have "sorted_spans width (unat width * unat height) (row_end width r) rows" "row \<in> set rows"
      by simp_all
    then show ?thesis by (rule Cons.IH)
  qed
qed simp

lemma changed_rows_limits:
  assumes "changed_rows size_of encoded_len last_cells next_cells width full = Some (Inr (Some rows))"
    and "length last_cells = length next_cells" "length next_cells = unat width * unat (height :: u16)"
  shows "apply_rows last_cells width rows = Some next_cells \<and> rows_limits width height rows"
proof -
  have "length next_cells \<le> 65536 * unat width"
    using assms(3) unat_u16_bound [of height] by (metis less_imp_le mult.commute mult_le_mono2)
  from changed_rows_spec [OF assms(2) this, of size_of encoded_len full] assms(1)
  have "length rows \<le> MAX_SPANS" and diff: "grid_diff width last_cells next_cells 0 rows" by simp_all
  moreover from diff have "sorted_spans width (unat width * unat height) 0 rows"
    by (simp add: grid_diff_def assms(3))
  ultimately show ?thesis
    using grid_diff_apply [OF diff assms(2)] sorted_spans_count [of width _ 0 rows] sorted_spans_height
    by (fastforce simp: rows_limits_def)
qed

lemma changed_rows_no_panic:
  assumes "length last_cells = length next_cells" "length next_cells = unat width * unat (height :: u16)"
  shows "\<exists>r. changed_rows size_of encoded_len last_cells next_cells width full = Some r"
proof -
  have "length next_cells \<le> 65536 * unat width"
    using assms(2) unat_u16_bound [of height] by (metis less_imp_le mult.commute mult_le_mono2)
  from changed_rows_spec [OF assms(1) this] show ?thesis by blast
qed

lemma popup_update_spec:
  fixes R :: "('s, 'n) delta_output"
  assumes "metadata_fits surface"
    and r_def: "r = popup_update R previous (take_cells surface)
      (map_option (\<lambda>popup. fr_cells (pop_frame popup)) (sf_popup surface)) full_size"
  shows "r \<noteq> None \<and> (\<forall>update. r = Some (Inr (Some update)) \<longrightarrow>
    popup_delta (sf_popup previous) (sf_popup surface) update \<and> update_limits (sf_popup (take_cells surface)) update)"
proof (cases "sf_popup surface")
  case None
  then show ?thesis by (simp add: r_def popup_update_def popup_delta_def update_limits_def)
next
  case (Some p)
  let ?f = "pop_frame p" and ?p = "p\<lparr>pop_frame := set_cells [] (pop_frame p)\<rparr>"
  have n: "length (fr_cells ?f) = unat (fr_width ?f) * unat (fr_height ?f)" and g: "grid_fits (fr_width ?f) (fr_height ?f)"
    using assms(1) Some by (auto simp: metadata_fits_iff surface_limits_def frame_limits_def)
  show ?thesis
  proof (cases "\<exists>q. sf_popup previous = Some q \<and> same_popup_grid q ?p (fr_cells ?f)")
    case False
    then have "r = Some (Inr (Some (Some (Replace (fr_cells ?f)))))"
      using Some by (auto simp: r_def popup_update_def split: option.splits)
    with Some n g show ?thesis by (simp add: popup_delta_def update_limits_def)
  next
    case True
    then obtain q where q: "sf_popup previous = Some q" "same_popup_grid q p (fr_cells ?f)"
      by (auto simp: same_popup_grid_def)
    let ?c = "changed_rows (out_size_span R) (out_encoded_len R) (fr_cells (pop_frame q)) (fr_cells ?f) (fr_width ?f) full_size"
    have len: "length (fr_cells (pop_frame q)) = length (fr_cells ?f)"
      using q(2) by (simp add: same_popup_grid_def)
    obtain c where c: "?c = Some c" using changed_rows_no_panic [OF len n] by blast
    have rows: "apply_rows (fr_cells (pop_frame q)) (fr_width ?f) rows = Some (fr_cells ?f) \<and>
        rows_limits (fr_width ?f) (fr_height ?f) rows" if "c = Inr (Some rows)" for rows
      using changed_rows_limits [OF _ len n] c that by blast
    have r: "r = (case c of Inl e \<Rightarrow> Some (Inl e) | Inr None \<Rightarrow> Some (Inr None)
        | Inr (Some rows) \<Rightarrow> Some (Inr (Some (Some (Patch rows)))))"
      using Some q c True by (auto simp: r_def popup_update_def same_popup_grid_def split: sum.splits option.splits)
    then show ?thesis
      using Some q g rows by (auto simp: popup_delta_def update_limits_def split: sum.splits option.splits)
  qed
qed

text \<open>The closure that encodes: it does not panic, and any bytes are those of a delta that
  stands for the surface and is within the decoder's limits.\<close>

lemma delta_encoded_spec:
  fixes R :: "('s, 'n) delta_output"
  assumes "delta_eligible previous surface"
    and r_def: "r = delta_encoded R previous (take_cells surface) (fr_cells (sf_frame surface))
      (map_option (\<lambda>popup. fr_cells (pop_frame popup)) (sf_popup surface)) limit full_size"
  shows "r \<noteq> None \<and> (\<forall>bytes. r = Some (Inr (Some bytes)) \<longrightarrow>
    (\<exists>delta. stands_for previous delta surface \<and> delta_limits delta \<and>
       encode_delta R limit full_size delta = Inr (Some bytes)))"
proof -
  let ?w = "fr_width (sf_frame surface)" and ?h = "fr_height (sf_frame surface)"
  have fits: "metadata_fits surface" and n: "length (fr_cells (sf_frame surface)) = unat ?w * unat ?h"
    and len: "length (fr_cells (sf_frame previous)) = length (fr_cells (sf_frame surface))"
    using assms(1) by (auto simp: delta_eligible_def metadata_fits_iff)
  let ?c = "changed_rows (out_size_span R) (out_encoded_len R) (fr_cells (sf_frame previous))
      (fr_cells (sf_frame surface)) ?w full_size"
  let ?u = "popup_update R previous (take_cells surface)
      (map_option (\<lambda>popup. fr_cells (pop_frame popup)) (sf_popup surface)) full_size"
  have u: "?u \<noteq> None" "\<And>update. ?u = Some (Inr (Some update)) \<Longrightarrow>
      popup_delta (sf_popup previous) (sf_popup surface) update \<and> update_limits (sf_popup (take_cells surface)) update"
    using popup_update_spec [OF fits refl] by blast+
  have c: "?c \<noteq> None" "\<And>rows. ?c = Some (Inr (Some rows)) \<Longrightarrow>
      apply_rows (fr_cells (sf_frame previous)) ?w rows = Some (fr_cells (sf_frame surface)) \<and> rows_limits ?w ?h rows"
    using changed_rows_no_panic [OF len n] changed_rows_limits [OF _ len n] by fastforce+
  have "r \<noteq> None"
    using u(1) c(1) by (auto simp: r_def delta_encoded_def split: option.splits sum.splits)
  moreover have "\<exists>delta. stands_for previous delta surface \<and> delta_limits delta \<and>
       encode_delta R limit full_size delta = Inr (Some bytes)" if "r = Some (Inr (Some bytes))" for bytes
  proof -
    from that obtain rows update where ru: "?c = Some (Inr (Some rows))" "?u = Some (Inr (Some update))"
      and e: "encode_delta R limit full_size \<lparr>base_projection_revision = sf_projection_revision previous,
          base_surface_revision = sf_surface_revision previous, delta_surface = take_cells surface,
          delta_rows = rows, popup_cells = update\<rparr> = Inr (Some bytes)" (is "encode_delta R limit full_size ?d = _")
      by (auto simp: r_def delta_encoded_def split: option.splits sum.splits)
    have "stands_for previous ?d surface \<and> delta_limits ?d"
      using u(2) [OF ru(2)] c(2) [OF ru(1)] fits by (simp add: stands_for_def delta_limits_def metadata_fits_iff)
    with e show ?thesis by blast
  qed
  ultimately show ?thesis by blast
qed

text \<open>The whole sender: no panic, the frame is left as it was, and a message carries a delta
  within the decoder's limits that stands for the frame.\<close>

lemma delta_message_total: "\<exists>r. delta_message R previous full = Some (r, full)"
proof (cases full)
  case (PaneSurface surface)
  have "delta_encoded R previous (take_cells surface) (fr_cells (sf_frame surface))
      (map_option (\<lambda>popup. fr_cells (pop_frame popup)) (sf_popup surface)) limit full_size \<noteq> None"
    if "delta_eligible previous surface" for limit full_size
    using delta_encoded_spec [OF that refl] by blast
  with PaneSurface show ?thesis
    by (cases "delta_eligible previous surface")
      (auto simp: delta_message_def Let_def restore_take simp del: not_None_eq split: sum.splits option.splits)
qed (simp_all add: delta_message_def)

lemma delta_message_sends:
  assumes "delta_message R previous full = Some (Inr (Some msg), full')"
  obtains surface delta bytes sz limit full_size where "full = PaneSurface surface"
    "delta_eligible previous surface" "stands_for previous delta surface" "delta_limits delta"
    "encode_delta R limit full_size delta = Inr (Some bytes)"
    "msg = EndpointControl delta_MESSAGE_KIND (out_base64 R bytes)"
    "out_size_message R msg = Inr sz" "out_size_message R full = Inr full_size" "sz < full_size"
    "sz \<le> limit" "limit = delta_limit (sf_graphics surface)"
proof (cases full)
  case (PaneSurface surface)
  let ?limit = "delta_limit (sf_graphics surface)"
  from assms PaneSurface obtain full_size bytes sz where m: "delta_eligible previous surface"
      "out_size_message R full = Inr full_size"
      "delta_encoded R previous (take_cells surface) (fr_cells (sf_frame surface))
        (map_option (\<lambda>popup. fr_cells (pop_frame popup)) (sf_popup surface)) ?limit full_size = Some (Inr (Some bytes))"
      "msg = EndpointControl delta_MESSAGE_KIND (out_base64 R bytes)" "out_size_message R msg = Inr sz"
      "sz < full_size" "sz \<le> ?limit"
    by (auto simp: delta_message_def Let_def split: if_splits sum.splits option.splits)
  with delta_encoded_spec [OF m(1) refl] that [OF PaneSurface] show thesis by metis
qed (use assms in \<open>simp_all add: delta_message_def\<close>)

text \<open>The sender's check mirrors the decoder: a frame passes it iff its metadata without
  cells is within the decoder's limits and both its grids have exactly as many cells as their
  dimensions say.\<close>

theorem metadata_fits_mirrors_decoder:
  "metadata_fits surface \<longleftrightarrow> surface_limits (take_cells surface) \<and>
     length (fr_cells (sf_frame surface)) = unat (fr_width (sf_frame surface)) * unat (fr_height (sf_frame surface)) \<and>
     (case sf_popup surface of None \<Rightarrow> True
      | Some p \<Rightarrow> length (fr_cells (pop_frame p)) = unat (fr_width (pop_frame p)) * unat (fr_height (pop_frame p)))"
  by (rule metadata_fits_iff)

end
