(* ===== verification/Surface_Scroll.thy ===== *)
theory Surface_Scroll
  imports Surface_Grid "HOL-Library.Multiset"
begin

text \<open>
  Scroll-aware patches of a pane surface (\<open>herdr/src/protocol/surface_scroll.rs\<close>), the
  receiver: a scroll reorders the rows of one region by a sequence of row swaps that both
  peers derive; \<open>apply\<close> validates, scrolls, overlays the patch rows and expands the result to
  an ordinary patch. An \<open>i16\<close> is a 16-bit word read with \<open>sint\<close>.
\<close>

section \<open>Scrolls\<close>

type_synonym i16 = "16 word"

definition scroll_MESSAGE_KIND :: string where "scroll_MESSAGE_KIND = ''endpoint.surface-scroll.v1''"
definition MAX_SCROLLS :: nat where "MAX_SCROLLS = 64"
definition SCROLL_BYTES :: nat where "SCROLL_BYTES = 10"

record SurfaceScroll =
  scroll_rect :: SurfaceRect
  scroll_shift :: i16

record ScrollPatch =
  sp_scrolls :: "SurfaceScroll list"
  sp_patch :: PaneSurfacePatch

definition unsigned_abs :: "i16 \<Rightarrow> nat" where
  "unsigned_abs shift = nat \<bar>sint shift\<bar>"

text \<open>The swaps \<open>for_each_swap\<close> performs, in order. Its callers have \<open>distance < height\<close>.\<close>

definition for_each_swap :: "nat \<Rightarrow> i16 \<Rightarrow> (nat \<times> nat) list" where
  "for_each_swap height shift =
     (let distance = unsigned_abs shift in
      if sint shift > 0 then map (\<lambda>y. (y, y + distance)) [0..<height - distance]
      else map (\<lambda>y. (y, y - distance)) (rev [distance..<height]))"

definition scroll_fits :: "SurfaceScroll \<Rightarrow> u16 \<Rightarrow> u16 \<Rightarrow> bool" where
  "scroll_fits scroll width height \<longleftrightarrow>
     (let rect = scroll_rect scroll in
      sr_width rect > 0 \<and> sr_height rect \<ge> 2 \<and> scroll_shift scroll \<noteq> 0 \<and>
      unsigned_abs (scroll_shift scroll) < unat (sr_height rect) \<and>
      (case checked_add (sr_x rect) (sr_width rect) of None \<Rightarrow> False | Some e \<Rightarrow> e \<le> width) \<and>
      (case checked_add (sr_y rect) (sr_height rect) of None \<Rightarrow> False | Some e \<Rightarrow> e \<le> height))"

definition rects_overlap :: "SurfaceRect \<Rightarrow> SurfaceRect \<Rightarrow> bool" where
  "rects_overlap a b \<longleftrightarrow>
     sr_x a < sr_x b + sr_width b \<and> sr_x b < sr_x a + sr_width a \<and>
     sr_y a < sr_y b + sr_height b \<and> sr_y b < sr_y a + sr_height a"

fun scrolls_disjoint :: "SurfaceScroll list \<Rightarrow> bool" where
  "scrolls_disjoint [] \<longleftrightarrow> True"
| "scrolls_disjoint (scroll # scrolls) \<longleftrightarrow>
     (\<forall>other \<in> set scrolls. \<not> rects_overlap (scroll_rect scroll) (scroll_rect other)) \<and>
     scrolls_disjoint scrolls"

definition row_fits :: "PaneSurfacePatchRow \<Rightarrow> u16 \<Rightarrow> u16 \<Rightarrow> bool" where
  "row_fits row width height \<longleftrightarrow>
     row_y row < height \<and> unat (row_x row) + length (row_cells row) \<le> unat width"

text \<open>\<open>slice::swap\<close> panics out of range.\<close>

fun swap_all :: "(nat \<times> nat) list \<Rightarrow> 'a list \<Rightarrow> 'a list option" where
  "swap_all [] xs = Some xs"
| "swap_all ((a, b) # swaps) xs =
     (if a < length xs \<and> b < length xs then swap_all swaps (xs[a := xs ! b, b := xs ! a]) else None)"

definition scroll_row_start :: "SurfaceRect \<Rightarrow> nat \<Rightarrow> nat \<Rightarrow> nat" where
  "scroll_row_start rect stride y = (unat (sr_y rect) + y) * stride + unat (sr_x rect)"

definition apply_scroll :: "CellData list \<Rightarrow> u16 \<Rightarrow> SurfaceScroll \<Rightarrow> CellData list option" where
  "apply_scroll cells width scroll =
     (let rect = scroll_rect scroll; stride = unat width in
      swap_all (concat (map (\<lambda>(a, b).
          map (\<lambda>x. (scroll_row_start rect stride a + x, scroll_row_start rect stride b + x))
            [0..<unat (sr_width rect)])
        (for_each_swap (unat (sr_height rect)) (scroll_shift scroll)))) cells)"

fun apply_scrolls :: "CellData list \<Rightarrow> u16 \<Rightarrow> SurfaceScroll list \<Rightarrow> CellData list option" where
  "apply_scrolls cells width [] = Some cells"
| "apply_scrolls cells width (scroll # scrolls) =
     (case apply_scroll cells width scroll of
        None \<Rightarrow> None
      | Some cells' \<Rightarrow> apply_scrolls cells' width scrolls)"

section \<open>The expanded patch\<close>

definition row_in_rect :: "u16 \<Rightarrow> SurfaceRect \<Rightarrow> bool" where
  "row_in_rect y rect \<longleftrightarrow> y \<ge> sr_y rect \<and> y - sr_y rect < sr_height rect"

text \<open>The loop over the covered columns, from left to right.\<close>

fun outside_loop :: "PaneSurfacePatchRow \<Rightarrow> nat \<Rightarrow> (nat \<times> nat) list \<Rightarrow> nat \<Rightarrow> PaneSurfacePatchRow list" where
  "outside_loop row e [] cursor = []"
| "outside_loop row e ((left, right) # covered) cursor =
     (let start = unat (row_x row);
          span_end = max cursor (min left e) in
      (if span_end > cursor
       then [\<lparr>row_x = of_nat cursor, row_y = row_y row,
              row_cells = slice (cursor - start) (span_end - cursor) (row_cells row)\<rparr>]
       else []) @ outside_loop row e covered (max cursor (min right e)))"

definition outside_scrolls :: "PaneSurfacePatchRow \<Rightarrow> SurfaceScroll list \<Rightarrow> PaneSurfacePatchRow list" where
  "outside_scrolls row scrolls =
     (let start = unat (row_x row);
          covered = map (\<lambda>rect. (unat (sr_x rect), unat (sr_x rect) + unat (sr_width rect)))
            (filter (row_in_rect (row_y row)) (map scroll_rect scrolls)) in
      if covered = [] then [row]
      else let e = start + length (row_cells row) in
           outside_loop row e (sort covered @ [(e, e)]) start)"

definition scrolled_rows :: "CellData list \<Rightarrow> u16 \<Rightarrow> SurfaceScroll \<Rightarrow> PaneSurfacePatchRow list" where
  "scrolled_rows cells width scroll =
     (let rect = scroll_rect scroll in
      map (\<lambda>y. \<lparr>row_x = sr_x rect, row_y = of_nat y,
                row_cells = slice (y * unat width + unat (sr_x rect)) (unat (sr_width rect)) cells\<rparr>)
        [unat (sr_y rect)..<unat (sr_y rect + sr_height rect)])"

definition apply_patch :: "CellData list \<Rightarrow> u16 \<Rightarrow> u16 \<Rightarrow> ScrollPatch \<Rightarrow>
    ((string + PaneSurfacePatch) \<times> CellData list) option" where
  "apply_patch cells width height scroll_patch =
     (let scrolls = sp_scrolls scroll_patch; patch = sp_patch scroll_patch in
      if length cells \<noteq> unat width * unat height
      then Some (Inl ''surface scroll baseline has an invalid grid'', cells)
      else if \<not> (\<forall>scroll \<in> set scrolls. scroll_fits scroll width height) \<or> \<not> scrolls_disjoint scrolls \<or>
              \<not> (\<forall>row \<in> set (patch_rows patch). row_fits row width height)
      then Some (Inl ''surface scroll exceeds the cell baseline'', cells)
      else case apply_scrolls cells width scrolls of
             None \<Rightarrow> None
           | Some cells1 \<Rightarrow>
               (case apply_rows cells1 width (patch_rows patch) of
                  None \<Rightarrow> None
                | Some cells2 \<Rightarrow>
                    Some (Inr (patch\<lparr>patch_rows :=
                        concat (map (\<lambda>row. outside_scrolls row scrolls) (patch_rows patch)) @
                        concat (map (scrolled_rows cells2 width) scrolls)\<rparr>), cells2)))"

section \<open>Decoding\<close>

definition value_at :: "u8 list \<Rightarrow> nat \<Rightarrow> u16" where
  "value_at chunk k = from_le16 (chunk ! k) (chunk ! (k + 1))"

definition decode_scroll_chunk :: "u8 list \<Rightarrow> SurfaceScroll" where
  "decode_scroll_chunk chunk =
     \<lparr>scroll_rect = \<lparr>sr_x = value_at chunk 0, sr_y = value_at chunk 2, sr_width = value_at chunk 4,
        sr_height = value_at chunk 6\<rparr>,
      scroll_shift = value_at chunk 8\<rparr>"

definition scroll_decode :: "(nat \<Rightarrow> nat option) \<Rightarrow> (string \<Rightarrow> string + u8 list) \<Rightarrow>
    (u8 list \<Rightarrow> string + ('s, 'n) ServerMessage \<times> nat) \<Rightarrow> string \<Rightarrow> string + ScrollPatch" where
  "scroll_decode encoded_len base64_decode decode_from_slice data =
     (let limit = (case encoded_len MAX_FRAME_SIZE of None \<Rightarrow> 18446744073709551615 | Some n \<Rightarrow> n) in
      if length data > limit then Inl ''surface scroll exceeds the frame limit''
      else case base64_decode data of
        Inl e \<Rightarrow> Inl (''invalid surface scroll: '' @ e)
      | Inr bytes \<Rightarrow>
          (if bytes = [] then Inl ''empty surface scroll''
           else let count = unat (hd bytes); header = 1 + count * SCROLL_BYTES in
             if count = 0 \<or> count > MAX_SCROLLS then Inl ''surface scroll has an invalid scroll count''
             else if length bytes < header then Inl ''surface scroll is truncated''
             else let scrolls = map decode_scroll_chunk (chunks SCROLL_BYTES (slice 1 (header - 1) bytes));
                      (decoded, frame) = read_message decode_from_slice
                        \<lparr>rd_bytes = drop header bytes, rd_error = None\<rparr> MAX_FRAME_SIZE in
                  if rd_bytes frame \<noteq> [] then Inl ''surface scroll has trailing bytes''
                  else case decoded of
                         Inr (PatchMsg patch) \<Rightarrow> Inr \<lparr>sp_scrolls = scrolls, sp_patch = patch\<rparr>
                       | Inr _ \<Rightarrow> Inl ''surface scroll does not carry a pane patch''
                       | Inl error \<Rightarrow> Inl (''invalid surface scroll patch: '' @ framing_error_display error)))"

section \<open>Swaps\<close>

lemma swap_all_append: "swap_all (s @ t) xs = Option.bind (swap_all s xs) (swap_all t)"
  by (induction s xs rule: swap_all.induct) auto

lemma swap_all_mset: "swap_all s xs = Some ys \<Longrightarrow> mset ys = mset xs"
proof (induction s xs rule: swap_all.induct)
  case (2 a b swaps xs)
  then have "a < length xs" "b < length xs" "mset ys = mset (xs[a := xs ! b, b := xs ! a])"
    by (auto split: if_splits)
  then show ?case by (simp add: mset_swap)
qed simp

text \<open>Swapping two disjoint blocks cell by cell.\<close>

lemma swap_block:
  assumes "a + n \<le> length xs" "b + n \<le> length xs" "a + n \<le> b \<or> b + n \<le> a"
  shows "\<exists>ys. swap_all (map (\<lambda>x. (a + x, b + x)) [0..<n]) xs = Some ys \<and> length ys = length xs \<and>
    (\<forall>i < length xs. ys ! i = (if a \<le> i \<and> i < a + n then xs ! (b + (i - a))
       else if b \<le> i \<and> i < b + n then xs ! (a + (i - b)) else xs ! i))"
  using assms
proof (induction n)
  case 0
  then show ?case by auto
next
  case (Suc n)
  then obtain ys where ys: "swap_all (map (\<lambda>x. (a + x, b + x)) [0..<n]) xs = Some ys" "length ys = length xs"
    "\<forall>i < length xs. ys ! i = (if a \<le> i \<and> i < a + n then xs ! (b + (i - a))
       else if b \<le> i \<and> i < b + n then xs ! (a + (i - b)) else xs ! i)" by auto
  let ?zs = "ys[a + n := ys ! (b + n), b + n := ys ! (a + n)]"
  have "swap_all (map (\<lambda>x. (a + x, b + x)) [0..<Suc n]) xs = Some ?zs"
    using ys(1,2) Suc.prems by (simp add: swap_all_append)
  moreover have same: "ys ! (a + n) = xs ! (a + n)" "ys ! (b + n) = xs ! (b + n)"
    using ys(3) Suc.prems by (simp_all, linarith+)
  have "?zs ! i = (if a \<le> i \<and> i < a + Suc n then xs ! (b + (i - a))
       else if b \<le> i \<and> i < b + Suc n then xs ! (a + (i - b)) else xs ! i)" if "i < length xs" for i
  proof -
    consider "i = a + n" | "i = b + n" "i \<noteq> a + n" | "i \<noteq> a + n" "i \<noteq> b + n" by blast
    then show ?thesis
    proof cases
      case 1
      moreover have "b \<noteq> a" using Suc.prems(3) by auto
      ultimately show ?thesis using ys(2) Suc.prems(1) by (simp add: same)
    next
      case 2
      moreover from 2 have "\<not> (a \<le> i \<and> i < a + Suc n)" using Suc.prems(3) by auto
      then have "(if a \<le> i \<and> i < a + Suc n then xs ! (b + (i - a))
          else if b \<le> i \<and> i < b + Suc n then xs ! (a + (i - b)) else xs ! i) = xs ! (a + n)"
        using 2 by auto
      ultimately show ?thesis using ys(2) Suc.prems(2) by (simp only: same) simp
    next
      case 3
      then have "?zs ! i = ys ! i" by simp
      with 3 ys(3) that show ?thesis by (simp add: less_Suc_eq)
    qed
  qed
  ultimately show ?case using ys(2) by simp
qed

section \<open>A scrolled region\<close>

definition in_rect :: "u16 \<Rightarrow> SurfaceRect \<Rightarrow> nat \<Rightarrow> bool" where
  "in_rect width rect i \<longleftrightarrow>
     unat (sr_y rect) \<le> i div unat width \<and> i div unat width < unat (sr_y rect) + unat (sr_height rect) \<and>
     unat (sr_x rect) \<le> i mod unat width \<and> i mod unat width < unat (sr_x rect) + unat (sr_width rect)"

text \<open>A rectangle inside a grid of \<open>n\<close> cells.\<close>

definition rect_inside :: "u16 \<Rightarrow> nat \<Rightarrow> SurfaceRect \<Rightarrow> bool" where
  "rect_inside width n rect \<longleftrightarrow> 0 < unat width \<and>
     unat (sr_x rect) + unat (sr_width rect) \<le> unat width \<and>
     (unat (sr_y rect) + unat (sr_height rect)) * unat width \<le> n"

lemma scroll_fits_inside:
  "scroll_fits scroll width height \<Longrightarrow> rect_inside width (unat width * unat height) (scroll_rect scroll)"
  by (auto simp: scroll_fits_def rect_inside_def Let_def checked_add_def word_le_nat_alt word_less_nat_alt
      unat_add_u16 mult.commute split: if_splits)

lemma cell_in_rect:
  assumes "rect_inside width n rect" "y < unat (sr_height rect)" "x < unat (sr_width rect)"
  shows "scroll_row_start rect (unat width) y + x < n"
    and "(scroll_row_start rect (unat width) y + x) div unat width = unat (sr_y rect) + y"
    and "(scroll_row_start rect (unat width) y + x) mod unat width = unat (sr_x rect) + x"
proof -
  let ?w = "unat width"
  have c: "unat (sr_x rect) + x < ?w" using assms by (auto simp: rect_inside_def)
  have e: "scroll_row_start rect ?w y + x = (unat (sr_y rect) + y) * ?w + (unat (sr_x rect) + x)"
    by (simp add: scroll_row_start_def)
  have "Suc (unat (sr_y rect) + y) * ?w \<le> (unat (sr_y rect) + unat (sr_height rect)) * ?w"
    using assms(2) by (intro mult_le_mono1) simp
  then show "scroll_row_start rect ?w y + x < n"
    using c assms(1) unfolding e by (simp add: rect_inside_def)
  show "(scroll_row_start rect ?w y + x) div ?w = unat (sr_y rect) + y"
    "(scroll_row_start rect ?w y + x) mod ?w = unat (sr_x rect) + x"
    using c unfolding e by auto
qed

lemma in_rect_cell:
  assumes "in_rect width rect i"
  shows "\<exists>y x. y < unat (sr_height rect) \<and> x < unat (sr_width rect) \<and> i = scroll_row_start rect (unat width) y + x"
proof -
  let ?y = "i div unat width - unat (sr_y rect)" and ?x = "i mod unat width - unat (sr_x rect)"
  have "i = (unat (sr_y rect) + ?y) * unat width + (unat (sr_x rect) + ?x)"
    using assms by (simp add: in_rect_def)
  with assms show ?thesis
    by (intro exI [of _ ?y] exI [of _ ?x]) (auto simp: in_rect_def scroll_row_start_def)
qed

text \<open>Cells reordered by rows: row \<open>y\<close> of the region holds the old row \<open>order ! y\<close>.\<close>

definition reordered :: "u16 \<Rightarrow> SurfaceRect \<Rightarrow> nat list \<Rightarrow> CellData list \<Rightarrow> CellData list \<Rightarrow> bool" where
  "reordered width rect order old new \<longleftrightarrow> length new = length old \<and>
     (\<forall>y < unat (sr_height rect). \<forall>x < unat (sr_width rect).
        new ! (scroll_row_start rect (unat width) y + x) = old ! (scroll_row_start rect (unat width) (order ! y) + x)) \<and>
     (\<forall>i < length old. \<not> in_rect width rect i \<longrightarrow> new ! i = old ! i)"

lemma region_row:
  assumes "rect_inside width n rect" "y < unat (sr_height rect)"
  shows "scroll_row_start rect (unat width) y + unat (sr_width rect) \<le> (unat (sr_y rect) + y + 1) * unat width"
    and "(unat (sr_y rect) + y + 1) * unat width \<le> n"
proof -
  show "scroll_row_start rect (unat width) y + unat (sr_width rect) \<le> (unat (sr_y rect) + y + 1) * unat width"
    using assms by (simp add: rect_inside_def scroll_row_start_def)
  have "(unat (sr_y rect) + y + 1) * unat width \<le> (unat (sr_y rect) + unat (sr_height rect)) * unat width"
    using assms(2) by (intro mult_le_mono1) simp
  with assms(1) show "(unat (sr_y rect) + y + 1) * unat width \<le> n" by (simp add: rect_inside_def)
qed

lemma region_rows_apart:
  assumes "rect_inside width n rect" "a < unat (sr_height rect)" "a < b"
  shows "scroll_row_start rect (unat width) a + unat (sr_width rect) \<le> scroll_row_start rect (unat width) b"
proof -
  have "(unat (sr_y rect) + a + 1) * unat width \<le> (unat (sr_y rect) + b) * unat width"
    using assms(3) by (intro mult_le_mono1) simp
  with region_row(1) [OF assms(1,2)] show ?thesis
    by (simp add: scroll_row_start_def [of _ _ b])
qed

lemma region_row_unique:
  assumes "rect_inside width n rect" "y < unat (sr_height rect)" "x < unat (sr_width rect)" "a < unat (sr_height rect)"
  shows "(scroll_row_start rect (unat width) a \<le> scroll_row_start rect (unat width) y + x \<and>
      scroll_row_start rect (unat width) y + x < scroll_row_start rect (unat width) a + unat (sr_width rect)) \<longleftrightarrow> y = a"
  using assms region_rows_apart [OF assms(1,2), of a] region_rows_apart [OF assms(1,4), of y]
  by (cases y a rule: linorder_cases) auto

lemma outside_rect_row:
  assumes "rect_inside width n rect" "\<not> in_rect width rect i" "a < unat (sr_height rect)"
  shows "\<not> (scroll_row_start rect (unat width) a \<le> i \<and> i < scroll_row_start rect (unat width) a + unat (sr_width rect))"
proof
  assume i: "scroll_row_start rect (unat width) a \<le> i \<and> i < scroll_row_start rect (unat width) a + unat (sr_width rect)"
  then have "i - scroll_row_start rect (unat width) a < unat (sr_width rect)" by auto
  from cell_in_rect [OF assms(1,3) this] i assms(2,3) this show False by (auto simp: in_rect_def)
qed

lemma reordered_swap_rows:
  assumes "reordered width rect order old new" "rect_inside width (length old) rect"
    and "a < unat (sr_height rect)" "b < unat (sr_height rect)" "a \<noteq> b" "length order = unat (sr_height rect)"
  shows "\<exists>new'. swap_all (map (\<lambda>x. (scroll_row_start rect (unat width) a + x, scroll_row_start rect (unat width) b + x))
      [0..<unat (sr_width rect)]) new = Some new' \<and>
    reordered width rect (order[a := order ! b, b := order ! a]) old new'"
proof -
  let ?rs = "scroll_row_start rect (unat width)" and ?w = "unat (sr_width rect)"
  note inside = assms(2)
  have len: "length new = length old" using assms(1) by (simp add: reordered_def)
  have fit: "?rs a + ?w \<le> length new" "?rs b + ?w \<le> length new"
    using region_row [OF inside assms(3)] region_row [OF inside assms(4)] len by linarith+
  have apart: "?rs a + ?w \<le> ?rs b \<or> ?rs b + ?w \<le> ?rs a"
    using region_rows_apart [OF inside] assms(3-5) by (metis linorder_neqE_nat)
  obtain new' where n: "swap_all (map (\<lambda>x. (?rs a + x, ?rs b + x)) [0..<?w]) new = Some new'"
      "length new' = length new"
      "\<forall>i < length new. new' ! i = (if ?rs a \<le> i \<and> i < ?rs a + ?w then new ! (?rs b + (i - ?rs a))
       else if ?rs b \<le> i \<and> i < ?rs b + ?w then new ! (?rs a + (i - ?rs b)) else new ! i)"
    using swap_block [OF fit apart] by blast
  have "new' ! (?rs y + x) = old ! (?rs (order[a := order ! b, b := order ! a] ! y) + x)"
    if yx: "y < unat (sr_height rect)" "x < ?w" for y x
  proof -
    have "new' ! (?rs y + x) = new ! (?rs (if y = a then b else if y = b then a else y) + x)"
      using n(3) cell_in_rect(1) [OF inside yx] len region_row_unique [OF inside yx assms(3)]
        region_row_unique [OF inside yx assms(4)] by auto
    with assms(1,3,4,6) yx show ?thesis by (auto simp: reordered_def nth_list_update)
  qed
  moreover have "new' ! i = old ! i" if "i < length old" "\<not> in_rect width rect i" for i
    using n(3) that len outside_rect_row [OF inside that(2)] assms(1,3,4) by (auto simp: reordered_def)
  ultimately show ?thesis using n(1,2) len by (auto simp: reordered_def)
qed

lemma reordered_swaps:
  assumes "reordered width rect order old new" "rect_inside width (length old) rect"
    and "\<forall>(a, b) \<in> set swaps. a < unat (sr_height rect) \<and> b < unat (sr_height rect) \<and> a \<noteq> b"
    and "length order = unat (sr_height rect)"
  shows "\<exists>new' order'. swap_all (concat (map (\<lambda>(a, b).
        map (\<lambda>x. (scroll_row_start rect (unat width) a + x, scroll_row_start rect (unat width) b + x))
          [0..<unat (sr_width rect)]) swaps)) new = Some new' \<and>
    swap_all swaps order = Some order' \<and> reordered width rect order' old new'"
  using assms
proof (induction swaps arbitrary: order new)
  case Nil
  then show ?case by simp
next
  case (Cons s swaps)
  obtain a b where s: "s = (a, b)" by fastforce
  from Cons.prems s obtain new1 where "swap_all (map (\<lambda>x. (scroll_row_start rect (unat width) a + x,
        scroll_row_start rect (unat width) b + x)) [0..<unat (sr_width rect)]) new = Some new1"
      "reordered width rect (order[a := order ! b, b := order ! a]) old new1"
    using reordered_swap_rows [of width rect order old new a b] by auto
  with Cons.IH [of "order[a := order ! b, b := order ! a]" new1] Cons.prems s show ?case
    by (auto simp: swap_all_append)
qed

section \<open>The order of the rows after a scroll\<close>

lemma swaps_up:
  assumes "k + d \<le> h" "0 < d"
  shows "\<exists>order. swap_all (map (\<lambda>y. (y, y + d)) [0..<k]) [0..<h] = Some order \<and> length order = h \<and>
    (\<forall>y < k. order ! y = y + d) \<and> (\<forall>y. k + d \<le> y \<and> y < h \<longrightarrow> order ! y = y)"
  using assms
proof (induction k)
  case 0
  then show ?case by simp
next
  case (Suc k)
  then obtain order where "swap_all (map (\<lambda>y. (y, y + d)) [0..<k]) [0..<h] = Some order" "length order = h"
    "\<forall>y < k. order ! y = y + d" "\<forall>y. k + d \<le> y \<and> y < h \<longrightarrow> order ! y = y" by auto
  with Suc.prems show ?case
    by (auto simp: swap_all_append nth_list_update less_Suc_eq)
qed

lemma swaps_down:
  assumes "k \<le> h" "d \<le> k" "0 < d"
  shows "\<exists>order. swap_all (map (\<lambda>y. (y, y - d)) (rev [k..<h])) [0..<h] = Some order \<and> length order = h \<and>
    (\<forall>y. k \<le> y \<and> y < h \<longrightarrow> order ! y = y - d) \<and> (\<forall>y < k - d. order ! y = y)"
  using assms
proof (induction "h - k" arbitrary: k)
  case 0
  then show ?case by simp
next
  case (Suc n)
  then have "\<exists>order. swap_all (map (\<lambda>y. (y, y - d)) (rev [Suc k..<h])) [0..<h] = Some order \<and> length order = h \<and>
    (\<forall>y. Suc k \<le> y \<and> y < h \<longrightarrow> order ! y = y - d) \<and> (\<forall>y < Suc k - d. order ! y = y)"
    by (intro Suc.hyps) auto
  then obtain order where o: "swap_all (map (\<lambda>y. (y, y - d)) (rev [Suc k..<h])) [0..<h] = Some order" "length order = h"
    "\<forall>y. Suc k \<le> y \<and> y < h \<longrightarrow> order ! y = y - d" "\<forall>y < Suc k - d. order ! y = y" by auto
  have "[k..<h] = k # [Suc k..<h]" using Suc by (simp add: upt_conv_Cons)
  moreover have "k < h" "k - d < h" using Suc(2-4) by auto
  ultimately have "swap_all (map (\<lambda>y. (y, y - d)) (rev [k..<h])) [0..<h] =
      Some (order[k := order ! (k - d), k - d := order ! k])"
    using o(1,2) by (simp add: swap_all_append)
  moreover have "\<forall>y. k \<le> y \<and> y < h \<longrightarrow> order[k := order ! (k - d), k - d := order ! k] ! y = y - d"
  proof (intro allI impI)
    fix y
    assume y: "k \<le> y \<and> y < h"
    have "k - d \<noteq> y" using y Suc.prems by linarith
    moreover have "order ! (k - d) = k - d" using o(4) Suc.prems by simp
    ultimately show "order[k := order ! (k - d), k - d := order ! k] ! y = y - d"
      using y o(2,3) by (cases "y = k") (auto simp: nth_list_update)
  qed
  moreover have "\<forall>y < k - d. order[k := order ! (k - d), k - d := order ! k] ! y = y"
    using o(4) by (auto simp: nth_list_update)
  ultimately show ?case using o(2) by simp
qed

lemma sint_nonzero: "shift \<noteq> 0 \<Longrightarrow> sint (shift :: i16) \<noteq> 0"
  by (metis signed_0 signed_word_eqI)

text \<open>The order has every row that stays at its new place: row \<open>y\<close> shows the old row
  \<open>y + shift\<close>.\<close>

lemma scroll_order:
  assumes "shift \<noteq> 0" "unsigned_abs shift < h"
  shows "\<exists>order. swap_all (for_each_swap h shift) [0..<h] = Some order \<and> length order = h \<and>
    (\<forall>y z. y < h \<and> z < h \<and> int z = int y + sint shift \<longrightarrow> order ! y = z)"
proof -
  define d where "d = unsigned_abs shift"
  have d: "0 < d" "int d = \<bar>sint shift\<bar>" using sint_nonzero [OF assms(1)] by (auto simp: d_def unsigned_abs_def)
  show ?thesis
  proof (cases "sint shift > 0")
    case True
    with d have shift: "sint shift = int d" by simp
    from swaps_up [of "h - d" d h] d(1) assms(2) obtain order where
        "swap_all (map (\<lambda>y. (y, y + d)) [0..<h - d]) [0..<h] = Some order" "length order = h"
        "\<forall>y < h - d. order ! y = y + d"
      by (auto simp: d_def [symmetric])
    with True show ?thesis by (auto simp: for_each_swap_def Let_def d_def [symmetric] shift)
  next
    case False
    with d have shift: "sint shift = - int d" by simp
    from swaps_down [of d h d] d(1) assms(2) obtain order where
        "swap_all (map (\<lambda>y. (y, y - d)) (rev [d..<h])) [0..<h] = Some order" "length order = h"
        "\<forall>y. d \<le> y \<and> y < h \<longrightarrow> order ! y = y - d"
      by (auto simp: d_def [symmetric])
    with False show ?thesis by (force simp: for_each_swap_def Let_def d_def [symmetric] shift)
  qed
qed

lemma for_each_swap_range:
  assumes "shift \<noteq> 0" "unsigned_abs shift < h"
  shows "\<forall>(a, b) \<in> set (for_each_swap h shift). a < h \<and> b < h \<and> a \<noteq> b"
proof -
  have "0 < unsigned_abs shift" using sint_nonzero [OF assms(1)] by (simp add: unsigned_abs_def)
  with assms(2) show ?thesis by (auto simp: for_each_swap_def Let_def)
qed

lemma apply_scroll_reordered:
  assumes "scroll_fits scroll width height" "length cells = unat width * unat height"
  shows "\<exists>cells' order. apply_scroll cells width scroll = Some cells' \<and>
    swap_all (for_each_swap (unat (sr_height (scroll_rect scroll))) (scroll_shift scroll))
      [0..<unat (sr_height (scroll_rect scroll))] = Some order \<and>
    reordered width (scroll_rect scroll) order cells cells'"
proof -
  have "scroll_shift scroll \<noteq> 0" "unsigned_abs (scroll_shift scroll) < unat (sr_height (scroll_rect scroll))"
    using assms(1) by (auto simp: scroll_fits_def Let_def)
  note range = for_each_swap_range [OF this]
  have "reordered width (scroll_rect scroll) [0..<unat (sr_height (scroll_rect scroll))] cells cells"
    by (simp add: reordered_def)
  from reordered_swaps [OF this _ range] scroll_fits_inside [OF assms(1)] assms(2)
  show ?thesis by (auto simp: apply_scroll_def Let_def)
qed

text \<open>A scroll that fits is applied without a panic and loses no cell; every row whose source
  \<open>y + shift\<close> is inside the region shows that source row, and nothing outside the region
  changes.\<close>

theorem apply_scroll_shifts:
  assumes "scroll_fits scroll width height" "length cells = unat width * unat height"
  shows "\<exists>cells'. apply_scroll cells width scroll = Some cells' \<and> mset cells' = mset cells \<and>
    (\<forall>y z x. y < unat (sr_height (scroll_rect scroll)) \<and> z < unat (sr_height (scroll_rect scroll)) \<and>
       int z = int y + sint (scroll_shift scroll) \<and> x < unat (sr_width (scroll_rect scroll)) \<longrightarrow>
       cells' ! (scroll_row_start (scroll_rect scroll) (unat width) y + x) =
       cells ! (scroll_row_start (scroll_rect scroll) (unat width) z + x)) \<and>
    (\<forall>i < length cells. \<not> in_rect width (scroll_rect scroll) i \<longrightarrow> cells' ! i = cells ! i)"
proof -
  let ?h = "unat (sr_height (scroll_rect scroll))"
  obtain cells' order where r: "apply_scroll cells width scroll = Some cells'"
      "swap_all (for_each_swap ?h (scroll_shift scroll)) [0..<?h] = Some order"
      "reordered width (scroll_rect scroll) order cells cells'"
    using apply_scroll_reordered [OF assms] by blast
  have "scroll_shift scroll \<noteq> 0" "unsigned_abs (scroll_shift scroll) < ?h"
    using assms(1) by (auto simp: scroll_fits_def Let_def)
  from scroll_order [OF this] r(2) have o: "order ! y = z"
    if "y < ?h" "z < ?h" "int z = int y + sint (scroll_shift scroll)" for y z
    using that by auto
  have "mset cells' = mset cells"
    using r(1) by (auto simp: apply_scroll_def Let_def dest: swap_all_mset)
  with r(1,3) o show ?thesis by (auto simp: reordered_def)
qed

definition letter_grid :: "string \<Rightarrow> CellData list" where
  "letter_grid = map (\<lambda>c. blank_cell [c])"

theorem apply_scroll_shifts_witness:
  "\<exists>cells'. apply_scroll (letter_grid ''abcdefgh'') 2 \<lparr>scroll_rect = \<lparr>sr_x = 0, sr_y = 0, sr_width = 2, sr_height = 4\<rparr>,
     scroll_shift = 1\<rparr> = Some cells' \<and> mset cells' = mset (letter_grid ''abcdefgh'') \<and> cells' ! 0 = blank_cell ''c''"
proof -
  let ?scroll = "\<lparr>scroll_rect = \<lparr>sr_x = 0, sr_y = 0, sr_width = 2, sr_height = 4\<rparr>, scroll_shift = (1 :: i16)\<rparr>"
  have "scroll_fits ?scroll 2 4" "length (letter_grid ''abcdefgh'') = unat (2 :: u16) * unat (4 :: u16)"
    by (simp_all add: scroll_fits_def Let_def unsigned_abs_def checked_add_def letter_grid_def)
  from apply_scroll_shifts [OF this] obtain cells' where
      c: "apply_scroll (letter_grid ''abcdefgh'') 2 ?scroll = Some cells'" "mset cells' = mset (letter_grid ''abcdefgh'')"
    and r: "\<And>y z x. y < 4 \<and> z < 4 \<and> int z = int y + 1 \<and> x < 2 \<Longrightarrow>
       cells' ! (scroll_row_start (scroll_rect ?scroll) 2 y + x) =
       letter_grid ''abcdefgh'' ! (scroll_row_start (scroll_rect ?scroll) 2 z + x)"
    by auto
  from r [of 0 1 0] have "cells' ! 0 = blank_cell ''c''"
    by (simp add: scroll_row_start_def letter_grid_def numeral_eq_Suc)
  with c show ?thesis by blast
qed

end
