(* ===== verification/Surface_Scroll_Apply.thy ===== *)
theory Surface_Scroll_Apply
  imports Surface_Scroll
begin

text \<open>
  Correctness of \<open>apply\<close> of \<open>herdr/src/protocol/surface_scroll.rs\<close>: it never panics, leaves the
  grid alone when it refuses a message, and the ordinary patch it returns does to the old grid
  what the scrolls and rows did.
\<close>

section \<open>Several scrolls\<close>

definition order_of :: "SurfaceScroll \<Rightarrow> nat list" where
  "order_of scroll = (case swap_all (for_each_swap (unat (sr_height (scroll_rect scroll))) (scroll_shift scroll))
      [0..<unat (sr_height (scroll_rect scroll))] of None \<Rightarrow> [] | Some order \<Rightarrow> order)"

lemma apply_scroll_order:
  assumes "scroll_fits scroll width height" "length cells = unat width * unat height"
  shows "\<exists>cells'. apply_scroll cells width scroll = Some cells' \<and>
    reordered width (scroll_rect scroll) (order_of scroll) cells cells'"
  using apply_scroll_reordered [OF assms] by (auto simp: order_of_def)

lemma order_of_range:
  assumes "scroll_fits scroll width height" "y < unat (sr_height (scroll_rect scroll))"
  shows "order_of scroll ! y < unat (sr_height (scroll_rect scroll))"
proof -
  let ?h = "unat (sr_height (scroll_rect scroll))"
  have "scroll_shift scroll \<noteq> 0" "unsigned_abs (scroll_shift scroll) < ?h"
    using assms(1) by (auto simp: scroll_fits_def Let_def)
  from scroll_order [OF this] obtain order where
      o: "swap_all (for_each_swap ?h (scroll_shift scroll)) [0..<?h] = Some order" "length order = ?h"
    by blast
  have "set order = set [0..<?h]" using swap_all_mset [OF o(1)] by (metis set_mset_mset)
  with o assms(2) show ?thesis
    by (metis (no_types, lifting) atLeastLessThan_iff nth_mem option.simps(5) order_of_def set_upt)
qed

lemma rect_inside_u16:
  assumes "rect_inside width (unat width * unat (height :: u16)) rect"
  shows "unat (sr_x rect) + unat (sr_width rect) < 65536" "unat (sr_y rect) + unat (sr_height rect) \<le> unat height"
    "unat (sr_y rect) + unat (sr_height rect) < 65536"
proof -
  have a: "(unat (sr_y rect) + unat (sr_height rect)) * unat width \<le> unat height * unat width" "0 < unat width"
    "unat (sr_x rect) + unat (sr_width rect) \<le> unat width"
    using assms by (auto simp: rect_inside_def mult.commute)
  show "unat (sr_x rect) + unat (sr_width rect) < 65536" using a(3) unat_u16_bound [of width] by linarith
  show h: "unat (sr_y rect) + unat (sr_height rect) \<le> unat height" using a(1,2) by simp
  show "unat (sr_y rect) + unat (sr_height rect) < 65536" using h unat_u16_bound [of height] by linarith
qed

lemma rects_apart:
  assumes "rect_inside width n a" "rect_inside width n b" "n = unat width * unat (height :: u16)"
    and "\<not> rects_overlap a b"
  shows "\<not> (in_rect width a i \<and> in_rect width b i)"
proof
  assume i: "in_rect width a i \<and> in_rect width b i"
  have "unat (sr_x r + sr_width r) = unat (sr_x r) + unat (sr_width r) \<and>
      unat (sr_y r + sr_height r) = unat (sr_y r) + unat (sr_height r)" if "rect_inside width n r" for r
    using rect_inside_u16 [of width height r] that assms(3) by (simp add: unat_add_u16)
  from this [OF assms(1)] this [OF assms(2)] i assms(4) show False
    unfolding rects_overlap_def in_rect_def word_less_nat_alt by linarith
qed

text \<open>All scrolls at once: each region is reordered, everything else is as before.\<close>

definition scrolled :: "u16 \<Rightarrow> SurfaceScroll list \<Rightarrow> CellData list \<Rightarrow> CellData list \<Rightarrow> bool" where
  "scrolled width scrolls old new \<longleftrightarrow> length new = length old \<and>
     (\<forall>scroll \<in> set scrolls. \<forall>y < unat (sr_height (scroll_rect scroll)). \<forall>x < unat (sr_width (scroll_rect scroll)).
        new ! (scroll_row_start (scroll_rect scroll) (unat width) y + x) =
        old ! (scroll_row_start (scroll_rect scroll) (unat width) (order_of scroll ! y) + x)) \<and>
     (\<forall>i < length old. (\<forall>scroll \<in> set scrolls. \<not> in_rect width (scroll_rect scroll) i) \<longrightarrow> new ! i = old ! i)"

lemma cell_in_rect_in:
  assumes "rect_inside width n rect" "y < unat (sr_height rect)" "x < unat (sr_width rect)"
  shows "in_rect width rect (scroll_row_start rect (unat width) y + x)"
  using cell_in_rect [OF assms] assms by (simp add: in_rect_def)

lemma apply_scrolls_scrolled:
  assumes "\<forall>scroll \<in> set scrolls. scroll_fits scroll width height" "scrolls_disjoint scrolls"
    and "length cells = unat width * unat height"
  shows "\<exists>cells'. apply_scrolls cells width scrolls = Some cells' \<and> scrolled width scrolls cells cells'"
  using assms
proof (induction scrolls arbitrary: cells)
  case Nil
  then show ?case by (simp add: scrolled_def)
next
  case (Cons scroll scrolls)
  let ?n = "unat width * unat height" and ?r = "scroll_rect scroll"
  from Cons.prems obtain cells1 where c1: "apply_scroll cells width scroll = Some cells1"
      "reordered width ?r (order_of scroll) cells cells1"
    using apply_scroll_order [of scroll width height cells] by auto
  then have len1: "length cells1 = ?n" using Cons.prems by (simp add: reordered_def)
  have "\<exists>cells2. apply_scrolls cells1 width scrolls = Some cells2 \<and> scrolled width scrolls cells1 cells2"
    using Cons.prems len1 by (intro Cons.IH) auto
  then obtain cells2 where c2: "apply_scrolls cells1 width scrolls = Some cells2"
      "scrolled width scrolls cells1 cells2" by blast
  have inside: "rect_inside width ?n (scroll_rect s)" if "s \<in> set (scroll # scrolls)" for s
    using Cons.prems(1) that by (blast intro: scroll_fits_inside)
  have apart: "\<not> (in_rect width ?r i \<and> in_rect width (scroll_rect s) i)" if "s \<in> set scrolls" for s i
    using rects_apart [OF inside inside refl] Cons.prems(2) that by auto
  have first: "cells2 ! (scroll_row_start ?r (unat width) y + x) =
      cells ! (scroll_row_start ?r (unat width) (order_of scroll ! y) + x)"
    if yx: "y < unat (sr_height ?r)" "x < unat (sr_width ?r)" for y x
  proof -
    let ?i = "scroll_row_start ?r (unat width) y + x"
    have "in_rect width ?r ?i" "?i < length cells1"
      using cell_in_rect_in [OF inside yx] cell_in_rect(1) [OF inside yx] len1 by simp_all
    with apart c2(2) have "cells2 ! ?i = cells1 ! ?i" unfolding scrolled_def by blast
    with c1(2) yx show ?thesis by (simp add: reordered_def)
  qed
  moreover have "cells2 ! (scroll_row_start (scroll_rect s) (unat width) y + x) =
      cells ! (scroll_row_start (scroll_rect s) (unat width) (order_of s ! y) + x)"
    if s: "s \<in> set scrolls" and yx: "y < unat (sr_height (scroll_rect s))" "x < unat (sr_width (scroll_rect s))" for s y x
  proof -
    let ?j = "scroll_row_start (scroll_rect s) (unat width) (order_of s ! y) + x"
    have o: "order_of s ! y < unat (sr_height (scroll_rect s))"
      using order_of_range [OF _ yx(1), of width height] Cons.prems(1) s by simp
    have "in_rect width (scroll_rect s) ?j" "?j < length cells"
      using cell_in_rect_in [OF inside o yx(2)] cell_in_rect(1) [OF inside o yx(2)] s Cons.prems(3) by simp_all
    with apart [OF s] c1(2) have "cells1 ! ?j = cells ! ?j" unfolding reordered_def by blast
    with c2(2) s yx show ?thesis by (simp add: scrolled_def)
  qed
  moreover have "cells2 ! i = cells ! i"
    if "i < length cells" "\<forall>s \<in> set (scroll # scrolls). \<not> in_rect width (scroll_rect s) i" for i
    using that c1(2) c2(2) by (simp add: scrolled_def reordered_def)
  ultimately show ?case
    using c1 c2 by (auto simp: scrolled_def reordered_def)
qed

section \<open>The expanded patch\<close>

text \<open>Column \<open>c\<close> of a grid row is painted by a row's spans as by the row itself, unless a region
  covers it.\<close>

definition row_value :: "u16 \<Rightarrow> PaneSurfacePatchRow \<Rightarrow> nat \<Rightarrow> nat \<Rightarrow> CellData \<Rightarrow> CellData" where
  "row_value width row cursor i c =
     (if i div unat width = unat (row_y row) \<and> cursor \<le> i mod unat width \<and>
         i mod unat width < unat (row_x row) + length (row_cells row)
      then row_cells row ! (i mod unat width - unat (row_x row)) else c)"

lemma row_span_covers:
  assumes "0 < unat width" "x + n \<le> unat width"
  shows "(y * unat width + x \<le> i \<and> i < y * unat width + x + n) \<longleftrightarrow>
    i div unat width = y \<and> x \<le> i mod unat width \<and> i mod unat width < x + n"
proof
  assume i: "y * unat width + x \<le> i \<and> i < y * unat width + x + n"
  then have "i = y * unat width + (i - y * unat width)" "i - y * unat width < unat width" using assms by auto
  then have "i div unat width = y" "i mod unat width = i - y * unat width"
    by (metis add.commute div_less div_mult_self1 add_0 less_nat_zero_code,
        metis add.commute mod_less mod_mult_self1)
  with i show "i div unat width = y \<and> x \<le> i mod unat width \<and> i mod unat width < x + n" by auto
next
  assume i: "i div unat width = y \<and> x \<le> i mod unat width \<and> i mod unat width < x + n"
  have "i = i div unat width * unat width + i mod unat width" by simp
  with i show "y * unat width + x \<le> i \<and> i < y * unat width + x + n" by (metis add.assoc nat_add_left_cancel_le nat_add_left_cancel_less)
qed

lemma row_covers:
  assumes "0 < unat width" "unat (row_x row) + length (row_cells row) \<le> unat width"
  shows "row_start width row \<le> i \<and> i < row_end width row \<longleftrightarrow>
    i div unat width = unat (row_y row) \<and> unat (row_x row) \<le> i mod unat width \<and>
    i mod unat width < unat (row_x row) + length (row_cells row)"
  using row_span_covers [OF assms, of "unat (row_y row)" i] by (simp add: row_start_def row_end_def)

lemma row_offset:
  assumes "i div unat width = unat (row_y row)"
  shows "i - row_start width row = i mod unat width - unat (row_x row)"
proof -
  have "i = unat (row_y row) * unat width + i mod unat width" using assms by (metis div_mult_mod_eq)
  then show ?thesis unfolding row_start_def by linarith
qed

lemma paint_row:
  assumes "0 < unat width" "unat (row_x row) + length (row_cells row) \<le> unat width"
  shows "paint width [row] i c = row_value width row (unat (row_x row)) i c"
  using row_covers [OF assms, of i] row_offset [of i width row] by (simp add: row_value_def)

text \<open>One span cut out of a row.\<close>

lemma paint_cut:
  assumes "0 < unat width" "unat (row_x row) \<le> a" "a < b" "b \<le> unat (row_x row) + length (row_cells row)"
    and "unat (row_x row) + length (row_cells row) \<le> unat width"
  defines "s \<equiv> \<lparr>row_x = of_nat a, row_y = row_y row,
    row_cells = slice (a - unat (row_x row)) (b - a) (row_cells row)\<rparr>"
  shows "paint width [s] i c = (if i div unat width = unat (row_y row) \<and> a \<le> i mod unat width \<and> i mod unat width < b
      then row_cells row ! (i mod unat width - unat (row_x row)) else c)"
    and "row_end width s \<le> row_end width row"
proof -
  have "a < 65536" using assms(3-5) unat_u16_bound [of width] by linarith
  then have a: "unat (of_nat a :: u16) = a" by (simp add: unat_of_nat)
  have s: "unat (row_x s) = a" "row_y s = row_y row" "length (row_cells s) = b - a"
    using assms(2-4) a by (simp_all add: s_def)
  have cells: "row_cells s ! k = row_cells row ! (a - unat (row_x row) + k)" if "k < b - a" for k
    using assms(2-4) that by (simp add: s_def)
  have "unat (row_x s) + length (row_cells s) \<le> unat width" using s assms by simp
  from paint_row [OF assms(1) this, of i c] s cells [of "i mod unat width - a"] assms(2,3)
  show "paint width [s] i c = (if i div unat width = unat (row_y row) \<and> a \<le> i mod unat width \<and> i mod unat width < b
      then row_cells row ! (i mod unat width - unat (row_x row)) else c)"
    by (auto simp: row_value_def)
  show "row_end width s \<le> row_end width row"
    using s assms(2-4) by (simp add: row_end_def row_start_def)
qed

lemma outside_loop_paint:
  fixes row :: PaneSurfacePatchRow
  assumes "0 < unat width" "unat (row_x row) + length (row_cells row) \<le> unat width"
    and "\<forall>(l, r) \<in> set covered. \<not> (l \<le> i mod unat width \<and> i mod unat width < r) \<or> i div unat width \<noteq> unat (row_y row)"
    and "unat (row_x row) \<le> cursor" "cursor \<le> e" "e = unat (row_x row) + length (row_cells row)"
  shows "paint width (outside_loop row e (covered @ [(e, e)]) cursor) i c = row_value width row cursor i c \<and>
    (\<forall>s \<in> set (outside_loop row e (covered @ [(e, e)]) cursor). row_end width s \<le> row_end width row)"
  using assms(3-5)
proof (induction covered arbitrary: cursor c)
  case Nil
  show ?case
  proof (cases "cursor < e")
    case True
    with paint_cut [OF assms(1) Nil(2) True _ assms(2)] assms(6) show ?thesis
      by (simp add: row_value_def Let_def)
  next
    case False
    with Nil(3) assms(6) show ?thesis by (auto simp: row_value_def Let_def)
  qed
next
  case (Cons lr covered)
  obtain l r where lr: "lr = (l, r)" by fastforce
  let ?next = "max cursor (min r e)" and ?m = "min l e"
  have ih: "paint width (outside_loop row e (covered @ [(e, e)]) ?next) i c = row_value width row ?next i c \<and>
    (\<forall>s \<in> set (outside_loop row e (covered @ [(e, e)]) ?next). row_end width s \<le> row_end width row)" for c
    using Cons.prems by (intro Cons.IH) auto
  have clear: "\<not> (l \<le> i mod unat width \<and> i mod unat width < r) \<or> i div unat width \<noteq> unat (row_y row)"
    using Cons.prems(1) lr by simp
  show ?case
  proof (cases "cursor < ?m")
    case True
    then have "max cursor ?m = ?m" by simp
    moreover have "?m \<le> unat (row_x row) + length (row_cells row)" using assms(6) by simp
    note cut = paint_cut [OF assms(1) Cons.prems(2) True this assms(2)]
    have "row_value width row ?next i (if i div unat width = unat (row_y row) \<and> cursor \<le> i mod unat width \<and>
        i mod unat width < ?m then row_cells row ! (i mod unat width - unat (row_x row)) else c) =
        row_value width row cursor i c"
      using True clear assms(6) by (auto simp: row_value_def)
    ultimately show ?thesis
      using True ih cut by (simp add: lr Let_def)
  next
    case False
    then have "max cursor ?m = cursor" by linarith
    with clear ih False assms(6) Cons.prems(3) show ?thesis by (auto simp: lr Let_def row_value_def)
  qed
qed

lemma outside_scrolls_paint:
  assumes "0 < unat width" "unat (row_x row) + length (row_cells row) \<le> unat width"
    and "\<forall>scroll \<in> set scrolls. \<not> in_rect width (scroll_rect scroll) i"
  shows "paint width (outside_scrolls row scrolls) i c = paint width [row] i c \<and>
    (\<forall>s \<in> set (outside_scrolls row scrolls). row_end width s \<le> row_end width row)"
proof -
  let ?rects = "filter (row_in_rect (row_y row)) (map scroll_rect scrolls)"
  let ?covered = "map (\<lambda>rect. (unat (sr_x rect), unat (sr_x rect) + unat (sr_width rect))) ?rects"
  have "\<not> (unat (sr_x r) \<le> i mod unat width \<and> i mod unat width < unat (sr_x r) + unat (sr_width r)) \<or>
      i div unat width \<noteq> unat (row_y row)" if "r \<in> set ?rects" for r
  proof -
    from that assms(3) have "\<not> in_rect width r i" and "row_in_rect (row_y row) r" by auto
    moreover from this(2) have "unat (sr_y r) \<le> unat (row_y row)" "unat (row_y row) < unat (sr_y r) + unat (sr_height r)"
      by (auto simp: row_in_rect_def word_le_nat_alt word_less_nat_alt unat_sub)
    ultimately show ?thesis by (auto simp: in_rect_def)
  qed
  then have "\<forall>(l, r) \<in> set (sort ?covered). \<not> (l \<le> i mod unat width \<and> i mod unat width < r) \<or>
      i div unat width \<noteq> unat (row_y row)" by auto
  from outside_loop_paint [OF assms(1,2) this order.refl _ refl, of c] paint_row [OF assms(1,2), of i c]
  show ?thesis by (simp add: outside_scrolls_def Let_def)
qed

lemma scrolled_row_bounds:
  assumes "scroll_fits scroll width height" "length cells = unat width * unat height"
    and "row \<in> set (scrolled_rows cells width scroll)"
  obtains y where "unat (sr_y (scroll_rect scroll)) \<le> y" "y < unat (sr_y (scroll_rect scroll)) + unat (sr_height (scroll_rect scroll))"
    "row_start width row = y * unat width + unat (sr_x (scroll_rect scroll))"
    "row_end width row = y * unat width + unat (sr_x (scroll_rect scroll)) + unat (sr_width (scroll_rect scroll))"
    "row_end width row \<le> length cells"
    "row_cells row = slice (row_start width row) (unat (sr_width (scroll_rect scroll))) cells"
proof -
  let ?r = "scroll_rect scroll"
  from assms(1) have h: "unat (sr_y ?r + sr_height ?r) = unat (sr_y ?r) + unat (sr_height ?r)"
    by (auto simp: scroll_fits_def Let_def checked_add_def unat_add_u16 split: if_splits)
  with assms(3) obtain y where y: "unat (sr_y ?r) \<le> y" "y < unat (sr_y ?r) + unat (sr_height ?r)"
    and row: "row = \<lparr>row_x = sr_x ?r, row_y = of_nat y, row_cells = slice (y * unat width + unat (sr_x ?r)) (unat (sr_width ?r)) cells\<rparr>"
    by (auto simp: scrolled_rows_def Let_def)
  have "y < 65536" using y(2) h unat_u16_bound [of "sr_y ?r + sr_height ?r"] by linarith
  then have start: "row_start width row = y * unat width + unat (sr_x ?r)"
    by (simp add: row row_start_def unat_of_nat)
  have inside: "rect_inside width (length cells) ?r" using scroll_fits_inside [OF assms(1)] assms(2) by simp
  obtain k where k: "y = unat (sr_y ?r) + k" "k < unat (sr_height ?r)" using y by (metis le_add_diff_inverse nat_add_left_cancel_less)
  from region_row [OF inside k(2)] have fit: "y * unat width + unat (sr_x ?r) + unat (sr_width ?r) \<le> length cells"
    unfolding scroll_row_start_def k(1) by linarith
  then have "length (row_cells row) = unat (sr_width ?r)" by (simp add: row)
  then have "row_end width row = y * unat width + unat (sr_x ?r) + unat (sr_width ?r)"
    by (simp add: row_end_def start)
  with fit start show thesis by (intro that [OF y]) (simp_all add: row)
qed

lemma scrolled_rows_spans:
  assumes "scroll_fits scroll width height" "length cells = unat width * unat height"
  shows "spans_of width cells (scrolled_rows cells width scroll)"
proof -
  have "row_end width row \<le> length cells \<and>
      row_cells row = slice (row_start width row) (length (row_cells row)) cells"
    if "row \<in> set (scrolled_rows cells width scroll)" for row
    using scrolled_row_bounds [OF assms that] by (metis add_left_cancel row_end_def add.assoc)
  then show ?thesis by (simp add: spans_of_def)
qed

lemma scrolled_rows_cover:
  assumes "scroll_fits scroll width height" "length cells = unat width * unat height"
  shows "covered_by width (scrolled_rows cells width scroll) i \<longleftrightarrow> in_rect width (scroll_rect scroll) i"
proof -
  let ?r = "scroll_rect scroll"
  have w: "0 < unat width" "unat (sr_x ?r) + unat (sr_width ?r) \<le> unat width"
    using scroll_fits_inside [OF assms(1)] by (auto simp: rect_inside_def)
  note cover = row_span_covers [OF w]
  from assms(1) have h: "unat (sr_y ?r + sr_height ?r) = unat (sr_y ?r) + unat (sr_height ?r)"
    by (auto simp: scroll_fits_def Let_def checked_add_def unat_add_u16 split: if_splits)
  show ?thesis
  proof
    assume "covered_by width (scrolled_rows cells width scroll) i"
    then obtain row where row: "row \<in> set (scrolled_rows cells width scroll)" "row_start width row \<le> i" "i < row_end width row"
      by (auto simp: covered_by_def)
    from scrolled_row_bounds [OF assms row(1)] row(2,3) cover show "in_rect width ?r i"
      unfolding in_rect_def by metis
  next
    assume i: "in_rect width ?r i"
    let ?y = "i div unat width"
    let ?row = "\<lparr>row_x = sr_x ?r, row_y = of_nat ?y, row_cells = slice (?y * unat width + unat (sr_x ?r)) (unat (sr_width ?r)) cells\<rparr>"
    have row: "?row \<in> set (scrolled_rows cells width scroll)"
      using i by (auto simp: scrolled_rows_def Let_def h in_rect_def)
    have "?y < 65536" using i h unat_u16_bound [of "sr_y ?r + sr_height ?r"] unfolding in_rect_def by linarith
    then have start: "row_start width ?row = ?y * unat width + unat (sr_x ?r)"
      by (simp add: row_start_def unat_of_nat)
    from scrolled_row_bounds [OF assms row] start
    have "row_end width ?row = ?y * unat width + unat (sr_x ?r) + unat (sr_width ?r)" by (metis add_right_cancel)
    with start i cover [of ?y i] row show "covered_by width (scrolled_rows cells width scroll) i"
      unfolding covered_by_def in_rect_def by metis
  qed
qed

lemma paint_outside:
  assumes "0 < unat width" "\<forall>row \<in> set rows. unat (row_x row) + length (row_cells row) \<le> unat width"
    and "\<forall>scroll \<in> set scrolls. \<not> in_rect width (scroll_rect scroll) i"
  shows "paint width (concat (map (\<lambda>row. outside_scrolls row scrolls) rows)) i c = paint width rows i c"
  using assms(2)
proof (induction rows arbitrary: c)
  case (Cons row rows)
  then have "paint width (outside_scrolls row scrolls) i c = paint width [row] i c"
    using outside_scrolls_paint [OF assms(1) _ assms(3)] by simp
  with Cons show ?case by simp
qed simp

text \<open>Whatever the region, the spans outside the scrolls stay inside their rows.\<close>

lemma outside_scrolls_inside:
  assumes "0 < unat width" "unat (row_x row) + length (row_cells row) \<le> unat width" "s \<in> set (outside_scrolls row scrolls)"
  shows "row_end width s \<le> row_end width row"
proof -
  let ?i = "(unat (row_y row) + 1) * unat width"
  have "?i div unat width \<noteq> unat (row_y row)" using assms(1) by simp
  then have "\<forall>(l, r) \<in> set covered. \<not> (l \<le> ?i mod unat width \<and> ?i mod unat width < r) \<or>
      ?i div unat width \<noteq> unat (row_y row)" for covered by blast
  from outside_loop_paint [OF assms(1,2) this order.refl _ refl] assms(3) show ?thesis
    by (auto simp: outside_scrolls_def Let_def split: if_splits)
qed

lemma row_fits_end: "row_fits row width height \<Longrightarrow> row_end width row \<le> unat width * unat height"
proof -
  assume fits: "row_fits row width height"
  then have "(unat (row_y row) + 1) * unat width \<le> unat height * unat width"
    by (intro mult_le_mono1) (simp add: row_fits_def word_less_nat_alt)
  with fits show ?thesis
    by (simp add: row_fits_def row_end_def row_start_def mult.commute [of "unat width" "unat height"])
qed

text \<open>The two parts of the expanded patch on the old grid.\<close>

lemma expanded_applies:
  assumes fits: "\<forall>scroll \<in> set scrolls. scroll_fits scroll width height" and ne: "scrolls \<noteq> []"
    and rows: "\<forall>row \<in> set rows. row_fits row width height"
    and len: "length cells = unat width * unat height"
    and sc: "scrolled width scrolls cells cells1" and ap: "apply_rows cells1 width rows = Some cells2"
  shows "apply_rows cells width (concat (map (\<lambda>row. outside_scrolls row scrolls) rows) @
    concat (map (scrolled_rows cells2 width) scrolls)) = Some cells2"
proof -
  let ?out = "concat (map (\<lambda>row. outside_scrolls row scrolls) rows)"
  let ?sc = "concat (map (scrolled_rows cells2 width) scrolls)"
  have lens: "length cells1 = length cells" "length cells2 = length cells"
    using sc apply_rows_length [OF ap] by (simp_all add: scrolled_def)
  obtain s where "s \<in> set scrolls" using ne by (cases scrolls) auto
  then have w: "0 < unat width" using fits scroll_fits_inside by (fastforce simp: rect_inside_def)
  have spans: "spans_of width cells2 ?sc"
    using scrolled_rows_spans [of _ width height cells2] fits lens len by (fastforce simp: spans_of_def)
  have cover: "covered_by width ?sc i \<longleftrightarrow> (\<exists>s \<in> set scrolls. in_rect width (scroll_rect s) i)" for i
    using scrolled_rows_cover [of _ width height cells2 i] fits lens len by (auto simp: covered_by_def)
  have outs: "row_end width s \<le> length cells" if "s \<in> set ?out" for s
    using that outside_scrolls_inside [OF w] row_fits_end rows len unfolding row_fits_def by fastforce
  have "\<forall>s \<in> set (?out @ ?sc). row_end width s \<le> length cells"
    using outs spans lens unfolding spans_of_def by (metis UnE set_append)
  then obtain cells3 where c3: "apply_rows cells width (?out @ ?sc) = Some cells3"
    using apply_rows_total by blast
  have "cells3 ! i = cells2 ! i" if i: "i < length cells" for i
  proof (cases "\<exists>s \<in> set scrolls. in_rect width (scroll_rect s) i")
    case True
    with apply_rows_paint [OF c3 i] paint_spans [OF spans] i lens cover [of i] show ?thesis by simp
  next
    case False
    have "cells3 ! i = paint width ?out i (cells ! i)"
      using apply_rows_paint [OF c3 i] paint_spans [OF spans] i lens cover [of i] False by simp
    also have "\<dots> = paint width rows i (cells1 ! i)"
      using paint_outside [OF w _ , of rows scrolls i] rows False sc i by (auto simp: row_fits_def scrolled_def)
    also have "\<dots> = cells2 ! i" using apply_rows_paint [OF ap] i lens by simp
    finally show ?thesis .
  qed
  then have "cells3 = cells2" using apply_rows_length [OF c3] lens by (auto intro: nth_equalityI)
  with c3 show ?thesis by simp
qed

lemma apply_patch_cases:
  "\<exists>result cells'. apply_patch cells width height sp = Some (result, cells') \<and>
    (\<forall>e. result = Inl e \<longrightarrow> cells' = cells) \<and>
    (\<forall>patch. result = Inr patch \<longrightarrow>
       apply_rows cells width (patch_rows patch) = Some cells' \<and>
       (\<exists>cells1. apply_scrolls cells width (sp_scrolls sp) = Some cells1 \<and>
          apply_rows cells1 width (patch_rows (sp_patch sp)) = Some cells') \<and>
       patch = (sp_patch sp)\<lparr>patch_rows := patch_rows patch\<rparr>)"
proof (cases "length cells = unat width * unat height \<and> (\<forall>scroll \<in> set (sp_scrolls sp). scroll_fits scroll width height) \<and>
    scrolls_disjoint (sp_scrolls sp) \<and> (\<forall>row \<in> set (patch_rows (sp_patch sp)). row_fits row width height)")
  case False
  then show ?thesis by (auto simp: apply_patch_def Let_def)
next
  case True
  let ?scrolls = "sp_scrolls sp" and ?rows = "patch_rows (sp_patch sp)"
  obtain cells1 where c1: "apply_scrolls cells width ?scrolls = Some cells1" "scrolled width ?scrolls cells cells1"
    using apply_scrolls_scrolled True by blast
  obtain cells2 where c2: "apply_rows cells1 width ?rows = Some cells2"
    using apply_rows_total [of ?rows width cells1] row_fits_end True c1(2) by (auto simp: scrolled_def)
  have "apply_rows cells width (concat (map (\<lambda>row. outside_scrolls row ?scrolls) ?rows) @
    concat (map (scrolled_rows cells2 width) ?scrolls)) = Some cells2"
  proof (cases "?scrolls = []")
    case none: True
    have "concat (map (\<lambda>row. [row]) ?rows) = ?rows" by (induction ?rows) auto
    with none c1 c2 show ?thesis by (simp add: outside_scrolls_def)
  next
    case False
    with expanded_applies [OF _ False _ _ c1(2) c2] True show ?thesis by blast
  qed
  with True c1(1) c2 show ?thesis by (auto simp: apply_patch_def Let_def)
qed

lemma apply_patch_applies:
  assumes "apply_patch cells width height sp = Some (Inr patch, cells')"
  shows "apply_rows cells width (patch_rows patch) = Some cells'"
    and "patch = (sp_patch sp)\<lparr>patch_rows := patch_rows patch\<rparr>"
  using apply_patch_cases [of cells width height sp] assms by auto

lemma apply_patch_rejects: "apply_patch cells width height sp = Some (Inl e, cells') \<Longrightarrow> cells' = cells"
  using apply_patch_cases [of cells width height sp] by auto

text \<open>\<open>apply\<close> never panics. It refuses a message without touching the grid, or it returns an
  ordinary patch that takes the old grid to exactly the grid the scrolls and the rows of the
  message produce, with every other field as in the message.\<close>

theorem apply_patch_expands:
  "\<exists>result cells'. apply_patch cells width height sp = Some (result, cells') \<and>
    (case result of
       Inl e \<Rightarrow> cells' = cells
     | Inr patch \<Rightarrow>
         apply_rows cells width (patch_rows patch) = Some cells' \<and>
         (\<exists>cells1. apply_scrolls cells width (sp_scrolls sp) = Some cells1 \<and>
            apply_rows cells1 width (patch_rows (sp_patch sp)) = Some cells') \<and>
         patch = (sp_patch sp)\<lparr>patch_rows := patch_rows patch\<rparr>)"
proof -
  obtain result cells' where r: "apply_patch cells width height sp = Some (result, cells')"
    using apply_patch_cases [of cells width height sp] by blast
  with apply_patch_cases [of cells width height sp] show ?thesis
    by (cases result) auto
qed

end
