(* ===== verification/Surface_Reuse.thy ===== *)
theory Surface_Reuse
  imports Surface_Delta Surface_Scroll_Apply
begin

text \<open>
  The surface codecs on a connection (\<open>herdr/src/protocol/surface_reuse.rs\<close>): the compact
  message that retains unchanged cells, and the client's \<open>Decoder\<close>, which keeps a baseline of
  the last grid and turns every codec back into ordinary messages. \<open>decode\<close> returns \<open>None\<close>
  when the code would panic, else the result and the decoder it leaves. JSON, base64 and
  \<open>bincode\<close> are the argument \<open>V\<close>.
\<close>

section \<open>The reuse message\<close>

definition reuse_MESSAGE_KIND :: string where "reuse_MESSAGE_KIND = ''endpoint.surface-reuse.v1''"

record SurfaceReuse =
  reuse_base_revision :: u64
  reuse_surface :: PaneSurfaceFrame

record ('snapshot, 'notification) reuse_output =
  to_json :: "SurfaceReuse \<Rightarrow> string + string"
  reuse_size :: "('snapshot, 'notification) ServerMessage \<Rightarrow> string + nat"

definition reuse_message :: "('s, 'n) reuse_output \<Rightarrow> u64 \<Rightarrow> PaneSurfaceFrame \<Rightarrow>
    (string + ('s, 'n) ServerMessage option) \<times> PaneSurfaceFrame" where
  "reuse_message J base_revision surface =
     (let cells = fr_cells (sf_frame surface);
          taken = surface\<lparr>sf_frame := set_cells [] (sf_frame surface)\<rparr>;
          data = to_json J \<lparr>reuse_base_revision = base_revision, reuse_surface = taken\<rparr>;
          surface = taken\<lparr>sf_frame := set_cells cells (sf_frame taken)\<rparr> in
      case data of
        Inl e \<Rightarrow> (Inl e, surface)
      | Inr data \<Rightarrow>
          (let message = EndpointControl reuse_MESSAGE_KIND data in
           case reuse_size J message of
             Inr n \<Rightarrow> (Inr (if n \<le> MAX_FRAME_SIZE then Some message else None), surface)
           | Inl _ \<Rightarrow> (Inr None, surface)))"

section \<open>The baseline\<close>

record PopupBaseline =
  pb_terminal_id :: string
  pb_width :: u16
  pb_height :: u16
  pb_cells :: "CellData list"

record CellBaseline =
  cb_boot_id :: string
  cb_projection_revision :: u64
  cb_surface_revision :: u64
  cb_width :: u16
  cb_height :: u16
  cb_cells :: "CellData list"
  cb_popup :: "PopupBaseline option"

definition default_baseline :: CellBaseline where
  "default_baseline = \<lparr>cb_boot_id = [], cb_projection_revision = 0, cb_surface_revision = 0,
     cb_width = 0, cb_height = 0, cb_cells = [], cb_popup = None\<rparr>"

definition matches_patch :: "CellBaseline \<Rightarrow> PaneSurfacePatch \<Rightarrow> bool" where
  "matches_patch base patch \<longleftrightarrow>
     patch_boot_id patch = cb_boot_id base \<and>
     patch_projection_revision patch = cb_projection_revision base \<and>
     patch_base_surface_revision patch = cb_surface_revision base \<and>
     patch_surface_revision patch = saturating_add (cb_surface_revision base) 1"

definition popup_baseline :: "PaneSurfaceFrame \<Rightarrow> PopupBaseline option" where
  "popup_baseline surface =
     map_option (\<lambda>popup. \<lparr>pb_terminal_id = pop_terminal_id popup, pb_width = fr_width (pop_frame popup),
       pb_height = fr_height (pop_frame popup), pb_cells = fr_cells (pop_frame popup)\<rparr>) (sf_popup surface)"

section \<open>The decoder\<close>

record Decoder =
  dec_baseline :: "CellBaseline option"
  dec_surface_delta :: bool
  dec_surface_scroll :: bool

definition new_decoder :: "bool \<Rightarrow> bool \<Rightarrow> Decoder" where
  "new_decoder delta scroll = \<lparr>dec_baseline = None, dec_surface_delta = delta, dec_surface_scroll = scroll\<rparr>"

record ('d, 'snapshot, 'notification) decoder_env =
  env_input :: "'d delta_input"
  env_prims :: "'d prims"
  env_encoded_len :: "nat \<Rightarrow> nat option"
  env_base64 :: "string \<Rightarrow> string + u8 list"
  env_bincode :: "u8 list \<Rightarrow> string + ('snapshot, 'notification) ServerMessage \<times> nat"
  env_from_json :: "string \<Rightarrow> string + SurfaceReuse"

definition set_baseline :: "CellBaseline \<Rightarrow> Decoder \<Rightarrow> Decoder" where
  "set_baseline base dec = dec\<lparr>dec_baseline := Some base\<rparr>"

definition bad_hyperlink :: "FrameData \<Rightarrow> bool" where
  "bad_hyperlink frame \<longleftrightarrow> (\<exists>cell \<in> set (fr_cells frame).
     case cell_hyperlink cell of None \<Rightarrow> False | Some index \<Rightarrow> unat index \<ge> length (fr_hyperlinks frame))"

definition invalid_links :: "PaneSurfaceFrame \<Rightarrow> bool" where
  "invalid_links surface \<longleftrightarrow> bad_hyperlink (sf_frame surface) \<or>
     (case sf_popup surface of None \<Rightarrow> False | Some popup \<Rightarrow> bad_hyperlink (pop_frame popup))"

text \<open>The popup part of \<open>decode_delta\<close>.\<close>

definition delta_popup :: "CellBaseline \<Rightarrow> ClientShellPopupSurface option \<Rightarrow> GridUpdate option \<Rightarrow>
    (string + ClientShellPopupSurface option) option" where
  "delta_popup base popup update =
     (case (popup, update) of
        (None, None) \<Rightarrow> Some (Inr None)
      | (Some popup, Some (Replace cells)) \<Rightarrow>
          Some (Inr (Some (popup\<lparr>pop_frame := set_cells cells (pop_frame popup)\<rparr>)))
      | (Some popup, Some (Patch rows)) \<Rightarrow>
          (let frame = pop_frame popup; n = unat (fr_width frame) * unat (fr_height frame) in
           case cb_popup base of
             None \<Rightarrow> Some (Inl ''popup delta does not match its baseline'')
           | Some previous \<Rightarrow>
               if \<not> (pb_terminal_id previous = pop_terminal_id popup \<and> pb_width previous = fr_width frame \<and>
                      pb_height previous = fr_height frame \<and> length (pb_cells previous) = n)
               then Some (Inl ''popup delta does not match its baseline'')
               else case apply_rows (pb_cells previous) (pb_width previous) rows of
                      None \<Rightarrow> None
                    | Some cells \<Rightarrow> Some (Inr (Some (popup\<lparr>pop_frame := set_cells cells frame\<rparr>))))
      | _ \<Rightarrow> Some (Inl ''popup delta is missing or unexpected''))"

definition delta_mismatch :: "CellBaseline \<Rightarrow> SurfaceDelta \<Rightarrow> bool" where
  "delta_mismatch base delta \<longleftrightarrow>
     sf_boot_id (delta_surface delta) \<noteq> cb_boot_id base \<or>
     base_projection_revision delta \<noteq> cb_projection_revision base \<or>
     base_surface_revision delta \<noteq> cb_surface_revision base \<or>
     sf_surface_revision (delta_surface delta) \<noteq> saturating_add (cb_surface_revision base) 1 \<or>
     sf_projection_revision (delta_surface delta) < cb_projection_revision base \<or>
     length (cb_cells base) \<noteq> unat (cb_width base) * unat (cb_height base)"

definition decode_delta :: "('d, 's, 'n) decoder_env \<Rightarrow> Decoder \<Rightarrow> string \<Rightarrow>
    ((string + PaneSurfaceFrame) \<times> Decoder) option" where
  "decode_delta V dec data =
     (case dec_baseline dec of
        None \<Rightarrow> Some (Inl ''surface delta without a baseline'', dec)
      | Some base \<Rightarrow>
          (case decode_for (env_input V) (env_prims V) data (cb_width base, cb_height base) of
             Inl e \<Rightarrow> Some (Inl e, dec)
           | Inr delta \<Rightarrow>
               if delta_mismatch base delta then Some (Inl ''surface delta does not match its baseline'', dec)
               else (case apply_rows (cb_cells base) (cb_width base) (delta_rows delta) of
                  None \<Rightarrow> None
                | Some cells \<Rightarrow>
                    (case delta_popup base (sf_popup (delta_surface delta)) (popup_cells delta) of
                       None \<Rightarrow> None
                     | Some (Inl e) \<Rightarrow> Some (Inl e, dec)
                     | Some (Inr popup) \<Rightarrow>
                         (let surface = (delta_surface delta)\<lparr>
                                sf_frame := set_cells cells (sf_frame (delta_surface delta)), sf_popup := popup\<rparr> in
                          if invalid_links surface
                          then Some (Inl ''surface delta has an invalid hyperlink index'', dec)
                          else Some (Inr surface, set_baseline (base\<lparr>cb_cells := cells, cb_popup := popup_baseline surface,
                                 cb_projection_revision := sf_projection_revision surface,
                                 cb_surface_revision := sf_surface_revision surface\<rparr>) dec))))))"

definition decode_scroll :: "('d, 's, 'n) decoder_env \<Rightarrow> Decoder \<Rightarrow> string \<Rightarrow>
    ((string + PaneSurfacePatch) \<times> Decoder) option" where
  "decode_scroll V dec data =
     (case dec_baseline dec of
        None \<Rightarrow> Some (Inl ''surface scroll without a baseline'', dec)
      | Some base \<Rightarrow>
          (case scroll_decode (env_encoded_len V) (env_base64 V) (env_bincode V) data of
             Inl e \<Rightarrow> Some (Inl e, dec)
           | Inr scroll \<Rightarrow>
               if \<not> matches_patch base (sp_patch scroll)
               then Some (Inl ''surface scroll does not match its baseline'', dec)
               else (case apply_patch (cb_cells base) (cb_width base) (cb_height base) scroll of
                  None \<Rightarrow> None
                | Some (Inl e, cells) \<Rightarrow> Some (Inl e, set_baseline (base\<lparr>cb_cells := cells\<rparr>) dec)
                | Some (Inr patch, cells) \<Rightarrow>
                    Some (Inr patch, set_baseline (base\<lparr>cb_cells := cells,
                      cb_surface_revision := patch_surface_revision patch\<rparr>) dec))))"

definition reuse_mismatch :: "CellBaseline \<Rightarrow> SurfaceReuse \<Rightarrow> bool" where
  "reuse_mismatch base reuse \<longleftrightarrow>
     cb_boot_id base \<noteq> sf_boot_id (reuse_surface reuse) \<or>
     cb_surface_revision base \<noteq> reuse_base_revision reuse \<or>
     sf_surface_revision (reuse_surface reuse) \<noteq> saturating_add (cb_surface_revision base) 1 \<or>
     cb_width base \<noteq> fr_width (sf_frame (reuse_surface reuse)) \<or>
     cb_height base \<noteq> fr_height (sf_frame (reuse_surface reuse)) \<or>
     fr_cells (sf_frame (reuse_surface reuse)) \<noteq> []"

definition decode_reuse :: "('d, 's, 'n) decoder_env \<Rightarrow> Decoder \<Rightarrow> string \<Rightarrow>
    (string + PaneSurfaceFrame) \<times> Decoder" where
  "decode_reuse V dec data =
     (case env_from_json V data of
        Inl e \<Rightarrow> (Inl (''invalid surface reuse: '' @ e), dec)
      | Inr reuse \<Rightarrow>
          (case dec_baseline dec of
             None \<Rightarrow> (Inl ''surface reuse without a baseline'', dec)
           | Some base \<Rightarrow>
               (let surface = reuse_surface reuse in
                if reuse_mismatch base reuse
                then (Inl ''surface reuse does not match its baseline'', dec)
                else let surface = surface\<lparr>sf_frame := set_cells (cb_cells base) (sf_frame surface)\<rparr>;
                         base = base\<lparr>cb_projection_revision := sf_projection_revision surface,
                           cb_surface_revision := sf_surface_revision surface\<rparr>;
                         base = (if dec_surface_delta dec then base\<lparr>cb_popup := popup_baseline surface\<rparr> else base) in
                     (Inr surface, set_baseline base dec))))"

definition store_surface :: "Decoder \<Rightarrow> PaneSurfaceFrame \<Rightarrow> Decoder" where
  "store_surface dec surface =
     (let base = (case dec_baseline dec of None \<Rightarrow> default_baseline | Some base \<Rightarrow> base);
          base = base\<lparr>cb_boot_id := sf_boot_id surface, cb_projection_revision := sf_projection_revision surface,
            cb_surface_revision := sf_surface_revision surface, cb_width := fr_width (sf_frame surface),
            cb_height := fr_height (sf_frame surface), cb_cells := fr_cells (sf_frame surface)\<rparr>;
          base = (if dec_surface_delta dec then base\<lparr>cb_popup := popup_baseline surface\<rparr> else base) in
      set_baseline base dec)"

text \<open>The loop over the rows of a plain patch: it stops at a row that does not fit, with the rows
  before it applied.\<close>

fun patch_loop :: "CellBaseline \<Rightarrow> PaneSurfacePatchRow list \<Rightarrow> string option \<times> CellBaseline" where
  "patch_loop base [] = (None, base)"
| "patch_loop base (row # rows) =
     (let start = row_start (cb_width base) row; e = start + length (row_cells row) in
      if row_y row \<ge> cb_height base \<or> unat (row_x row) + length (row_cells row) > unat (cb_width base) \<or>
         e > length (cb_cells base)
      then (Some ''surface patch exceeds the cell baseline'', base)
      else patch_loop (base\<lparr>cb_cells := splice (cb_cells base) start (row_cells row)\<rparr>) rows)"

definition store_patch :: "Decoder \<Rightarrow> PaneSurfacePatch \<Rightarrow> (string + unit) \<times> Decoder" where
  "store_patch dec patch =
     (case dec_baseline dec of
        None \<Rightarrow> (Inr (), dec)
      | Some base \<Rightarrow>
          if \<not> matches_patch base patch then (Inr (), dec\<lparr>dec_baseline := None\<rparr>)
          else (case patch_loop base (patch_rows patch) of
             (Some e, base) \<Rightarrow> (Inl e, set_baseline base dec)
           | (None, base) \<Rightarrow>
               (Inr (), set_baseline (base\<lparr>cb_surface_revision := patch_surface_revision patch\<rparr>) dec)))"

definition decode_message :: "('d, 's, 'n) decoder_env \<Rightarrow> Decoder \<Rightarrow> ('s, 'n) ServerMessage \<Rightarrow>
    ((string + ('s, 'n) ServerMessage) \<times> Decoder) option" where
  "decode_message V dec message =
     (case message of
        EndpointControl kind data \<Rightarrow>
          if kind = delta_MESSAGE_KIND then
            (if \<not> dec_surface_delta dec then Some (Inl ''surface delta was not negotiated'', dec)
             else map_option (map_prod (map_sum id PaneSurface) id) (decode_delta V dec data))
          else if kind = scroll_MESSAGE_KIND then
            (if \<not> dec_surface_scroll dec then Some (Inl ''surface scroll was not negotiated'', dec)
             else map_option (map_prod (map_sum id PatchMsg) id) (decode_scroll V dec data))
          else if kind = reuse_MESSAGE_KIND then
            Some (map_prod (map_sum id PaneSurface) id (decode_reuse V dec data))
          else Some (Inr message, dec)
      | PaneSurface surface \<Rightarrow> Some (Inr message, store_surface dec surface)
      | PatchMsg patch \<Rightarrow>
          (case store_patch dec patch of
             (Inl e, dec) \<Rightarrow> Some (Inl e, dec)
           | (Inr _, dec) \<Rightarrow> Some (Inr message, dec))
      | _ \<Rightarrow> Some (Inr message, dec))"

section \<open>No message can make the decoder panic\<close>

lemma rows_limits_apply:
  assumes "rows_limits width height rows" "length cells = unat width * unat height"
  shows "\<exists>cells'. apply_rows cells width rows = Some cells'"
proof -
  have "row_end width row \<le> unat width * unat height" if "row \<in> set rows" "sorted_spans width (unat width * unat height) p rows" for p row rows
    using that by (induction rows arbitrary: p) auto
  with assms show ?thesis by (intro apply_rows_total) (auto simp: rows_limits_def)
qed

lemma delta_popup_total:
  assumes "update_limits popup update"
  shows "\<exists>r. delta_popup base popup update = Some r"
proof -
  have "\<exists>cells'. apply_rows cells (fr_width (pop_frame p)) rows = Some cells'"
    if "popup = Some p" "update = Some (Patch rows)"
      "length cells = unat (fr_width (pop_frame p)) * unat (fr_height (pop_frame p))" for p rows cells
    using rows_limits_apply [OF _ that(3)] assms that by (simp add: update_limits_def)
  then show ?thesis
    by (fastforce simp: delta_popup_def Let_def split: option.split GridUpdate.split)
qed

text \<open>What every compact codec promises of the decoder it leaves.\<close>

definition refusal_keeps :: "Decoder \<Rightarrow> (string + 'a) \<times> Decoder \<Rightarrow> bool" where
  "refusal_keeps dec r \<longleftrightarrow> dec_surface_delta (snd r) = dec_surface_delta dec \<and>
     dec_surface_scroll (snd r) = dec_surface_scroll dec \<and> (\<forall>e. fst r = Inl e \<longrightarrow> snd r = dec)"

lemma refusal_keeps_simps [simp]:
  "refusal_keeps dec (Inl e, dec)"
  "refusal_keeps dec (Inr x, set_baseline base dec)"
  "refusal_keeps dec (Inr x, dec)"
  by (simp_all add: refusal_keeps_def set_baseline_def)

lemma decode_delta_total:
  assumes "read_spec (env_prims V)"
  shows "\<exists>r. decode_delta V dec data = Some r \<and> refusal_keeps dec r"
proof (cases "dec_baseline dec")
  case None
  then show ?thesis by (simp add: decode_delta_def)
next
  case (Some base)
  show ?thesis
  proof (cases "decode_for (env_input V) (env_prims V) data (cb_width base, cb_height base)")
    case (Inl e)
    with Some show ?thesis by (simp add: decode_delta_def)
  next
    case (Inr delta)
    from assms Inr have lim: "delta_limits delta" and dims: "fr_width (sf_frame (delta_surface delta)) = cb_width base"
      "fr_height (sf_frame (delta_surface delta)) = cb_height base"
      by (auto elim: decode_for_Inr)
    show ?thesis
    proof (cases "delta_mismatch base delta")
      case True
      with Some Inr show ?thesis by (simp add: decode_delta_def)
    next
      case False
      then have "length (cb_cells base) = unat (cb_width base) * unat (cb_height base)"
        by (simp add: delta_mismatch_def)
      with lim dims obtain cells where c: "apply_rows (cb_cells base) (cb_width base) (delta_rows delta) = Some cells"
        using rows_limits_apply [of "cb_width base" "cb_height base"] by (auto simp: delta_limits_def)
      obtain p where p: "delta_popup base (sf_popup (delta_surface delta)) (popup_cells delta) = Some p"
        using delta_popup_total lim unfolding delta_limits_def by blast
      show ?thesis
        using Some Inr False c p by (cases p) (simp_all add: decode_delta_def Let_def)
    qed
  qed
qed

lemma decode_scroll_total: "\<exists>r. decode_scroll V dec data = Some r \<and> refusal_keeps dec r"
proof (cases "dec_baseline dec")
  case None
  then show ?thesis by (simp add: decode_scroll_def)
next
  case (Some base)
  have same: "set_baseline (base\<lparr>cb_cells := cb_cells base\<rparr>) dec = dec"
    using Some by (simp add: set_baseline_def)
  show ?thesis
  proof (cases "scroll_decode (env_encoded_len V) (env_base64 V) (env_bincode V) data")
    case (Inl e)
    with Some show ?thesis by (simp add: decode_scroll_def)
  next
    case (Inr scroll)
    obtain r cells where "apply_patch (cb_cells base) (cb_width base) (cb_height base) scroll = Some (r, cells)"
      "\<And>e. r = Inl e \<Longrightarrow> cells = cb_cells base"
      using apply_patch_cases [of "cb_cells base" "cb_width base" "cb_height base" scroll] by blast
    with Some Inr same show ?thesis
      by (cases r; cases "matches_patch base (sp_patch scroll)") (simp_all add: decode_scroll_def)
  qed
qed

lemma decode_reuse_cases:
  obtains e where "decode_reuse V dec data = (Inl e, dec)"
  | reuse base surface where "env_from_json V data = Inr reuse" "dec_baseline dec = Some base" "\<not> reuse_mismatch base reuse"
    "surface = (reuse_surface reuse)\<lparr>sf_frame := set_cells (cb_cells base) (sf_frame (reuse_surface reuse))\<rparr>"
    "decode_reuse V dec data = (Inr surface, set_baseline (base\<lparr>cb_projection_revision := sf_projection_revision surface,
       cb_surface_revision := sf_surface_revision surface,
       cb_popup := if dec_surface_delta dec then popup_baseline surface else cb_popup base\<rparr>) dec)"
proof (cases "env_from_json V data")
  case (Inl e)
  with that(1) show thesis by (simp add: decode_reuse_def)
next
  case (Inr reuse)
  show thesis
  proof (cases "dec_baseline dec")
    case None
    with Inr that(1) show thesis by (simp add: decode_reuse_def)
  next
    case (Some base)
    show thesis
    proof (cases "reuse_mismatch base reuse")
      case True
      with Inr Some that(1) show thesis by (simp add: decode_reuse_def Let_def)
    next
      case False
      with that(2) [OF Inr Some False refl] Inr Some show thesis by (simp add: decode_reuse_def Let_def)
    qed
  qed
qed

lemma refusal_keeps_map: "refusal_keeps dec r \<Longrightarrow> refusal_keeps dec (map_prod (map_sum id f) id r)"
  by (cases r; cases "fst r") (auto simp: refusal_keeps_def)

lemma store_patch_flags:
  "dec_surface_delta (snd (store_patch dec patch)) = dec_surface_delta dec"
  "dec_surface_scroll (snd (store_patch dec patch)) = dec_surface_scroll dec"
  by (auto simp: store_patch_def set_baseline_def split: option.splits prod.splits)

text \<open>C24: whatever the server sends, the client's decoder does not panic; a delta, scroll or reuse
  message it refuses leaves the decoder exactly as it was, one that was not negotiated is
  refused, and what was negotiated never changes.\<close>

theorem decode_message_safe:
  assumes "read_spec (env_prims V)"
  shows "\<exists>r dec'. decode_message V dec message = Some (r, dec') \<and>
    dec_surface_delta dec' = dec_surface_delta dec \<and> dec_surface_scroll dec' = dec_surface_scroll dec \<and>
    (\<forall>kind data e. message = EndpointControl kind data \<and> r = Inl e \<longrightarrow> dec' = dec) \<and>
    (\<forall>data. message = EndpointControl delta_MESSAGE_KIND data \<and> \<not> dec_surface_delta dec \<longrightarrow>
       r = Inl ''surface delta was not negotiated'') \<and>
    (\<forall>data. message = EndpointControl scroll_MESSAGE_KIND data \<and> \<not> dec_surface_scroll dec \<longrightarrow>
       r = Inl ''surface scroll was not negotiated'')"
proof (cases "\<exists>kind data. message = EndpointControl kind data")
  case False
  have flags: "dec_surface_delta (store_surface dec s) = dec_surface_delta dec \<and>
      dec_surface_scroll (store_surface dec s) = dec_surface_scroll dec" for s
    by (simp add: store_surface_def Let_def set_baseline_def)
  have "\<exists>r dec'. decode_message V dec message = Some (r, dec') \<and>
      dec_surface_delta dec' = dec_surface_delta dec \<and> dec_surface_scroll dec' = dec_surface_scroll dec"
  proof (cases message)
    case (PatchMsg patch)
    then show ?thesis
      using store_patch_flags [of dec patch] by (cases "store_patch dec patch"; cases "fst (store_patch dec patch)")
        (auto simp: decode_message_def)
  qed (use False flags in \<open>auto simp: decode_message_def\<close>)
  with False show ?thesis by blast
next
  case True
  then obtain kind data where m: "message = EndpointControl kind data" by blast
  have kinds: "delta_MESSAGE_KIND \<noteq> scroll_MESSAGE_KIND"
    by (simp add: delta_MESSAGE_KIND_def scroll_MESSAGE_KIND_def)
  have reuse: "refusal_keeps dec (decode_reuse V dec data)"
    by (rule decode_reuse_cases [of V dec data]) auto
  obtain r1 r2 where "decode_delta V dec data = Some r1" "refusal_keeps dec r1"
      "decode_scroll V dec data = Some r2" "refusal_keeps dec r2"
    using decode_delta_total [OF assms] decode_scroll_total by metis
  with m reuse have "\<exists>r. decode_message V dec message = Some r \<and> refusal_keeps dec r"
    by (simp add: decode_message_def refusal_keeps_map del: split_paired_Ex)
  with m kinds show ?thesis by (auto simp: refusal_keeps_def decode_message_def)
qed

theorem decode_message_safe_witness:
  "\<exists>r dec'. decode_message \<lparr>env_input = zero_input, env_prims = zero_prims, env_encoded_len = Some,
      env_base64 = \<lambda>s. Inr [], env_bincode = \<lambda>b. Inl ''no'', env_from_json = \<lambda>s. Inl ''no''\<rparr>
      (new_decoder False True) (EndpointControl delta_MESSAGE_KIND ''x'' :: (unit, unit) ServerMessage) = Some (r, dec') \<and>
    r = Inl ''surface delta was not negotiated''"
proof -
  have "read_spec zero_prims" by (simp add: read_spec_def zero_prims_def)
  then show ?thesis
    using decode_message_safe [of "\<lparr>env_input = zero_input, env_prims = zero_prims, env_encoded_len = Some,
      env_base64 = \<lambda>s. Inr [], env_bincode = \<lambda>b. Inl ''no'', env_from_json = \<lambda>s. Inl ''no''\<rparr>" "new_decoder False True"
      "EndpointControl delta_MESSAGE_KIND ''x''"] by (fastforce simp: new_decoder_def)
qed

end
