(* ===== verification/Surface_Scroll_Message.thy ===== *)
theory Surface_Scroll_Message
  imports Surface_Scroll_Apply
begin

text \<open>
  The sender of scroll-aware patches (\<open>herdr/src/protocol/surface_scroll.rs\<close>): row hashes nominate
  a shift for each pane, the residual rows carry what still differs after it, and \<open>message\<close>
  packs scrolls and residual patch. The theorems end with the whole way from a patch to the
  receiver's grid. Slices of the committed grid are taken only for regions that \<open>scroll_fits\<close>
  has placed inside it (\<open>committed_row_inside\<close>).
\<close>

section \<open>Row views and hashes\<close>

record RowView =
  rv_base :: "CellData list"
  rv_left :: nat
  rv_spans :: "PaneSurfacePatchRow list"

fun span_cell :: "nat \<Rightarrow> PaneSurfacePatchRow list \<Rightarrow> CellData option" where
  "span_cell column [] = None"
| "span_cell column (s # spans) =
     (let start = unat (row_x s) in
      if column \<ge> start \<and> column < start + length (row_cells s)
      then Some (row_cells s ! (column - start))
      else span_cell column spans)"

definition view_cell :: "RowView \<Rightarrow> nat \<Rightarrow> CellData" where
  "view_cell view x =
     (let column = rv_left view + x in
      case span_cell column (rev (rv_spans view)) of Some cell \<Rightarrow> cell | None \<Rightarrow> rv_base view ! x)"

definition mix :: "u64 \<Rightarrow> u64 \<Rightarrow> u64" where
  "mix hash val = (word_rotl 5 hash XOR val) * 0x517cc1b727220a95"

definition cell_hash :: "u64 \<Rightarrow> CellData \<Rightarrow> u64" where
  "cell_hash hash cell =
     (let hash = fold (\<lambda>byte hash. mix hash (of_nat (of_char byte))) (cell_symbol cell) hash;
          hash = mix hash (push_bit 32 (ucast (cell_fg cell)) OR ucast (cell_bg cell)) in
      mix hash (ucast (cell_modifier cell) OR push_bit 16 (if cell_skip cell then 1 else 0) OR
        push_bit 17 (case cell_hyperlink cell of None \<Rightarrow> 0 | Some index \<Rightarrow> ucast index + 1)))"

definition view_hash :: "RowView \<Rightarrow> u64" where
  "view_hash view = fold (\<lambda>x hash. cell_hash hash (view_cell view x)) [0..<length (rv_base view)] 0"

definition fully_inside :: "PaneSurfacePatchRow \<Rightarrow> SurfaceRect \<Rightarrow> bool" where
  "fully_inside row rect \<longleftrightarrow>
     row_y row \<ge> sr_y rect \<and> row_y row - sr_y rect < sr_height rect \<and> row_x row \<ge> sr_x rect \<and>
     unat (row_x row) + length (row_cells row) \<le> unat (sr_x rect) + unat (sr_width rect)"

section \<open>Finding a shift\<close>

definition overlaps :: "PaneSurfacePatchRow \<Rightarrow> SurfaceRect \<Rightarrow> bool" where
  "overlaps row rect \<longleftrightarrow>
     row_y row \<ge> sr_y rect \<and> row_y row - sr_y rect < sr_height rect \<and>
     unat (row_x row) < unat (sr_x rect) + unat (sr_width rect) \<and>
     unat (row_x row) + length (row_cells row) > unat (sr_x rect)"

definition previous_row :: "FrameData \<Rightarrow> SurfaceRect \<Rightarrow> nat \<Rightarrow> CellData list" where
  "previous_row frame rect y =
     slice ((unat (sr_y rect) + y) * unat (fr_width frame) + unat (sr_x rect)) (unat (sr_width rect)) (fr_cells frame)"

definition next_views :: "FrameData \<Rightarrow> SurfaceRect \<Rightarrow> PaneSurfacePatchRow list \<Rightarrow> RowView list" where
  "next_views frame rect rows =
     map (\<lambda>y. \<lparr>rv_base = previous_row frame rect y, rv_left = unat (sr_x rect),
               rv_spans = filter (\<lambda>row. overlaps row rect \<and> unat (row_y row - sr_y rect) = y) rows\<rparr>)
       [0..<unat (sr_height rect)]"

definition patch_cell_count :: "SurfaceRect \<Rightarrow> PaneSurfacePatchRow list \<Rightarrow> nat" where
  "patch_cell_count rect rows =
     sum_list (map (\<lambda>row. length (row_cells row)) (filter (\<lambda>row. overlaps row rect \<and> fully_inside row rect) rows))"

definition count_matches :: "u64 list \<Rightarrow> u64 list \<Rightarrow> nat \<Rightarrow> int \<Rightarrow> nat" where
  "count_matches old_hashes new_hashes height shift =
     length (filter (\<lambda>y. let source = int y + shift in
        source \<ge> 0 \<and> nat source < height \<and> new_hashes ! y = old_hashes ! nat source) [0..<height])"

fun best_loop :: "(int \<Rightarrow> nat) \<Rightarrow> nat \<Rightarrow> nat list \<Rightarrow> int \<times> nat \<Rightarrow> int \<times> nat" where
  "best_loop score height [] best = best"
| "best_loop score height (distance # distances) best =
     (if height - distance \<le> snd best then best
      else best_loop score height distances
             (fold (\<lambda>shift best. if score shift > snd best then (shift, score shift) else best)
               [int distance, - int distance] best))"

definition i16_try_from :: "int \<Rightarrow> i16 option" where
  "i16_try_from k = (if - 32768 \<le> k \<and> k \<le> 32767 then Some (word_of_int k) else None)"

definition best_shift :: "RowView list \<Rightarrow> nat \<Rightarrow> int" where
  "best_shift views height =
     (let old_hashes = map (\<lambda>view. fold (\<lambda>cell hash. cell_hash hash cell) (rv_base view) 0) views;
          new_hashes = map (\<lambda>(view, old). if rv_spans view = [] then old else view_hash view) (zip views old_hashes);
          score = count_matches old_hashes new_hashes height in
      fst (best_loop score height [1..<height] (0, score 0)))"

section \<open>The residual\<close>

text \<open>The loop on one row; \<open>None\<close> is the early return when the shift does not pay.\<close>

function residual_row :: "SurfaceRect \<Rightarrow> nat \<Rightarrow> nat \<Rightarrow> CellData list \<Rightarrow> CellData list \<Rightarrow> nat \<Rightarrow> nat \<Rightarrow>
    PaneSurfacePatchRow list \<Rightarrow> (nat \<times> PaneSurfacePatchRow list) option" where
  "residual_row rect patch_cells y base target x residual_cells residual =
     (if \<not> x < length target then Some (residual_cells, residual)
      else if \<not> x < length base then None
      else if base ! x = target ! x
      then residual_row rect patch_cells y base target (x + 1) residual_cells residual
      else case changed_end base target x of
             None \<Rightarrow> None
           | Some e \<Rightarrow>
               (let residual_cells = residual_cells + (e - x) in
                if residual_cells * 2 \<ge> patch_cells then None
                else residual_row rect patch_cells y base target e residual_cells
                       (residual @ [\<lparr>row_x = sr_x rect + of_nat x, row_y = sr_y rect + of_nat y,
                                      row_cells = slice x (e - x) target\<rparr>])))"
  by auto
termination
  by (relation "measure (\<lambda>(_, _, _, _, target, x, _, _). length target - x)")
    (auto intro: diff_less_mono2 changed_end_progress)

declare residual_row.simps [simp del]

fun residual_rows :: "SurfaceRect \<Rightarrow> nat \<Rightarrow> (nat \<times> CellData list \<times> CellData list) list \<Rightarrow> nat \<Rightarrow>
    PaneSurfacePatchRow list \<Rightarrow> PaneSurfacePatchRow list option" where
  "residual_rows rect patch_cells [] residual_cells residual = Some residual"
| "residual_rows rect patch_cells ((y, base, target) # rest) residual_cells residual =
     (case residual_row rect patch_cells y base target 0 residual_cells residual of
        None \<Rightarrow> None
      | Some (residual_cells', residual') \<Rightarrow> residual_rows rect patch_cells rest residual_cells' residual')"

definition target_row :: "RowView \<Rightarrow> CellData list" where
  "target_row view = map (view_cell view) [0..<length (rv_base view)]"

definition pane_scroll :: "FrameData \<Rightarrow> SurfaceRect \<Rightarrow> PaneSurfacePatchRow list \<Rightarrow>
    (i16 \<times> PaneSurfacePatchRow list) option" where
  "pane_scroll frame rect rows =
     (let height = unat (sr_height rect);
          views = next_views frame rect rows;
          patch_cells = patch_cell_count rect rows in
      if length (filter (\<lambda>view. rv_spans view \<noteq> []) views) < 2 then None
      else let best = best_shift views height in
        if best = 0 then None
        else Option.bind (i16_try_from best) (\<lambda>shift.
          Option.bind (swap_all (for_each_swap height shift) [0..<height]) (\<lambda>order.
          Option.bind (residual_rows rect patch_cells
            (map (\<lambda>y. (y, previous_row frame rect (order ! y), target_row (views ! y))) [0..<height]) 0 [])
            (\<lambda>residual. Some (shift, residual)))))"

section \<open>The message\<close>

definition committed :: "PaneSurfaceFrame \<Rightarrow> PaneSurfacePane \<Rightarrow> bool" where
  "committed previous pane \<longleftrightarrow> (\<exists>existing \<in> set (sf_panes previous).
     sp_pane_id existing = sp_pane_id pane \<and> sp_inner_rect existing = sp_inner_rect pane)"

fun scroll_loop :: "PaneSurfaceFrame \<Rightarrow> PaneSurfacePatch \<Rightarrow> PaneSurfacePane list \<Rightarrow> SurfaceScroll list \<Rightarrow>
    PaneSurfacePatchRow list \<Rightarrow> SurfaceScroll list \<times> PaneSurfacePatchRow list" where
  "scroll_loop previous patch [] scrolls residual = (scrolls, residual)"
| "scroll_loop previous patch (pane # panes) scrolls residual =
     (let rect = sp_inner_rect pane; frame = sf_frame previous in
      if \<not> committed previous pane \<or> \<not> scroll_fits \<lparr>scroll_rect = rect, scroll_shift = 1\<rparr> (fr_width frame) (fr_height frame)
      then scroll_loop previous patch panes scrolls residual
      else case pane_scroll frame rect (patch_rows patch) of
             None \<Rightarrow> scroll_loop previous patch panes scrolls residual
           | Some (shift, rows) \<Rightarrow>
               (let scrolls = scrolls @ [\<lparr>scroll_rect = rect, scroll_shift = shift\<rparr>];
                    residual = residual @ rows in
                if length scrolls = MAX_SCROLLS then (scrolls, residual)
                else scroll_loop previous patch panes scrolls residual))"

definition scroll_bytes :: "SurfaceScroll \<Rightarrow> u8 list" where
  "scroll_bytes scroll =
     (let rect = scroll_rect scroll in
      concat (map le_bytes16 [sr_x rect, sr_y rect, sr_width rect, sr_height rect]) @
      le_bytes16 (scroll_shift scroll))"

definition scroll_inner :: "PaneSurfacePatch \<Rightarrow> SurfaceScroll list \<Rightarrow> PaneSurfacePatchRow list \<Rightarrow> PaneSurfacePatch" where
  "scroll_inner patch scrolls residual =
     patch\<lparr>patch_rows :=
       filter (\<lambda>row. \<not> (\<exists>scroll \<in> set scrolls. fully_inside row (scroll_rect scroll))) (patch_rows patch) @ residual\<rparr>"

definition scroll_message :: "(('s, 'n) ServerMessage \<Rightarrow> string + u8 list) \<Rightarrow> (u8 list \<Rightarrow> string) \<Rightarrow>
    (('s, 'n) ServerMessage \<Rightarrow> nat option) \<Rightarrow> PaneSurfaceFrame \<Rightarrow> PaneSurfacePatch \<Rightarrow>
    ('s, 'n) ServerMessage option" where
  "scroll_message encode_to_vec base64 encoded_size previous patch =
     (let frame = sf_frame previous in
      if length (fr_cells frame) \<noteq> unat (fr_width frame) * unat (fr_height frame) then None
      else let (scrolls, residual) = scroll_loop previous patch (patch_panes patch) [] [] in
        if scrolls = [] then None
        else case write_message encode_to_vec (PatchMsg (scroll_inner patch scrolls residual)) of
               Inl _ \<Rightarrow> None
             | Inr framed \<Rightarrow>
                 (let bytes = of_nat (length scrolls) # concat (map scroll_bytes scrolls) @ framed;
                      message = EndpointControl scroll_MESSAGE_KIND (base64 bytes) in
                  case encoded_size message of
                    None \<Rightarrow> None
                  | Some n \<Rightarrow> if n \<le> MAX_FRAME_SIZE then Some message else None))"

section \<open>The views show the patched grid\<close>

lemma paint_snoc:
  assumes "0 < unat width" "unat (row_x row) + length (row_cells row) \<le> unat width"
    and "i div unat width = Y" "i mod unat width = column"
  shows "paint width (rows @ [row]) i c =
    (if unat (row_y row) = Y \<and> unat (row_x row) \<le> column \<and> column < unat (row_x row) + length (row_cells row)
     then row_cells row ! (column - unat (row_x row)) else paint width rows i c)"
  unfolding paint_append paint_row [OF assms(1,2)] row_value_def assms(3,4) by (rule if_cong) auto

lemma span_cell_snoc:
  "span_cell column (rev (filter P (rows @ [row]))) =
    (if P row \<and> unat (row_x row) \<le> column \<and> column < unat (row_x row) + length (row_cells row)
     then Some (row_cells row ! (column - unat (row_x row))) else span_cell column (rev (filter P rows)))"
  by (simp add: Let_def)

lemma view_paint:
  assumes "0 < unat width" "\<forall>row \<in> set rows. unat (row_x row) + length (row_cells row) \<le> unat width"
    and "i div unat width = Y" "i mod unat width = column"
    and "\<forall>row \<in> set rows. unat (row_y row) = Y \<and> unat (row_x row) \<le> column \<and>
      column < unat (row_x row) + length (row_cells row) \<longrightarrow> P row"
    and "\<forall>row \<in> set rows. P row \<longrightarrow> unat (row_y row) = Y"
  shows "paint width rows i c = (case span_cell column (rev (filter P rows)) of Some v \<Rightarrow> v | None \<Rightarrow> c)"
  using assms(2,5,6)
proof (induction rows rule: rev_induct)
  case (snoc row rows)
  have fit: "unat (row_x row) + length (row_cells row) \<le> unat width" using snoc.prems(1) by simp
  have ih: "paint width rows i c = (case span_cell column (rev (filter P rows)) of Some v \<Rightarrow> v | None \<Rightarrow> c)"
    by (rule snoc.IH) (use snoc.prems in simp_all)
  have same: "(P row \<and> unat (row_x row) \<le> column \<and> column < unat (row_x row) + length (row_cells row)) =
      (unat (row_y row) = Y \<and> unat (row_x row) \<le> column \<and> column < unat (row_x row) + length (row_cells row))"
    using snoc.prems(2,3) by auto
  show ?case
    unfolding paint_snoc [OF assms(1) fit assms(3,4)] span_cell_snoc same ih by simp
qed simp

lemma previous_row_nth:
  assumes "rect_inside (fr_width frame) (length (fr_cells frame)) rect" "y < unat (sr_height rect)" "x < unat (sr_width rect)"
  shows "previous_row frame rect y ! x = fr_cells frame ! (scroll_row_start rect (unat (fr_width frame)) y + x)"
    and "length (previous_row frame rect y) = unat (sr_width rect)"
  using region_row [OF assms(1,2)] assms(3)
  by (simp_all add: previous_row_def scroll_row_start_def)

text \<open>Rows of the committed grid are sliced inside it.\<close>

lemma committed_row_inside:
  assumes "rect_inside (fr_width frame) (length (fr_cells frame)) rect" "y < unat (sr_height rect)"
  shows "(unat (sr_y rect) + y) * unat (fr_width frame) + unat (sr_x rect) + unat (sr_width rect) \<le> length (fr_cells frame)"
  using region_row [OF assms] by (simp add: scroll_row_start_def)

lemma target_row_paint:
  assumes inside: "rect_inside (fr_width frame) (length (fr_cells frame)) rect"
    and rows: "\<forall>row \<in> set rows. unat (row_x row) + length (row_cells row) \<le> unat (fr_width frame)"
    and yx: "y < unat (sr_height rect)" "x < unat (sr_width rect)"
    and T: "apply_rows (fr_cells frame) (fr_width frame) rows = Some T"
  shows "target_row (next_views frame rect rows ! y) ! x = T ! (scroll_row_start rect (unat (fr_width frame)) y + x)"
proof -
  let ?i = "scroll_row_start rect (unat (fr_width frame)) y + x"
  let ?P = "\<lambda>row. overlaps row rect \<and> unat (row_y row - sr_y rect) = y"
  note cell = cell_in_rect [OF inside yx]
  have w: "0 < unat (fr_width frame)" using inside by (simp add: rect_inside_def)
  have cover: "?P row" if "unat (row_y row) = unat (sr_y rect) + y" "unat (row_x row) \<le> unat (sr_x rect) + x"
      "unat (sr_x rect) + x < unat (row_x row) + length (row_cells row)" for row
  proof -
    have "sr_y rect \<le> row_y row" using that(1) by (simp add: word_le_nat_alt)
    moreover from this have "unat (row_y row - sr_y rect) = y" using that(1) by (simp add: unat_sub)
    ultimately show ?thesis using that(2,3) yx by (simp add: overlaps_def word_less_nat_alt)
  qed
  have at_y: "?P row \<longrightarrow> unat (row_y row) = unat (sr_y rect) + y" for row
    by (auto simp: overlaps_def unat_sub word_le_nat_alt)
  have "T ! ?i = paint (fr_width frame) rows ?i (fr_cells frame ! ?i)"
    by (rule apply_rows_paint [OF T cell(1)])
  also have "\<dots> = (case span_cell (unat (sr_x rect) + x) (rev (filter ?P rows)) of Some v \<Rightarrow> v | None \<Rightarrow> fr_cells frame ! ?i)"
    using view_paint [OF w rows cell(2,3), of ?P] cover at_y by blast
  finally show ?thesis
    using yx previous_row_nth [OF inside yx]
    by (simp add: target_row_def next_views_def view_cell_def Let_def split: option.splits)
qed

section \<open>The residual carries what still differs\<close>

definition residual_span :: "SurfaceRect \<Rightarrow> nat \<Rightarrow> CellData list \<Rightarrow> nat \<times> nat \<Rightarrow> PaneSurfacePatchRow" where
  "residual_span rect y target ab =
     \<lparr>row_x = sr_x rect + of_nat (fst ab), row_y = sr_y rect + of_nat y,
      row_cells = slice (fst ab) (snd ab - fst ab) target\<rparr>"

lemma residual_row_spec:
  assumes "residual_row rect patch_cells y base target x cells residual = Some (cells', residual')"
    and "length base = length target"
  shows "\<exists>ab. residual' = residual @ map (residual_span rect y target) ab \<and> diff_intervals base target x ab"
  using assms
proof (induction rect patch_cells y base target x cells residual arbitrary: cells' residual' rule: residual_row.induct)
  case (1 rect patch_cells y base target x cells residual)
  note unfold = residual_row.simps [of rect patch_cells y base target x cells residual]
  consider (stop) "\<not> x < length target" | (same) "x < length target" "base ! x = target ! x"
    | (diff) "x < length target" "base ! x \<noteq> target ! x" by blast
  then show ?case
  proof cases
    case stop
    with 1(3) unfold show ?thesis by (auto simp: diff_intervals_def)
  next
    case same
    with 1(1) 1(3,4) unfold show ?thesis by (fastforce dest: diff_intervals_skip)
  next
    case diff
    then obtain e where e: "changed_end base target x = Some e" "x < e" "e \<le> length target"
        "\<And>i. x \<le> i \<Longrightarrow> i < e \<Longrightarrow> base ! i \<noteq> target ! i"
      using changed_end_total [OF 1(4)] changed_end_bounds [of base target x]
        changed_end_progress [of x target base] 1(4) by (metis less_imp_le)
    have pays: "\<not> patch_cells \<le> (cells + (e - x)) * 2"
      using 1(3,4) unfold diff e(1) by (auto simp: Let_def split: if_splits)
    have "residual_row rect patch_cells y base target e (cells + (e - x))
        (residual @ [residual_span rect y target (x, e)]) = Some (cells', residual')"
      using 1(3,4) unfold diff e(1) pays by (simp add: Let_def residual_span_def)
    with 1(2) [OF _ _ _ e(1) refl pays] diff 1(4) obtain ab where
        "residual' = (residual @ [residual_span rect y target (x, e)]) @ map (residual_span rect y target) ab"
        "diff_intervals base target e ab"
      by (fastforce simp: residual_span_def)
    with diff_intervals_span [OF _ e(2,3,4)] show ?thesis
      by (intro exI [of _ "(x, e) # ab"]) simp
  qed
qed

lemma residual_rows_spec:
  assumes "residual_rows rect patch_cells items cells residual = Some residual'"
    and "\<forall>(y, base, target) \<in> set items. length base = length target"
  shows "\<exists>abs. length abs = length items \<and>
    residual' = residual @ concat (map (\<lambda>((y, base, target), ab). map (residual_span rect y target) ab) (zip items abs)) \<and>
    (\<forall>((y, base, target), ab) \<in> set (zip items abs). diff_intervals base target 0 ab)"
  using assms
proof (induction items arbitrary: cells residual)
  case Nil
  then show ?case by simp
next
  case (Cons item items)
  obtain y base target where item: "item = (y, base, target)" by (cases item) auto
  from Cons.prems obtain cells1 residual1 where r: "residual_row rect patch_cells y base target 0 cells residual = Some (cells1, residual1)"
      "residual_rows rect patch_cells items cells1 residual1 = Some residual'"
    by (auto simp: item split: option.splits)
  from residual_row_spec [OF r(1)] Cons.prems(2) obtain ab where
    ab: "residual1 = residual @ map (residual_span rect y target) ab" "diff_intervals base target 0 ab"
    by (auto simp: item)
  from Cons.IH [OF r(2)] Cons.prems(2) obtain abs where
    "length abs = length items"
    "residual' = residual1 @ concat (map (\<lambda>((y, base, target), ab). map (residual_span rect y target) ab) (zip items abs))"
    "\<forall>((y, base, target), ab) \<in> set (zip items abs). diff_intervals base target 0 ab" by auto
  with ab show ?case by (intro exI [of _ "ab # abs"]) (simp add: item)
qed

lemma unat_add_of_nat: "unat (a :: u16) + k < 65536 \<Longrightarrow> unat (a + of_nat k) = unat a + k"
  by (subst unat_add_u16) (simp_all add: unat_of_nat)

lemma residual_span_facts:
  assumes inside: "rect_inside width (unat width * unat (height :: u16)) rect"
    and y: "y < unat (sr_height rect)" and ab: "fst ab < snd ab" "snd ab \<le> unat (sr_width rect)"
    and target: "length target = unat (sr_width rect)"
      "\<And>k. k < unat (sr_width rect) \<Longrightarrow> target ! k = T ! (scroll_row_start rect (unat width) y + k)"
    and T: "length T = unat width * unat height"
  shows "row_start width (residual_span rect y target ab) = scroll_row_start rect (unat width) y + fst ab"
    and "row_end width (residual_span rect y target ab) = scroll_row_start rect (unat width) y + snd ab"
    and "row_fits (residual_span rect y target ab) width height"
    and "spans_of width T [residual_span rect y target ab]"
proof -
  let ?s = "residual_span rect y target ab"
  note u16 = rect_inside_u16 [OF inside]
  have x: "unat (row_x ?s) = unat (sr_x rect) + fst ab"
    using u16 ab by (simp add: residual_span_def unat_add_of_nat)
  have yy: "unat (row_y ?s) = unat (sr_y rect) + y"
    using u16 y by (simp add: residual_span_def unat_add_of_nat)
  have len: "length (row_cells ?s) = snd ab - fst ab" using ab target(1) by (simp add: residual_span_def)
  show start: "row_start width ?s = scroll_row_start rect (unat width) y + fst ab"
    by (simp add: row_start_def scroll_row_start_def x yy)
  show fin: "row_end width ?s = scroll_row_start rect (unat width) y + snd ab"
    using ab by (simp add: row_end_def start len)
  show "row_fits ?s width height"
    using inside u16(2) y ab by (simp add: row_fits_def word_less_nat_alt x yy len rect_inside_def)
  have bound: "row_end width ?s \<le> length T"
    using region_row [OF inside y] ab(2) T unfolding fin by linarith
  have "row_cells ?s = slice (row_start width ?s) (length (row_cells ?s)) T"
  proof (rule nth_equalityI)
    show "length (row_cells ?s) = length (slice (row_start width ?s) (length (row_cells ?s)) T)"
      using bound by (simp add: row_end_def)
    fix k
    assume k: "k < length (row_cells ?s)"
    then have "row_cells ?s ! k = target ! (fst ab + k)" using len ab target(1) by (simp add: residual_span_def)
    also have "\<dots> = T ! (scroll_row_start rect (unat width) y + (fst ab + k))"
      using k len ab by (intro target(2)) simp
    also have "\<dots> = slice (row_start width ?s) (length (row_cells ?s)) T ! k"
      using k bound by (simp add: start row_end_def add.assoc)
    finally show "row_cells ?s ! k = slice (row_start width ?s) (length (row_cells ?s)) T ! k" .
  qed
  with bound show "spans_of width T [?s]" by (simp add: spans_of_def)
qed

text \<open>What the receiver needs of the rows sent with a scroll.\<close>

definition residual_ok :: "u16 \<Rightarrow> u16 \<Rightarrow> SurfaceScroll \<Rightarrow> CellData list \<Rightarrow> CellData list \<Rightarrow> PaneSurfacePatchRow list \<Rightarrow> bool" where
  "residual_ok width height scroll old T residual \<longleftrightarrow>
     spans_of width T residual \<and> (\<forall>s \<in> set residual. row_fits s width height) \<and>
     (\<forall>y < unat (sr_height (scroll_rect scroll)). \<forall>x < unat (sr_width (scroll_rect scroll)).
        old ! (scroll_row_start (scroll_rect scroll) (unat width) (order_of scroll ! y) + x) \<noteq>
        T ! (scroll_row_start (scroll_rect scroll) (unat width) y + x) \<longrightarrow>
        covered_by width residual (scroll_row_start (scroll_rect scroll) (unat width) y + x))"

lemma best_loop_range:
  "fst (best_loop score height distances best) = fst best \<or>
   (\<exists>d \<in> set distances. \<bar>fst (best_loop score height distances best)\<bar> = int d)"
proof (induction distances arbitrary: best)
  case (Cons d distances)
  let ?next = "fold (\<lambda>shift best. if score shift > snd best then (shift, score shift) else best)
    [int d, - int d] best"
  have "fst ?next = fst best \<or> \<bar>fst ?next\<bar> = int d" by auto
  with Cons.IH [of ?next] show ?case by (auto simp del: fold_simps)
qed simp

lemma best_shift_range:
  assumes "best_shift views height \<noteq> 0"
  shows "\<bar>best_shift views height\<bar> < int height"
  using assms best_loop_range [of _ height "[1..<height]" "(0, _)"]
  unfolding best_shift_def Let_def by fastforce

lemma i16_try_from_sint: "i16_try_from k = Some shift \<Longrightarrow> sint shift = k"
  by (auto simp: i16_try_from_def signed_of_int signed_take_bit_int_eq_self split: if_splits)

lemma residual_rows_ok:
  fixes base target :: "nat \<Rightarrow> CellData list"
  assumes "residual_rows rect patch_cells (map (\<lambda>y. (y, base y, target y)) [0..<unat (sr_height rect)]) 0 [] = Some residual"
    and inside: "rect_inside width (unat width * unat (height :: u16)) rect" and T: "length T = unat width * unat height"
    and base: "\<And>y. y < unat (sr_height rect) \<Longrightarrow> length (base y) = unat (sr_width rect)"
    and target: "\<And>y. y < unat (sr_height rect) \<Longrightarrow> length (target y) = unat (sr_width rect)"
      "\<And>y k. y < unat (sr_height rect) \<Longrightarrow> k < unat (sr_width rect) \<Longrightarrow>
         target y ! k = T ! (scroll_row_start rect (unat width) y + k)"
  shows "spans_of width T residual \<and> (\<forall>s \<in> set residual. row_fits s width height) \<and>
    (\<forall>y < unat (sr_height rect). \<forall>x < unat (sr_width rect).
       base y ! x \<noteq> T ! (scroll_row_start rect (unat width) y + x) \<longrightarrow>
       covered_by width residual (scroll_row_start rect (unat width) y + x))"
proof -
  let ?h = "unat (sr_height rect)" and ?items = "map (\<lambda>y. (y, base y, target y)) [0..<unat (sr_height rect)]"
  obtain abs where abs: "length abs = ?h"
      "residual = concat (map (\<lambda>((y, base, target), ab). map (residual_span rect y target) ab) (zip ?items abs))"
      "\<forall>((y, base, target), ab) \<in> set (zip ?items abs). diff_intervals base target 0 ab"
    using residual_rows_spec [OF assms(1)] base target(1) by auto
  have mem: "((y, base y, target y), abs ! y) \<in> set (zip ?items abs)" if "y < ?h" for y
    using that abs(1) by (force simp: in_set_zip)
  have diff: "diff_intervals (base y) (target y) 0 (abs ! y)" if "y < ?h" for y
    using abs(3) mem [OF that] by fastforce
  have spans: "\<exists>y p. y < ?h \<and> p \<in> set (abs ! y) \<and> s = residual_span rect y (target y) p" if "s \<in> set residual" for s
    using that abs(1) by (fastforce simp: abs(2) in_set_zip)
  have facts: "row_start width (residual_span rect y (target y) p) = scroll_row_start rect (unat width) y + fst p"
      "row_end width (residual_span rect y (target y) p) = scroll_row_start rect (unat width) y + snd p"
      "row_fits (residual_span rect y (target y) p) width height" "spans_of width T [residual_span rect y (target y) p]"
    if "y < ?h" "p \<in> set (abs ! y)" for y p
  proof -
    have "fst p < snd p" "snd p \<le> unat (sr_width rect)"
      using diff [OF that(1)] intervals_above [OF _ that(2)] target(1) [OF that(1)]
      unfolding diff_intervals_def by metis+
    note f = residual_span_facts [OF inside that(1) this target(1) [OF that(1)] target(2) [OF that(1)] T]
    show "row_start width (residual_span rect y (target y) p) = scroll_row_start rect (unat width) y + fst p"
      "row_end width (residual_span rect y (target y) p) = scroll_row_start rect (unat width) y + snd p"
      "row_fits (residual_span rect y (target y) p) width height" "spans_of width T [residual_span rect y (target y) p]"
      by (rule f; assumption)+
  qed
  have "covered_by width residual (scroll_row_start rect (unat width) y + x)"
    if "y < ?h" "x < unat (sr_width rect)" "base y ! x \<noteq> T ! (scroll_row_start rect (unat width) y + x)" for y x
  proof -
    have "base y ! x \<noteq> target y ! x" using that target(2) by simp
    with diff [OF that(1)] that(2) target(1) [OF that(1)] obtain p where p: "p \<in> set (abs ! y)" "fst p \<le> x" "x < snd p"
      by (auto simp: diff_intervals_def)
    have "residual_span rect y (target y) p \<in> set residual"
      using mem [OF that(1)] p(1) by (fastforce simp: abs(2))
    with facts [OF that(1) p(1)] p show ?thesis by (force simp: covered_by_def)
  qed
  moreover have "spans_of width T residual" "\<forall>s \<in> set residual. row_fits s width height"
    using spans facts(3,4) by (fastforce simp: spans_of_def)+
  ultimately show ?thesis by blast
qed

lemma pane_scroll_spec:
  assumes fits: "scroll_fits \<lparr>scroll_rect = rect, scroll_shift = 1\<rparr> (fr_width frame) (fr_height frame)"
    and len: "length (fr_cells frame) = unat (fr_width frame) * unat (fr_height frame)"
    and rows: "\<forall>row \<in> set rows. row_fits row (fr_width frame) (fr_height frame)"
    and T: "apply_rows (fr_cells frame) (fr_width frame) rows = Some T"
    and scroll: "pane_scroll frame rect rows = Some (shift, residual)"
  shows "scroll_fits \<lparr>scroll_rect = rect, scroll_shift = shift\<rparr> (fr_width frame) (fr_height frame) \<and>
    residual_ok (fr_width frame) (fr_height frame) \<lparr>scroll_rect = rect, scroll_shift = shift\<rparr> (fr_cells frame) T residual"
proof -
  let ?w = "fr_width frame" and ?h = "unat (sr_height rect)" and ?views = "next_views frame rect rows"
  let ?scroll = "\<lparr>scroll_rect = rect, scroll_shift = shift\<rparr>"
  let ?rs = "scroll_row_start rect (unat ?w)"
  from scroll obtain order where s: "i16_try_from (best_shift ?views ?h) = Some shift" "best_shift ?views ?h \<noteq> 0"
      "swap_all (for_each_swap ?h shift) [0..<?h] = Some order"
      "residual_rows rect (patch_cell_count rect rows)
        (map (\<lambda>y. (y, previous_row frame rect (order ! y), target_row (?views ! y))) [0..<?h]) 0 [] = Some residual"
    by (auto simp: pane_scroll_def Let_def bind_eq_Some_conv split: if_splits)
  have shift: "sint shift \<noteq> 0" "\<bar>sint shift\<bar> < int ?h"
    using i16_try_from_sint [OF s(1)] s(2) best_shift_range [OF s(2)] by simp_all
  then have "shift \<noteq> 0" "unsigned_abs shift < ?h"
    by (auto simp only: unsigned_abs_def nat_less_iff abs_ge_zero signed_0)
  with fits have fits': "scroll_fits ?scroll ?w (fr_height frame)" by (simp add: scroll_fits_def Let_def)
  have inside: "rect_inside ?w (unat ?w * unat (fr_height frame)) rect" using scroll_fits_inside [OF fits] by simp
  have order: "order_of ?scroll = order" using s(3) by (simp add: order_of_def)
  have order_lt: "order ! y < ?h" if "y < ?h" for y using order_of_range [OF fits', of y] that order by simp
  have target: "length (target_row (?views ! y)) = unat (sr_width rect)"
      "\<And>k. k < unat (sr_width rect) \<Longrightarrow> target_row (?views ! y) ! k = T ! (?rs y + k)" if "y < ?h" for y
  proof -
    show "length (target_row (?views ! y)) = unat (sr_width rect)"
      using that committed_row_inside [OF _ that, of frame] inside len
      by (simp add: target_row_def next_views_def previous_row_def)
    show "\<And>k. k < unat (sr_width rect) \<Longrightarrow> target_row (?views ! y) ! k = T ! (?rs y + k)"
      using target_row_paint [OF _ _ that _ T] inside len rows by (simp add: row_fits_def)
  qed
  have base: "length (previous_row frame rect y) = unat (sr_width rect)"
      "\<And>k. k < unat (sr_width rect) \<Longrightarrow> previous_row frame rect y ! k = fr_cells frame ! (?rs y + k)" if "y < ?h" for y
    using committed_row_inside [OF _ that, of frame] previous_row_nth(1) [OF _ that, of frame] inside len
    by (simp_all add: previous_row_def [of frame rect y, THEN arg_cong [of _ _ length]])
  have "length T = unat ?w * unat (fr_height frame)" using apply_rows_length [OF T] len by simp
  from residual_rows_ok [OF s(4) inside this] base target order_lt fits' show ?thesis
    by (simp add: residual_ok_def order)
qed

section \<open>The loop over the panes\<close>

definition panes_apart :: "PaneSurfacePane list \<Rightarrow> bool" where
  "panes_apart panes \<longleftrightarrow> sorted_wrt (\<lambda>a b. \<not> rects_overlap a b) (map sp_inner_rect panes)"

lemma scrolls_disjoint_sorted:
  "scrolls_disjoint scrolls \<longleftrightarrow> sorted_wrt (\<lambda>a b. \<not> rects_overlap a b) (map scroll_rect scrolls)"
  by (induction scrolls) auto

lemma spans_of_append [simp]: "spans_of width T (a @ b) \<longleftrightarrow> spans_of width T a \<and> spans_of width T b"
  by (auto simp: spans_of_def)

lemma residual_ok_append:
  assumes "residual_ok width height scroll old T residual" "spans_of width T extra" "\<forall>s \<in> set extra. row_fits s width height"
  shows "residual_ok width height scroll old T (residual @ extra)" "residual_ok width height scroll old T (extra @ residual)"
  using assms by (auto simp: residual_ok_def)

definition scrolls_ok :: "u16 \<Rightarrow> u16 \<Rightarrow> CellData list \<Rightarrow> CellData list \<Rightarrow> SurfaceScroll list \<Rightarrow> PaneSurfacePatchRow list \<Rightarrow> bool" where
  "scrolls_ok width height old T scrolls residual \<longleftrightarrow>
     (\<forall>scroll \<in> set scrolls. scroll_fits scroll width height \<and> residual_ok width height scroll old T residual) \<and>
     spans_of width T residual \<and> (\<forall>s \<in> set residual. row_fits s width height)"

lemma scrolls_ok_snoc:
  assumes "scrolls_ok width height old T scrolls residual" "scroll_fits scroll width height"
    "residual_ok width height scroll old T rows"
  shows "scrolls_ok width height old T (scrolls @ [scroll]) (residual @ rows)"
proof -
  have r: "spans_of width T rows" "\<forall>s \<in> set rows. row_fits s width height"
    using assms(3) by (simp_all add: residual_ok_def)
  have q: "spans_of width T residual" "\<forall>s \<in> set residual. row_fits s width height"
    using assms(1) by (simp_all add: scrolls_ok_def)
  have "residual_ok width height s old T (residual @ rows)" if "s \<in> set scrolls" for s
    using assms(1) that r by (auto simp: scrolls_ok_def intro: residual_ok_append)
  with residual_ok_append(2) [OF assms(3) q] assms(1,2) r q show ?thesis
    unfolding scrolls_ok_def by auto
qed

lemma scroll_loop_spec:
  fixes previous :: PaneSurfaceFrame
  defines "frame \<equiv> sf_frame previous"
  assumes len: "length (fr_cells frame) = unat (fr_width frame) * unat (fr_height frame)"
    and rows: "\<forall>row \<in> set (patch_rows patch). row_fits row (fr_width frame) (fr_height frame)"
    and T: "apply_rows (fr_cells frame) (fr_width frame) (patch_rows patch) = Some T"
    and loop: "scroll_loop previous patch panes scrolls residual = (scrolls', residual')"
    and ok: "scrolls_ok (fr_width frame) (fr_height frame) (fr_cells frame) T scrolls residual"
    and apart: "sorted_wrt (\<lambda>a b. \<not> rects_overlap a b) (map scroll_rect scrolls @ map sp_inner_rect panes)"
    and few: "length scrolls < MAX_SCROLLS"
  shows "scrolls_ok (fr_width frame) (fr_height frame) (fr_cells frame) T scrolls' residual' \<and>
    scrolls_disjoint scrolls' \<and> length scrolls' \<le> MAX_SCROLLS"
  using loop ok apart few
proof (induction panes arbitrary: scrolls residual)
  case Nil
  then show ?case by (simp add: scrolls_disjoint_sorted)
next
  case (Cons pane panes)
  let ?rect = "sp_inner_rect pane"
  have drop: "sorted_wrt (\<lambda>a b. \<not> rects_overlap a b) (map scroll_rect scrolls @ map sp_inner_rect panes)"
    using Cons.prems(3) by (auto simp: sorted_wrt_append)
  show ?case
  proof (cases "committed previous pane \<and>
      scroll_fits \<lparr>scroll_rect = ?rect, scroll_shift = 1\<rparr> (fr_width frame) (fr_height frame)")
    case False
    with Cons.prems(1) have "scroll_loop previous patch panes scrolls residual = (scrolls', residual')"
      by (auto simp: Let_def frame_def)
    from Cons.IH [OF this Cons.prems(2) drop Cons.prems(4)] show ?thesis .
  next
    case True
    show ?thesis
    proof (cases "pane_scroll frame ?rect (patch_rows patch)")
      case None
      with True Cons.prems(1) have "scroll_loop previous patch panes scrolls residual = (scrolls', residual')"
        by (auto simp: Let_def frame_def)
      from Cons.IH [OF this Cons.prems(2) drop Cons.prems(4)] show ?thesis .
    next
      case (Some sr)
      obtain shift extra where sr: "sr = (shift, extra)" by fastforce
      let ?scroll = "\<lparr>scroll_rect = ?rect, scroll_shift = shift\<rparr>"
      from pane_scroll_spec [OF _ len rows T] True Some sr
      have new: "scroll_fits ?scroll (fr_width frame) (fr_height frame)"
        "residual_ok (fr_width frame) (fr_height frame) ?scroll (fr_cells frame) T extra" by blast+
      note ok' = scrolls_ok_snoc [OF Cons.prems(2) new]
      have apart': "sorted_wrt (\<lambda>a b. \<not> rects_overlap a b) (map scroll_rect (scrolls @ [?scroll]) @ map sp_inner_rect panes)"
        using Cons.prems(3) by simp
      have step: "(if length (scrolls @ [?scroll]) = MAX_SCROLLS then (scrolls @ [?scroll], residual @ extra)
          else scroll_loop previous patch panes (scrolls @ [?scroll]) (residual @ extra)) = (scrolls', residual')"
        using Cons.prems(1) True Some sr by (auto simp: Let_def frame_def)
      show ?thesis
      proof (cases "length (scrolls @ [?scroll]) = MAX_SCROLLS")
        case full: True
        with step have "scrolls' = scrolls @ [?scroll]" "residual' = residual @ extra" by auto
        with ok' apart' full show ?thesis by (simp add: scrolls_disjoint_sorted sorted_wrt_append)
      next
        case False
        with step Cons.prems(4) Cons.IH [OF _ ok' apart'] show ?thesis by simp
      qed
    qed
  qed
qed

section \<open>From a patch to the receiver's grid\<close>

text \<open>Rows of a patch do not overlap.\<close>

definition rows_apart :: "u16 \<Rightarrow> PaneSurfacePatchRow list \<Rightarrow> bool" where
  "rows_apart width rows \<longleftrightarrow>
     sorted_wrt (\<lambda>a b. row_end width a \<le> row_start width b \<or> row_end width b \<le> row_start width a) rows"

lemma paint_uncovered: "\<not> covered_by width rows i \<Longrightarrow> paint width rows i c = c"
  by (induction rows arbitrary: c) auto

lemma paint_apart:
  "rows_apart width rows \<Longrightarrow> row \<in> set rows \<Longrightarrow> row_start width row \<le> i \<Longrightarrow> i < row_end width row \<Longrightarrow>
     paint width rows i c = row_cells row ! (i - row_start width row)"
proof (induction rows arbitrary: c)
  case (Cons r rows)
  show ?case
  proof (cases "row = r")
    case True
    with Cons.prems have "\<not> covered_by width rows i"
      by (fastforce simp: rows_apart_def covered_by_def)
    with True Cons.prems show ?thesis by (simp add: paint_uncovered)
  next
    case False
    with Cons show ?thesis by (simp add: rows_apart_def)
  qed
qed simp

lemma rows_apart_spans:
  assumes "rows_apart width rows" "apply_rows cells width rows = Some T" "\<forall>row \<in> set rows. row_end width row \<le> length cells"
  shows "spans_of width T rows"
proof -
  have len: "length T = length cells" by (rule apply_rows_length [OF assms(2)])
  have "row_cells row = slice (row_start width row) (length (row_cells row)) T" if "row \<in> set rows" for row
  proof (rule nth_equalityI)
    show "length (row_cells row) = length (slice (row_start width row) (length (row_cells row)) T)"
      using assms(3) that len by (simp add: row_end_def)
    fix k
    assume k: "k < length (row_cells row)"
    have "row_start width row + k < length cells" using assms(3) that k by (force simp: row_end_def)
    then have "T ! (row_start width row + k) = row_cells row ! k"
      using apply_rows_paint [OF assms(2)] paint_apart [OF assms(1) that, of "row_start width row + k"] k
      by (simp add: row_end_def)
    with k assms(3) that len show "row_cells row ! k = slice (row_start width row) (length (row_cells row)) T ! k"
      by (simp add: row_end_def)
  qed
  with assms(3) len show ?thesis by (simp add: spans_of_def)
qed

lemma fully_inside_rect:
  assumes "rect_inside width n rect" "fully_inside row rect" "row_start width row \<le> i" "i < row_end width row"
  shows "in_rect width rect i"
proof -
  have fit: "0 < unat width" "unat (row_x row) + length (row_cells row) \<le> unat width"
    using assms(1,2) by (auto simp: rect_inside_def fully_inside_def)
  have "unat (sr_y rect) \<le> unat (row_y row)" "unat (row_y row) < unat (sr_y rect) + unat (sr_height rect)"
    "unat (sr_x rect) \<le> unat (row_x row)"
    using assms(2) by (auto simp: fully_inside_def word_le_nat_alt word_less_nat_alt unat_sub)
  with row_covers [OF fit, of i] assms(2-4) show ?thesis
    by (auto simp: in_rect_def fully_inside_def)
qed

text \<open>Scrolling the committed grid and laying the residual patch over it gives the patched grid.\<close>

lemma scrolled_residual:
  fixes previous :: PaneSurfaceFrame
  assumes ok: "scrolls_ok width height old T scrolls residual" and disj: "scrolls_disjoint scrolls"
    and len: "length old = unat width * unat height"
    and T: "apply_rows old width rows = Some T" and rows: "\<forall>row \<in> set rows. row_fits row width height"
    and apart: "rows_apart width rows"
  defines "kept \<equiv> filter (\<lambda>row. \<not> (\<exists>scroll \<in> set scrolls. fully_inside row (scroll_rect scroll))) rows @ residual"
  shows "\<exists>cells1. apply_scrolls old width scrolls = Some cells1 \<and> apply_rows cells1 width kept = Some T"
proof -
  have fits: "\<forall>scroll \<in> set scrolls. scroll_fits scroll width height" using ok by (simp add: scrolls_ok_def)
  obtain cells1 where c1: "apply_scrolls old width scrolls = Some cells1" "scrolled width scrolls old cells1"
    using apply_scrolls_scrolled [OF fits disj len] by blast
  have lenT: "length T = length old" "length cells1 = length old"
    using apply_rows_length [OF T] c1(2) by (simp_all add: scrolled_def)
  have "spans_of width T rows" using rows_apart_spans [OF apart T] rows row_fits_end len by simp
  then have spans: "spans_of width T kept"
    using ok by (auto simp: kept_def scrolls_ok_def spans_of_def)
  have "T ! i = cells1 ! i" if i: "i < length old" and bare: "\<not> covered_by width kept i" for i
  proof (cases "\<exists>scroll \<in> set scrolls. in_rect width (scroll_rect scroll) i")
    case True
    then obtain s where s: "s \<in> set scrolls" "in_rect width (scroll_rect s) i" by blast
    from in_rect_cell [OF s(2)] obtain y x where yx: "y < unat (sr_height (scroll_rect s))"
        "x < unat (sr_width (scroll_rect s))" "i = scroll_row_start (scroll_rect s) (unat width) y + x" by blast
    have "residual_ok width height s old T residual" using ok s(1) by (simp add: scrolls_ok_def)
    then have "old ! (scroll_row_start (scroll_rect s) (unat width) (order_of s ! y) + x) = T ! i"
      using yx bare by (auto simp: residual_ok_def kept_def)
    with c1(2) s(1) yx show ?thesis by (simp add: scrolled_def)
  next
    case False
    have "\<not> covered_by width rows i"
    proof
      assume "covered_by width rows i"
      then obtain row where row: "row \<in> set rows" "row_start width row \<le> i" "i < row_end width row"
        by (auto simp: covered_by_def)
      with bare obtain s where "s \<in> set scrolls" "fully_inside row (scroll_rect s)"
        by (auto simp: kept_def covered_by_def)
      with fully_inside_rect [OF scroll_fits_inside] fits row False show False by blast
    qed
    then have "T ! i = old ! i" using apply_rows_outside [OF T _ i] by simp
    with c1(2) False i show ?thesis by (simp add: scrolled_def)
  qed
  with apply_rows_spans [OF spans, of cells1] lenT have "apply_rows cells1 width kept = Some T"
    by (metis nth_equalityI)
  with c1(1) show ?thesis by blast
qed

section \<open>The header\<close>

lemma length_scroll_bytes: "length (scroll_bytes s) = SCROLL_BYTES"
  by (simp add: scroll_bytes_def Let_def le_bytes16_def SCROLL_BYTES_def)

lemma decode_scroll_bytes: "decode_scroll_chunk (scroll_bytes s) = s"
  by (simp add: scroll_bytes_def Let_def le_bytes16_def decode_scroll_chunk_def value_at_def)

lemma chunks_concat:
  "0 < n \<Longrightarrow> \<forall>x \<in> set xs. length x = n \<Longrightarrow> chunks n (concat xs) = xs"
proof (induction xs)
  case (Cons x xs)
  then have "concat (x # xs) \<noteq> []" by auto
  with Cons show ?case by (subst chunks.simps) simp
qed simp

text \<open>What the two ends rely on outside the repository: base64 decodes what it encodes, an
  encoding is no shorter than what it encodes, and so is the encoded control message.\<close>

definition scroll_transport :: "(u8 list \<Rightarrow> string) \<Rightarrow> (string \<Rightarrow> string + u8 list) \<Rightarrow> (nat \<Rightarrow> nat option) \<Rightarrow>
    (('s, 'n) ServerMessage \<Rightarrow> nat option) \<Rightarrow> bool" where
  "scroll_transport base64 base64_decode encoded_len encoded_size \<longleftrightarrow>
     (\<forall>bytes. base64_decode (base64 bytes) = Inr bytes \<and> length bytes \<le> length (base64 bytes)) \<and>
     (\<forall>n m. encoded_len n = Some m \<longrightarrow> n \<le> m) \<and>
     (\<forall>kind data n. encoded_size (EndpointControl kind data) = Some n \<longrightarrow> length data \<le> n)"

lemma scroll_decode_message:
  assumes spec: "bincode_spec enc dec" "scroll_transport base64 base64_decode encoded_len encoded_size"
    and framed: "write_message enc (PatchMsg inner) = Inr framed"
    and scrolls: "scrolls \<noteq> []" "length scrolls \<le> MAX_SCROLLS"
    and bytes: "bytes = of_nat (length scrolls) # concat (map scroll_bytes scrolls) @ framed"
    and fits: "length (base64 bytes) \<le> MAX_FRAME_SIZE"
  shows "scroll_decode encoded_len base64_decode dec (base64 bytes) = Inr \<lparr>sp_scrolls = scrolls, sp_patch = inner\<rparr>"
proof -
  let ?n = "length scrolls"
  have n: "unat (of_nat ?n :: u8) = ?n" using scrolls(2) by (simp add: unat_of_nat MAX_SCROLLS_def)
  have hdr: "length (concat (map scroll_bytes scrolls)) = ?n * SCROLL_BYTES"
    by (induction scrolls) (simp_all add: length_scroll_bytes)
  have dec: "base64_decode (base64 bytes) = Inr bytes" "length bytes \<le> length (base64 bytes)"
    using spec(2) by (auto simp: scroll_transport_def)
  have limit: "\<not> (case encoded_len MAX_FRAME_SIZE of None \<Rightarrow> 18446744073709551615 | Some n \<Rightarrow> n) < length (base64 bytes)"
    using spec(2) fits by (cases "encoded_len MAX_FRAME_SIZE") (fastforce simp: scroll_transport_def MAX_FRAME_SIZE_def)+
  have body: "drop (1 + ?n * SCROLL_BYTES) bytes = framed" "slice 1 (?n * SCROLL_BYTES) bytes = concat (map scroll_bytes scrolls)"
    by (simp_all add: bytes hdr [symmetric] slice_def)
  have "length framed \<le> MAX_FRAME_SIZE + 4" using dec(2) fits by (simp add: bytes)
  from read_message_written [OF spec(1) framed this, of "[]"] have
    read: "read_message dec \<lparr>rd_bytes = framed, rd_error = None\<rparr> MAX_FRAME_SIZE = (Inr (PatchMsg inner), \<lparr>rd_bytes = [], rd_error = None\<rparr>)"
    by simp
  have "map decode_scroll_chunk (chunks SCROLL_BYTES (concat (map scroll_bytes scrolls))) = scrolls"
    using chunks_concat [of SCROLL_BYTES "map scroll_bytes scrolls"]
    by (simp add: length_scroll_bytes SCROLL_BYTES_def decode_scroll_bytes o_def)
  moreover have "hd bytes = of_nat ?n" "bytes \<noteq> []" "\<not> length bytes < 1 + ?n * SCROLL_BYTES"
    by (simp_all add: bytes hdr)
  ultimately show ?thesis
    using scrolls by (simp add: scroll_decode_def Let_def dec limit n body read not_less del: One_nat_def)
qed

lemma scroll_message_delivers:
  assumes "bincode_spec enc dec" "scroll_transport base64 base64_decode encoded_len encoded_size"
    and "scroll_message enc base64 encoded_size previous patch = Some msg"
    and "\<forall>row \<in> set (patch_rows patch). row_fits row (fr_width (sf_frame previous)) (fr_height (sf_frame previous))"
    and "rows_apart (fr_width (sf_frame previous)) (patch_rows patch)" "panes_apart (patch_panes patch)"
  shows "\<exists>data sp patch' T. msg = EndpointControl scroll_MESSAGE_KIND data \<and>
    scroll_decode encoded_len base64_decode dec data = Inr sp \<and>
    apply_patch (fr_cells (sf_frame previous)) (fr_width (sf_frame previous)) (fr_height (sf_frame previous)) sp =
      Some (Inr patch', T) \<and>
    apply_rows (fr_cells (sf_frame previous)) (fr_width (sf_frame previous)) (patch_rows patch) = Some T \<and>
    apply_rows (fr_cells (sf_frame previous)) (fr_width (sf_frame previous)) (patch_rows patch') = Some T \<and>
    patch' = patch\<lparr>patch_rows := patch_rows patch'\<rparr>"
proof -
  let ?f = "sf_frame previous" and ?rows = "patch_rows patch"
  obtain scrolls residual where loop: "scroll_loop previous patch (patch_panes patch) [] [] = (scrolls, residual)"
    by fastforce
  from assms(3) loop have len: "length (fr_cells ?f) = unat (fr_width ?f) * unat (fr_height ?f)" and ne: "scrolls \<noteq> []"
    by (auto simp: scroll_message_def Let_def split: if_splits)
  with assms(3) loop obtain framed bytes n where w: "write_message enc (PatchMsg (scroll_inner patch scrolls residual)) = Inr framed"
    and bytes: "bytes = of_nat (length scrolls) # concat (map scroll_bytes scrolls) @ framed"
    and msg: "msg = EndpointControl scroll_MESSAGE_KIND (base64 bytes)" "encoded_size msg = Some n" "n \<le> MAX_FRAME_SIZE"
    by (auto simp: scroll_message_def Let_def split: sum.splits option.splits if_splits)
  obtain T where T: "apply_rows (fr_cells ?f) (fr_width ?f) ?rows = Some T"
    using apply_rows_total [of ?rows "fr_width ?f" "fr_cells ?f"] assms(4) row_fits_end len by auto
  have ok: "scrolls_ok (fr_width ?f) (fr_height ?f) (fr_cells ?f) T scrolls residual" and disj: "scrolls_disjoint scrolls"
    and few: "length scrolls \<le> MAX_SCROLLS"
    using scroll_loop_spec [OF len assms(4) T loop] assms(6)
    by (auto simp: scrolls_ok_def spans_of_def panes_apart_def MAX_SCROLLS_def)
  let ?sp = "\<lparr>sp_scrolls = scrolls, sp_patch = scroll_inner patch scrolls residual\<rparr>"
  have "length (base64 bytes) \<le> MAX_FRAME_SIZE"
    using assms(2) msg unfolding scroll_transport_def by fastforce
  note decoded = scroll_decode_message [OF assms(1,2) w ne few bytes this]
  obtain cells1 where c1: "apply_scrolls (fr_cells ?f) (fr_width ?f) scrolls = Some cells1"
      "apply_rows cells1 (fr_width ?f) (patch_rows (scroll_inner patch scrolls residual)) = Some T"
    using scrolled_residual [OF ok disj len T assms(4,5)] by (auto simp: scroll_inner_def)
  have "\<forall>row \<in> set (patch_rows (scroll_inner patch scrolls residual)). row_fits row (fr_width ?f) (fr_height ?f)"
    using assms(4) ok by (auto simp: scroll_inner_def scrolls_ok_def)
  with c1 len ok disj obtain patch' where p: "apply_patch (fr_cells ?f) (fr_width ?f) (fr_height ?f) ?sp = Some (Inr patch', T)"
    by (auto simp: apply_patch_def Let_def scrolls_ok_def)
  from apply_patch_applies [OF p] have "apply_rows (fr_cells ?f) (fr_width ?f) (patch_rows patch') = Some T"
    and "patch' = patch\<lparr>patch_rows := patch_rows patch'\<rparr>" by (simp_all add: scroll_inner_def)
  with decoded p T msg(1) show ?thesis by blast
qed

text \<open>C17: when the sender chooses a scroll message, a receiver with the same committed grid decodes
  it and, whatever shifts the hashes nominated, ends with exactly the grid the plain patch
  produces; the patch it hands on takes the old grid there too and is otherwise the sender's.\<close>

theorem scroll_message_roundtrip:
  assumes "bincode_spec enc dec" "scroll_transport base64 base64_decode encoded_len encoded_size"
    and "scroll_message enc base64 encoded_size previous patch = Some msg"
    and "\<forall>row \<in> set (patch_rows patch). row_fits row (fr_width (sf_frame previous)) (fr_height (sf_frame previous))"
    and "rows_apart (fr_width (sf_frame previous)) (patch_rows patch)" "panes_apart (patch_panes patch)"
  shows "\<exists>data sp patch' T. msg = EndpointControl scroll_MESSAGE_KIND data \<and>
    scroll_decode encoded_len base64_decode dec data = Inr sp \<and>
    apply_patch (fr_cells (sf_frame previous)) (fr_width (sf_frame previous)) (fr_height (sf_frame previous)) sp =
      Some (Inr patch', T) \<and>
    apply_rows (fr_cells (sf_frame previous)) (fr_width (sf_frame previous)) (patch_rows patch) = Some T \<and>
    apply_rows (fr_cells (sf_frame previous)) (fr_width (sf_frame previous)) (patch_rows patch') = Some T \<and>
    patch' = patch\<lparr>patch_rows := patch_rows patch'\<rparr>"
  using assms by (rule scroll_message_delivers)

text \<open>An example for the hypotheses: four rows that scroll up by one, with a code for the one
  inner message.\<close>

definition example_pane :: PaneSurfacePane where
  "example_pane = \<lparr>sp_pane_id = ''p'', sp_content_revision = 0,
     sp_rect = \<lparr>sr_x = 0, sr_y = 0, sr_width = 1, sr_height = 4\<rparr>,
     sp_inner_rect = \<lparr>sr_x = 0, sr_y = 0, sr_width = 1, sr_height = 4\<rparr>,
     sp_scrollbar_rect = None, sp_scroll = None, sp_focused = True, sp_mouse_reporting = False,
     sp_sgr_pixel_mouse = False, sp_alternate_screen_active = False, sp_pixel_width = 0, sp_pixel_height = 0\<rparr>"

definition example_surface :: PaneSurfaceFrame where
  "example_surface = \<lparr>sf_boot_id = ''b'', sf_projection_revision = 1, sf_surface_revision = 1,
     sf_frame = \<lparr>fr_cells = letter_grid ''abcd'', fr_width = 1, fr_height = 4, fr_cursor = None,
       fr_hyperlinks = [], fr_graphics = []\<rparr>,
     sf_panes = [example_pane], sf_splits = [], sf_popup = None,
     sf_graphics = \<lparr>gs_assets = [], gs_placements = [], gs_retained_assets = []\<rparr>\<rparr>"

definition example_patch :: "PaneSurfacePatchRow list \<Rightarrow> PaneSurfacePatch" where
  "example_patch rows = \<lparr>patch_boot_id = ''b'', patch_projection_revision = 1, patch_base_surface_revision = 1,
     patch_surface_revision = 2, patch_rows = rows, patch_panes = [example_pane], patch_cursor = None\<rparr>"

definition letter_row :: "u16 \<Rightarrow> char \<Rightarrow> PaneSurfacePatchRow" where
  "letter_row y c = \<lparr>row_x = 0, row_y = y, row_cells = [blank_cell [c]]\<rparr>"

lemma example_scroll:
  "pane_scroll (sf_frame example_surface) (sp_inner_rect example_pane)
     [letter_row 0 CHR ''b'', letter_row 1 CHR ''c'', letter_row 2 CHR ''d'', letter_row 3 CHR ''e''] =
   Some (1, [letter_row 3 CHR ''e''])"
  by code_simp
definition char_base64 :: "u8 list \<Rightarrow> string" where "char_base64 = map (\<lambda>b. char_of (unat b))"

definition example_rows :: "PaneSurfacePatchRow list" where
  "example_rows = [letter_row 0 CHR ''b'', letter_row 1 CHR ''c'', letter_row 2 CHR ''d'', letter_row 3 CHR ''e'']"

definition example_message :: "(unit, unit) ServerMessage" where
  "example_message = PatchMsg (example_patch [letter_row 3 CHR ''e''])"

definition control_size :: "(unit, unit) ServerMessage \<Rightarrow> nat option" where
  "control_size m = (case m of EndpointControl kind data \<Rightarrow> Some (length data) | _ \<Rightarrow> None)"

lemma char_base64_transport:
  "scroll_transport char_base64 (\<lambda>cs. Inr (map (\<lambda>c. of_nat (of_char c)) cs)) Some control_size"
proof -
  have "unat b < 256" for b :: u8 using unsigned_less [of b, where ?'a = nat] by simp
  then show ?thesis by (auto simp: scroll_transport_def char_base64_def control_size_def o_def intro!: map_idI)
qed

lemma example_sends:
  "scroll_message (\<lambda>m. if m = example_message then Inr [7] else Inl []) char_base64 control_size
     example_surface (example_patch example_rows) =
   Some (EndpointControl scroll_MESSAGE_KIND (char_base64 (1 # scroll_bytes \<lparr>scroll_rect = sp_inner_rect example_pane, scroll_shift = 1\<rparr> @
     [1, 0, 0, 0, 7])))"
proof -
  have "committed example_surface example_pane" by (simp add: committed_def example_surface_def)
  moreover have "scroll_fits \<lparr>scroll_rect = sp_inner_rect example_pane, scroll_shift = 1\<rparr>
      (fr_width (sf_frame example_surface)) (fr_height (sf_frame example_surface))"
    by (simp add: scroll_fits_def Let_def unsigned_abs_def checked_add_def example_pane_def example_surface_def)
  ultimately have loop: "scroll_loop example_surface (example_patch example_rows) [example_pane] [] [] =
      ([\<lparr>scroll_rect = sp_inner_rect example_pane, scroll_shift = 1\<rparr>], [letter_row 3 CHR ''e''])"
    using example_scroll by (simp add: example_patch_def example_rows_def MAX_SCROLLS_def Let_def)
  have inner: "PatchMsg (scroll_inner (example_patch example_rows)
      [\<lparr>scroll_rect = sp_inner_rect example_pane, scroll_shift = 1\<rparr>] [letter_row 3 CHR ''e'']) = example_message"
    by code_simp
  have "patch_panes (example_patch example_rows) = [example_pane]" by (simp add: example_patch_def)
  moreover have "length (fr_cells (sf_frame example_surface)) =
      unat (fr_width (sf_frame example_surface)) * unat (fr_height (sf_frame example_surface))"
    by (simp add: example_surface_def letter_grid_def)
  ultimately show ?thesis
    by (simp add: scroll_message_def Let_def loop inner write_message_def le_bytes32_def control_size_def
        char_base64_def length_scroll_bytes SCROLL_BYTES_def MAX_FRAME_SIZE_def del: scroll_loop.simps)
qed

theorem scroll_message_roundtrip_witness:
  "\<exists>sp patch' T. scroll_decode Some (\<lambda>cs. Inr (map (\<lambda>c. of_nat (of_char c)) cs)) (\<lambda>bytes. Inr (example_message, 1))
      (char_base64 (1 # scroll_bytes \<lparr>scroll_rect = sp_inner_rect example_pane, scroll_shift = 1\<rparr> @ [1, 0, 0, 0, 7])) = Inr sp \<and>
    apply_patch (letter_grid ''abcd'') 1 4 sp = Some (Inr patch', T) \<and>
    apply_rows (letter_grid ''abcd'') 1 example_rows = Some T"
proof -
  have spec: "bincode_spec (\<lambda>m. if m = example_message then Inr [7] else Inl []) (\<lambda>bytes. Inr (example_message, 1))"
    by (simp add: bincode_spec_def)
  have "\<forall>row \<in> set (patch_rows (example_patch example_rows)). row_fits row 1 4"
    by code_simp
  moreover have "rows_apart 1 (patch_rows (example_patch example_rows))" "panes_apart (patch_panes (example_patch example_rows))"
    by (simp_all add: example_patch_def example_rows_def rows_apart_def row_start_def row_end_def letter_row_def panes_apart_def)
  ultimately show ?thesis
    using scroll_message_roundtrip [OF spec char_base64_transport example_sends]
    by (fastforce simp: example_surface_def example_patch_def)
qed
end
