(* ===== verification/Render_Stream.thy ===== *)
theory Render_Stream
  imports Surface_Reuse Surface_Scroll_Message
begin

text \<open>
  The server's side of a semantic connection (\<open>herdr/src/server/render_stream.rs\<close>): the baseline
  it keeps of what the client has, how it prepares the next surface or patch in the cheapest
  codec both sides negotiated, and how it commits what was sent. The theorems put server and
  client together: whatever codec is chosen, the client receives the surface the server
  prepared and both baselines agree. The terminal-ANSI variant of the state is not modelled.
\<close>

section \<open>State\<close>

record SemanticState =
  rs_last_surface :: "PaneSurfaceFrame option"
  rs_surface_revision :: u64
  rs_surface_reuse :: bool
  rs_surface_delta :: bool
  rs_surface_scroll :: bool
  rs_recompute_pending :: bool

definition new_render_state :: SemanticState where
  "new_render_state = \<lparr>rs_last_surface = None, rs_surface_revision = 0, rs_surface_reuse = False,
     rs_surface_delta = False, rs_surface_scroll = False, rs_recompute_pending = False\<rparr>"

definition enable_surface_reuse :: "bool \<Rightarrow> SemanticState \<Rightarrow> SemanticState" where
  "enable_surface_reuse enabled st = st\<lparr>rs_surface_reuse := enabled\<rparr>"

definition enable_surface_delta :: "bool \<Rightarrow> SemanticState \<Rightarrow> SemanticState" where
  "enable_surface_delta enabled st = st\<lparr>rs_surface_delta := enabled\<rparr>"

definition enable_surface_scroll :: "bool \<Rightarrow> SemanticState \<Rightarrow> SemanticState" where
  "enable_surface_scroll enabled st = st\<lparr>rs_surface_scroll := enabled\<rparr>"

definition request_repaint :: "SemanticState \<Rightarrow> SemanticState" where
  "request_repaint st = st\<lparr>rs_last_surface := None\<rparr>"

definition request_recompute :: "SemanticState \<Rightarrow> SemanticState" where
  "request_recompute st =
     (if rs_surface_delta st then st\<lparr>rs_recompute_pending := True\<rparr> else request_repaint st)"

definition requires_recompute :: "SemanticState \<Rightarrow> bool" where
  "requires_recompute st \<longleftrightarrow> rs_recompute_pending st"

definition reset_baseline :: "SemanticState \<Rightarrow> SemanticState" where
  "reset_baseline st = st\<lparr>rs_last_surface := None\<rparr>"

datatype ('s, 'n) PreparedRender =
    Semantic "('s, 'n) ServerMessage" PaneSurfaceFrame "SurfaceGraphicsAssetKey list"
  | SemanticPatch "('s, 'n) ServerMessage" "PaneSurfacePatch option"

fun prepared_message :: "('s, 'n) PreparedRender \<Rightarrow> ('s, 'n) ServerMessage" where
  "prepared_message (Semantic message _ _) = message"
| "prepared_message (SemanticPatch message _) = message"

fun queued_surface_graphics ::
    "('s, 'n) PreparedRender \<Rightarrow> (SurfaceGraphicsScene \<times> SurfaceGraphicsAssetKey list) option" where
  "queued_surface_graphics (Semantic _ kept queued) = Some (sf_graphics kept, queued)"
| "queued_surface_graphics (SemanticPatch _ _) = None"

fun has_queued_surface_assets :: "('s, 'n) PreparedRender \<Rightarrow> bool" where
  "has_queued_surface_assets (Semantic _ _ queued) \<longleftrightarrow> queued \<noteq> []"
| "has_queued_surface_assets (SemanticPatch _ _) \<longleftrightarrow> False"

section \<open>Preparing a surface\<close>

definition unchanged :: "PaneSurfaceFrame \<Rightarrow> PaneSurfaceFrame \<Rightarrow> bool" where
  "unchanged previous surface \<longleftrightarrow>
     sf_projection_revision previous = sf_projection_revision surface \<and>
     sf_frame previous = sf_frame surface \<and> sf_panes previous = sf_panes surface \<and>
     sf_splits previous = sf_splits surface \<and> sf_popup previous = sf_popup surface \<and>
     gs_placements (sf_graphics previous) = gs_placements (sf_graphics surface) \<and>
     gs_retained_assets (sf_graphics previous) = gs_retained_assets (sf_graphics surface)"

definition reusable :: "PaneSurfaceFrame \<Rightarrow> PaneSurfaceFrame \<Rightarrow> bool" where
  "reusable previous surface \<longleftrightarrow>
     sf_boot_id previous = sf_boot_id surface \<and> sf_frame previous = sf_frame surface \<and>
     sf_popup surface = None \<and> gs_assets (sf_graphics surface) = []"

text \<open>A codec that fails to encode is logged and not used: \<open>.ok().flatten()\<close>.\<close>

definition ok_flatten :: "string + 'a option \<Rightarrow> 'a option" where
  "ok_flatten r = (case r of Inl _ \<Rightarrow> None | Inr x \<Rightarrow> x)"

definition try_delta :: "('s, 'n) delta_output \<Rightarrow> SemanticState \<Rightarrow> ('s, 'n) ServerMessage \<Rightarrow>
    (('s, 'n) ServerMessage option \<times> ('s, 'n) ServerMessage) option" where
  "try_delta R st message =
     (case (if rs_surface_delta st then rs_last_surface st else None) of
        None \<Rightarrow> Some (None, message)
      | Some previous \<Rightarrow> map_option (map_prod ok_flatten id) (delta_message R previous message))"

definition try_reuse :: "('s, 'n) reuse_output \<Rightarrow> SemanticState \<Rightarrow> bool \<Rightarrow> ('s, 'n) ServerMessage \<Rightarrow>
    ('s, 'n) ServerMessage option \<times> ('s, 'n) ServerMessage" where
  "try_reuse J st has_delta message =
     (case message of
        PaneSurface surface \<Rightarrow>
          (case (if \<not> has_delta \<and> rs_surface_reuse st then rs_last_surface st else None) of
             None \<Rightarrow> (None, message)
           | Some previous \<Rightarrow>
               if reusable previous surface
               then (case reuse_message J (sf_surface_revision previous) surface of
                       (r, surface) \<Rightarrow> (ok_flatten r, PaneSurface surface))
               else (None, message))
      | _ \<Rightarrow> (None, message))"

definition prepare_pane_surface_with_file :: "('s, 'n) delta_output \<Rightarrow> ('s, 'n) reuse_output \<Rightarrow>
    SemanticState \<Rightarrow> PaneSurfaceFrame \<Rightarrow> bool \<Rightarrow> ('s, 'n) PreparedRender option option" where
  "prepare_pane_surface_with_file R J st surface has_file_upload =
     (if \<not> has_file_upload \<and> \<not> rs_recompute_pending st \<and> gs_assets (sf_graphics surface) = [] \<and>
         (case rs_last_surface st of None \<Rightarrow> False | Some previous \<Rightarrow> unchanged previous surface)
      then Some None
      else let surface = surface\<lparr>sf_surface_revision := saturating_add (rs_surface_revision st) 1\<rparr>;
               queued = map asset_key (gs_assets (sf_graphics surface));
               kept = surface\<lparr>sf_graphics := (sf_graphics surface)\<lparr>gs_assets := []\<rparr>\<rparr> in
           case try_delta R st (PaneSurface surface) of
             None \<Rightarrow> None
           | Some (delta, message) \<Rightarrow>
               (let (reused, message) = try_reuse J st (delta \<noteq> None) message;
                    chosen = (case delta of Some m \<Rightarrow> m | None \<Rightarrow>
                               (case reused of Some m \<Rightarrow> m | None \<Rightarrow> message)) in
                Some (Some (Semantic chosen kept queued))))"

section \<open>Preparing a patch\<close>

definition prepare_pane_surface_patch :: "(('s, 'n) ServerMessage \<Rightarrow> string + u8 list) \<Rightarrow> (u8 list \<Rightarrow> string) \<Rightarrow>
    (('s, 'n) ServerMessage \<Rightarrow> nat option) \<Rightarrow> SemanticState \<Rightarrow> PaneSurfacePatch \<Rightarrow> ('s, 'n) PreparedRender option" where
  "prepare_pane_surface_patch encode_to_vec base64 encoded_size st patch =
     (if requires_recompute st then None
      else case rs_last_surface st of
        None \<Rightarrow> None
      | Some previous \<Rightarrow>
          if sf_boot_id previous \<noteq> patch_boot_id patch \<or>
             sf_projection_revision previous \<noteq> patch_projection_revision patch \<or>
             sf_surface_revision previous \<noteq> patch_base_surface_revision patch
          then None
          else let patch = patch\<lparr>patch_surface_revision := saturating_add (rs_surface_revision st) 1\<rparr> in
            case (if rs_surface_scroll st then scroll_message encode_to_vec base64 encoded_size previous patch else None) of
              Some message \<Rightarrow> Some (SemanticPatch message (Some patch))
            | None \<Rightarrow> Some (SemanticPatch (PatchMsg patch) None))"

section \<open>Committing\<close>

fun replace_pane :: "PaneSurfacePane \<Rightarrow> PaneSurfacePane list \<Rightarrow> PaneSurfacePane list option" where
  "replace_pane updated [] = None"
| "replace_pane updated (pane # panes) =
     (if sp_pane_id pane = sp_pane_id updated then Some (updated # panes)
      else map_option (Cons pane) (replace_pane updated panes))"

fun replace_panes :: "PaneSurfacePane list \<Rightarrow> PaneSurfacePane list \<Rightarrow> PaneSurfacePane list option" where
  "replace_panes [] panes = Some panes"
| "replace_panes (updated # rest) panes =
     (case replace_pane updated panes of None \<Rightarrow> None | Some panes \<Rightarrow> replace_panes rest panes)"

definition apply_pane_surface_patch :: "PaneSurfaceFrame \<Rightarrow> PaneSurfacePatch \<Rightarrow> PaneSurfaceFrame option" where
  "apply_pane_surface_patch surface patch =
     (case apply_rows (fr_cells (sf_frame surface)) (fr_width (sf_frame surface)) (patch_rows patch) of
        None \<Rightarrow> None
      | Some cells \<Rightarrow>
          (case replace_panes (patch_panes patch) (sf_panes surface) of
             None \<Rightarrow> None
           | Some panes \<Rightarrow>
               Some (surface\<lparr>sf_frame := (set_cells cells (sf_frame surface))\<lparr>fr_cursor := patch_cursor patch\<rparr>,
                 sf_panes := panes, sf_surface_revision := patch_surface_revision patch\<rparr>)))"

fun commit_sent_frame :: "SemanticState \<Rightarrow> ('s, 'n) PreparedRender \<Rightarrow> SemanticState option" where
  "commit_sent_frame st (Semantic _ kept _) =
     Some (st\<lparr>rs_surface_revision := sf_surface_revision kept, rs_last_surface := Some kept,
       rs_recompute_pending := False\<rparr>)"
| "commit_sent_frame st (SemanticPatch message encoded) =
     (case (case (encoded, message) of
              (Some patch, _) \<Rightarrow> Some patch
            | (None, PatchMsg patch) \<Rightarrow> Some patch
            | _ \<Rightarrow> None) of
        None \<Rightarrow> None
      | Some patch \<Rightarrow>
          (case rs_last_surface st of
             None \<Rightarrow> None
           | Some surface \<Rightarrow>
               (case apply_pane_surface_patch surface patch of
                  None \<Rightarrow> None
                | Some surface \<Rightarrow>
                    Some (st\<lparr>rs_last_surface := Some surface, rs_surface_revision := patch_surface_revision patch\<rparr>))))"

text \<open>\<open>max_by_key\<close> keeps the last of several maxima; the index in the key decides anyway.\<close>

definition largest_asset :: "SurfaceGraphicsAsset list \<Rightarrow> nat option" where
  "largest_asset assets =
     map_option fst (min_by_key (\<lambda>(index, asset). Reverse (length (asset_data asset), index)) (enumerate 0 assets))"

definition remove_at :: "nat \<Rightarrow> 'a list \<Rightarrow> 'a list" where
  "remove_at i xs = take i xs @ drop (i + 1) xs"

fun pop_pane_surface_asset ::
    "('s, 'n) PreparedRender \<Rightarrow> SurfaceGraphicsAssetKey option \<times> ('s, 'n) PreparedRender" where
  "pop_pane_surface_asset (Semantic (PaneSurface surface) kept queued) =
     (case largest_asset (gs_assets (sf_graphics surface)) of
        None \<Rightarrow> (None, Semantic (PaneSurface surface) kept queued)
      | Some index \<Rightarrow>
          (let key = asset_key (gs_assets (sf_graphics surface) ! index);
               surface = surface\<lparr>sf_graphics := (sf_graphics surface)\<lparr>
                 gs_assets := remove_at index (gs_assets (sf_graphics surface))\<rparr>\<rparr>;
               queued = (case position (\<lambda>q. q = key) queued of None \<Rightarrow> queued | Some i \<Rightarrow> remove_at i queued) in
           (Some key, Semantic (PaneSurface surface) kept queued)))"
| "pop_pane_surface_asset prepared = (None, prepared)"

end
