(* ===== verification/Surface_Sync.thy ===== *)
theory Surface_Sync
  imports Render_Stream
begin

text \<open>
  Server and client of a semantic connection together: the server of
  \<open>herdr/src/server/render_stream.rs\<close> prepares and commits, the client's decoder of
  \<open>herdr/src/protocol/surface_reuse.rs\<close> receives. Whichever of the full, delta, reuse, patch and
  scroll messages the server picks, the client ends with what the server committed. What the
  encoders and decoders of other crates promise is \<open>link_spec\<close>. Every codec is an instance of
  the contract \<open>surface_codec\<close>.
\<close>

section \<open>The two ends\<close>

record ('s, 'n) link =
  link_delta :: "('s, 'n) delta_output"
  link_reuse :: "('s, 'n) reuse_output"
  link_encode :: "('s, 'n) ServerMessage \<Rightarrow> string + u8 list"
  link_base64 :: "u8 list \<Rightarrow> string"
  link_size :: "('s, 'n) ServerMessage \<Rightarrow> nat option"
  link_client :: "(u8 list, 's, 'n) decoder_env"

text \<open>The promises: what bincode writes is the layout the decoder reads, its size is counted
  right, base64 is undone and never shorter than its input, JSON is read back.\<close>

definition delta_sender_spec :: "encs \<Rightarrow> ('s, 'n) delta_output \<Rightarrow> bool" where
  "delta_sender_spec E R \<longleftrightarrow>
     (\<forall>delta bytes. out_encode R delta = Inr bytes \<longrightarrow> bytes = enc_delta E delta) \<and>
     (\<forall>delta n. out_size_delta R delta = Inr n \<longrightarrow> n = length (enc_delta E delta)) \<and>
     (\<forall>bytes n. out_encoded_len R (length bytes) = Some n \<longrightarrow> length (out_base64 R bytes) = n) \<and>
     (\<forall>bytes. length bytes \<le> length (out_base64 R bytes))"

definition json_spec :: "('s, 'n) reuse_output \<Rightarrow> (string \<Rightarrow> string + SurfaceReuse) \<Rightarrow> bool" where
  "json_spec J from_json \<longleftrightarrow> (\<forall>reuse data. to_json J reuse = Inr data \<longrightarrow> from_json data = Inr reuse)"

definition link_spec :: "('s, 'n) link \<Rightarrow> bool" where
  "link_spec L \<longleftrightarrow>
     (\<exists>E. prims_spec E (env_prims (link_client L)) \<and> delta_sender_spec E (link_delta L)) \<and>
     transport_spec (out_base64 (link_delta L)) (env_input (link_client L)) \<and>
     json_spec (link_reuse L) (env_from_json (link_client L)) \<and>
     bincode_spec (link_encode L) (env_bincode (link_client L)) \<and>
     scroll_transport (link_base64 L) (env_base64 (link_client L)) (env_encoded_len (link_client L)) (link_size L)"

definition agrees :: "Decoder \<Rightarrow> PaneSurfaceFrame \<Rightarrow> bool" where
  "agrees dec surface \<longleftrightarrow>
     (case dec_baseline dec of
        None \<Rightarrow> False
      | Some base \<Rightarrow>
          cb_boot_id base = sf_boot_id surface \<and>
          cb_projection_revision base = sf_projection_revision surface \<and>
          cb_surface_revision base = sf_surface_revision surface \<and>
          cb_width base = fr_width (sf_frame surface) \<and> cb_height base = fr_height (sf_frame surface) \<and>
          cb_cells base = fr_cells (sf_frame surface) \<and>
          (dec_surface_delta dec \<longrightarrow> cb_popup base = popup_baseline surface))"

lemma agreesE:
  assumes "agrees dec surface"
  obtains base where "dec_baseline dec = Some base" "cb_boot_id base = sf_boot_id surface"
    "cb_projection_revision base = sf_projection_revision surface"
    "cb_surface_revision base = sf_surface_revision surface"
    "cb_width base = fr_width (sf_frame surface)" "cb_height base = fr_height (sf_frame surface)"
    "cb_cells base = fr_cells (sf_frame surface)"
    "dec_surface_delta dec \<Longrightarrow> cb_popup base = popup_baseline surface"
  using assms by (auto simp: agrees_def split: option.splits)

text \<open>What the server's own bookkeeping gives the next surface: the next revision, a projection
  that does not go back, links that exist.\<close>

definition next_surface :: "PaneSurfaceFrame \<Rightarrow> PaneSurfaceFrame \<Rightarrow> bool" where
  "next_surface previous surface \<longleftrightarrow>
     sf_surface_revision surface = saturating_add (sf_surface_revision previous) 1 \<and>
     sf_projection_revision previous \<le> sf_projection_revision surface \<and> \<not> invalid_links surface"

text \<open>The contract of a codec: what it sends, a client that agrees with the previous surface
  decodes to the surface, and then agrees with it, its negotiated flags unchanged.\<close>

definition receives :: "('s, 'n) link \<Rightarrow> Decoder \<Rightarrow> ('s, 'n) ServerMessage \<Rightarrow> PaneSurfaceFrame \<Rightarrow> bool" where
  "receives L dec message surface \<longleftrightarrow>
     (\<exists>dec'. decode_message (link_client L) dec message = Some (Inr (PaneSurface surface), dec') \<and> agrees dec' surface \<and>
        dec_surface_delta dec' = dec_surface_delta dec \<and> dec_surface_scroll dec' = dec_surface_scroll dec)"

fun send_all :: "(('s, 'n) link \<Rightarrow> PaneSurfaceFrame \<Rightarrow> PaneSurfaceFrame \<Rightarrow> ('s, 'n) ServerMessage option) \<Rightarrow>
    ('s, 'n) link \<Rightarrow> PaneSurfaceFrame \<Rightarrow> PaneSurfaceFrame list \<Rightarrow> ('s, 'n) ServerMessage list option" where
  "send_all send L previous [] = Some []"
| "send_all send L previous (surface # surfaces) =
     (case send L previous surface of
        None \<Rightarrow> None
      | Some message \<Rightarrow> map_option (Cons message) (send_all send L surface surfaces))"

fun receive_all :: "('s, 'n) link \<Rightarrow> Decoder \<Rightarrow> ('s, 'n) ServerMessage list \<Rightarrow>
    (('s, 'n) ServerMessage list \<times> Decoder) option" where
  "receive_all L dec [] = Some ([], dec)"
| "receive_all L dec (message # messages) =
     (case decode_message (link_client L) dec message of
        Some (Inr message, dec) \<Rightarrow> map_option (\<lambda>(ms, dec). (message # ms, dec)) (receive_all L dec messages)
      | _ \<Rightarrow> None)"

locale surface_codec =
  fixes send :: "('s, 'n) link \<Rightarrow> PaneSurfaceFrame \<Rightarrow> PaneSurfaceFrame \<Rightarrow> ('s, 'n) ServerMessage option"
    and negotiated :: "Decoder \<Rightarrow> bool"
  assumes delivers: "link_spec L \<Longrightarrow> next_surface previous surface \<Longrightarrow> agrees dec previous \<Longrightarrow> negotiated dec \<Longrightarrow>
    send L previous surface = Some message \<Longrightarrow> receives L dec message surface"
    and negotiated_flags: "negotiated dec \<Longrightarrow> dec_surface_delta dec' = dec_surface_delta dec \<Longrightarrow>
      dec_surface_scroll dec' = dec_surface_scroll dec \<Longrightarrow> negotiated dec'"
begin

text \<open>A whole run of surfaces arrives, in order.\<close>

lemma run_delivered:
  assumes "link_spec L" "agrees dec previous" "negotiated dec"
    and "successively next_surface (previous # surfaces)" "send_all send L previous surfaces = Some messages"
  shows "\<exists>dec'. receive_all L dec messages = Some (map PaneSurface surfaces, dec') \<and>
    agrees dec' (last (previous # surfaces)) \<and> negotiated dec'"
  using assms
proof (induction surfaces arbitrary: previous dec messages)
  case (Cons surface surfaces)
  from Cons.prems(5) obtain message rest where m: "send L previous surface = Some message"
      "send_all send L surface surfaces = Some rest" "messages = message # rest"
    by (auto split: option.splits)
  with delivers [of L previous surface dec message] Cons.prems obtain dec' where
    d: "decode_message (link_client L) dec message = Some (Inr (PaneSurface surface), dec')" "agrees dec' surface"
      "dec_surface_delta dec' = dec_surface_delta dec" "dec_surface_scroll dec' = dec_surface_scroll dec"
    by (auto simp: receives_def)
  from Cons.prems(4) have "successively next_surface (surface # surfaces)" by simp
  with Cons.IH [OF Cons.prems(1) d(2) _ _ m(2)] negotiated_flags [OF Cons.prems(3) d(3,4)] obtain dec'' where
    "receive_all L dec' rest = Some (map PaneSurface surfaces, dec'')" "agrees dec'' (last (surface # surfaces))" "negotiated dec''"
    by blast
  then show ?case by (simp add: m(3) d(1))
qed auto

end

section \<open>The codecs\<close>

lemma link_specD:
  assumes "link_spec L"
  obtains E where "prims_spec E (env_prims (link_client L))" "delta_sender_spec E (link_delta L)"
    "transport_spec (out_base64 (link_delta L)) (env_input (link_client L))"
    "json_spec (link_reuse L) (env_from_json (link_client L))"
  using assms by (auto simp: link_spec_def)

lemma receives_full: "receives L dec (PaneSurface surface) surface"
  by (auto simp: receives_def decode_message_def store_surface_def set_baseline_def agrees_def Let_def
      split: option.splits)

lemma stands_for_popup:
  assumes "popup_delta (sf_popup previous) (sf_popup surface) update" "cb_popup base = popup_baseline previous"
    and "metadata_fits surface"
  shows "delta_popup base (sf_popup (take_cells surface)) update = Some (Inr (sf_popup surface))"
proof (cases "sf_popup surface")
  case None
  with assms(1) show ?thesis by (auto simp: popup_delta_def delta_popup_def split: option.splits)
next
  case (Some p)
  have n: "length (fr_cells (pop_frame p)) = unat (fr_width (pop_frame p)) * unat (fr_height (pop_frame p))"
    using assms(3) Some by (simp add: metadata_fits_iff)
  from Some assms(1) consider (replace) "update = Some (Replace (fr_cells (pop_frame p)))"
    | (patch) rows q where "update = Some (Patch rows)" "sf_popup previous = Some q" "same_popup_grid q p (fr_cells (pop_frame p))"
        "apply_rows (fr_cells (pop_frame q)) (fr_width (pop_frame p)) rows = Some (fr_cells (pop_frame p))"
    by (auto simp: popup_delta_def split: option.splits GridUpdate.splits)
  then show ?thesis
  proof cases
    case replace
    with Some show ?thesis by (simp add: delta_popup_def)
  next
    case patch
    with Some assms(2) n show ?thesis
      by (simp add: delta_popup_def popup_baseline_def same_popup_grid_def Let_def)
  qed
qed

lemma surface_of_take: "(take_cells surface)\<lparr>sf_frame := set_cells (fr_cells (sf_frame surface)) (sf_frame (take_cells surface)),
    sf_popup := sf_popup surface\<rparr> = surface"
  by (simp add: take_cells_def)

definition delta_send :: "('s, 'n) link \<Rightarrow> PaneSurfaceFrame \<Rightarrow> PaneSurfaceFrame \<Rightarrow> ('s, 'n) ServerMessage option" where
  "delta_send L previous surface =
     (case delta_message (link_delta L) previous (PaneSurface surface) of
        Some (r, _) \<Rightarrow> ok_flatten r | None \<Rightarrow> None)"

lemma delta_data_read:
  assumes "link_spec L" "encode_delta (link_delta L) (delta_limit (sf_graphics surface)) full_size delta = Inr (Some bytes)"
    and "delta_limits delta" "delta_surface delta = take_cells surface"
  shows "decode_for (env_input (link_client L)) (env_prims (link_client L)) (out_base64 (link_delta L) bytes)
    (fr_width (sf_frame surface), fr_height (sf_frame surface)) = Inr delta"
proof -
  from assms(1) obtain E where E: "prims_spec E (env_prims (link_client L))" "delta_sender_spec E (link_delta L)"
    "transport_spec (out_base64 (link_delta L)) (env_input (link_client L))" by (rule link_specD)
  from assms(2) obtain sz len where e: "out_size_delta (link_delta L) delta = Inr sz" "out_encoded_len (link_delta L) sz = Some len"
      "len \<le> delta_limit (sf_graphics surface)" "out_encode (link_delta L) delta = Inr bytes"
    by (auto simp: encode_delta_def split: if_splits)
  have b: "bytes = enc_delta E delta" "length bytes \<le> length (out_base64 (link_delta L) bytes)" and sz: "sz = length bytes"
    using E(2) e(1,4) by (auto simp: delta_sender_spec_def)
  have len: "length (out_base64 (link_delta L) bytes) \<le> delta_limit (sf_graphics surface)"
    using E(2) e(2,3) unfolding sz delta_sender_spec_def by metis
  have l: "delta_limit (sf_graphics surface) =
      (if has_graphics (sf_graphics (delta_surface delta)) then MAX_GRAPHICS_FRAME_SIZE else MAX_FRAME_SIZE)"
      "delta_limit (sf_graphics surface) \<le> MAX_GRAPHICS_FRAME_SIZE"
    by (auto simp: assms(4) delta_limit_def has_graphics_def MAX_FRAME_SIZE_def MAX_GRAPHICS_FRAME_SIZE_def)
  show ?thesis
    using decode_delta_roundtrip [OF E(1,3) assms(3)] b len l by (simp add: assms(4))
qed

lemma receives_delta:
  assumes "link_spec L" "next_surface previous surface" "agrees dec previous" "dec_surface_delta dec"
    and "delta_send L previous surface = Some message"
  shows "receives L dec message surface"
proof -
  from assms(5) delta_message_total [of "link_delta L" previous "PaneSurface surface"]
  have m: "delta_message (link_delta L) previous (PaneSurface surface) = Some (Inr (Some message), PaneSurface surface)"
    by (auto simp: delta_send_def ok_flatten_def split: sum.splits)
  obtain delta bytes full_size where d: "delta_eligible previous surface"
      "stands_for previous delta surface" "delta_limits delta"
      "encode_delta (link_delta L) (delta_limit (sf_graphics surface)) full_size delta = Inr (Some bytes)"
      "message = EndpointControl delta_MESSAGE_KIND (out_base64 (link_delta L) bytes)"
    by (rule delta_message_sends [OF m]) auto
  from assms(3) obtain base where b: "dec_baseline dec = Some base" "cb_boot_id base = sf_boot_id previous"
    "cb_projection_revision base = sf_projection_revision previous"
    "cb_surface_revision base = sf_surface_revision previous"
    "cb_width base = fr_width (sf_frame previous)" "cb_height base = fr_height (sf_frame previous)"
    "cb_cells base = fr_cells (sf_frame previous)" "dec_surface_delta dec \<Longrightarrow> cb_popup base = popup_baseline previous"
    by (rule agreesE) blast
  have g: "sf_boot_id previous = sf_boot_id surface" "fr_width (sf_frame previous) = fr_width (sf_frame surface)"
      "fr_height (sf_frame previous) = fr_height (sf_frame surface)" "metadata_fits surface"
      "length (fr_cells (sf_frame previous)) = unat (fr_width (sf_frame surface)) * unat (fr_height (sf_frame surface))"
    using d(1) by (simp_all add: delta_eligible_def)
  have read: "decode_for (env_input (link_client L)) (env_prims (link_client L)) (out_base64 (link_delta L) bytes)
      (cb_width base, cb_height base) = Inr delta"
    using delta_data_read [OF assms(1) d(4,3)] d(2) g b by (simp add: stands_for_def)
  have "\<not> delta_mismatch base delta"
    using assms(2) d(2) g b by (simp add: delta_mismatch_def stands_for_def next_surface_def not_less)
  moreover have "apply_rows (cb_cells base) (cb_width base) (delta_rows delta) = Some (fr_cells (sf_frame surface))"
    using d(2) g b by (simp add: stands_for_def)
  moreover have "delta_popup base (sf_popup (delta_surface delta)) (popup_cells delta) = Some (Inr (sf_popup surface))"
    using stands_for_popup [of previous surface "popup_cells delta" base] d(2) g(4) b(8) assms(4)
    by (simp add: stands_for_def)
  moreover have "delta_surface delta = take_cells surface" using d(2) by (simp add: stands_for_def)
  ultimately show ?thesis
    using assms(2,4) read b g surface_of_take [of surface]
    by (simp add: receives_def d(5) decode_message_def decode_delta_def next_surface_def set_baseline_def agrees_def Let_def)
qed

definition reuse_send :: "('s, 'n) link \<Rightarrow> PaneSurfaceFrame \<Rightarrow> PaneSurfaceFrame \<Rightarrow> ('s, 'n) ServerMessage option" where
  "reuse_send L previous surface =
     (if reusable previous surface then ok_flatten (fst (reuse_message (link_reuse L) (sf_surface_revision previous) surface))
      else None)"

lemma kinds_distinct: "reuse_MESSAGE_KIND \<noteq> delta_MESSAGE_KIND" "reuse_MESSAGE_KIND \<noteq> scroll_MESSAGE_KIND"
  "scroll_MESSAGE_KIND \<noteq> delta_MESSAGE_KIND"
  by (simp_all add: reuse_MESSAGE_KIND_def delta_MESSAGE_KIND_def scroll_MESSAGE_KIND_def)

lemma reuse_message_keeps: "snd (reuse_message J revision surface) = surface"
  by (auto simp: reuse_message_def Let_def split: sum.splits)

lemma receives_reuse:
  assumes "link_spec L" "next_surface previous surface" "agrees dec previous"
    and "reuse_send L previous surface = Some message"
  shows "receives L dec message surface"
proof -
  let ?reuse = "\<lparr>reuse_base_revision = sf_surface_revision previous,
      reuse_surface = surface\<lparr>sf_frame := set_cells [] (sf_frame surface)\<rparr>\<rparr>"
  from assms(1) have json: "json_spec (link_reuse L) (env_from_json (link_client L))" by (simp add: link_spec_def)
  from assms(4) obtain data where r: "reusable previous surface" "to_json (link_reuse L) ?reuse = Inr data"
      "message = EndpointControl reuse_MESSAGE_KIND data"
    by (auto simp: reuse_send_def reuse_message_def ok_flatten_def Let_def split: if_splits sum.splits)
  then have from_json: "env_from_json (link_client L) data = Inr ?reuse" using json by (simp add: json_spec_def)
  from assms(3) obtain base where b: "dec_baseline dec = Some base" "cb_boot_id base = sf_boot_id previous"
    "cb_surface_revision base = sf_surface_revision previous" "cb_width base = fr_width (sf_frame previous)"
    "cb_height base = fr_height (sf_frame previous)" "cb_cells base = fr_cells (sf_frame previous)"
    by (rule agreesE) blast
  have "sf_boot_id previous = sf_boot_id surface" "sf_frame previous = sf_frame surface"
    using r(1) by (simp_all add: reusable_def)
  then show ?thesis
    using assms(2) from_json b kinds_distinct
    by (simp add: receives_def r(3) decode_message_def decode_reuse_def reuse_mismatch_def next_surface_def
        set_baseline_def agrees_def Let_def)
qed

interpretation full_codec: surface_codec "\<lambda>L previous surface. Some (PaneSurface surface)" "\<lambda>dec. True"
  by unfold_locales (auto simp: receives_full)

interpretation delta_codec: surface_codec delta_send dec_surface_delta
  by unfold_locales (auto intro: receives_delta)

interpretation reuse_codec: surface_codec reuse_send "\<lambda>dec. True"
  by unfold_locales (auto intro: receives_reuse)

section \<open>The server\<close>

definition synced :: "SemanticState \<Rightarrow> Decoder \<Rightarrow> bool" where
  "synced st dec \<longleftrightarrow> (rs_surface_delta st \<longrightarrow> dec_surface_delta dec) \<and> (rs_surface_scroll st \<longrightarrow> dec_surface_scroll dec) \<and>
     (case rs_last_surface st of
        None \<Rightarrow> True
      | Some surface \<Rightarrow> agrees dec surface \<and> sf_surface_revision surface = rs_surface_revision st)"

definition numbered :: "SemanticState \<Rightarrow> PaneSurfaceFrame \<Rightarrow> PaneSurfaceFrame" where
  "numbered st surface = surface\<lparr>sf_surface_revision := saturating_add (rs_surface_revision st) 1\<rparr>"

definition drop_assets :: "PaneSurfaceFrame \<Rightarrow> PaneSurfaceFrame" where
  "drop_assets surface = surface\<lparr>sf_graphics := (sf_graphics surface)\<lparr>gs_assets := []\<rparr>\<rparr>"

definition acceptable :: "SemanticState \<Rightarrow> PaneSurfaceFrame \<Rightarrow> bool" where
  "acceptable st surface \<longleftrightarrow> \<not> invalid_links surface \<and>
     (case rs_last_surface st of
        None \<Rightarrow> True
      | Some previous \<Rightarrow> sf_projection_revision previous \<le> sf_projection_revision surface)"

lemma agrees_drop_assets [simp]: "agrees dec (drop_assets surface) = agrees dec surface"
  by (simp add: agrees_def drop_assets_def popup_baseline_def split: option.splits)

text \<open>What is prepared: nothing, or the numbered surface in one of the codecs.\<close>

lemma try_delta_message:
  assumes "try_delta (link_delta L) st (PaneSurface surface) = Some (delta, message)"
  shows "message = PaneSurface surface \<and>
    (\<forall>m. delta = Some m \<longrightarrow> (\<exists>previous. rs_last_surface st = Some previous \<and> rs_surface_delta st \<and>
       delta_send L previous surface = Some m))"
proof (cases "rs_surface_delta st \<and> rs_last_surface st \<noteq> None")
  case True
  then obtain previous where p: "rs_last_surface st = Some previous" "rs_surface_delta st" by blast
  obtain r where "delta_message (link_delta L) previous (PaneSurface surface) = Some (r, PaneSurface surface)"
    using delta_message_total by blast
  with assms p show ?thesis by (auto simp: try_delta_def delta_send_def)
qed (use assms in \<open>auto simp: try_delta_def split: if_splits\<close>)

lemma try_delta_total: "\<exists>r. try_delta R st message = Some r"
proof (cases "if rs_surface_delta st then rs_last_surface st else None")
  case (Some previous)
  then show ?thesis using delta_message_total [of R previous message] by (auto simp: try_delta_def)
qed (simp add: try_delta_def)

lemma try_reuse_message:
  assumes "try_reuse (link_reuse L) st has_delta (PaneSurface surface) = (reused, message)"
  shows "message = PaneSurface surface \<and>
    (\<forall>m. reused = Some m \<longrightarrow> (\<exists>previous. rs_last_surface st = Some previous \<and> reuse_send L previous surface = Some m))"
proof (cases "\<not> has_delta \<and> rs_surface_reuse st \<and> (\<exists>p. rs_last_surface st = Some p \<and> reusable p surface)")
  case True
  then obtain p where p: "rs_last_surface st = Some p" "reusable p surface" by blast
  obtain r where "reuse_message (link_reuse L) (sf_surface_revision p) surface = (r, surface)"
    using reuse_message_keeps [of "link_reuse L" "sf_surface_revision p" surface] by (metis prod.collapse)
  with assms p True show ?thesis by (auto simp: try_reuse_def reuse_send_def)
next
  case False
  with assms show ?thesis by (auto simp: try_reuse_def split: if_splits option.splits)
qed

definition codec_message :: "('s, 'n) link \<Rightarrow> SemanticState \<Rightarrow> PaneSurfaceFrame \<Rightarrow> ('s, 'n) ServerMessage \<Rightarrow> bool" where
  "codec_message L st surface message \<longleftrightarrow> message = PaneSurface surface \<or>
     (\<exists>previous. rs_last_surface st = Some previous \<and>
        (rs_surface_delta st \<and> delta_send L previous surface = Some message \<or>
         reuse_send L previous surface = Some message))"

definition skips :: "SemanticState \<Rightarrow> PaneSurfaceFrame \<Rightarrow> bool \<Rightarrow> bool" where
  "skips st surface has_file_upload \<longleftrightarrow>
     \<not> has_file_upload \<and> \<not> rs_recompute_pending st \<and> gs_assets (sf_graphics surface) = [] \<and>
     (case rs_last_surface st of None \<Rightarrow> False | Some previous \<Rightarrow> unchanged previous surface)"

lemma prepare_cases:
  assumes "\<not> skips st surface up"
  shows "\<exists>message. prepare_pane_surface_with_file (link_delta L) (link_reuse L) st surface up =
      Some (Some (Semantic message (drop_assets (numbered st surface)) (map asset_key (gs_assets (sf_graphics surface))))) \<and>
    codec_message L st (numbered st surface) message"
proof -
  let ?s = "numbered st surface"
  obtain delta message where d: "try_delta (link_delta L) st (PaneSurface ?s) = Some (delta, message)"
    using try_delta_total by fastforce
  obtain reused message' where r: "try_reuse (link_reuse L) st (delta \<noteq> None) message = (reused, message')" by fastforce
  note D = try_delta_message [OF d]
  from r D have R: "message' = PaneSurface ?s \<and>
      (\<forall>m. reused = Some m \<longrightarrow> (\<exists>previous. rs_last_surface st = Some previous \<and> reuse_send L previous ?s = Some m))"
    using try_reuse_message [of L st "delta \<noteq> None" ?s reused message'] by simp
  let ?m = "case delta of Some m \<Rightarrow> m | None \<Rightarrow> (case reused of Some m \<Rightarrow> m | None \<Rightarrow> message')"
  have "codec_message L st ?s ?m"
    using D R by (auto simp: codec_message_def split: option.splits)
  moreover have "prepare_pane_surface_with_file (link_delta L) (link_reuse L) st surface up =
      Some (Some (Semantic ?m (drop_assets ?s) (map asset_key (gs_assets (sf_graphics surface)))))"
    using assms d r unfolding prepare_pane_surface_with_file_def skips_def [symmetric] numbered_def drop_assets_def
    by (simp add: Let_def del: not_None_eq)
  ultimately show ?thesis by blast
qed

lemma codec_message_received:
  assumes "link_spec L" "synced st dec" "acceptable st surface"
    and "codec_message L st (numbered st surface) message"
  shows "receives L dec message (numbered st surface)"
proof -
  have links: "\<not> invalid_links (numbered st surface)"
    using assms(3) by (simp add: acceptable_def invalid_links_def numbered_def)
  have "next_surface previous (numbered st surface) \<and> agrees dec previous" if "rs_last_surface st = Some previous" for previous
    using that assms(2,3) links by (simp add: next_surface_def synced_def acceptable_def numbered_def)
  then show ?thesis
    using assms(1,2,4) receives_full delta_codec.delivers reuse_codec.delivers
    unfolding codec_message_def synced_def by blast
qed

lemma commit_synced:
  assumes "synced st dec" "agrees dec' surface" "dec_surface_delta dec' = dec_surface_delta dec"
    and "dec_surface_scroll dec' = dec_surface_scroll dec"
  shows "synced (st\<lparr>rs_surface_revision := sf_surface_revision surface, rs_last_surface := Some (drop_assets surface),
    rs_recompute_pending := False\<rparr>) dec'"
  using assms by (simp add: synced_def) (simp add: drop_assets_def)

lemma surface_step:
  assumes "link_spec L" "synced st dec" "acceptable st surface" "\<not> skips st surface up"
  shows "\<exists>prepared dec' st'.
    prepare_pane_surface_with_file (link_delta L) (link_reuse L) st surface up = Some (Some prepared) \<and>
    decode_message (link_client L) dec (prepared_message prepared) = Some (Inr (PaneSurface (numbered st surface)), dec') \<and>
    commit_sent_frame st prepared = Some st' \<and> rs_last_surface st' = Some (drop_assets (numbered st surface)) \<and>
    synced st' dec'"
proof -
  from prepare_cases [OF assms(4), of L] obtain message where
    p: "prepare_pane_surface_with_file (link_delta L) (link_reuse L) st surface up =
      Some (Some (Semantic message (drop_assets (numbered st surface)) (map asset_key (gs_assets (sf_graphics surface)))))"
      "codec_message L st (numbered st surface) message" by blast
  from codec_message_received [OF assms(1-3) p(2)] obtain dec' where
    d: "decode_message (link_client L) dec message = Some (Inr (PaneSurface (numbered st surface)), dec')"
      "agrees dec' (numbered st surface)" "dec_surface_delta dec' = dec_surface_delta dec"
      "dec_surface_scroll dec' = dec_surface_scroll dec" unfolding receives_def by blast
  have "sf_surface_revision (drop_assets (numbered st surface)) = sf_surface_revision (numbered st surface)"
    by (simp add: drop_assets_def)
  with p(1) d(1) commit_synced [OF assms(2) d(2-4)] show ?thesis by simp
qed

section \<open>Patches\<close>

lemma patch_loop_applies:
  assumes "\<forall>row \<in> set rows. row_fits row (cb_width base) (cb_height base)"
    and "length (cb_cells base) = unat (cb_width base) * unat (cb_height base)"
    and "apply_rows (cb_cells base) (cb_width base) rows = Some cells"
  shows "patch_loop base rows = (None, base\<lparr>cb_cells := cells\<rparr>)"
  using assms
proof (induction rows arbitrary: base)
  case (Cons row rows)
  let ?base = "base\<lparr>cb_cells := splice (cb_cells base) (row_start (cb_width base) row) (row_cells row)\<rparr>"
  from Cons.prems(3) have n: "row_start (cb_width base) row + length (row_cells row) \<le> length (cb_cells base)"
    and a: "apply_rows (cb_cells ?base) (cb_width ?base) rows = Some cells" by (auto split: option.splits)
  have "patch_loop ?base rows = (None, ?base\<lparr>cb_cells := cells\<rparr>)"
    using Cons.IH [OF _ _ a] Cons.prems(1,2) n by simp
  moreover have "row_y row < cb_height base" "unat (row_x row) + length (row_cells row) \<le> unat (cb_width base)"
    using Cons.prems(1) by (simp_all add: row_fits_def)
  ultimately show ?case using n by (simp add: Let_def)
qed simp

definition planned :: "PaneSurfaceFrame \<Rightarrow> PaneSurfacePatch \<Rightarrow> bool" where
  "planned previous patch \<longleftrightarrow>
     length (fr_cells (sf_frame previous)) = unat (fr_width (sf_frame previous)) * unat (fr_height (sf_frame previous)) \<and>
     list_all (\<lambda>row. row_fits row (fr_width (sf_frame previous)) (fr_height (sf_frame previous))) (patch_rows patch) \<and>
     rows_apart (fr_width (sf_frame previous)) (patch_rows patch) \<and> panes_apart (patch_panes patch) \<and>
     list_all (\<lambda>pane. sp_pane_id pane \<in> sp_pane_id ` set (sf_panes previous)) (patch_panes patch)"

lemma replace_pane_total:
  "sp_pane_id pane \<in> sp_pane_id ` set panes \<Longrightarrow>
     \<exists>panes'. replace_pane pane panes = Some panes' \<and> map sp_pane_id panes' = map sp_pane_id panes"
  by (induction panes) auto

lemma replace_panes_total:
  "list_all (\<lambda>pane. sp_pane_id pane \<in> sp_pane_id ` set panes) updates \<Longrightarrow>
     \<exists>panes'. replace_panes updates panes = Some panes' \<and> map sp_pane_id panes' = map sp_pane_id panes"
proof (induction updates arbitrary: panes)
  case (Cons u us)
  then obtain panes1 where p: "replace_pane u panes = Some panes1" "map sp_pane_id panes1 = map sp_pane_id panes"
    using replace_pane_total by fastforce
  then have "sp_pane_id ` set panes1 = sp_pane_id ` set panes" by (metis list.set_map)
  with Cons.IH [of panes1] Cons.prems p show ?case by auto
qed simp

lemma planned_applies:
  assumes "planned previous patch"
  obtains T panes where "apply_rows (fr_cells (sf_frame previous)) (fr_width (sf_frame previous)) (patch_rows patch) = Some T"
    "replace_panes (patch_panes patch) (sf_panes previous) = Some panes"
proof -
  have "\<forall>row \<in> set (patch_rows patch). row_end (fr_width (sf_frame previous)) row \<le> length (fr_cells (sf_frame previous))"
    using assms row_fits_end by (auto simp: planned_def list_all_iff)
  from apply_rows_total [OF this] obtain T where
    "apply_rows (fr_cells (sf_frame previous)) (fr_width (sf_frame previous)) (patch_rows patch) = Some T" by blast
  with replace_panes_total [of "sf_panes previous" "patch_panes patch"] assms that show thesis
    by (auto simp: planned_def)
qed

text \<open>A client that agrees with the previous surface and takes over a patch agrees with the
  patched surface.\<close>

definition patched :: "PaneSurfaceFrame \<Rightarrow> PaneSurfacePatch \<Rightarrow> CellData list \<Rightarrow> PaneSurfacePane list \<Rightarrow> PaneSurfaceFrame" where
  "patched previous patch cells panes = previous\<lparr>sf_frame := (set_cells cells (sf_frame previous))\<lparr>fr_cursor := patch_cursor patch\<rparr>,
     sf_panes := panes, sf_surface_revision := patch_surface_revision patch\<rparr>"

lemma agrees_patched:
  assumes "agrees dec previous" "dec_baseline dec = Some base"
  shows "agrees (set_baseline (base\<lparr>cb_cells := cells, cb_surface_revision := patch_surface_revision patch\<rparr>) dec)
    (patched previous patch cells panes)"
  using assms by (simp add: agrees_def patched_def set_baseline_def popup_baseline_def)

definition fits_baseline :: "SemanticState \<Rightarrow> PaneSurfaceFrame \<Rightarrow> PaneSurfacePatch \<Rightarrow> bool" where
  "fits_baseline st previous patch \<longleftrightarrow> sf_boot_id previous = patch_boot_id patch \<and>
     sf_projection_revision previous = patch_projection_revision patch \<and>
     sf_surface_revision previous = patch_base_surface_revision patch"

definition numbered_patch :: "SemanticState \<Rightarrow> PaneSurfacePatch \<Rightarrow> PaneSurfacePatch" where
  "numbered_patch st patch = patch\<lparr>patch_surface_revision := saturating_add (rs_surface_revision st) 1\<rparr>"

lemma matches_numbered:
  assumes "synced st dec" "rs_last_surface st = Some previous" "dec_baseline dec = Some base"
    and "fits_baseline st previous patch"
  shows "matches_patch base (numbered_patch st patch)"
  using assms by (simp add: synced_def agrees_def matches_patch_def fits_baseline_def numbered_patch_def)

lemma matches_rows: "matches_patch base (patch\<lparr>patch_rows := rows\<rparr>) = matches_patch base patch"
  by (simp add: matches_patch_def)

text \<open>A received patch message: the patch handed on takes the previous cells where the sender's
  does, and is otherwise the sender's.\<close>

lemma receives_patch:
  assumes "link_spec L" "synced st dec" "rs_last_surface st = Some previous" "dec_baseline dec = Some base"
    and "fits_baseline st previous patch" "planned previous patch"
    and T: "apply_rows (fr_cells (sf_frame previous)) (fr_width (sf_frame previous)) (patch_rows patch) = Some T"
    and "message = PatchMsg (numbered_patch st patch) \<or> rs_surface_scroll st \<and>
      scroll_message (link_encode L) (link_base64 L) (link_size L) previous (numbered_patch st patch) = Some message"
  shows "\<exists>rows. decode_message (link_client L) dec message =
      Some (Inr (PatchMsg ((numbered_patch st patch)\<lparr>patch_rows := rows\<rparr>)),
        set_baseline (base\<lparr>cb_cells := T, cb_surface_revision := patch_surface_revision (numbered_patch st patch)\<rparr>) dec) \<and>
    apply_rows (fr_cells (sf_frame previous)) (fr_width (sf_frame previous)) rows = Some T"
  using assms(8)
proof
  let ?patch = "numbered_patch st patch"
  have b: "cb_width base = fr_width (sf_frame previous)" "cb_height base = fr_height (sf_frame previous)"
      "cb_cells base = fr_cells (sf_frame previous)"
    using assms(2-4) by (auto simp: synced_def agrees_def)
  note matches = matches_numbered [OF assms(2-5)]
  have rows: "patch_rows ?patch = patch_rows patch" "patch_panes ?patch = patch_panes patch"
    by (simp_all add: numbered_patch_def)
  {
    assume m: "message = PatchMsg ?patch"
    have "patch_loop base (patch_rows ?patch) = (None, base\<lparr>cb_cells := T\<rparr>)"
      using patch_loop_applies [of "patch_rows patch" base T] assms(6) T b rows by (simp add: planned_def list_all_iff)
    then have "store_patch dec ?patch = (Inr (),
        set_baseline (base\<lparr>cb_cells := T, cb_surface_revision := patch_surface_revision ?patch\<rparr>) dec)"
      using assms(4) matches by (simp add: store_patch_def)
    moreover have "?patch\<lparr>patch_rows := patch_rows patch\<rparr> = ?patch" by (simp add: numbered_patch_def)
    ultimately show ?thesis using T m by (intro exI [of _ "patch_rows patch"]) (simp add: decode_message_def)
  next
    assume m: "rs_surface_scroll st \<and>
      scroll_message (link_encode L) (link_base64 L) (link_size L) previous ?patch = Some message"
    have spec: "bincode_spec (link_encode L) (env_bincode (link_client L))"
      "scroll_transport (link_base64 L) (env_base64 (link_client L)) (env_encoded_len (link_client L)) (link_size L)"
      using assms(1) by (simp_all add: link_spec_def)
    have "\<forall>row \<in> set (patch_rows ?patch). row_fits row (fr_width (sf_frame previous)) (fr_height (sf_frame previous))"
      "rows_apart (fr_width (sf_frame previous)) (patch_rows ?patch)" "panes_apart (patch_panes ?patch)"
      using assms(6) by (simp_all add: planned_def list_all_iff rows)
    from scroll_message_delivers [OF spec conjunct2 [OF m] this] obtain data sp patch' where
      s: "message = EndpointControl scroll_MESSAGE_KIND data"
        "scroll_decode (env_encoded_len (link_client L)) (env_base64 (link_client L)) (env_bincode (link_client L)) data = Inr sp"
        "apply_patch (cb_cells base) (cb_width base) (cb_height base) sp = Some (Inr patch', T)"
        "apply_rows (fr_cells (sf_frame previous)) (fr_width (sf_frame previous)) (patch_rows patch') = Some T"
        "patch' = ?patch\<lparr>patch_rows := patch_rows patch'\<rparr>"
      using T by (auto simp: b rows)
    have revision: "patch_surface_revision patch' = patch_surface_revision ?patch"
      by (subst s(5)) simp
    have "patch' = (sp_patch sp)\<lparr>patch_rows := patch_rows patch'\<rparr>"
      using apply_patch_cases [of "cb_cells base" "cb_width base" "cb_height base" sp] s(3) by auto
    then have "matches_patch base (sp_patch sp)" using matches s(5) matches_rows by metis
    moreover have "dec_surface_scroll dec" using m assms(2) by (simp add: synced_def)
    ultimately have "decode_message (link_client L) dec message = Some (Inr (PatchMsg patch'),
        set_baseline (base\<lparr>cb_cells := T, cb_surface_revision := patch_surface_revision ?patch\<rparr>) dec)"
      using s(1-3) assms(4) kinds_distinct revision by (simp add: decode_message_def decode_scroll_def)
    with s(4,5) show ?thesis by metis
  }
qed

lemma patch_step:
  assumes "link_spec L" "synced st dec" "rs_last_surface st = Some previous" "planned previous patch"
    and "prepare_pane_surface_patch (link_encode L) (link_base64 L) (link_size L) st patch = Some prepared"
  shows "\<exists>patch' dec' st' surface.
    decode_message (link_client L) dec (prepared_message prepared) = Some (Inr (PatchMsg patch'), dec') \<and>
    apply_pane_surface_patch previous patch' = Some surface \<and>
    apply_pane_surface_patch previous (numbered_patch st patch) = Some surface \<and>
    commit_sent_frame st prepared = Some st' \<and> rs_last_surface st' = Some surface \<and> synced st' dec'"
proof -
  let ?patch = "numbered_patch st patch"
  have fits: "fits_baseline st previous patch"
    using assms(3,5) by (auto simp: prepare_pane_surface_patch_def fits_baseline_def split: if_splits)
  have msg: "prepared_message prepared = PatchMsg ?patch \<or> rs_surface_scroll st \<and>
      scroll_message (link_encode L) (link_base64 L) (link_size L) previous ?patch = Some (prepared_message prepared)"
    and prep: "prepared = SemanticPatch (prepared_message prepared) (Some ?patch) \<or> prepared = SemanticPatch (PatchMsg ?patch) None"
    using assms(3,5) by (auto simp: prepare_pane_surface_patch_def numbered_patch_def Let_def split: if_splits option.splits)
  from assms(2,3) obtain base where base: "dec_baseline dec = Some base" and agrees: "agrees dec previous"
    by (auto simp: synced_def agrees_def split: option.splits)
  from assms(4) obtain T panes where T: "apply_rows (fr_cells (sf_frame previous)) (fr_width (sf_frame previous)) (patch_rows patch) = Some T"
      "replace_panes (patch_panes patch) (sf_panes previous) = Some panes" by (rule planned_applies)
  from receives_patch [OF assms(1-3) base fits assms(4) T(1) msg] obtain rows where
    d: "decode_message (link_client L) dec (prepared_message prepared) = Some (Inr (PatchMsg (?patch\<lparr>patch_rows := rows\<rparr>)),
        set_baseline (base\<lparr>cb_cells := T, cb_surface_revision := patch_surface_revision ?patch\<rparr>) dec)"
      "apply_rows (fr_cells (sf_frame previous)) (fr_width (sf_frame previous)) rows = Some T" by blast
  have fields: "patch_rows ?patch = patch_rows patch" "patch_panes ?patch = patch_panes patch" by (simp_all add: numbered_patch_def)
  have ap: "apply_pane_surface_patch previous ?patch = Some (patched previous ?patch T panes)"
      "apply_pane_surface_patch previous (?patch\<lparr>patch_rows := rows\<rparr>) = Some (patched previous ?patch T panes)"
    using T d(2) fields by (simp_all add: apply_pane_surface_patch_def patched_def)
  have commit: "commit_sent_frame st prepared = Some (st\<lparr>rs_last_surface := Some (patched previous ?patch T panes),
      rs_surface_revision := patch_surface_revision ?patch\<rparr>)"
    by (rule disjE [OF prep]; erule ssubst; simp add: assms(3) ap(1))
  show ?thesis
    using d(1) ap commit agrees_patched [OF agrees base, where cells = T and patch = ?patch and panes = panes] assms(2)
    by (simp add: synced_def patched_def set_baseline_def)
qed

section \<open>The connection as a machine\<close>

text \<open>The steps of a connection: a surface or a patch is sent, received and committed; the server
  forgets its baseline or asks for a recomputation. The flags are negotiated once.\<close>

type_synonym ('s, 'n) connection = "('s, 'n) link \<times> SemanticState \<times> Decoder"

inductive link_step :: "('s, 'n) connection \<Rightarrow> ('s, 'n) connection \<Rightarrow> bool" where
  step_surface: "acceptable st surface \<Longrightarrow>
    prepare_pane_surface_with_file (link_delta L) (link_reuse L) st surface up = Some (Some prepared) \<Longrightarrow>
    decode_message (link_client L) dec (prepared_message prepared) = Some (r, dec') \<Longrightarrow>
    commit_sent_frame st prepared = Some st' \<Longrightarrow> link_step (L, st, dec) (L, st', dec')"
| step_patch: "rs_last_surface st = Some previous \<Longrightarrow> planned previous patch \<Longrightarrow>
    prepare_pane_surface_patch (link_encode L) (link_base64 L) (link_size L) st patch = Some prepared \<Longrightarrow>
    decode_message (link_client L) dec (prepared_message prepared) = Some (r, dec') \<Longrightarrow>
    commit_sent_frame st prepared = Some st' \<Longrightarrow> link_step (L, st, dec) (L, st', dec')"
| step_reset: "link_step (L, st, dec) (L, reset_baseline st, dec)"
| step_repaint: "link_step (L, st, dec) (L, request_repaint st, dec)"
| step_recompute: "link_step (L, st, dec) (L, request_recompute st, dec)"

definition negotiated_state :: "bool \<Rightarrow> bool \<Rightarrow> bool \<Rightarrow> SemanticState" where
  "negotiated_state reuse delta scroll =
     enable_surface_scroll scroll (enable_surface_delta delta (enable_surface_reuse reuse new_render_state))"

definition link_init :: "('s, 'n) connection \<Rightarrow> bool" where
  "link_init c \<longleftrightarrow> (\<exists>L reuse delta scroll. link_spec L \<and>
     c = (L, negotiated_state reuse delta scroll, new_decoder delta scroll))"

definition link_inv :: "('s, 'n) connection \<Rightarrow> bool" where
  "link_inv c \<longleftrightarrow> link_spec (fst c) \<and> synced (fst (snd c)) (snd (snd c))"

lemma synced_initially: "synced (negotiated_state reuse delta scroll) (new_decoder delta scroll)"
  by (simp add: synced_def negotiated_state_def new_render_state_def new_decoder_def enable_surface_scroll_def
      enable_surface_delta_def enable_surface_reuse_def)

lemma synced_requests:
  assumes "synced st dec"
  shows "synced (reset_baseline st) dec" "synced (request_repaint st) dec" "synced (request_recompute st) dec"
  using assms by (auto simp: synced_def reset_baseline_def request_repaint_def request_recompute_def split: option.splits)

lemma prepared_not_skipped:
  "prepare_pane_surface_with_file R J st surface up = Some (Some prepared) \<Longrightarrow> \<not> skips st surface up"
  by (auto simp: prepare_pane_surface_with_file_def skips_def)

lemma link_step_inv:
  assumes "link_inv c" "link_step c c'"
  shows "link_inv c'"
  using assms(2)
proof (cases rule: link_step.cases)
  case (step_surface st surface L up prepared dec r dec' st')
  with assms(1) have "link_spec L" "synced st dec" by (simp_all add: link_inv_def)
  from surface_step [OF this step_surface(3) prepared_not_skipped [OF step_surface(4)]] step_surface(2,4-6) \<open>link_spec L\<close>
  show ?thesis by (auto simp: link_inv_def)
next
  case (step_patch st previous patch L prepared dec r dec' st')
  with assms(1) have "link_spec L" "synced st dec" by (simp_all add: link_inv_def)
  from patch_step [OF this step_patch(3-5)] step_patch(2,6,7) \<open>link_spec L\<close>
  show ?thesis by (auto simp: link_inv_def)
qed (use assms(1) synced_requests in \<open>auto simp: link_inv_def\<close>)

interpretation connection: safe_machine link_init link_step link_inv
proof
  show "link_init c \<Longrightarrow> link_inv c" for c :: "('s, 'n) connection"
    using synced_initially by (auto simp: link_init_def link_inv_def)
next
  show "link_inv c \<Longrightarrow> link_step c d \<Longrightarrow> link_inv d" for c d :: "('s, 'n) connection"
    by (rule link_step_inv)
qed

section \<open>An example connection\<close>

text \<open>One-byte codes for a few values of every type; any other value has a code too long for the
  protocol. It has every codec, with one JSON text and one inner message.\<close>

definition short :: "('a \<Rightarrow> u8 option) \<Rightarrow> 'a \<Rightarrow> u8 list" where
  "short code x = (case code x of Some b \<Rightarrow> [b] | None \<Rightarrow> replicate (Suc MAX_GRAPHICS_FRAME_SIZE) 0)"

fun read1 :: "(u8 \<Rightarrow> 'a) \<Rightarrow> (u8 list, 'a) decoder" where
  "read1 f [] = Inl (Other ''end'')"
| "read1 f (b # rest) = Inr (f b, rest)"

lemma reads_short: "(\<And>b. code x = Some b \<Longrightarrow> f b = x) \<Longrightarrow> reads (read1 f) (short code) x"
  by (auto simp: reads_def short_def split: option.splits)

definition byte_code :: "'a::len word \<Rightarrow> u8 option" where
  "byte_code w = (if unat w < 256 then Some (ucast w) else None)"

lemma byte_code: "byte_code w = Some b \<Longrightarrow> ucast b = w"
proof -
  assume "byte_code w = Some b"
  then have "unat w < 256" "b = ucast w" by (auto simp: byte_code_def split: if_splits)
  then show "ucast b = w" by (simp add: word_unat_eq_iff unsigned_ucast_eq take_bit_nat_eq_self)
qed

definition only :: "'a \<Rightarrow> 'a \<Rightarrow> u8 option" where "only y x = (if x = y then Some 0 else None)"

definition cell_code :: "CellData \<Rightarrow> u8 option" where
  "cell_code c = (if c = blank_cell ''a'' then Some 97 else if c = blank_cell ''b'' then Some 98 else None)"

definition cell_of :: "u8 \<Rightarrow> CellData" where
  "cell_of b = blank_cell (if b = 97 then ''a'' else ''b'')"

definition no_code :: "'a \<Rightarrow> u8 option" where "no_code x = None"

definition end_of :: "(u8 list, 'a) decoder" where "end_of d = Inl (Other ''end'')"

definition example_encs :: encs where
  "example_encs = \<lparr>e_u8 = short byte_code, e_u16 = short byte_code, e_u32 = short byte_code, e_u64 = short byte_code,
     e_bool = short (\<lambda>b. Some (of_bool b)), e_string = short (only []), e_cursor = short (only None),
     e_popup_size = short (only None), e_pane = short no_code, e_direction = short no_code, e_rect = short no_code,
     e_asset_key = short no_code, e_placement = short no_code, e_cell = short cell_code\<rparr>"

definition example_prims :: "u8 list prims" where
  "example_prims = \<lparr>p_u8 = read1 ucast, p_u16 = read1 ucast, p_u32 = read1 ucast, p_u64 = read1 ucast,
     p_bool = read1 (\<lambda>b. b = 1), p_string = read1 (\<lambda>_. []), p_cursor = read1 (\<lambda>_. None),
     p_popup_size = read1 (\<lambda>_. None), p_pane = end_of, p_direction = end_of, p_rect = end_of,
     p_asset_key = end_of, p_placement = end_of, p_cell = read1 cell_of,
     p_claim = (\<lambda>n d. Inr d), p_read = (\<lambda>n d. Inr (take n d, drop n d))\<rparr>"

lemma reads_none: "reads p (short no_code) x"
  by (simp add: reads_def short_def no_code_def)

lemma example_prims_spec: "prims_spec example_encs example_prims"
  unfolding prims_spec_def example_encs_def example_prims_def
  by (auto simp: reads_none byte_code dest: byte_code [where 'a = 8] simp: only_def cell_code_def cell_of_def split: if_splits intro!: reads_short)

definition plain_surface :: "string \<Rightarrow> u64 \<Rightarrow> PaneSurfaceFrame" where
  "plain_surface text revision = \<lparr>sf_boot_id = [], sf_projection_revision = 1, sf_surface_revision = revision,
     sf_frame = \<lparr>fr_cells = map (\<lambda>c. blank_cell [c]) text, fr_width = 2, fr_height = 1, fr_cursor = None,
       fr_hyperlinks = [], fr_graphics = []\<rparr>,
     sf_panes = [], sf_splits = [], sf_popup = None,
     sf_graphics = \<lparr>gs_assets = [], gs_placements = [], gs_retained_assets = []\<rparr>\<rparr>"

definition example_size :: "(unit, unit) ServerMessage \<Rightarrow> string + nat" where
  "example_size m = (case m of EndpointControl kind data \<Rightarrow> Inr (length data) | _ \<Rightarrow> Inr 1000)"

definition char_unbase64 :: "string \<Rightarrow> string + u8 list" where
  "char_unbase64 text = Inr (map (\<lambda>c. of_nat (of_char c)) text)"

definition example_link :: "(unit, unit) link" where
  "example_link =
     \<lparr>link_delta = \<lparr>out_size_span = (\<lambda>span. Inr 1), out_size_message = example_size,
        out_size_delta = (\<lambda>delta. Inr (length (enc_delta example_encs delta))),
        out_encode = (\<lambda>delta. Inr (enc_delta example_encs delta)), out_encoded_len = Some, out_base64 = char_base64\<rparr>,
      link_reuse = \<lparr>to_json = (\<lambda>_. Inl ''too deep''), reuse_size = example_size\<rparr>,
      link_encode = (\<lambda>m. if m = example_message then Inr [7] else Inl []),
      link_base64 = char_base64, link_size = control_size,
      link_client = \<lparr>env_input = \<lparr>in_base64 = char_unbase64, in_display = (\<lambda>_. ''error''), in_start = id,
          in_consumed = (\<lambda>bytes rest. length bytes - length rest)\<rparr>,
        env_prims = example_prims, env_encoded_len = Some, env_base64 = char_unbase64,
        env_bincode = (\<lambda>bytes. Inr (example_message, 1)), env_from_json = (\<lambda>_. Inl ''no text'')\<rparr>\<rparr>"

lemma char_base64_back: "char_unbase64 (char_base64 bytes) = Inr bytes" "length (char_base64 bytes) = length bytes"
proof -
  have "unat b < 256" for b :: u8 using unsigned_less [of b, where ?'a = nat] by simp
  then show "char_unbase64 (char_base64 bytes) = Inr bytes"
    by (auto simp: char_unbase64_def char_base64_def o_def intro!: map_idI)
qed (simp add: char_base64_def)

lemma example_link_spec: "link_spec example_link"
proof -
  have "delta_sender_spec example_encs (link_delta example_link)"
    by (simp add: delta_sender_spec_def example_link_def char_base64_back)
  moreover have "scroll_transport char_base64 char_unbase64 Some control_size"
    by (auto simp: scroll_transport_def char_base64_back control_size_def)
  ultimately show ?thesis
    using example_prims_spec
    by (auto simp: link_spec_def example_link_def transport_spec_def json_spec_def bincode_spec_def char_base64_back)
qed

definition delta_state :: SemanticState where
  "delta_state = (negotiated_state False True True)\<lparr>rs_last_surface := Some (plain_surface ''ab'' 1), rs_surface_revision := 1\<rparr>"

definition delta_client :: Decoder where
  "delta_client = store_surface (new_decoder True True) (plain_surface ''ab'' 1)"

lemma delta_client_agrees: "agrees delta_client (plain_surface ''ab'' 1)"
  by (simp add: delta_client_def store_surface_def agrees_def set_baseline_def Let_def)

lemma delta_synced: "synced delta_state delta_client"
  using delta_client_agrees
  by (simp add: synced_def delta_state_def negotiated_state_def new_render_state_def enable_surface_scroll_def
      enable_surface_delta_def enable_surface_reuse_def delta_client_def store_surface_def set_baseline_def
      new_decoder_def Let_def plain_surface_def)

lemma surface_acceptable: "acceptable delta_state (plain_surface ''bb'' 0)" "\<not> skips delta_state (plain_surface ''bb'' 0) False"
  "next_surface (plain_surface ''ab'' 1) (plain_surface ''bb'' 2)"
  by (simp_all add: acceptable_def delta_state_def plain_surface_def invalid_links_def bad_hyperlink_def blank_cell_def
      skips_def unchanged_def next_surface_def saturating_add_def)

lemma delta_changed: "changed_rows (\<lambda>span. Inr 1) Some [blank_cell ''a'', blank_cell ''b''] [blank_cell ''b'', blank_cell ''b''] 2 1000 =
    Some (Inr (Some [\<lparr>row_x = 0, row_y = 0, row_cells = [blank_cell ''b'']\<rparr>]))"
  by (simp add: changed_rows_def chunks.simps scan_row.simps changed_end.simps blank_cell_def Let_def slice_def MAX_SPANS_def)

lemma delta_possible: "delta_eligible (plain_surface ''ab'' 1) (plain_surface ''bb'' 2)"
  by (simp add: delta_eligible_def metadata_fits_def frame_metadata_fits_def checked_grid_size_def plain_surface_def
      MAX_GRID_DIMENSION_def MAX_GRID_CELLS_def MAX_HYPERLINKS_def MAX_GRAPHICS_FRAME_SIZE_def MAX_PANES_def
      MAX_SPLITS_def MAX_ASSETS_def MAX_PLACEMENTS_def MAX_RETAINED_ASSETS_def Let_def)

lemma short_fits: "code x = Some b \<Longrightarrow> short code x = [b]"
  by (simp add: short_def)

lemma delta_bytes: "length (enc_delta example_encs \<lparr>base_projection_revision = 1, base_surface_revision = 1,
    delta_surface = take_cells (plain_surface ''bb'' 2),
    delta_rows = [\<lparr>row_x = 0, row_y = 0, row_cells = [blank_cell ''b'']\<rparr>], popup_cells = None\<rparr>) = 23"
  by (simp add: enc_delta_def enc_surface_def enc_frame_def enc_seq_def enc_bytes_def enc_option_def enc_scene_def
      enc_row_def take_cells_def set_cells_def plain_surface_def example_encs_def short_def byte_code_def only_def
      cell_code_def blank_cell_def)

lemma delta_sent: "delta_send example_link (plain_surface ''ab'' 1) (plain_surface ''bb'' 2) \<noteq> None"
proof -
  let ?s = "plain_surface ''bb'' 2" and ?R = "link_delta example_link"
  have R: "out_size_message ?R = example_size" "out_size_span ?R = (\<lambda>span. Inr 1)" "out_encoded_len ?R = Some"
      "out_size_delta ?R = (\<lambda>delta. Inr (length (enc_delta example_encs delta)))"
      "out_encode ?R = (\<lambda>delta. Inr (enc_delta example_encs delta))" "out_base64 ?R = char_base64"
    by (simp_all add: example_link_def)
  have s: "fr_cells (sf_frame (plain_surface ''ab'' 1)) = [blank_cell ''a'', blank_cell ''b'']"
      "fr_cells (sf_frame ?s) = [blank_cell ''b'', blank_cell ''b'']" "fr_width (sf_frame ?s) = 2" "sf_popup ?s = None"
      "sf_projection_revision (plain_surface ''ab'' 1) = 1" "sf_surface_revision (plain_surface ''ab'' 1) = 1"
      "delta_limit (sf_graphics ?s) = MAX_FRAME_SIZE"
    by (simp_all add: plain_surface_def delta_limit_def)
  have "delta_encoded ?R (plain_surface ''ab'' 1) (take_cells ?s) (fr_cells (sf_frame ?s)) None MAX_FRAME_SIZE 1000 =
      Some (Inr (Some (enc_delta example_encs \<lparr>base_projection_revision = 1, base_surface_revision = 1,
        delta_surface = take_cells ?s,
        delta_rows = [\<lparr>row_x = 0, row_y = 0, row_cells = [blank_cell ''b'']\<rparr>], popup_cells = None\<rparr>)))"
    using delta_changed delta_bytes
    by (simp add: delta_encoded_def popup_update_def encode_delta_def ok_or_def R s MAX_FRAME_SIZE_def)
  then show ?thesis
    using delta_possible delta_bytes
    by (simp add: delta_send_def ok_flatten_def delta_message_def R s Let_def example_size_def char_base64_back MAX_FRAME_SIZE_def)
qed

section \<open>Properties\<close>

text \<open>C1: a surface the server does not skip is prepared, sent in the codec it picked (full, delta or
  reuse), decoded by the client to exactly that surface under its new revision, and committed;
  afterwards both ends hold it as their baseline.\<close>

theorem surface_delivered:
  assumes "link_spec L" "synced st dec" "acceptable st surface" "\<not> skips st surface up"
  shows "\<exists>prepared dec' st'.
    prepare_pane_surface_with_file (link_delta L) (link_reuse L) st surface up = Some (Some prepared) \<and>
    decode_message (link_client L) dec (prepared_message prepared) = Some (Inr (PaneSurface (numbered st surface)), dec') \<and>
    commit_sent_frame st prepared = Some st' \<and> rs_last_surface st' = Some (drop_assets (numbered st surface)) \<and>
    synced st' dec'"
  using assms by (rule surface_step)

theorem surface_delivered_witness:
  "\<exists>prepared dec' st'.
    prepare_pane_surface_with_file (link_delta example_link) (link_reuse example_link) delta_state (plain_surface ''bb'' 0) False =
      Some (Some prepared) \<and>
    decode_message (link_client example_link) delta_client (prepared_message prepared) =
      Some (Inr (PaneSurface (plain_surface ''bb'' 2)), dec') \<and>
    commit_sent_frame delta_state prepared = Some st' \<and> synced st' dec'"
proof -
  have "numbered delta_state (plain_surface ''bb'' 0) = plain_surface ''bb'' 2"
    by (simp add: numbered_def delta_state_def plain_surface_def saturating_add_def)
  with surface_delivered [OF example_link_spec delta_synced surface_acceptable(1,2)] show ?thesis by auto
qed

text \<open>C4: a planned patch, plain or as a scroll, is decoded by the client to a patch that takes the
  previous surface exactly where the server's patch takes it; the server commits that surface
  without a panic and both ends hold it.\<close>

theorem patch_delivered:
  assumes "link_spec L" "synced st dec" "rs_last_surface st = Some previous" "planned previous patch"
    and "prepare_pane_surface_patch (link_encode L) (link_base64 L) (link_size L) st patch = Some prepared"
  shows "\<exists>patch' dec' st' surface.
    decode_message (link_client L) dec (prepared_message prepared) = Some (Inr (PatchMsg patch'), dec') \<and>
    apply_pane_surface_patch previous patch' = Some surface \<and>
    apply_pane_surface_patch previous (numbered_patch st patch) = Some surface \<and>
    commit_sent_frame st prepared = Some st' \<and> rs_last_surface st' = Some surface \<and> synced st' dec'"
  using assms by (rule patch_step)

definition patch_state :: SemanticState where
  "patch_state = (negotiated_state False True True)\<lparr>rs_last_surface := Some example_surface, rs_surface_revision := 1\<rparr>"

definition patch_client :: Decoder where
  "patch_client = store_surface (new_decoder True True) example_surface"

lemma patch_synced: "synced patch_state patch_client"
  by (simp add: synced_def patch_state_def patch_client_def negotiated_state_def new_render_state_def
      enable_surface_scroll_def enable_surface_delta_def enable_surface_reuse_def store_surface_def agrees_def
      set_baseline_def new_decoder_def Let_def example_surface_def)

lemma patch_planned: "planned example_surface (example_patch example_rows)"
proof -
  have "list_all (\<lambda>row. row_fits row 1 4) example_rows" by code_simp
  moreover have "rows_apart 1 example_rows"
    by (simp add: example_rows_def rows_apart_def row_start_def row_end_def letter_row_def)
  ultimately show ?thesis
    by (simp add: planned_def example_surface_def example_patch_def panes_apart_def letter_grid_def)
qed

lemma patch_prepared: "\<exists>message. prepare_pane_surface_patch (link_encode example_link) (link_base64 example_link)
    (link_size example_link) patch_state (example_patch example_rows) = Some (SemanticPatch message (Some (example_patch example_rows)))"
proof -
  have n: "(example_patch example_rows)\<lparr>patch_surface_revision := saturating_add (rs_surface_revision patch_state) 1\<rparr> =
      example_patch example_rows"
    by (simp add: patch_state_def example_patch_def saturating_add_def)
  have "rs_surface_scroll patch_state" "rs_last_surface patch_state = Some example_surface" "\<not> requires_recompute patch_state"
    by (simp_all add: patch_state_def negotiated_state_def enable_surface_scroll_def enable_surface_delta_def
        enable_surface_reuse_def new_render_state_def requires_recompute_def)
  moreover have "fits_baseline patch_state example_surface (example_patch example_rows)"
    by (simp add: fits_baseline_def example_surface_def example_patch_def)
  ultimately show ?thesis
    using example_sends by (simp add: prepare_pane_surface_patch_def fits_baseline_def n example_link_def)
qed

theorem patch_delivered_witness:
  "\<exists>prepared patch' dec' st' surface.
    decode_message (link_client example_link) patch_client (prepared_message prepared) = Some (Inr (PatchMsg patch'), dec') \<and>
    apply_pane_surface_patch example_surface patch' = Some surface \<and>
    commit_sent_frame patch_state prepared = Some st' \<and> rs_last_surface st' = Some surface \<and> synced st' dec'"
proof -
  have "rs_last_surface patch_state = Some example_surface" by (simp add: patch_state_def)
  from patch_prepared patch_delivered [OF example_link_spec patch_synced this patch_planned]
  show ?thesis by blast
qed

text \<open>C5: on every reachable state of a connection, whatever surfaces, patches and repaint requests
  went before, the client's baseline is the surface the server believes it has.\<close>

theorem connection_in_sync:
  assumes "reach link_init link_step (L, st, dec)"
  shows "synced st dec"
  using connection.reach_inv [OF assms] by (simp add: link_inv_def)

theorem connection_in_sync_witness:
  "\<exists>st dec. reach link_init link_step (example_link, st, dec) \<and>
     rs_last_surface st = Some (plain_surface ''bb'' 1) \<and> synced st dec"
proof -
  let ?st = "negotiated_state True True True" and ?dec = "new_decoder True True" and ?s = "plain_surface ''bb'' 0"
  have "link_init (example_link, ?st, ?dec)" using example_link_spec by (auto simp: link_init_def)
  then have init: "reach link_init link_step (example_link, ?st, ?dec)" by (rule reach_init)
  have none: "rs_last_surface ?st = None" "drop_assets (numbered ?st ?s) = plain_surface ''bb'' 1"
    by (simp_all add: negotiated_state_def enable_surface_scroll_def enable_surface_delta_def enable_surface_reuse_def
        new_render_state_def numbered_def drop_assets_def plain_surface_def saturating_add_def)
  then have ok: "acceptable ?st ?s" "\<not> skips ?st ?s False"
    by (simp_all add: acceptable_def skips_def invalid_links_def bad_hyperlink_def plain_surface_def blank_cell_def)
  from surface_step [OF example_link_spec synced_initially ok] obtain st' dec' where
    "link_step (example_link, ?st, ?dec) (example_link, st', dec')" "rs_last_surface st' = Some (plain_surface ''bb'' 1)"
    using step_surface [OF ok(1)] none(2) by metis
  with reach_step [OF init] have "reach link_init link_step (example_link, st', dec')" by blast
  with connection_in_sync [OF this] \<open>rs_last_surface st' = _\<close> show ?thesis by blast
qed

text \<open>A run of deltas sent one after the other is received as the same run of surfaces.\<close>

theorem delta_run_delivered:
  assumes "link_spec L" "agrees dec previous" "dec_surface_delta dec"
    and "successively next_surface (previous # surfaces)" "send_all delta_send L previous surfaces = Some messages"
  shows "\<exists>dec'. receive_all L dec messages = Some (map PaneSurface surfaces, dec') \<and>
    agrees dec' (last (previous # surfaces)) \<and> dec_surface_delta dec'"
  using assms by (rule delta_codec.run_delivered)

theorem delta_run_delivered_witness:
  "\<exists>message dec'. delta_send example_link (plain_surface ''ab'' 1) (plain_surface ''bb'' 2) = Some message \<and>
    receive_all example_link delta_client [message] = Some ([PaneSurface (plain_surface ''bb'' 2)], dec') \<and>
    agrees dec' (plain_surface ''bb'' 2)"
proof -
  obtain message where m: "delta_send example_link (plain_surface ''ab'' 1) (plain_surface ''bb'' 2) = Some message"
    using delta_sent by blast
  have flag: "dec_surface_delta delta_client"
    by (simp add: delta_client_def store_surface_def set_baseline_def new_decoder_def Let_def)
  have run: "successively next_surface (plain_surface ''ab'' 1 # [plain_surface ''bb'' 2])"
      "send_all delta_send example_link (plain_surface ''ab'' 1) [plain_surface ''bb'' 2] = Some [message]"
    using surface_acceptable(3) m by simp_all
  from delta_run_delivered [OF example_link_spec delta_client_agrees flag run] m
  show ?thesis by (auto simp del: receive_all.simps)
qed

end
