(* ===== verification/Event_Hub.thy ===== *)
theory Event_Hub
  imports Prelude
begin

text \<open>
  The bounded event history of the API (\<open>herdr/src/api/event_hub.rs\<close>): events are numbered from one,
  the newest \<open>MAX_EVENTS\<close> are kept, a reader asks for what came after a sequence number. The
  mutex makes every operation atomic; a poisoned mutex is a flag of the state. It refines the log of
  everything that was ever pushed.
\<close>

section \<open>Operations\<close>

record 'e EventHub =
  next_sequence :: u64
  hub_events :: "(u64 \<times> 'e) list"
  poisoned :: bool

datatype EventHistoryError = Lost | Unavailable

definition default_hub :: "'e EventHub" where
  "default_hub = \<lparr>next_sequence = 0, hub_events = [], poisoned = False\<rparr>"

definition MAX_EVENTS :: nat where "MAX_EVENTS = 512"

definition push :: "'e \<Rightarrow> 'e EventHub \<Rightarrow> 'e EventHub" where
  "push event hub =
     (if poisoned hub then hub
      else let sequence = next_sequence hub + 1;
               events = hub_events hub @ [(sequence, event)];
               overflow = length events - MAX_EVENTS in
           hub\<lparr>next_sequence := sequence, hub_events := (if overflow > 0 then drop overflow events else events)\<rparr>)"

definition events_after :: "'e EventHub \<Rightarrow> u64 \<Rightarrow> (u64 \<times> 'e) list" where
  "events_after hub sequence = (if poisoned hub then [] else filter (\<lambda>(n, _). n > sequence) (hub_events hub))"

definition events_after_checked :: "'e EventHub \<Rightarrow> u64 \<Rightarrow> EventHistoryError + (u64 \<times> 'e) list" where
  "events_after_checked hub sequence =
     (if poisoned hub then Inl Unavailable
      else if (case hub_events hub of [] \<Rightarrow> False | (first_sequence, _) # _ \<Rightarrow> sequence < saturating_sub first_sequence 1)
      then Inl Lost
      else Inr (filter (\<lambda>(n, _). n > sequence) (hub_events hub)))"

definition current_sequence :: "'e EventHub \<Rightarrow> u64" where
  "current_sequence hub = (if poisoned hub then 0 else next_sequence hub)"

section \<open>The log\<close>

text \<open>The abstract state is the list of all events; event \<open>i\<close> has the number \<open>i + 1\<close>.\<close>

definition numbered_from :: "nat \<Rightarrow> 'e list \<Rightarrow> (u64 \<times> 'e) list" where
  "numbered_from k xs = map (\<lambda>(i, x). (of_nat i, x)) (enumerate k xs)"

definition retained :: "'e list \<Rightarrow> nat" where "retained history = length history - MAX_EVENTS"

definition holds_log :: "'e EventHub \<Rightarrow> 'e list \<Rightarrow> bool" where
  "holds_log hub history \<longleftrightarrow> \<not> poisoned hub \<and> length history < 2 ^ 64 \<and> next_sequence hub = of_nat (length history) \<and>
     hub_events hub = numbered_from (retained history + 1) (drop (retained history) history)"

definition countable_push :: "'e \<Rightarrow> 'e list \<Rightarrow> bool" where
  "countable_push event history \<longleftrightarrow> Suc (length history) < 2 ^ 64"

lemma numbered_from_append: "numbered_from k (xs @ ys) = numbered_from k xs @ numbered_from (k + length xs) ys"
  by (simp add: numbered_from_def enumerate_append_eq)

lemma length_numbered [simp]: "length (numbered_from k xs) = length xs"
  by (simp add: numbered_from_def)

lemma drop_numbered: "drop n (numbered_from k xs) = numbered_from (k + n) (drop n xs)"
proof (induction xs arbitrary: n k)
  case (Cons x xs)
  then show ?case by (cases n) (simp_all add: numbered_from_def)
qed (simp add: numbered_from_def)

lemma push_holds:
  assumes "holds_log hub history" "countable_push event history"
  shows "holds_log (push event hub) (history @ [event])"
proof -
  let ?r = "retained history"
  have r: "?r \<le> length history" by (simp add: retained_def)
  have events: "hub_events hub @ [(of_nat (length history) + 1, event)] = numbered_from (?r + 1) (drop ?r history @ [event])"
    using assms(1) r by (simp add: holds_log_def numbered_from_append) (simp add: numbered_from_def add.commute)
  have over: "length (drop ?r history @ [event]) - MAX_EVENTS = retained (history @ [event]) - ?r" "?r \<le> retained (history @ [event])"
    by (auto simp: retained_def)
  have "drop (retained (history @ [event]) - ?r) (numbered_from (?r + 1) (drop ?r history @ [event])) =
      numbered_from (retained (history @ [event]) + 1) (drop (retained (history @ [event])) (history @ [event]))"
    using over(2) r by (simp add: drop_numbered)
  moreover have "hub_events (push event hub) = drop (length (drop ?r history @ [event]) - MAX_EVENTS)
      (numbered_from (?r + 1) (drop ?r history @ [event]))"
  proof -
    have "(if 0 < n then drop n xs else xs) = drop n xs" for n and xs :: "(u64 \<times> 'a) list" by simp
    moreover have "length (numbered_from (?r + 1) (drop ?r history @ [event])) = length (drop ?r history @ [event])" by simp
    moreover have "next_sequence hub = of_nat (length history)" "\<not> poisoned hub" using assms(1) by (simp_all add: holds_log_def)
    ultimately show ?thesis by (simp only: push_def Let_def events if_False EventHub.simps) simp
  qed
  moreover have "next_sequence (push event hub) = of_nat (length history) + 1" "\<not> poisoned (push event hub)"
    using assms(1) by (simp_all add: holds_log_def push_def Let_def)
  ultimately show ?thesis
    using assms(2) over(1) by (simp add: holds_log_def countable_push_def)
qed

interpretation hub: data_refinement holds_log push "\<lambda>event history. history @ [event]" countable_push
  by unfold_locales (rule push_holds)

lemma log_append: "fold (\<lambda>event history. history @ [event]) xs history = history @ xs"
  by (induction xs arbitrary: history) auto

lemma countable_pushes: "all_ok countable_push (\<lambda>event history. history @ [event]) xs history \<longleftrightarrow> xs = [] \<or> length history + length xs < 2 ^ 64"
  by (induction xs arbitrary: history) (auto simp: countable_push_def)

lemma numbered_from_Cons: "numbered_from k (x # xs) = (of_nat k, x) # numbered_from (k + 1) xs"
  by (simp add: numbered_from_def)

lemma numbered_after:
  assumes "k + length xs \<le> 2 ^ 64"
  shows "filter (\<lambda>(m, _). m > n) (numbered_from k xs) = numbered_from (max k (unat n + 1)) (drop (unat n + 1 - k) xs)"
  using assms
proof (induction xs arbitrary: k)
  case (Cons x xs)
  have "unat (of_nat k :: u64) = k" using Cons.prems by (simp add: unat_of_nat)
  then have above: "(of_nat k :: u64) > n \<longleftrightarrow> unat n < k" by (simp add: word_less_nat_alt)
  have IH: "filter (\<lambda>(m, _). m > n) (numbered_from (k + 1) xs) =
      numbered_from (max (k + 1) (unat n + 1)) (drop (unat n + 1 - (k + 1)) xs)"
    using Cons by simp
  show ?case
  proof (cases "unat n < k")
    case True
    then have "max k (unat n + 1) = k" "max (k + 1) (unat n + 1) = k + 1" by simp_all
    with True IH above show ?thesis by (simp add: numbered_from_Cons)
  next
    case False
    then have "unat n + 1 - k = Suc (unat n - k)" by simp
    with False IH above show ?thesis by (simp add: numbered_from_Cons max_def)
  qed
qed (simp add: numbered_from_def)

text \<open>What a hub that holds a log answers.\<close>

lemma checked_answer:
  assumes "holds_log hub history"
  shows "events_after_checked hub n =
    (if unat n < retained history then Inl Lost else Inr (numbered_from (unat n + 1) (drop (unat n) history)))"
proof -
  let ?r = "retained history" and ?events = "numbered_from (retained history + 1) (drop (retained history) history)"
  have r: "?r \<le> length history" "?r > 0 \<Longrightarrow> ?r < length history" by (auto simp: retained_def MAX_EVENTS_def)
  have len: "length history < 2 ^ 64" using assms by (simp add: holds_log_def)
  have first: "(case ?events of [] \<Rightarrow> False | (first_sequence, _) # _ \<Rightarrow> n < saturating_sub first_sequence 1) \<longleftrightarrow> unat n < ?r"
  proof (cases "drop ?r history")
    case Nil
    then have "?r = 0" using r by auto
    with Nil show ?thesis by (simp add: numbered_from_def)
  next
    case (Cons x xs)
    then have "?r < length history" by (metis drop_eq_Nil list.distinct(1) not_le)
    then have "?r + 1 < 2 ^ 64" using len by linarith
    then have "unat (of_nat (?r + 1) :: u64) = ?r + 1" by (simp add: unat_of_nat del: of_nat_Suc of_nat_add)
    then have "unat (saturating_sub (of_nat (?r + 1) :: u64) 1) = ?r" by (simp add: unat_saturating_sub)
    with Cons show ?thesis by (simp add: numbered_from_Cons word_less_nat_alt)
  qed
  have "filter (\<lambda>(m, _). m > n) ?events = numbered_from (unat n + 1) (drop (unat n) history)" if "?r \<le> unat n"
    using numbered_after [of "?r + 1" "drop ?r history" n] len that r(1) by (simp add: max_def)
  with assms first show ?thesis
    by (auto simp: events_after_checked_def holds_log_def)
qed

lemma fold_push_holds:
  assumes "length history < 2 ^ 64"
  shows "holds_log (fold push history default_hub) history"
proof -
  have "holds_log default_hub []" by (simp add: holds_log_def default_hub_def retained_def numbered_from_def)
  from hub.run_rel [OF this, of history] assms show ?thesis by (simp add: countable_pushes log_append)
qed

text \<open>C35: after any run of pushes, a reader who has seen the first \<open>n\<close> events gets every later event,
  in order and with its number, or is told that some were lost; it is told so exactly when one it
  has not seen is no longer kept, and the newest \<open>MAX_EVENTS\<close> are always kept.\<close>

theorem hub_refines_log:
  assumes "length history < 2 ^ 64"
  shows "current_sequence (fold push history default_hub) = of_nat (length history) \<and>
    events_after_checked (fold push history default_hub) n =
      (if unat n + MAX_EVENTS < length history then Inl Lost else Inr (numbered_from (unat n + 1) (drop (unat n) history))) \<and>
    length (hub_events (fold push history default_hub)) = min (length history) MAX_EVENTS"
proof -
  have "holds_log (fold push history default_hub) history" using assms by (rule fold_push_holds)
  moreover from this checked_answer have "events_after_checked (fold push history default_hub) n =
      (if unat n < retained history then Inl Lost else Inr (numbered_from (unat n + 1) (drop (unat n) history)))" by blast
  moreover have "unat n < retained history \<longleftrightarrow> unat n + MAX_EVENTS < length history" by (auto simp: retained_def)
  ultimately show ?thesis
    by (auto simp: holds_log_def current_sequence_def retained_def)
qed

theorem hub_refines_log_witness:
  "events_after_checked (fold push [''a'', ''b'', ''c''] default_hub) 1 = Inr [(2, ''b''), (3, ''c'')]"
  using hub_refines_log [of "[''a'', ''b'', ''c'']" 1] by (simp add: MAX_EVENTS_def numbered_from_def)

end
