(* ===== verification/Render_Signal.thy ===== *)
theory Render_Signal
  imports Layout
begin

text \<open>
  The coalescing render signal (\<open>herdr/src/render_signal.rs\<close>). Every operation holds the mutex while
  it changes the request and the flag, so it is one step; a poisoned mutex is entered anyway. The
  abstract state is the list of requests since the last \<open>take\<close> and the panes on display.
\<close>

section \<open>Operations\<close>

record RenderRequest =
  rq_generic :: bool
  rq_pty_sources :: "PaneId set"
  rq_terminal_title_sources :: "PaneId set"

record RenderSignal =
  rs_pending :: bool
  rs_request :: RenderRequest
  rs_immediate_pty_sources :: "PaneId set"

definition default_request :: RenderRequest where
  "default_request = \<lparr>rq_generic = False, rq_pty_sources = {}, rq_terminal_title_sources = {}\<rparr>"

definition new_signal :: RenderSignal where
  "new_signal = \<lparr>rs_pending = False, rs_request = default_request, rs_immediate_pty_sources = {}\<rparr>"

definition is_pending :: "RenderSignal \<Rightarrow> bool" where
  "is_pending s \<longleftrightarrow> rs_pending s"

definition request_generic :: "RenderSignal \<Rightarrow> RenderSignal" where
  "request_generic s = s\<lparr>rs_request := (rs_request s)\<lparr>rq_generic := True\<rparr>, rs_pending := True\<rparr>"

definition request_pty :: "PaneId \<Rightarrow> RenderSignal \<Rightarrow> bool \<times> RenderSignal" where
  "request_pty pane s =
     (let source_added = pane \<notin> rq_pty_sources (rs_request s);
          s = s\<lparr>rs_request := (rs_request s)\<lparr>rq_pty_sources := insert pane (rq_pty_sources (rs_request s))\<rparr>\<rparr>;
          wake_for_source = (source_added \<and> pane \<in> rs_immediate_pty_sources s);
          became_pending = (\<not> rs_pending s);
          s = s\<lparr>rs_pending := True\<rparr> in
      (became_pending \<or> wake_for_source, s))"

definition set_immediate_pty_sources :: "PaneId set \<Rightarrow> RenderSignal \<Rightarrow> RenderSignal" where
  "set_immediate_pty_sources sources s = s\<lparr>rs_immediate_pty_sources := sources\<rparr>"

definition has_immediate_work :: "RenderSignal \<Rightarrow> bool" where
  "has_immediate_work s \<longleftrightarrow> rq_generic (rs_request s) \<or> rq_terminal_title_sources (rs_request s) \<noteq> {} \<or>
     (\<exists>pane \<in> rq_pty_sources (rs_request s). pane \<in> rs_immediate_pty_sources s)"

definition request_terminal_title :: "PaneId \<Rightarrow> RenderSignal \<Rightarrow> bool \<times> RenderSignal" where
  "request_terminal_title pane s =
     (let source_added = pane \<notin> rq_terminal_title_sources (rs_request s);
          s = s\<lparr>rs_request := (rs_request s)\<lparr>
            rq_terminal_title_sources := insert pane (rq_terminal_title_sources (rs_request s))\<rparr>\<rparr>;
          became_pending = (\<not> rs_pending s);
          s = s\<lparr>rs_pending := True\<rparr> in
      (became_pending \<or> source_added, s))"

definition pending_terminal_title_sources :: "RenderSignal \<Rightarrow> PaneId set" where
  "pending_terminal_title_sources s = rq_terminal_title_sources (rs_request s)"

definition take_request :: "RenderSignal \<Rightarrow> RenderRequest \<times> RenderSignal" where
  "take_request s = (rs_request s, s\<lparr>rs_pending := False, rs_request := default_request\<rparr>)"

section \<open>The abstract signal\<close>

datatype Request = GenericRequest | PtyRequest PaneId | TitleRequest PaneId

datatype SignalOp = Ask Request | SetImmediate "PaneId set" | TakeAll

record AbstractSignal =
  asked :: "Request list"
  on_display :: "PaneId set"

fun signal_step :: "SignalOp \<Rightarrow> RenderSignal \<Rightarrow> RenderSignal" where
  "signal_step (Ask GenericRequest) s = request_generic s"
| "signal_step (Ask (PtyRequest pane)) s = snd (request_pty pane s)"
| "signal_step (Ask (TitleRequest pane)) s = snd (request_terminal_title pane s)"
| "signal_step (SetImmediate sources) s = set_immediate_pty_sources sources s"
| "signal_step TakeAll s = snd (take_request s)"

fun abstract_step :: "SignalOp \<Rightarrow> AbstractSignal \<Rightarrow> AbstractSignal" where
  "abstract_step (Ask r) a = a\<lparr>asked := asked a @ [r]\<rparr>"
| "abstract_step (SetImmediate sources) a = a\<lparr>on_display := sources\<rparr>"
| "abstract_step TakeAll a = a\<lparr>asked := []\<rparr>"

definition request_of :: "Request list \<Rightarrow> RenderRequest" where
  "request_of rs = \<lparr>rq_generic = (GenericRequest \<in> set rs), rq_pty_sources = {pane. PtyRequest pane \<in> set rs},
     rq_terminal_title_sources = {pane. TitleRequest pane \<in> set rs}\<rparr>"

definition signals :: "RenderSignal \<Rightarrow> AbstractSignal \<Rightarrow> bool" where
  "signals s a \<longleftrightarrow> rs_request s = request_of (asked a) \<and> rs_immediate_pty_sources s = on_display a \<and>
     rs_pending s = (asked a \<noteq> [])"

lemma signal_step_refines: "signals s a \<Longrightarrow> signals (signal_step op s) (abstract_step op a)"
  by (induction op s rule: signal_step.induct)
    (auto simp: signals_def request_generic_def request_pty_def request_terminal_title_def Let_def request_of_def
      set_immediate_pty_sources_def take_request_def default_request_def)

interpretation signal: data_refinement signals signal_step abstract_step "\<lambda>_ _. True"
  by unfold_locales (rule signal_step_refines)

lemma all_ok_True: "all_ok (\<lambda>_ _. True) f xs a"
  by (induction xs arbitrary: a) auto

definition idle_signal :: AbstractSignal where "idle_signal = \<lparr>asked = [], on_display = {}\<rparr>"

lemma signal_run: "signals (fold signal_step ops new_signal) (fold abstract_step ops idle_signal)"
proof -
  have "signals new_signal idle_signal"
    by (simp add: signals_def new_signal_def idle_signal_def request_of_def default_request_def)
  from signal.run_rel [OF this] show ?thesis by (simp add: all_ok_True)
qed

text \<open>C36: after any sequence of requests, changes of the panes on display and takes, the signal is
  pending exactly when something was asked since the last take, a take hands over exactly what was
  asked since then and leaves nothing behind, and work is immediate exactly when it is generic, a
  title, or output of a pane on display.\<close>

theorem signal_loses_nothing:
  fixes ops :: "SignalOp list"
  defines "s \<equiv> fold signal_step ops new_signal" and "a \<equiv> fold abstract_step ops idle_signal"
  shows "is_pending s = (asked a \<noteq> []) \<and> fst (take_request s) = request_of (asked a) \<and>
    \<not> is_pending (snd (take_request s)) \<and> fst (take_request (snd (take_request s))) = request_of [] \<and>
    pending_terminal_title_sources s = {pane. TitleRequest pane \<in> set (asked a)} \<and>
    has_immediate_work s = (\<exists>r \<in> set (asked a). case r of
      GenericRequest \<Rightarrow> True | TitleRequest _ \<Rightarrow> True | PtyRequest pane \<Rightarrow> pane \<in> on_display a)"
proof -
  have r: "signals s a" unfolding s_def a_def by (rule signal_run)
  have "has_immediate_work s = (\<exists>r \<in> set (asked a). case r of
      GenericRequest \<Rightarrow> True | TitleRequest _ \<Rightarrow> True | PtyRequest pane \<Rightarrow> pane \<in> on_display a)"
  proof
    assume "has_immediate_work s"
    then show "\<exists>r \<in> set (asked a). case r of
      GenericRequest \<Rightarrow> True | TitleRequest _ \<Rightarrow> True | PtyRequest pane \<Rightarrow> pane \<in> on_display a"
      using r by (force simp: has_immediate_work_def signals_def request_of_def)
  next
    assume "\<exists>r \<in> set (asked a). case r of
      GenericRequest \<Rightarrow> True | TitleRequest _ \<Rightarrow> True | PtyRequest pane \<Rightarrow> pane \<in> on_display a"
    then obtain q where "q \<in> set (asked a)" "case q of
      GenericRequest \<Rightarrow> True | TitleRequest _ \<Rightarrow> True | PtyRequest pane \<Rightarrow> pane \<in> on_display a" by blast
    then show "has_immediate_work s"
      using r by - (cases q rule: Request.exhaust; auto simp: has_immediate_work_def signals_def request_of_def)
  qed
  then show ?thesis
    using r by (simp add: signals_def is_pending_def take_request_def pending_terminal_title_sources_def
        request_of_def default_request_def)
qed

fun wakes :: "Request \<Rightarrow> RenderSignal \<Rightarrow> bool" where
  "wakes GenericRequest s = True"
| "wakes (PtyRequest pane) s = fst (request_pty pane s)"
| "wakes (TitleRequest pane) s = fst (request_terminal_title pane s)"

text \<open>No wake-up is lost: a request reports that it wakes the renderer exactly when nothing was
  pending, or it is the first output since the last take of a pane on display, or the first title
  change of its pane; a generic request always does.\<close>

theorem signal_wakes:
  fixes ops :: "SignalOp list"
  defines "s \<equiv> fold signal_step ops new_signal" and "a \<equiv> fold abstract_step ops idle_signal"
  shows "wakes r s = (asked a = [] \<or> (case r of GenericRequest \<Rightarrow> True
    | PtyRequest pane \<Rightarrow> r \<notin> set (asked a) \<and> pane \<in> on_display a
    | TitleRequest pane \<Rightarrow> r \<notin> set (asked a)))"
proof -
  have "signals s a" unfolding s_def a_def by (rule signal_run)
  then show ?thesis
    by (cases r) (auto simp: signals_def request_pty_def request_terminal_title_def Let_def request_of_def)
qed

end
