(* ===== verification/Endpoint_Registry.thy ===== *)
theory Endpoint_Registry
  imports Prelude
begin

text \<open>
  The client's connections to its endpoints: their heartbeat
  (\<open>herdr/src/client/endpoint/health.rs\<close>) and the registry that sends, times out, fails and
  replaces them (\<open>herdr/src/client/endpoint/registry.rs\<close>). An \<open>Instant\<close> is a number of milliseconds.
  A transport is an implementation of the trait \<open>EndpointTransport\<close>: an argument of the
  operations, over a state of its own. The transports a connection was taken away from are kept in
  \<open>reg_closed\<close>, in the order in which \<open>disconnect\<close> was called on them. A hash map is a partial
  function; an iteration over it takes the order as an argument, and the theorems hold for every
  order.
\<close>

section \<open>Heartbeat\<close>

definition HEARTBEAT_INTERVAL :: nat where "HEARTBEAT_INTERVAL = 5000"
definition HEARTBEAT_TIMEOUT :: nat where "HEARTBEAT_TIMEOUT = 10000"

datatype HealthAction = NoAction | Ping | Expired

record EndpointHealth =
  connected_at :: nat
  last_received :: nat
  ping_sent_at :: "nat option"
  health_ready :: bool

definition new_health :: "nat \<Rightarrow> EndpointHealth" where
  "new_health now = \<lparr>connected_at = now, last_received = now, ping_sent_at = None, health_ready = False\<rparr>"

definition health_received :: "nat \<Rightarrow> EndpointHealth \<Rightarrow> EndpointHealth" where
  "health_received now h = h\<lparr>last_received := now, ping_sent_at := None\<rparr>"

definition ready :: "EndpointHealth \<Rightarrow> EndpointHealth" where
  "ready h = h\<lparr>health_ready := True\<rparr>"

definition health_action :: "nat \<Rightarrow> EndpointHealth \<Rightarrow> HealthAction" where
  "health_action now h =
     (let initial_snapshot_expired = (\<not> health_ready h \<and> now - connected_at h \<ge> HEARTBEAT_TIMEOUT);
          probe_expired = (case ping_sent_at h of None \<Rightarrow> False | Some sent_at \<Rightarrow> now - sent_at \<ge> HEARTBEAT_TIMEOUT) in
      if initial_snapshot_expired \<or> probe_expired then Expired
      else if ping_sent_at h = None \<and> now - last_received h \<ge> HEARTBEAT_INTERVAL then Ping
      else NoAction)"

definition ping_sent :: "nat \<Rightarrow> EndpointHealth \<Rightarrow> EndpointHealth" where
  "ping_sent now h = h\<lparr>ping_sent_at := Some now\<rparr>"

section \<open>Registry\<close>

datatype ClientEndpointId = Local | Ssh string

definition is_local :: "ClientEndpointId \<Rightarrow> bool" where
  "is_local i \<longleftrightarrow> (case i of Local \<Rightarrow> True | Ssh _ \<Rightarrow> False)"

definition storage_key :: "ClientEndpointId \<Rightarrow> string" where
  "storage_key i = (case i of Local \<Rightarrow> ''local'' | Ssh profile \<Rightarrow> ''ssh:'' @ profile)"

text \<open>The messages the registry builds itself; all others are passed through.\<close>

datatype 'm ClientMessage = ClientEndpointControl string string | Detach | OtherMessage 'm

record io_error =
  error_kind :: string
  error_message :: string

record ('t, 'm) transport_ops =
  t_send :: "'m ClientMessage \<Rightarrow> 't \<Rightarrow> (io_error + unit) \<times> 't"
  t_flush :: "nat \<Rightarrow> 't \<Rightarrow> 't"
  t_take_error :: "'t \<Rightarrow> io_error option \<times> 't"
  t_disconnect :: "'t \<Rightarrow> 't"

definition SURFACE_INTEREST_CAPABILITY :: string where "SURFACE_INTEREST_CAPABILITY = ''surface_interest''"
definition PRESENTATION_EFFECTS_FENCE_CAPABILITY :: string where
  "PRESENTATION_EFFECTS_FENCE_CAPABILITY = ''presentation_effects_fence''"
definition HEALTH_CHECK_CAPABILITY :: string where "HEALTH_CHECK_CAPABILITY = ''health_check''"
definition HEALTH_PING_KIND :: string where "HEALTH_PING_KIND = ''endpoint.health.ping.v1''"

record EndpointNegotiation =
  neg_methods :: "string set"
  neg_capabilities :: "string set"

definition new_negotiation :: "string list \<Rightarrow> string list \<Rightarrow> EndpointNegotiation" where
  "new_negotiation methods capabilities = \<lparr>neg_methods = set methods, neg_capabilities = set capabilities\<rparr>"

definition supports_method :: "string \<Rightarrow> EndpointNegotiation \<Rightarrow> bool" where
  "supports_method name n \<longleftrightarrow> name \<in> neg_methods n"

definition supports_capability :: "string \<Rightarrow> EndpointNegotiation \<Rightarrow> bool" where
  "supports_capability capability n \<longleftrightarrow> capability \<in> neg_capabilities n"

definition supports_surface_interest :: "EndpointNegotiation \<Rightarrow> bool" where
  "supports_surface_interest n \<longleftrightarrow> supports_capability SURFACE_INTEREST_CAPABILITY n \<and>
     supports_capability PRESENTATION_EFFECTS_FENCE_CAPABILITY n \<and> supports_method ''client_shell.surface.set'' n"

definition supports_health_check :: "EndpointNegotiation \<Rightarrow> bool" where
  "supports_health_check n \<longleftrightarrow> supports_capability HEALTH_CHECK_CAPABILITY n"

record 't EndpointConnection =
  con_transport :: 't
  con_generation :: u64
  con_surface_active :: bool
  con_negotiation :: EndpointNegotiation
  con_health :: "EndpointHealth option"

record EndpointTransportFailure =
  fail_endpoint :: ClientEndpointId
  fail_generation :: u64
  fail_kind :: string
  fail_message :: string

datatype EndpointSendOutcome = Sent | NotSent

record 't EndpointRegistry =
  reg_active :: ClientEndpointId
  reg_input_enabled :: bool
  reg_connections :: "ClientEndpointId \<rightharpoonup> 't EndpointConnection"
  reg_failures :: "EndpointTransportFailure list"
  reg_closed :: "'t list"

definition empty_registry :: "'t EndpointRegistry" where
  "empty_registry = \<lparr>reg_active = Local, reg_input_enabled = False, reg_connections = Map.empty, reg_failures = [], reg_closed = []\<rparr>"

definition insert_connection :: "('t, 'm) transport_ops \<Rightarrow> nat \<Rightarrow> ClientEndpointId \<Rightarrow> 't \<Rightarrow> u64 \<Rightarrow> EndpointNegotiation \<Rightarrow>
    bool \<Rightarrow> 't EndpointRegistry \<Rightarrow> 't EndpointRegistry" where
  "insert_connection ops now endpoint_id transport generation negotiation surface_active reg =
     (let health = (if \<not> is_local endpoint_id \<and> supports_health_check negotiation then Some (new_health now) else None);
          previous = reg_connections reg endpoint_id;
          reg = reg\<lparr>reg_connections := (reg_connections reg)(endpoint_id \<mapsto>
            \<lparr>con_transport = transport, con_generation = generation, con_surface_active = surface_active,
             con_negotiation = negotiation, con_health = health\<rparr>)\<rparr> in
      case previous of
        None \<Rightarrow> reg
      | Some previous \<Rightarrow> reg\<lparr>reg_closed := reg_closed reg @ [t_disconnect ops (con_transport previous)]\<rparr>)"

definition new_registry :: "('t, 'm) transport_ops \<Rightarrow> nat \<Rightarrow> 't \<Rightarrow> u64 \<Rightarrow> EndpointNegotiation \<Rightarrow> 't EndpointRegistry" where
  "new_registry ops now transport generation negotiation =
     insert_connection ops now Local transport generation negotiation True (empty_registry\<lparr>reg_input_enabled := True\<rparr>)"

definition active_surface_available :: "'t EndpointRegistry \<Rightarrow> bool" where
  "active_surface_available reg \<longleftrightarrow> reg_input_enabled reg \<and>
     (case reg_connections reg (reg_active reg) of None \<Rightarrow> False | Some c \<Rightarrow> con_surface_active c)"

definition freeze_input :: "'t EndpointRegistry \<Rightarrow> 't EndpointRegistry" where
  "freeze_input reg = reg\<lparr>reg_input_enabled := False\<rparr>"

definition unfreeze_input :: "'t EndpointRegistry \<Rightarrow> 't EndpointRegistry" where
  "unfreeze_input reg = reg\<lparr>reg_input_enabled := True\<rparr>"

definition select_unavailable_local :: "'t EndpointRegistry \<Rightarrow> 't EndpointRegistry" where
  "select_unavailable_local reg = freeze_input (reg\<lparr>reg_active := Local\<rparr>)"

definition accepts :: "ClientEndpointId \<Rightarrow> u64 \<Rightarrow> 't EndpointRegistry \<Rightarrow> bool" where
  "accepts endpoint_id generation reg \<longleftrightarrow>
     (case reg_connections reg endpoint_id of None \<Rightarrow> False | Some c \<Rightarrow> con_generation c = generation)"

definition update_health :: "ClientEndpointId \<Rightarrow> u64 \<Rightarrow> (EndpointHealth \<Rightarrow> EndpointHealth) \<Rightarrow> 't EndpointRegistry \<Rightarrow> 't EndpointRegistry" where
  "update_health endpoint_id generation f reg =
     (case reg_connections reg endpoint_id of
        None \<Rightarrow> reg
      | Some c \<Rightarrow>
          if con_generation c \<noteq> generation then reg
          else case con_health c of
            None \<Rightarrow> reg
          | Some h \<Rightarrow> reg\<lparr>reg_connections := (reg_connections reg)(endpoint_id \<mapsto> c\<lparr>con_health := Some (f h)\<rparr>)\<rparr>)"

definition received :: "ClientEndpointId \<Rightarrow> u64 \<Rightarrow> nat \<Rightarrow> 't EndpointRegistry \<Rightarrow> 't EndpointRegistry" where
  "received endpoint_id generation now = update_health endpoint_id generation (health_received now)"

definition mark_ready :: "ClientEndpointId \<Rightarrow> u64 \<Rightarrow> 't EndpointRegistry \<Rightarrow> 't EndpointRegistry" where
  "mark_ready endpoint_id generation = update_health endpoint_id generation ready"

fun replace_failure :: "EndpointTransportFailure \<Rightarrow> EndpointTransportFailure list \<Rightarrow> EndpointTransportFailure list" where
  "replace_failure failure [] = [failure]"
| "replace_failure failure (existing # rest) =
     (if fail_endpoint existing = fail_endpoint failure then failure # rest
      else existing # replace_failure failure rest)"

definition record_failure :: "('t, 'm) transport_ops \<Rightarrow> ClientEndpointId \<Rightarrow> io_error \<Rightarrow> 't EndpointRegistry \<Rightarrow> 't EndpointRegistry" where
  "record_failure ops endpoint_id error reg =
     (case reg_connections reg endpoint_id of
        None \<Rightarrow> reg
      | Some c \<Rightarrow>
          reg\<lparr>reg_connections := (reg_connections reg)(endpoint_id := None),
            reg_closed := reg_closed reg @ [t_disconnect ops (con_transport c)],
            reg_failures := replace_failure \<lparr>fail_endpoint = endpoint_id, fail_generation = con_generation c,
              fail_kind = error_kind error, fail_message = error_message error\<rparr> (reg_failures reg)\<rparr>)"

definition send_to :: "('t, 'm) transport_ops \<Rightarrow> ClientEndpointId \<Rightarrow> 'm ClientMessage \<Rightarrow> 't EndpointRegistry \<Rightarrow>
    EndpointSendOutcome \<times> 't EndpointRegistry" where
  "send_to ops endpoint_id message reg =
     (case reg_connections reg endpoint_id of
        None \<Rightarrow> (NotSent, record_failure ops endpoint_id \<lparr>error_kind = ''NotConnected'', error_message = ''endpoint is unavailable''\<rparr> reg)
      | Some c \<Rightarrow>
          (case t_send ops message (con_transport c) of
             (result, transport) \<Rightarrow>
               (let reg = reg\<lparr>reg_connections := (reg_connections reg)(endpoint_id \<mapsto> c\<lparr>con_transport := transport\<rparr>)\<rparr> in
                case result of
                  Inr _ \<Rightarrow> (Sent, reg)
                | Inl error \<Rightarrow> (NotSent, record_failure ops endpoint_id error reg))))"

definition send :: "('t, 'm) transport_ops \<Rightarrow> 'm ClientMessage \<Rightarrow> 't EndpointRegistry \<Rightarrow> EndpointSendOutcome \<times> 't EndpointRegistry" where
  "send ops message reg = send_to ops (reg_active reg) message reg"

definition set_active :: "ClientEndpointId \<Rightarrow> 't EndpointRegistry \<Rightarrow> bool \<times> 't EndpointRegistry" where
  "set_active endpoint_id reg =
     (if \<not> (case reg_connections reg endpoint_id of None \<Rightarrow> False | Some c \<Rightarrow> con_surface_active c) then (False, reg)
      else (True, reg\<lparr>reg_active := endpoint_id\<rparr>))"

definition set_surface_active :: "ClientEndpointId \<Rightarrow> bool \<Rightarrow> 't EndpointRegistry \<Rightarrow> bool \<times> 't EndpointRegistry" where
  "set_surface_active endpoint_id active reg =
     (case reg_connections reg endpoint_id of
        None \<Rightarrow> (False, reg)
      | Some c \<Rightarrow> (con_surface_active c \<noteq> active,
          reg\<lparr>reg_connections := (reg_connections reg)(endpoint_id \<mapsto> c\<lparr>con_surface_active := active\<rparr>)\<rparr>))"

definition disconnect :: "('t, 'm) transport_ops \<Rightarrow> ClientEndpointId \<Rightarrow> 't EndpointRegistry \<Rightarrow> 't EndpointRegistry" where
  "disconnect ops endpoint_id reg =
     (let reg = reg\<lparr>reg_failures := filter (\<lambda>f. fail_endpoint f \<noteq> endpoint_id) (reg_failures reg)\<rparr> in
      case reg_connections reg endpoint_id of
        None \<Rightarrow> reg
      | Some c \<Rightarrow> reg\<lparr>reg_connections := (reg_connections reg)(endpoint_id := None),
          reg_closed := reg_closed reg @ [t_disconnect ops (con_transport c)]\<rparr>)"

definition fail_endpoint_with :: "('t, 'm) transport_ops \<Rightarrow> ClientEndpointId \<Rightarrow> io_error \<Rightarrow> 't EndpointRegistry \<Rightarrow> 't EndpointRegistry" where
  "fail_endpoint_with ops endpoint_id error reg = record_failure ops endpoint_id error reg"

text \<open>One entry of \<open>tick_health\<close>'s loop, then the whole of it. The actions are read before any is
  performed.\<close>

definition health_ping :: "'m ClientMessage" where "health_ping = ClientEndpointControl HEALTH_PING_KIND []"

definition perform_action :: "('t, 'm) transport_ops \<Rightarrow> nat \<Rightarrow> ClientEndpointId \<times> HealthAction \<Rightarrow> 't EndpointRegistry \<Rightarrow> 't EndpointRegistry" where
  "perform_action ops now entry reg =
     (case entry of (endpoint_id, action) \<Rightarrow>
        (case action of
           NoAction \<Rightarrow> reg
         | Ping \<Rightarrow>
             (case send_to ops endpoint_id health_ping reg of
                (NotSent, reg) \<Rightarrow> reg
              | (Sent, reg) \<Rightarrow>
                  (case reg_connections reg endpoint_id of
                     None \<Rightarrow> reg
                   | Some c \<Rightarrow> reg\<lparr>reg_connections := (reg_connections reg)(endpoint_id \<mapsto>
                       c\<lparr>con_health := map_option (ping_sent now) (con_health c)\<rparr>)\<rparr>))
         | Expired \<Rightarrow> record_failure ops endpoint_id
             \<lparr>error_kind = ''TimedOut'', error_message = ''endpoint health check timed out''\<rparr> reg))"

definition health_actions :: "nat \<Rightarrow> ClientEndpointId list \<Rightarrow> 't EndpointRegistry \<Rightarrow> (ClientEndpointId \<times> HealthAction) list" where
  "health_actions now order reg =
     filter (\<lambda>(_, action). action \<noteq> NoAction)
       (List.map_filter (\<lambda>endpoint_id. case reg_connections reg endpoint_id of
            None \<Rightarrow> None
          | Some c \<Rightarrow> map_option (\<lambda>h. (endpoint_id, health_action now h)) (con_health c)) order)"

definition tick_health :: "('t, 'm) transport_ops \<Rightarrow> nat \<Rightarrow> ClientEndpointId list \<Rightarrow> 't EndpointRegistry \<Rightarrow> 't EndpointRegistry" where
  "tick_health ops now order reg = fold (perform_action ops now) (health_actions now order reg) reg"

text \<open>\<open>take_failures\<close>: first every transport is asked, then the errors are recorded.\<close>

fun collect_errors :: "('t, 'm) transport_ops \<Rightarrow> ClientEndpointId list \<Rightarrow> 't EndpointRegistry \<Rightarrow>
    (ClientEndpointId \<times> io_error) list \<times> 't EndpointRegistry" where
  "collect_errors ops [] reg = ([], reg)"
| "collect_errors ops (endpoint_id # order) reg =
     (case reg_connections reg endpoint_id of
        None \<Rightarrow> collect_errors ops order reg
      | Some c \<Rightarrow>
          (case t_take_error ops (con_transport c) of
             (error, transport) \<Rightarrow>
               (case collect_errors ops order
                       (reg\<lparr>reg_connections := (reg_connections reg)(endpoint_id \<mapsto> c\<lparr>con_transport := transport\<rparr>)\<rparr>) of
                  (errors, reg) \<Rightarrow> ((case error of None \<Rightarrow> errors | Some e \<Rightarrow> (endpoint_id, e) # errors), reg))))"

definition take_failures :: "('t, 'm) transport_ops \<Rightarrow> ClientEndpointId list \<Rightarrow> 't EndpointRegistry \<Rightarrow>
    EndpointTransportFailure list \<times> 't EndpointRegistry" where
  "take_failures ops order reg =
     (case collect_errors ops order reg of
        (errors, reg) \<Rightarrow>
          (let reg = fold (\<lambda>(endpoint_id, error). record_failure ops endpoint_id error) errors reg in
           (reg_failures reg, reg\<lparr>reg_failures := []\<rparr>)))"

section \<open>Heartbeat: neither too early nor never\<close>

text \<open>What happens to a connection's health, at times that do not go back: a message arrives, the
  first snapshot is complete, the registry polls and probes.\<close>

datatype HealthEvent = Received nat | MadeReady | Polled nat

fun health_step :: "HealthEvent \<Rightarrow> EndpointHealth \<Rightarrow> EndpointHealth" where
  "health_step (Received now) h = health_received now h"
| "health_step MadeReady h = ready h"
| "health_step (Polled now) h = (if health_action now h = Ping then ping_sent now h else h)"

fun event_time :: "nat \<Rightarrow> HealthEvent \<Rightarrow> nat" where
  "event_time t (Received now) = now"
| "event_time t MadeReady = t"
| "event_time t (Polled now) = now"

fun timed :: "nat \<Rightarrow> HealthEvent list \<Rightarrow> bool" where
  "timed t [] \<longleftrightarrow> True"
| "timed t (ev # evs) \<longleftrightarrow> t \<le> event_time t ev \<and> timed (event_time t ev) evs"

definition clock :: "nat \<Rightarrow> HealthEvent list \<Rightarrow> nat" where
  "clock t evs = fold (\<lambda>ev t. event_time t ev) evs t"

definition health_wf :: "nat \<Rightarrow> EndpointHealth \<Rightarrow> bool" where
  "health_wf t h \<longleftrightarrow> connected_at h \<le> t \<and> last_received h \<le> t \<and>
     (case ping_sent_at h of None \<Rightarrow> True | Some sent_at \<Rightarrow> last_received h \<le> sent_at \<and> sent_at \<le> t)"

lemma health_wf_step: "health_wf t h \<Longrightarrow> t \<le> event_time t ev \<Longrightarrow> health_wf (event_time t ev) (health_step ev h)"
  by (cases ev) (auto simp: health_wf_def health_received_def ready_def ping_sent_def split: option.splits)

lemma health_wf_run: "health_wf t h \<Longrightarrow> timed t evs \<Longrightarrow> health_wf (clock t evs) (fold health_step evs h)"
  by (induction evs arbitrary: t h) (auto simp: clock_def dest: health_wf_step)

lemma health_wf_new: "health_wf t (new_health t)"
  by (simp add: health_wf_def new_health_def)

text \<open>A connection whose snapshot arrived is never given up within the timeout after its last
  message; one that stays silent is probed at the first poll after the interval and given up at
  the first poll a timeout later, whatever happened before.\<close>

theorem heartbeat_timeout:
  fixes evs :: "HealthEvent list" and t0 :: nat
  defines "h \<equiv> fold health_step evs (new_health t0)"
  assumes "timed t0 evs" "clock t0 evs \<le> now"
  shows "(health_ready h \<and> now < last_received h + HEARTBEAT_TIMEOUT \<longrightarrow> health_action now h \<noteq> Expired) \<and>
    (now + HEARTBEAT_INTERVAL \<le> t1 \<and> t1 + HEARTBEAT_TIMEOUT \<le> t2 \<longrightarrow>
      health_action t2 (health_step (Polled t1) h) = Expired)"
proof -
  have "health_wf (clock t0 evs) h" unfolding h_def by (rule health_wf_run [OF health_wf_new assms(2)])
  with assms(3) have wf: "health_wf now h" by (auto simp: health_wf_def split: option.splits)
  show ?thesis
  proof (intro conjI impI; elim conjE)
    assume "health_ready h" "now < last_received h + HEARTBEAT_TIMEOUT"
    with wf show "health_action now h \<noteq> Expired"
      by (auto simp: health_wf_def health_action_def Let_def split: option.splits)
  next
    assume t: "now + HEARTBEAT_INTERVAL \<le> t1" "t1 + HEARTBEAT_TIMEOUT \<le> t2"
    show "health_action t2 (health_step (Polled t1) h) = Expired"
    proof (cases "ping_sent_at h")
      case None
      with wf t have "health_action t1 h = Expired \<or> health_action t1 h = Ping"
        by (auto simp: health_wf_def health_action_def Let_def)
      with None t wf show ?thesis by (auto simp: health_wf_def health_action_def ping_sent_def Let_def split: if_splits)
    next
      case (Some sent_at)
      with wf have "sent_at \<le> now" "health_action t1 h \<noteq> Ping" by (auto simp: health_wf_def health_action_def Let_def)
      with Some t show ?thesis by (auto simp: health_action_def Let_def)
    qed
  qed
qed

theorem heartbeat_timeout_witness:
  "health_action 9000 (fold health_step [MadeReady, Received 1000] (new_health 0)) \<noteq> Expired \<and>
   health_action 24000 (health_step (Polled 14000) (fold health_step [MadeReady, Received 1000] (new_health 0))) = Expired"
proof -
  have t: "timed 0 [MadeReady, Received 1000]" "clock 0 [MadeReady, Received 1000] \<le> 9000"
    by (simp_all add: clock_def)
  have "health_ready (fold health_step [MadeReady, Received 1000] (new_health 0))"
    "last_received (fold health_step [MadeReady, Received 1000] (new_health 0)) = 1000"
    by (simp_all add: ready_def health_received_def new_health_def)
  with heartbeat_timeout [OF t, of 14000 24000] show ?thesis
    by (simp add: HEARTBEAT_TIMEOUT_def HEARTBEAT_INTERVAL_def del: fold.simps)
qed

section \<open>Failures\<close>

definition failure_for :: "'t EndpointRegistry \<Rightarrow> ClientEndpointId \<Rightarrow> EndpointTransportFailure option" where
  "failure_for reg i = List.find (\<lambda>f. fail_endpoint f = i) (reg_failures reg)"

definition failed_with :: "ClientEndpointId \<Rightarrow> u64 \<Rightarrow> io_error \<Rightarrow> EndpointTransportFailure" where
  "failed_with i generation e = \<lparr>fail_endpoint = i, fail_generation = generation, fail_kind = error_kind e, fail_message = error_message e\<rparr>"

lemma find_replace_failure:
  "List.find (\<lambda>f. fail_endpoint f = i) (replace_failure failure fs) =
     (if i = fail_endpoint failure then Some failure else List.find (\<lambda>f. fail_endpoint f = i) fs)"
  by (induction fs) auto

lemma replace_failure_endpoints: "set (map fail_endpoint (replace_failure failure fs)) = insert (fail_endpoint failure) (fail_endpoint ` set fs)"
  by (induction fs) auto

lemma distinct_replace_failure:
  "distinct (map fail_endpoint fs) \<Longrightarrow> distinct (map fail_endpoint (replace_failure failure fs))"
proof (induction fs)
  case (Cons f fs)
  then show ?case using replace_failure_endpoints [of failure fs] by (auto simp: image_iff)
qed simp

lemma record_failure_spec:
  assumes "reg_connections reg i = Some c"
  shows "reg_connections (record_failure ops i e reg) = (reg_connections reg)(i := None)"
    "failure_for (record_failure ops i e reg) j = (if j = i then Some (failed_with i (con_generation c) e) else failure_for reg j)"
    "reg_active (record_failure ops i e reg) = reg_active reg"
    "reg_input_enabled (record_failure ops i e reg) = reg_input_enabled reg"
  using assms by (simp_all add: record_failure_def failure_for_def find_replace_failure failed_with_def)

section \<open>The health tick\<close>

text \<open>What a tick means for one connection: what is left of it, and the error it failed with.\<close>

definition timed_out :: io_error where
  "timed_out = \<lparr>error_kind = ''TimedOut'', error_message = ''endpoint health check timed out''\<rparr>"

definition tick_one :: "('t, 'm) transport_ops \<Rightarrow> nat \<Rightarrow> 't EndpointConnection \<Rightarrow> 't EndpointConnection option \<times> io_error option" where
  "tick_one ops now c =
     (case con_health c of
        None \<Rightarrow> (Some c, None)
      | Some h \<Rightarrow>
          (case health_action now h of
             NoAction \<Rightarrow> (Some c, None)
           | Expired \<Rightarrow> (None, Some timed_out)
           | Ping \<Rightarrow>
               (case t_send ops health_ping (con_transport c) of
                  (Inr _, transport) \<Rightarrow> (Some (c\<lparr>con_transport := transport, con_health := Some (ping_sent now h)\<rparr>), None)
                | (Inl e, _) \<Rightarrow> (None, Some e))))"

definition ticked :: "('t, 'm) transport_ops \<Rightarrow> nat \<Rightarrow> ClientEndpointId \<Rightarrow> 't EndpointRegistry \<Rightarrow> 't EndpointRegistry \<Rightarrow> bool" where
  "ticked ops now i reg reg' \<longleftrightarrow>
     (case reg_connections reg i of
        None \<Rightarrow> reg_connections reg' i = None \<and> failure_for reg' i = failure_for reg i
      | Some c \<Rightarrow> reg_connections reg' i = fst (tick_one ops now c) \<and>
          failure_for reg' i = (case snd (tick_one ops now c) of
            None \<Rightarrow> failure_for reg i | Some e \<Rightarrow> Some (failed_with i (con_generation c) e)))"

definition same_at :: "ClientEndpointId \<Rightarrow> 't EndpointRegistry \<Rightarrow> 't EndpointRegistry \<Rightarrow> bool" where
  "same_at i reg reg' \<longleftrightarrow> reg_connections reg' i = reg_connections reg i \<and> failure_for reg' i = failure_for reg i"

lemma send_to_Some:
  assumes "reg_connections reg i = Some c" "t_send ops message (con_transport c) = (Inr (), transport)"
  shows "send_to ops i message reg = (Sent, reg\<lparr>reg_connections := (reg_connections reg)(i \<mapsto> c\<lparr>con_transport := transport\<rparr>)\<rparr>)"
  using assms by (simp add: send_to_def Let_def)

lemma perform_action_spec:
  assumes c: "reg_connections reg i = Some c" "con_health c = Some h"
  shows "ticked ops now i reg (perform_action ops now (i, health_action now h) reg) \<and>
    (\<forall>j. j \<noteq> i \<longrightarrow> same_at j reg (perform_action ops now (i, health_action now h) reg)) \<and>
    reg_active (perform_action ops now (i, health_action now h) reg) = reg_active reg \<and>
    reg_input_enabled (perform_action ops now (i, health_action now h) reg) = reg_input_enabled reg"
proof (cases "health_action now h")
  case NoAction
  then show ?thesis using c by (simp add: perform_action_def ticked_def tick_one_def same_at_def)
next
  case Expired
  then show ?thesis
    using c record_failure_spec [OF c(1), of ops timed_out]
    by (simp add: perform_action_def ticked_def tick_one_def same_at_def timed_out_def)
next
  case Ping
  obtain result transport where t: "t_send ops health_ping (con_transport c) = (result, transport)" by fastforce
  show ?thesis
  proof (cases result)
    case (Inr u)
    then show ?thesis
      using Ping c t by (simp add: perform_action_def send_to_def Let_def ticked_def tick_one_def same_at_def failure_for_def)
  next
    case (Inl e)
    let ?reg = "reg\<lparr>reg_connections := (reg_connections reg)(i \<mapsto> c\<lparr>con_transport := transport\<rparr>)\<rparr>"
    have "reg_connections ?reg i = Some (c\<lparr>con_transport := transport\<rparr>)" by simp
    from record_failure_spec [OF this, of ops e] show ?thesis
      using Ping Inl c t
      by (simp add: perform_action_def send_to_def Let_def ticked_def tick_one_def same_at_def) (simp add: failure_for_def)
  qed
qed

lemma health_actions_Cons:
  "health_actions now (i # order) reg =
     (case Option.bind (reg_connections reg i) con_health of
        None \<Rightarrow> health_actions now order reg
      | Some h \<Rightarrow> if health_action now h = NoAction then health_actions now order reg
          else (i, health_action now h) # health_actions now order reg)"
  by (auto simp: health_actions_def map_filter_simps split: option.splits)

lemma health_actions_Nil: "health_actions now [] reg = []"
  by (simp add: health_actions_def map_filter_simps)

lemma health_actions_cong:
  "(\<And>i. i \<in> set order \<Longrightarrow> reg_connections reg i = reg_connections reg' i) \<Longrightarrow>
     health_actions now order reg = health_actions now order reg'"
  by (induction order) (auto simp: health_actions_Cons health_actions_Nil split: option.splits)

lemma ticked_unpolled:
  assumes "Option.bind (reg_connections reg i) con_health = None \<or>
    (\<exists>h. Option.bind (reg_connections reg i) con_health = Some h \<and> health_action now h = NoAction)"
  shows "ticked ops now i reg reg"
  using assms by (auto simp: ticked_def tick_one_def bind_eq_None_conv bind_eq_Some_conv split: option.splits)

lemma ticked_same: "ticked ops now i reg reg' \<Longrightarrow> same_at i reg' reg'' \<Longrightarrow> ticked ops now i reg reg''"
  by (auto simp: ticked_def same_at_def split: option.splits)

lemma ticked_cong: "same_at i reg reg0 \<Longrightarrow> ticked ops now i reg0 reg' \<Longrightarrow> ticked ops now i reg reg'"
  by (auto simp: ticked_def same_at_def split: option.splits)

lemma same_at_trans: "same_at i reg reg' \<Longrightarrow> same_at i reg' reg'' \<Longrightarrow> same_at i reg reg''"
  by (simp add: same_at_def)

lemma tick_health_spec:
  assumes "distinct order"
  shows "(\<forall>i \<in> set order. ticked ops now i reg (tick_health ops now order reg)) \<and>
    (\<forall>i. i \<notin> set order \<longrightarrow> same_at i reg (tick_health ops now order reg)) \<and>
    reg_active (tick_health ops now order reg) = reg_active reg \<and>
    reg_input_enabled (tick_health ops now order reg) = reg_input_enabled reg"
  using assms
proof (induction order arbitrary: reg)
  case Nil
  then show ?case by (simp add: tick_health_def health_actions_def map_filter_simps same_at_def)
next
  case (Cons i order)
  then have IH: "(\<forall>j \<in> set order. ticked ops now j r (tick_health ops now order r)) \<and>
      (\<forall>j. j \<notin> set order \<longrightarrow> same_at j r (tick_health ops now order r)) \<and>
      reg_active (tick_health ops now order r) = reg_active r \<and>
      reg_input_enabled (tick_health ops now order r) = reg_input_enabled r" for r by simp
  show ?case
  proof (cases "\<exists>c h. reg_connections reg i = Some c \<and> con_health c = Some h \<and> health_action now h \<noteq> NoAction")
    case True
    then obtain c h where c: "reg_connections reg i = Some c" "con_health c = Some h" "health_action now h \<noteq> NoAction" by blast
    let ?reg = "perform_action ops now (i, health_action now h) reg"
    note P = perform_action_spec [OF c(1,2), of ops now]
    have "health_actions now order reg = health_actions now order ?reg"
      using P Cons.prems by (intro health_actions_cong) (auto simp: same_at_def)
    then have "tick_health ops now (i # order) reg = tick_health ops now order ?reg"
      using c by (simp add: tick_health_def health_actions_Cons)
    moreover have "ticked ops now j reg (tick_health ops now order ?reg)" if "j \<in> set order" for j
      using that P IH [of ?reg] Cons.prems by (metis distinct.simps(2) ticked_cong)
    moreover have "ticked ops now i reg (tick_health ops now order ?reg)"
      using P IH [of ?reg] Cons.prems by (metis distinct.simps(2) ticked_same)
    moreover have "same_at j reg (tick_health ops now order ?reg)" if "j \<notin> set (i # order)" for j
      using that P IH [of ?reg] by (metis list.set_intros same_at_trans)
    ultimately show ?thesis
      using P IH [of ?reg] by (metis set_ConsD)
  next
    case False
    then have "tick_health ops now (i # order) reg = tick_health ops now order reg"
      by (auto simp: tick_health_def health_actions_Cons bind_eq_Some_conv split: option.splits)
    moreover have "ticked ops now i reg reg"
      using False by (intro ticked_unpolled) (auto simp: bind_eq_None_conv bind_eq_Some_conv)
    ultimately show ?thesis using IH [of reg] Cons.prems by (auto intro: ticked_same)
  qed
qed

text \<open>In whatever order the hash map is visited, a health tick treats each connection by itself:
  an expired one is removed and reported as timed out under its generation, one that is due is sent
  a probe that is noted, or removed and reported when sending fails, every other connection, every
  other report, the active endpoint and the input gate stay as they were.\<close>

theorem tick_health_correct:
  assumes "distinct order" "set order = dom (reg_connections reg)"
  shows "(\<forall>i. ticked ops now i reg (tick_health ops now order reg)) \<and>
    reg_active (tick_health ops now order reg) = reg_active reg \<and>
    reg_input_enabled (tick_health ops now order reg) = reg_input_enabled reg"
proof -
  have "ticked ops now i reg reg" if "i \<notin> set order" for i
    using that assms(2) by (intro ticked_unpolled) (auto simp: dom_def)
  then show ?thesis
    using tick_health_spec [OF assms(1), of ops now reg] by (auto intro: ticked_same)
qed

text \<open>An example: two endpoints over a transport that counts what it sends; the first has been silent
  for six seconds, the second never sent its first snapshot.\<close>

definition counting_ops :: "(nat, unit) transport_ops" where
  "counting_ops = \<lparr>t_send = (\<lambda>message n. (Inr (), n + 1)), t_flush = (\<lambda>deadline n. n), t_take_error = (\<lambda>n. (None, n)), t_disconnect = id\<rparr>"

definition example_registry :: "nat EndpointRegistry" where
  "example_registry =
     (let n = new_negotiation [] [HEALTH_CHECK_CAPABILITY];
          reg = insert_connection counting_ops 0 (Ssh ''a'') 0 1 n True empty_registry in
      received (Ssh ''a'') 1 5000 (mark_ready (Ssh ''a'') 1 (insert_connection counting_ops 0 (Ssh ''b'') 0 2 n True reg)))"

lemma example_connections:
  "reg_connections example_registry = [Ssh ''a'' \<mapsto> \<lparr>con_transport = 0, con_generation = 1, con_surface_active = True,
       con_negotiation = new_negotiation [] [HEALTH_CHECK_CAPABILITY],
       con_health = Some \<lparr>connected_at = 0, last_received = 5000, ping_sent_at = None, health_ready = True\<rparr>\<rparr>,
     Ssh ''b'' \<mapsto> \<lparr>con_transport = 0, con_generation = 2, con_surface_active = True,
       con_negotiation = new_negotiation [] [HEALTH_CHECK_CAPABILITY], con_health = Some (new_health 0)\<rparr>]"
  by (simp add: example_registry_def Let_def insert_connection_def empty_registry_def received_def mark_ready_def
      update_health_def health_received_def ready_def new_health_def is_local_def supports_health_check_def
      supports_capability_def new_negotiation_def fun_upd_twist)

theorem tick_health_correct_witness:
  "map_option con_transport (reg_connections (tick_health counting_ops 11000 [Ssh ''b'', Ssh ''a''] example_registry) (Ssh ''a'')) = Some 1 \<and>
   reg_connections (tick_health counting_ops 11000 [Ssh ''b'', Ssh ''a''] example_registry) (Ssh ''b'') = None \<and>
   failure_for (tick_health counting_ops 11000 [Ssh ''b'', Ssh ''a''] example_registry) (Ssh ''b'') =
     Some (failed_with (Ssh ''b'') 2 timed_out)"
proof -
  have "set [Ssh ''b'', Ssh ''a''] = dom (reg_connections example_registry)" by (auto simp: example_connections)
  from tick_health_correct [OF _ this, of counting_ops 11000] have
    "ticked counting_ops 11000 i example_registry (tick_health counting_ops 11000 [Ssh ''b'', Ssh ''a''] example_registry)" for i
    by simp
  from this [of "Ssh ''a''"] this [of "Ssh ''b''"] show ?thesis
    by (simp add: ticked_def example_connections tick_one_def health_action_def new_health_def counting_ops_def
        HEARTBEAT_TIMEOUT_def HEARTBEAT_INTERVAL_def Let_def)
qed

section \<open>The registry as a machine\<close>

text \<open>A registry with the number of connections ever inserted.\<close>

inductive registry_step :: "('t, 'm) transport_ops \<Rightarrow> nat \<times> 't EndpointRegistry \<Rightarrow> nat \<times> 't EndpointRegistry \<Rightarrow> bool"
  for ops :: "('t, 'm) transport_ops" where
  "registry_step ops (n, reg) (Suc n, insert_connection ops now i transport generation negotiation active reg)"
| "registry_step ops (n, reg) (n, received i generation now reg)"
| "registry_step ops (n, reg) (n, mark_ready i generation reg)"
| "distinct order \<Longrightarrow> registry_step ops (n, reg) (n, tick_health ops now order reg)"
| "registry_step ops (n, reg) (n, snd (set_active i reg))"
| "registry_step ops (n, reg) (n, snd (set_surface_active i active reg))"
| "registry_step ops (n, reg) (n, snd (send_to ops i message reg))"
| "registry_step ops (n, reg) (n, disconnect ops i reg)"
| "registry_step ops (n, reg) (n, fail_endpoint_with ops i error reg)"
| "registry_step ops (n, reg) (n, snd (take_failures ops order reg))"
| "registry_step ops (n, reg) (n, freeze_input reg)"
| "registry_step ops (n, reg) (n, unfreeze_input reg)"
| "registry_step ops (n, reg) (n, select_unavailable_local reg)"

definition registry_init :: "nat \<times> 't EndpointRegistry \<Rightarrow> bool" where
  "registry_init s \<longleftrightarrow> s = (0, empty_registry)"

definition connections_ok :: "(ClientEndpointId \<rightharpoonup> 't EndpointConnection) \<Rightarrow> bool" where
  "connections_ok cs \<longleftrightarrow> finite (dom cs) \<and> (\<forall>i c. cs i = Some c \<longrightarrow> con_health c \<noteq> None \<longrightarrow>
     \<not> is_local i \<and> supports_health_check (con_negotiation c))"

definition registry_inv :: "nat \<times> 't EndpointRegistry \<Rightarrow> bool" where
  "registry_inv s \<longleftrightarrow> (case s of (n, reg) \<Rightarrow>
     connections_ok (reg_connections reg) \<and> distinct (map fail_endpoint (reg_failures reg)) \<and>
     card (dom (reg_connections reg)) + length (reg_closed reg) = n)"

lemma connections_ok_upd:
  assumes "connections_ok cs" "cs i = Some c" "con_negotiation c' = con_negotiation c"
    and "con_health c' \<noteq> None \<Longrightarrow> con_health c \<noteq> None"
  shows "connections_ok (cs(i \<mapsto> c')) \<and> card (dom (cs(i \<mapsto> c'))) = card (dom cs)"
proof -
  have "i \<in> dom cs" using assms(2) by blast
  then show ?thesis using assms by (auto simp: connections_ok_def insert_absorb)
qed

lemma connections_ok_remove:
  assumes "connections_ok cs" "cs i = Some c"
  shows "connections_ok (cs(i := None)) \<and> Suc (card (dom (cs(i := None)))) = card (dom cs)"
proof -
  have "i \<in> dom cs" "finite (dom cs)" using assms by (auto simp: connections_ok_def)
  then have "Suc (card (dom cs - {i})) = card (dom cs)" by (rule card_Suc_Diff1 [rotated])
  then show ?thesis using assms(1) by (auto simp: connections_ok_def)
qed

lemma registry_inv_upd:
  assumes "registry_inv (n, reg)" "reg_connections reg i = Some c" "con_negotiation c' = con_negotiation c"
    and "con_health c' \<noteq> None \<Longrightarrow> con_health c \<noteq> None"
  shows "registry_inv (n, reg\<lparr>reg_connections := (reg_connections reg)(i \<mapsto> c')\<rparr>)"
proof -
  have "connections_ok (reg_connections reg)" using assms(1) by (simp add: registry_inv_def)
  from connections_ok_upd [OF this assms(2,3)] assms(1,4) show ?thesis by (simp add: registry_inv_def)
qed

lemma registry_inv_insert:
  assumes "registry_inv (n, reg)"
  shows "registry_inv (Suc n, insert_connection ops now i transport generation negotiation active reg)"
proof -
  have ok: "connections_ok (reg_connections reg)" using assms by (simp add: registry_inv_def)
  let ?c = "\<lparr>con_transport = transport, con_generation = generation, con_surface_active = active, con_negotiation = negotiation,
      con_health = if \<not> is_local i \<and> supports_health_check negotiation then Some (new_health now) else None\<rparr>"
  have "connections_ok ((reg_connections reg)(i \<mapsto> ?c))" using ok by (auto simp: connections_ok_def)
  moreover have "card (dom ((reg_connections reg)(i \<mapsto> ?c))) =
      (if reg_connections reg i = None then Suc (card (dom (reg_connections reg))) else card (dom (reg_connections reg)))"
    using ok by (auto simp: connections_ok_def card_insert_if)
  ultimately show ?thesis
    using assms by (auto simp: registry_inv_def insert_connection_def Let_def split: option.splits)
qed

lemma registry_inv_health: "registry_inv (n, reg) \<Longrightarrow> registry_inv (n, update_health i generation f reg)"
  by (auto simp: update_health_def intro!: registry_inv_upd split: option.splits)

lemma registry_inv_fail:
  assumes "registry_inv (n, reg)"
  shows "registry_inv (n, record_failure ops i error reg)"
proof (cases "reg_connections reg i")
  case (Some c)
  then show ?thesis
    using assms connections_ok_remove [of "reg_connections reg" i c] distinct_replace_failure
    by (auto simp: registry_inv_def record_failure_def)
qed (use assms in \<open>simp add: record_failure_def\<close>)

lemma registry_inv_send: "registry_inv (n, reg) \<Longrightarrow> registry_inv (n, snd (send_to ops i message reg))"
  by (auto simp: send_to_def Let_def intro!: registry_inv_fail registry_inv_upd split: option.splits prod.splits sum.splits)

lemma registry_inv_perform: "registry_inv (n, reg) \<Longrightarrow> registry_inv (n, perform_action ops now entry reg)"
  using registry_inv_send [of n reg ops "fst entry" health_ping]
  by (auto simp: perform_action_def intro!: registry_inv_fail registry_inv_upd
      split: prod.splits HealthAction.splits EndpointSendOutcome.splits option.splits)

lemma registry_inv_fold:
  "(\<And>x reg. registry_inv (n, reg) \<Longrightarrow> registry_inv (n, f x reg)) \<Longrightarrow> registry_inv (n, reg) \<Longrightarrow> registry_inv (n, fold f xs reg)"
  by (induction xs arbitrary: reg) auto

lemma registry_inv_collect: "registry_inv (n, reg) \<Longrightarrow> registry_inv (n, snd (collect_errors ops order reg))"
proof (induction order arbitrary: reg)
  case (Cons i order)
  show ?case
  proof (cases "reg_connections reg i")
    case (Some c)
    obtain error transport where t: "t_take_error ops (con_transport c) = (error, transport)" by fastforce
    have "registry_inv (n, reg\<lparr>reg_connections := (reg_connections reg)(i \<mapsto> c\<lparr>con_transport := transport\<rparr>)\<rparr>)"
      using Cons.prems Some by (intro registry_inv_upd) auto
    from Cons.IH [OF this] Some t show ?thesis by (auto split: prod.splits)
  qed (use Cons in simp)
qed simp

lemma registry_inv_take: "registry_inv (n, reg) \<Longrightarrow> registry_inv (n, snd (take_failures ops order reg))"
proof -
  assume inv: "registry_inv (n, reg)"
  obtain errors reg' where e: "collect_errors ops order reg = (errors, reg')" by fastforce
  have "registry_inv (n, fold (\<lambda>(i, error). record_failure ops i error) errors reg')"
    using registry_inv_collect [OF inv, of ops order] e
    by (intro registry_inv_fold) (auto intro: registry_inv_fail)
  then show ?thesis using e by (simp add: take_failures_def Let_def registry_inv_def)
qed

lemma registry_inv_disconnect: "registry_inv (n, reg) \<Longrightarrow> registry_inv (n, disconnect ops i reg)"
  using connections_ok_remove [of "reg_connections reg" i]
  by (auto simp: registry_inv_def disconnect_def Let_def distinct_map_filter split: option.splits)

lemma registry_inv_flags:
  "registry_inv (n, reg\<lparr>reg_input_enabled := b\<rparr>) = registry_inv (n, reg)"
  "registry_inv (n, reg\<lparr>reg_active := i\<rparr>) = registry_inv (n, reg)"
  by (simp_all add: registry_inv_def)

lemma registry_step_inv: "registry_inv s \<Longrightarrow> registry_step ops s t \<Longrightarrow> registry_inv t"
proof (erule registry_step.cases, goal_cases)
  case (4 order n reg now)
  then show ?case by (auto simp: tick_health_def intro!: registry_inv_fold registry_inv_perform)
next
  case (5 n reg i)
  then show ?case by (simp add: set_active_def registry_inv_def)
next
  case (6 n reg i active)
  then show ?case by (auto simp: set_surface_active_def intro!: registry_inv_upd split: option.splits)
qed (auto simp: received_def mark_ready_def fail_endpoint_with_def registry_inv_insert registry_inv_health registry_inv_send
    registry_inv_disconnect registry_inv_fail registry_inv_take freeze_input_def unfreeze_input_def
    select_unavailable_local_def registry_inv_flags)

interpretation registry: safe_machine registry_init "registry_step ops" registry_inv for ops :: "('t, 'm) transport_ops"
proof
  show "registry_init s \<Longrightarrow> registry_inv s" for s :: "nat \<times> 't EndpointRegistry"
    by (simp add: registry_init_def registry_inv_def connections_ok_def empty_registry_def)
  show "registry_inv s \<Longrightarrow> registry_step ops s t \<Longrightarrow> registry_inv t" for s t :: "nat \<times> 't EndpointRegistry"
    by (rule registry_step_inv)
qed

text \<open>C33: on every reachable registry at most one failure is waiting per endpoint, only remote
  endpoints that negotiated it have a heartbeat, and no transport leaks: each connection ever made
  is either still there or has been disconnected, exactly once.\<close>

theorem registry_reachable_invariant:
  assumes "reach registry_init (registry_step ops) (n, reg)"
  shows "distinct (map fail_endpoint (reg_failures reg)) \<and>
    (\<forall>c. reg_connections reg Local = Some c \<longrightarrow> con_health c = None) \<and>
    finite (dom (reg_connections reg)) \<and> card (dom (reg_connections reg)) + length (reg_closed reg) = n"
proof -
  have "is_local Local" by (simp add: is_local_def)
  moreover have "registry_inv (n, reg)" by (rule registry.reach_inv [OF assms])
  ultimately show ?thesis unfolding registry_inv_def connections_ok_def prod.case by blast
qed

theorem registry_reachable_invariant_witness:
  "card (dom (reg_connections (disconnect counting_ops Local
     (insert_connection counting_ops 0 Local 0 1 (new_negotiation [] []) True empty_registry)))) +
   length (reg_closed (disconnect counting_ops Local
     (insert_connection counting_ops 0 Local 0 1 (new_negotiation [] []) True empty_registry))) = 1"
proof -
  let ?reg = "insert_connection counting_ops 0 Local 0 1 (new_negotiation [] []) True empty_registry"
  have "reach registry_init (registry_step counting_ops) (0, empty_registry)"
    by (rule reach_init) (simp add: registry_init_def)
  then have "reach registry_init (registry_step counting_ops) (Suc 0, ?reg)"
    by (rule reach_step) (rule registry_step.intros)
  then have "reach registry_init (registry_step counting_ops) (Suc 0, disconnect counting_ops Local ?reg)"
    by (rule reach_step) (rule registry_step.intros)
  from registry_reachable_invariant [OF this] show ?thesis by simp
qed

end
