(* ===== verification/Popup_Size.thy ===== *)
theory Popup_Size
  imports Layout_Geometry
begin

text \<open>
  Popup sizes (\<open>herdr/src/popup_size.rs\<close>): cells or a percentage, their text forms for the command
  line and for JSON, and the rectangle a popup gets in an area. \<open>Rect::new\<close> of \<open>ratatui\<close> is an
  argument. serde's data model is the datatype \<open>SerdeValue\<close>: what a serializer is handed and what a
  visitor receives. The JSON schema of the type is documentation and is not modelled.
\<close>

section \<open>Operations\<close>

datatype PopupSize = Cells u16 | Percent u8

definition size_error :: string where
  "size_error = ''must be a number of cells or a percentage like 80%''"

definition resolve :: "PopupSize \<Rightarrow> u16 \<Rightarrow> u16" where
  "resolve sz available =
     (case sz of
        Cells cells \<Rightarrow> cells
      | Percent percent \<Rightarrow> ucast ((ucast available * ucast percent :: u32) div 100))"

definition parse_cli :: "string \<Rightarrow> string + PopupSize" where
  "parse_cli value =
     (if value \<noteq> [] \<and> last value = CHR ''%''
      then case parse_unsigned 255 (butlast value) of
             None \<Rightarrow> Inl size_error
           | Some percent \<Rightarrow>
               if 1 \<le> percent \<and> percent \<le> 100 then Inr (Percent (of_nat percent))
               else Inl ''percentage must be between 1% and 100%''
      else case parse_unsigned 65535 value of
             None \<Rightarrow> Inl size_error
           | Some cells \<Rightarrow> Inr (Cells (of_nat cells)))"

definition parse_percent_string :: "string \<Rightarrow> string + PopupSize" where
  "parse_percent_string value =
     (if value \<noteq> [] \<and> last value = CHR ''%'' then parse_cli value
      else Inl ''string sizes must be percentages like 80%; use a number for cells'')"

datatype SerdeValue = U64 u64 | I64 int | Str string

definition serialize :: "PopupSize \<Rightarrow> SerdeValue" where
  "serialize sz =
     (case sz of Cells cells \<Rightarrow> U64 (ucast cells) | Percent percent \<Rightarrow> Str (show_nat (unat percent) @ ''%''))"

definition deserialize :: "SerdeValue \<Rightarrow> string + PopupSize" where
  "deserialize v =
     (case v of
        U64 n \<Rightarrow> if unat n \<le> 65535 then Inr (Cells (ucast n)) else Inl ''cell count must fit in u16''
      | I64 n \<Rightarrow> if 0 \<le> n \<and> n \<le> 65535 then Inr (Cells (of_int n)) else Inl ''cell count must be between 0 and 65535''
      | Str s \<Rightarrow> parse_percent_string s)"

record PopupResolvedGeometry =
  outer :: Rect
  inner :: Rect

definition resolve_popup_geometry :: "rect_ctor \<Rightarrow> PopupSize option \<Rightarrow> PopupSize option \<Rightarrow> Rect \<Rightarrow> PopupResolvedGeometry option" where
  "resolve_popup_geometry rect_new width height area =
     (let default_width = max (rect_width area div 2) 6;
          default_height = max (rect_height area div 2) 4;
          outer_width = min (max (case width of None \<Rightarrow> default_width | Some w \<Rightarrow> resolve w (rect_width area)) 6) (rect_width area);
          outer_height = min (max (case height of None \<Rightarrow> default_height | Some h \<Rightarrow> resolve h (rect_height area)) 4) (rect_height area) in
      if outer_width < 6 \<or> outer_height < 4 then None
      else let outer_x = rect_x area + saturating_sub (rect_width area) outer_width div 2;
               outer_y = rect_y area + saturating_sub (rect_height area) outer_height div 2;
               pane_inner_width = saturating_sub outer_width 2;
               pane_inner_height = saturating_sub outer_height 2;
               terminal_cols = (if pane_inner_width \<le> 4 then pane_inner_width else saturating_sub pane_inner_width 1) in
           Some \<lparr>outer = rect_new outer_x outer_y outer_width outer_height,
             inner = rect_new (saturating_add outer_x 1) (saturating_add outer_y 1) terminal_cols pane_inner_height\<rparr>)"

section \<open>Text forms\<close>

definition valid_size :: "PopupSize \<Rightarrow> bool" where
  "valid_size sz \<longleftrightarrow> (case sz of Cells _ \<Rightarrow> True | Percent p \<Rightarrow> 1 \<le> p \<and> p \<le> 100)"

definition show_size :: "PopupSize \<Rightarrow> string" where
  "show_size sz = (case sz of Cells cells \<Rightarrow> show_nat (unat cells) | Percent p \<Rightarrow> show_nat (unat p) @ ''%'')"

lemma show_nat_last: "last (show_nat n) \<noteq> CHR ''%''"
proof -
  have "last (show_nat n) \<in> set (show_nat n)" using show_nat_digits [of n] by simp
  then obtain d :: nat where d: "d < 10" "last (show_nat n) = char_of (48 + d)" using show_nat_digits [of n] by blast
  have "digit_value (char_of (48 + d)) = Some d" using d(1) by simp
  moreover have "digit_value (CHR ''%'') = None" by (simp add: digit_value_def)
  ultimately show ?thesis using d(2) by force
qed

lemma unat_u8_bound: "unat (p :: u8) \<le> 255"
  using unsigned_less [of p, where ?'a = nat] by simp

lemma parse_percent: "1 \<le> p \<Longrightarrow> p \<le> 100 \<Longrightarrow> parse_cli (show_nat (unat p) @ ''%'') = Inr (Percent p)"
  by (simp add: parse_cli_def parse_show unat_u8_bound word_le_nat_alt)

lemma parse_cells: "parse_cli (show_nat (unat c)) = Inr (Cells c)"
proof -
  have "unat c \<le> 65535" using unat_u16_bound [of c] by linarith
  then show ?thesis by (simp add: parse_cli_def parse_show show_nat_last show_nat_digits)
qed

lemma unat_ucast_u16_u64: "unat (ucast (c :: u16) :: u64) = unat c"
  by (simp add: unsigned_ucast_eq take_bit_nat_eq_self order_less_trans [OF unat_u16_bound])

text \<open>A size written for JSON or the command line is read back; what is read is always valid: a
  percentage between 1 and 100, or a number of cells.\<close>

theorem popup_size_roundtrip:
  "(valid_size sz \<longrightarrow> deserialize (serialize sz) = Inr sz \<and> parse_cli (show_size sz) = Inr sz) \<and>
   (case deserialize v of Inl _ \<Rightarrow> True | Inr sz' \<Rightarrow> valid_size sz') \<and>
   (case parse_cli line of Inl _ \<Rightarrow> True | Inr sz' \<Rightarrow> valid_size sz')"
proof -
  have cli: "case parse_cli line of Inl _ \<Rightarrow> True | Inr sz' \<Rightarrow> valid_size sz'" for line
  proof -
    have "1 \<le> (of_nat n :: u8) \<and> (of_nat n :: u8) \<le> 100" if "1 \<le> n" "n \<le> 100" for n
      using that by (simp add: word_le_nat_alt unat_of_nat)
    then show ?thesis by (auto simp: parse_cli_def valid_size_def split: option.splits)
  qed
  moreover have "case deserialize v of Inl _ \<Rightarrow> True | Inr sz' \<Rightarrow> valid_size sz'"
    using cli by (auto simp: deserialize_def parse_percent_string_def valid_size_def split: SerdeValue.splits)
  moreover have "deserialize (serialize sz) = Inr sz \<and> parse_cli (show_size sz) = Inr sz" if "valid_size sz"
  proof (cases sz)
    case (Cells c)
    have "unat c \<le> 65535" using unat_u16_bound [of c] by linarith
    moreover have "ucast (ucast c :: u64) = c" by (rule bit_word_eqI) (simp add: bit_simps)
    ultimately show ?thesis using Cells by (simp add: deserialize_def serialize_def unat_ucast_u16_u64 show_size_def parse_cells)
  next
    case (Percent p)
    with that show ?thesis
      by (simp add: deserialize_def serialize_def parse_percent_string_def show_size_def parse_percent valid_size_def)
  qed
  ultimately show ?thesis by blast
qed

theorem popup_size_roundtrip_witness:
  "deserialize (serialize (Percent 80)) = Inr (Percent 80) \<and> parse_cli (show_size (Cells 12)) = Inr (Cells 12)"
  using popup_size_roundtrip [of "Percent 80" "Str []" "[]"] popup_size_roundtrip [of "Cells 12" "Str []" "[]"]
  by (simp add: valid_size_def)

section \<open>Geometry\<close>

definition area_within :: "Rect \<Rightarrow> Rect \<Rightarrow> bool" where
  "area_within a b \<longleftrightarrow> rect_x b \<le> rect_x a \<and> unat (rect_x a) + unat (rect_width a) \<le> unat (rect_x b) + unat (rect_width b) \<and>
     rect_y b \<le> rect_y a \<and> unat (rect_y a) + unat (rect_height a) \<le> unat (rect_y b) + unat (rect_height b)"

lemma unat_max16: "unat (max a b) = max (unat a) (unat b)" for a b :: u16
  by (simp add: max_def word_le_nat_alt)

lemma unat_min16: "unat (min a b) = min (unat a) (unat b)" for a b :: u16
  by (simp add: min_def word_le_nat_alt)

lemma unat_half: "unat (a div 2 :: u16) = unat a div 2"
  by (simp add: unat_div)

text \<open>One axis of the geometry, as naturals.\<close>

lemma popup_axis:
  fixes x w req least ow ox :: u16
  assumes "unat x + unat w \<le> 65535" "ow = min (max req least) w" "\<not> ow < least" "2 < unat least"
    and "ox = x + saturating_sub w ow div 2"
  shows "unat ox = unat x + (unat w - unat ow) div 2" "unat ow \<le> unat w" "unat least \<le> unat ow"
    "unat ox + unat ow \<le> unat x + unat w" "unat (saturating_add ox 1) = unat ox + 1" "unat (saturating_sub ow 2) = unat ow - 2"
    "unat ox + unat ow \<le> 65535"
proof -
  show ow: "unat ow \<le> unat w" "unat least \<le> unat ow"
    using assms(2,3) unfolding word_less_nat_alt unat_min16 assms(2) by linarith+
  have s: "unat (saturating_sub w ow div 2) = (unat w - unat ow) div 2" by (simp add: unat_half unat_saturating_sub)
  then show ox: "unat ox = unat x + (unat w - unat ow) div 2"
    using assms(1,5) ow unat_add_u16 [of x "saturating_sub w ow div 2"] by simp
  then show "unat ox + unat ow \<le> unat x + unat w" using ow by simp
  then show "unat ox + unat ow \<le> 65535" using assms(1) by linarith
  then show "unat (saturating_add ox 1) = unat ox + 1" using ow assms(4) by (simp add: unat_saturating_add)
  show "unat (saturating_sub ow 2) = unat ow - 2" by (simp add: unat_saturating_sub)
qed

text \<open>A popup fits iff the area has at least 6 by 4 cells; then its frame is inside the area and
  centred to the cell, at least 6 by 4, as large as was asked as far as the area allows, and the
  terminal is inside the frame with a cell of border on each side.\<close>

theorem popup_geometry_bounds:
  assumes "rect_new_spec rect_new" "rect_fits area"
  shows "(resolve_popup_geometry rect_new width height area = None) = (rect_width area < 6 \<or> rect_height area < 4) \<and>
    (case resolve_popup_geometry rect_new width height area of
       None \<Rightarrow> True
     | Some g \<Rightarrow>
         area_within (outer g) area \<and> area_within (inner g) (outer g) \<and>
         6 \<le> rect_width (outer g) \<and> 4 \<le> rect_height (outer g) \<and>
         rect_x (inner g) = rect_x (outer g) + 1 \<and> rect_y (inner g) = rect_y (outer g) + 1 \<and>
         0 < rect_width (inner g) \<and> 0 < rect_height (inner g) \<and>
         unat (rect_x (inner g)) + unat (rect_width (inner g)) + 1 \<le> unat (rect_x (outer g)) + unat (rect_width (outer g)) \<and>
         unat (rect_y (inner g)) + unat (rect_height (inner g)) + 1 \<le> unat (rect_y (outer g)) + unat (rect_height (outer g)) \<and>
         unat (rect_x (outer g)) - unat (rect_x area) = (unat (rect_width area) - unat (rect_width (outer g))) div 2 \<and>
         unat (rect_y (outer g)) - unat (rect_y area) = (unat (rect_height area) - unat (rect_height (outer g))) div 2)"
    (is "_ \<and> ?shape")
proof -
  let ?w = "case width of None \<Rightarrow> max (rect_width area div 2) 6 | Some w \<Rightarrow> resolve w (rect_width area)"
  let ?h = "case height of None \<Rightarrow> max (rect_height area div 2) 4 | Some h \<Rightarrow> resolve h (rect_height area)"
  define ow oh where "ow = min (max ?w 6) (rect_width area)" and "oh = min (max ?h 4) (rect_height area)"
  have small: "(ow < 6) = (rect_width area < 6)" "(oh < 4) = (rect_height area < 4)"
    by (auto simp: ow_def oh_def word_less_nat_alt unat_min16 unat_max16)
  show ?thesis
  proof (cases "ow < 6 \<or> oh < 4")
    case True
    then have "resolve_popup_geometry rect_new width height area = None"
      by (auto simp: resolve_popup_geometry_def Let_def ow_def oh_def)
    then show ?thesis using True small by auto
  next
    case False
    define ox oy where "ox = rect_x area + saturating_sub (rect_width area) ow div 2"
      and "oy = rect_y area + saturating_sub (rect_height area) oh div 2"
    define iw ih where "iw = (if saturating_sub ow 2 \<le> 4 then saturating_sub ow 2 else saturating_sub (saturating_sub ow 2) 1)"
      and "ih = saturating_sub oh 2"
    have g: "resolve_popup_geometry rect_new width height area =
        Some \<lparr>outer = rect_new ox oy ow oh, inner = rect_new (saturating_add ox 1) (saturating_add oy 1) iw ih\<rparr>"
      using False by (simp add: resolve_popup_geometry_def Let_def ow_def oh_def ox_def oy_def iw_def ih_def)
    have "unat (rect_x area) + unat (rect_width area) \<le> 65535" "unat (rect_y area) + unat (rect_height area) \<le> 65535"
      using assms(2) by (simp_all add: rect_fits_def)
    note X = popup_axis [OF this(1) ow_def _ _ ox_def] and Y = popup_axis [OF this(2) oh_def _ _ oy_def]
    have X: "unat ox = unat (rect_x area) + (unat (rect_width area) - unat ow) div 2" "unat ow \<le> unat (rect_width area)"
        "6 \<le> unat ow" "unat ox + unat ow \<le> unat (rect_x area) + unat (rect_width area)" "unat (saturating_add ox 1) = unat ox + 1"
        "unat (saturating_sub ow 2) = unat ow - 2" "unat ox + unat ow \<le> 65535"
      using X False by simp_all
    have Y: "unat oy = unat (rect_y area) + (unat (rect_height area) - unat oh) div 2" "unat oh \<le> unat (rect_height area)"
        "4 \<le> unat oh" "unat oy + unat oh \<le> unat (rect_y area) + unat (rect_height area)" "unat (saturating_add oy 1) = unat oy + 1"
        "unat (saturating_sub oh 2) = unat oh - 2" "unat oy + unat oh \<le> 65535"
      using Y False by simp_all
    have iw: "0 < unat iw" "unat iw + 2 \<le> unat ow" and ih: "unat ih = unat oh - 2"
      using X(3,6) Y(6) by (auto simp: iw_def ih_def unat_saturating_sub word_le_nat_alt)
    have o: "rect_new ox oy ow oh = \<lparr>rect_x = ox, rect_y = oy, rect_width = ow, rect_height = oh\<rparr>"
      using assms(1) X(7) Y(7) by (simp add: rect_new_spec_def)
    have "unat (saturating_add ox 1) + unat iw \<le> 65535" "unat (saturating_add oy 1) + unat ih \<le> 65535"
      using X(5,7) Y(3,5,7) iw(2) ih by linarith+
    then have i: "rect_new (saturating_add ox 1) (saturating_add oy 1) iw ih =
        \<lparr>rect_x = saturating_add ox 1, rect_y = saturating_add oy 1, rect_width = iw, rect_height = ih\<rparr>"
      using assms(1) by (simp add: rect_new_spec_def)
    have one: "saturating_add ox 1 = ox + 1" "saturating_add oy 1 = oy + 1"
      using X(3,7) Y(3,7) by (simp_all add: saturating_add_def)
    have "area_within (rect_new ox oy ow oh) area" using X Y by (simp add: o area_within_def word_le_nat_alt)
    moreover have "area_within (rect_new (saturating_add ox 1) (saturating_add oy 1) iw ih) (rect_new ox oy ow oh)"
      unfolding o i area_within_def word_le_nat_alt using X(3,5) Y(3,5) iw ih by simp
    moreover have "unat (saturating_add ox 1) + unat iw + 1 \<le> unat ox + unat ow" "unat (saturating_add oy 1) + unat ih + 1 \<le> unat oy + unat oh"
      using X(5) Y(3,5) iw ih by linarith+
    moreover have "0 < iw" "0 < ih" "6 \<le> ow" "4 \<le> oh" using iw(1) ih X(3) Y(3) by (simp_all add: word_less_nat_alt word_le_nat_alt)
    ultimately show ?thesis
      using False small X(1) Y(1) unfolding g o i by (simp add: one)
  qed
qed

theorem popup_geometry_bounds_witness:
  "\<exists>g. resolve_popup_geometry clamped_rect (Some (Percent 50)) None \<lparr>rect_x = 2, rect_y = 1, rect_width = 40, rect_height = 20\<rparr> = Some g \<and>
     area_within (outer g) \<lparr>rect_x = 2, rect_y = 1, rect_width = 40, rect_height = 20\<rparr> \<and> 0 < rect_width (inner g)"
proof -
  let ?area = "\<lparr>rect_x = 2, rect_y = 1, rect_width = 40, rect_height = 20\<rparr>"
  have "rect_fits ?area" by (simp add: rect_fits_def)
  from popup_geometry_bounds [OF clamped_rect_spec this, of "Some (Percent 50)" None] show ?thesis
    by (cases "resolve_popup_geometry clamped_rect (Some (Percent 50)) None ?area") auto
qed

end
