(* ===== verification/Text_Parse.thy ===== *)
theory Text_Parse
  imports Prelude "HOL-Library.Monad_Syntax"
begin

text \<open>
  Strings and characters as the sources use them: a \<open>String\<close>, a \<open>&str\<close> and a buffer of bytes are a
  \<open>string\<close> of bytes, a \<open>char\<close> is its code point. These are the operations of the standard library
  the parsers of the client use: prefixes and suffixes, splitting, slicing at character boundaries,
  decoding and validation of UTF-8, and the parsing of numbers.
\<close>

section \<open>Characters\<close>

definition chr :: "char \<Rightarrow> u32" where
  "chr c = of_nat (of_char c)"

definition char_from_u32 :: "u32 \<Rightarrow> u32 option" where
  "char_from_u32 v = (if v < 0xD800 \<or> 0xE000 \<le> v \<and> v \<le> 0x10FFFF then Some v else None)"

definition is_control :: "u32 \<Rightarrow> bool" where
  "is_control ch \<longleftrightarrow> ch < 32 \<or> 127 \<le> ch \<and> ch < 160"

definition is_ascii_uppercase :: "u32 \<Rightarrow> bool" where
  "is_ascii_uppercase ch \<longleftrightarrow> 65 \<le> ch \<and> ch \<le> 90"

definition is_ascii_lowercase :: "u32 \<Rightarrow> bool" where
  "is_ascii_lowercase ch \<longleftrightarrow> 97 \<le> ch \<and> ch \<le> 122"

definition is_ascii_alphabetic :: "u32 \<Rightarrow> bool" where
  "is_ascii_alphabetic ch \<longleftrightarrow> is_ascii_uppercase ch \<or> is_ascii_lowercase ch"

definition to_ascii_uppercase :: "u32 \<Rightarrow> u32" where
  "to_ascii_uppercase ch = (if is_ascii_lowercase ch then ch - 32 else ch)"

definition to_ascii_lowercase :: "u32 \<Rightarrow> u32" where
  "to_ascii_lowercase ch = (if is_ascii_uppercase ch then ch + 32 else ch)"

definition ESC :: char where "ESC = CHR 0x1B"

definition CSI :: string where "CSI = [ESC, CHR ''['']"

definition byte :: "nat \<Rightarrow> char" where "byte n = char_of n"

text \<open>\<open>char::encode_utf8\<close>.\<close>

definition utf8 :: "u32 \<Rightarrow> string" where
  "utf8 ch =
     (let n = unat ch in
      if n < 0x80 then [char_of n]
      else if n < 0x800 then [char_of (0xC0 + n div 64), char_of (0x80 + n mod 64)]
      else if n < 0x10000 then [char_of (0xE0 + n div 4096), char_of (0x80 + n div 64 mod 64), char_of (0x80 + n mod 64)]
      else [char_of (0xF0 + n div 262144), char_of (0x80 + n div 4096 mod 64), char_of (0x80 + n div 64 mod 64),
            char_of (0x80 + n mod 64)])"

section \<open>UTF-8\<close>

text \<open>\<open>str::from_utf8\<close>: the first character of a byte string is a well-formed sequence of some width, is
  cut off at the end of the bytes, or is an error.\<close>

datatype utf8_first = Utf8Char nat | Utf8Truncated | Utf8Error

definition continuation :: "char \<Rightarrow> bool" where
  "continuation c \<longleftrightarrow> (let n = of_char c :: nat in 128 \<le> n \<and> n < 192)"

definition second_ok :: "nat \<Rightarrow> char \<Rightarrow> bool" where
  "second_ok lead c \<longleftrightarrow>
     (let n = of_char c :: nat in
      if lead = 0xE0 then 0xA0 \<le> n \<and> n < 192
      else if lead = 0xED then 128 \<le> n \<and> n < 0xA0
      else if lead = 0xF0 then 0x90 \<le> n \<and> n < 192
      else if lead = 0xF4 then 128 \<le> n \<and> n < 0x90
      else 128 \<le> n \<and> n < 192)"

fun utf8_tail :: "nat \<Rightarrow> nat \<Rightarrow> string \<Rightarrow> utf8_first" where
  "utf8_tail width 0 cs = Utf8Char width"
| "utf8_tail width (Suc n) [] = Utf8Truncated"
| "utf8_tail width (Suc n) (c # cs) = (if continuation c then utf8_tail width n cs else Utf8Error)"

fun first_utf8 :: "string \<Rightarrow> utf8_first" where
  "first_utf8 [] = Utf8Truncated"
| "first_utf8 (b # cs) =
     (let n = of_char b :: nat in
      if n < 128 then Utf8Char 1
      else if n < 0xC2 \<or> 0xF4 < n then Utf8Error
      else case cs of
        [] \<Rightarrow> Utf8Truncated
      | c # ds \<Rightarrow> if \<not> second_ok n c then Utf8Error
          else if n < 0xE0 then Utf8Char 2 else if n < 0xF0 then utf8_tail 3 1 ds else utf8_tail 4 2 ds)"

function from_utf8 :: "string \<Rightarrow> bool" where
  "from_utf8 s =
     (if s = [] then True
      else case first_utf8 s of
        Utf8Char n \<Rightarrow> if n = 0 then False else from_utf8 (drop n s)
      | _ \<Rightarrow> False)"
  by auto
termination by (relation "measure length") auto

declare from_utf8.simps [simp del]

text \<open>Slicing a string panics unless both ends are at a character boundary.\<close>

definition char_boundary :: "string \<Rightarrow> nat \<Rightarrow> bool" where
  "char_boundary s i \<longleftrightarrow> i = 0 \<or> i = length s \<or> i < length s \<and> \<not> continuation (s ! i)"

definition str_slice :: "string \<Rightarrow> nat \<Rightarrow> nat \<Rightarrow> string option" where
  "str_slice s a b = (if a \<le> b \<and> char_boundary s a \<and> char_boundary s b then Some (take (b - a) (drop a s)) else None)"

section \<open>Prefixes, splitting and numbers\<close>

definition strip_prefix :: "string \<Rightarrow> string \<Rightarrow> string option" where
  "strip_prefix p s = (if take (length p) s = p then Some (drop (length p) s) else None)"

definition strip_suffix :: "string \<Rightarrow> string \<Rightarrow> string option" where
  "strip_suffix p s = map_option rev (strip_prefix (rev p) (rev s))"

fun split_once :: "char \<Rightarrow> string \<Rightarrow> (string \<times> string) option" where
  "split_once sep [] = None"
| "split_once sep (c # cs) = (if c = sep then Some ([], cs) else map_option (\<lambda>(a, b). (c # a, b)) (split_once sep cs))"

fun split_on :: "char \<Rightarrow> string \<Rightarrow> string list" where
  "split_on sep [] = [[]]"
| "split_on sep (c # cs) =
     (if c = sep then [] # split_on sep cs
      else case split_on sep cs of f # fs \<Rightarrow> (c # f) # fs | [] \<Rightarrow> [[c]])"

text \<open>The first character of a well-formed UTF-8 string, and the rest.\<close>

definition next_char :: "string \<Rightarrow> (u32 \<times> string) option" where
  "next_char s =
     (case s of
        [] \<Rightarrow> None
      | b # bs \<Rightarrow>
          (let n = of_char b :: nat;
               tail = (\<lambda>i. if i < length bs then of_char (bs ! i) mod 64 else 0 :: nat) in
           if n < 0x80 then Some (of_nat n, bs)
           else if n < 0xE0 then Some (of_nat (n mod 32 * 64 + tail 0), drop 1 bs)
           else if n < 0xF0 then Some (of_nat (n mod 16 * 4096 + tail 0 * 64 + tail 1), drop 2 bs)
           else Some (of_nat (n mod 8 * 262144 + tail 0 * 4096 + tail 1 * 64 + tail 2), drop 3 bs)))"

text \<open>\<open>chars().count() == 1\<close>, with that character.\<close>

definition single_char :: "string \<Rightarrow> u32 option" where
  "single_char s = (case next_char s of Some (ch, []) \<Rightarrow> Some ch | _ \<Rightarrow> None)"

definition parse_u8 :: "string \<Rightarrow> nat option" where "parse_u8 = parse_unsigned 255"

definition parse_u32 :: "string \<Rightarrow> u32 option" where
  "parse_u32 s = map_option of_nat (parse_unsigned 4294967295 s)"

definition checked_pred :: "nat \<Rightarrow> nat option" where
  "checked_pred n = (if n = 0 then None else Some (n - 1))"

lemma strip_prefix_append [simp]: "strip_prefix p (p @ s) = Some s"
  by (simp add: strip_prefix_def)

lemma strip_suffix_append [simp]: "strip_suffix p (s @ p) = Some s"
  by (simp add: strip_suffix_def)

lemma split_on_whole [simp]: "sep \<notin> set a \<Longrightarrow> split_on sep a = [a]"
  by (induction a) auto

lemma split_on_first [simp]: "sep \<notin> set a \<Longrightarrow> split_on sep (a @ sep # b) = a # split_on sep b"
  by (induction a) auto

lemma split_once_whole [simp]: "sep \<notin> set a \<Longrightarrow> split_once sep a = None"
  by (induction a) auto

lemma split_once_first [simp]: "sep \<notin> set a \<Longrightarrow> split_once sep (a @ sep # b) = Some (a, b)"
  by (induction a) auto

lemma show_nat_nonempty [simp]: "show_nat n \<noteq> []"
  using show_nat_digits [of n] by simp

lemma show_nat_plain [simp]: "digit_value c = None \<Longrightarrow> c \<notin> set (show_nat n)"
  using show_nat_digits [of n] by auto

lemma separators [simp]: "digit_value (CHR '';'') = None" "digit_value (CHR '':'') = None"
  by (simp_all add: digit_value_def)

lemma parse_u32_show [simp]: "parse_u32 (show_nat (unat v)) = Some v"
  using unsigned_less [of v, where ?'a = nat] by (simp add: parse_u32_def parse_show)

lemma parse_u8_show: "n \<le> 255 \<Longrightarrow> parse_u8 (show_nat n) = Some n"
  by (simp add: parse_u8_def parse_show)

end
