(* ===== verification/Terminal_Theme.thy ===== *)
theory Terminal_Theme
  imports Text_Parse
begin

text \<open>
  The colours of the host terminal (\<open>src/herdr/src/terminal_theme.rs\<close>): the theme the server keeps for a
  terminal, the OSC sequences that query, set and reset colours, and the parsers of the answers. A
  parser returns \<open>None\<close> where the code panics (a slice of a string inside a character), \<open>Some None\<close>
  where the code returns \<open>None\<close>.
\<close>

section \<open>Colours\<close>

record RgbColor =
  rgb_r :: u8
  rgb_g :: u8
  rgb_b :: u8

definition rgb :: "u8 \<Rightarrow> u8 \<Rightarrow> u8 \<Rightarrow> RgbColor" where
  "rgb x y z = \<lparr>rgb_r = x, rgb_g = y, rgb_b = z\<rparr>"

datatype HostAppearance = DarkAppearance | LightAppearance

datatype DefaultColorKind = Foreground | Background

fun color_scheme_report :: "HostAppearance \<Rightarrow> string" where
  "color_scheme_report DarkAppearance = CSI @ ''?997;1n''"
| "color_scheme_report LightAppearance = CSI @ ''?997;2n''"

definition inferred_appearance :: "RgbColor \<Rightarrow> HostAppearance" where
  "inferred_appearance c =
     (let luminance = (ucast (rgb_r c) * 299 + ucast (rgb_g c) * 587 + ucast (rgb_b c) * 114 :: u32) in
      if 128000 \<le> luminance then LightAppearance else DarkAppearance)"

record TerminalTheme =
  theme_foreground :: "RgbColor option"
  theme_background :: "RgbColor option"
  theme_palette :: "u8 \<Rightarrow> RgbColor option"

definition default_theme :: TerminalTheme where
  "default_theme = \<lparr>theme_foreground = None, theme_background = None, theme_palette = (\<lambda>_. None)\<rparr>"

fun with_color :: "TerminalTheme \<Rightarrow> DefaultColorKind \<Rightarrow> RgbColor \<Rightarrow> TerminalTheme" where
  "with_color th Foreground c = th\<lparr>theme_foreground := Some c\<rparr>"
| "with_color th Background c = th\<lparr>theme_background := Some c\<rparr>"

definition with_palette_color :: "TerminalTheme \<Rightarrow> u8 \<Rightarrow> RgbColor \<Rightarrow> TerminalTheme" where
  "with_palette_color th i c = th\<lparr>theme_palette := (theme_palette th)(i := Some c)\<rparr>"

definition theme_is_empty :: "TerminalTheme \<Rightarrow> bool" where
  "theme_is_empty th \<longleftrightarrow> theme_foreground th = None \<and> theme_background th = None"

section \<open>The sequences\<close>

definition OSC :: string where "OSC = [ESC, CHR '']'']"

definition ST :: string where "ST = [ESC, byte 0x5C]"

definition BEL :: string where "BEL = [byte 7]"

definition HOST_COLOR_QUERY_SEQUENCE :: string where
  "HOST_COLOR_QUERY_SEQUENCE = OSC @ ''10;?'' @ ST @ OSC @ ''11;?'' @ ST"

definition host_terminal_theme_query_sequence :: "bool \<Rightarrow> string" where
  "host_terminal_theme_query_sequence include_palette =
     HOST_COLOR_QUERY_SEQUENCE
     @ (if include_palette then concat (map (\<lambda>i. OSC @ ''4;'' @ show_nat i @ '';?'' @ ST) [0..<256]) else [])"

definition hex_char :: "nat \<Rightarrow> char" where
  "hex_char n = (if n < 10 then char_of (48 + n) else char_of (87 + n))"

definition show_hex2 :: "u8 \<Rightarrow> string" where
  "show_hex2 v = [hex_char (unat v div 16), hex_char (unat v mod 16)]"

definition osc_set_default_color_sequence :: "DefaultColorKind \<Rightarrow> RgbColor \<Rightarrow> string" where
  "osc_set_default_color_sequence kind c =
     OSC @ (case kind of Foreground \<Rightarrow> ''10'' | Background \<Rightarrow> ''11'')
     @ '';rgb:'' @ show_hex2 (rgb_r c) @ ''/'' @ show_hex2 (rgb_g c) @ ''/'' @ show_hex2 (rgb_b c) @ ST"

fun osc_reset_default_color_sequence :: "DefaultColorKind \<Rightarrow> string" where
  "osc_reset_default_color_sequence Foreground = OSC @ ''110'' @ ST"
| "osc_reset_default_color_sequence Background = OSC @ ''111'' @ ST"

section \<open>The parsers\<close>

definition hex_digit :: "char \<Rightarrow> nat option" where
  "hex_digit c =
     (let n = of_char c :: nat in
      if 48 \<le> n \<and> n \<le> 57 then Some (n - 48)
      else if 97 \<le> n \<and> n \<le> 102 then Some (n - 87)
      else if 65 \<le> n \<and> n \<le> 70 then Some (n - 55)
      else None)"

definition parse_hex_component :: "string \<Rightarrow> u8 option" where
  "parse_hex_component s =
     (if s = [] \<or> 4 < length s \<or> \<not> list_all (\<lambda>c. hex_digit c \<noteq> None) s then None
      else let value = foldl (\<lambda>n c. n * 16 + the (hex_digit c)) 0 s;
               max_value = 2 ^ (length s * 4) - 1
           in Some (of_nat ((value * 255 + max_value div 2) div max_value)))"

text \<open>The three components, in order; the first one that does not parse decides.\<close>

definition parse_components :: "string \<Rightarrow> string \<Rightarrow> string \<Rightarrow> RgbColor option" where
  "parse_components x y z =
     do { vr \<leftarrow> parse_hex_component x;
          vg \<leftarrow> parse_hex_component y;
          vb \<leftarrow> parse_hex_component z;
          Some (rgb vr vg vb) }"

text \<open>The components of \<open>#rrggbb\<close>: each slice is taken only once the component before it has parsed.\<close>

definition parse_hash_color :: "string \<Rightarrow> RgbColor option option" where
  "parse_hash_color hex =
     (let digits = length hex div 3 in
      if digits = 0 \<or> 4 < digits \<or> length hex \<noteq> digits * 3 then Some None
      else case str_slice hex 0 digits of None \<Rightarrow> None | Some x \<Rightarrow>
        (case parse_hex_component x of None \<Rightarrow> Some None | Some vr \<Rightarrow>
         (case str_slice hex digits (digits * 2) of None \<Rightarrow> None | Some y \<Rightarrow>
          (case parse_hex_component y of None \<Rightarrow> Some None | Some vg \<Rightarrow>
           (case str_slice hex (digits * 2) (length hex) of None \<Rightarrow> None | Some z \<Rightarrow>
            (case parse_hex_component z of None \<Rightarrow> Some None | Some vb \<Rightarrow> Some (Some (rgb vr vg vb))))))))"

definition parse_rgb_color :: "string \<Rightarrow> RgbColor option option" where
  "parse_rgb_color value =
     (case strip_prefix ''rgb:'' value of
        Some body \<Rightarrow>
          (case split_on (CHR ''/'') body of
             [x, y, z] \<Rightarrow> Some (parse_components x y z)
           | _ \<Rightarrow> Some None)
      | None \<Rightarrow>
          (case strip_prefix ''#'' value of
             Some hex \<Rightarrow> parse_hash_color hex
           | None \<Rightarrow> Some None))"

text \<open>The body of an OSC sequence, ended by \<open>ST\<close> or by \<open>BEL\<close>.\<close>

definition osc_body :: "string \<Rightarrow> string \<Rightarrow> string option" where
  "osc_body prefix s =
     do { body \<leftarrow> strip_prefix prefix s;
          (case strip_suffix ST body of Some b \<Rightarrow> Some b | None \<Rightarrow> strip_suffix BEL body) }"

definition parse_default_color_response :: "string \<Rightarrow> (DefaultColorKind \<times> RgbColor) option option" where
  "parse_default_color_response s =
     (case osc_body OSC s of
        None \<Rightarrow> Some None
      | Some body \<Rightarrow>
          (case split_once (CHR '';'') body of
             None \<Rightarrow> Some None
           | Some (command, value) \<Rightarrow>
               if command = ''10'' then map_option (map_option (Pair Foreground)) (parse_rgb_color value)
               else if command = ''11'' then map_option (map_option (Pair Background)) (parse_rgb_color value)
               else Some None))"

definition parse_palette_color_response :: "string \<Rightarrow> (u8 \<times> RgbColor) option option" where
  "parse_palette_color_response s =
     (case osc_body (OSC @ ''4;'') s of
        None \<Rightarrow> Some None
      | Some body \<Rightarrow>
          (case split_once (CHR '';'') body of
             None \<Rightarrow> Some None
           | Some (index, value) \<Rightarrow>
               (case parse_u8 index of
                  None \<Rightarrow> Some None
                | Some i \<Rightarrow> map_option (map_option (Pair (of_nat i))) (parse_rgb_color value))))"

section \<open>What the sequences mean\<close>

lemma u8_div_16: "unat (v :: u8) div 16 < 16"
  using unsigned_less [of v, where ?'a = nat] by simp

lemma hex_digit_char [simp]: "n < 16 \<Longrightarrow> hex_digit (hex_char n) = Some n"
  by (auto simp: hex_digit_def hex_char_def Let_def)

lemma hex_char_plain: "hex_digit c = None \<Longrightarrow> n < 16 \<Longrightarrow> hex_char n \<noteq> c"
  using hex_digit_char by force

lemma separators_hex [simp]: "hex_digit (CHR ''/'') = None" "hex_digit ESC = None"
  by (simp_all add: hex_digit_def ESC_def)

lemma show_hex2_plain [simp]: "hex_digit c = None \<Longrightarrow> c \<notin> set (show_hex2 v)"
  using hex_char_plain [of c] by (auto simp: show_hex2_def u8_div_16)

lemma parse_hex2 [simp]: "parse_hex_component (show_hex2 v) = Some v"
proof -
  have "unat v div 16 * 16 + unat v mod 16 = unat v" by simp
  moreover have "(n * 255 + 127) div 255 = n" for n :: nat by simp
  ultimately show ?thesis
    by (simp add: parse_hex_component_def show_hex2_def u8_div_16)
qed

lemma parse_rgb_text [simp]:
  "parse_rgb_color (''rgb:'' @ show_hex2 x @ ''/'' @ show_hex2 y @ ''/'' @ show_hex2 z) = Some (Some (rgb x y z))"
proof -
  have "split_on (CHR ''/'') (show_hex2 x @ ''/'' @ show_hex2 y @ ''/'' @ show_hex2 z) = [show_hex2 x, show_hex2 y, show_hex2 z]"
    by simp
  moreover have "strip_prefix ''rgb:'' (''rgb:'' @ w) = Some w" for w by (rule strip_prefix_append)
  ultimately show ?thesis by (simp add: parse_rgb_color_def parse_components_def)
qed

lemma osc_body_wrapped: "osc_body p (p @ body @ ST) = Some body"
proof -
  have "strip_suffix ST (body @ ST) = Some body" by (rule strip_suffix_append)
  then show ?thesis by (simp add: osc_body_def)
qed

text \<open>Setting a default colour of the terminal and reading the sequence back as a colour response gives
  the same kind and the same colour: the writer's two hexadecimal digits per channel survive the
  parser's scaling from any number of digits to eight bits.\<close>

theorem default_color_roundtrip:
  "parse_default_color_response (osc_set_default_color_sequence kind c) = Some (Some (kind, c))"
proof -
  define body where "body = ''rgb:'' @ show_hex2 (rgb_r c) @ ''/'' @ show_hex2 (rgb_g c) @ ''/'' @ show_hex2 (rgb_b c)"
  define command where "command = (case kind of Foreground \<Rightarrow> ''10'' | Background \<Rightarrow> ''11'')"
  have "osc_set_default_color_sequence kind c = OSC @ (command @ CHR '';'' # body) @ ST"
    by (simp add: osc_set_default_color_sequence_def body_def command_def)
  then have "osc_body OSC (osc_set_default_color_sequence kind c) = Some (command @ CHR '';'' # body)"
    by (simp only: osc_body_wrapped)
  moreover have "CHR '';'' \<notin> set command" by (cases kind) (simp_all add: command_def)
  moreover have "parse_rgb_color body = Some (Some c)" by (simp only: body_def parse_rgb_text) (simp add: rgb_def)
  ultimately show ?thesis
    by (cases kind) (simp_all add: parse_default_color_response_def command_def)
qed

text \<open>On ASCII every slice is at a character boundary, so the parsers answer; the panic needs a longer
  character.\<close>

definition ascii :: "string \<Rightarrow> bool" where
  "ascii s \<longleftrightarrow> list_all (\<lambda>c. of_char c < (128 :: nat)) s"

lemma ascii_boundary: "ascii s \<Longrightarrow> i \<le> length s \<Longrightarrow> char_boundary s i"
  by (cases "i < length s") (auto simp: ascii_def char_boundary_def continuation_def list_all_length Let_def)

lemma ascii_sub:
  "ascii (a @ b) \<longleftrightarrow> ascii a \<and> ascii b"
  "ascii (c # s) \<longleftrightarrow> of_char c < (128 :: nat) \<and> ascii s"
  "ascii s \<Longrightarrow> ascii (drop n s)"
  by (auto simp: ascii_def list_all_iff dest: in_set_dropD)

lemma ascii_hash_answers: "ascii hex \<Longrightarrow> parse_hash_color hex \<noteq> None"
  by (auto simp: parse_hash_color_def str_slice_def ascii_boundary Let_def split: option.split)

lemma ascii_rgb_answers: "ascii value \<Longrightarrow> \<exists>r. parse_rgb_color value = Some r"
  using ascii_hash_answers
  by (auto simp: parse_rgb_color_def strip_prefix_def ascii_sub split: option.split list.split)

lemma split_once_parts: "split_once sep s = Some (a, b) \<Longrightarrow> s = a @ sep # b"
  by (induction s arbitrary: a) (auto split: if_splits)

lemma strip_prefix_parts: "strip_prefix p s = Some r \<Longrightarrow> s = p @ r"
  by (metis append_take_drop_id option.inject option.distinct(1) strip_prefix_def)

lemma strip_suffix_parts: "strip_suffix p s = Some r \<Longrightarrow> s = r @ p"
  by (auto simp: strip_suffix_def dest!: strip_prefix_parts) (metis rev_append rev_rev_ident)

lemma osc_body_parts: "osc_body p s = Some body \<Longrightarrow> \<exists>e. s = p @ body @ e"
  by (auto simp: osc_body_def Option.bind_eq_Some_conv split: option.splits
      dest!: strip_prefix_parts strip_suffix_parts)

lemma ascii_value_answers:
  assumes "ascii s" "osc_body p s = Some body" "split_once sep body = Some (c, v)"
  shows "\<exists>r. parse_rgb_color v = Some r"
proof -
  from assms have "ascii v" by (auto simp: ascii_sub dest!: osc_body_parts split_once_parts)
  then show ?thesis by (rule ascii_rgb_answers)
qed

lemma ascii_default_answers: "ascii s \<Longrightarrow> parse_default_color_response s \<noteq> None"
  by (fastforce simp: parse_default_color_response_def split: option.split dest: ascii_value_answers)

lemma ascii_palette_answers: "ascii s \<Longrightarrow> parse_palette_color_response s \<noteq> None"
  by (fastforce simp: parse_palette_color_response_def split: option.split dest: ascii_value_answers)


end
