(* ===== verification/Terminal_Key.thy ===== *)
theory Terminal_Key
  imports Terminal_Theme
begin

text \<open>
  Key events: the model of \<open>herdr/src/input/model.rs\<close> and its wire form, the conversions of
  \<open>ClientKeyCode\<close>, the mouse types and \<open>ClientPaneInputEvent\<close> in \<open>herdr/src/protocol/wire.rs\<close>, with
  the Windows variants that are compiled for Windows and for tests. The enumerations of
  \<open>crossterm\<close> are data types, its modifier set is the byte of its bits; \<open>from_bits_truncate\<close> and
  Unicode's \<open>is_uppercase\<close> are arguments. A \<open>char\<close> is its code point, a \<open>String\<close> its UTF-8 bytes.
\<close>

section \<open>Keys\<close>

text \<open>The constructors the sources name; every other key of \<open>crossterm\<close> is \<open>KeyOther\<close>.\<close>

datatype KeyCode =
    KeyBackspace | KeyEnter | KeyLeft | KeyRight | KeyUp | KeyDown | KeyHome | KeyEnd | KeyPageUp | KeyPageDown
  | KeyTab | KeyBackTab | KeyDelete | KeyInsert | KeyEsc | KeyChar u32 | KeyF u8 | KeyNull | KeyOther nat

datatype KeyEventKind = Press | Repeat | Release

type_synonym KeyModifiers = u8

definition SHIFT :: KeyModifiers where "SHIFT = 1"
definition CONTROL :: KeyModifiers where "CONTROL = 2"
definition ALT :: KeyModifiers where "ALT = 4"
definition SUPER :: KeyModifiers where "SUPER = 8"
definition HYPER :: KeyModifiers where "HYPER = 16"
definition META :: KeyModifiers where "META = 32"

definition mods_contain :: "KeyModifiers \<Rightarrow> KeyModifiers \<Rightarrow> bool" where
  "mods_contain mods m \<longleftrightarrow> mods AND m = m"

definition mods_difference :: "KeyModifiers \<Rightarrow> KeyModifiers \<Rightarrow> KeyModifiers" where
  "mods_difference mods m = mods AND NOT m"

definition flags_spec :: "(u8 \<Rightarrow> KeyModifiers) \<Rightarrow> bool" where
  "flags_spec from_bits_truncate \<longleftrightarrow> (\<forall>m. m AND 0x3F = m \<longrightarrow> from_bits_truncate m = m)"

record WindowsKeyRecord =
  key_down :: bool
  win_repeat_count :: u16
  virtual_key_code :: u16
  virtual_scan_code :: u16
  win_unicode :: u16
  control_key_state :: u32

datatype PhysicalKeyId = PhysicalKeyId u32

datatype KeyIdentity = Physical PhysicalKeyId | SemanticKey KeyCode

datatype KeySource = Synthesized | Vt "u8 list" | WindowsConsole WindowsKeyRecord "PhysicalKeyId option"

definition record_physical_key_id :: "WindowsKeyRecord \<Rightarrow> PhysicalKeyId option" where
  "record_physical_key_id r =
     (if virtual_scan_code r \<noteq> 0
      then Some (PhysicalKeyId (ucast (virtual_scan_code r) OR
             push_bit 16 (of_bool (control_key_state r AND 0x0100 \<noteq> 0))))
      else None)"

record TerminalKey =
  tk_code :: KeyCode
  tk_modifiers :: KeyModifiers
  tk_kind :: KeyEventKind
  tk_repeat_count :: u16
  tk_shifted_codepoint :: "u32 option"
  tk_generated_text :: "string option"
  tk_physical_identity_hint :: bool
  tk_windows_dead_key :: bool
  tk_source :: KeySource

definition new_key :: "KeyCode \<Rightarrow> KeyModifiers \<Rightarrow> TerminalKey" where
  "new_key code modifiers = \<lparr>tk_code = code, tk_modifiers = modifiers, tk_kind = Press, tk_repeat_count = 1,
     tk_shifted_codepoint = None, tk_generated_text = None, tk_physical_identity_hint = False,
     tk_windows_dead_key = False, tk_source = Synthesized\<rparr>"

definition with_kind :: "KeyEventKind \<Rightarrow> TerminalKey \<Rightarrow> TerminalKey" where
  "with_kind kind key =
     (let key = (if kind = Release then key\<lparr>tk_repeat_count := 1, tk_generated_text := None\<rparr> else key) in
      key\<lparr>tk_kind := kind\<rparr>)"

definition with_repeat_count :: "u16 \<Rightarrow> TerminalKey \<Rightarrow> TerminalKey" where
  "with_repeat_count repeat_count key =
     key\<lparr>tk_repeat_count := if tk_kind key = Release then 1 else max repeat_count 1\<rparr>"

definition with_modifiers :: "KeyModifiers \<Rightarrow> TerminalKey \<Rightarrow> TerminalKey" where
  "with_modifiers modifiers key = key\<lparr>tk_modifiers := modifiers\<rparr>"

definition with_shifted_codepoint :: "u32 \<Rightarrow> TerminalKey \<Rightarrow> TerminalKey" where
  "with_shifted_codepoint shifted key = key\<lparr>tk_shifted_codepoint := Some shifted\<rparr>"

definition with_generated_text :: "string option \<Rightarrow> TerminalKey \<Rightarrow> TerminalKey" where
  "with_generated_text generated key =
     key\<lparr>tk_generated_text := if tk_kind key = Release then None else generated\<rparr>"

definition with_vt_bytes :: "u8 list \<Rightarrow> TerminalKey \<Rightarrow> TerminalKey" where
  "with_vt_bytes bytes key = key\<lparr>tk_source := Vt bytes\<rparr>"

definition is_char_key :: "KeyCode \<Rightarrow> bool" where
  "is_char_key code \<longleftrightarrow> (case code of KeyChar _ \<Rightarrow> True | _ \<Rightarrow> False)"

definition with_windows_composition_hint :: "WindowsKeyRecord option \<Rightarrow> TerminalKey \<Rightarrow> TerminalKey" where
  "with_windows_composition_hint r key =
     key\<lparr>tk_windows_dead_key := is_char_key (tk_code key) \<and> mods_difference (tk_modifiers key) SHIFT = 0 \<and>
       (case r of None \<Rightarrow> False | Some r \<Rightarrow> win_unicode r = 0)\<rparr>"

definition with_windows_record :: "WindowsKeyRecord \<Rightarrow> TerminalKey \<Rightarrow> TerminalKey" where
  "with_windows_record r key =
     (let key = with_windows_composition_hint (Some r) key;
          key = key\<lparr>tk_repeat_count := if tk_kind key = Release then 1 else max (win_repeat_count r) 1\<rparr>;
          physical_key = record_physical_key_id r in
      key\<lparr>tk_physical_identity_hint := physical_key \<noteq> None, tk_source := WindowsConsole r physical_key\<rparr>)"

definition with_physical_identity_hint :: "bool \<Rightarrow> TerminalKey \<Rightarrow> TerminalKey" where
  "with_physical_identity_hint physical key = key\<lparr>tk_physical_identity_hint := physical\<rparr>"

definition windows_record :: "TerminalKey \<Rightarrow> WindowsKeyRecord option" where
  "windows_record key = (case tk_source key of WindowsConsole r _ \<Rightarrow> Some r | _ \<Rightarrow> None)"

definition vt_bytes :: "TerminalKey \<Rightarrow> u8 list option" where
  "vt_bytes key = (case tk_source key of Vt bytes \<Rightarrow> Some bytes | _ \<Rightarrow> None)"

definition is_windows_dead_key :: "TerminalKey \<Rightarrow> bool" where
  "is_windows_dead_key key \<longleftrightarrow> tk_windows_dead_key key"

definition identity :: "TerminalKey \<Rightarrow> KeyIdentity" where
  "identity key =
     (case tk_source key of
        WindowsConsole _ (Some physical_key) \<Rightarrow> Physical physical_key
      | _ \<Rightarrow> SemanticKey (tk_code key))"

definition physical_key_id :: "TerminalKey \<Rightarrow> u32 option" where
  "physical_key_id key =
     (case tk_source key of WindowsConsole _ (Some (PhysicalKeyId i)) \<Rightarrow> Some i | _ \<Rightarrow> None)"

definition has_physical_identity :: "TerminalKey \<Rightarrow> bool" where
  "has_physical_identity key \<longleftrightarrow> tk_physical_identity_hint key \<or> physical_key_id key \<noteq> None"

definition with_text_commit :: "(u32 \<Rightarrow> bool) \<Rightarrow> TerminalKey \<Rightarrow> TerminalKey" where
  "with_text_commit is_uppercase key =
     (let has_text_only_modifiers =
            (case tk_code key of
               KeyChar ch \<Rightarrow> if is_uppercase ch then tk_modifiers key = SHIFT \<or> tk_modifiers key = 0
                             else tk_modifiers key = 0
             | _ \<Rightarrow> False) in
      if has_text_only_modifiers \<and> tk_kind key = Press
      then key\<lparr>tk_generated_text := (case tk_code key of KeyChar ch \<Rightarrow> Some (utf8 ch) | _ \<Rightarrow> None)\<rparr>
      else key)"

datatype ModifyOtherKeysMode = Mode1 | Mode2

definition host_modify_other_keys_mode_for_env :: "(string \<Rightarrow> string \<Rightarrow> bool) \<Rightarrow> bool \<Rightarrow> string option \<Rightarrow> bool \<Rightarrow> bool \<Rightarrow>
    ModifyOtherKeysMode option" where
  "host_modify_other_keys_mode_for_env eq_ignore_ascii_case in_tmux term_program wezterm_pane alacritty_window_id =
     (if in_tmux then Some Mode2
      else if wezterm_pane \<or> alacritty_window_id \<or>
              (case term_program of None \<Rightarrow> False | Some program \<Rightarrow> eq_ignore_ascii_case program ''wezterm'')
      then Some Mode1 else None)"

datatype KeyboardProtocol = Legacy | Kitty u16

definition from_kitty_flags :: "u16 \<Rightarrow> KeyboardProtocol" where
  "from_kitty_flags flags = (if flags = 0 then Legacy else Kitty flags)"

definition reports_event_types :: "KeyboardProtocol \<Rightarrow> bool" where
  "reports_event_types p \<longleftrightarrow> (case p of Legacy \<Rightarrow> False | Kitty flags \<Rightarrow> flags AND 2 \<noteq> 0)"

definition KITTY_FLAG_REPORT_ALL_KEYS :: u16 where "KITTY_FLAG_REPORT_ALL_KEYS = 8"

definition reports_all_keys :: "KeyboardProtocol \<Rightarrow> bool" where
  "reports_all_keys p \<longleftrightarrow> (case p of Legacy \<Rightarrow> False | Kitty flags \<Rightarrow> flags AND KITTY_FLAG_REPORT_ALL_KEYS \<noteq> 0)"

section \<open>Keys and mouse on the wire\<close>

datatype ClientKeyKind = ClientPress | ClientRepeat | ClientRelease

datatype ClientKeyCode =
    ClientBackspace | ClientEnter | ClientLeft | ClientRight | ClientUp | ClientDown | ClientHome | ClientEnd
  | ClientPageUp | ClientPageDown | ClientTab | ClientBackTab | ClientDelete | ClientInsert | ClientEsc
  | ClientChar u32 | ClientF u8 | ClientNull

definition kind_from_crossterm :: "KeyEventKind \<Rightarrow> ClientKeyKind" where
  "kind_from_crossterm kind = (case kind of Press \<Rightarrow> ClientPress | Repeat \<Rightarrow> ClientRepeat | Release \<Rightarrow> ClientRelease)"

definition kind_to_crossterm :: "ClientKeyKind \<Rightarrow> KeyEventKind" where
  "kind_to_crossterm kind = (case kind of ClientPress \<Rightarrow> Press | ClientRepeat \<Rightarrow> Repeat | ClientRelease \<Rightarrow> Release)"

definition code_from_crossterm :: "KeyCode \<Rightarrow> ClientKeyCode option" where
  "code_from_crossterm code =
     (case code of
        KeyBackspace \<Rightarrow> Some ClientBackspace | KeyEnter \<Rightarrow> Some ClientEnter | KeyLeft \<Rightarrow> Some ClientLeft
      | KeyRight \<Rightarrow> Some ClientRight | KeyUp \<Rightarrow> Some ClientUp | KeyDown \<Rightarrow> Some ClientDown
      | KeyHome \<Rightarrow> Some ClientHome | KeyEnd \<Rightarrow> Some ClientEnd | KeyPageUp \<Rightarrow> Some ClientPageUp
      | KeyPageDown \<Rightarrow> Some ClientPageDown | KeyTab \<Rightarrow> Some ClientTab | KeyBackTab \<Rightarrow> Some ClientBackTab
      | KeyDelete \<Rightarrow> Some ClientDelete | KeyInsert \<Rightarrow> Some ClientInsert | KeyEsc \<Rightarrow> Some ClientEsc
      | KeyChar ch \<Rightarrow> Some (ClientChar ch) | KeyF n \<Rightarrow> Some (ClientF n) | KeyNull \<Rightarrow> Some ClientNull
      | KeyOther _ \<Rightarrow> None)"

definition code_to_crossterm :: "ClientKeyCode \<Rightarrow> KeyCode" where
  "code_to_crossterm code =
     (case code of
        ClientBackspace \<Rightarrow> KeyBackspace | ClientEnter \<Rightarrow> KeyEnter | ClientLeft \<Rightarrow> KeyLeft
      | ClientRight \<Rightarrow> KeyRight | ClientUp \<Rightarrow> KeyUp | ClientDown \<Rightarrow> KeyDown
      | ClientHome \<Rightarrow> KeyHome | ClientEnd \<Rightarrow> KeyEnd | ClientPageUp \<Rightarrow> KeyPageUp
      | ClientPageDown \<Rightarrow> KeyPageDown | ClientTab \<Rightarrow> KeyTab | ClientBackTab \<Rightarrow> KeyBackTab
      | ClientDelete \<Rightarrow> KeyDelete | ClientInsert \<Rightarrow> KeyInsert | ClientEsc \<Rightarrow> KeyEsc
      | ClientChar ch \<Rightarrow> KeyChar ch | ClientF n \<Rightarrow> KeyF n | ClientNull \<Rightarrow> KeyNull)"

datatype MouseButton = MouseLeft | MouseRight | MouseMiddle

datatype MouseEventKind =
    MouseDown MouseButton | MouseUp MouseButton | MouseDrag MouseButton | MouseMoved
  | MouseScrollUp | MouseScrollDown | MouseScrollLeft | MouseScrollRight

datatype ClientMouseButton = ClientMouseLeft | ClientMouseRight | ClientMouseMiddle

datatype ClientMouseKind =
    ClientMouseDown ClientMouseButton | ClientMouseUp ClientMouseButton | ClientMouseDrag ClientMouseButton | ClientMouseMoved
  | ClientScrollUp | ClientScrollDown | ClientScrollLeft | ClientScrollRight

definition button_from_crossterm :: "MouseButton \<Rightarrow> ClientMouseButton" where
  "button_from_crossterm b = (case b of MouseLeft \<Rightarrow> ClientMouseLeft | MouseRight \<Rightarrow> ClientMouseRight | MouseMiddle \<Rightarrow> ClientMouseMiddle)"

definition button_to_crossterm :: "ClientMouseButton \<Rightarrow> MouseButton" where
  "button_to_crossterm b = (case b of ClientMouseLeft \<Rightarrow> MouseLeft | ClientMouseRight \<Rightarrow> MouseRight | ClientMouseMiddle \<Rightarrow> MouseMiddle)"

definition mouse_from_crossterm :: "MouseEventKind \<Rightarrow> ClientMouseKind option" where
  "mouse_from_crossterm kind =
     (case kind of
        MouseDown b \<Rightarrow> Some (ClientMouseDown (button_from_crossterm b)) | MouseUp b \<Rightarrow> Some (ClientMouseUp (button_from_crossterm b))
      | MouseDrag b \<Rightarrow> Some (ClientMouseDrag (button_from_crossterm b)) | MouseMoved \<Rightarrow> Some ClientMouseMoved
      | MouseScrollUp \<Rightarrow> Some ClientScrollUp | MouseScrollDown \<Rightarrow> Some ClientScrollDown
      | MouseScrollLeft \<Rightarrow> Some ClientScrollLeft | MouseScrollRight \<Rightarrow> Some ClientScrollRight)"

definition mouse_to_crossterm :: "ClientMouseKind \<Rightarrow> MouseEventKind" where
  "mouse_to_crossterm kind =
     (case kind of
        ClientMouseDown b \<Rightarrow> MouseDown (button_to_crossterm b) | ClientMouseUp b \<Rightarrow> MouseUp (button_to_crossterm b)
      | ClientMouseDrag b \<Rightarrow> MouseDrag (button_to_crossterm b) | ClientMouseMoved \<Rightarrow> MouseMoved
      | ClientScrollUp \<Rightarrow> MouseScrollUp | ClientScrollDown \<Rightarrow> MouseScrollDown
      | ClientScrollLeft \<Rightarrow> MouseScrollLeft | ClientScrollRight \<Rightarrow> MouseScrollRight)"

datatype ClientMousePosition = CellPosition u16 u16 | PixelPosition u32 u32 u16 u16

record ClientMouseGeometry =
  geo_cols :: u16
  geo_rows :: u16
  geo_width_px :: u32
  geo_height_px :: u32

record pane_key =
  pk_code :: ClientKeyCode
  pk_modifiers :: u8
  pk_kind :: ClientKeyKind
  pk_repeat_count :: u16
  pk_shifted_codepoint :: "u32 option"
  pk_generated_text :: "string option"
  pk_tracks_release :: bool
  pk_physical_key_id :: "u32 option"
  pk_windows_record :: "WindowsKeyRecord option"

record pane_mouse =
  pm_kind :: ClientMouseKind
  pm_position :: ClientMousePosition
  pm_geometry :: "ClientMouseGeometry option"
  pm_modifiers :: u8
  pm_lines :: u16

datatype ClientPaneInputEvent = PaneKey pane_key | PaneTextCommit string | PaneMouse pane_mouse | PanePaste string

record MouseEvent =
  me_kind :: MouseEventKind
  me_column :: u16
  me_row :: u16
  me_modifiers :: KeyModifiers

text \<open>The events of the raw input of a terminal (\<open>herdr/src/raw_input.rs\<close>).\<close>

datatype RawInputEvent =
    RawKey TerminalKey | RawText string | RawPaste string | RawMouse MouseEvent
  | OuterFocusGained | OuterFocusLost | RawHostDefaultColor DefaultColorKind RgbColor
  | RawHostPaletteColors "(u8 \<times> RgbColor) list" | HostColorSchemeChanged HostAppearance
  | HostCellSizeReport u32 u32 | Unsupported

definition from_terminal_key :: "TerminalKey \<Rightarrow> ClientPaneInputEvent option" where
  "from_terminal_key key =
     (case code_from_crossterm (tk_code key) of
        None \<Rightarrow> None
      | Some code \<Rightarrow> Some (PaneKey
          \<lparr>pk_code = code, pk_modifiers = tk_modifiers key, pk_kind = kind_from_crossterm (tk_kind key),
           pk_repeat_count = tk_repeat_count key, pk_shifted_codepoint = tk_shifted_codepoint key,
           pk_generated_text = tk_generated_text key,
           pk_tracks_release = (tk_generated_text key = None \<or> has_physical_identity key),
           pk_physical_key_id = physical_key_id key, pk_windows_record = windows_record key\<rparr>))"

definition raw_pane_key :: "(u8 \<Rightarrow> KeyModifiers) \<Rightarrow> bool \<Rightarrow> pane_key \<Rightarrow> TerminalKey" where
  "raw_pane_key from_bits_truncate attach_windows_source k =
     (let key = with_windows_composition_hint (pk_windows_record k)
           (with_physical_identity_hint (pk_tracks_release k \<and> pk_generated_text k \<noteq> None)
           (with_generated_text (pk_generated_text k)
           (with_repeat_count (pk_repeat_count k)
           (with_kind (kind_to_crossterm (pk_kind k))
           (new_key (code_to_crossterm (pk_code k)) (from_bits_truncate (pk_modifiers k)))))));
          key = (case pk_shifted_codepoint k of None \<Rightarrow> key | Some shifted \<Rightarrow> with_shifted_codepoint shifted key) in
      if attach_windows_source
      then case pk_windows_record k of None \<Rightarrow> key | Some r \<Rightarrow> with_windows_record r key
      else key)"

definition to_raw_input_event_with_windows_source :: "(u8 \<Rightarrow> KeyModifiers) \<Rightarrow> bool \<Rightarrow> ClientPaneInputEvent \<Rightarrow> RawInputEvent" where
  "to_raw_input_event_with_windows_source from_bits_truncate attach_windows_source e =
     (case e of
        PaneKey k \<Rightarrow> RawKey (raw_pane_key from_bits_truncate attach_windows_source k)
      | PaneTextCommit t \<Rightarrow> RawText t
      | PaneMouse m \<Rightarrow>
          (let (column, row) = (case pm_position m of CellPosition c r \<Rightarrow> (c, r) | PixelPosition _ _ c r \<Rightarrow> (c, r)) in
           RawMouse \<lparr>me_kind = mouse_to_crossterm (pm_kind m), me_column = column, me_row = row,
             me_modifiers = from_bits_truncate (pm_modifiers m)\<rparr>)
      | PanePaste t \<Rightarrow> RawPaste t)"

section \<open>Round trips\<close>

lemma kind_back [simp]: "kind_to_crossterm (kind_from_crossterm kind) = kind"
  by (cases kind) (simp_all add: kind_to_crossterm_def kind_from_crossterm_def)

lemma code_back: "code_from_crossterm code = Some c \<Longrightarrow> code_to_crossterm c = code"
  by (cases code) (auto simp: code_to_crossterm_def code_from_crossterm_def)

lemma code_forth [simp]: "code_from_crossterm (code_to_crossterm c) = Some c"
  by (cases c) (simp_all add: code_to_crossterm_def code_from_crossterm_def)

lemma button_back [simp]: "button_to_crossterm (button_from_crossterm b) = b"
  by (cases b) (simp_all add: button_to_crossterm_def button_from_crossterm_def)

lemma mouse_back: "mouse_from_crossterm kind = Some k \<Longrightarrow> mouse_to_crossterm k = kind"
  by (cases kind) (auto simp: mouse_to_crossterm_def mouse_from_crossterm_def)

text \<open>What the constructors of a key keep true: a release counts once and carries no text, counts are
  positive, a Windows key carries what its record says.\<close>

definition key_wf :: "TerminalKey \<Rightarrow> bool" where
  "key_wf key \<longleftrightarrow> 1 \<le> tk_repeat_count key \<and> tk_modifiers key AND 0x3F = tk_modifiers key \<and>
     (tk_kind key = Release \<longrightarrow> tk_repeat_count key = 1 \<and> tk_generated_text key = None) \<and>
     (case windows_record key of
        None \<Rightarrow> \<not> tk_windows_dead_key key
      | Some r \<Rightarrow> with_windows_record r key = key)"

definition same_key :: "TerminalKey \<Rightarrow> TerminalKey \<Rightarrow> bool" where
  "same_key a b \<longleftrightarrow> tk_code a = tk_code b \<and> tk_modifiers a = tk_modifiers b \<and> tk_kind a = tk_kind b \<and>
     tk_repeat_count a = tk_repeat_count b \<and> tk_shifted_codepoint a = tk_shifted_codepoint b \<and>
     tk_generated_text a = tk_generated_text b \<and> tk_windows_dead_key a = tk_windows_dead_key b \<and> identity a = identity b"

text \<open>The key before its Windows record is attached.\<close>

lemma rebuilt_base:
  assumes "flags_spec from_bits_truncate" "key_wf key" "from_terminal_key key = Some (PaneKey k)"
  shows "raw_pane_key from_bits_truncate False k = with_windows_composition_hint (windows_record key)
    (key\<lparr>tk_source := Synthesized, tk_physical_identity_hint := tk_generated_text key \<noteq> None \<and> has_physical_identity key,
       tk_windows_dead_key := False\<rparr>)"
proof -
  have kept: "max (tk_repeat_count key) 1 = tk_repeat_count key" "from_bits_truncate (tk_modifiers key) = tk_modifiers key"
    "tk_kind key = Release \<Longrightarrow> tk_repeat_count key = 1" "tk_kind key = Release \<Longrightarrow> tk_generated_text key = None"
    using assms(1,2) by (simp_all add: flags_spec_def key_wf_def max.absorb1)
  obtain code where code: "code_from_crossterm (tk_code key) = Some code"
    and k: "k = \<lparr>pk_code = code, pk_modifiers = tk_modifiers key, pk_kind = kind_from_crossterm (tk_kind key),
      pk_repeat_count = tk_repeat_count key, pk_shifted_codepoint = tk_shifted_codepoint key,
      pk_generated_text = tk_generated_text key,
      pk_tracks_release = (tk_generated_text key = None \<or> has_physical_identity key),
      pk_physical_key_id = physical_key_id key, pk_windows_record = windows_record key\<rparr>"
    using assms(3) by (auto simp: from_terminal_key_def split: option.splits)
  obtain c m kd rc sh gt hint dead src where key: "key = \<lparr>tk_code = c, tk_modifiers = m, tk_kind = kd, tk_repeat_count = rc,
     tk_shifted_codepoint = sh, tk_generated_text = gt, tk_physical_identity_hint = hint, tk_windows_dead_key = dead, tk_source = src\<rparr>"
    by (cases key)
  show ?thesis
    using kept code_back[OF code]
    by (cases "kd = Release"; cases sh; cases gt)
      (simp_all add: k key raw_pane_key_def Let_def new_key_def with_kind_def with_repeat_count_def with_generated_text_def
        with_physical_identity_hint_def with_windows_composition_hint_def with_shifted_codepoint_def)
qed

lemma raw_pane_key_windows:
  "raw_pane_key from_bits_truncate True k =
    (case pk_windows_record k of None \<Rightarrow> raw_pane_key from_bits_truncate False k
     | Some r \<Rightarrow> with_windows_record r (raw_pane_key from_bits_truncate False k))"
  by (simp add: raw_pane_key_def Let_def split: option.splits)

lemma sent_record: "from_terminal_key key = Some (PaneKey k) \<Longrightarrow> pk_windows_record k = windows_record key"
  by (auto simp: from_terminal_key_def split: option.splits)

lemma with_windows_record_overwrites:
  "with_windows_record r (with_windows_composition_hint w (key\<lparr>tk_source := a, tk_physical_identity_hint := b, tk_windows_dead_key := c\<rparr>))
   = with_windows_record r key"
  by (simp add: with_windows_record_def with_windows_composition_hint_def Let_def)

lemma rebuilt_key:
  assumes "flags_spec from_bits_truncate" "key_wf key" "from_terminal_key key = Some (PaneKey k)" "windows_record key = None"
  shows "raw_pane_key from_bits_truncate True k =
    key\<lparr>tk_source := Synthesized, tk_physical_identity_hint := tk_generated_text key \<noteq> None \<and> has_physical_identity key\<rparr>"
  using assms(2,4) rebuilt_base[OF assms(1-3)]
  by (simp add: raw_pane_key_windows sent_record[OF assms(3)] with_windows_composition_hint_def key_wf_def)

lemma rebuilt_windows_key:
  assumes "flags_spec from_bits_truncate" "key_wf key" "from_terminal_key key = Some (PaneKey k)" "windows_record key = Some r"
  shows "raw_pane_key from_bits_truncate True k = key"
  using assms(2,4)
  by (simp add: raw_pane_key_windows sent_record[OF assms(3)] rebuilt_base[OF assms(1-3)] with_windows_record_overwrites key_wf_def)

lemma no_record_identity: "windows_record key = None \<Longrightarrow> identity key = SemanticKey (tk_code key)"
  by (auto simp: windows_record_def identity_def split: KeySource.splits)

lemma no_record_physical: "windows_record key = None \<Longrightarrow> physical_key_id key = None"
  by (auto simp: windows_record_def physical_key_id_def split: KeySource.splits)

text \<open>A key that has a wire form reaches the pane with its code, modifiers, phase, count, shifted
  code point, text and identity unchanged; one from a Windows console is rebuilt completely, and one
  that carries text still tells whether it stands for a physical key.\<close>

theorem pane_key_roundtrip:
  assumes "flags_spec from_bits_truncate" "key_wf key" "from_terminal_key key = Some event"
  shows "\<exists>key'. to_raw_input_event_with_windows_source from_bits_truncate True event = RawKey key' \<and> same_key key' key \<and>
    (windows_record key \<noteq> None \<longrightarrow> key' = key) \<and>
    (tk_generated_text key \<noteq> None \<longrightarrow> has_physical_identity key' = has_physical_identity key)"
proof -
  obtain code k where k: "code_from_crossterm (tk_code key) = Some code" "event = PaneKey k"
    using assms(3) by (auto simp: from_terminal_key_def split: option.splits)
  have sent: "from_terminal_key key = Some (PaneKey k)" using assms(3) k by simp
  have raw: "to_raw_input_event_with_windows_source from_bits_truncate True event = RawKey (raw_pane_key from_bits_truncate True k)"
    by (simp add: k to_raw_input_event_with_windows_source_def)
  show ?thesis
  proof (cases "windows_record key")
    case None
    note rebuilt = rebuilt_key[OF assms(1,2) sent None]
    show ?thesis
      using None no_record_identity[OF None] no_record_physical[OF None]
      by (auto simp: raw rebuilt same_key_def identity_def has_physical_identity_def physical_key_id_def)
  next
    case (Some r)
    show ?thesis by (simp add: raw rebuilt_windows_key[OF assms(1,2) sent Some] same_key_def)
  qed
qed

definition slash_record :: WindowsKeyRecord where
  "slash_record = \<lparr>key_down = True, win_repeat_count = 3, virtual_key_code = 0x37, virtual_scan_code = 8,
     win_unicode = 47, control_key_state = 0x10\<rparr>"

definition slash_key :: TerminalKey where
  "slash_key = with_windows_record slash_record (with_generated_text (Some ''/'') (new_key (KeyChar 47) SHIFT))"

theorem pane_key_roundtrip_witness:
  "\<exists>key'. to_raw_input_event_with_windows_source id True (the (from_terminal_key slash_key)) = RawKey key' \<and>
    same_key key' slash_key \<and> (windows_record slash_key \<noteq> None \<longrightarrow> key' = slash_key) \<and>
    (tk_generated_text slash_key \<noteq> None \<longrightarrow> has_physical_identity key' = has_physical_identity slash_key)"
  by (rule pane_key_roundtrip) (simp_all add: flags_spec_def key_wf_def from_terminal_key_def code_from_crossterm_def
      slash_key_def slash_record_def with_windows_record_def with_windows_composition_hint_def Let_def
      with_generated_text_def new_key_def record_physical_key_id_def SHIFT_def windows_record_def)

end
