(* ===== verification/Input_Lease.thy ===== *)
theory Input_Lease
  imports Terminal_Key
begin

text \<open>
  Input leases: the table of \<open>herdr/src/input/lease.rs\<close>, which remembers for every key that is down
  where its press went, and the client shell's use of it in \<open>herdr/src/client/shell/input.rs\<close> and
  \<open>herdr/src/client/shell.rs\<close>: \<open>handle_key\<close>, \<open>execute_repeat_plan\<close>, \<open>release_input_leases\<close>,
  \<open>push_pane_key\<close> and \<open>push_target_event\<close>. The rest of the shell is a type of its own; the context
  it is in, the routing of a key press and the clearing of the link hover are arguments.
\<close>

section \<open>The lease table\<close>

record 'src InputLeaseKey =
  lease_source :: 'src
  lease_identity :: KeyIdentity

definition new_lease_key :: "'src \<Rightarrow> TerminalKey \<Rightarrow> 'src InputLeaseKey" where
  "new_lease_key source key = \<lparr>lease_source = source, lease_identity = identity key\<rparr>"

record 'tgt ForwardedInputLease =
  fwd_target :: 'tgt
  fwd_key :: TerminalKey

datatype 'ctx ConsumedInputLease = ReprocessRepeats 'ctx | SuppressRepeats

datatype ('ctx, 'tgt) InputLease = LeaseForwarded "'tgt ForwardedInputLease" | LeaseConsumed "'ctx ConsumedInputLease"

datatype ('ctx, 'tgt) RepeatPlan = PlanForwarded 'tgt | PlanReprocess 'ctx u16 bool | PlanIgnore

type_synonym ('src, 'ctx, 'tgt) InputLeaseTable = "'src InputLeaseKey \<rightharpoonup> ('ctx, 'tgt) InputLease"

text \<open>A key that stands for text alone has no release.\<close>

definition text_only :: "TerminalKey \<Rightarrow> bool" where
  "text_only key \<longleftrightarrow> tk_generated_text key \<noteq> None \<and> \<not> has_physical_identity key"

definition normalize_press :: "'src InputLeaseKey \<Rightarrow> TerminalKey \<Rightarrow> ('src, 'ctx, 'tgt) InputLeaseTable \<Rightarrow>
    TerminalKey \<times> ('src, 'ctx, 'tgt) InputLeaseTable" where
  "normalize_press lease_key key leases =
     (if tk_kind key \<noteq> Press \<or> text_only key then (key, leases)
      else if has_physical_identity key \<and> leases lease_key \<noteq> None then (with_kind Repeat key, leases)
      else (key, leases(lease_key := None)))"

definition insert_forwarded :: "'src InputLeaseKey \<Rightarrow> 'tgt \<Rightarrow> TerminalKey \<Rightarrow> ('src, 'ctx, 'tgt) InputLeaseTable \<Rightarrow>
    ('src, 'ctx, 'tgt) InputLeaseTable" where
  "insert_forwarded key target original leases =
     leases(key \<mapsto> LeaseForwarded \<lparr>fwd_target = target, fwd_key = original\<rparr>)"

definition insert_consumed :: "'src InputLeaseKey \<Rightarrow> 'ctx ConsumedInputLease \<Rightarrow> ('src, 'ctx, 'tgt) InputLeaseTable \<Rightarrow>
    ('src, 'ctx, 'tgt) InputLeaseTable" where
  "insert_consumed key disposition leases = leases(key \<mapsto> LeaseConsumed disposition)"

definition press_disposition :: "'ctx option \<Rightarrow> 'ctx option \<Rightarrow> 'ctx ConsumedInputLease" where
  "press_disposition initial_context resulting_context =
     (case (initial_context, resulting_context) of
        (Some initial, Some resulting) \<Rightarrow> if initial = resulting then ReprocessRepeats initial else SuppressRepeats
      | _ \<Rightarrow> SuppressRepeats)"

definition complete_press :: "'src InputLeaseKey \<Rightarrow> TerminalKey \<Rightarrow> 'ctx option \<Rightarrow> 'ctx option \<Rightarrow> 'tgt option \<Rightarrow>
    ('src, 'ctx, 'tgt) InputLeaseTable \<Rightarrow> ('ctx, 'tgt) RepeatPlan \<times> ('src, 'ctx, 'tgt) InputLeaseTable" where
  "complete_press lease_key key initial_context resulting_context target leases =
     (if text_only key then (PlanIgnore, leases)
      else case target of
        Some target \<Rightarrow> (PlanIgnore, insert_forwarded lease_key target key leases)
      | None \<Rightarrow>
          (let leases = (if leases lease_key = None
                 then insert_consumed lease_key (press_disposition initial_context resulting_context) leases
                 else leases) in
           (case leases lease_key of
              Some (LeaseConsumed (ReprocessRepeats context)) \<Rightarrow>
                if tk_repeat_count key > 1 then PlanReprocess context (tk_repeat_count key - 1) True else PlanIgnore
            | _ \<Rightarrow> PlanIgnore, leases)))"

definition plan_repeat :: "'src InputLeaseKey \<Rightarrow> TerminalKey \<Rightarrow> 'ctx option \<Rightarrow> ('src, 'ctx, 'tgt) InputLeaseTable \<Rightarrow>
    ('ctx, 'tgt) RepeatPlan \<times> ('src, 'ctx, 'tgt) InputLeaseTable" where
  "plan_repeat lease_key key current_context leases =
     (case leases lease_key of
        Some (LeaseForwarded lease) \<Rightarrow> (PlanForwarded (fwd_target lease), leases)
      | Some (LeaseConsumed (ReprocessRepeats context)) \<Rightarrow>
          if current_context = Some context then (PlanReprocess context (tk_repeat_count key) True, leases)
          else (PlanIgnore, insert_consumed lease_key SuppressRepeats leases)
      | Some (LeaseConsumed SuppressRepeats) \<Rightarrow> (PlanIgnore, leases)
      | None \<Rightarrow>
          (case current_context of
             Some context \<Rightarrow> PlanReprocess context (tk_repeat_count key) False
           | None \<Rightarrow> PlanIgnore, leases))"

definition reprocess_allowed :: "'src InputLeaseKey \<Rightarrow> 'ctx \<Rightarrow> 'ctx option \<Rightarrow> bool \<Rightarrow> ('src, 'ctx, 'tgt) InputLeaseTable \<Rightarrow>
    bool \<times> ('src, 'ctx, 'tgt) InputLeaseTable" where
  "reprocess_allowed lease_key expected_context current_context tracked leases =
     (let allowed = (current_context = Some expected_context) in
      (allowed, if tracked \<and> \<not> allowed then insert_consumed lease_key SuppressRepeats leases else leases))"

definition forwarded_of :: "('ctx, 'tgt) InputLease option \<Rightarrow> 'tgt ForwardedInputLease option" where
  "forwarded_of removed = (case removed of Some (LeaseForwarded lease) \<Rightarrow> Some lease | _ \<Rightarrow> None)"

definition remove_forwarded :: "'src InputLeaseKey \<Rightarrow> ('src, 'ctx, 'tgt) InputLeaseTable \<Rightarrow>
    'tgt ForwardedInputLease option \<times> ('src, 'ctx, 'tgt) InputLeaseTable" where
  "remove_forwarded key leases = (forwarded_of (leases key), leases(key := None))"

definition remove_lease :: "'src InputLeaseKey \<Rightarrow> ('src, 'ctx, 'tgt) InputLeaseTable \<Rightarrow>
    ('ctx, 'tgt) InputLease option \<times> ('src, 'ctx, 'tgt) InputLeaseTable" where
  "remove_lease key leases = (leases key, leases(key := None))"

fun remove_keys :: "'src InputLeaseKey list \<Rightarrow> ('src, 'ctx, 'tgt) InputLeaseTable \<Rightarrow>
    'tgt ForwardedInputLease list \<times> ('src, 'ctx, 'tgt) InputLeaseTable" where
  "remove_keys [] leases = ([], leases)"
| "remove_keys (key # keys) leases =
     (let (removed, leases') = remove_keys keys (leases(key := None)) in
      (case forwarded_of (leases key) of Some lease \<Rightarrow> lease # removed | None \<Rightarrow> removed, leases'))"

text \<open>The iteration of the hash map is an argument: a list of its keys.\<close>

definition remove_source :: "(('src, 'ctx, 'tgt) InputLeaseTable \<Rightarrow> 'src InputLeaseKey list) \<Rightarrow> 'src \<Rightarrow>
    ('src, 'ctx, 'tgt) InputLeaseTable \<Rightarrow> 'tgt ForwardedInputLease list \<times> ('src, 'ctx, 'tgt) InputLeaseTable" where
  "remove_source keys source leases = remove_keys (filter (\<lambda>key. lease_source key = source) (keys leases)) leases"

definition remove_target :: "(('src, 'ctx, 'tgt) InputLeaseTable \<Rightarrow> 'src InputLeaseKey list) \<Rightarrow> 'tgt \<Rightarrow>
    ('src, 'ctx, 'tgt) InputLeaseTable \<Rightarrow> 'tgt ForwardedInputLease list \<times> ('src, 'ctx, 'tgt) InputLeaseTable" where
  "remove_target keys target leases =
     remove_keys (filter (\<lambda>key. case forwarded_of (leases key) of Some lease \<Rightarrow> fwd_target lease = target | None \<Rightarrow> False)
       (keys leases)) leases"

section \<open>The client shell around it\<close>

datatype ClientInputTarget = InputPane string | InputPopup string

datatype 'm ClientMessage =
    ClientShellPaneInput string "ClientPaneInputEvent list"
  | ClientShellPopupInput string "ClientPaneInputEvent list"
  | OtherClientMessage 'm

record 'm ClientShellInput =
  outcome_repaint :: bool
  outcome_requests :: "'m ClientMessage list"

definition target_event_message :: "ClientInputTarget \<Rightarrow> ClientPaneInputEvent \<Rightarrow> 'm ClientMessage" where
  "target_event_message target e =
     (case target of
        InputPane pane \<Rightarrow> ClientShellPaneInput pane [e]
      | InputPopup terminal \<Rightarrow> ClientShellPopupInput terminal [e])"

definition push_request :: "ClientInputTarget \<Rightarrow> ClientPaneInputEvent \<Rightarrow> 'm ClientMessage list \<Rightarrow> 'm ClientMessage list" where
  "push_request target e requests =
     (if requests = [] then [target_event_message target e]
      else case (target, last requests) of
        (InputPane pane, ClientShellPaneInput pending events) \<Rightarrow>
          if pending = pane then butlast requests @ [ClientShellPaneInput pending (events @ [e])]
          else requests @ [target_event_message target e]
      | (InputPopup terminal, ClientShellPopupInput pending events) \<Rightarrow>
          if pending = terminal then butlast requests @ [ClientShellPopupInput pending (events @ [e])]
          else requests @ [target_event_message target e]
      | _ \<Rightarrow> requests @ [target_event_message target e])"

definition push_target_event :: "ClientInputTarget \<Rightarrow> ClientPaneInputEvent \<Rightarrow> 'm ClientShellInput \<Rightarrow> 'm ClientShellInput" where
  "push_target_event target e outcome =
     outcome\<lparr>outcome_requests := push_request target e (outcome_requests outcome)\<rparr>"

definition push_pane_key :: "ClientInputTarget \<Rightarrow> TerminalKey \<Rightarrow> 'm ClientShellInput \<Rightarrow> 'm ClientShellInput" where
  "push_pane_key target key outcome =
     (case from_terminal_key key of Some e \<Rightarrow> push_target_event target e outcome | None \<Rightarrow> outcome)"

record GestureHit =
  hit_width :: u16
  hit_height :: u16
  hit_pane_id :: string
  hit_popup :: bool
  hit_pixel_width :: u32
  hit_pixel_height :: u32

record PaneMouseGesture =
  gesture_hit :: GestureHit
  gesture_button :: MouseButton
  gesture_last_modifiers :: KeyModifiers
  gesture_stripped_modifiers :: KeyModifiers
  gesture_last_position :: ClientMousePosition

record ('ctx, 'w) key_shell =
  input_leases :: "(u8, 'ctx, ClientInputTarget) InputLeaseTable"
  copy_operation_in_flight :: bool
  copy_input_queue :: "TerminalKey list"
  popup_pending :: bool
  popup_terminal_id :: "string option"
  pane_mouse_gesture :: "PaneMouseGesture option"
  mouse_scroll_lines :: nat
  shell_rest :: 'w

record ('ctx, 'w, 'm) shell_ops =
  input_context :: "('ctx, 'w) key_shell \<Rightarrow> 'ctx"
  route_key_press :: "TerminalKey \<Rightarrow> ('ctx, 'w) key_shell \<Rightarrow> 'm ClientShellInput \<Rightarrow>
    ClientInputTarget option \<times> ('ctx, 'w) key_shell \<times> 'm ClientShellInput"
  clear_link_hover :: "('ctx, 'w) key_shell \<Rightarrow> bool \<times> ('ctx, 'w) key_shell"
  lease_keys :: "(u8, 'ctx, ClientInputTarget) InputLeaseTable \<Rightarrow> u8 InputLeaseKey list"

definition LOCAL_INPUT_SOURCE :: u8 where "LOCAL_INPUT_SOURCE = 0"

fun reprocess_repeats :: "('ctx, 'w, 'm) shell_ops \<Rightarrow> u8 InputLeaseKey \<Rightarrow> TerminalKey \<Rightarrow> 'ctx \<Rightarrow> bool \<Rightarrow> nat \<Rightarrow>
    ('ctx, 'w) key_shell \<times> 'm ClientShellInput \<Rightarrow> ('ctx, 'w) key_shell \<times> 'm ClientShellInput" where
  "reprocess_repeats ops lease_key key context tracked 0 (s, outcome) = (s, outcome)"
| "reprocess_repeats ops lease_key key context tracked (Suc n) (s, outcome) =
     (let (allowed, leases) = reprocess_allowed lease_key context (Some (input_context ops s)) tracked (input_leases s);
          s = s\<lparr>input_leases := leases\<rparr> in
      if \<not> allowed then (s, outcome)
      else
        let repeated = with_kind Repeat (with_repeat_count 1 key);
            (target, s, outcome) = route_key_press ops repeated s outcome;
            outcome = (case target of Some target \<Rightarrow> push_pane_key target repeated outcome | None \<Rightarrow> outcome) in
        reprocess_repeats ops lease_key key context tracked n (s, outcome))"

definition execute_repeat_plan :: "('ctx, 'w, 'm) shell_ops \<Rightarrow> u8 InputLeaseKey \<Rightarrow> TerminalKey \<Rightarrow>
    ('ctx, ClientInputTarget) RepeatPlan \<Rightarrow> ('ctx, 'w) key_shell \<times> 'm ClientShellInput \<Rightarrow>
    ('ctx, 'w) key_shell \<times> 'm ClientShellInput" where
  "execute_repeat_plan ops lease_key key plan st =
     (case plan of
        PlanForwarded target \<Rightarrow>
          (let (s, outcome) = st;
               pane_blocked_by_popup = ((case target of InputPane _ \<Rightarrow> True | _ \<Rightarrow> False) \<and>
                 (popup_pending s \<or> popup_terminal_id s \<noteq> None)) in
           if pane_blocked_by_popup then (s, outcome) else (s, push_pane_key target key outcome))
      | PlanReprocess context repetitions tracked \<Rightarrow>
          reprocess_repeats ops lease_key key context tracked (unat repetitions) st
      | PlanIgnore \<Rightarrow> st)"

definition handle_press :: "('ctx, 'w, 'm) shell_ops \<Rightarrow> u8 InputLeaseKey \<Rightarrow> TerminalKey \<Rightarrow>
    ('ctx, 'w) key_shell \<times> 'm ClientShellInput \<Rightarrow> ('ctx, 'w) key_shell \<times> 'm ClientShellInput" where
  "handle_press ops lease_key key st =
     (let (s, outcome) = st;
          initial_context = input_context ops s;
          (target, s, outcome) = route_key_press ops key s outcome;
          outcome = (case target of Some target \<Rightarrow> push_pane_key target key outcome | None \<Rightarrow> outcome);
          resulting_context = input_context ops s;
          (plan, leases) = complete_press lease_key key (Some initial_context) (Some resulting_context) target (input_leases s) in
      execute_repeat_plan ops lease_key key plan (s\<lparr>input_leases := leases\<rparr>, outcome))"

definition handle_repeat :: "('ctx, 'w, 'm) shell_ops \<Rightarrow> u8 InputLeaseKey \<Rightarrow> TerminalKey \<Rightarrow>
    ('ctx, 'w) key_shell \<times> 'm ClientShellInput \<Rightarrow> ('ctx, 'w) key_shell \<times> 'm ClientShellInput" where
  "handle_repeat ops lease_key key st =
     (let (s, outcome) = st;
          context = input_context ops s;
          (plan, leases) = plan_repeat lease_key key (Some context) (input_leases s) in
      execute_repeat_plan ops lease_key key plan (s\<lparr>input_leases := leases\<rparr>, outcome))"

definition handle_release :: "u8 InputLeaseKey \<Rightarrow> TerminalKey \<Rightarrow>
    ('ctx, 'w) key_shell \<times> 'm ClientShellInput \<Rightarrow> ('ctx, 'w) key_shell \<times> 'm ClientShellInput" where
  "handle_release lease_key key st =
     (let (s, outcome) = st;
          (removed, leases) = remove_forwarded lease_key (input_leases s);
          s = s\<lparr>input_leases := leases\<rparr> in
      case removed of
        Some lease \<Rightarrow>
          (s, push_pane_key (fwd_target lease) (with_kind Release (with_modifiers (tk_modifiers key) (fwd_key lease))) outcome)
      | None \<Rightarrow> (s\<lparr>input_leases := snd (remove_lease lease_key (input_leases s))\<rparr>, outcome))"

definition handle_key :: "('ctx, 'w, 'm) shell_ops \<Rightarrow> TerminalKey \<Rightarrow>
    ('ctx, 'w) key_shell \<times> 'm ClientShellInput \<Rightarrow> ('ctx, 'w) key_shell \<times> 'm ClientShellInput" where
  "handle_key ops key st =
     (let (s, outcome) = st;
          (cleared, s) = clear_link_hover ops s;
          outcome = outcome\<lparr>outcome_repaint := outcome_repaint outcome \<or> cleared\<rparr> in
      if copy_operation_in_flight s then (s\<lparr>copy_input_queue := copy_input_queue s @ [key]\<rparr>, outcome)
      else
        let lease_key = new_lease_key LOCAL_INPUT_SOURCE key;
            (key, leases) = normalize_press lease_key key (input_leases s);
            s = s\<lparr>input_leases := leases\<rparr> in
        case tk_kind key of
          Press \<Rightarrow> handle_press ops lease_key key (s, outcome)
        | Repeat \<Rightarrow> handle_repeat ops lease_key key (s, outcome)
        | Release \<Rightarrow> handle_release lease_key key (s, outcome))"

definition gesture_release :: "nat \<Rightarrow> PaneMouseGesture \<Rightarrow> ClientInputTarget \<times> ClientPaneInputEvent" where
  "gesture_release scroll_lines gesture =
     (let hit = gesture_hit gesture;
          modifiers = mods_difference (gesture_last_modifiers gesture) (gesture_stripped_modifiers gesture);
          geometry = (case gesture_last_position gesture of
              PixelPosition _ _ _ _ \<Rightarrow> Some \<lparr>geo_cols = hit_width hit, geo_rows = hit_height hit,
                geo_width_px = hit_pixel_width hit, geo_height_px = hit_pixel_height hit\<rparr>
            | CellPosition _ _ \<Rightarrow> None);
          target = (if hit_popup hit then InputPopup (hit_pane_id hit) else InputPane (hit_pane_id hit)) in
      (target, PaneMouse \<lparr>pm_kind = ClientMouseUp (button_from_crossterm (gesture_button gesture)),
         pm_position = gesture_last_position gesture, pm_geometry = geometry, pm_modifiers = modifiers,
         pm_lines = of_nat (min scroll_lines 65535)\<rparr>))"

fun push_releases :: "ClientInputTarget ForwardedInputLease list \<Rightarrow> 'm ClientShellInput \<Rightarrow> 'm ClientShellInput" where
  "push_releases [] outcome = outcome"
| "push_releases (lease # leases) outcome =
     push_releases leases (push_pane_key (fwd_target lease) (with_kind Release (fwd_key lease)) outcome)"

definition release_input_leases :: "('ctx, 'w, 'm) shell_ops \<Rightarrow> ('ctx, 'w) key_shell \<times> 'm ClientShellInput \<Rightarrow>
    ('ctx, 'w) key_shell \<times> 'm ClientShellInput" where
  "release_input_leases ops st =
     (let (s, outcome) = st;
          (removed, leases) = remove_source (lease_keys ops) LOCAL_INPUT_SOURCE (input_leases s);
          s = s\<lparr>input_leases := leases\<rparr>;
          outcome = push_releases removed outcome;
          outcome = (case pane_mouse_gesture s of
              Some gesture \<Rightarrow> (case gesture_release (mouse_scroll_lines s) gesture of (target, e) \<Rightarrow> push_target_event target e outcome)
            | None \<Rightarrow> outcome) in
      (s\<lparr>pane_mouse_gesture := None, copy_input_queue := []\<rparr>, outcome))"

section \<open>What has been sent\<close>

fun message_events :: "'m ClientMessage \<Rightarrow> (ClientInputTarget \<times> ClientPaneInputEvent) list" where
  "message_events (ClientShellPaneInput pane events) = map (Pair (InputPane pane)) events"
| "message_events (ClientShellPopupInput terminal events) = map (Pair (InputPopup terminal)) events"
| "message_events (OtherClientMessage m) = []"

definition sent_events :: "'m ClientShellInput \<Rightarrow> (ClientInputTarget \<times> ClientPaneInputEvent) list" where
  "sent_events outcome = concat (map message_events (outcome_requests outcome))"

text \<open>Coalescing into the last message neither loses nor reorders an event.\<close>

lemma events_push_request [simp]:
  "concat (map message_events (push_request target e requests)) = concat (map message_events requests) @ [(target, e)]"
  by (cases requests rule: rev_cases)
    (auto simp: push_request_def target_event_message_def split: ClientInputTarget.splits ClientMessage.splits)

lemma sent_push_target_event [simp]: "sent_events (push_target_event target e outcome) = sent_events outcome @ [(target, e)]"
  by (simp add: sent_events_def push_target_event_def)

lemma sent_push_pane_key:
  "sent_events (push_pane_key target key outcome) =
    sent_events outcome @ (case from_terminal_key key of Some e \<Rightarrow> [(target, e)] | None \<Rightarrow> [])"
  by (simp add: push_pane_key_def split: option.splits)

definition key_event :: "ClientKeyKind \<Rightarrow> ClientInputTarget \<Rightarrow> ClientKeyCode \<Rightarrow> ClientInputTarget \<times> ClientPaneInputEvent \<Rightarrow> bool" where
  "key_event kind target code te \<longleftrightarrow> fst te = target \<and>
     (case snd te of PaneKey k \<Rightarrow> pk_kind k = kind \<and> pk_code k = code | _ \<Rightarrow> False)"

definition key_count :: "ClientKeyKind \<Rightarrow> ClientInputTarget \<Rightarrow> ClientKeyCode \<Rightarrow>
    (ClientInputTarget \<times> ClientPaneInputEvent) list \<Rightarrow> nat" where
  "key_count kind target code events = length (filter (key_event kind target code) events)"

lemma key_count_append [simp]: "key_count kind t c (es @ fs) = key_count kind t c es + key_count kind t c fs"
  by (simp add: key_count_def)

lemma key_count_Nil [simp]: "key_count kind t c [] = 0"
  by (simp add: key_count_def)

lemma key_count_single: "key_count kind t c [te] = of_bool (key_event kind t c te)"
  by (simp add: key_count_def)

definition is_key_event :: "ClientInputTarget \<times> ClientPaneInputEvent \<Rightarrow> bool" where
  "is_key_event te \<longleftrightarrow> (case snd te of PaneKey _ \<Rightarrow> True | _ \<Rightarrow> False)"

lemma key_count_filter: "key_count kind t c (filter is_key_event es) = key_count kind t c es"
  unfolding key_count_def filter_filter
  by (rule arg_cong [of _ _ length], rule filter_cong)
    (auto simp: key_event_def is_key_event_def split: ClientPaneInputEvent.splits)

lemma kind_from_crossterm_eq [simp]:
  "kind_from_crossterm k = ClientPress \<longleftrightarrow> k = Press" "kind_from_crossterm k = ClientRelease \<longleftrightarrow> k = Release"
  "kind_from_crossterm k = ClientRepeat \<longleftrightarrow> k = Repeat"
  by (cases k; simp add: kind_from_crossterm_def)+

lemma key_count_push:
  "key_count kind t c (sent_events (push_pane_key target key outcome)) = key_count kind t c (sent_events outcome) +
     of_bool (t = target \<and> code_from_crossterm (tk_code key) = Some c \<and> kind_from_crossterm (tk_kind key) = kind)"
  by (auto simp: sent_push_pane_key from_terminal_key_def key_count_single key_event_def split: option.splits)

section \<open>No release without a press\<close>

definition forwarded_for :: "ClientInputTarget \<Rightarrow> ClientKeyCode \<Rightarrow> ('src, 'ctx, ClientInputTarget) InputLeaseTable \<Rightarrow>
    'src InputLeaseKey set" where
  "forwarded_for t c leases = {k. \<exists>lease. leases k = Some (LeaseForwarded lease) \<and> fwd_target lease = t \<and>
     code_from_crossterm (tk_code (fwd_key lease)) = Some c}"

definition balanced :: "(ClientInputTarget \<times> ClientPaneInputEvent) list \<Rightarrow>
    ('src, 'ctx, ClientInputTarget) InputLeaseTable \<Rightarrow> bool" where
  "balanced events leases \<longleftrightarrow> finite (dom leases) \<and>
     (\<forall>t c. key_count ClientRelease t c events + card (forwarded_for t c leases) \<le> key_count ClientPress t c events)"

lemma balancedI:
  "finite (dom leases) \<Longrightarrow> (\<And>t c. key_count ClientRelease t c events + card (forwarded_for t c leases) \<le> key_count ClientPress t c events) \<Longrightarrow>
    balanced events leases"
  by (simp add: balanced_def)

lemma balancedD:
  "balanced events leases \<Longrightarrow> key_count ClientRelease t c events + card (forwarded_for t c leases) \<le> key_count ClientPress t c events"
  by (simp add: balanced_def)

lemma forwarded_for_dom: "forwarded_for t c leases \<subseteq> dom leases"
  by (auto simp: forwarded_for_def)

lemma finite_forwarded: "finite (dom leases) \<Longrightarrow> finite (forwarded_for t c leases)"
  by (rule finite_subset [OF forwarded_for_dom])

lemma forwarded_for_mono: "leases' \<subseteq>\<^sub>m leases \<Longrightarrow> forwarded_for t c leases' \<subseteq> forwarded_for t c leases"
  by (fastforce simp: forwarded_for_def map_le_def dom_def)

lemma finite_dom_mono: "leases' \<subseteq>\<^sub>m leases \<Longrightarrow> finite (dom leases) \<Longrightarrow> finite (dom leases')"
  by (meson finite_subset map_le_implies_dom_le)

lemma balanced_mono: "balanced events leases \<Longrightarrow> leases' \<subseteq>\<^sub>m leases \<Longrightarrow> balanced events leases'"
  unfolding balanced_def
  by (meson add_le_cancel_left card_mono finite_dom_mono finite_forwarded forwarded_for_mono order_trans)

lemma balanced_counts:
  assumes "balanced events leases" "\<And>t c. key_count ClientPress t c events \<le> key_count ClientPress t c events'"
    "\<And>t c. key_count ClientRelease t c events' = key_count ClientRelease t c events"
  shows "balanced events' leases"
proof -
  have "key_count ClientRelease t c events' + card (forwarded_for t c leases) \<le> key_count ClientPress t c events'" for t c
  proof -
    have "key_count ClientRelease t c events + card (forwarded_for t c leases) \<le> key_count ClientPress t c events"
      using assms(1) by (simp add: balanced_def)
    from order_trans [OF this assms(2)] show ?thesis by (simp add: assms(3))
  qed
  then show ?thesis using assms(1) by (simp add: balanced_def)
qed

lemma balanced_same_keys:
  assumes "balanced (h @ es) leases" "filter is_key_event fs = filter is_key_event es"
  shows "balanced (h @ fs) leases"
  using assms(1) by (rule balanced_counts) (simp_all add: assms(2) flip: key_count_filter [of _ _ _ es] key_count_filter [of _ _ _ fs])

lemma map_le_remove [simp]: "leases(k := None) \<subseteq>\<^sub>m leases"
  by (simp add: map_le_def)

lemma forwarded_for_consumed: "forwarded_for t c (insert_consumed k d leases) \<subseteq> forwarded_for t c leases"
  by (auto simp: forwarded_for_def insert_consumed_def)

lemma balanced_consumed: "balanced events leases \<Longrightarrow> balanced events (insert_consumed k d leases)"
  unfolding balanced_def
  by (auto simp: insert_consumed_def intro: order_trans [OF add_left_mono [OF card_mono [OF finite_forwarded forwarded_for_consumed [unfolded insert_consumed_def]]]])

lemma balanced_push_live:
  assumes "balanced (h @ sent_events outcome) leases" "tk_kind key \<noteq> Release"
  shows "balanced (h @ sent_events (push_pane_key target key outcome)) leases"
  using assms(1) by (rule balanced_counts) (auto simp: key_count_push assms(2))

lemma forwarded_for_insert:
  "forwarded_for t c (insert_forwarded k target key leases) \<subseteq>
    (if t = target \<and> code_from_crossterm (tk_code key) = Some c then insert k (forwarded_for t c leases) else forwarded_for t c leases)"
  by (auto simp: forwarded_for_def insert_forwarded_def split: if_splits)

lemma add_raise: "(r :: nat) + f \<le> p \<Longrightarrow> f' \<le> f + b \<Longrightarrow> r + f' \<le> p + b"
  by simp

lemma balanced_insert:
  assumes "balanced (h @ sent_events outcome) leases" "leases' \<subseteq>\<^sub>m leases" "tk_kind key = Press"
  shows "balanced (h @ sent_events (push_pane_key target key outcome)) (insert_forwarded k target key leases')"
proof -
  have bal: "balanced (h @ sent_events outcome) leases'" by (rule balanced_mono [OF assms(1,2)])
  then have fin: "finite (forwarded_for t c leases')" for t c by (simp add: balanced_def finite_forwarded)
  have "card (forwarded_for t c (insert_forwarded k target key leases')) \<le>
      card (forwarded_for t c leases') + of_bool (t = target \<and> code_from_crossterm (tk_code key) = Some c)" for t c
    by (rule order_trans [OF card_mono [OF _ forwarded_for_insert]]) (auto simp: fin card_insert_if)
  note grown = this
  show ?thesis
  proof (rule balancedI)
    show "finite (dom (insert_forwarded k target key leases'))" using bal by (simp add: balanced_def insert_forwarded_def)
    show "key_count ClientRelease t c (h @ sent_events (push_pane_key target key outcome)) +
        card (forwarded_for t c (insert_forwarded k target key leases'))
      \<le> key_count ClientPress t c (h @ sent_events (push_pane_key target key outcome))" for t c
      using balancedD [OF bal, of t c] grown [of t c] by (simp add: key_count_push assms(3) add_raise)
  qed
qed

lemma forwarded_for_remove: "forwarded_for t c (leases(k := None)) = forwarded_for t c leases - {k}"
  by (auto simp: forwarded_for_def)

lemma add_lower: "(r :: nat) + f \<le> p \<Longrightarrow> f' + b \<le> f \<Longrightarrow> r + b + f' \<le> p"
  by simp

lemma balanced_release:
  assumes "balanced (h @ sent_events outcome) leases" "leases k = Some (LeaseForwarded lease)"
    "tk_code key = tk_code (fwd_key lease)" "tk_kind key = Release"
  shows "balanced (h @ sent_events (push_pane_key (fwd_target lease) key outcome)) (leases(k := None))"
proof -
  have fin: "finite (forwarded_for t c leases)" for t c using assms(1) by (simp add: balanced_def finite_forwarded)
  have "card (forwarded_for t c (leases(k := None))) +
      of_bool (t = fwd_target lease \<and> code_from_crossterm (tk_code key) = Some c) \<le> card (forwarded_for t c leases)" for t c
  proof (cases "t = fwd_target lease \<and> code_from_crossterm (tk_code key) = Some c")
    case True
    have "k \<in> forwarded_for t c leases" using True assms(2,3) by (auto simp: forwarded_for_def)
    from card_Suc_Diff1 [OF fin this] True show ?thesis by (simp add: forwarded_for_remove)
  next
    case False
    have "card (forwarded_for t c (leases(k := None))) \<le> card (forwarded_for t c leases)"
      by (rule card_mono [OF fin forwarded_for_mono]) simp
    then show ?thesis by (simp only: False of_bool_eq add_0_right if_False simp_thms)
  qed
  note shrunk = this
  show ?thesis
  proof (rule balancedI)
    show "finite (dom (leases(k := None)))" using assms(1) by (simp add: balanced_def)
    show "key_count ClientRelease t c (h @ sent_events (push_pane_key (fwd_target lease) key outcome)) +
        card (forwarded_for t c (leases(k := None)))
      \<le> key_count ClientPress t c (h @ sent_events (push_pane_key (fwd_target lease) key outcome))" for t c
      using balancedD [OF assms(1), of t c] shrunk [of t c] by (simp add: key_count_push assms(4) add_lower)
  qed
qed

section \<open>Every operation keeps the balance\<close>

text \<open>What the routing of a press may do: it may drop leases, as a reset of the projection does, and it
  sends no key event of its own. Clearing the link hover touches neither.\<close>

definition routing_spec :: "('ctx, 'w, 'm) shell_ops \<Rightarrow> bool" where
  "routing_spec ops \<longleftrightarrow>
     (\<forall>key s outcome. case route_key_press ops key s outcome of (target, s', outcome') \<Rightarrow>
        input_leases s' \<subseteq>\<^sub>m input_leases s \<and>
        filter is_key_event (sent_events outcome') = filter is_key_event (sent_events outcome)) \<and>
     (\<forall>s. \<exists>w. snd (clear_link_hover ops s) = s\<lparr>shell_rest := w\<rparr>)"

definition shell_balanced :: "(ClientInputTarget \<times> ClientPaneInputEvent) list \<Rightarrow>
    ('ctx, 'w) key_shell \<times> 'm ClientShellInput \<Rightarrow> bool" where
  "shell_balanced h st \<longleftrightarrow> balanced (h @ sent_events (snd st)) (input_leases (fst st))"

lemma routed:
  assumes "routing_spec ops" "route_key_press ops key s outcome = (target, s', outcome')"
  shows "input_leases s' \<subseteq>\<^sub>m input_leases s" "filter is_key_event (sent_events outcome') = filter is_key_event (sent_events outcome)"
proof -
  have "case route_key_press ops key s outcome of (target, s', outcome') \<Rightarrow>
      input_leases s' \<subseteq>\<^sub>m input_leases s \<and> filter is_key_event (sent_events outcome') = filter is_key_event (sent_events outcome)"
    using assms(1) by (simp add: routing_spec_def)
  then show "input_leases s' \<subseteq>\<^sub>m input_leases s" "filter is_key_event (sent_events outcome') = filter is_key_event (sent_events outcome)"
    by (simp_all add: assms(2))
qed

lemma routed_balanced:
  assumes "routing_spec ops" "route_key_press ops key s outcome = (target, s', outcome')" "shell_balanced h (s, outcome)"
  shows "shell_balanced h (s', outcome')"
  using assms(3) routed [OF assms(1,2)] unfolding shell_balanced_def
  by (auto intro: balanced_mono balanced_same_keys)

lemma reprocess_balanced:
  assumes "routing_spec ops" "shell_balanced h st"
  shows "shell_balanced h (reprocess_repeats ops lease_key key context tracked n st)"
  using assms(2)
proof (induction n arbitrary: st)
  case 0
  then show ?case by (cases st) simp
next
  case (Suc n)
  obtain s outcome where st: "st = (s, outcome)" by (cases st)
  obtain allowed leases where allowed: "reprocess_allowed lease_key context (Some (input_context ops s)) tracked (input_leases s) = (allowed, leases)"
    by fastforce
  have bal: "shell_balanced h (s\<lparr>input_leases := leases\<rparr>, outcome)"
    using Suc.prems allowed by (auto simp: st shell_balanced_def reprocess_allowed_def Let_def balanced_consumed split: if_splits)
  obtain target s' outcome' where routed: "route_key_press ops (with_kind Repeat (with_repeat_count 1 key)) (s\<lparr>input_leases := leases\<rparr>) outcome
      = (target, s', outcome')" by (metis prod_cases3)
  note routed_balanced [OF assms(1) routed bal]
  then have "shell_balanced h (s', case target of Some target \<Rightarrow> push_pane_key target (with_kind Repeat (with_repeat_count 1 key)) outcome' | None \<Rightarrow> outcome')"
    by (auto simp: shell_balanced_def with_kind_def split: option.splits intro!: balanced_push_live)
  with bal Suc.IH show ?case by (simp add: st allowed routed Let_def)
qed

lemma execute_plan_balanced:
  assumes "routing_spec ops" "shell_balanced h st" "tk_kind key \<noteq> Release"
  shows "shell_balanced h (execute_repeat_plan ops lease_key key plan st)"
  using assms(2,3)
  by (cases plan; cases st)
    (simp_all add: execute_repeat_plan_def reprocess_balanced [OF assms(1)] Let_def, simp add: shell_balanced_def balanced_push_live)

lemma complete_press_leases:
  "snd (complete_press lease_key key initial resulting target leases) =
    (if text_only key then leases
     else case target of Some target \<Rightarrow> insert_forwarded lease_key target key leases
       | None \<Rightarrow> if leases lease_key = None then insert_consumed lease_key (press_disposition initial resulting) leases else leases)"
  by (simp add: complete_press_def Let_def split: option.splits)

lemma handle_press_balanced:
  assumes "routing_spec ops" "shell_balanced h st" "tk_kind key = Press"
  shows "shell_balanced h (handle_press ops lease_key key st)"
proof -
  obtain s outcome where st: "st = (s, outcome)" by (cases st)
  obtain target s' outcome' where routed: "route_key_press ops key s outcome = (target, s', outcome')" by (metis prod_cases3)
  have bal: "balanced (h @ sent_events outcome') (input_leases s')"
    using routed_balanced [OF assms(1) routed] assms(2) by (simp add: st shell_balanced_def)
  let ?outcome = "case target of Some target \<Rightarrow> push_pane_key target key outcome' | None \<Rightarrow> outcome'"
  let ?complete = "complete_press lease_key key (Some (input_context ops s)) (Some (input_context ops s')) target (input_leases s')"
  have "balanced (h @ sent_events ?outcome) (snd ?complete)"
    using bal assms(3)
    by (auto simp: complete_press_leases balanced_consumed split: option.splits intro: balanced_push_live balanced_insert [OF bal map_le_refl])
  then have "shell_balanced h (s'\<lparr>input_leases := snd ?complete\<rparr>, ?outcome)" by (simp add: shell_balanced_def)
  from execute_plan_balanced [OF assms(1) this, of key lease_key "fst ?complete"] assms(3) show ?thesis
    by (cases ?complete) (simp add: handle_press_def st routed Let_def)
qed

lemma plan_repeat_leases:
  "snd (plan_repeat lease_key key context leases) = leases \<or>
   snd (plan_repeat lease_key key context leases) = insert_consumed lease_key SuppressRepeats leases"
  by (auto simp: plan_repeat_def split: option.splits InputLease.splits ConsumedInputLease.splits)

lemma handle_repeat_balanced:
  assumes "routing_spec ops" "shell_balanced h st" "tk_kind key \<noteq> Release"
  shows "shell_balanced h (handle_repeat ops lease_key key st)"
proof -
  obtain s outcome where st: "st = (s, outcome)" by (cases st)
  let ?plan = "plan_repeat lease_key key (Some (input_context ops s)) (input_leases s)"
  have "shell_balanced h (s\<lparr>input_leases := snd ?plan\<rparr>, outcome)"
    using assms(2) plan_repeat_leases [of lease_key key "Some (input_context ops s)" "input_leases s"]
    by (auto simp: st shell_balanced_def balanced_consumed)
  from execute_plan_balanced [OF assms(1) this assms(3)] show ?thesis
    by (simp add: handle_repeat_def st Let_def case_prod_beta)
qed

lemma handle_release_balanced:
  assumes "shell_balanced h st"
  shows "shell_balanced h (handle_release lease_key key st)"
proof -
  obtain s outcome where st: "st = (s, outcome)" by (cases st)
  have bal: "balanced (h @ sent_events outcome) (input_leases s)" using assms by (simp add: st shell_balanced_def)
  show ?thesis
    by (auto simp: handle_release_def st remove_forwarded_def remove_lease_def forwarded_of_def shell_balanced_def with_kind_def with_modifiers_def
        split: option.splits InputLease.splits intro: balanced_mono [OF bal] intro!: balanced_release [OF bal])
qed

lemma normalize_press_leases:
  "normalize_press lease_key key leases = (key', leases') \<Longrightarrow> leases' \<subseteq>\<^sub>m leases \<and> (key' = key \<or> key' = with_kind Repeat key \<and> tk_kind key = Press)"
  by (auto simp: normalize_press_def split: if_splits)

lemma handle_key_balanced:
  assumes "routing_spec ops" "shell_balanced h st"
  shows "shell_balanced h (handle_key ops key st)"
proof -
  obtain s outcome where st: "st = (s, outcome)" by (cases st)
  obtain cleared s1 where hover: "clear_link_hover ops s = (cleared, s1)" by fastforce
  then have s1: "input_leases s1 = input_leases s" using assms(1) by (fastforce simp: routing_spec_def dest: spec [of _ s])
  let ?outcome = "outcome\<lparr>outcome_repaint := outcome_repaint outcome \<or> cleared\<rparr>"
  obtain key' leases where norm: "normalize_press (new_lease_key LOCAL_INPUT_SOURCE key) key (input_leases s) = (key', leases)" by fastforce
  have bal: "shell_balanced h (s1\<lparr>input_leases := leases\<rparr>, ?outcome)" "shell_balanced h (s1, ?outcome)"
    using assms(2) normalize_press_leases [OF norm] by (auto simp: st s1 shell_balanced_def sent_events_def intro: balanced_mono)
  show ?thesis
    using bal handle_press_balanced [OF assms(1) bal(1)] handle_repeat_balanced [OF assms(1) bal(1)] handle_release_balanced [OF bal(1)]
    by (auto simp: handle_key_def st hover s1 norm Let_def shell_balanced_def split: KeyEventKind.splits)
qed

lemma remove_keys_balanced:
  "balanced (h @ sent_events outcome) leases \<Longrightarrow> remove_keys keys leases = (removed, leases') \<Longrightarrow>
    balanced (h @ sent_events (push_releases removed outcome)) leases'"
proof (induction keys arbitrary: leases outcome removed)
  case Nil
  then show ?case by simp
next
  case (Cons key keys)
  obtain rest where rest: "remove_keys keys (leases(key := None)) = (rest, leases')"
    "removed = (case forwarded_of (leases key) of Some lease \<Rightarrow> lease # rest | None \<Rightarrow> rest)"
    using Cons.prems(2) by (auto simp: split: prod.splits)
  show ?case
  proof (cases "forwarded_of (leases key)")
    case None
    from Cons.IH [OF balanced_mono [OF Cons.prems(1) map_le_remove] rest(1)] show ?thesis by (simp add: rest(2) None)
  next
    case (Some lease)
    then have held: "leases key = Some (LeaseForwarded lease)" by (auto simp: forwarded_of_def split: option.splits InputLease.splits)
    have "balanced (h @ sent_events (push_pane_key (fwd_target lease) (with_kind Release (fwd_key lease)) outcome)) (leases(key := None))"
      by (rule balanced_release [OF Cons.prems(1) held]) (simp_all add: with_kind_def Let_def)
    from Cons.IH [OF this rest(1)] show ?thesis by (simp add: rest(2) Some)
  qed
qed

lemma remove_keys_le: "remove_keys keys leases = (removed, leases') \<Longrightarrow> leases' \<subseteq>\<^sub>m leases"
  by (induction keys arbitrary: leases removed)
    (auto split: prod.splits intro: map_le_trans [OF _ map_le_remove])

lemma gesture_no_key: "gesture_release n g = (target, e) \<Longrightarrow> \<not> is_key_event (t, e)"
  by (auto simp: gesture_release_def Let_def is_key_event_def)

lemma release_leases_balanced:
  assumes "shell_balanced h st"
  shows "shell_balanced h (release_input_leases ops st)"
proof -
  obtain s outcome where st: "st = (s, outcome)" by (cases st)
  obtain removed leases where removed: "remove_source (lease_keys ops) LOCAL_INPUT_SOURCE (input_leases s) = (removed, leases)" by fastforce
  have bal: "balanced (h @ sent_events (push_releases removed outcome)) leases"
    using remove_keys_balanced assms removed by (simp add: st shell_balanced_def remove_source_def)
  show ?thesis
    by (auto simp: release_input_leases_def st removed Let_def shell_balanced_def bal gesture_no_key
        split: option.splits prod.splits intro!: balanced_same_keys [OF bal])
qed

text \<open>A run of the client: what it sent before, the shell and the outcome being collected. Besides keys
  and the loss of focus, a change of endpoint resets the leases, a closed popup removes its own, the
  outcome is sent, and any other part of the shell may run.\<close>

inductive lease_step :: "('ctx, 'w, 'm) shell_ops \<Rightarrow>
    (ClientInputTarget \<times> ClientPaneInputEvent) list \<times> ('ctx, 'w) key_shell \<times> 'm ClientShellInput \<Rightarrow>
    (ClientInputTarget \<times> ClientPaneInputEvent) list \<times> ('ctx, 'w) key_shell \<times> 'm ClientShellInput \<Rightarrow> bool"
  for ops :: "('ctx, 'w, 'm) shell_ops" where
  step_key: "lease_step ops (h, st) (h, handle_key ops key st)"
| step_focus_lost: "lease_step ops (h, st) (h, release_input_leases ops st)"
| step_reset: "lease_step ops (h, s, outcome) (h, s\<lparr>input_leases := Map.empty\<rparr>, outcome)"
| step_popup_closed: "lease_step ops (h, s, outcome)
    (h, s\<lparr>input_leases := snd (remove_target (lease_keys ops) (InputPopup terminal) (input_leases s))\<rparr>, outcome)"
| step_sent: "lease_step ops (h, s, outcome) (h @ sent_events outcome, s, outcome\<lparr>outcome_requests := []\<rparr>)"
| step_other: "input_leases s' = input_leases s \<Longrightarrow>
    filter is_key_event (sent_events outcome') = filter is_key_event (sent_events outcome) \<Longrightarrow>
    lease_step ops (h, s, outcome) (h, s', outcome')"

definition lease_init :: "(ClientInputTarget \<times> ClientPaneInputEvent) list \<times> ('ctx, 'w) key_shell \<times> 'm ClientShellInput \<Rightarrow> bool" where
  "lease_init \<sigma> \<longleftrightarrow> (case \<sigma> of (h, s, outcome) \<Rightarrow> h = [] \<and> input_leases s = Map.empty \<and> outcome_requests outcome = [])"

definition lease_inv :: "(ClientInputTarget \<times> ClientPaneInputEvent) list \<times> ('ctx, 'w) key_shell \<times> 'm ClientShellInput \<Rightarrow> bool" where
  "lease_inv \<sigma> \<longleftrightarrow> shell_balanced (fst \<sigma>) (snd \<sigma>)"

lemma balanced_empty: "balanced [] Map.empty"
  by (rule balancedI) (simp_all add: forwarded_for_def)

lemma lease_step_inv:
  assumes "routing_spec ops" "lease_step ops \<sigma> \<tau>" "lease_inv \<sigma>"
  shows "lease_inv \<tau>"
  using assms(2,3)
proof cases
  case (step_popup_closed h s outcome terminal)
  with assms(3) show ?thesis
    by (auto simp: lease_inv_def shell_balanced_def remove_target_def intro: balanced_mono remove_keys_le [OF prod.collapse [symmetric]])
next
  case (step_key h st key)
  with assms(3) show ?thesis by (simp add: lease_inv_def handle_key_balanced [OF assms(1)])
next
  case (step_focus_lost h st)
  with assms(3) show ?thesis by (simp add: lease_inv_def release_leases_balanced)
qed (auto simp: lease_inv_def shell_balanced_def sent_events_def intro: balanced_mono balanced_same_keys)

interpretation lease: safe_machine lease_init "\<lambda>\<sigma> \<tau>. routing_spec ops \<and> lease_step ops \<sigma> \<tau>" lease_inv
  for ops :: "('ctx, 'w, 'm) shell_ops"
proof
  show "lease_init \<sigma> \<Longrightarrow> lease_inv \<sigma>" for \<sigma> :: "(ClientInputTarget \<times> ClientPaneInputEvent) list \<times> ('ctx, 'w) key_shell \<times> 'm ClientShellInput"
    by (auto simp: lease_init_def lease_inv_def shell_balanced_def sent_events_def balanced_empty split: prod.splits)
  show "lease_inv \<sigma> \<Longrightarrow> routing_spec ops \<and> lease_step ops \<sigma> \<tau> \<Longrightarrow> lease_inv \<tau>"
    for \<sigma> \<tau> :: "(ClientInputTarget \<times> ClientPaneInputEvent) list \<times> ('ctx, 'w) key_shell \<times> 'm ClientShellInput"
    using lease_step_inv by blast
qed

lemma reach_guarded: "G \<Longrightarrow> reach init step s \<Longrightarrow> reach init (\<lambda>s t. G \<and> step s t) s"
  by (rotate_tac, induction rule: reach.induct) (auto intro: reach.intros)

text \<open>C21: in every run of the client, no pane or popup is ever sent more releases of a key than presses
  of it, whatever the rest of the shell routes, resets or closes in between; and every lease that is
  held stands for a press that has not been released.\<close>

theorem no_release_without_press:
  assumes "routing_spec ops" "reach lease_init (lease_step ops) (h, s, outcome)"
  shows "key_count ClientRelease target code (h @ sent_events outcome) + card (forwarded_for target code (input_leases s))
    \<le> key_count ClientPress target code (h @ sent_events outcome)"
  using lease.reach_inv [OF reach_guarded [OF assms]]
  by (simp add: lease_inv_def shell_balanced_def balanced_def)

definition pane_shell :: "(unit, unit) key_shell" where
  "pane_shell = \<lparr>input_leases = Map.empty, copy_operation_in_flight = False, copy_input_queue = [], popup_pending = False,
     popup_terminal_id = None, pane_mouse_gesture = None, mouse_scroll_lines = 3, shell_rest = ()\<rparr>"

definition pane_ops :: "(unit, unit, unit) shell_ops" where
  "pane_ops = \<lparr>input_context = (\<lambda>_. ()), route_key_press = (\<lambda>_ s outcome. (Some (InputPane ''p1''), s, outcome)),
     clear_link_hover = (\<lambda>s. (False, s)), lease_keys = (\<lambda>_. [new_lease_key LOCAL_INPUT_SOURCE slash_key])\<rparr>"

definition no_outcome :: "unit ClientShellInput" where
  "no_outcome = \<lparr>outcome_repaint = False, outcome_requests = []\<rparr>"

lemma pane_routing: "routing_spec pane_ops"
  by (auto simp: routing_spec_def pane_ops_def intro: exI [of _ "()"])

theorem no_release_without_press_witness:
  "let (s, outcome) = handle_key pane_ops (with_kind Release slash_key) (handle_key pane_ops slash_key (pane_shell, no_outcome)) in
   key_count ClientRelease (InputPane ''p1'') (ClientChar 47) ([] @ sent_events outcome) +
     card (forwarded_for (InputPane ''p1'') (ClientChar 47) (input_leases s))
   \<le> key_count ClientPress (InputPane ''p1'') (ClientChar 47) ([] @ sent_events outcome)"
proof -
  let ?pressed = "handle_key pane_ops slash_key (pane_shell, no_outcome)"
  have "reach lease_init (lease_step pane_ops) ([], pane_shell, no_outcome)"
    by (rule reach_init) (simp add: lease_init_def pane_shell_def no_outcome_def)
  then have "reach lease_init (lease_step pane_ops) ([], ?pressed)"
    by (rule reach_step) (rule step_key)
  then have "reach lease_init (lease_step pane_ops) ([], handle_key pane_ops (with_kind Release slash_key) ?pressed)"
    by (rule reach_step) (rule step_key)
  then show ?thesis
    by (cases "handle_key pane_ops (with_kind Release slash_key) ?pressed")
      (simp only: Let_def prod.case no_release_without_press [OF pane_routing])
qed

section \<open>A release follows its press\<close>

text \<open>Routing that leaves the leases alone, as it does while the endpoint stays the same.\<close>

definition routing_keeps :: "('ctx, 'w, 'm) shell_ops \<Rightarrow> bool" where
  "routing_keeps ops \<longleftrightarrow>
     (\<forall>key s outcome. input_leases (fst (snd (route_key_press ops key s outcome))) = input_leases s) \<and>
     (\<forall>s. \<exists>w. snd (clear_link_hover ops s) = s\<lparr>shell_rest := w\<rparr>)"

lemma routing_keepsD:
  assumes "routing_keeps ops"
  shows "route_key_press ops key s outcome = (target, s', outcome') \<Longrightarrow> input_leases s' = input_leases s"
    "clear_link_hover ops s = (cleared, s1) \<Longrightarrow> input_leases s1 = input_leases s"
    "clear_link_hover ops s = (cleared, s1) \<Longrightarrow> copy_operation_in_flight s1 = copy_operation_in_flight s"
proof -
  have "input_leases (fst (snd (route_key_press ops key s outcome))) = input_leases s" "\<exists>w. snd (clear_link_hover ops s) = s\<lparr>shell_rest := w\<rparr>"
    using assms by (simp_all add: routing_keeps_def)
  then show "route_key_press ops key s outcome = (target, s', outcome') \<Longrightarrow> input_leases s' = input_leases s"
    "clear_link_hover ops s = (cleared, s1) \<Longrightarrow> input_leases s1 = input_leases s"
    "clear_link_hover ops s = (cleared, s1) \<Longrightarrow> copy_operation_in_flight s1 = copy_operation_in_flight s"
    by auto
qed

definition keeps_lease :: "TerminalKey \<Rightarrow> bool" where
  "keeps_lease k \<longleftrightarrow> tk_kind k = Repeat \<or> tk_kind k = Press \<and> (text_only k \<or> has_physical_identity k)"

lemma reprocess_other:
  assumes "routing_keeps ops" "lease_key \<noteq> lk"
  shows "input_leases (fst (reprocess_repeats ops lease_key key context tracked n st)) lk = input_leases (fst st) lk"
proof (induction n arbitrary: st)
  case 0
  then show ?case by (cases st) simp
next
  case (Suc n)
  obtain s outcome where st: "st = (s, outcome)" by (cases st)
  let ?leases = "snd (reprocess_allowed lease_key context (Some (input_context ops s)) tracked (input_leases s))"
  have same: "?leases lk = input_leases s lk" using assms(2) by (simp add: reprocess_allowed_def insert_consumed_def Let_def)
  show ?case
    using Suc.IH same
    by (auto simp: st Let_def reprocess_allowed_def split: prod.splits dest!: routing_keepsD(1) [OF assms(1)])
qed

lemma execute_plan_other:
  assumes "routing_keeps ops" "lease_key \<noteq> lk \<or> (\<forall>c n t. plan \<noteq> PlanReprocess c n t)"
  shows "input_leases (fst (execute_repeat_plan ops lease_key key plan st)) lk = input_leases (fst st) lk"
  using assms(2)
  by (cases plan; cases st) (auto simp: execute_repeat_plan_def Let_def reprocess_other [OF assms(1)])

lemma handle_press_other:
  assumes "routing_keeps ops" "lease_key \<noteq> lk \<or> text_only key"
  shows "input_leases (fst (handle_press ops lease_key key st)) lk = input_leases (fst st) lk"
proof -
  obtain s outcome where st: "st = (s, outcome)" by (cases st)
  obtain target s' outcome' where routed: "route_key_press ops key s outcome = (target, s', outcome')" by (metis prod_cases3)
  let ?complete = "complete_press lease_key key (Some (input_context ops s)) (Some (input_context ops s')) target (input_leases s')"
  have leases: "snd ?complete lk = input_leases s lk" 
    using assms(2) routing_keepsD(1) [OF assms(1) routed]
    by (auto simp: complete_press_leases insert_forwarded_def insert_consumed_def split: option.splits)
  have "lease_key \<noteq> lk \<or> (\<forall>c n t. fst ?complete \<noteq> PlanReprocess c n t)"
    using assms(2) by (auto simp: complete_press_def)
  from execute_plan_other [OF assms(1) this] leases show ?thesis
    by (cases ?complete) (simp add: handle_press_def st routed Let_def)
qed

lemma handle_repeat_other:
  assumes "routing_keeps ops" "lease_key \<noteq> lk \<or> (\<exists>lease. input_leases (fst st) lk = Some (LeaseForwarded lease))"
  shows "input_leases (fst (handle_repeat ops lease_key key st)) lk = input_leases (fst st) lk"
proof -
  obtain s outcome where st: "st = (s, outcome)" by (cases st)
  let ?plan = "plan_repeat lease_key key (Some (input_context ops s)) (input_leases s)"
  have leases: "snd ?plan lk = input_leases s lk"
    using assms(2) by (auto simp: st plan_repeat_def insert_consumed_def split: option.splits InputLease.splits ConsumedInputLease.splits)
  have "lease_key \<noteq> lk \<or> (\<forall>c n t. fst ?plan \<noteq> PlanReprocess c n t)"
    using assms(2) by (auto simp: st plan_repeat_def)
  from execute_plan_other [OF assms(1) this] leases show ?thesis
    by (cases ?plan) (simp add: handle_repeat_def st Let_def)
qed

lemma handle_release_other: "lease_key \<noteq> lk \<Longrightarrow> input_leases (fst (handle_release lease_key key st)) lk = input_leases (fst st) lk"
  by (cases st) (auto simp: handle_release_def remove_forwarded_def remove_lease_def Let_def split: option.splits)

lemma lease_key_eq [simp]: "new_lease_key source k = new_lease_key source k' \<longleftrightarrow> identity k = identity k'"
  by (simp add: new_lease_key_def)

lemma with_kind_kind [simp]: "tk_kind (with_kind kind key) = kind"
  by (simp add: with_kind_def)

text \<open>What reaches the three handlers.\<close>

definition entered :: "('ctx, 'w, 'm) shell_ops \<Rightarrow> TerminalKey \<Rightarrow> ('ctx, 'w) key_shell \<times> 'm ClientShellInput \<Rightarrow>
    TerminalKey \<times> ('ctx, 'w) key_shell \<times> 'm ClientShellInput" where
  "entered ops key st =
     (let (s, outcome) = st;
          (cleared, s) = clear_link_hover ops s;
          (key, leases) = normalize_press (new_lease_key LOCAL_INPUT_SOURCE key) key (input_leases s) in
      (key, s\<lparr>input_leases := leases\<rparr>, outcome\<lparr>outcome_repaint := outcome_repaint outcome \<or> cleared\<rparr>))"

lemma handle_key_entered:
  assumes "routing_keeps ops" "\<not> copy_operation_in_flight (fst st)" "entered ops key st = (key', st')"
  shows "handle_key ops key st = (case tk_kind key' of
      Press \<Rightarrow> handle_press ops (new_lease_key LOCAL_INPUT_SOURCE key) key' st'
    | Repeat \<Rightarrow> handle_repeat ops (new_lease_key LOCAL_INPUT_SOURCE key) key' st'
    | Release \<Rightarrow> handle_release (new_lease_key LOCAL_INPUT_SOURCE key) key' st')"
  using assms(2,3)
  by (auto simp: handle_key_def entered_def Let_def split: prod.splits KeyEventKind.splits dest: routing_keepsD(3) [OF assms(1)])

lemma entered_leases:
  assumes "routing_keeps ops" "entered ops key st = (key', st')"
  shows "normalize_press (new_lease_key LOCAL_INPUT_SOURCE key) key (input_leases (fst st)) = (key', input_leases (fst st'))"
    "sent_events (snd st') = sent_events (snd st)"
  using assms(2) by (auto simp: entered_def sent_events_def split: prod.splits dest: routing_keepsD(2) [OF assms(1)])

lemma handle_key_keeps_lease:
  assumes "routing_keeps ops" "input_leases (fst st) (new_lease_key LOCAL_INPUT_SOURCE key) = Some (LeaseForwarded lease)"
    "identity k = identity key \<Longrightarrow> keeps_lease k"
  shows "input_leases (fst (handle_key ops k st)) (new_lease_key LOCAL_INPUT_SOURCE key) = Some (LeaseForwarded lease)"
proof (cases "copy_operation_in_flight (fst st)")
  case True
  then show ?thesis using assms(2)
    by (cases st) (auto simp: handle_key_def Let_def split: prod.splits dest: routing_keepsD(2,3) [OF assms(1)])
next
  case False
  obtain k' st' where ent: "entered ops k st = (k', st')" by (cases "entered ops k st")
  note norm = entered_leases [OF assms(1) ent]
  have leases: "input_leases (fst st') = snd (normalize_press (new_lease_key LOCAL_INPUT_SOURCE k) k (input_leases (fst st)))"
    by (simp add: norm(1))
  have held: "input_leases (fst st') (new_lease_key LOCAL_INPUT_SOURCE key) = Some (LeaseForwarded lease)"
  proof (cases "identity k = identity key")
    case True
    then have lk: "new_lease_key LOCAL_INPUT_SOURCE k = new_lease_key LOCAL_INPUT_SOURCE key" by simp
    show ?thesis unfolding leases lk using assms(2) assms(3) [OF True] by (auto simp: normalize_press_def keeps_lease_def)
  next
    case False
    then show ?thesis unfolding leases using assms(2) by (auto simp: normalize_press_def)
  qed
  have kind: "identity k = identity key \<Longrightarrow> tk_kind k' = Repeat \<or> tk_kind k' = Press \<and> text_only k'"
  proof -
    assume same: "identity k = identity key"
    then have lk: "new_lease_key LOCAL_INPUT_SOURCE k = new_lease_key LOCAL_INPUT_SOURCE key" by simp
    from norm(1) have "normalize_press (new_lease_key LOCAL_INPUT_SOURCE key) k (input_leases (fst st)) = (k', input_leases (fst st'))"
      by (simp only: lk)
    with assms(2) assms(3) [OF same] show ?thesis
      by (auto simp: normalize_press_def keeps_lease_def split: if_splits)
  qed
  show ?thesis
    unfolding handle_key_entered [OF assms(1) False ent]
    using held kind by (cases "tk_kind k'"; cases "identity k = identity key")
      (auto simp: handle_press_other [OF assms(1)] handle_repeat_other [OF assms(1)] handle_release_other)
qed

lemma keys_keep_lease:
  assumes "routing_keeps ops" "input_leases (fst st) (new_lease_key LOCAL_INPUT_SOURCE key) = Some (LeaseForwarded lease)"
    "list_all (\<lambda>k. identity k = identity key \<longrightarrow> keeps_lease k) keys"
  shows "input_leases (fst (fold (handle_key ops) keys st)) (new_lease_key LOCAL_INPUT_SOURCE key) = Some (LeaseForwarded lease)"
  using assms(2,3)
  by (induction keys arbitrary: st) (auto simp: handle_key_keeps_lease [OF assms(1)])

definition fresh_press :: "TerminalKey \<Rightarrow> ('ctx, 'w) key_shell \<Rightarrow> bool" where
  "fresh_press key s \<longleftrightarrow> tk_kind key = Press \<and> \<not> text_only key \<and> \<not> copy_operation_in_flight s \<and>
     (has_physical_identity key \<longrightarrow> input_leases s (new_lease_key LOCAL_INPUT_SOURCE key) = None)"

text \<open>Where the routing sends a key that is handled now.\<close>

definition press_target :: "('ctx, 'w, 'm) shell_ops \<Rightarrow> TerminalKey \<Rightarrow> ('ctx, 'w) key_shell \<times> 'm ClientShellInput \<Rightarrow>
    ClientInputTarget option" where
  "press_target ops key st = (case entered ops key st of (key', s, outcome) \<Rightarrow> fst (route_key_press ops key' s outcome))"

lemma press_forwarded:
  assumes "routing_keeps ops" "fresh_press key (fst st)" "press_target ops key st = Some target"
  shows "input_leases (fst (handle_key ops key st)) (new_lease_key LOCAL_INPUT_SOURCE key) =
      Some (LeaseForwarded \<lparr>fwd_target = target, fwd_key = key\<rparr>) \<and>
    (\<exists>earlier. sent_events (snd (handle_key ops key st)) = earlier @
       (case from_terminal_key key of Some e \<Rightarrow> [(target, e)] | None \<Rightarrow> []))"
proof -
  have fresh: "tk_kind key = Press" "\<not> text_only key" "\<not> copy_operation_in_flight (fst st)"
    using assms(2) by (simp_all add: fresh_press_def)
  obtain key' s outcome where ent: "entered ops key st = (key', s, outcome)" by (metis prod_cases3)
  have key': "key' = key"
    using entered_leases(1) [OF assms(1) ent] assms(2) by (auto simp: normalize_press_def fresh_press_def split: if_splits)
  obtain s' outcome' where routed: "route_key_press ops key s outcome = (Some target, s', outcome')"
    using assms(3) by (cases "route_key_press ops key s outcome") (auto simp: press_target_def ent key')
  show ?thesis
    by (auto simp: handle_key_entered [OF assms(1) fresh(3) ent] key' fresh handle_press_def routed complete_press_def
        execute_repeat_plan_def insert_forwarded_def sent_push_pane_key)
qed


lemma pane_keeps: "routing_keeps pane_ops"
  by (auto simp: routing_keeps_def pane_ops_def intro: exI [of _ "()"])

lemmas slash_defs = slash_key_def slash_record_def with_windows_record_def with_windows_composition_hint_def with_generated_text_def
  new_key_def record_physical_key_id_def

lemma slash_facts [simp]: "tk_kind slash_key = Press" "has_physical_identity slash_key" "tk_code slash_key = KeyChar 47"
  by (simp_all add: slash_defs has_physical_identity_def Let_def)

lemma slash_pressed: "fresh_press slash_key pane_shell" "press_target pane_ops slash_key (pane_shell, no_outcome) = Some (InputPane ''p1'')"
  by (simp_all add: fresh_press_def text_only_def pane_shell_def press_target_def entered_def pane_ops_def normalize_press_def)


section \<open>Losing the focus\<close>

lemma sent_push_releases:
  "distinct keys \<Longrightarrow> remove_keys keys leases = (removed, leases') \<Longrightarrow>
    key_count ClientRelease t c (sent_events (push_releases removed outcome)) =
      key_count ClientRelease t c (sent_events outcome) + card (forwarded_for t c leases \<inter> set keys)"
proof (induction keys arbitrary: leases outcome removed)
  case Nil
  then show ?case by simp
next
  case (Cons key keys)
  obtain rest where rest: "remove_keys keys (leases(key := None)) = (rest, leases')"
    "removed = (case forwarded_of (leases key) of Some lease \<Rightarrow> lease # rest | None \<Rightarrow> rest)"
    using Cons.prems(2) by (auto split: prod.splits)
  have others: "forwarded_for t c (leases(key := None)) \<inter> set keys = forwarded_for t c leases \<inter> set keys"
    using Cons.prems(1) by (auto simp: forwarded_for_def)
  show ?case
  proof (cases "\<exists>lease. leases key = Some (LeaseForwarded lease)")
    case True
    then obtain lease where lease: "leases key = Some (LeaseForwarded lease)" ..
    let ?outcome = "push_pane_key (fwd_target lease) (with_kind Release (fwd_key lease)) outcome"
    have key: "of_bool (t = fwd_target lease \<and> code_from_crossterm (tk_code (fwd_key lease)) = Some c) =
        (of_bool (key \<in> forwarded_for t c leases) :: nat)"
      by (auto simp: forwarded_for_def lease)
    have "removed = lease # rest" by (simp add: rest(2) lease forwarded_of_def)
    moreover have "tk_code (with_kind Release (fwd_key lease)) = tk_code (fwd_key lease)" by (simp add: with_kind_def Let_def)
    moreover have "card (forwarded_for t c leases \<inter> set (key # keys)) =
        card (forwarded_for t c leases \<inter> set keys) + of_bool (key \<in> forwarded_for t c leases)"
      using Cons.prems(1) by (simp add: Int_insert_right)
    moreover have "distinct keys" using Cons.prems(1) by simp
    ultimately show ?thesis
      using Cons.IH [OF _ rest(1), of ?outcome] unfolding others by (simp add: key_count_push key)
  next
    case False
    then have "forwarded_of (leases key) = None" "key \<notin> forwarded_for t c leases"
      by (auto simp: forwarded_of_def forwarded_for_def split: option.splits InputLease.splits)
    then show ?thesis using Cons.IH [OF _ rest(1), of outcome] Cons.prems(1) unfolding others by (simp add: rest(2))
  qed
qed

lemma remove_keys_table: "snd (remove_keys keys leases) k = (if k \<in> set keys then None else leases k)"
  by (induction keys arbitrary: leases) (auto split: prod.splits simp: case_prod_beta Let_def)

text \<open>When the terminal loses the focus, every key the client has forwarded and not released is
  released at its target, once per key that is down and nothing else, and no key of this client is
  left in the table.\<close>

theorem focus_lost_releases_all:
  assumes "distinct (lease_keys ops (input_leases s))" "set (lease_keys ops (input_leases s)) = dom (input_leases s)"
    "release_input_leases ops (s, outcome) = (s', outcome')"
  shows "key_count ClientRelease target code (sent_events outcome') = key_count ClientRelease target code (sent_events outcome) +
      card {k \<in> forwarded_for target code (input_leases s). lease_source k = LOCAL_INPUT_SOURCE} \<and>
    input_leases s' k = (if lease_source k = LOCAL_INPUT_SOURCE then None else input_leases s k)"
proof -
  let ?keys = "filter (\<lambda>key. lease_source key = LOCAL_INPUT_SOURCE) (lease_keys ops (input_leases s))"
  have keys: "distinct ?keys" "set ?keys = {k \<in> dom (input_leases s). lease_source k = LOCAL_INPUT_SOURCE}"
    using assms(1,2) by auto
  obtain removed leases where removed: "remove_keys ?keys (input_leases s) = (removed, leases)" by (cases "remove_keys ?keys (input_leases s)")
  have s': "input_leases s' = leases"
    and sent: "filter is_key_event (sent_events outcome') = filter is_key_event (sent_events (push_releases removed outcome))"
    using assms(3)
    by (auto simp: release_input_leases_def remove_source_def removed Let_def gesture_no_key split: option.splits prod.splits)
  have "key_count ClientRelease target code (sent_events outcome') = key_count ClientRelease target code (sent_events (push_releases removed outcome))"
    by (simp add: sent flip: key_count_filter [of _ _ _ "sent_events outcome'"] key_count_filter [of _ _ _ "sent_events (push_releases removed outcome)"])
  also have "\<dots> = key_count ClientRelease target code (sent_events outcome) + card (forwarded_for target code (input_leases s) \<inter> set ?keys)"
    by (rule sent_push_releases [OF keys(1) removed])
  also have "forwarded_for target code (input_leases s) \<inter> set ?keys =
      {k \<in> forwarded_for target code (input_leases s). lease_source k = LOCAL_INPUT_SOURCE}"
    unfolding keys(2) using forwarded_for_dom [of target code "input_leases s"] by blast
  finally have count: "key_count ClientRelease target code (sent_events outcome') = key_count ClientRelease target code (sent_events outcome) +
      card {k \<in> forwarded_for target code (input_leases s). lease_source k = LOCAL_INPUT_SOURCE}" .
  have "leases k = (if k \<in> set ?keys then None else input_leases s k)"
    using remove_keys_table [of ?keys "input_leases s" k] removed by simp
  then have "leases k = (if lease_source k = LOCAL_INPUT_SOURCE then None else input_leases s k)"
    unfolding keys(2) by (auto simp: dom_def)
  with count show ?thesis by (simp add: s')
qed

theorem focus_lost_releases_all_witness:
  "key_count ClientRelease (InputPane ''p1'') (ClientChar 47)
     (sent_events (snd (release_input_leases pane_ops (handle_key pane_ops slash_key (pane_shell, no_outcome))))) =
   key_count ClientRelease (InputPane ''p1'') (ClientChar 47) (sent_events (snd (handle_key pane_ops slash_key (pane_shell, no_outcome)))) + 1"
proof -
  let ?lk = "new_lease_key LOCAL_INPUT_SOURCE slash_key"
  obtain s outcome where pressed: "handle_key pane_ops slash_key (pane_shell, no_outcome) = (s, outcome)" by fastforce
  obtain s' outcome' where released: "release_input_leases pane_ops (s, outcome) = (s', outcome')" by fastforce
  have leases: "input_leases s = [?lk \<mapsto> LeaseForwarded \<lparr>fwd_target = InputPane ''p1'', fwd_key = slash_key\<rparr>]"
    using pressed
    by (auto simp: handle_key_def handle_press_def pane_ops_def pane_shell_def normalize_press_def complete_press_def
        execute_repeat_plan_def insert_forwarded_def text_only_def)
  have "{k \<in> forwarded_for (InputPane ''p1'') (ClientChar 47) (input_leases s). lease_source k = LOCAL_INPUT_SOURCE} = {?lk}"
    by (auto simp: forwarded_for_def leases new_lease_key_def code_from_crossterm_def split: if_splits)
  moreover have "distinct (lease_keys pane_ops (input_leases s))" "set (lease_keys pane_ops (input_leases s)) = dom (input_leases s)"
    by (simp_all add: pane_ops_def leases)
  ultimately show ?thesis
    using focus_lost_releases_all [OF _ _ released, of "InputPane ''p1''" "ClientChar 47" ?lk] by (simp add: pressed released)
qed

end
