(* ===== verification/Client_Connection.thy ===== *)
theory Client_Connection
  imports Input_Lease
begin

text \<open>
  What the server keeps of a connected client shell (\<open>herdr/src/server/clients.rs\<close>): the presses it
  has forwarded and not released, so that it can release them when the client goes away, the workspace
  and tab the client looks at, the pending render, and the choice of the foreground client. The
  released presses are shown against the history of events; a location against the topology it is
  reconciled with.
\<close>

section \<open>Held inputs\<close>

datatype ClientShellPressId = PhysicalKeyPress u32 | SemanticKeyPress ClientKeyCode | MousePress ClientMouseButton

definition client_shell_key_press_id :: "ClientKeyCode \<Rightarrow> u32 option \<Rightarrow> ClientShellPressId" where
  "client_shell_key_press_id code physical =
     (case physical of None \<Rightarrow> SemanticKeyPress code | Some i \<Rightarrow> PhysicalKeyPress i)"

record ClientShellHeldInput =
  held_target :: ClientInputTarget
  held_release :: ClientPaneInputEvent

type_synonym held_inputs = "ClientShellPressId \<rightharpoonup> ClientShellHeldInput"

definition key_release_event :: "pane_key \<Rightarrow> ClientPaneInputEvent" where
  "key_release_event k = PaneKey (k\<lparr>pk_kind := ClientRelease, pk_repeat_count := 1, pk_generated_text := None, pk_tracks_release := True\<rparr>)"

definition mouse_release_event :: "ClientMouseButton \<Rightarrow> pane_mouse \<Rightarrow> ClientPaneInputEvent" where
  "mouse_release_event button m = PaneMouse (m\<lparr>pm_kind := ClientMouseUp button, pm_lines := 1\<rparr>)"

definition track_key :: "ClientInputTarget \<Rightarrow> pane_key \<Rightarrow> held_inputs \<Rightarrow> held_inputs" where
  "track_key target k held =
     (let i = client_shell_key_press_id (pk_code k) (pk_physical_key_id k) in
      case pk_kind k of
        ClientPress \<Rightarrow>
          if pk_tracks_release k then held(i \<mapsto> \<lparr>held_target = target, held_release = key_release_event k\<rparr>) else held
      | ClientRelease \<Rightarrow> held(i := None)
      | ClientRepeat \<Rightarrow> held)"

definition track_mouse :: "ClientInputTarget \<Rightarrow> pane_mouse \<Rightarrow> held_inputs \<Rightarrow> held_inputs" where
  "track_mouse target m held =
     (case pm_kind m of
        ClientMouseDown button \<Rightarrow>
          held(MousePress button \<mapsto> \<lparr>held_target = target, held_release = mouse_release_event button m\<rparr>)
      | ClientMouseDrag button \<Rightarrow>
          if held (MousePress button) \<noteq> None
          then held(MousePress button \<mapsto> \<lparr>held_target = target, held_release = mouse_release_event button m\<rparr>)
          else held
      | ClientMouseUp button \<Rightarrow> held(MousePress button := None)
      | _ \<Rightarrow> held)"

definition track_event :: "ClientInputTarget \<Rightarrow> ClientPaneInputEvent \<Rightarrow> held_inputs \<Rightarrow> held_inputs" where
  "track_event target e held =
     (case e of
        PaneKey k \<Rightarrow> track_key target k held
      | PaneMouse m \<Rightarrow> track_mouse target m held
      | PaneTextCommit _ \<Rightarrow> held
      | PanePaste _ \<Rightarrow> held)"

definition track_shell_input :: "ClientInputTarget \<Rightarrow> ClientPaneInputEvent list \<Rightarrow> held_inputs \<Rightarrow> held_inputs" where
  "track_shell_input target events held = fold (track_event target) events held"

text \<open>Draining a hash map visits its keys in some order.\<close>

definition drain_shell_held_inputs :: "ClientShellPressId list \<Rightarrow> held_inputs \<Rightarrow> ClientShellHeldInput list \<times> held_inputs" where
  "drain_shell_held_inputs order held = (map (\<lambda>i. the (held i)) order, Map.empty)"

subsection \<open>Against the history\<close>

definition event_presses :: "ClientShellPressId \<Rightarrow> ClientPaneInputEvent \<Rightarrow> bool" where
  "event_presses i e \<longleftrightarrow>
     (case e of
        PaneKey k \<Rightarrow> pk_kind k = ClientPress \<and> pk_tracks_release k \<and> i = client_shell_key_press_id (pk_code k) (pk_physical_key_id k)
      | PaneMouse m \<Rightarrow> (\<exists>b. pm_kind m = ClientMouseDown b \<and> i = MousePress b)
      | _ \<Rightarrow> False)"

definition event_releases :: "ClientShellPressId \<Rightarrow> ClientPaneInputEvent \<Rightarrow> bool" where
  "event_releases i e \<longleftrightarrow>
     (case e of
        PaneKey k \<Rightarrow> pk_kind k = ClientRelease \<and> i = client_shell_key_press_id (pk_code k) (pk_physical_key_id k)
      | PaneMouse m \<Rightarrow> (\<exists>b. pm_kind m = ClientMouseUp b \<and> i = MousePress b)
      | _ \<Rightarrow> False)"

definition event_drags :: "ClientShellPressId \<Rightarrow> ClientPaneInputEvent \<Rightarrow> bool" where
  "event_drags i e \<longleftrightarrow> (case e of PaneMouse m \<Rightarrow> (\<exists>b. pm_kind m = ClientMouseDrag b \<and> i = MousePress b) | _ \<Rightarrow> False)"

definition release_of :: "ClientPaneInputEvent \<Rightarrow> ClientPaneInputEvent" where
  "release_of e =
     (case e of
        PaneKey k \<Rightarrow> key_release_event k
      | PaneMouse m \<Rightarrow> (case pm_kind m of
            ClientMouseDown b \<Rightarrow> mouse_release_event b m | ClientMouseDrag b \<Rightarrow> mouse_release_event b m | _ \<Rightarrow> e)
      | _ \<Rightarrow> e)"

text \<open>The last event of a history about a press says whether it is down; the last press or drag says
  where.\<close>

definition is_down :: "(ClientInputTarget \<times> ClientPaneInputEvent) list \<Rightarrow> ClientShellPressId \<Rightarrow> bool" where
  "is_down history i \<longleftrightarrow>
     (case filter (\<lambda>te. event_presses i (snd te) \<or> event_releases i (snd te)) (rev history) of
        [] \<Rightarrow> False | te # _ \<Rightarrow> event_presses i (snd te))"

definition last_touch :: "(ClientInputTarget \<times> ClientPaneInputEvent) list \<Rightarrow> ClientShellPressId \<Rightarrow>
    ClientInputTarget \<times> ClientPaneInputEvent" where
  "last_touch history i = hd (filter (\<lambda>te. event_presses i (snd te) \<or> event_drags i (snd te)) (rev history))"

definition held_of_history :: "(ClientInputTarget \<times> ClientPaneInputEvent) list \<Rightarrow> held_inputs" where
  "held_of_history history i =
     (if is_down history i
      then Some \<lparr>held_target = fst (last_touch history i), held_release = release_of (snd (last_touch history i))\<rparr>
      else None)"

definition track_all :: "(ClientInputTarget \<times> ClientPaneInputEvent list) list \<Rightarrow> held_inputs \<Rightarrow> held_inputs" where
  "track_all messages = fold (\<lambda>(target, events). track_shell_input target events) messages"

definition history_of :: "(ClientInputTarget \<times> ClientPaneInputEvent list) list \<Rightarrow> (ClientInputTarget \<times> ClientPaneInputEvent) list" where
  "history_of messages = concat (map (\<lambda>(target, events). map (Pair target) events) messages)"

lemma track_all_history: "track_all messages held = fold (\<lambda>(target, e). track_event target e) (history_of messages) held"
proof (induction messages arbitrary: held)
  case (Cons m messages)
  obtain target events where m: "m = (target, events)" by (cases m)
  have "fold (\<lambda>(target, e). track_event target e) (map (Pair target) events) held = fold (track_event target) events held" for held
    by (induction events arbitrary: held) simp_all
  with Cons show ?case by (simp add: m track_all_def history_of_def track_shell_input_def)
qed (simp add: track_all_def history_of_def)

lemma not_press_and_release: "event_presses i e \<Longrightarrow> \<not> event_releases i e \<and> \<not> event_drags i e"
  by (auto simp: event_presses_def event_releases_def event_drags_def split: ClientPaneInputEvent.splits)

lemma track_event_spec:
  "track_event target e held i =
     (if event_presses i e then Some \<lparr>held_target = target, held_release = release_of e\<rparr>
      else if event_releases i e then None
      else if event_drags i e \<and> held i \<noteq> None then Some \<lparr>held_target = target, held_release = release_of e\<rparr>
      else held i)"
proof (cases e)
  case (PaneKey k)
  then show ?thesis
    by (cases "pk_kind k") (auto simp: track_event_def track_key_def event_presses_def event_releases_def event_drags_def release_of_def Let_def)
next
  case (PaneMouse m)
  then show ?thesis
    by (cases "pm_kind m") (auto simp: track_event_def track_mouse_def event_presses_def event_releases_def event_drags_def release_of_def)
qed (simp_all add: track_event_def event_presses_def event_releases_def event_drags_def)

lemma held_of_history_snoc:
  "held_of_history (history @ [(target, e)]) i =
     (if event_presses i e then Some \<lparr>held_target = target, held_release = release_of e\<rparr>
      else if event_releases i e then None
      else if event_drags i e \<and> held_of_history history i \<noteq> None then Some \<lparr>held_target = target, held_release = release_of e\<rparr>
      else held_of_history history i)"
  by (auto simp: held_of_history_def is_down_def last_touch_def dest: not_press_and_release)

lemma held_of_history_Nil [simp]: "held_of_history [] i = None"
  by (simp add: held_of_history_def is_down_def)

lemma tracked_history: "fold (\<lambda>(target, e). track_event target e) history Map.empty = held_of_history history"
proof (induction history rule: rev_induct)
  case Nil
  then show ?case by (simp add: fun_eq_iff)
next
  case (snoc te history)
  obtain target e where te: "te = (target, e)" by (cases te)
  have "fold (\<lambda>(target, e). track_event target e) (history @ [te]) Map.empty = track_event target e (held_of_history history)"
    unfolding fold_append comp_apply snoc.IH by (simp add: te)
  also have "\<dots> = held_of_history (history @ [te])"
    by (rule ext) (simp only: te track_event_spec held_of_history_snoc)
  finally show ?case .
qed

lemma touch_released: "event_presses i e \<or> event_drags i e \<Longrightarrow> event_releases i (release_of e)"
  by (auto simp: event_presses_def event_drags_def event_releases_def release_of_def key_release_event_def mouse_release_event_def
      split: ClientPaneInputEvent.splits)

lemma down_touched: "is_down history i \<Longrightarrow> event_presses i (snd (last_touch history i)) \<or> event_drags i (snd (last_touch history i))"
proof -
  assume "is_down history i"
  then obtain te rest where te: "filter (\<lambda>te. event_presses i (snd te) \<or> event_releases i (snd te)) (rev history) = te # rest"
    and pressed: "event_presses i (snd te)"
    by (auto simp: is_down_def split: list.splits)
  have "te \<in> set (filter (\<lambda>te. event_presses i (snd te) \<or> event_releases i (snd te)) (rev history))"
    unfolding te by simp
  with pressed have "te \<in> set (filter (\<lambda>te. event_presses i (snd te) \<or> event_drags i (snd te)) (rev history))" by simp
  then have "last_touch history i \<in> set (filter (\<lambda>te. event_presses i (snd te) \<or> event_drags i (snd te)) (rev history))"
    unfolding last_touch_def by (metis list.set_sel(1) empty_iff empty_set)
  then show ?thesis by simp
qed

text \<open>C32: whatever messages a client sends, the server holds exactly the presses that are down: a key or
  button is held if and only if the last event about it was a press, with the target and position of
  its last press or drag; draining releases each of them once, whatever the order of the hash map.\<close>

theorem held_inputs_are_down:
  assumes "held = track_all messages Map.empty" "distinct order" "set order = dom held"
    "drain_shell_held_inputs order held = (released, held')"
  shows "held = held_of_history (history_of messages) \<and> held' = Map.empty \<and>
    set released = ran held \<and> length released = card {i. is_down (history_of messages) i} \<and>
    list_all (\<lambda>r. \<exists>i. event_releases i (held_release r) \<and> is_down (history_of messages) i) released"
proof -
  have held: "held = held_of_history (history_of messages)"
    by (simp add: assms(1) track_all_history tracked_history)
  have released: "released = map (\<lambda>i. the (held i)) order" and empty: "held' = Map.empty"
    using assms(4) by (simp_all add: drain_shell_held_inputs_def)
  have dom: "dom held = {i. is_down (history_of messages) i}"
    by (auto simp: held held_of_history_def split: if_splits)
  have touched: "event_releases i (release_of (snd (last_touch (history_of messages) i)))" if "is_down (history_of messages) i" for i
    using touch_released [OF down_touched [OF that]] .
  have "set released = ran held" using assms(3) by (force simp: released ran_def dom_def)
  moreover have "length released = card {i. is_down (history_of messages) i}"
    using assms(2,3) dom by (simp add: released flip: distinct_card)
  moreover have "list_all (\<lambda>r. \<exists>i. event_releases i (held_release r) \<and> is_down (history_of messages) i) released"
    using assms(3) touched unfolding dom by (auto simp: released list_all_iff held held_of_history_def)
  ultimately show ?thesis using held empty by blast
qed

definition drag_example :: "(ClientInputTarget \<times> ClientPaneInputEvent list) list" where
  "drag_example =
     (let m = \<lparr>pm_kind = ClientMouseDown ClientMouseLeft, pm_position = CellPosition 3 4, pm_geometry = None, pm_modifiers = 0, pm_lines = 3\<rparr> in
      [(InputPane ''p1'', [PaneMouse m, PanePaste ''x'']),
       (InputPopup ''t2'', [PaneMouse (m\<lparr>pm_kind := ClientMouseDrag ClientMouseLeft, pm_position := CellPosition 5 4\<rparr>)])])"

theorem held_inputs_are_down_witness:
  "track_all drag_example Map.empty = held_of_history (history_of drag_example) \<and>
   set (fst (drain_shell_held_inputs [MousePress ClientMouseLeft] (track_all drag_example Map.empty))) = ran (track_all drag_example Map.empty) \<and>
   track_all drag_example Map.empty (MousePress ClientMouseLeft) =
     Some \<lparr>held_target = InputPopup ''t2'', held_release = PaneMouse \<lparr>pm_kind = ClientMouseUp ClientMouseLeft,
       pm_position = CellPosition 5 4, pm_geometry = None, pm_modifiers = 0, pm_lines = 1\<rparr>\<rparr>"
proof -
  have run: "track_all drag_example Map.empty = [MousePress ClientMouseLeft \<mapsto> \<lparr>held_target = InputPopup ''t2'',
      held_release = PaneMouse \<lparr>pm_kind = ClientMouseUp ClientMouseLeft, pm_position = CellPosition 5 4, pm_geometry = None,
        pm_modifiers = 0, pm_lines = 1\<rparr>\<rparr>]"
    by (simp add: drag_example_def track_all_def track_shell_input_def track_event_def track_mouse_def mouse_release_event_def Let_def)
  have order: "distinct [MousePress ClientMouseLeft]" "set [MousePress ClientMouseLeft] = dom (track_all drag_example Map.empty)"
    by (simp_all add: run)
  obtain released held' where drained: "drain_shell_held_inputs [MousePress ClientMouseLeft] (track_all drag_example Map.empty) = (released, held')"
    by fastforce
  note exact = held_inputs_are_down [OF refl order drained]
  show ?thesis
  proof (intro conjI)
    show "track_all drag_example Map.empty = held_of_history (history_of drag_example)" by (rule conjunct1 [OF exact])
    show "set (fst (drain_shell_held_inputs [MousePress ClientMouseLeft] (track_all drag_example Map.empty))) = ran (track_all drag_example Map.empty)"
      unfolding drained fst_conv using exact by blast
  qed (simp add: run)
qed

section \<open>The location of a client\<close>

record ClientShellLocation =
  loc_focused_workspace_id :: "string option"
  loc_active_tab_ids :: "string \<rightharpoonup> string"

record ClientShellTopology =
  top_focused_workspace_id :: "string option"
  top_fallback_workspace_id :: "string option"
  top_active_tab_ids :: "string \<rightharpoonup> string"
  top_tab_workspace_ids :: "string \<rightharpoonup> string"

text \<open>Of a snapshot: its focused workspace, and each workspace with its active tab.\<close>

definition location_from_snapshot :: "string option \<Rightarrow> (string \<times> string) list \<Rightarrow> ClientShellLocation" where
  "location_from_snapshot focused workspaces =
     \<lparr>loc_focused_workspace_id = focused, loc_active_tab_ids = map_of (rev workspaces)\<rparr>"

definition focused_tab_id :: "ClientShellLocation \<Rightarrow> string option" where
  "focused_tab_id l = Option.bind (loc_focused_workspace_id l) (loc_active_tab_ids l)"

definition focus_workspace :: "string \<Rightarrow> ClientShellLocation \<Rightarrow> ClientShellLocation" where
  "focus_workspace w l = l\<lparr>loc_focused_workspace_id := Some w\<rparr>"

definition focus_tab :: "string \<Rightarrow> string \<Rightarrow> ClientShellLocation \<Rightarrow> ClientShellLocation" where
  "focus_tab w t l = l\<lparr>loc_focused_workspace_id := Some w, loc_active_tab_ids := (loc_active_tab_ids l)(w \<mapsto> t)\<rparr>"

definition retained_tabs :: "ClientShellTopology \<Rightarrow> (string \<rightharpoonup> string) \<Rightarrow> string \<rightharpoonup> string" where
  "retained_tabs topology tabs w =
     (case tabs w of
        Some t \<Rightarrow> if top_active_tab_ids topology w \<noteq> None \<and> top_tab_workspace_ids topology t = Some w then Some t else None
      | None \<Rightarrow> None)"

definition reconcile :: "ClientShellTopology \<Rightarrow> ClientShellLocation \<Rightarrow> ClientShellLocation" where
  "reconcile topology l =
     (let tabs = top_active_tab_ids topology ++ retained_tabs topology (loc_active_tab_ids l);
          l = l\<lparr>loc_active_tab_ids := tabs\<rparr> in
      if (case loc_focused_workspace_id l of None \<Rightarrow> True | Some w \<Rightarrow> top_active_tab_ids topology w = None)
      then l\<lparr>loc_focused_workspace_id :=
          (case top_focused_workspace_id topology of Some w \<Rightarrow> Some w | None \<Rightarrow> top_fallback_workspace_id topology)\<rparr>
      else l)"

text \<open>A topology the server builds: the active tab of a workspace is one of its tabs, and the workspaces
  it proposes exist.\<close>

definition topology_ok :: "ClientShellTopology \<Rightarrow> bool" where
  "topology_ok topology \<longleftrightarrow>
     (\<forall>w t. top_active_tab_ids topology w = Some t \<longrightarrow> top_tab_workspace_ids topology t = Some w) \<and>
     (\<forall>w. top_focused_workspace_id topology = Some w \<or> top_fallback_workspace_id topology = Some w \<longrightarrow> top_active_tab_ids topology w \<noteq> None) \<and>
     (top_fallback_workspace_id topology = None \<longrightarrow> top_active_tab_ids topology = Map.empty)"

definition location_ok :: "ClientShellTopology \<Rightarrow> ClientShellLocation \<Rightarrow> bool" where
  "location_ok topology l \<longleftrightarrow> dom (loc_active_tab_ids l) = dom (top_active_tab_ids topology) \<and>
     (\<forall>w t. loc_active_tab_ids l w = Some t \<longrightarrow> top_tab_workspace_ids topology t = Some w) \<and>
     (case loc_focused_workspace_id l of Some w \<Rightarrow> top_active_tab_ids topology w \<noteq> None | None \<Rightarrow> top_active_tab_ids topology = Map.empty)"

lemma retained_dom: "dom (retained_tabs topology tabs) \<subseteq> dom (top_active_tab_ids topology)"
  by (auto simp: retained_tabs_def split: option.splits if_splits)

lemma retained_valid: "retained_tabs topology tabs w = Some t \<Longrightarrow> tabs w = Some t \<and> top_tab_workspace_ids topology t = Some w"
  by (auto simp: retained_tabs_def split: option.splits if_splits)

lemma reconcile_tabs:
  "loc_active_tab_ids (reconcile topology l) = top_active_tab_ids topology ++ retained_tabs topology (loc_active_tab_ids l)"
  by (simp add: reconcile_def Let_def)

lemma reconcile_ok:
  assumes "topology_ok topology"
  shows "location_ok topology (reconcile topology l)"
proof -
  have "dom (loc_active_tab_ids (reconcile topology l)) = dom (top_active_tab_ids topology)"
    using retained_dom [of topology] by (auto simp: reconcile_tabs)
  moreover have "top_tab_workspace_ids topology t = Some w" if "loc_active_tab_ids (reconcile topology l) w = Some t" for w t
    using that assms by (auto simp: reconcile_tabs map_add_Some_iff topology_ok_def dest: retained_valid)
  moreover have "case loc_focused_workspace_id (reconcile topology l) of Some w \<Rightarrow> top_active_tab_ids topology w \<noteq> None
      | None \<Rightarrow> top_active_tab_ids topology = Map.empty"
    using assms by (auto simp: reconcile_def topology_ok_def Let_def split: option.splits)
  ultimately show ?thesis by (simp add: location_ok_def)
qed

lemma reconcile_settled:
  assumes "location_ok topology l" "topology_ok topology"
  shows "reconcile topology l = l"
proof -
  have "retained_tabs topology (loc_active_tab_ids l) = loc_active_tab_ids l"
  proof
    fix w
    show "retained_tabs topology (loc_active_tab_ids l) w = loc_active_tab_ids l w"
    proof (cases "loc_active_tab_ids l w")
      case (Some t)
      then have "w \<in> dom (top_active_tab_ids topology)" "top_tab_workspace_ids topology t = Some w"
        using assms(1) by (auto simp: location_ok_def)
      with Some show ?thesis by (auto simp: retained_tabs_def)
    qed (simp add: retained_tabs_def)
  qed
  moreover have "top_active_tab_ids topology ++ loc_active_tab_ids l = loc_active_tab_ids l"
  proof
    fix w
    have "loc_active_tab_ids l w = None \<Longrightarrow> top_active_tab_ids topology w = None"
      using assms(1) unfolding location_ok_def by (metis domIff)
    then show "(top_active_tab_ids topology ++ loc_active_tab_ids l) w = loc_active_tab_ids l w"
      by (cases "loc_active_tab_ids l w") (auto simp: map_add_def)
  qed
  ultimately show ?thesis
    using assms
    by (auto simp: reconcile_def location_ok_def topology_ok_def Let_def split: option.splits)
qed

text \<open>After a reconciliation the location of a client is valid: every workspace of the topology and
  no other has an active tab, which is a tab of that workspace, and the focus is on a workspace that
  exists unless there is none; a choice of the client that is still valid is kept, and a valid
  location is left as it is.\<close>

theorem reconcile_correct:
  assumes "topology_ok topology"
  shows "location_ok topology (reconcile topology l) \<and>
    (\<forall>w t. loc_active_tab_ids l w = Some t \<and> top_active_tab_ids topology w \<noteq> None \<and> top_tab_workspace_ids topology t = Some w
       \<longrightarrow> loc_active_tab_ids (reconcile topology l) w = Some t) \<and>
    (\<forall>w. loc_focused_workspace_id l = Some w \<and> top_active_tab_ids topology w \<noteq> None \<longrightarrow> loc_focused_workspace_id (reconcile topology l) = Some w) \<and>
    (location_ok topology l \<longrightarrow> reconcile topology l = l)"
proof -
  have "loc_active_tab_ids (reconcile topology l) w = Some t"
    if "loc_active_tab_ids l w = Some t" "top_active_tab_ids topology w \<noteq> None" "top_tab_workspace_ids topology t = Some w" for w t
    using that by (auto simp: reconcile_tabs retained_tabs_def map_add_Some_iff)
  moreover have "loc_focused_workspace_id (reconcile topology l) = Some w"
    if "loc_focused_workspace_id l = Some w" "top_active_tab_ids topology w \<noteq> None" for w
    using that by (auto simp: reconcile_def Let_def)
  ultimately show ?thesis using reconcile_ok [OF assms] reconcile_settled [OF _ assms] by blast
qed

definition two_workspaces :: ClientShellTopology where
  "two_workspaces = \<lparr>top_focused_workspace_id = Some ''w1'', top_fallback_workspace_id = Some ''w1'',
     top_active_tab_ids = [''w1'' \<mapsto> ''t1'', ''w2'' \<mapsto> ''t2''],
     top_tab_workspace_ids = [''t1'' \<mapsto> ''w1'', ''t2'' \<mapsto> ''w2'', ''t3'' \<mapsto> ''w2'']\<rparr>"

theorem reconcile_correct_witness:
  "location_ok two_workspaces (reconcile two_workspaces (focus_tab ''w2'' ''t3'' (location_from_snapshot (Some ''w9'') [(''w9'', ''t9'')]))) \<and>
   loc_active_tab_ids (reconcile two_workspaces (focus_tab ''w2'' ''t3'' (location_from_snapshot (Some ''w9'') [(''w9'', ''t9'')]))) ''w2'' = Some ''t3'' \<and>
   loc_active_tab_ids (reconcile two_workspaces (focus_tab ''w2'' ''t3'' (location_from_snapshot (Some ''w9'') [(''w9'', ''t9'')]))) ''w9'' = None"
proof -
  have "topology_ok two_workspaces" by (auto simp: topology_ok_def two_workspaces_def split: if_splits)
  from reconcile_correct [OF this, of "focus_tab ''w2'' ''t3'' (location_from_snapshot (Some ''w9'') [(''w9'', ''t9'')])"]
  show ?thesis
    by (auto simp: reconcile_tabs retained_tabs_def two_workspaces_def focus_tab_def location_from_snapshot_def map_add_def)
qed

section \<open>Deferred renders and the foreground client\<close>

datatype DeferredRender = DeferredNone | DeferredFull

text \<open>The fields of a connection these operations use.\<close>

datatype ClientConnectionMode = ClientShell | TerminalPending | TerminalAttach string | TerminalObserve string

record ClientConnection =
  cc_mode :: ClientConnectionMode
  cc_last_activity :: u64
  cc_render_pending :: bool
  cc_shell_surface_active :: bool
  cc_held_inputs :: held_inputs
  cc_location :: "ClientShellLocation option"

definition deferred_render :: "ClientConnection \<Rightarrow> DeferredRender" where
  "deferred_render c = (if cc_render_pending c then DeferredFull else DeferredNone)"

definition clear_deferred_render :: "ClientConnection \<Rightarrow> ClientConnection" where
  "clear_deferred_render c = c\<lparr>cc_render_pending := False\<rparr>"

definition defer_full_render :: "ClientConnection \<Rightarrow> ClientConnection" where
  "defer_full_render c = c\<lparr>cc_render_pending := True\<rparr>"

definition take_deferred_render :: "ClientConnection \<Rightarrow> DeferredRender \<times> ClientConnection" where
  "take_deferred_render c = (deferred_render c, clear_deferred_render c)"

definition is_shell_client :: "ClientConnection \<Rightarrow> bool" where
  "is_shell_client c \<longleftrightarrow> cc_mode c = ClientShell"

definition is_active_shell_client :: "ClientConnection \<Rightarrow> bool" where
  "is_active_shell_client c \<longleftrightarrow> is_shell_client c \<and> cc_shell_surface_active c"

text \<open>The map of clients as the list its iteration gives; \<open>max_by_key\<close> returns the last maximum.\<close>

fun max_activity :: "(u64 \<times> ClientConnection) list \<Rightarrow> (u64 \<times> ClientConnection) option" where
  "max_activity [] = None"
| "max_activity (c # cs) =
     (case max_activity cs of
        None \<Rightarrow> Some c
      | Some best \<Rightarrow> Some (if cc_last_activity (snd c) \<le> cc_last_activity (snd best) then best else c))"

definition latest_shell_client :: "(u64 \<times> ClientConnection) list \<Rightarrow> u64 option" where
  "latest_shell_client clients = map_option fst (max_activity (filter (\<lambda>(_, c). is_active_shell_client c) clients))"

definition terminal_stream_client_ids :: "(u64 \<times> ClientConnection) list \<Rightarrow> string \<Rightarrow> u64 list" where
  "terminal_stream_client_ids clients terminal =
     map fst (filter (\<lambda>(_, c). case cc_mode c of
        TerminalAttach attached \<Rightarrow> attached = terminal | TerminalObserve attached \<Rightarrow> attached = terminal | _ \<Rightarrow> False) clients)"

lemma max_activity_None: "max_activity cs = None \<longleftrightarrow> cs = []"
  by (cases cs) (auto split: option.splits)

lemma max_activity_best: "max_activity cs = Some b \<Longrightarrow> b \<in> set cs \<and> (\<forall>c\<in>set cs. cc_last_activity (snd c) \<le> cc_last_activity (snd b))"
  by (induction cs arbitrary: b) (fastforce simp: max_activity_None split: option.splits if_splits)+

end
