(* ===== verification/Key_Encode.thy ===== *)
theory Key_Encode
  imports Terminal_Key
begin

text \<open>
  Key and mouse events for the program in a pane (\<open>herdr/src/input/encode.rs\<close>): the text of a key, its
  Kitty \<open>CSI u\<close> sequence under the flags the program asked for, the legacy and xterm sequences, and the
  mouse reports in the four encodings. Bytes are the characters of a \<open>string\<close>.
\<close>

section \<open>Kitty sequences\<close>

definition KITTY_FLAG_REPORT_EVENT_TYPES :: u16 where "KITTY_FLAG_REPORT_EVENT_TYPES = 2"
definition KITTY_FLAG_REPORT_ALTERNATE_KEYS :: u16 where "KITTY_FLAG_REPORT_ALTERNATE_KEYS = 4"
definition KITTY_FLAG_REPORT_ASSOCIATED_TEXT :: u16 where "KITTY_FLAG_REPORT_ASSOCIATED_TEXT = 16"

definition xterm_modifier :: "KeyModifiers \<Rightarrow> nat" where
  "xterm_modifier mods = 1 + (if mods_contain mods SHIFT then 1 else 0) + (if mods_contain mods ALT then 2 else 0) +
     (if mods_contain mods CONTROL then 4 else 0)"

definition kitty_modifier :: "KeyModifiers \<Rightarrow> nat" where
  "kitty_modifier mods = xterm_modifier mods + (if mods_contain mods SUPER then 8 else 0) +
     (if mods_contain mods HYPER then 16 else 0) + (if mods_contain mods META then 32 else 0)"

definition is_shifted_ascii_punctuation :: "u32 \<Rightarrow> bool" where
  "is_shifted_ascii_punctuation ch \<longleftrightarrow> ch \<in> set (map chr (''!@#$%^&*()_+{}|:<>?~'' @ [CHR 0x22]))"

definition shifted_text_char :: "TerminalKey \<Rightarrow> u32 \<Rightarrow> u32 option" where
  "shifted_text_char key ch =
     (case Option.bind (tk_shifted_codepoint key) char_from_u32 of
        Some shifted \<Rightarrow> Some shifted
      | None \<Rightarrow>
          if is_ascii_uppercase ch then Some ch
          else if is_ascii_lowercase ch then Some (to_ascii_uppercase ch)
          else if is_shifted_ascii_punctuation ch then Some ch
          else None)"

definition text_char_for_key :: "TerminalKey \<Rightarrow> u32 option" where
  "text_char_for_key key =
     (if tk_kind key = Release then None
      else case tk_code key of
        KeyChar ch \<Rightarrow>
          if tk_modifiers key = 0 then Some ch
          else if tk_modifiers key = SHIFT then shifted_text_char key ch
          else None
      | _ \<Rightarrow> None)"

definition text_codepoint_for_key :: "TerminalKey \<Rightarrow> u32 option" where
  "text_codepoint_for_key key =
     (case text_char_for_key key of Some ch \<Rightarrow> if is_control ch then None else Some ch | None \<Rightarrow> None)"

definition encode_text_input :: "TerminalKey \<Rightarrow> string option" where
  "encode_text_input key = map_option utf8 (text_char_for_key key)"

definition canonical_kitty_char :: "u32 \<Rightarrow> KeyModifiers \<Rightarrow> u32" where
  "canonical_kitty_char ch mods =
     (if mods_contain mods SHIFT \<and> is_ascii_uppercase ch then to_ascii_lowercase ch else ch)"

definition alternate_shifted_codepoint :: "TerminalKey \<Rightarrow> u16 \<Rightarrow> u32 option" where
  "alternate_shifted_codepoint key flags =
     (if flags AND KITTY_FLAG_REPORT_ALTERNATE_KEYS = 0 then None
      else case tk_shifted_codepoint key of
        Some shifted \<Rightarrow> Some shifted
      | None \<Rightarrow>
          (case tk_code key of
             KeyChar ch \<Rightarrow> if mods_contain (tk_modifiers key) SHIFT \<and> is_ascii_uppercase ch then Some ch else None
           | _ \<Rightarrow> None))"

definition kitty_event_suffix :: "TerminalKey \<Rightarrow> u16 \<Rightarrow> nat option" where
  "kitty_event_suffix key flags =
     (if flags AND KITTY_FLAG_REPORT_EVENT_TYPES = 0 then None
      else Some (case tk_kind key of Press \<Rightarrow> 1 | Repeat \<Rightarrow> 2 | Release \<Rightarrow> 3))"

definition csi_u_codepoint :: "TerminalKey \<Rightarrow> u16 \<Rightarrow> (u32 \<times> u32 option) option" where
  "csi_u_codepoint key flags =
     (case tk_code key of
        KeyChar c \<Rightarrow> Some (canonical_kitty_char c (tk_modifiers key), alternate_shifted_codepoint key flags)
      | KeyEnter \<Rightarrow> Some (13, None)
      | KeyTab \<Rightarrow> Some (9, None)
      | KeyBackspace \<Rightarrow> Some (127, None)
      | KeyEsc \<Rightarrow> Some (27, None)
      | KeyLeft \<Rightarrow> Some (57417, None)
      | KeyRight \<Rightarrow> Some (57418, None)
      | KeyUp \<Rightarrow> Some (57419, None)
      | KeyDown \<Rightarrow> Some (57420, None)
      | KeyPageUp \<Rightarrow> Some (57421, None)
      | KeyPageDown \<Rightarrow> Some (57422, None)
      | KeyHome \<Rightarrow> Some (57423, None)
      | KeyEnd \<Rightarrow> Some (57424, None)
      | KeyInsert \<Rightarrow> Some (57425, None)
      | KeyDelete \<Rightarrow> Some (57426, None)
      | _ \<Rightarrow> None)"

definition has_legacy_form :: "KeyCode \<Rightarrow> bool" where
  "has_legacy_form code \<longleftrightarrow>
     (case code of
        KeyUp \<Rightarrow> True | KeyDown \<Rightarrow> True | KeyLeft \<Rightarrow> True | KeyRight \<Rightarrow> True | KeyHome \<Rightarrow> True | KeyEnd \<Rightarrow> True
      | KeyPageUp \<Rightarrow> True | KeyPageDown \<Rightarrow> True | KeyInsert \<Rightarrow> True | KeyDelete \<Rightarrow> True | KeyF _ \<Rightarrow> True
      | _ \<Rightarrow> False)"

definition optional_field :: "char \<Rightarrow> nat option \<Rightarrow> string" where
  "optional_field sep field = (case field of Some v \<Rightarrow> sep # show_nat v | None \<Rightarrow> [])"

definition csi_u_sequence :: "TerminalKey \<Rightarrow> u16 \<Rightarrow> u32 \<Rightarrow> u32 option \<Rightarrow> string" where
  "csi_u_sequence key flags codepoint alternate_shifted =
     CSI @ show_nat (unat codepoint) @ optional_field (CHR '':'') (map_option unat alternate_shifted) @
     CHR '';'' # show_nat (kitty_modifier (tk_modifiers key)) @ optional_field (CHR '':'') (kitty_event_suffix key flags) @
     (if flags AND KITTY_FLAG_REPORT_ASSOCIATED_TEXT \<noteq> 0
      then optional_field (CHR '';'') (map_option unat (text_codepoint_for_key key)) else []) @ ''u''"

definition try_encode_csi_u :: "TerminalKey \<Rightarrow> u16 \<Rightarrow> string option" where
  "try_encode_csi_u key flags =
     (let mods = tk_modifiers key;
          event_suffix = kitty_event_suffix key flags;
          report_all_keys = (flags AND KITTY_FLAG_REPORT_ALL_KEYS \<noteq> 0) in
      if \<not> report_all_keys \<and> mods = 0 \<and> (tk_code key = KeyEnter \<or> tk_code key = KeyTab \<or> tk_code key = KeyBackspace) then None
      else if mods = 0 \<and> event_suffix = None \<and> \<not> report_all_keys then None
      else if has_legacy_form (tk_code key) \<and> event_suffix = None \<and> \<not> report_all_keys then None
      else case csi_u_codepoint key flags of
        None \<Rightarrow> None
      | Some (codepoint, alternate_shifted) \<Rightarrow> Some (csi_u_sequence key flags codepoint alternate_shifted))"

section \<open>Legacy sequences\<close>

definition modified_letter :: "nat \<Rightarrow> char \<Rightarrow> string" where
  "modified_letter modifier letter = CSI @ ''1;'' @ show_nat modifier @ [letter]"

definition modified_tilde :: "nat \<Rightarrow> nat \<Rightarrow> string" where
  "modified_tilde code modifier = CSI @ show_nat code @ '';'' @ show_nat modifier @ ''~''"

definition encode_modified_special :: "KeyCode \<Rightarrow> KeyModifiers \<Rightarrow> string option" where
  "encode_modified_special code mods =
     (let modifier = xterm_modifier mods in
      if modifier \<le> 1 then None
      else case code of
        KeyUp \<Rightarrow> Some (modified_letter modifier (CHR ''A''))
      | KeyDown \<Rightarrow> Some (modified_letter modifier (CHR ''B''))
      | KeyRight \<Rightarrow> Some (modified_letter modifier (CHR ''C''))
      | KeyLeft \<Rightarrow> Some (modified_letter modifier (CHR ''D''))
      | KeyHome \<Rightarrow> Some (modified_letter modifier (CHR ''H''))
      | KeyEnd \<Rightarrow> Some (modified_letter modifier (CHR ''F''))
      | KeyInsert \<Rightarrow> Some (modified_tilde 2 modifier)
      | KeyDelete \<Rightarrow> Some (modified_tilde 3 modifier)
      | KeyPageUp \<Rightarrow> Some (modified_tilde 5 modifier)
      | KeyPageDown \<Rightarrow> Some (modified_tilde 6 modifier)
      | KeyF n \<Rightarrow>
          (if n = 1 then Some (modified_letter modifier (CHR ''P''))
           else if n = 2 then Some (modified_letter modifier (CHR ''Q''))
           else if n = 3 then Some (modified_letter modifier (CHR ''R''))
           else if n = 4 then Some (modified_letter modifier (CHR ''S''))
           else if n = 5 then Some (modified_tilde 15 modifier)
           else if n = 6 then Some (modified_tilde 17 modifier)
           else if n = 7 then Some (modified_tilde 18 modifier)
           else if n = 8 then Some (modified_tilde 19 modifier)
           else if n = 9 then Some (modified_tilde 20 modifier)
           else if n = 10 then Some (modified_tilde 21 modifier)
           else if n = 11 then Some (modified_tilde 23 modifier)
           else if n = 12 then Some (modified_tilde 24 modifier)
           else None)
      | _ \<Rightarrow> None)"

definition encode_f_key :: "u8 \<Rightarrow> string" where
  "encode_f_key n =
     (if n = 1 then ESC # ''OP'' else if n = 2 then ESC # ''OQ'' else if n = 3 then ESC # ''OR'' else if n = 4 then ESC # ''OS''
      else if n = 5 then CSI @ ''15~'' else if n = 6 then CSI @ ''17~'' else if n = 7 then CSI @ ''18~''
      else if n = 8 then CSI @ ''19~'' else if n = 9 then CSI @ ''20~'' else if n = 10 then CSI @ ''21~''
      else if n = 11 then CSI @ ''23~'' else if n = 12 then CSI @ ''24~'' else [])"

definition control_byte :: "u32 \<Rightarrow> string" where
  "control_byte ch =
     (let upper = to_ascii_uppercase ch in
      if is_ascii_uppercase upper then [byte (unat upper - 64)]
      else if upper \<in> set (map chr '' @2'') then [byte 0]
      else if upper \<in> set (map chr ''[3'') then [byte 27]
      else if upper = 92 \<or> upper = chr (CHR ''4'') then [byte 28]
      else if upper \<in> set (map chr '']5'') then [byte 29]
      else if upper \<in> set (map chr ''^6'') then [byte 30]
      else if upper \<in> set (map chr ''_/7-'') then [byte 31]
      else utf8 ch)"

definition encode_legacy_inner :: "TerminalKey \<Rightarrow> string" where
  "encode_legacy_inner key =
     (case tk_code key of
        KeyChar ch \<Rightarrow>
          if mods_contain (tk_modifiers key) CONTROL then control_byte ch
          else if tk_modifiers key = SHIFT
          then utf8 (case shifted_text_char key ch of Some shifted \<Rightarrow> shifted | None \<Rightarrow> ch)
          else utf8 ch
      | KeyEnter \<Rightarrow> [byte 13] | KeyBackspace \<Rightarrow> [byte 127] | KeyTab \<Rightarrow> [byte 9] | KeyBackTab \<Rightarrow> CSI @ ''Z''
      | KeyEsc \<Rightarrow> [ESC] | KeyLeft \<Rightarrow> CSI @ ''D'' | KeyRight \<Rightarrow> CSI @ ''C'' | KeyUp \<Rightarrow> CSI @ ''A'' | KeyDown \<Rightarrow> CSI @ ''B''
      | KeyHome \<Rightarrow> CSI @ ''H'' | KeyEnd \<Rightarrow> CSI @ ''F'' | KeyPageUp \<Rightarrow> CSI @ ''5~'' | KeyPageDown \<Rightarrow> CSI @ ''6~''
      | KeyDelete \<Rightarrow> CSI @ ''3~'' | KeyInsert \<Rightarrow> CSI @ ''2~'' | KeyF n \<Rightarrow> encode_f_key n | _ \<Rightarrow> [])"

definition encode_legacy :: "TerminalKey \<Rightarrow> string" where
  "encode_legacy key =
     (let mods = tk_modifiers key in
      case (if mods \<noteq> 0 then encode_modified_special (tk_code key) mods else None) of
        Some bytes \<Rightarrow> bytes
      | None \<Rightarrow>
          if mods_contain mods ALT then ESC # encode_legacy_inner (with_modifiers (mods_difference mods ALT) key)
          else encode_legacy_inner key)"

section \<open>The encoder\<close>

definition legacy_chord_needs_csi_u :: "TerminalKey \<Rightarrow> bool" where
  "legacy_chord_needs_csi_u key \<longleftrightarrow>
     (case tk_code key of
        KeyChar ch \<Rightarrow> mods_contain (tk_modifiers key) SUPER \<or>
          is_ascii_alphabetic ch \<and> mods_contain (tk_modifiers key) (CONTROL OR SHIFT)
      | _ \<Rightarrow> False)"

definition kitty_csi_u :: "TerminalKey \<Rightarrow> KeyboardProtocol \<Rightarrow> string option" where
  "kitty_csi_u key protocol = (case protocol of Kitty flags \<Rightarrow> try_encode_csi_u key flags | Legacy \<Rightarrow> None)"

definition encode_terminal_key :: "TerminalKey \<Rightarrow> KeyboardProtocol \<Rightarrow> string" where
  "encode_terminal_key key protocol =
     (if is_windows_dead_key key then []
      else case (if protocol = Legacy \<and> tk_kind key \<noteq> Release \<and> legacy_chord_needs_csi_u key then try_encode_csi_u key 0 else None) of
        Some bytes \<Rightarrow> bytes
      | None \<Rightarrow>
      (let preserve_physical_key = has_physical_identity key \<and> reports_all_keys protocol in
       case (if \<not> preserve_physical_key \<and> tk_kind key \<noteq> Release then tk_generated_text key else None) of
        Some t \<Rightarrow> t
      | None \<Rightarrow>
      if tk_kind key = Release \<and> \<not> reports_event_types protocol then []
      else
      (let kitty_first = reports_all_keys protocol \<or> tk_kind key = Release \<and> reports_event_types protocol in
       case (if kitty_first then kitty_csi_u key protocol else None) of
        Some bytes \<Rightarrow> bytes
      | None \<Rightarrow>
      (case encode_text_input key of
        Some bytes \<Rightarrow> bytes
      | None \<Rightarrow>
      (case (if \<not> kitty_first then kitty_csi_u key protocol else None) of
        Some bytes \<Rightarrow> bytes
      | None \<Rightarrow>
          if tk_kind key = Release \<and> reports_event_types protocol then [] else encode_legacy key)))))"

definition encode_cursor_key :: "KeyCode \<Rightarrow> bool \<Rightarrow> string" where
  "encode_cursor_key code application_cursor =
     (case code of
        KeyUp \<Rightarrow> if application_cursor then ESC # ''OA'' else CSI @ ''A''
      | KeyDown \<Rightarrow> if application_cursor then ESC # ''OB'' else CSI @ ''B''
      | KeyRight \<Rightarrow> if application_cursor then ESC # ''OC'' else CSI @ ''C''
      | KeyLeft \<Rightarrow> if application_cursor then ESC # ''OD'' else CSI @ ''D''
      | _ \<Rightarrow> encode_legacy (new_key code 0))"

section \<open>Mouse reports\<close>

datatype MouseProtocolEncoding = MouseDefault | MouseUtf8 | MouseSgr | MouseSgrPixels

datatype MouseProtocolMode = MouseNone | MousePressOnly | MousePressRelease | MouseButtonMotion | MouseAnyMotion

definition reporting_enabled :: "MouseProtocolMode \<Rightarrow> bool" where
  "reporting_enabled mode \<longleftrightarrow> mode \<noteq> MouseNone"

definition push_mouse_codepoint :: "u32 \<Rightarrow> string option" where
  "push_mouse_codepoint v = map_option utf8 (char_from_u32 v)"

definition byte_try_from :: "nat \<Rightarrow> char option" where
  "byte_try_from n = (if n < 256 then Some (byte n) else None)"

definition encode_mouse_cb :: "u16 \<Rightarrow> bool \<Rightarrow> u16 \<Rightarrow> u16 \<Rightarrow> KeyModifiers \<Rightarrow> MouseProtocolEncoding \<Rightarrow> string option" where
  "encode_mouse_cb base_button release column row modifiers encoding =
     (let cb = (if \<not> release \<or> encoding = MouseSgr \<or> encoding = MouseSgrPixels then unat base_button else 3);
          cb = cb + (if mods_contain modifiers SHIFT then 4 else 0) + (if mods_contain modifiers ALT then 8 else 0) +
            (if mods_contain modifiers CONTROL then 16 else 0);
          column = unat column + 1;
          row = unat row + 1 in
      case encoding of
        MouseDefault \<Rightarrow>
          (case (byte_try_from (cb + 32), byte_try_from (column + 32), byte_try_from (row + 32)) of
             (Some b, Some c, Some r) \<Rightarrow> Some (CSI @ ''M'' @ [b, c, r]) | _ \<Rightarrow> None)
      | MouseUtf8 \<Rightarrow>
          (case (push_mouse_codepoint (of_nat (cb + 32)), push_mouse_codepoint (of_nat (column + 32)), push_mouse_codepoint (of_nat (row + 32))) of
             (Some b, Some c, Some r) \<Rightarrow> Some (CSI @ ''M'' @ b @ c @ r) | _ \<Rightarrow> None)
      | _ \<Rightarrow> Some (CSI @ ''<'' @ show_nat cb @ '';'' @ show_nat column @ '';'' @ show_nat row @ (if release then ''m'' else ''M'')))"

definition encode_mouse_scroll :: "MouseEventKind \<Rightarrow> u16 \<Rightarrow> u16 \<Rightarrow> KeyModifiers \<Rightarrow> MouseProtocolEncoding \<Rightarrow> string option" where
  "encode_mouse_scroll kind column row modifiers encoding =
     (case (case kind of MouseScrollUp \<Rightarrow> Some 64 | MouseScrollDown \<Rightarrow> Some 65 | MouseScrollLeft \<Rightarrow> Some 66
        | MouseScrollRight \<Rightarrow> Some 67 | _ \<Rightarrow> None) of
        Some button \<Rightarrow> encode_mouse_cb button False column row modifiers encoding
      | None \<Rightarrow> None)"

definition mouse_button_number :: "MouseButton \<Rightarrow> u16" where
  "mouse_button_number b = (case b of MouseLeft \<Rightarrow> 0 | MouseMiddle \<Rightarrow> 1 | MouseRight \<Rightarrow> 2)"

definition encode_mouse_button :: "MouseEventKind \<Rightarrow> u16 \<Rightarrow> u16 \<Rightarrow> KeyModifiers \<Rightarrow> MouseProtocolEncoding \<Rightarrow> string option" where
  "encode_mouse_button kind column row modifiers encoding =
     (case (case kind of MouseDown b \<Rightarrow> Some (mouse_button_number b, False) | MouseUp b \<Rightarrow> Some (mouse_button_number b, True)
        | MouseDrag b \<Rightarrow> Some (32 + mouse_button_number b, False) | _ \<Rightarrow> None) of
        Some (button, release) \<Rightarrow> encode_mouse_cb button release column row modifiers encoding
      | None \<Rightarrow> None)"

end
