(* ===== verification/Key_Parse.thy ===== *)
theory Key_Parse
  imports Key_Encode
begin

text \<open>
  Key sequences from the terminal (\<open>herdr/src/input/parse.rs\<close>): Kitty's \<open>CSI u\<close>, xterm's
  modifyOtherKeys, the legacy and the modified special sequences. A \<open>&str\<close> is its UTF-8 bytes. The keys
  of \<open>crossterm\<close> that \<open>KeyOther\<close> stands for are numbered by their Kitty code points. The main result
  is that the parser understands what the encoder writes.
\<close>

section \<open>Fields\<close>

definition split_modifier_and_event :: "string \<Rightarrow> string \<times> string option" where
  "split_modifier_and_event input =
     (case split_once (CHR '':'') input of
        Some (modifier, event) \<Rightarrow> if modifier \<noteq> [] then (modifier, Some event) else (input, None)
      | None \<Rightarrow> (input, None))"

definition parse_kitty_event_type :: "string option \<Rightarrow> KeyEventKind option" where
  "parse_kitty_event_type v =
     (let v = (case v of Some v \<Rightarrow> v | None \<Rightarrow> ''1'') in
      if v = ''1'' then Some Press else if v = ''2'' then Some Repeat else if v = ''3'' then Some Release else None)"

definition key_modifiers_from_u8 :: "nat \<Rightarrow> KeyModifiers" where
  "key_modifiers_from_u8 modifier =
     (let bit_set = (\<lambda>n. bit modifier n) in
      (if bit_set 0 then SHIFT else 0) OR (if bit_set 1 then ALT else 0) OR (if bit_set 2 then CONTROL else 0) OR
      (if bit_set 3 then SUPER else 0) OR (if bit_set 4 then HYPER else 0) OR (if bit_set 5 then META else 0))"

fun parse_text_fields :: "string list \<Rightarrow> string option" where
  "parse_text_fields [] = Some []"
| "parse_text_fields (field # parts) = do {
     v \<leftarrow> parse_u32 field;
     ch \<leftarrow> char_from_u32 v;
     (if is_control ch then None else Some ());
     rest \<leftarrow> parse_text_fields parts;
     Some (utf8 ch @ rest)
   }"

definition parse_kitty_associated_text :: "string \<Rightarrow> string option" where
  "parse_kitty_associated_text v = do {
     t \<leftarrow> parse_text_fields (split_on (CHR '':'') v);
     if t = [] then None else Some t
   }"

definition matching_control_associated_text :: "string \<Rightarrow> KeyCode \<Rightarrow> bool" where
  "matching_control_associated_text v code \<longleftrightarrow>
     code = KeyEnter \<and> v = ''13'' \<or> code = KeyBackspace \<and> v = ''8'' \<or> code = KeyTab \<and> v = ''9'' \<or> code = KeyEsc \<and> v = ''27''"

text \<open>The keypad from 0 to comma, and the keys with a name of their own.\<close>

definition kitty_codepoint_to_keycode :: "u32 \<Rightarrow> KeyCode option" where
  "kitty_codepoint_to_keycode codepoint =
     (let n = unat codepoint in
      if n = 8 \<or> n = 127 then Some KeyBackspace
      else if n = 9 then Some KeyTab
      else if n = 13 \<or> n = 57414 then Some KeyEnter
      else if n = 27 then Some KeyEsc
      else if 57358 \<le> n \<and> n \<le> 57363 then Some (KeyOther n)
      else if 57364 \<le> n \<and> n \<le> 57375 then Some (KeyF (of_nat (n - 57364 + 1)))
      else if 57376 \<le> n \<and> n \<le> 57398 then Some (KeyF (of_nat (n - 57376 + 13)))
      else if 57399 \<le> n \<and> n \<le> 57408 then Some (KeyChar (of_nat (48 + (n - 57399))))
      else if n = 57409 then Some (KeyChar (chr (CHR ''.'')))
      else if n = 57410 then Some (KeyChar (chr (CHR ''/'')))
      else if n = 57411 then Some (KeyChar (chr (CHR ''*'')))
      else if n = 57412 then Some (KeyChar (chr (CHR ''-'')))
      else if n = 57413 then Some (KeyChar (chr (CHR ''+'')))
      else if n = 57415 then Some (KeyChar (chr (CHR ''='')))
      else if n = 57416 then Some (KeyChar (chr (CHR '','')))
      else if n = 57417 then Some KeyLeft
      else if n = 57418 then Some KeyRight
      else if n = 57419 then Some KeyUp
      else if n = 57420 then Some KeyDown
      else if n = 57421 then Some KeyPageUp
      else if n = 57422 then Some KeyPageDown
      else if n = 57423 then Some KeyHome
      else if n = 57424 then Some KeyEnd
      else if n = 57425 then Some KeyInsert
      else if n = 57426 then Some KeyDelete
      else if 57427 \<le> n \<and> n \<le> 57454 then Some (KeyOther n)
      else map_option KeyChar (char_from_u32 codepoint))"

section \<open>The parsers\<close>

definition next_field :: "string list \<Rightarrow> string option \<times> string list" where
  "next_field parts = (case parts of [] \<Rightarrow> (None, []) | f # fs \<Rightarrow> (Some f, fs))"

definition parse_kitty_key_sequence :: "string \<Rightarrow> TerminalKey option" where
  "parse_kitty_key_sequence data = do {
     body \<leftarrow> strip_prefix CSI data;
     body \<leftarrow> strip_suffix ''u'' body;
     let parts = split_on (CHR '';'') body;
     let (key_part, parts) = next_field parts;
     key_part \<leftarrow> key_part;
     let (modifier_part, parts) = next_field parts;
     let modifier_part = (case modifier_part of Some f \<Rightarrow> if f = [] then ''1'' else f | None \<Rightarrow> ''1'');
     let (associated_text, parts) = next_field parts;
     (if parts \<noteq> [] then None else Some ());
     let (modifier_text, event_type) = split_modifier_and_event modifier_part;
     modifier \<leftarrow> parse_u8 modifier_text;
     modifier \<leftarrow> checked_pred modifier;
     let (codepoint, key_fields) = next_field (split_on (CHR '':'') key_part);
     codepoint \<leftarrow> codepoint;
     codepoint \<leftarrow> parse_u32 codepoint;
     let shifted_codepoint = (case fst (next_field key_fields) of Some f \<Rightarrow> if f = [] then None else parse_u32 f | None \<Rightarrow> None);
     code \<leftarrow> kitty_codepoint_to_keycode codepoint;
     associated_text \<leftarrow> (case associated_text of
         Some v \<Rightarrow> (case parse_kitty_associated_text v of
             Some t \<Rightarrow> Some (Some t)
           | None \<Rightarrow> if matching_control_associated_text v code then Some None else None)
       | None \<Rightarrow> Some None);
     kind \<leftarrow> parse_kitty_event_type event_type;
     let modifiers = key_modifiers_from_u8 modifier;
     let modifiers = (if is_char_key code \<and> (case shifted_codepoint of
           Some shifted \<Rightarrow> shifted \<noteq> codepoint \<and> char_from_u32 shifted \<noteq> None | None \<Rightarrow> False)
         then modifiers OR SHIFT else modifiers);
     let key = with_kind kind (new_key code modifiers);
     let key = (case shifted_codepoint of Some shifted \<Rightarrow> with_shifted_codepoint shifted key | None \<Rightarrow> key);
     Some (with_generated_text associated_text key)
   }"

definition parse_modify_other_keys_sequence :: "string \<Rightarrow> TerminalKey option" where
  "parse_modify_other_keys_sequence data = do {
     body \<leftarrow> strip_prefix (CSI @ ''27;'') data;
     body \<leftarrow> strip_suffix ''~'' body;
     (modifier_part, codepoint_part) \<leftarrow> split_once (CHR '';'') body;
     modifier \<leftarrow> parse_u8 modifier_part;
     modifier \<leftarrow> checked_pred modifier;
     codepoint \<leftarrow> parse_u32 codepoint_part;
     code \<leftarrow> kitty_codepoint_to_keycode codepoint;
     Some (new_key code (key_modifiers_from_u8 modifier))
   }"

definition split_xterm_modifier_and_event :: "string \<Rightarrow> (string \<times> string option) option" where
  "split_xterm_modifier_and_event input =
     (case split_once (CHR '';'') input of
        Some (modifier_and_event, associated_text) \<Rightarrow> do {
          parse_kitty_associated_text associated_text;
          Some (split_modifier_and_event modifier_and_event)
        }
      | None \<Rightarrow> Some (split_modifier_and_event input))"

definition letter_code :: "char \<Rightarrow> KeyCode option" where
  "letter_code c =
     map_of [(CHR ''A'', KeyUp), (CHR ''B'', KeyDown), (CHR ''C'', KeyRight), (CHR ''D'', KeyLeft), (CHR ''H'', KeyHome),
       (CHR ''F'', KeyEnd), (CHR ''P'', KeyF 1), (CHR ''Q'', KeyF 2), (CHR ''R'', KeyF 3), (CHR ''S'', KeyF 4)] c"

definition tilde_code :: "string \<Rightarrow> KeyCode option" where
  "tilde_code s =
     map_of [(''2'', KeyInsert), (''3'', KeyDelete), (''5'', KeyPageUp), (''6'', KeyPageDown), (''11'', KeyF 1), (''12'', KeyF 2),
       (''13'', KeyF 3), (''14'', KeyF 4), (''15'', KeyF 5), (''17'', KeyF 6), (''18'', KeyF 7), (''19'', KeyF 8), (''20'', KeyF 9),
       (''21'', KeyF 10), (''23'', KeyF 11), (''24'', KeyF 12)] s"

definition modified_key :: "KeyCode option \<Rightarrow> string \<times> string option \<Rightarrow> TerminalKey option" where
  "modified_key code parts = do {
     let (modifier_text, event_type) = parts;
     mod_value \<leftarrow> parse_u8 modifier_text;
     mod_value \<leftarrow> checked_pred mod_value;
     code \<leftarrow> code;
     kind \<leftarrow> parse_kitty_event_type event_type;
     Some (with_kind kind (new_key code (key_modifiers_from_u8 mod_value)))
   }"

definition is_ascii_letter :: "char \<Rightarrow> bool" where
  "is_ascii_letter c \<longleftrightarrow> is_ascii_alphabetic (chr c)"

definition parse_tilde_special :: "string \<Rightarrow> TerminalKey option" where
  "parse_tilde_special body = do {
     tilde_body \<leftarrow> strip_suffix ''~'' body;
     (code_part, modifier_part) \<leftarrow> split_once (CHR '';'') tilde_body;
     parts \<leftarrow> split_xterm_modifier_and_event modifier_part;
     modified_key (tilde_code code_part) parts
   }"

text \<open>The last character of the body is a letter only if it is a single byte.\<close>

definition parse_xterm_modified_special_sequence :: "string \<Rightarrow> TerminalKey option" where
  "parse_xterm_modified_special_sequence data = do {
     body \<leftarrow> strip_prefix CSI data;
     (case strip_prefix ''1;'' body of
        Some [] \<Rightarrow> None
      | Some rest \<Rightarrow>
          if is_ascii_letter (last rest)
          then do {
            parts \<leftarrow> split_xterm_modifier_and_event (butlast rest);
            modified_key (letter_code (last rest)) parts
          }
          else parse_tilde_special body
      | None \<Rightarrow> parse_tilde_special body)
   }"

definition legacy_specials :: "(string \<times> TerminalKey) list" where
  "legacy_specials =
     (let plain = (\<lambda>s code. (s, new_key code 0)); ch = (\<lambda>s c. (s, new_key (KeyChar (chr c)) 0)) in
      [(ESC # CSI @ ''A'', new_key KeyUp ALT), (ESC # CSI @ ''B'', new_key KeyDown ALT),
       (ESC # CSI @ ''C'', new_key KeyRight ALT), (ESC # CSI @ ''D'', new_key KeyLeft ALT),
       plain (CSI @ ''A'') KeyUp, plain (ESC # ''OA'') KeyUp, plain (CSI @ ''B'') KeyDown, plain (ESC # ''OB'') KeyDown,
       plain (CSI @ ''C'') KeyRight, plain (ESC # ''OC'') KeyRight, plain (CSI @ ''D'') KeyLeft, plain (ESC # ''OD'') KeyLeft,
       plain (CSI @ ''H'') KeyHome, plain (ESC # ''OH'') KeyHome, plain (CSI @ ''1~'') KeyHome, plain (CSI @ ''7~'') KeyHome,
       plain (CSI @ ''F'') KeyEnd, plain (ESC # ''OF'') KeyEnd, plain (CSI @ ''4~'') KeyEnd, plain (CSI @ ''8~'') KeyEnd,
       plain (CSI @ ''5~'') KeyPageUp, plain (CSI @ ''6~'') KeyPageDown, plain (CSI @ ''2~'') KeyInsert, plain (CSI @ ''3~'') KeyDelete,
       ch (ESC # ''Op'') (CHR ''0''), ch (ESC # ''Oq'') (CHR ''1''), ch (ESC # ''Or'') (CHR ''2''), ch (ESC # ''Os'') (CHR ''3''),
       ch (ESC # ''Ot'') (CHR ''4''), ch (ESC # ''Ou'') (CHR ''5''), ch (ESC # ''Ov'') (CHR ''6''), ch (ESC # ''Ow'') (CHR ''7''),
       ch (ESC # ''Ox'') (CHR ''8''), ch (ESC # ''Oy'') (CHR ''9''), ch (ESC # ''On'') (CHR ''.''), ch (ESC # ''Ol'') (CHR '',''),
       ch (ESC # ''Om'') (CHR ''-''), ch (ESC # ''Ok'') (CHR ''+''), ch (ESC # ''Oj'') (CHR ''*''), ch (ESC # ''Oo'') (CHR ''/''),
       plain (ESC # ''OM'') KeyEnter,
       plain (ESC # ''OP'') (KeyF 1), plain (CSI @ ''11~'') (KeyF 1), plain (ESC # ''OQ'') (KeyF 2), plain (CSI @ ''12~'') (KeyF 2),
       plain (ESC # ''OR'') (KeyF 3), plain (CSI @ ''13~'') (KeyF 3), plain (ESC # ''OS'') (KeyF 4), plain (CSI @ ''14~'') (KeyF 4),
       plain (CSI @ ''15~'') (KeyF 5), plain (CSI @ ''17~'') (KeyF 6), plain (CSI @ ''18~'') (KeyF 7), plain (CSI @ ''19~'') (KeyF 8),
       plain (CSI @ ''20~'') (KeyF 9), plain (CSI @ ''21~'') (KeyF 10), plain (CSI @ ''23~'') (KeyF 11), plain (CSI @ ''24~'') (KeyF 12),
       (CSI @ ''Z'', new_key KeyBackTab SHIFT)])"

definition parse_legacy_special_sequence :: "string \<Rightarrow> TerminalKey option" where
  "parse_legacy_special_sequence data =
     (case map_of legacy_specials data of
        Some key \<Rightarrow> Some key
      | None \<Rightarrow> parse_xterm_modified_special_sequence data)"

definition parse_legacy_ctrl_char :: "u32 \<Rightarrow> TerminalKey option" where
  "parse_legacy_ctrl_char ch =
     (if ch = 0 then Some (new_key (KeyChar (chr (CHR '' ''))) CONTROL)
      else if ch \<le> 26 then map_option (\<lambda>c. new_key (KeyChar c) CONTROL) (char_from_u32 (ch + 96))
      else if ch = 27 then Some (new_key (KeyChar (chr (CHR ''[''))) CONTROL)
      else if ch = 28 then Some (new_key (KeyChar 92) CONTROL)
      else if ch = 29 then Some (new_key (KeyChar (chr (CHR '']''))) CONTROL)
      else if ch = 30 then Some (new_key (KeyChar (chr (CHR ''^''))) CONTROL)
      else if ch = 31 then Some (new_key (KeyChar (chr (CHR ''_''))) CONTROL)
      else None)"

definition parse_single_char :: "u32 \<Rightarrow> TerminalKey option" where
  "parse_single_char ch =
     (case parse_legacy_ctrl_char ch of
        Some key \<Rightarrow> Some key
      | None \<Rightarrow> Some (new_key (KeyChar ch) (if is_ascii_uppercase ch then SHIFT else 0)))"

text \<open>The recursion after an escape character goes down by one byte.\<close>

fun parse_legacy_key_sequence :: "string \<Rightarrow> TerminalKey option" where
  "parse_legacy_key_sequence data =
     (case parse_legacy_special_sequence data of
        Some key \<Rightarrow> Some key
      | None \<Rightarrow>
          if data = [byte 13] then Some (new_key KeyEnter 0)
          else if data = [byte 9] then Some (new_key KeyTab 0)
          else if data = [ESC] then Some (new_key KeyEsc 0)
          else if data = [ESC, byte 127] then Some (new_key KeyBackspace ALT)
          else if data = [byte 127] then Some (new_key KeyBackspace 0)
          else (case data of
              [] \<Rightarrow> None
            | c # rest \<Rightarrow>
                if c = ESC
                then (if single_char rest = None then None
                      else map_option (\<lambda>key. key\<lparr>tk_modifiers := tk_modifiers key OR ALT\<rparr>) (parse_legacy_key_sequence rest))
                else Option.bind (single_char data) parse_single_char))"

declare parse_legacy_key_sequence.simps [simp del]

definition parse_terminal_key_sequence :: "string \<Rightarrow> TerminalKey option" where
  "parse_terminal_key_sequence data =
     (case parse_kitty_key_sequence data of
        Some key \<Rightarrow> Some key
      | None \<Rightarrow>
          (case parse_modify_other_keys_sequence data of
             Some key \<Rightarrow> Some key
           | None \<Rightarrow> parse_legacy_key_sequence data))"

section \<open>The parser understands the encoder\<close>

text \<open>The modifier field carries the six modifiers.\<close>

lemma modifiers_list: "list_all (\<lambda>n. key_modifiers_from_u8 (kitty_modifier (word_of_nat n) - 1) = word_of_nat n) [0..<64]"
  by code_simp

lemma kitty_modifier_bounds: "1 \<le> kitty_modifier mods" "kitty_modifier mods \<le> 64"
  by (auto simp: kitty_modifier_def xterm_modifier_def)

lemma modifiers_back:
  assumes "mods AND 0x3F = mods"
  shows "key_modifiers_from_u8 (kitty_modifier mods - 1) = mods"
proof -
  have "mods = take_bit 6 mods" using assms by (simp add: take_bit_eq_mask mask_eq_exp_minus_1)
  then have "unat mods = take_bit 6 (unat mods)" by (metis unsigned_take_bit_eq)
  then have "unat mods < 64" using take_bit_nat_less_exp [of 6 "unat mods"] by simp
  then have "unat mods \<in> set [0..<64]" by simp
  with modifiers_list have "key_modifiers_from_u8 (kitty_modifier (word_of_nat (unat mods)) - 1) = word_of_nat (unat mods)"
    unfolding list_all_iff by blast
  then show ?thesis by simp
qed

definition kitty_plain :: "u32 \<Rightarrow> bool" where
  "kitty_plain ch \<longleftrightarrow> char_from_u32 ch = Some ch \<and> unat ch \<notin> {8, 9, 13, 27, 127} \<and> \<not> (57358 \<le> unat ch \<and> unat ch \<le> 57454)"

definition kitty_key :: "TerminalKey \<Rightarrow> bool" where
  "kitty_key key \<longleftrightarrow> (case tk_code key of KeyChar ch \<Rightarrow> kitty_plain ch | _ \<Rightarrow> csi_u_codepoint key 0 \<noteq> None)"

definition canonical_code :: "TerminalKey \<Rightarrow> KeyCode" where
  "canonical_code key = (case tk_code key of KeyChar ch \<Rightarrow> KeyChar (canonical_kitty_char ch (tk_modifiers key)) | code \<Rightarrow> code)"

lemma plain_code: "kitty_plain ch \<Longrightarrow> kitty_codepoint_to_keycode ch = Some (KeyChar ch)"
proof -
  assume plain: "kitty_plain ch"
  define n where "n = unat ch"
  have valid: "char_from_u32 ch = Some ch" "n \<noteq> 8" "n \<noteq> 9" "n \<noteq> 13" "n \<noteq> 27" "n \<noteq> 127" "n < 57358 \<or> 57454 < n"
    using plain by (auto simp: kitty_plain_def n_def)
  from valid(7) show ?thesis
  proof
    assume "n < 57358"
    with valid(1-6) show ?thesis by (simp add: kitty_codepoint_to_keycode_def Let_def flip: n_def)
  next
    assume "57454 < n"
    with valid(1) show ?thesis by (simp add: kitty_codepoint_to_keycode_def Let_def flip: n_def)
  qed
qed

lemma canonical_plain:
  assumes "kitty_plain ch"
  shows "kitty_plain (canonical_kitty_char ch mods)"
proof (cases "is_ascii_uppercase ch")
  case True
  then have range: "65 \<le> unat ch" "unat ch \<le> 90" by (simp_all add: is_ascii_uppercase_def word_le_nat_alt)
  then have "unat (ch + 32) = unat ch + 32" by (subst unat_add_no_wrap) (simp_all)
  with range assms True show ?thesis
    by (auto simp: kitty_plain_def canonical_kitty_char_def to_ascii_lowercase_def char_from_u32_def word_less_nat_alt)
qed (use assms in \<open>simp add: canonical_kitty_char_def\<close>)

lemma csi_u_code:
  assumes "kitty_key key" "csi_u_codepoint key flags = Some (codepoint, alternate)"
  shows "kitty_codepoint_to_keycode codepoint = Some (canonical_code key)"
  using assms
  by (cases "tk_code key")
    (auto simp: csi_u_codepoint_def kitty_key_def canonical_code_def, auto simp: plain_code canonical_plain, simp_all add: kitty_codepoint_to_keycode_def)

definition heard_text :: "TerminalKey \<Rightarrow> u16 \<Rightarrow> string option" where
  "heard_text key flags =
     (if flags AND KITTY_FLAG_REPORT_ASSOCIATED_TEXT \<noteq> 0 then map_option utf8 (text_codepoint_for_key key) else None)"

definition shift_respected :: "TerminalKey \<Rightarrow> bool" where
  "shift_respected key \<longleftrightarrow> (tk_shifted_codepoint key \<noteq> None \<longrightarrow> mods_contain (tk_modifiers key) SHIFT)"

lemma or_contained: "mods_contain mods m \<Longrightarrow> mods OR m = mods"
proof -
  have "mods OR (mods AND m) = mods" by (rule bit_word_eqI) (auto simp: bit_or_iff bit_and_iff)
  then show "mods_contain mods m \<Longrightarrow> mods OR m = mods" by (simp add: mods_contain_def)
qed

lemma alternate_shift:
  assumes "shift_respected key" "csi_u_codepoint key flags = Some (codepoint, Some shifted)"
  shows "mods_contain (tk_modifiers key) SHIFT"
proof -
  have "alternate_shifted_codepoint key flags = Some shifted"
    using assms(2) by (simp add: csi_u_codepoint_def split: KeyCode.splits)
  then show ?thesis using assms(1)
    by (cases "tk_shifted_codepoint key"; cases "tk_code key") (simp_all add: alternate_shifted_codepoint_def shift_respected_def split: if_splits)
qed

lemma char_from_u32_valid: "char_from_u32 v = Some c \<Longrightarrow> char_from_u32 c = Some c"
  by (auto simp: char_from_u32_def split: if_splits)

lemma uppercase_valid: "is_ascii_lowercase ch \<Longrightarrow> char_from_u32 (to_ascii_uppercase ch) = Some (to_ascii_uppercase ch)"
proof -
  assume lower: "is_ascii_lowercase ch"
  then have "unat (ch - 32) = unat ch - 32" by (subst unat_sub) (simp_all add: is_ascii_lowercase_def word_le_nat_alt)
  with lower show ?thesis
    by (auto simp: char_from_u32_def to_ascii_uppercase_def is_ascii_lowercase_def word_less_nat_alt word_le_nat_alt)
qed

lemma shifted_text_valid:
  assumes "char_from_u32 ch = Some ch" "shifted_text_char key ch = Some c"
  shows "char_from_u32 c = Some c"
proof (cases "Option.bind (tk_shifted_codepoint key) char_from_u32")
  case None
  with assms show ?thesis by (auto simp: shifted_text_char_def uppercase_valid split: if_splits)
next
  case (Some shifted)
  then have "char_from_u32 shifted = Some shifted" by (cases "tk_shifted_codepoint key") (auto dest: char_from_u32_valid)
  with Some assms(2) show ?thesis by (simp add: shifted_text_char_def)
qed

lemma text_valid:
  assumes "kitty_key key" "text_codepoint_for_key key = Some c"
  shows "char_from_u32 c = Some c" "\<not> is_control c"
  using assms
  by (auto simp: text_codepoint_for_key_def text_char_for_key_def kitty_key_def kitty_plain_def
      dest: shifted_text_valid split: option.splits if_splits KeyCode.splits)

lemma utf8_nonempty [simp]: "utf8 ch \<noteq> []"
  by (simp add: utf8_def Let_def)

lemma associated_text_back:
  assumes "kitty_key key" "text_codepoint_for_key key = Some c"
  shows "parse_kitty_associated_text (show_nat (unat c)) = Some (utf8 c)"
  using text_valid [OF assms] by (simp add: parse_kitty_associated_text_def)

lemma event_fields:
  "split_modifier_and_event (show_nat m @ optional_field (CHR '':'') e) = (show_nat m, map_option show_nat e)"
  by (cases e) (simp_all add: split_modifier_and_event_def optional_field_def)

lemma show_digits: "show_nat 1 = ''1''" "show_nat 2 = ''2''" "show_nat 3 = ''3''"
  by code_simp+

lemma event_back: "parse_kitty_event_type (map_option show_nat (kitty_event_suffix key flags)) =
    (if flags AND KITTY_FLAG_REPORT_EVENT_TYPES = 0 then Some Press else Some (tk_kind key))"
  by (cases "tk_kind key") (simp_all add: parse_kitty_event_type_def kitty_event_suffix_def show_digits del: One_nat_def)

lemma optional_field_plain: "c \<noteq> sep \<Longrightarrow> digit_value c = None \<Longrightarrow> c \<notin> set (optional_field sep v)"
  by (cases v) (simp_all add: optional_field_def)

lemma csi_u_back:
  assumes "kitty_key key" "tk_modifiers key AND 0x3F = tk_modifiers key" "shift_respected key"
    "flags AND KITTY_FLAG_REPORT_EVENT_TYPES \<noteq> 0" "csi_u_codepoint key flags = Some (codepoint, alternate)"
  shows "parse_kitty_key_sequence (csi_u_sequence key flags codepoint alternate) =
    Some \<lparr>tk_code = canonical_code key, tk_modifiers = tk_modifiers key, tk_kind = tk_kind key, tk_repeat_count = 1,
      tk_shifted_codepoint = alternate, tk_generated_text = heard_text key flags, tk_physical_identity_hint = False,
      tk_windows_dead_key = False, tk_source = Synthesized\<rparr>"
proof -
  define event_suffix where "event_suffix = kitty_event_suffix key flags"
  define sent_text where "sent_text = (if flags AND KITTY_FLAG_REPORT_ASSOCIATED_TEXT \<noteq> 0 then map_option unat (text_codepoint_for_key key) else None)"
  define key_part where "key_part = show_nat (unat codepoint) @ optional_field (CHR '':'') (map_option unat alternate)"
  define modifier where "modifier = kitty_modifier (tk_modifiers key)"
  define mod_part where "mod_part = show_nat modifier @ optional_field (CHR '':'') event_suffix"
  define body where "body = key_part @ CHR '';'' # mod_part @ optional_field (CHR '';'') sent_text"
  have seq: "csi_u_sequence key flags codepoint alternate = CSI @ body @ ''u''"
    by (simp add: csi_u_sequence_def optional_field_def body_def key_part_def mod_part_def sent_text_def event_suffix_def modifier_def)
  have plain: "CHR '';'' \<notin> set key_part" "CHR '';'' \<notin> set mod_part"
    by (simp_all add: key_part_def mod_part_def optional_field_plain)
  have parts: "split_on (CHR '';'') body = key_part # mod_part # (case sent_text of Some t \<Rightarrow> [show_nat t] | None \<Rightarrow> [])"
    using plain by (cases sent_text) (simp_all add: body_def optional_field_def)
  have keys: "split_on (CHR '':'') key_part = show_nat (unat codepoint) # (case alternate of Some a \<Rightarrow> [show_nat (unat a)] | None \<Rightarrow> [])"
    by (cases alternate) (simp_all add: key_part_def optional_field_def)
  have mod_part: "mod_part \<noteq> []" "split_modifier_and_event mod_part = (show_nat modifier, map_option show_nat event_suffix)"
    by (simp_all add: mod_part_def event_fields)
  have mods: "parse_u8 (show_nat modifier) = Some modifier" "checked_pred modifier = Some (modifier - 1)"
    "key_modifiers_from_u8 (modifier - 1) = tk_modifiers key"
    using kitty_modifier_bounds [of "tk_modifiers key"] modifiers_back [OF assms(2)]
    by (simp_all add: parse_u8_show checked_pred_def modifier_def)
  have kind: "parse_kitty_event_type (map_option show_nat event_suffix) = Some (tk_kind key)"
    using event_back [of key flags] assms(4) by (simp add: event_suffix_def)
  note code = csi_u_code [OF assms(1,5)]
  have shift: "alternate \<noteq> None \<Longrightarrow> tk_modifiers key OR SHIFT = tk_modifiers key"
    using alternate_shift [OF assms(3)] assms(5) by (cases alternate) (simp_all add: or_contained)
  have heard: "(case sent_text of Some t \<Rightarrow>
      (case parse_kitty_associated_text (show_nat t) of Some t \<Rightarrow> Some (Some t)
       | None \<Rightarrow> if matching_control_associated_text (show_nat t) (canonical_code key) then Some None else None)
      | None \<Rightarrow> Some None) = Some (heard_text key flags)"
    using associated_text_back [OF assms(1)] by (auto simp: sent_text_def heard_text_def split: option.splits)
  have silent: "tk_kind key = Release \<Longrightarrow> heard_text key flags = None"
    by (simp add: heard_text_def text_codepoint_for_key_def text_char_for_key_def)
  show ?thesis
    unfolding seq parse_kitty_key_sequence_def
    using heard shift silent
    by (cases alternate; cases sent_text)
      (simp_all add: parts keys mod_part mods kind code next_field_def with_kind_def new_key_def with_shifted_codepoint_def
        with_generated_text_def Let_def del: One_nat_def split: if_splits)
qed



end
