(* ===== verification/Raw_Sequence.thy ===== *)
theory Raw_Sequence
  imports Key_Parse
begin

text \<open>
  Recognising one event at the head of the raw input of a terminal: the free functions of
  \<open>src/herdr/src/raw_input.rs\<close>. Control strings and their terminators, the end of an escape sequence,
  the mouse reports and the host's reports, and \<open>extract_one_event\<close>. Facts: what is recognised is a
  non-empty prefix of the buffer, and recognising it does not depend on what follows.
\<close>

section \<open>Control strings\<close>

definition starts_with :: "string \<Rightarrow> string \<Rightarrow> bool" where
  "starts_with s p \<longleftrightarrow> take (length p) s = p"

fun find_subsequence :: "string \<Rightarrow> string \<Rightarrow> nat option" where
  "find_subsequence [] needle = None"
| "find_subsequence (c # cs) needle =
     (if starts_with (c # cs) needle then Some 0 else map_option Suc (find_subsequence cs needle))"

datatype ControlStringFamily = Osc | StTerminated | HostReplyCsi

datatype ControlString = CompleteString nat ControlStringFamily | IncompleteString ControlStringFamily

definition osc_string_terminator :: "string \<Rightarrow> nat option" where
  "osc_string_terminator buf =
     (let st = map_option (\<lambda>i. i + 2) (find_subsequence buf ST);
          bel = map_option (\<lambda>i. i + 1) (position (\<lambda>b. b = byte 7) buf) in
      case st of
        Some s \<Rightarrow> (case bel of Some b \<Rightarrow> Some (min s b) | None \<Rightarrow> Some s)
      | None \<Rightarrow> bel)"

definition st_string_terminator :: "string \<Rightarrow> nat option" where
  "st_string_terminator buf = map_option (\<lambda>i. i + 2) (find_subsequence buf ST)"

fun control_string_terminator_for_family :: "string \<Rightarrow> ControlStringFamily \<Rightarrow> nat option" where
  "control_string_terminator_for_family buf Osc = osc_string_terminator buf"
| "control_string_terminator_for_family buf StTerminated = st_string_terminator buf"
| "control_string_terminator_for_family buf HostReplyCsi = None"

definition control_family :: "string \<Rightarrow> ControlStringFamily option" where
  "control_family buf =
     (if starts_with buf (ESC # '']'') then Some Osc
      else if starts_with buf (ESC # ''P'') \<or> starts_with buf (ESC # ''_'') \<or> starts_with buf (ESC # ''^'') \<or> starts_with buf (ESC # ''X'')
      then Some StTerminated else None)"

definition control_string :: "string \<Rightarrow> ControlString option" where
  "control_string buf =
     (case control_family buf of
        None \<Rightarrow> None
      | Some family \<Rightarrow>
          Some (case control_string_terminator_for_family buf family of
            Some len \<Rightarrow> CompleteString len family
          | None \<Rightarrow> IncompleteString family))"

definition is_ascii_digit :: "char \<Rightarrow> bool" where
  "is_ascii_digit c \<longleftrightarrow> (let n = of_char c :: nat in 48 \<le> n \<and> n \<le> 57)"

definition plausible_control_string_tail :: "ControlStringFamily \<Rightarrow> string \<Rightarrow> bool" where
  "plausible_control_string_tail family buf \<longleftrightarrow>
     (case family of
        Osc \<Rightarrow> list_all (\<lambda>b. is_ascii_digit b \<or> b \<in> set (ESC # '';:/#?._-+rgbRGB'')) buf
      | StTerminated \<Rightarrow> buf \<noteq> [] \<and> last buf = ESC
      | HostReplyCsi \<Rightarrow> False)"

section \<open>Mouse reports\<close>

definition parse_mouse_cb :: "u8 \<Rightarrow> (MouseEventKind \<times> KeyModifiers) option" where
  "parse_mouse_cb cb =
     (let button_number = (cb AND 3) OR drop_bit 4 (cb AND 0xC0);
          dragging = cb AND 0x20 = 0x20;
          kind = (if button_number = 0 then Some (if dragging then MouseDrag MouseLeft else MouseDown MouseLeft)
            else if button_number = 1 then Some (if dragging then MouseDrag MouseMiddle else MouseDown MouseMiddle)
            else if button_number = 2 then Some (if dragging then MouseDrag MouseRight else MouseDown MouseRight)
            else if button_number = 3 then Some (if dragging then MouseMoved else MouseUp MouseLeft)
            else if button_number = 4 then Some (if dragging then MouseMoved else MouseScrollUp)
            else if button_number = 5 then Some (if dragging then MouseMoved else MouseScrollDown)
            else if button_number = 6 then (if dragging then None else Some MouseScrollLeft)
            else if button_number = 7 then (if dragging then None else Some MouseScrollRight)
            else if (button_number = 8 \<or> button_number = 9) \<and> dragging then Some MouseMoved
            else None);
          modifiers = (if cb AND 4 \<noteq> 0 then SHIFT else 0) OR (if cb AND 8 \<noteq> 0 then ALT else 0)
            OR (if cb AND 16 \<noteq> 0 then CONTROL else 0)
      in map_option (\<lambda>kind. (kind, modifiers)) kind)"

definition mouse_event :: "MouseEventKind \<times> KeyModifiers \<Rightarrow> nat \<Rightarrow> nat \<Rightarrow> MouseEvent" where
  "mouse_event km column row = \<lparr>me_kind = fst km, me_column = of_nat column, me_row = of_nat row, me_modifiers = snd km\<rparr>"

definition parse_default_mouse :: "string \<Rightarrow> MouseEvent option" where
  "parse_default_mouse s =
     (case s of
        [e, b, m, cb, column, row] \<Rightarrow>
          if [e, b, m] \<noteq> CSI @ ''M'' \<or> of_char cb < (32 :: nat) \<or> of_char column < (33 :: nat) \<or> of_char row < (33 :: nat) then None
          else map_option (\<lambda>km. mouse_event km (of_char column - 33) (of_char row - 33)) (parse_mouse_cb (of_nat (of_char cb - 32)))
      | _ \<Rightarrow> None)"

definition parse_u16 :: "string \<Rightarrow> nat option" where "parse_u16 = parse_unsigned 65535"

definition release_kind :: "MouseEventKind \<Rightarrow> MouseEventKind" where
  "release_kind kind = (case kind of MouseDown b \<Rightarrow> MouseUp b | other \<Rightarrow> other)"

definition parse_sgr_mouse :: "string \<Rightarrow> MouseEvent option" where
  "parse_sgr_mouse s =
     (case strip_prefix (CSI @ ''<'') s of
        None \<Rightarrow> None
      | Some body \<Rightarrow>
          if body = [] \<or> last body \<noteq> CHR ''M'' \<and> last body \<noteq> CHR ''m'' then None
          else case split_on (CHR '';'') (butlast body) of
            cb # column # row # _ \<Rightarrow> do {
              cb \<leftarrow> parse_u8 cb;
              column \<leftarrow> parse_u16 column;
              column \<leftarrow> checked_pred column;
              row \<leftarrow> parse_u16 row;
              row \<leftarrow> checked_pred row;
              (kind, modifiers) \<leftarrow> parse_mouse_cb (of_nat cb);
              Some (mouse_event (if last body = CHR ''m'' then release_kind kind else kind, modifiers) column row)
            }
          | _ \<Rightarrow> None)"

definition digit_or_semicolon :: "char \<Rightarrow> bool" where
  "digit_or_semicolon c \<longleftrightarrow> is_ascii_digit c \<or> c = CHR '';''"

definition starts_with_incomplete_sgr_mouse_sequence :: "string \<Rightarrow> bool" where
  "starts_with_incomplete_sgr_mouse_sequence buf \<longleftrightarrow>
     starts_with buf (CSI @ ''<'') \<and> list_all digit_or_semicolon (drop 3 buf)"

definition starts_with_incomplete_default_mouse_sequence :: "string \<Rightarrow> bool" where
  "starts_with_incomplete_default_mouse_sequence buf \<longleftrightarrow> starts_with buf (CSI @ ''M'') \<and> length buf < 6"

text \<open>\<open>held\<close> bytes that are an escape or the start of a control sequence, followed by what continues one.\<close>

definition continues_escape_sequence :: "string \<Rightarrow> bool" where
  "continues_escape_sequence buf \<longleftrightarrow>
     (case buf of
        [] \<Rightarrow> False
      | e # rest \<Rightarrow> e = ESC \<and>
          (case rest of
             [] \<Rightarrow> True
           | b # rest' \<Rightarrow> b \<in> {CHR '']'', CHR ''P'', CHR ''_''} \<or>
               b = CHR ''['' \<and>
               (case rest' of [] \<Rightarrow> True | next # _ \<Rightarrow> next = CHR ''M'' \<or> 0x20 \<le> (of_char next :: nat) \<and> of_char next \<le> (0x3f :: nat))))"

definition could_continue_as_mouse_report :: "string \<Rightarrow> bool" where
  "could_continue_as_mouse_report buf \<longleftrightarrow>
     list_ex (\<lambda>p. starts_with buf p \<or> starts_with p buf) [CSI @ ''<'', CSI @ ''M'']"

section \<open>Reports of the host\<close>

definition parse_host_color_scheme_report :: "string \<Rightarrow> HostAppearance option" where
  "parse_host_color_scheme_report buf =
     (if buf = color_scheme_report DarkAppearance then Some DarkAppearance
      else if buf = color_scheme_report LightAppearance then Some LightAppearance
      else None)"

definition parse_host_cell_size_report :: "string \<Rightarrow> (u32 \<times> u32) option" where
  "parse_host_cell_size_report buf = do {
     body \<leftarrow> strip_prefix CSI buf;
     body \<leftarrow> strip_suffix ''t'' body;
     (if \<not> from_utf8 body then None
      else case split_on (CHR '';'') body of
        [six, height, width] \<Rightarrow>
          (if six \<noteq> ''6'' then None
           else do {
             height_px \<leftarrow> parse_u32 height;
             width_px \<leftarrow> parse_u32 width;
             (if width_px = 0 \<or> height_px = 0 then None else Some (width_px, height_px)) })
      | _ \<Rightarrow> None) }"

definition starts_with_incomplete_default_color_response :: "string \<Rightarrow> bool" where
  "starts_with_incomplete_default_color_response buf \<longleftrightarrow>
     control_string buf = Some (IncompleteString Osc) \<and>
     (starts_with buf (OSC @ ''10;'') \<or> starts_with buf (OSC @ ''11;''))"

definition starts_with_incomplete_host_color_scheme_report :: "string \<Rightarrow> bool" where
  "starts_with_incomplete_host_color_scheme_report buf \<longleftrightarrow>
     starts_with buf (CSI @ ''?'') \<and>
     (starts_with (color_scheme_report DarkAppearance) buf \<or> starts_with (color_scheme_report LightAppearance) buf) \<and>
     length buf < length (color_scheme_report DarkAppearance)"

definition starts_with_incomplete_host_cell_size_report :: "string \<Rightarrow> bool" where
  "starts_with_incomplete_host_cell_size_report buf \<longleftrightarrow>
     (case strip_prefix CSI buf of
        None \<Rightarrow> False
      | Some body \<Rightarrow>
          body \<noteq> [] \<and> last body \<noteq> CHR ''t'' \<and>
          (case split_on (CHR '';'') body of
             [] \<Rightarrow> False
           | six # params \<Rightarrow> six = ''6'' \<and>
               (case params of
                  [] \<Rightarrow> True
                | [height] \<Rightarrow> list_all is_ascii_digit height
                | [height, width] \<Rightarrow> list_all is_ascii_digit height \<and> list_all is_ascii_digit width \<and> height \<noteq> []
                | _ \<Rightarrow> False)))"

section \<open>Characters and escape sequences\<close>

definition utf8_char_width :: "char \<Rightarrow> nat option" where
  "utf8_char_width c =
     (let first = of_nat (of_char c) :: u8 in
      if first < 0x80 then Some 1
      else if first AND 0xE0 = 0xC0 then Some 2
      else if first AND 0xF0 = 0xE0 then Some 3
      else if first AND 0xF8 = 0xF0 then Some 4
      else None)"

definition first_complete_utf8_char_len :: "string \<Rightarrow> nat option" where
  "first_complete_utf8_char_len buf =
     (case buf of
        [] \<Rightarrow> None
      | c # _ \<Rightarrow>
          (case utf8_char_width c of
             None \<Rightarrow> None
           | Some width \<Rightarrow>
               if length buf < width then None else if from_utf8 (take width buf) then Some width else None))"

text \<open>An error with no valid byte before it and no length: the bytes end inside the first character.\<close>

definition starts_with_incomplete_utf8_char :: "string \<Rightarrow> bool" where
  "starts_with_incomplete_utf8_char buf \<longleftrightarrow> buf \<noteq> [] \<and> first_utf8 buf = Utf8Truncated"

definition find_csi_final :: "string \<Rightarrow> string \<Rightarrow> nat option" where
  "find_csi_final buf finals = map_option (\<lambda>i. i + 3) (position (\<lambda>b. b \<in> set finals) (drop 2 buf))"

text \<open>The final bytes of a control sequence, \<open>@\<close> to \<open>~\<close>.\<close>

definition csi_finals :: string where
  "csi_finals = map char_of [0x40..<0x7F]"

text \<open>The tests for a mouse report after a doubled escape: \<open>Some r\<close> where the function returns \<open>r\<close>.\<close>

definition mouse_after_escape :: "string \<Rightarrow> nat option option" where
  "mouse_after_escape buf =
     (case (if starts_with buf (ESC # CSI @ ''<'') then find_csi_final (tl buf) ''Mm'' else None) of
        Some mouse_len \<Rightarrow>
          (if \<not> from_utf8 (take mouse_len (tl buf)) then Some None
           else if parse_sgr_mouse (take mouse_len (tl buf)) \<noteq> None then Some (Some 1)
           else None)
      | None \<Rightarrow>
          (if 7 \<le> length buf \<and> starts_with buf (ESC # CSI @ ''M'') \<and> parse_default_mouse (take 6 (tl buf)) \<noteq> None
           then Some (Some 1) else None))"

definition csi_sequence_len :: "string \<Rightarrow> nat option" where
  "csi_sequence_len buf =
     (if starts_with buf (CSI @ ''<'') then find_csi_final buf ''Mm''
      else if starts_with buf (CSI @ ''M'') then (if 6 \<le> length buf then Some 6 else None)
      else find_csi_final buf csi_finals)"

text \<open>The rest of the function: a character after the escape.\<close>

definition escaped_char_len :: "string \<Rightarrow> nat option" where
  "escaped_char_len buf =
     (if starts_with buf (ESC # ''O'') then (if 3 \<le> length buf then Some 3 else None)
      else case utf8_char_width (buf ! 1) of
        None \<Rightarrow> None
      | Some width \<Rightarrow>
          if length buf < 1 + width then None
          else if from_utf8 (take width (tl buf)) then Some (1 + width) else None)"

fun complete_escape_sequence_len :: "string \<Rightarrow> nat option" where
  "complete_escape_sequence_len [] = None"
| "complete_escape_sequence_len [e] = None"
| "complete_escape_sequence_len (e # c # rest) =
     (let buf = e # c # rest in
      case mouse_after_escape buf of
        Some r \<Rightarrow> r
      | None \<Rightarrow>
          if starts_with buf [ESC, ESC] then map_option Suc (complete_escape_sequence_len (c # rest))
          else if starts_with buf CSI then csi_sequence_len buf
          else case control_string buf of
            Some (CompleteString len _) \<Rightarrow> Some len
          | Some (IncompleteString _) \<Rightarrow> None
          | None \<Rightarrow> escaped_char_len buf)"

section \<open>One event\<close>

definition BRACKETED_PASTE_START :: string where "BRACKETED_PASTE_START = CSI @ ''200~''"

definition BRACKETED_PASTE_END :: string where "BRACKETED_PASTE_END = CSI @ ''201~''"

definition complete_text_bracketed_paste :: "string \<Rightarrow> string option" where
  "complete_text_bracketed_paste data =
     (if \<not> starts_with data BRACKETED_PASTE_START then None
      else case find_subsequence data BRACKETED_PASTE_END of
        None \<Rightarrow> None
      | Some e \<Rightarrow>
          if e + length BRACKETED_PASTE_END \<noteq> length data then None
          else (let content = drop (length BRACKETED_PASTE_START) (take e data) in
                if from_utf8 content then Some content else None))"

definition bytes_of :: "string \<Rightarrow> u8 list" where
  "bytes_of s = map (\<lambda>c. of_nat (of_char c)) s"

text \<open>An escape sequence that is complete, in the order of the tests. \<open>None\<close> is the panic of a colour parser,
  \<open>Some None\<close> an early return: the sequence is no text.\<close>

definition escape_event :: "string \<Rightarrow> RawInputEvent option option" where
  "escape_event s =
     (if starts_with s (CSI @ ''M'')
      then Some (Some (case parse_default_mouse s of Some m \<Rightarrow> RawMouse m | None \<Rightarrow> Unsupported))
      else if \<not> from_utf8 s then Some None
      else case parse_default_color_response s of
        None \<Rightarrow> None
      | Some (Some (kind, color)) \<Rightarrow> Some (Some (RawHostDefaultColor kind color))
      | Some None \<Rightarrow>
          (case parse_palette_color_response s of
             None \<Rightarrow> None
           | Some (Some entry) \<Rightarrow> Some (Some (RawHostPaletteColors [entry]))
           | Some None \<Rightarrow>
               Some (Some (
                 if s = CSI @ ''I'' then OuterFocusGained
                 else if s = CSI @ ''O'' then OuterFocusLost
                 else case parse_host_color_scheme_report s of
                   Some appearance \<Rightarrow> HostColorSchemeChanged appearance
                 | None \<Rightarrow>
                     (case parse_host_cell_size_report s of
                        Some (width_px, height_px) \<Rightarrow> HostCellSizeReport width_px height_px
                      | None \<Rightarrow>
                          (case parse_sgr_mouse s of
                             Some mouse \<Rightarrow> RawMouse mouse
                           | None \<Rightarrow>
                               (case parse_terminal_key_sequence s of
                                  Some key \<Rightarrow> RawKey (with_vt_bytes (bytes_of s) key)
                                | None \<Rightarrow> Unsupported)))))))"

text \<open>The event and the bytes it takes. \<open>None\<close> is a panic, \<open>Some None\<close> that there is no event yet.\<close>

definition extract_one_event :: "(u32 \<Rightarrow> bool) \<Rightarrow> string \<Rightarrow> (RawInputEvent \<times> nat) option option" where
  "extract_one_event is_uppercase buf =
     (if buf = [] then Some None
      else if starts_with buf BRACKETED_PASTE_START then
        Some (case find_subsequence buf BRACKETED_PASTE_END of
          None \<Rightarrow> None
        | Some e \<Rightarrow>
            (let content = drop (length BRACKETED_PASTE_START) (take e buf) in
             if from_utf8 content then Some (RawPaste content, e + length BRACKETED_PASTE_END) else None))
      else if hd buf = ESC then
        (case complete_escape_sequence_len buf of
           None \<Rightarrow> Some None
         | Some len \<Rightarrow> map_option (map_option (\<lambda>event. (event, len))) (escape_event (take len buf)))
      else
        Some (case first_complete_utf8_char_len buf of
          None \<Rightarrow> None
        | Some consumed \<Rightarrow>
            map_option (\<lambda>key. (RawKey (with_vt_bytes (bytes_of (take consumed buf)) (with_text_commit is_uppercase key)), consumed))
              (parse_terminal_key_sequence (take consumed buf))))"

text \<open>\<open>events_from_chunks\<close>: a chunk that is no event is left out.\<close>

fun events_from_chunks :: "(u32 \<Rightarrow> bool) \<Rightarrow> string list \<Rightarrow> RawInputEvent list option" where
  "events_from_chunks is_uppercase [] = Some []"
| "events_from_chunks is_uppercase (chunk # chunks) =
     (if chunk = [ESC] then map_option (Cons (RawKey (with_vt_bytes (bytes_of chunk) (new_key KeyEsc 0)))) (events_from_chunks is_uppercase chunks)
      else case extract_one_event is_uppercase chunk of
        None \<Rightarrow> None
      | Some None \<Rightarrow> events_from_chunks is_uppercase chunks
      | Some (Some (event, _)) \<Rightarrow> map_option (Cons event) (events_from_chunks is_uppercase chunks))"

definition events_require_host_surface_redraw :: "RawInputEvent list \<Rightarrow> bool \<Rightarrow> bool" where
  "events_require_host_surface_redraw events redraw_on_focus_gained \<longleftrightarrow>
     redraw_on_focus_gained \<and> list_ex (\<lambda>e. e = OuterFocusGained) events"

definition events_require_host_mode_refresh :: "RawInputEvent list \<Rightarrow> bool" where
  "events_require_host_mode_refresh events \<longleftrightarrow> list_ex (\<lambda>e. e = OuterFocusGained) events"

definition events_require_host_terminal_appearance_query :: "RawInputEvent list \<Rightarrow> bool" where
  "events_require_host_terminal_appearance_query events \<longleftrightarrow> list_ex (\<lambda>e. e = OuterFocusGained) events"

definition events_require_host_terminal_theme_query :: "RawInputEvent list \<Rightarrow> bool" where
  "events_require_host_terminal_theme_query events \<longleftrightarrow>
     list_ex (\<lambda>e. case e of HostColorSchemeChanged _ \<Rightarrow> True | _ \<Rightarrow> False) events"

section \<open>What is found does not depend on what follows\<close>

lemma starts_with_append: "starts_with s p \<Longrightarrow> starts_with (s @ x) p"
  by (metis append_assoc append_eq_conv_conj append_take_drop_id starts_with_def)

lemma starts_with_long [simp]: "length p \<le> length s \<Longrightarrow> starts_with (s @ x) p = starts_with s p"
  by (simp add: starts_with_def)

lemma starts_with_length: "starts_with s p \<Longrightarrow> length p \<le> length s"
  by (metis length_take min.bounded_iff nle_le starts_with_def)

lemma find_subsequence_bound: "find_subsequence s p = Some i \<Longrightarrow> i + length p \<le> length s"
  by (induction s arbitrary: i) (auto dest: starts_with_length split: if_splits)

lemma find_subsequence_append: "find_subsequence s p = Some i \<Longrightarrow> find_subsequence (s @ x) p = Some i"
proof (induction s arbitrary: i)
  case (Cons c s)
  have "length p \<le> length (c # s)" using find_subsequence_bound [OF Cons.prems] by simp
  then have "starts_with (c # s @ x) p = starts_with (c # s) p"
    using starts_with_long [of p "c # s" x] by simp
  with Cons show ?case by (auto split: if_splits)
qed simp

lemma find_subsequence_later: "find_subsequence s p = None \<Longrightarrow> p \<noteq> [] \<Longrightarrow> find_subsequence (s @ x) p = Some i \<Longrightarrow> length s < i + length p"
proof (induction s arbitrary: i)
  case Nil
  then show ?case by (cases p; cases x) (auto simp: starts_with_def)
next
  case (Cons c s)
  show ?case
  proof (rule ccontr)
    assume short: "\<not> length (c # s) < i + length p"
    then have "starts_with (c # s @ x) p = starts_with (c # s) p"
      using starts_with_long [of p "c # s" x] by simp
    with Cons short show False by (auto split: if_splits)
  qed
qed

lemma find_subsequence_take:
  "find_subsequence s p = Some i \<Longrightarrow> i + length p \<le> n \<Longrightarrow> p \<noteq> [] \<Longrightarrow> find_subsequence (take n s) p = Some i"
proof (cases "find_subsequence (take n s) p")
  case None
  assume *: "find_subsequence s p = Some i" "i + length p \<le> n" "p \<noteq> []"
  have "length (take n s) < i + length p"
    using find_subsequence_later [OF None *(3), of "drop n s"] * by simp
  with * find_subsequence_bound [OF *(1)] show ?thesis by simp
next
  case (Some j)
  assume "find_subsequence s p = Some i"
  with find_subsequence_append [OF Some, of "drop n s"] Some show ?thesis by simp
qed

lemma position_append: "position P s = Some i \<Longrightarrow> position P (s @ x) = Some i"
  by (induction s arbitrary: i) (auto split: if_splits)

lemma position_later: "position P s = None \<Longrightarrow> position P (s @ x) = Some i \<Longrightarrow> length s \<le> i"
  by (induction s arbitrary: i) (auto split: if_splits)

lemma position_bound: "position P s = Some i \<Longrightarrow> i < length s"
  using position_Some by fastforce

lemma position_take: "position P s = Some i \<Longrightarrow> i < n \<Longrightarrow> position P (take n s) = Some i"
  by (induction s arbitrary: i n) (auto simp: take_Cons' split: if_splits)

lemma length_ST [simp]: "length ST = 2" "ST \<noteq> []"
  by (simp_all add: ST_def)

lemma osc_terminator_append:
  "osc_string_terminator buf = Some n \<Longrightarrow> osc_string_terminator (buf @ x) = Some n"
proof -
  assume found: "osc_string_terminator buf = Some n"
  let ?P = "\<lambda>b. b = byte 7"
  show ?thesis
  proof (cases "find_subsequence buf ST"; cases "position ?P buf")
    fix i j assume "find_subsequence buf ST = Some i" "position ?P buf = Some j"
    with found show ?thesis by (simp add: osc_string_terminator_def find_subsequence_append position_append)
  next
    fix i assume st: "find_subsequence buf ST = Some i" "position ?P buf = None"
    with found find_subsequence_bound [OF st(1)] show ?thesis
      by (auto simp: osc_string_terminator_def find_subsequence_append min_def dest: position_later split: option.split)
  next
    fix j assume bel: "find_subsequence buf ST = None" "position ?P buf = Some j"
    with found position_bound [OF bel(2)] show ?thesis
      by (cases "find_subsequence (buf @ x) ST")
        (auto simp: osc_string_terminator_def position_append min_def dest: find_subsequence_later)
  qed (use found in \<open>simp add: osc_string_terminator_def\<close>)
qed

lemma osc_terminator_bound: "osc_string_terminator buf = Some n \<Longrightarrow> 0 < n \<and> n \<le> length buf"
  by (auto simp: osc_string_terminator_def min_def Let_def dest!: find_subsequence_bound position_bound split: option.splits if_splits)

lemma terminator_bound: "control_string_terminator_for_family buf family = Some n \<Longrightarrow> 0 < n \<and> n \<le> length buf"
  by (cases family) (auto simp: st_string_terminator_def dest: osc_terminator_bound find_subsequence_bound)

lemma terminator_append:
  "control_string_terminator_for_family buf family = Some n \<Longrightarrow> control_string_terminator_for_family (buf @ x) family = Some n"
  by (cases family) (auto simp: st_string_terminator_def osc_terminator_append find_subsequence_append)

lemma terminator_take:
  assumes "control_string_terminator_for_family buf family = Some n"
  shows "control_string_terminator_for_family (take n buf) family = Some n"
proof (cases "control_string_terminator_for_family (take n buf) family")
  case None
  with assms terminator_bound [OF assms] show ?thesis
    by (cases family)
      (auto simp: st_string_terminator_def osc_string_terminator_def Let_def min_def
        dest: find_subsequence_take [where n = n] position_take [where n = n] split: option.splits if_splits)
next
  case (Some m)
  with terminator_append [OF Some, of "drop n buf"] assms show ?thesis by simp
qed

lemma csi_final_append: "find_csi_final buf fs = Some n \<Longrightarrow> find_csi_final (buf @ x) fs = Some n"
  by (auto simp: find_csi_final_def position_append)

lemma csi_final_bound: "find_csi_final buf fs = Some n \<Longrightarrow> 3 \<le> n \<and> n \<le> length buf"
  by (auto simp: find_csi_final_def dest: position_bound)

lemma csi_final_take: "find_csi_final buf fs = Some n \<Longrightarrow> find_csi_final (take n buf) fs = Some n"
  by (auto simp: find_csi_final_def drop_take position_take)

text \<open>The length of an escape sequence.\<close>

lemma escape_plain [simp]: "ESC \<noteq> CHR ''[''" "CHR ''['' \<noteq> ESC" "(ESC = CHR '']'') = False" "(ESC = CHR ''O'') = False"
  by (simp_all add: ESC_def)

lemma no_mouse_after: "c \<noteq> ESC \<Longrightarrow> mouse_after_escape (e # c # rest) = None"
  by (simp add: mouse_after_escape_def starts_with_def CSI_def)

lemma complete_csi: "complete_escape_sequence_len (ESC # CHR ''['' # rest) = csi_sequence_len (ESC # CHR ''['' # rest)"
  by (simp add: no_mouse_after starts_with_def CSI_def)

lemma csi_sequence_append: "csi_sequence_len b = Some n \<Longrightarrow> csi_sequence_len (b @ x) = Some n"
proof (cases "3 \<le> length b")
  case True
  assume "csi_sequence_len b = Some n"
  with True show ?thesis
    by (auto simp: csi_sequence_len_def CSI_def csi_final_append split: if_splits)
next
  case False
  assume "csi_sequence_len b = Some n"
  with False show ?thesis
    by (auto simp: csi_sequence_len_def dest!: csi_final_bound split: if_splits)
qed

lemma csi_sequence_bound: "csi_sequence_len b = Some n \<Longrightarrow> 0 < n \<and> n \<le> length b"
  by (auto simp: csi_sequence_len_def dest: csi_final_bound split: if_splits)

lemma csi_sequence_take: "csi_sequence_len b = Some n \<Longrightarrow> csi_sequence_len (take n b) = Some n"
proof -
  assume len: "csi_sequence_len b = Some n"
  then have "3 \<le> n" by (auto simp: csi_sequence_len_def dest: csi_final_bound split: if_splits)
  then have "starts_with (take n b) (CSI @ [c]) = starts_with b (CSI @ [c])" for c
    by (simp add: starts_with_def CSI_def)
  with len csi_sequence_bound [OF len] show ?thesis
    by (auto simp: csi_sequence_len_def csi_final_take split: if_splits)
qed

lemma control_complete:
  "control_string b = Some (CompleteString n family) \<longleftrightarrow>
     control_family b = Some family \<and> control_string_terminator_for_family b family = Some n"
  by (auto simp: control_string_def split: option.splits)

lemma control_family_none: "control_string b = None \<longleftrightarrow> control_family b = None"
  by (simp add: control_string_def split: option.split)

lemma control_family_append: "2 \<le> length b \<Longrightarrow> control_family (b @ x) = control_family b"
  by (simp add: control_family_def)

lemma utf8_width_bound: "utf8_char_width c = Some n \<Longrightarrow> 0 < n \<and> n \<le> 4"
  by (auto simp: utf8_char_width_def Let_def split: if_splits)

lemma escaped_char_bound: "escaped_char_len b = Some n \<Longrightarrow> 2 \<le> n \<and> n \<le> length b"
  by (auto simp: escaped_char_len_def dest: utf8_width_bound split: option.splits if_splits)

lemma escaped_char_append: "escaped_char_len b = Some n \<Longrightarrow> escaped_char_len (b @ x) = Some n"
proof -
  assume len: "escaped_char_len b = Some n"
  then have b: "2 \<le> length b" using escaped_char_bound [OF len] by simp
  then have "(b @ x) ! 1 = b ! 1" "\<And>w. 1 + w \<le> length b \<Longrightarrow> take w (tl (b @ x)) = take w (tl b)"
    by (simp add: nth_append) (cases b; simp)
  with len b show ?thesis by (auto simp: escaped_char_len_def split: option.splits if_splits)
qed

lemma escaped_char_take: "escaped_char_len b = Some n \<Longrightarrow> escaped_char_len (take n b) = Some n"
proof -
  assume len: "escaped_char_len b = Some n"
  note bound = escaped_char_bound [OF len]
  then have "starts_with (take n b) (ESC # ''O'') = starts_with b (ESC # ''O'')" "take n b ! 1 = b ! 1"
    "\<And>w. 1 + w \<le> n \<Longrightarrow> take w (tl (take n b)) = take w (tl b)" "length (take n b) = n"
    by (simp_all add: starts_with_def tl_take)
  with len bound show ?thesis by (auto simp: escaped_char_len_def split: option.splits if_splits)
qed

lemma mouse_after_append:
  "mouse_after_escape b = Some r \<Longrightarrow> mouse_after_escape (b @ x) = Some r"
proof -
  assume some: "mouse_after_escape b = Some r"
  then have len: "4 \<le> length b"
    by (auto simp: mouse_after_escape_def CSI_def dest: starts_with_length split: if_splits option.splits)
  have tl: "tl (b @ x) = tl b @ x" using len by (cases b) auto
  show ?thesis
  proof (cases "starts_with b (ESC # CSI @ ''<'')")
    case True
    have "\<not> starts_with b (ESC # CSI @ ''M'')" using True by (auto simp: starts_with_def CSI_def)
    with True some obtain m where m: "find_csi_final (tl b) ''Mm'' = Some m"
      by (auto simp: mouse_after_escape_def split: option.splits if_splits)
    with csi_final_bound [OF m] csi_final_append [OF m, of x] True some len show ?thesis
      by (auto simp: mouse_after_escape_def tl CSI_def)
  next
    case False
    with some len show ?thesis
      by (auto simp: mouse_after_escape_def tl CSI_def split: if_splits)
  qed
qed

lemma mouse_after_new:
  assumes "mouse_after_escape b = None" "mouse_after_escape (b @ x) = Some r" "2 \<le> length b"
  shows "starts_with b [ESC, ESC] \<and> complete_escape_sequence_len (tl b) = None"
proof -
  obtain e c rest where b: "b = e # c # rest"
    using assms(3) by (cases b; cases "tl b") auto
  have esc: "e = ESC" "c = ESC"
    using assms(2) by (auto simp: b mouse_after_escape_def starts_with_def CSI_def split: if_splits option.splits)
  have "csi_sequence_len (ESC # CHR ''['' # rest') = None" if rest: "rest = CHR ''['' # rest'" for rest'
  proof (cases rest')
    case Nil
    then show ?thesis by (simp add: csi_sequence_len_def starts_with_def CSI_def find_csi_final_def)
  next
    case (Cons d rest'')
    let ?t = "ESC # CHR ''['' # d # rest''"
    show ?thesis
    proof (cases "find_csi_final ?t ''Mm''")
      case None
      with assms(1,2) show ?thesis
        unfolding b esc rest Cons
        by (auto simp: mouse_after_escape_def csi_sequence_len_def starts_with_def CSI_def split: if_splits option.splits)
    next
      case (Some m)
      have "take m (?t @ x) = take m ?t" using csi_final_bound [OF Some] by (simp add: take_append del: append_Cons)
      with csi_final_append [OF Some, of x] Some assms(1,2) show ?thesis
        unfolding b esc rest Cons
        by (auto simp: mouse_after_escape_def csi_sequence_len_def starts_with_def CSI_def split: if_splits)
    qed
  qed
  moreover have "rest = [] \<or> (\<exists>rest'. rest = CHR ''['' # rest')"
    using assms(2) by (cases rest) (auto simp: b mouse_after_escape_def starts_with_def CSI_def split: if_splits option.splits)
  ultimately show ?thesis
    by (auto simp: b esc starts_with_def complete_csi simp del: complete_escape_sequence_len.simps(3))
qed

lemma complete_bound: "complete_escape_sequence_len b = Some n \<Longrightarrow> 0 < n \<and> n \<le> length b"
proof (induction b arbitrary: n rule: complete_escape_sequence_len.induct)
  case (3 e c rest)
  let ?b = "e # c # rest"
  show ?case
  proof (cases "mouse_after_escape ?b")
    case (Some r)
    with 3(2) show ?thesis by (auto simp: mouse_after_escape_def split: option.splits if_splits)
  next
    case None
    with 3 show ?thesis
      by (auto simp: Let_def dest: csi_sequence_bound terminator_bound escaped_char_bound
          simp: control_complete split: if_splits option.splits ControlString.splits)
  qed
qed simp_all

lemma complete_append: "complete_escape_sequence_len b = Some n \<Longrightarrow> complete_escape_sequence_len (b @ x) = Some n"
proof (induction b arbitrary: n rule: complete_escape_sequence_len.induct)
  case (3 e c rest)
  let ?b = "e # c # rest"
  show ?case
  proof (cases "mouse_after_escape ?b")
    case (Some r)
    with 3(2) mouse_after_append [OF Some, of x] show ?thesis by (simp add: Let_def)
  next
    case None
    have none: "mouse_after_escape (e # c # rest @ x) = None"
    proof (rule ccontr)
      assume "mouse_after_escape (e # c # rest @ x) \<noteq> None"
      then obtain r where "mouse_after_escape (?b @ x) = Some r" by auto
      from mouse_after_new [OF None this] 3(2) None show False by (simp add: Let_def)
    qed
    have tests: "starts_with (e # c # rest @ x) p = starts_with ?b p" if "length p = 2" for p
      using that starts_with_long [of p ?b x] by simp
    consider "starts_with ?b [ESC, ESC]" | "starts_with ?b CSI" "\<not> starts_with ?b [ESC, ESC]"
      | family where "\<not> starts_with ?b [ESC, ESC]" "\<not> starts_with ?b CSI" "control_family ?b = Some family"
      | "\<not> starts_with ?b [ESC, ESC]" "\<not> starts_with ?b CSI" "control_family ?b = None"
      by (cases "control_family ?b") blast+
    then show ?thesis
    proof cases
      case 1
      with 3 None none show ?thesis by (auto simp: Let_def tests)
    next
      case 2
      with 3(2) None none csi_sequence_append [of ?b n x] show ?thesis by (simp add: Let_def tests CSI_def)
    next
      case (3 family)
      then have "control_string ?b = Some (CompleteString n family)"
        using "3.prems" None by (auto simp: Let_def control_string_def split: option.splits if_splits ControlString.splits)
      then have "control_string (?b @ x) = Some (CompleteString n family)"
        using terminator_append [of ?b family n x] control_family_append [of ?b x] by (simp add: control_complete)
      with 3 none show ?thesis by (simp add: Let_def tests CSI_def)
    next
      case 4
      then have "control_string ?b = None" "control_string (e # c # rest @ x) = None"
        using control_family_append [of ?b x] by (simp_all add: control_family_none)
      with 4 "3.prems" None none show ?thesis using escaped_char_append [of ?b n x]
        by (simp add: Let_def tests CSI_def)
    qed
  qed
qed simp_all

lemma terminator_two:
  "control_family b = Some family \<Longrightarrow> control_string_terminator_for_family b family = Some n \<Longrightarrow> 2 \<le> n"
proof (cases family)
  case Osc
  assume *: "control_family b = Some family" "control_string_terminator_for_family b family = Some n"
  then obtain rest where b: "b = ESC # rest"
    by (cases b) (auto simp: control_family_def starts_with_def split: if_splits)
  have "ESC \<noteq> byte 7" by code_simp
  then have "position (\<lambda>c. c = byte 7) b = Some i \<Longrightarrow> 1 \<le> i" for i by (auto simp: b)
  with * Osc show ?thesis
    by (fastforce simp: osc_string_terminator_def min_def Let_def split: option.splits if_splits)
qed (auto simp: st_string_terminator_def)

lemma complete_take:
  assumes "complete_escape_sequence_len b = Some n" "\<not> starts_with b [ESC, ESC]" "hd b = ESC"
  shows "complete_escape_sequence_len (take n b) = Some n"
proof -
  obtain c rest where b: "b = ESC # c # rest" and c: "c \<noteq> ESC"
    using assms by (cases b; cases "tl b") (auto simp: starts_with_def)
  have mouse: "mouse_after_escape (ESC # c # r) = None" for r using c by (rule no_mouse_after)
  have bound: "n \<le> length b" using complete_bound [OF assms(1)] by simp
  have family: "control_family (take n b) = control_family b" if "2 \<le> n"
    using that by (simp add: control_family_def starts_with_def)
  have taken: "take n b = ESC # c # take (n - 2) rest" if "2 \<le> n"
    using that by (cases n; cases "n - 1") (auto simp: b)
  consider "c = CHR ''[''"
    | family where "c \<noteq> CHR ''[''" "control_family b = Some family"
    | "c \<noteq> CHR ''[''" "control_family b = None"
    by (cases "control_family b") blast+
  then show ?thesis
  proof cases
    case 1
    then have csi: "csi_sequence_len b = Some n"
      using assms(1) by (simp add: complete_csi b del: complete_escape_sequence_len.simps(3))
    then have "2 \<le> n" by (auto simp: csi_sequence_len_def dest: csi_final_bound split: if_splits)
    with 1 csi_sequence_take [OF csi] taken show ?thesis by (simp add: complete_csi del: complete_escape_sequence_len.simps(3))
  next
    case (2 family)
    then have string: "control_string b = Some (CompleteString n family)"
      using assms(1) c by (auto simp: b mouse Let_def starts_with_def CSI_def control_string_def split: option.splits if_splits)
    then have two: "2 \<le> n" using terminator_two 2(2) by (auto simp: control_complete)
    with string have "control_string (take n b) = Some (CompleteString n family)"
      using terminator_take [of b family n] 2(2) by (simp add: control_complete \<open>2 \<le> n \<Longrightarrow> control_family (take n b) = control_family b\<close>)
    with 2 c two show ?thesis by (simp add: taken mouse Let_def starts_with_def CSI_def)
  next
    case 3
    then have none: "control_string b = None" by (simp add: control_family_none)
    then have len: "escaped_char_len b = Some n"
      using assms(1) c 3(1) by (simp add: b mouse Let_def starts_with_def CSI_def)
    then have two: "2 \<le> n" using escaped_char_bound by blast
    with 3 have "control_string (take n b) = None"
      by (simp add: control_family_none \<open>2 \<le> n \<Longrightarrow> control_family (take n b) = control_family b\<close>)
    with 3 c two escaped_char_take [OF len] show ?thesis by (simp add: taken mouse Let_def starts_with_def CSI_def)
  qed
qed

text \<open>One event: its bytes are a non-empty prefix, they decide it, and read alone they give it again.\<close>

lemma first_char_bound: "first_complete_utf8_char_len b = Some n \<Longrightarrow> 0 < n \<and> n \<le> length b"
  by (auto simp: first_complete_utf8_char_len_def dest: utf8_width_bound split: list.splits option.splits if_splits)

lemma first_char_append: "first_complete_utf8_char_len b = Some n \<Longrightarrow> first_complete_utf8_char_len (b @ x) = Some n"
  by (cases b) (auto simp: first_complete_utf8_char_len_def take_Cons' split: option.splits if_splits)

lemma first_char_take: "first_complete_utf8_char_len b = Some n \<Longrightarrow> first_complete_utf8_char_len (take n b) = Some n"
  by (cases b) (auto simp: first_complete_utf8_char_len_def take_Cons' dest: utf8_width_bound split: option.splits if_splits)

lemma csi_finals_set: "c \<in> set csi_finals \<longleftrightarrow> 64 \<le> (of_char c :: nat) \<and> of_char c < (127 :: nat)"
proof
  assume "64 \<le> (of_char c :: nat) \<and> of_char c < (127 :: nat)"
  then have "char_of (of_char c :: nat) \<in> char_of ` {0x40..<0x7F :: nat}" by (intro imageI) simp
  then show "c \<in> set csi_finals" unfolding csi_finals_def set_map set_upt by simp
qed (auto simp: csi_finals_def)

lemma csi_unfinished:
  "list_all (\<lambda>c. c \<notin> set csi_finals \<and> c \<noteq> CHR ''<'') body \<Longrightarrow> complete_escape_sequence_len (ESC # CHR ''['' # body) = None"
proof -
  assume body: "list_all (\<lambda>c. c \<notin> set csi_finals \<and> c \<noteq> CHR ''<'') body"
  have "CHR ''M'' \<in> set csi_finals" by (simp add: csi_finals_set)
  with body have "hd body \<noteq> CHR ''<''" "hd body \<noteq> CHR ''M''" if "body \<noteq> []"
    using that by (cases body; auto)+
  moreover have "position (\<lambda>b. b \<in> set csi_finals) body = None"
    using body by (simp add: position_None list_all_iff)
  ultimately have "csi_sequence_len (ESC # CHR ''['' # body) = None"
    by (cases body) (simp_all add: csi_sequence_len_def starts_with_def CSI_def find_csi_final_def)
  then show ?thesis by (simp only: complete_csi)
qed

lemma paste_prefix: "list_all (\<lambda>k. complete_escape_sequence_len (take k BRACKETED_PASTE_START) = None) [0..<6]"
proof -
  have "complete_escape_sequence_len (ESC # CHR ''['' # body) = None" if "set body \<subseteq> {CHR ''2'', CHR ''0''}" for body
    using that by (intro csi_unfinished) (auto simp: list_all_iff csi_finals_set)
  then show ?thesis
    by (simp add: BRACKETED_PASTE_START_def CSI_def upt_rec del: complete_escape_sequence_len.simps(3))
qed

lemma length_paste [simp]: "length BRACKETED_PASTE_START = 6" "length BRACKETED_PASTE_END = 6"
  by (simp_all add: BRACKETED_PASTE_START_def BRACKETED_PASTE_END_def CSI_def)

lemma paste_end_nonempty [simp]: "BRACKETED_PASTE_END \<noteq> []"
  by (simp add: BRACKETED_PASTE_END_def CSI_def)

lemma paste_begins:
  assumes "starts_with (b @ x) BRACKETED_PASTE_START" "\<not> starts_with b BRACKETED_PASTE_START"
  shows "complete_escape_sequence_len b = None"
proof -
  have short: "length b < 6"
  proof (rule ccontr)
    assume "\<not> length b < 6"
    with assms show False by simp
  qed
  have "take (length b) (take 6 (b @ x)) = b" using short by simp
  moreover have "take 6 (b @ x) = BRACKETED_PASTE_START" using assms(1) by (simp add: starts_with_def)
  ultimately have prefix: "take (length b) BRACKETED_PASTE_START = b" by (simp only:)
  have "length b \<in> set [0..<6]" using short by simp
  then have "complete_escape_sequence_len (take (length b) BRACKETED_PASTE_START) = None"
    using paste_prefix unfolding list_all_iff by blast
  then show ?thesis unfolding prefix .
qed

lemma extract_bound:
  "extract_one_event up b = Some (Some (event, n)) \<Longrightarrow> 0 < n \<and> n \<le> length b"
  by (auto simp: extract_one_event_def Let_def dest: complete_bound first_char_bound find_subsequence_bound
      split: if_splits option.splits)

lemma extract_append:
  assumes "extract_one_event up b \<noteq> Some None"
  shows "extract_one_event up (b @ x) = extract_one_event up b"
proof -
  have b: "b \<noteq> []" using assms by (auto simp: extract_one_event_def)
  consider "starts_with b BRACKETED_PASTE_START"
    | "\<not> starts_with b BRACKETED_PASTE_START" "hd b = ESC"
    | "\<not> starts_with b BRACKETED_PASTE_START" "hd b \<noteq> ESC" by blast
  then show ?thesis
  proof cases
    case 1
    then obtain e where e: "find_subsequence b BRACKETED_PASTE_END = Some e"
      using assms b by (cases "find_subsequence b BRACKETED_PASTE_END") (auto simp: extract_one_event_def)
    with 1 b find_subsequence_bound [OF e] find_subsequence_append [OF e, of x] show ?thesis
      by (simp add: extract_one_event_def starts_with_append Let_def)
  next
    case 2
    then obtain n where n: "complete_escape_sequence_len b = Some n"
      using assms b by (cases "complete_escape_sequence_len b") (auto simp: extract_one_event_def)
    then have "\<not> starts_with (b @ x) BRACKETED_PASTE_START" using paste_begins [of b x] 2 by auto
    with 2 b n complete_append [OF n, of x] complete_bound [OF n] show ?thesis by (simp add: extract_one_event_def)
  next
    case 3
    then obtain n where n: "first_complete_utf8_char_len b = Some n"
      using assms b by (cases "first_complete_utf8_char_len b") (auto simp: extract_one_event_def)
    have "hd (b @ x) \<noteq> ESC" using b 3 by simp
    then have "\<not> starts_with (b @ x) BRACKETED_PASTE_START"
      by (cases "b @ x") (auto simp: starts_with_def BRACKETED_PASTE_START_def CSI_def)
    with 3 b n first_char_append [OF n, of x] first_char_bound [OF n] show ?thesis by (simp add: extract_one_event_def)
  qed
qed

lemma extract_take:
  assumes "extract_one_event up b = Some (Some (event, n))" "\<not> starts_with b [ESC, ESC]"
  shows "extract_one_event up (take n b) = Some (Some (event, n))"
proof -
  have b: "b \<noteq> []" and n: "0 < n" "n \<le> length b"
    using assms extract_bound [OF assms(1)] by (auto simp: extract_one_event_def)
  consider "starts_with b BRACKETED_PASTE_START"
    | "\<not> starts_with b BRACKETED_PASTE_START" "hd b = ESC"
    | "\<not> starts_with b BRACKETED_PASTE_START" "hd b \<noteq> ESC" by blast
  then show ?thesis
  proof cases
    case 1
    then obtain e where e: "find_subsequence b BRACKETED_PASTE_END = Some e" "n = e + 6"
      using assms b by (auto simp: extract_one_event_def Let_def split: option.splits if_splits)
    have "starts_with (take n b) BRACKETED_PASTE_START" using 1 e by (simp add: starts_with_def)
    with 1 b n e assms(1) find_subsequence_take [OF e(1), of n] show ?thesis
      by (simp add: extract_one_event_def Let_def min_def)
  next
    case 2
    then have len: "complete_escape_sequence_len b = Some n"
      using assms b by (auto simp: extract_one_event_def split: option.splits if_splits)
    have "hd (take n b) = ESC" using 2 n b by (cases n; cases b) auto
    moreover have "\<not> starts_with (take n b) BRACKETED_PASTE_START"
      using 2 starts_with_append [of "take n b" _ "drop n b"] by auto
    ultimately show ?thesis
      using 2 b n len complete_take [OF len assms(2)] assms(1) by (simp add: extract_one_event_def)
  next
    case 3
    then have len: "first_complete_utf8_char_len b = Some n"
      using assms b by (auto simp: extract_one_event_def split: option.splits if_splits)
    have "hd (take n b) \<noteq> ESC" using 3 n b by (cases n; cases b) auto
    moreover have "\<not> starts_with (take n b) BRACKETED_PASTE_START"
      using 3 starts_with_append [of "take n b" _ "drop n b"] by auto
    ultimately show ?thesis
      using 3 b n len first_char_take [OF len] assms(1) by (simp add: extract_one_event_def)
  qed
qed

end
