(* ===== verification/Raw_Input.thy ===== *)
theory Raw_Input
  imports Raw_Sequence
begin

text \<open>
  The framer of the raw input of a terminal (\<open>RawInputByteFramer\<close> in \<open>src/herdr/src/raw_input.rs\<close>, as compiled
  for Unix): bytes go in by \<open>push\<close> in any cuts, chunks that are one event each come out; an idle flush
  decides what an unfinished sequence was, discards the tails of answers that came too late, and holds
  back what may still become an answer or a mouse report. \<open>None\<close> is a panic, here only of a colour
  parser. The clock is the caller's: \<open>flush_timeout\<close> is one idle interval.
\<close>

section \<open>The state\<close>

record framer =
  fr_buffer :: string
  discard_until :: "ControlStringFamily option"
  discarded_tail_bytes :: nat
  timed_out_mouse_prefix :: "string option"
  lone_escape_recently_flushed :: bool
  host_color_replies_awaited :: u16
  host_cell_size_replies_awaited :: u16
  host_appearance_reply_awaited :: bool
  held_pending_host_reply_esc :: bool
  host_color_scheme_change_tracking :: bool
  host_appearance_query_on_focus :: bool
  split_coalesced_escape :: bool
  host_escape_disambiguation_active :: bool
  awaiting_mouse_tail_after :: "nat option"

definition default_framer :: framer where
  "default_framer = \<lparr>fr_buffer = [], discard_until = None, discarded_tail_bytes = 0, timed_out_mouse_prefix = None,
     lone_escape_recently_flushed = False, host_color_replies_awaited = 0, host_cell_size_replies_awaited = 0,
     host_appearance_reply_awaited = False, held_pending_host_reply_esc = False,
     host_color_scheme_change_tracking = False, host_appearance_query_on_focus = False, split_coalesced_escape = False,
     host_escape_disambiguation_active = False, awaiting_mouse_tail_after = None\<rparr>"

text \<open>The policy of the platform (\<open>true\<close> on macOS) is an argument.\<close>

definition with_host_input_policy :: "bool \<Rightarrow> framer" where
  "with_host_input_policy preserve_legacy_doubled_escape_input =
     default_framer\<lparr>split_coalesced_escape := \<not> preserve_legacy_doubled_escape_input\<rparr>"

definition HOST_COLOR_QUERY_REPLIES :: u16 where "HOST_COLOR_QUERY_REPLIES = 258"
definition HOST_CELL_SIZE_QUERY_REPLIES :: u16 where "HOST_CELL_SIZE_QUERY_REPLIES = 1"
definition MAX_ORPHANED_SGR_MOUSE_TAIL_BYTES :: nat where "MAX_ORPHANED_SGR_MOUSE_TAIL_BYTES = 32"
definition MAX_DISCARDED_CONTROL_TAIL_BYTES :: nat where "MAX_DISCARDED_CONTROL_TAIL_BYTES = 128"

definition host_color_query_sent :: "framer \<Rightarrow> framer" where
  "host_color_query_sent s =
     s\<lparr>host_color_replies_awaited := saturating_add (host_color_replies_awaited s) HOST_COLOR_QUERY_REPLIES,
       held_pending_host_reply_esc := False\<rparr>"

definition host_appearance_query_sent :: "framer \<Rightarrow> framer" where
  "host_appearance_query_sent s = s\<lparr>host_appearance_reply_awaited := True, held_pending_host_reply_esc := False\<rparr>"

definition host_cell_size_query_sent :: "framer \<Rightarrow> framer" where
  "host_cell_size_query_sent s =
     s\<lparr>host_cell_size_replies_awaited := HOST_CELL_SIZE_QUERY_REPLIES, held_pending_host_reply_esc := False\<rparr>"

definition awaiting_host_reply :: "framer \<Rightarrow> bool" where
  "awaiting_host_reply s \<longleftrightarrow>
     0 < host_color_replies_awaited s \<or> 0 < host_cell_size_replies_awaited s \<or> host_appearance_reply_awaited s"

definition enable_host_color_scheme_change_tracking :: "framer \<Rightarrow> framer" where
  "enable_host_color_scheme_change_tracking s = s\<lparr>host_color_scheme_change_tracking := True\<rparr>"

definition enable_host_appearance_query_on_focus :: "framer \<Rightarrow> framer" where
  "enable_host_appearance_query_on_focus s = s\<lparr>host_appearance_query_on_focus := True\<rparr>"

definition set_host_escape_disambiguation_active :: "bool \<Rightarrow> framer \<Rightarrow> framer" where
  "set_host_escape_disambiguation_active active s = s\<lparr>host_escape_disambiguation_active := active\<rparr>"

definition has_pending_input :: "framer \<Rightarrow> bool" where
  "has_pending_input s \<longleftrightarrow> fr_buffer s \<noteq> []"

definition held_input_flush_timeout_ms :: "framer \<Rightarrow> nat" where
  "held_input_flush_timeout_ms s = (if awaiting_mouse_tail_after s \<noteq> None then 500 else 10)"

definition has_pending_lone_escape :: "framer \<Rightarrow> bool" where
  "has_pending_lone_escape s \<longleftrightarrow> fr_buffer s = [ESC]"

definition has_pending_csi_introducer :: "framer \<Rightarrow> bool" where
  "has_pending_csi_introducer s \<longleftrightarrow> fr_buffer s = CSI"

definition has_pending_incomplete_mouse_sequence :: "framer \<Rightarrow> bool" where
  "has_pending_incomplete_mouse_sequence s \<longleftrightarrow>
     starts_with_incomplete_sgr_mouse_sequence (fr_buffer s) \<or> starts_with_incomplete_default_mouse_sequence (fr_buffer s)"

section \<open>Tails of reports that came too late\<close>

text \<open>The fields of the part of a mouse report that has come, from field number \<open>i\<close>.\<close>

fun plausible_fields :: "nat \<Rightarrow> string list \<Rightarrow> bool" where
  "plausible_fields i [] = True"
| "plausible_fields i (digits # rest) =
     (if 2 < i then False
      else if digits = [] then rest = []
      else if \<not> list_all is_ascii_digit digits then False
      else case parse_u16 digits of
        None \<Rightarrow> False
      | Some value \<Rightarrow>
          if i = 0 \<and> 255 < value then False
          else if rest \<noteq> [] \<and> (i = 0 \<and> parse_mouse_cb (of_nat value) = None \<or> i = 1 \<and> value = 0) then False
          else plausible_fields (Suc i) rest)"

definition plausible_sgr_mouse_prefix :: "string \<Rightarrow> bool" where
  "plausible_sgr_mouse_prefix report \<longleftrightarrow>
     (case strip_prefix (CSI @ ''<'') report of
        None \<Rightarrow> False
      | Some body \<Rightarrow> plausible_fields 0 (split_on (CHR '';'') body))"

datatype SgrMouseContinuation = ContinuationIncomplete | ContinuationComplete nat | ContinuationInvalid

text \<open>The continuation, once it is cut to the bytes that may still be inspected.\<close>

definition classify_inspected :: "string \<Rightarrow> string \<Rightarrow> SgrMouseContinuation" where
  "classify_inspected prefix tail =
     (let final_index = position (\<lambda>b. \<not> digit_or_semicolon b) tail;
          payload_len = (case final_index of Some i \<Rightarrow> i | None \<Rightarrow> length tail);
          report = prefix @ take payload_len tail in
      if \<not> plausible_sgr_mouse_prefix report then ContinuationInvalid
      else case final_index of
        Some i \<Rightarrow>
          (let report = report @ [tail ! i] in
           if from_utf8 report \<and> parse_sgr_mouse report \<noteq> None then ContinuationComplete (i + 1) else ContinuationInvalid)
      | None \<Rightarrow> if MAX_DISCARDED_CONTROL_TAIL_BYTES \<le> length report then ContinuationInvalid else ContinuationIncomplete)"

definition classify_sgr_mouse_continuation :: "string \<Rightarrow> string \<Rightarrow> SgrMouseContinuation" where
  "classify_sgr_mouse_continuation prefix tail =
     (let remaining = MAX_DISCARDED_CONTROL_TAIL_BYTES - length prefix in
      classify_inspected prefix (take (min (length tail) remaining) tail))"

definition starts_with_incomplete_orphaned_sgr_mouse_tail :: "string \<Rightarrow> bool" where
  "starts_with_incomplete_orphaned_sgr_mouse_tail buf \<longleftrightarrow>
     length buf \<le> MAX_ORPHANED_SGR_MOUSE_TAIL_BYTES \<and>
     (length buf < 3 \<and> starts_with ''[<'' buf \<or> starts_with buf ''[<'' \<and> list_all digit_or_semicolon (drop 2 buf))"

text \<open>What is left of the buffer, if it starts with the complete tail of a mouse report.\<close>

definition discard_complete_orphaned_sgr_mouse_tail :: "string \<Rightarrow> string option" where
  "discard_complete_orphaned_sgr_mouse_tail buf =
     (case position (\<lambda>b. b = CHR ''M'' \<or> b = CHR ''m'') buf of
        None \<Rightarrow> None
      | Some i \<Rightarrow>
          (let terminator_len = i + 1;
               sequence = ESC # take terminator_len buf in
           if MAX_ORPHANED_SGR_MOUSE_TAIL_BYTES < terminator_len \<or> \<not> from_utf8 sequence \<or> parse_sgr_mouse sequence = None
           then None else Some (drop terminator_len buf)))"

definition csi_parameter :: "char \<Rightarrow> bool" where
  "csi_parameter c \<longleftrightarrow> (let n = of_char c :: nat in 0x20 \<le> n \<and> n \<le> 0x3f)"

definition csi_final :: "char \<Rightarrow> bool" where
  "csi_final c \<longleftrightarrow> (let n = of_char c :: nat in 0x40 \<le> n \<and> n \<le> 0x7e)"

text \<open>Whether the tail has ended, the buffer and the number of bytes discarded.\<close>

definition discard_host_reply_csi_tail :: "string \<Rightarrow> nat \<Rightarrow> bool \<times> string \<times> nat" where
  "discard_host_reply_csi_tail buf discarded =
     (let remaining = MAX_DISCARDED_CONTROL_TAIL_BYTES - discarded;
          inspected = min (length buf) remaining in
      case position (\<lambda>b. \<not> csi_parameter b) (take inspected buf) of
        Some i \<Rightarrow> if csi_final (buf ! i) then (True, drop (i + 1) buf, discarded) else (True, drop i buf, discarded)
      | None \<Rightarrow> (MAX_DISCARDED_CONTROL_TAIL_BYTES \<le> discarded + inspected, drop inspected buf, discarded + inspected))"

section \<open>Draining complete chunks\<close>

text \<open>One round of the loop of \<open>drain_available_chunks\<close>: it panics, breaks, or continues with a chunk
  or with none.\<close>

datatype ('s, 'o) loop_step = Panics | Breaks 's | Continues "'o list" 's

definition emit :: "'o list \<Rightarrow> ('o list \<times> 's) option \<Rightarrow> ('o list \<times> 's) option" where
  "emit os r = map_option (\<lambda>(ms, t). (os @ ms, t)) r"

lemma emit_simps [simp]: "emit [] r = r" "emit os None = None" "emit os (Some (ms, t)) = Some (os @ ms, t)"
  "emit os (emit ps r) = emit (os @ ps) r"
  by (cases r; auto simp: emit_def)+

text \<open>A loop over a state with a buffer. What a round decides does not depend on input that is still to
  come, and a loop that stops is where it would be with the input so far: then it does not matter how
  the input is cut.\<close>

locale chunked_input =
  fixes step :: "'s \<Rightarrow> ('s, 'o) loop_step"
    and run :: "'s \<Rightarrow> ('o list \<times> 's) option"
    and give :: "'s \<Rightarrow> 'i list \<Rightarrow> 's"
    and ready :: "'s \<Rightarrow> bool"
    and work :: "'s \<Rightarrow> nat"
  assumes run_step: "run s = (case step s of Panics \<Rightarrow> None | Breaks t \<Rightarrow> Some ([], t) | Continues os t \<Rightarrow> emit os (run t))"
    and shrinks: "step s = Continues os t \<Longrightarrow> work t < work s"
    and continues_ready: "ready s \<Longrightarrow> step s = Continues os t \<Longrightarrow> ready t"
    and breaks_ready: "ready s \<Longrightarrow> step s = Breaks t \<Longrightarrow> ready t"
    and give_panics: "ready s \<Longrightarrow> step s = Panics \<Longrightarrow> step (give s x) = Panics"
    and give_continues: "ready s \<Longrightarrow> step s = Continues os t \<Longrightarrow> step (give s x) = Continues os (give t x)"
    and give_breaks: "ready s \<Longrightarrow> step s = Breaks t \<Longrightarrow> run (give s x) = run (give t x)"
begin

lemma run_induct [case_names step]:
  assumes "\<And>s. (\<And>os t. step s = Continues os t \<Longrightarrow> P t) \<Longrightarrow> P s"
  shows "P s"
proof (induction s rule: measure_induct_rule [where f = work])
  case (less s)
  show ?case by (rule assms) (rule less.IH, rule shrinks)
qed

lemma run_ready: "ready s \<Longrightarrow> run s = Some (os, t) \<Longrightarrow> ready t"
proof (induction s arbitrary: os rule: run_induct)
  case (step s)
  show ?case
  proof (cases "step s")
    case (Continues ps u)
    then have "ready u" using step.prems(1) by (rule continues_ready [rotated])
    moreover obtain qs where "run u = Some (qs, t)"
      using step.prems(2) Continues by (auto simp: run_step [of s] emit_def)
    ultimately show ?thesis using step.IH Continues by blast
  qed (use step.prems in \<open>auto simp: run_step [of s] dest: breaks_ready\<close>)
qed

lemma run_give:
  "ready s \<Longrightarrow> run (give s x) = (case run s of None \<Rightarrow> None | Some (os, t) \<Rightarrow> emit os (run (give t x)))"
proof (induction s rule: run_induct)
  case (step s)
  show ?case
  proof (cases "step s")
    case Panics
    then show ?thesis using step.prems by (simp add: run_step [of s] run_step [of "give s x"] give_panics)
  next
    case (Breaks t)
    then show ?thesis using step.prems by (simp add: run_step [of s] give_breaks)
  next
    case (Continues ps u)
    then have "run (give u x) = (case run u of None \<Rightarrow> None | Some (os, t) \<Rightarrow> emit os (run (give t x)))"
      using step by (blast dest: continues_ready)
    with Continues step.prems show ?thesis
      by (auto simp: run_step [of s] run_step [of "give s x"] give_continues split: option.split)
  qed
qed

end

definition note_event :: "RawInputEvent \<Rightarrow> framer \<Rightarrow> framer" where
  "note_event event s =
     (case event of
        RawHostDefaultColor _ _ \<Rightarrow> s\<lparr>host_color_replies_awaited := saturating_sub (host_color_replies_awaited s) 1\<rparr>
      | RawHostPaletteColors _ \<Rightarrow> s\<lparr>host_color_replies_awaited := saturating_sub (host_color_replies_awaited s) 1\<rparr>
      | HostCellSizeReport _ _ \<Rightarrow> s\<lparr>host_cell_size_replies_awaited := saturating_sub (host_cell_size_replies_awaited s) 1\<rparr>
      | OuterFocusGained \<Rightarrow> if host_appearance_query_on_focus s then host_appearance_query_sent s else s
      | HostColorSchemeChanged _ \<Rightarrow>
          (let s = s\<lparr>host_appearance_reply_awaited := False\<rparr> in
           if host_color_scheme_change_tracking s then host_color_query_sent s else s)
      | _ \<Rightarrow> s)"

definition discard_step :: "ControlStringFamily \<Rightarrow> framer \<Rightarrow> (framer, string) loop_step" where
  "discard_step family s =
     (if family = HostReplyCsi then
        (let (ended, buf, discarded) = discard_host_reply_csi_tail (fr_buffer s) (discarded_tail_bytes s) in
         if ended then Continues [] (s\<lparr>fr_buffer := buf, discard_until := None, discarded_tail_bytes := 0\<rparr>)
         else Breaks (s\<lparr>fr_buffer := buf, discarded_tail_bytes := discarded\<rparr>))
      else case control_string_terminator_for_family (fr_buffer s) family of
        None \<Rightarrow> Breaks s
      | Some terminator_len \<Rightarrow>
          Continues [] (s\<lparr>fr_buffer := drop terminator_len (fr_buffer s), discard_until := None, discarded_tail_bytes := 0\<rparr>))"

definition event_step :: "(u32 \<Rightarrow> bool) \<Rightarrow> framer \<Rightarrow> (framer, string) loop_step" where
  "event_step is_uppercase s =
     (case discard_until s of
        Some family \<Rightarrow> discard_step family s
      | None \<Rightarrow>
          if split_coalesced_escape s \<and> starts_with (fr_buffer s) [ESC, ESC]
          then Continues [[ESC]] (s\<lparr>fr_buffer := drop 1 (fr_buffer s)\<rparr>)
          else case extract_one_event is_uppercase (fr_buffer s) of
            None \<Rightarrow> Panics
          | Some None \<Rightarrow> Breaks s
          | Some (Some (event, consumed)) \<Rightarrow>
              Continues [take consumed (fr_buffer s)]
                ((note_event event s)\<lparr>held_pending_host_reply_esc := False, fr_buffer := drop consumed (fr_buffer s)\<rparr>))"

definition orphan_step :: "(u32 \<Rightarrow> bool) \<Rightarrow> framer \<Rightarrow> (framer, string) loop_step" where
  "orphan_step is_uppercase s =
     (if lone_escape_recently_flushed s then
        (if starts_with_incomplete_orphaned_sgr_mouse_tail (fr_buffer s) then Breaks s
         else case discard_complete_orphaned_sgr_mouse_tail (fr_buffer s) of
           Some rest \<Rightarrow> Continues [] (s\<lparr>fr_buffer := rest, lone_escape_recently_flushed := False\<rparr>)
         | None \<Rightarrow> event_step is_uppercase (s\<lparr>lone_escape_recently_flushed := False\<rparr>))
      else event_step is_uppercase s)"

definition drain_step :: "(u32 \<Rightarrow> bool) \<Rightarrow> framer \<Rightarrow> (framer, string) loop_step" where
  "drain_step is_uppercase s =
     (case timed_out_mouse_prefix s of
        None \<Rightarrow> orphan_step is_uppercase s
      | Some prefix \<Rightarrow>
          (case classify_sgr_mouse_continuation prefix (fr_buffer s) of
             ContinuationIncomplete \<Rightarrow> Breaks s
           | ContinuationComplete len \<Rightarrow>
               orphan_step is_uppercase (s\<lparr>fr_buffer := drop len (fr_buffer s), timed_out_mouse_prefix := None\<rparr>)
           | ContinuationInvalid \<Rightarrow> orphan_step is_uppercase (s\<lparr>timed_out_mouse_prefix := None\<rparr>)))"

text \<open>A round that continues takes bytes off the buffer or ends a discarding.\<close>

definition drain_measure :: "framer \<Rightarrow> nat" where
  "drain_measure s = length (fr_buffer s) + of_bool (discard_until s \<noteq> None)"

lemma csi_tail_length: "discard_host_reply_csi_tail buf d = (ended, buf', d') \<Longrightarrow> length buf' \<le> length buf"
  by (auto simp: discard_host_reply_csi_tail_def Let_def split: option.splits if_splits)

lemma note_event_simps [simp]:
  "fr_buffer (note_event event s) = fr_buffer s" "discard_until (note_event event s) = discard_until s"
  "timed_out_mouse_prefix (note_event event s) = timed_out_mouse_prefix s"
  "lone_escape_recently_flushed (note_event event s) = lone_escape_recently_flushed s"
  "awaiting_mouse_tail_after (note_event event s) = awaiting_mouse_tail_after s"
  "split_coalesced_escape (note_event event s) = split_coalesced_escape s"
  by (simp_all add: note_event_def host_appearance_query_sent_def host_color_query_sent_def Let_def split: RawInputEvent.split)

lemma discard_step_shrinks:
  "discard_step family s = Continues cs t \<Longrightarrow> discard_until s \<noteq> None \<Longrightarrow> drain_measure t < drain_measure s"
  by (auto simp: discard_step_def drain_measure_def dest: csi_tail_length split: prod.splits if_splits option.splits)

lemma event_step_shrinks: "event_step up s = Continues cs t \<Longrightarrow> drain_measure t < drain_measure s"
proof (cases "discard_until s")
  case None
  assume "event_step up s = Continues cs t"
  with None show ?thesis
    by (auto simp: event_step_def drain_measure_def dest: extract_bound starts_with_length split: if_splits option.splits)
qed (auto simp: event_step_def dest: discard_step_shrinks)

lemma orphan_shorter:
  "discard_complete_orphaned_sgr_mouse_tail buf = Some rest \<Longrightarrow> length rest < length buf"
  by (auto simp: discard_complete_orphaned_sgr_mouse_tail_def Let_def dest: position_bound split: option.splits if_splits)

lemma orphan_step_shrinks: "orphan_step up s = Continues cs t \<Longrightarrow> drain_measure t < drain_measure s"
  by (auto simp: orphan_step_def dest: event_step_shrinks orphan_shorter simp: drain_measure_def split: if_splits option.splits)

lemma drain_step_shrinks: "drain_step up s = Continues cs t \<Longrightarrow> drain_measure t < drain_measure s"
  by (auto simp: drain_step_def split: option.splits SgrMouseContinuation.splits dest!: orphan_step_shrinks)
    (auto simp: drain_measure_def)

function drain_available_chunks :: "(u32 \<Rightarrow> bool) \<Rightarrow> framer \<Rightarrow> (string list \<times> framer) option" where
  "drain_available_chunks is_uppercase s =
     (case drain_step is_uppercase s of
        Panics \<Rightarrow> None
      | Breaks t \<Rightarrow> Some ([], t)
      | Continues chunks t \<Rightarrow> emit chunks (drain_available_chunks is_uppercase t))"
  by auto
termination
  by (relation "measure (\<lambda>(_, s). drain_measure s)") (auto dest: drain_step_shrinks)

declare drain_available_chunks.simps [simp del]

section \<open>Pushing bytes\<close>

definition feed :: "framer \<Rightarrow> string \<Rightarrow> framer" where
  "feed s data = s\<lparr>fr_buffer := fr_buffer s @ data\<rparr>"

definition byte_push :: "(u32 \<Rightarrow> bool) \<Rightarrow> framer \<Rightarrow> string \<Rightarrow> (string list \<times> framer) option" where
  "byte_push is_uppercase s data =
     (let s = feed s data in
      case awaiting_mouse_tail_after s of
        None \<Rightarrow> drain_available_chunks is_uppercase s
      | Some prefix_len \<Rightarrow>
          (let s = s\<lparr>awaiting_mouse_tail_after := None\<rparr> in
           if continues_escape_sequence (fr_buffer s) then drain_available_chunks is_uppercase s
           else if length (fr_buffer s) < prefix_len then None
           else emit [take prefix_len (fr_buffer s)]
             (drain_available_chunks is_uppercase (s\<lparr>fr_buffer := drop prefix_len (fr_buffer s)\<rparr>))))"

section \<open>An idle interval\<close>

definition retain_timed_out_mouse_prefix :: "string \<Rightarrow> framer \<Rightarrow> framer" where
  "retain_timed_out_mouse_prefix prefix s =
     s\<lparr>timed_out_mouse_prefix :=
         if length prefix < MAX_DISCARDED_CONTROL_TAIL_BYTES \<and> plausible_sgr_mouse_prefix prefix then Some prefix else None\<rparr>"

definition start_discarding :: "ControlStringFamily \<Rightarrow> framer \<Rightarrow> framer" where
  "start_discarding family s = s\<lparr>discard_until := Some family, discarded_tail_bytes := 0, fr_buffer := []\<rparr>"

definition flush_discarded :: "ControlStringFamily \<Rightarrow> framer \<Rightarrow> framer" where
  "flush_discarded family s =
     (if family = HostReplyCsi then s
      else
        let buf = fr_buffer s;
            keep_split_st = buf \<noteq> [] \<and> last buf = ESC;
            keep_discarding = plausible_control_string_tail family buf;
            discarded = discarded_tail_bytes s + length buf in
        if keep_discarding \<and> discarded \<le> MAX_DISCARDED_CONTROL_TAIL_BYTES
        then s\<lparr>discarded_tail_bytes := discarded, fr_buffer := if keep_split_st then [ESC] else []\<rparr>
        else s\<lparr>discard_until := None, discarded_tail_bytes := 0, fr_buffer := []\<rparr>)"

definition flush_text :: "framer \<Rightarrow> string list \<times> framer" where
  "flush_text s =
     (let buf = fr_buffer s in
      if from_utf8 buf \<and> parse_terminal_key_sequence buf \<noteq> None then ([buf], s\<lparr>fr_buffer := []\<rparr>)
      else if starts_with_incomplete_utf8_char buf \<or> buf \<noteq> [] \<and> hd buf = ESC \<and> starts_with_incomplete_utf8_char (tl buf)
      then ([], s)
      else ([], s\<lparr>lone_escape_recently_flushed := False, fr_buffer := []\<rparr>))"

definition flush_escape :: "bool \<Rightarrow> framer \<Rightarrow> string list \<times> framer" where
  "flush_escape mouse_wait_served s =
     (if awaiting_host_reply s \<and> \<not> held_pending_host_reply_esc s \<and> \<not> mouse_wait_served
      then ([], s\<lparr>held_pending_host_reply_esc := True\<rparr>)
      else ([fr_buffer s],
        s\<lparr>host_color_replies_awaited := 0, host_cell_size_replies_awaited := 0, host_appearance_reply_awaited := False,
          held_pending_host_reply_esc := False, lone_escape_recently_flushed := True, fr_buffer := []\<rparr>))"

definition flush_reports :: "bool \<Rightarrow> framer \<Rightarrow> string list \<times> framer" where
  "flush_reports mouse_wait_served s =
     (let buf = fr_buffer s in
      if 0 < host_cell_size_replies_awaited s \<and> starts_with_incomplete_host_cell_size_report buf
      then ([], start_discarding HostReplyCsi
        (s\<lparr>host_cell_size_replies_awaited := 0, held_pending_host_reply_esc := False\<rparr>))
      else if starts_with_incomplete_host_color_scheme_report buf
      then (if host_appearance_reply_awaited s \<and> \<not> held_pending_host_reply_esc s
            then ([], s\<lparr>held_pending_host_reply_esc := True\<rparr>)
            else ([], start_discarding HostReplyCsi
              (s\<lparr>host_appearance_reply_awaited := False, held_pending_host_reply_esc := False\<rparr>)))
      else case control_string buf of
        Some (IncompleteString family) \<Rightarrow> ([], start_discarding family s)
      | _ \<Rightarrow> if buf = [ESC] then flush_escape mouse_wait_served s else flush_text s)"

definition flush_held :: "bool \<Rightarrow> framer \<Rightarrow> string list \<times> framer" where
  "flush_held mouse_wait_served s =
     (let buf = fr_buffer s in
      if lone_escape_recently_flushed s \<and> starts_with buf ''[<''
      then ([], (retain_timed_out_mouse_prefix (ESC # buf) (s\<lparr>fr_buffer := []\<rparr>))\<lparr>lone_escape_recently_flushed := False\<rparr>)
      else if starts_with_incomplete_sgr_mouse_sequence buf
      then ([], retain_timed_out_mouse_prefix buf (s\<lparr>fr_buffer := []\<rparr>))
      else if starts_with buf BRACKETED_PASTE_START \<and> find_subsequence buf BRACKETED_PASTE_END = None then ([], s)
      else if starts_with_incomplete_default_color_response buf then ([], s)
      else if (0 < host_cell_size_replies_awaited s \<or> host_appearance_reply_awaited s) \<and> buf = CSI
      then (if \<not> held_pending_host_reply_esc s \<and> \<not> mouse_wait_served
            then ([], s\<lparr>held_pending_host_reply_esc := True\<rparr>)
            else flush_reports mouse_wait_served
              (s\<lparr>host_cell_size_replies_awaited := 0, host_appearance_reply_awaited := False, held_pending_host_reply_esc := False\<rparr>))
      else flush_reports mouse_wait_served s)"

text \<open>What \<open>flush_timeout\<close> does after it has drained what is complete.\<close>

definition flush_pending :: "framer \<Rightarrow> string list \<times> framer" where
  "flush_pending s =
     (if timed_out_mouse_prefix s \<noteq> None then ([], s)
      else case discard_until s of
        Some family \<Rightarrow> ([], flush_discarded family s)
      | None \<Rightarrow>
          if fr_buffer s = [] then ([], s)
          else
            (let mouse_wait_served = awaiting_mouse_tail_after s \<noteq> None;
                 s = s\<lparr>awaiting_mouse_tail_after := None\<rparr> in
             if \<not> mouse_wait_served \<and> host_escape_disambiguation_active s \<and> could_continue_as_mouse_report (fr_buffer s)
             then ([], s\<lparr>awaiting_mouse_tail_after := Some (length (fr_buffer s))\<rparr>)
             else flush_held mouse_wait_served s))"

definition byte_flush :: "(u32 \<Rightarrow> bool) \<Rightarrow> framer \<Rightarrow> (string list \<times> framer) option" where
  "byte_flush is_uppercase s =
     map_option (\<lambda>(chunks, t). (let (more, u) = flush_pending t in (chunks @ more, u))) (drain_available_chunks is_uppercase s)"

section \<open>Events\<close>

definition events_and_state :: "(u32 \<Rightarrow> bool) \<Rightarrow> (string list \<times> framer) option \<Rightarrow> (RawInputEvent list \<times> framer) option" where
  "events_and_state is_uppercase r =
     (case r of
        None \<Rightarrow> None
      | Some (chunks, s) \<Rightarrow> map_option (\<lambda>events. (events, s)) (events_from_chunks is_uppercase chunks))"

definition event_push :: "(u32 \<Rightarrow> bool) \<Rightarrow> framer \<Rightarrow> string \<Rightarrow> (RawInputEvent list \<times> framer) option" where
  "event_push is_uppercase s data = events_and_state is_uppercase (byte_push is_uppercase s data)"

definition event_flush :: "(u32 \<Rightarrow> bool) \<Rightarrow> framer \<Rightarrow> (RawInputEvent list \<times> framer) option" where
  "event_flush is_uppercase s = events_and_state is_uppercase (byte_flush is_uppercase s)"

definition parse_raw_input_bytes_sync :: "(u32 \<Rightarrow> bool) \<Rightarrow> string \<Rightarrow> RawInputEvent list option" where
  "parse_raw_input_bytes_sync is_uppercase data =
     (case event_push is_uppercase default_framer data of
        None \<Rightarrow> None
      | Some (events, s) \<Rightarrow> map_option (\<lambda>(more, _). events @ more) (event_flush is_uppercase s))"

section \<open>Cutting the input\<close>

lemma feed_simps [simp]:
  "fr_buffer (feed s x) = fr_buffer s @ x" "discard_until (feed s x) = discard_until s"
  "discarded_tail_bytes (feed s x) = discarded_tail_bytes s" "timed_out_mouse_prefix (feed s x) = timed_out_mouse_prefix s"
  "lone_escape_recently_flushed (feed s x) = lone_escape_recently_flushed s"
  "split_coalesced_escape (feed s x) = split_coalesced_escape s"
  "awaiting_mouse_tail_after (feed s x) = awaiting_mouse_tail_after s"
  by (simp_all add: feed_def)

lemma feed_feed [simp]: "feed (feed s x) y = feed s (x @ y)"
  by (simp add: feed_def)

lemma note_event_buffer: "note_event event (s\<lparr>fr_buffer := b\<rparr>) = (note_event event s)\<lparr>fr_buffer := b\<rparr>"
  by (simp add: note_event_def host_appearance_query_sent_def host_color_query_sent_def Let_def split: RawInputEvent.split)

lemma position_rest: "position P a = None \<Longrightarrow> position P (a @ y) = map_option (\<lambda>i. length a + i) (position P y)"
  by (induction a) (cases "position P y"; auto split: if_splits)+

text \<open>The tail of a host report may come in parts: what is discarded so far is counted.\<close>

definition tail_left :: "bool \<times> string \<times> nat \<Rightarrow> bool \<times> string \<times> nat" where
  "tail_left r = (case r of (ended, buf, d) \<Rightarrow> (ended, buf, if ended then 0 else d))"

lemma csi_tail_parts:
  assumes "discard_host_reply_csi_tail buf d = (False, buf', d')"
  shows "buf' = [] \<and> d' = d + length buf \<and>
    tail_left (discard_host_reply_csi_tail (buf @ x) d) = tail_left (discard_host_reply_csi_tail x d')"
proof -
  let ?P = "\<lambda>b. \<not> csi_parameter b"
  have none: "position ?P (take (min (length buf) (128 - d)) buf) = None" and short: "d + min (length buf) (128 - d) < 128"
    and rest: "buf' = drop (min (length buf) (128 - d)) buf" "d' = d + min (length buf) (128 - d)"
    using assms by (auto simp: discard_host_reply_csi_tail_def Let_def MAX_DISCARDED_CONTROL_TAIL_BYTES_def split: option.splits if_splits)
  from short have len: "min (length buf) (128 - d) = length buf" by linarith
  have "position ?P (buf @ y) = map_option (\<lambda>i. length buf + i) (position ?P y)" for y
    using none by (intro position_rest) (simp add: len)
  moreover have "take (min (length (buf @ x)) (128 - d)) (buf @ x) = buf @ take (min (length x) (128 - d')) x"
    "drop (min (length (buf @ x)) (128 - d)) (buf @ x) = drop (min (length x) (128 - d')) x"
    "min (length (buf @ x)) (128 - d) = length buf + min (length x) (128 - d')"
    using short unfolding rest len by (auto simp: min_def)
  ultimately show ?thesis
    unfolding discard_host_reply_csi_tail_def MAX_DISCARDED_CONTROL_TAIL_BYTES_def
    by (auto simp: Let_def rest len nth_append tail_left_def split: option.split)
qed

lemma csi_tail_end:
  assumes "discard_host_reply_csi_tail buf d = (True, buf', d')"
  shows "\<exists>d''. discard_host_reply_csi_tail (buf @ x) d = (True, buf' @ x, d'')"
proof -
  let ?P = "\<lambda>b. \<not> csi_parameter b"
  let ?n = "min (length buf) (128 - d)" and ?m = "min (length (buf @ x)) (128 - d)"
  have more_bytes: "take ?m (buf @ x) = take ?n buf @ take (128 - d - length buf) x"
    by (simp add: min_def)
  show ?thesis
  proof (cases "position ?P (take ?n buf)")
    case (Some i)
    then have "i < length buf" using position_bound by fastforce
    with Some assms position_append [OF Some, of "take (128 - d - length buf) x"] show ?thesis
      unfolding discard_host_reply_csi_tail_def MAX_DISCARDED_CONTROL_TAIL_BYTES_def Let_def more_bytes
      by (auto simp: nth_append split: if_splits)
  next
    case None
    with assms have "128 - d \<le> length buf"
      by (auto simp: discard_host_reply_csi_tail_def MAX_DISCARDED_CONTROL_TAIL_BYTES_def Let_def min_def split: if_splits)
    with None assms show ?thesis
      by (auto simp: discard_host_reply_csi_tail_def MAX_DISCARDED_CONTROL_TAIL_BYTES_def Let_def min_def split: if_splits)
  qed
qed

text \<open>More bytes do not make an impossible report possible.\<close>

lemma parse_digits_prefix:
  "parse_digits limit acc (xs @ ys) = Some v \<Longrightarrow> \<exists>u. parse_digits limit acc xs = Some u \<and> u \<le> v"
proof -
  assume v: "parse_digits limit acc (xs @ ys) = Some v"
  then obtain u where u: "parse_digits limit acc xs = Some u" "parse_digits limit u ys = Some v"
    by (auto simp: parse_digits_append bind_eq_Some_conv)
  have "parse_digits limit a s = Some w \<Longrightarrow> a \<le> w" for a s w
    by (induction limit a s rule: parse_digits.induct) (force split: option.splits if_splits)+
  with u show ?thesis by blast
qed

lemma digits_parse: "list_all is_ascii_digit s \<Longrightarrow> s \<noteq> [] \<Longrightarrow> parse_u16 s = parse_digits 65535 0 s"
  by (cases s) (auto simp: parse_u16_def parse_unsigned_def is_ascii_digit_def)

lemma digit_parse_prefix:
  assumes "list_all is_ascii_digit (f @ [c])" "parse_u16 (f @ [c]) = Some v" "f \<noteq> []"
  shows "\<exists>u. parse_u16 f = Some u \<and> u \<le> v"
  using assms parse_digits_prefix [of 65535 0 f "[c]" v] by (simp add: digits_parse)

lemma plausible_shorter:
  "plausible_fields i (fs @ [f @ [c]]) \<Longrightarrow> plausible_fields i (fs @ [f])"
proof (induction fs arbitrary: i)
  case Nil
  then show ?case using digit_parse_prefix [of f c]
    by (cases "f = []") (fastforce split: if_splits option.splits)+
next
  case (Cons g fs)
  then show ?case by (auto split: if_splits option.splits)
qed

lemma plausible_fewer: "plausible_fields i (fs @ [f, []]) \<Longrightarrow> plausible_fields i (fs @ [f])"
  by (induction fs arbitrary: i) (auto split: if_splits option.splits)

lemma split_on_snoc:
  "\<exists>fs f. split_on sep s = fs @ [f] \<and> split_on sep (s @ [c]) = (if c = sep then fs @ [f, []] else fs @ [f @ [c]])"
proof (induction s)
  case Nil
  show ?case by simp
next
  case (Cons d s)
  then obtain fs f where "split_on sep s = fs @ [f]"
    "split_on sep (s @ [c]) = (if c = sep then fs @ [f, []] else fs @ [f @ [c]])" by blast
  then show ?case by (cases fs) (auto intro: exI [of _ "_ # _"])
qed

lemma plausible_prefix:
  "plausible_sgr_mouse_prefix (report @ q) \<Longrightarrow> starts_with report (CSI @ ''<'') \<Longrightarrow> plausible_sgr_mouse_prefix report"
proof (induction q rule: rev_induct)
  case (snoc c q)
  have "plausible_sgr_mouse_prefix (report @ q)"
  proof -
    obtain body where body: "report @ q = CSI @ ''<'' @ body"
      using snoc.prems(2) by (metis append.assoc append_take_drop_id starts_with_def)
    have "strip_prefix (CSI @ ''<'') (CSI @ ''<'' @ w) = Some w" for w by (metis append.assoc strip_prefix_append)
    with snoc.prems(1) split_on_snoc [of "CHR '';''" body c] show ?thesis
      unfolding plausible_sgr_mouse_prefix_def append.assoc [symmetric] body
      by (auto simp: body split: if_splits dest: plausible_shorter plausible_fewer)
  qed
  with snoc show ?case by blast
qed simp

lemma classify_inspected_append:
  assumes "classify_inspected p t \<noteq> ContinuationIncomplete" "starts_with p (CSI @ ''<'')" "length (p @ t) < 128"
  shows "classify_inspected p (t @ u) = classify_inspected p t"
proof (cases "position (\<lambda>b. \<not> digit_or_semicolon b) t")
  case (Some i)
  then have "i < length t" by (rule position_bound)
  with Some position_append [OF Some, of u] show ?thesis
    by (simp add: classify_inspected_def nth_append Let_def)
next
  case None
  let ?n = "case position (\<lambda>b. \<not> digit_or_semicolon b) (t @ u) of Some i \<Rightarrow> i | None \<Rightarrow> length (t @ u)"
  have bad: "\<not> plausible_sgr_mouse_prefix (p @ t)"
    using assms(1,3) None by (auto simp: classify_inspected_def MAX_DISCARDED_CONTROL_TAIL_BYTES_def split: if_splits)
  have "\<not> plausible_sgr_mouse_prefix ((p @ t) @ w)" for w
    using bad plausible_prefix [of "p @ t" w] starts_with_append [OF assms(2), of t] by blast
  moreover have "\<exists>w. take ?n (t @ u) = t @ w"
    using position_later [OF None] by (cases "position (\<lambda>b. \<not> digit_or_semicolon b) (t @ u)") auto
  ultimately have "\<not> plausible_sgr_mouse_prefix (p @ take ?n (t @ u))" by auto
  with bad None show ?thesis unfolding classify_inspected_def Let_def by simp
qed

lemma classify_append:
  assumes "classify_sgr_mouse_continuation p b \<noteq> ContinuationIncomplete" "starts_with p (CSI @ ''<'')"
  shows "classify_sgr_mouse_continuation p (b @ x) = classify_sgr_mouse_continuation p b"
proof (cases "length (p @ b) < 128")
  case True
  then have "take (min (length b) (128 - length p)) b = b"
    "take (min (length (b @ x)) (128 - length p)) (b @ x) = b @ take (128 - length p - length b) x"
    by (auto simp: min_def)
  with assms classify_inspected_append [OF _ assms(2) True, of "take (128 - length p - length b) x"] show ?thesis
    by (simp only: classify_sgr_mouse_continuation_def MAX_DISCARDED_CONTROL_TAIL_BYTES_def Let_def not_False_eq_True simp_thms)
next
  case False
  then have "take (min (length (b @ x)) (128 - length p)) (b @ x) = take (min (length b) (128 - length p)) b" by simp
  then show ?thesis
    by (simp only: classify_sgr_mouse_continuation_def MAX_DISCARDED_CONTROL_TAIL_BYTES_def Let_def)
qed

lemma classify_complete: "classify_sgr_mouse_continuation p b = ContinuationComplete n \<Longrightarrow> 0 < n \<and> n \<le> length b"
  by (auto simp: classify_sgr_mouse_continuation_def classify_inspected_def Let_def dest!: position_bound
      split: option.splits if_splits)

text \<open>A round of the loop with more bytes behind. The framer is \<open>steady\<close> when it did not just emit a lone
  escape, and the prefix of a mouse report it discarded is one.\<close>

definition steady :: "framer \<Rightarrow> bool" where
  "steady s \<longleftrightarrow> \<not> lone_escape_recently_flushed s \<and>
     (case timed_out_mouse_prefix s of None \<Rightarrow> True | Some p \<Rightarrow> starts_with p (CSI @ ''<''))"

lemma discard_step_feed:
  assumes "discard_until s = Some family"
  shows "discard_step family s = Continues cs t \<Longrightarrow> discard_step family (feed s x) = Continues cs (feed t x)"
    and "discard_step family s = Breaks t \<Longrightarrow>
      discard_until t = Some family \<and> timed_out_mouse_prefix t = timed_out_mouse_prefix s \<and>
      lone_escape_recently_flushed t = lone_escape_recently_flushed s \<and>
      discard_step family (feed s x) = discard_step family (feed t x)"
    and "discard_step family s \<noteq> Panics"
proof -
  obtain ended buf d where tail: "discard_host_reply_csi_tail (fr_buffer s) (discarded_tail_bytes s) = (ended, buf, d)"
    using prod_cases3 by blast
  show "discard_step family s \<noteq> Panics"
    by (auto simp: discard_step_def split: prod.split option.split)
  show "discard_step family (feed s x) = Continues cs (feed t x)" if "discard_step family s = Continues cs t"
  proof (cases "family = HostReplyCsi")
    case True
    with that tail csi_tail_end [of "fr_buffer s" "discarded_tail_bytes s" buf d x] show ?thesis
      by (auto simp: discard_step_def feed_def split: if_splits)
  next
    case False
    with that show ?thesis
      by (auto simp: discard_step_def feed_def terminator_append dest: terminator_bound split: option.splits)
  qed
  show "discard_until t = Some family \<and> timed_out_mouse_prefix t = timed_out_mouse_prefix s \<and>
      lone_escape_recently_flushed t = lone_escape_recently_flushed s \<and>
      discard_step family (feed s x) = discard_step family (feed t x)" if "discard_step family s = Breaks t"
  proof (cases "family = HostReplyCsi")
    case True
    with that tail have t: "t = s\<lparr>fr_buffer := buf, discarded_tail_bytes := d\<rparr>" and "\<not> ended"
      by (auto simp: discard_step_def split: if_splits)
    with csi_tail_parts [of "fr_buffer s" "discarded_tail_bytes s" buf d x] tail
    have "buf = []" and same: "tail_left (discard_host_reply_csi_tail (fr_buffer s @ x) (discarded_tail_bytes s)) =
        tail_left (discard_host_reply_csi_tail x d)" by auto
    with assms True t show ?thesis
      by (auto simp: discard_step_def feed_def tail_left_def split: prod.splits if_splits)
  next
    case False
    with that assms show ?thesis by (auto simp: discard_step_def split: option.splits)
  qed
qed

lemma event_step_feed:
  shows "event_step up s = Continues cs t \<Longrightarrow> event_step up (feed s x) = Continues cs (feed t x)"
    and "event_step up s = Panics \<Longrightarrow> event_step up (feed s x) = Panics"
proof -
  show "event_step up (feed s x) = Continues cs (feed t x)" if *: "event_step up s = Continues cs t"
  proof (cases "discard_until s")
    case None
    show ?thesis
    proof (cases "split_coalesced_escape s \<and> starts_with (fr_buffer s) [ESC, ESC]")
      case True
      then have "drop 1 (fr_buffer s @ x) = drop 1 (fr_buffer s) @ x" "starts_with (fr_buffer s @ x) [ESC, ESC]"
        using starts_with_length [of "fr_buffer s" "[ESC, ESC]"] by (simp_all add: starts_with_append)
      with * None True show ?thesis by (auto simp: event_step_def feed_def)
    next
      case False
      with * None obtain event n where event: "extract_one_event up (fr_buffer s) = Some (Some (event, n))"
        by (auto simp: event_step_def split: option.splits if_splits)
      then have "\<not> (split_coalesced_escape s \<and> starts_with (fr_buffer s @ x) [ESC, ESC])"
        using False starts_with_long [of "[ESC, ESC]" "fr_buffer s" x] extract_bound [OF event]
        by (cases "fr_buffer s"; cases "tl (fr_buffer s)") (auto simp: extract_one_event_def BRACKETED_PASTE_START_def CSI_def starts_with_def)
      with * None False event extract_append [of up "fr_buffer s" x] extract_bound [OF event] show ?thesis
        by (auto simp: event_step_def feed_def note_event_buffer)
    qed
  next
    case (Some family)
    with * discard_step_feed(1) [OF Some] show ?thesis by (simp add: event_step_def)
  qed
  show "event_step up (feed s x) = Panics" if *: "event_step up s = Panics"
  proof (cases "discard_until s")
    case None
    with * have panic: "extract_one_event up (fr_buffer s) = None"
      and one: "\<not> (split_coalesced_escape s \<and> starts_with (fr_buffer s) [ESC, ESC])"
      by (auto simp: event_step_def split: option.splits if_splits)
    then have "\<not> (split_coalesced_escape s \<and> starts_with (fr_buffer s @ x) [ESC, ESC])"
      using starts_with_long [of "[ESC, ESC]" "fr_buffer s" x]
      by (cases "fr_buffer s"; cases "tl (fr_buffer s)")
        (auto simp: extract_one_event_def BRACKETED_PASTE_START_def CSI_def starts_with_def split: if_splits)
    with None panic extract_append [of up "fr_buffer s" x] show ?thesis by (simp add: event_step_def)
  next
    case (Some family)
    with * discard_step_feed(3) [OF Some] show ?thesis by (simp add: event_step_def)
  qed
qed

lemma steady_step: "steady s \<Longrightarrow> drain_step up s = (case timed_out_mouse_prefix s of
    None \<Rightarrow> event_step up s
  | Some prefix \<Rightarrow>
      (case classify_sgr_mouse_continuation prefix (fr_buffer s) of
         ContinuationIncomplete \<Rightarrow> Breaks s
       | ContinuationComplete len \<Rightarrow> event_step up (s\<lparr>fr_buffer := drop len (fr_buffer s), timed_out_mouse_prefix := None\<rparr>)
       | ContinuationInvalid \<Rightarrow> event_step up (s\<lparr>timed_out_mouse_prefix := None\<rparr>)))"
  by (simp add: steady_def drain_step_def orphan_step_def split: option.split SgrMouseContinuation.split)

lemma steady_feed [simp]: "steady (feed s x) = steady s"
  by (simp add: steady_def)

text \<open>The state in which a round starts on its event: behind a report that it has classified.\<close>

definition round_start :: "framer \<Rightarrow> framer option" where
  "round_start s =
     (case timed_out_mouse_prefix s of
        None \<Rightarrow> Some s
      | Some prefix \<Rightarrow>
          (case classify_sgr_mouse_continuation prefix (fr_buffer s) of
             ContinuationIncomplete \<Rightarrow> None
           | ContinuationComplete len \<Rightarrow> Some (s\<lparr>fr_buffer := drop len (fr_buffer s), timed_out_mouse_prefix := None\<rparr>)
           | ContinuationInvalid \<Rightarrow> Some (s\<lparr>timed_out_mouse_prefix := None\<rparr>)))"

lemma round_step:
  "steady s \<Longrightarrow> drain_step up s = (case round_start s of None \<Rightarrow> Breaks s | Some t \<Rightarrow> event_step up t)"
  by (simp add: steady_step round_start_def split: option.split SgrMouseContinuation.split)

lemma round_start_steady:
  "round_start s = Some t \<Longrightarrow> steady s \<Longrightarrow> steady t \<and> timed_out_mouse_prefix t = None"
  by (auto simp: round_start_def steady_def split: option.splits SgrMouseContinuation.splits)

lemma round_start_feed:
  assumes "round_start s = Some t" "steady s"
  shows "round_start (feed s x) = Some (feed t x)"
proof (cases "timed_out_mouse_prefix s")
  case (Some p)
  with assms classify_append [of p "fr_buffer s" x] show ?thesis
    by (auto simp: round_start_def steady_def feed_def dest: classify_complete split: SgrMouseContinuation.splits)
qed (use assms in \<open>simp add: round_start_def\<close>)

lemma event_step_keeps:
  "event_step up s = Continues cs t \<Longrightarrow>
     timed_out_mouse_prefix t = timed_out_mouse_prefix s \<and> lone_escape_recently_flushed t = lone_escape_recently_flushed s"
  by (auto simp: event_step_def discard_step_def split: option.splits if_splits prod.splits)

lemma event_step_breaks:
  assumes "event_step up s = Breaks t"
  shows "timed_out_mouse_prefix t = timed_out_mouse_prefix s \<and>
    lone_escape_recently_flushed t = lone_escape_recently_flushed s \<and> event_step up (feed s x) = event_step up (feed t x)"
proof (cases "discard_until s")
  case None
  with assms have "t = s" by (auto simp: event_step_def split: option.splits if_splits)
  then show ?thesis by simp
next
  case (Some family)
  with assms discard_step_feed(2) [OF Some, of t x] show ?thesis by (simp add: event_step_def)
qed

interpretation framing: chunked_input "drain_step up" "drain_available_chunks up" feed steady drain_measure for up
proof
  fix s t :: framer and cs x
  show "drain_available_chunks up s = (case drain_step up s of Panics \<Rightarrow> None | Breaks t \<Rightarrow> Some ([], t)
      | Continues os t \<Rightarrow> emit os (drain_available_chunks up t))"
    by (rule drain_available_chunks.simps)
  show "drain_measure t < drain_measure s" if "drain_step up s = Continues cs t"
    using that by (rule drain_step_shrinks)
  show "steady t" if "steady s" "drain_step up s = Continues cs t"
    using that by (auto simp: round_step steady_def dest!: event_step_keeps dest: round_start_steady split: option.splits)
  show "steady t" if "steady s" "drain_step up s = Breaks t"
    using that event_step_breaks by (auto simp: round_step steady_def dest: round_start_steady split: option.splits)
  show "drain_step up (feed s x) = Panics" if "steady s" "drain_step up s = Panics"
    using that by (auto simp: round_step round_start_feed event_step_feed split: option.splits)
  show "drain_step up (feed s x) = Continues cs (feed t x)" if "steady s" "drain_step up s = Continues cs t"
    using that by (auto simp: round_step round_start_feed event_step_feed split: option.splits)
  show "drain_available_chunks up (feed s x) = drain_available_chunks up (feed t x)"
    if steady: "steady s" and breaks: "drain_step up s = Breaks t"
  proof (cases "round_start s")
    case None
    with steady breaks show ?thesis by (simp add: round_step)
  next
    case (Some r)
    with steady breaks have r: "event_step up r = Breaks t" by (simp add: round_step)
    have "steady t" "timed_out_mouse_prefix t = None"
      using event_step_breaks [OF r] round_start_steady [OF Some steady] by (auto simp: steady_def)
    then have "drain_step up (feed t x) = event_step up (feed t x)" by (simp add: steady_step)
    moreover have "drain_step up (feed s x) = event_step up (feed r x)"
      using round_start_feed [OF Some steady] steady by (simp add: round_step)
    ultimately have "drain_step up (feed s x) = drain_step up (feed t x)" using event_step_breaks [OF r] by simp
    then show ?thesis
      unfolding drain_available_chunks.simps [of up "feed s x"] drain_available_chunks.simps [of up "feed t x"] by (rule arg_cong)
  qed
qed

text \<open>The state a round goes on with or stops in.\<close>

definition next_state :: "(framer, string) loop_step \<Rightarrow> framer option" where
  "next_state r = (case r of Panics \<Rightarrow> None | Breaks t \<Rightarrow> Some t | Continues _ t \<Rightarrow> Some t)"

definition settings :: "framer \<Rightarrow> nat option \<times> bool" where
  "settings s = (awaiting_mouse_tail_after s, split_coalesced_escape s)"

lemma settings_buffer [simp]:
  "settings (s\<lparr>fr_buffer := b\<rparr>) = settings s" "settings (s\<lparr>timed_out_mouse_prefix := p\<rparr>) = settings s"
  "settings (s\<lparr>lone_escape_recently_flushed := l\<rparr>) = settings s" "settings (s\<lparr>held_pending_host_reply_esc := h\<rparr>) = settings s"
  "settings (s\<lparr>discard_until := f\<rparr>) = settings s" "settings (s\<lparr>discarded_tail_bytes := d\<rparr>) = settings s"
  "settings (note_event event s) = settings s"
  by (simp_all add: settings_def)

lemma discard_step_settings: "next_state (discard_step family s) = Some t \<Longrightarrow> settings t = settings s"
  by (auto simp: discard_step_def next_state_def split: option.splits if_splits prod.splits)

lemma event_step_settings: "next_state (event_step up s) = Some t \<Longrightarrow> settings t = settings s"
  by (cases "discard_until s")
    (auto simp: event_step_def discard_step_settings, auto simp: next_state_def split: option.splits if_splits)

lemma orphan_step_settings: "next_state (orphan_step up s) = Some t \<Longrightarrow> settings t = settings s"
  by (auto simp: orphan_step_def split: option.splits if_splits dest!: event_step_settings)
    (auto simp: next_state_def)

lemma drain_step_settings: "next_state (drain_step up s) = Some t \<Longrightarrow> settings t = settings s"
  by (auto simp: drain_step_def split: option.splits SgrMouseContinuation.splits dest!: orphan_step_settings)
    (auto simp: next_state_def)

lemma drain_settings: "drain_available_chunks up s = Some (chunks, t) \<Longrightarrow> settings t = settings s"
proof (induction s arbitrary: chunks rule: framing.run_induct [of up])
  case (step s)
  show ?case
  proof (cases "drain_step up s")
    case (Continues cs u)
    then obtain ds where "drain_available_chunks up u = Some (ds, t)"
      using step.prems by (auto simp: drain_available_chunks.simps [of up s] emit_def)
    then have "settings t = settings u" using step.IH Continues by blast
    with Continues drain_step_settings [of up s u] show ?thesis by (simp add: next_state_def)
  qed (use step.prems drain_step_settings [of up s] in \<open>auto simp: drain_available_chunks.simps [of up s] next_state_def\<close>)
qed

text \<open>C14: Cutting the input makes no difference to a framer that has not just emitted a lone escape and does not
  hold a prefix over an idle interval: pushing two parts gives the chunks, the state and the panic of
  pushing them at once, wherever the cut is: in an escape sequence, a paste, a character, the tail
  of a report that is being discarded.\<close>

theorem push_in_parts:
  assumes "steady s" "awaiting_mouse_tail_after s = None"
  shows "byte_push up s (a @ b) =
    (case byte_push up s a of None \<Rightarrow> None | Some (chunks, t) \<Rightarrow> emit chunks (byte_push up t b))"
proof -
  have calm: "awaiting_mouse_tail_after t = None" if "drain_available_chunks up (feed s a) = Some (chunks, t)" for chunks t
    using drain_settings [OF that] assms(2) by (simp add: settings_def)
  have "drain_available_chunks up (feed (feed s a) b) =
      (case drain_available_chunks up (feed s a) of None \<Rightarrow> None | Some (chunks, t) \<Rightarrow> emit chunks (drain_available_chunks up (feed t b)))"
    using framing.run_give [of "feed s a" up b] assms(1) by simp
  then show ?thesis
    using assms(2) calm by (simp add: byte_push_def split: option.split)
qed

theorem push_in_parts_witness:
  "byte_push (\<lambda>_. False) (with_host_input_policy False) (CSI @ ''2'' @ ''00~a'') =
    (case byte_push (\<lambda>_. False) (with_host_input_policy False) (CSI @ ''2'') of None \<Rightarrow> None
     | Some (chunks, t) \<Rightarrow> emit chunks (byte_push (\<lambda>_. False) t ''00~a''))"
proof -
  have "steady (with_host_input_policy False)" "awaiting_mouse_tail_after (with_host_input_policy False) = None"
    by (simp_all add: steady_def with_host_input_policy_def default_framer_def)
  from push_in_parts [OF this, of _ "CSI @ ''2''" "''00~a''"] show ?thesis by simp
qed

section \<open>No byte and no chunk is lost\<close>

text \<open>A framer that is not discarding anything.\<close>

definition clean :: "framer \<Rightarrow> bool" where
  "clean s \<longleftrightarrow> discard_until s = None \<and> timed_out_mouse_prefix s = None \<and> \<not> lone_escape_recently_flushed s"

lemma clean_step: "clean s \<Longrightarrow> drain_step up s = event_step up s"
  by (simp add: clean_def drain_step_def orphan_step_def)

lemma clean_continues:
  assumes "clean s" "drain_step up s = Continues cs t"
  shows "clean t \<and> concat cs @ fr_buffer t = fr_buffer s"
proof -
  have step: "event_step up s = Continues cs t" using assms by (simp add: clean_step)
  show ?thesis
  proof (cases "split_coalesced_escape s \<and> starts_with (fr_buffer s) [ESC, ESC]")
    case True
    with step assms(1) show ?thesis
      by (cases "fr_buffer s") (auto simp: event_step_def clean_def starts_with_def)
  next
    case False
    with step assms(1) show ?thesis
      by (auto simp: event_step_def clean_def split: option.splits)
  qed
qed

lemma clean_breaks: "clean s \<Longrightarrow> drain_step up s = Breaks t \<Longrightarrow> t = s"
  by (auto simp: clean_step event_step_def clean_def split: option.splits if_splits)

lemma drain_keeps_bytes:
  "clean s \<Longrightarrow> drain_available_chunks up s = Some (chunks, t) \<Longrightarrow> clean t \<and> concat chunks @ fr_buffer t = fr_buffer s"
proof (induction s arbitrary: chunks rule: framing.run_induct [of up])
  case (step s)
  show ?case
  proof (cases "drain_step up s")
    case (Continues cs u)
    then obtain ds where ds: "drain_available_chunks up u = Some (ds, t)" "chunks = cs @ ds"
      using step.prems by (auto simp: drain_available_chunks.simps [of up s] emit_def)
    note u = clean_continues [OF step.prems(1) Continues]
    then have "clean t \<and> concat ds @ fr_buffer t = fr_buffer u" using step.IH Continues ds by blast
    with u ds show ?thesis by simp
  qed (use step.prems clean_breaks in \<open>auto simp: drain_available_chunks.simps [of up s]\<close>)
qed

text \<open>C16: A framer that is not discarding anything loses no byte and moves none: the chunks a push emits and
  what is left in the buffer are the bytes that were in the buffer and the bytes pushed, and it is
  still not discarding anything.\<close>

theorem push_keeps_bytes:
  assumes "clean s" "awaiting_mouse_tail_after s = None" "byte_push up s data = Some (chunks, t)"
  shows "clean t \<and> concat chunks @ fr_buffer t = fr_buffer s @ data"
  using drain_keeps_bytes [of "feed s data" up chunks t] assms by (simp add: byte_push_def clean_def)

theorem push_keeps_bytes_witness:
  "\<exists>chunks t. byte_push (\<lambda>_. False) default_framer (CSI @ ''Ia'') = Some (chunks, t) \<and>
    concat chunks @ fr_buffer t = CSI @ ''Ia''"
proof -
  have "byte_push (\<lambda>_. False) default_framer (CSI @ ''Ia'') \<noteq> None" by code_simp
  then obtain chunks t where push: "byte_push (\<lambda>_. False) default_framer (CSI @ ''Ia'') = Some (chunks, t)" by auto
  have "clean default_framer" "awaiting_mouse_tail_after default_framer = None"
    by (simp_all add: clean_def default_framer_def)
  from push_keeps_bytes [OF this push] push show ?thesis by (auto simp: default_framer_def)
qed

text \<open>A chunk that the parser of events reads back as one event.\<close>

definition is_event_chunk :: "(u32 \<Rightarrow> bool) \<Rightarrow> string \<Rightarrow> bool" where
  "is_event_chunk up chunk \<longleftrightarrow> chunk = [ESC] \<or> (\<exists>event. extract_one_event up chunk = Some (Some (event, length chunk)))"

lemma event_step_chunks:
  assumes "split_coalesced_escape s" "event_step up s = Continues cs t"
  shows "\<forall>c \<in> set cs. is_event_chunk up c"
proof (cases "discard_until s")
  case None
  show ?thesis
  proof (cases "starts_with (fr_buffer s) [ESC, ESC]")
    case True
    with assms None show ?thesis by (auto simp: event_step_def is_event_chunk_def)
  next
    case False
    with assms None obtain event n where event: "extract_one_event up (fr_buffer s) = Some (Some (event, n))"
      and cs: "cs = [take n (fr_buffer s)]"
      by (auto simp: event_step_def split: option.splits)
    with extract_take [OF event False] extract_bound [OF event] show ?thesis by (simp add: is_event_chunk_def)
  qed
qed (use assms in \<open>auto simp: event_step_def discard_step_def split: if_splits prod.splits option.splits\<close>)

lemma drain_step_chunks:
  "split_coalesced_escape s \<Longrightarrow> drain_step up s = Continues cs t \<Longrightarrow> \<forall>c \<in> set cs. is_event_chunk up c"
  by (auto simp: drain_step_def orphan_step_def dest!: event_step_chunks [rotated]
      split: option.splits if_splits SgrMouseContinuation.splits)

lemma drain_chunks:
  "split_coalesced_escape s \<Longrightarrow> drain_available_chunks up s = Some (chunks, t) \<Longrightarrow> \<forall>c \<in> set chunks. is_event_chunk up c"
proof (induction s arbitrary: chunks rule: framing.run_induct [of up])
  case (step s)
  show ?case
  proof (cases "drain_step up s")
    case (Continues cs u)
    then obtain ds where ds: "drain_available_chunks up u = Some (ds, t)" "chunks = cs @ ds"
      using step.prems by (auto simp: drain_available_chunks.simps [of up s] emit_def)
    have "split_coalesced_escape u"
      using drain_step_settings [of up s u] Continues step.prems(1) by (simp add: next_state_def settings_def)
    then have "\<forall>c \<in> set ds. is_event_chunk up c" using step.IH Continues ds by blast
    with ds drain_step_chunks [OF step.prems(1) Continues] show ?thesis by auto
  qed (use step.prems in \<open>auto simp: drain_available_chunks.simps [of up s]\<close>)
qed

lemma chunk_events:
  "\<forall>c \<in> set chunks. is_event_chunk up c \<Longrightarrow> \<exists>events. events_from_chunks up chunks = Some events \<and> length events = length chunks"
  by (induction chunks) (auto simp: is_event_chunk_def)



end
