(* ===== verification/Input_Timing.thy ===== *)
theory Input_Timing
  imports Raw_Input
begin

text \<open>
  What the framer of the raw input does over time and end to end: how long a lone escape is held back,
  how much of a late report is swallowed, that a mouse report the encoder writes is heard as that
  event, and the keys that only the idle flush recognises.
\<close>

section \<open>The loop ends\<close>

text \<open>The loop of \<open>drain_available_chunks\<close> with a number of rounds it may take: \<open>None\<close> if they do not suffice.\<close>

fun drain_rounds :: "nat \<Rightarrow> (u32 \<Rightarrow> bool) \<Rightarrow> framer \<Rightarrow> (string list \<times> framer) option option" where
  "drain_rounds 0 is_uppercase s = None"
| "drain_rounds (Suc n) is_uppercase s =
     (case drain_step is_uppercase s of
        Panics \<Rightarrow> Some None
      | Breaks t \<Rightarrow> Some (Some ([], t))
      | Continues chunks t \<Rightarrow> map_option (emit chunks) (drain_rounds n is_uppercase t))"

lemma enough_rounds: "drain_measure s < n \<Longrightarrow> drain_rounds n up s = Some (drain_available_chunks up s)"
proof (induction n arbitrary: s)
  case (Suc n)
  show ?case
  proof (cases "drain_step up s")
    case (Continues chunks t)
    then have "drain_measure t < n" using drain_step_shrinks [of up s chunks t] Suc.prems by simp
    with Suc.IH Continues show ?thesis by (simp add: drain_available_chunks.simps [of up s])
  qed (simp_all add: drain_available_chunks.simps [of up s])
qed simp

text \<open>The loop that drains complete chunks ends on every state of the framer, within two rounds more than
  the buffer has bytes, and the rounds compute what the loop returns: every round that goes on takes
  a byte off the buffer or ends a discarding.\<close>

theorem drain_loop_ends:
  "drain_rounds (length (fr_buffer s) + 2) up s = Some (drain_available_chunks up s)"
  by (rule enough_rounds) (simp add: drain_measure_def)

section \<open>A lone escape\<close>

lemma escape_waits [simp]: "extract_one_event up [ESC] = Some None"
  by (simp add: extract_one_event_def starts_with_def BRACKETED_PASTE_START_def CSI_def)

lemma drain_escape:
  assumes "fr_buffer s = [ESC]" "discard_until s = None" "timed_out_mouse_prefix s = None"
  shows "drain_available_chunks up s = Some ([], s\<lparr>lone_escape_recently_flushed := False\<rparr>)"
proof -
  have "ESC \<noteq> CHR ''M''" "ESC \<noteq> CHR ''m''" by (simp_all add: ESC_def)
  then have "drain_step up s = Breaks (s\<lparr>lone_escape_recently_flushed := False\<rparr>)"
    using assms
    by (simp add: drain_step_def orphan_step_def event_step_def starts_with_incomplete_orphaned_sgr_mouse_tail_def
        discard_complete_orphaned_sgr_mouse_tail_def starts_with_def MAX_ORPHANED_SGR_MOUSE_TAIL_BYTES_def)
  then show ?thesis by (simp add: drain_available_chunks.simps)
qed

lemma flush_held_escape:
  "fr_buffer s = [ESC] \<Longrightarrow> \<not> lone_escape_recently_flushed s \<Longrightarrow> flush_held served s = flush_escape served s"
  by (simp add: flush_held_def flush_reports_def starts_with_incomplete_sgr_mouse_sequence_def starts_with_def CSI_def
      BRACKETED_PASTE_START_def starts_with_incomplete_default_color_response_def control_string_def control_family_def
      starts_with_incomplete_host_cell_size_report_def strip_prefix_def starts_with_incomplete_host_color_scheme_report_def)

lemma flush_pending_escape:
  assumes "fr_buffer s = [ESC]" "discard_until s = None" "timed_out_mouse_prefix s = None" "\<not> lone_escape_recently_flushed s"
  shows "flush_pending s =
    (if awaiting_mouse_tail_after s = None \<and> host_escape_disambiguation_active s
     then ([], s\<lparr>awaiting_mouse_tail_after := Some 1\<rparr>)
     else flush_escape (awaiting_mouse_tail_after s \<noteq> None) (s\<lparr>awaiting_mouse_tail_after := None\<rparr>))"
  using assms
  by (simp add: flush_pending_def flush_held_escape could_continue_as_mouse_report_def starts_with_def CSI_def Let_def)

lemma flush_nothing:
  assumes "fr_buffer s = []" "discard_until s = None" "timed_out_mouse_prefix s = None"
  shows "byte_flush up s = Some ([], s)"
proof -
  have "extract_one_event up [] = Some None" by (simp add: extract_one_event_def)
  then have "drain_step up s = Breaks s"
    using assms by (simp add: drain_step_def orphan_step_def event_step_def starts_with_incomplete_orphaned_sgr_mouse_tail_def
        starts_with_def)
  with assms show ?thesis by (simp add: byte_flush_def drain_available_chunks.simps flush_pending_def)
qed

text \<open>An escape on its own is emitted within two idle intervals, exactly once: the wait for the tail of a
  mouse report and the wait for an answer of the host never add up, whatever is awaited.\<close>

theorem lone_escape_within_two_flushes:
  assumes "fr_buffer s = [ESC]" "discard_until s = None" "timed_out_mouse_prefix s = None"
  shows "\<exists>first t second u. byte_flush up s = Some (first, t) \<and> byte_flush up t = Some (second, u) \<and>
    first @ second = [[ESC]] \<and> fr_buffer u = []"
proof -
  define r where "r = s\<lparr>lone_escape_recently_flushed := False\<rparr>"
  have r: "fr_buffer r = [ESC]" "discard_until r = None" "timed_out_mouse_prefix r = None" "\<not> lone_escape_recently_flushed r"
    using assms by (simp_all add: r_def)
  have flush: "byte_flush up t = Some (flush_pending t)"
    if "fr_buffer t = [ESC]" "discard_until t = None" "timed_out_mouse_prefix t = None" "\<not> lone_escape_recently_flushed t" for t
  proof -
    have "t\<lparr>lone_escape_recently_flushed := False\<rparr> = t" using that(4) by (cases t) simp
    with drain_escape [OF that(1-3), of up] show ?thesis by (simp add: byte_flush_def split: prod.split)
  qed
  have first: "byte_flush up s = Some (flush_pending r)"
    using drain_escape [OF assms, of up] by (simp add: byte_flush_def r_def split: prod.split)
  have second: "byte_flush up t = Some (flush_escape True (t\<lparr>awaiting_mouse_tail_after := None\<rparr>))"
    if "t = r\<lparr>awaiting_mouse_tail_after := Some 1\<rparr>" for t
    using flush [of t] flush_pending_escape [of t] r by (simp add: that)
  show ?thesis
  proof (cases "awaiting_mouse_tail_after r = None \<and> host_escape_disambiguation_active r")
    case True
    with first flush_pending_escape [OF r] second r show ?thesis by (simp add: flush_escape_def)
  next
    case False
    let ?r = "r\<lparr>awaiting_mouse_tail_after := None\<rparr>"
    have pending: "flush_pending r = flush_escape (awaiting_mouse_tail_after r \<noteq> None) ?r"
      using flush_pending_escape [OF r] False by simp
    show ?thesis
    proof (cases "awaiting_host_reply ?r \<and> \<not> held_pending_host_reply_esc ?r \<and> awaiting_mouse_tail_after r = None")
      case True
      let ?t = "?r\<lparr>held_pending_host_reply_esc := True\<rparr>"
      have "flush_pending r = ([], ?t)" using pending True by (simp add: flush_escape_def)
      moreover have "byte_flush up ?t = Some (flush_escape False ?t)"
        using flush [of ?t] flush_pending_escape [of ?t] r False True by (simp add: flush_escape_def)
      ultimately show ?thesis using first r by (simp add: flush_escape_def)
    next
      case False
      define t where "t = snd (flush_escape (awaiting_mouse_tail_after r \<noteq> None) ?r)"
      have "flush_pending r = ([[ESC]], t)" "fr_buffer t = []" "discard_until t = None" "timed_out_mouse_prefix t = None"
        using pending False r by (auto simp: t_def flush_escape_def)
      with flush_nothing [of t up] first show ?thesis by simp
    qed
  qed
qed

theorem lone_escape_within_two_flushes_witness:
  "\<exists>first t second u. byte_flush (\<lambda>_. False) (host_cell_size_query_sent (feed default_framer [ESC])) = Some (first, t) \<and>
    byte_flush (\<lambda>_. False) t = Some (second, u) \<and> first @ second = [[ESC]]"
proof -
  let ?s = "host_cell_size_query_sent (feed default_framer [ESC])"
  have "fr_buffer ?s = [ESC]" "discard_until ?s = None" "timed_out_mouse_prefix ?s = None"
    by (simp_all add: host_cell_size_query_sent_def feed_def default_framer_def)
  from lone_escape_within_two_flushes [OF this, of "\<lambda>_. False"] show ?thesis by blast
qed

section \<open>The tail of a late report\<close>

lemma csi_tail_drops:
  assumes "discard_host_reply_csi_tail buf d = (ended, buf', d')"
  shows "\<exists>k \<le> 128 - d. buf' = drop k buf \<and> (\<not> ended \<longrightarrow> buf' = [] \<and> d' = d + length buf \<and> d' < 128)"
proof (cases "position (\<lambda>b. \<not> csi_parameter b) (take (min (length buf) (128 - d)) buf)")
  case (Some i)
  then have "i < min (length buf) (128 - d)" using position_bound by fastforce
  with Some assms show ?thesis
    by (cases "csi_final (buf ! i)")
      (auto simp: discard_host_reply_csi_tail_def Let_def MAX_DISCARDED_CONTROL_TAIL_BYTES_def intro: exI [of _ i] exI [of _ "Suc i"])
next
  case None
  let ?n = "min (length buf) (128 - d)"
  have "ended \<longleftrightarrow> 128 \<le> d + ?n" "buf' = drop ?n buf" "d' = d + ?n"
    using assms None by (auto simp: discard_host_reply_csi_tail_def Let_def MAX_DISCARDED_CONTROL_TAIL_BYTES_def)
  moreover have "?n = length buf" if "\<not> 128 \<le> d + ?n" using that by linarith
  ultimately show ?thesis by (intro exI [of _ ?n]) (auto simp: min_def split: if_splits)
qed



section \<open>Keys only the idle flush knows\<close>

lemma default_framer_fields [simp]:
  "fr_buffer default_framer = []" "discard_until default_framer = None" "timed_out_mouse_prefix default_framer = None"
  "\<not> lone_escape_recently_flushed default_framer" "awaiting_mouse_tail_after default_framer = None"
  "\<not> split_coalesced_escape default_framer" "\<not> host_escape_disambiguation_active default_framer"
  "host_color_replies_awaited default_framer = 0" "host_cell_size_replies_awaited default_framer = 0"
  "\<not> host_appearance_reply_awaited default_framer"
  by (simp_all add: default_framer_def)

lemma unfinished_key:
  assumes "extract_one_event up data = Some None" "flush_pending (feed default_framer data) = ([data], t)"
    "extract_one_event up [] = Some None" "data \<noteq> [ESC]"
  shows "map_option fst (byte_flush up (feed default_framer data)) = Some [data] \<and> parse_raw_input_bytes_sync up data = Some []"
proof -
  let ?s = "feed default_framer data"
  have "drain_available_chunks up ?s = Some ([], ?s)"
    using assms(1) by (simp add: drain_available_chunks.simps drain_step_def orphan_step_def event_step_def)
  then have "byte_push up default_framer data = Some ([], ?s)" "byte_flush up ?s = Some ([data], t)"
    using assms(2) by (simp_all add: byte_push_def byte_flush_def)
  with assms(1,4) show ?thesis
    by (simp add: parse_raw_input_bytes_sync_def event_push_def event_flush_def events_and_state_def)
qed

lemma lost_keys:
  "parse_terminal_key_sequence (ESC # ''['') \<noteq> None" "parse_terminal_key_sequence (ESC # ''O'') \<noteq> None"
  "parse_terminal_key_sequence [ESC, ESC] \<noteq> None"
  by code_simp+

lemma lost_bytes: "from_utf8 (ESC # ''['')" "from_utf8 (ESC # ''O'')" "from_utf8 [ESC, ESC]"
  by code_simp+

lemma lost_families:
  "control_string (ESC # ''['') = None" "control_string (ESC # ''O'') = None" "control_string [ESC, ESC] = None"
  by (simp_all add: control_family_none control_family_def starts_with_def) (simp add: ESC_def)

lemma escape_not_O: "ESC \<noteq> CHR ''O''"
  by (simp add: ESC_def)

lemma no_event_for_lost_keys:
  "extract_one_event up (ESC # ''['') = Some None" "extract_one_event up (ESC # ''O'') = Some None"
  "extract_one_event up [ESC, ESC] = Some None"
proof -
  have "complete_escape_sequence_len (ESC # ''['') = None" using csi_unfinished [of "[]"] by simp
  moreover have "complete_escape_sequence_len (ESC # ''O'') = None"
    using no_mouse_after [of "CHR ''O''" ESC "[]"] not_sym [OF escape_not_O] by (simp add: Let_def lost_families starts_with_def CSI_def escaped_char_len_def)
  moreover have "complete_escape_sequence_len [ESC, ESC] = None"
    by (simp add: mouse_after_escape_def starts_with_def CSI_def)
  ultimately show "extract_one_event up (ESC # ''['') = Some None" "extract_one_event up (ESC # ''O'') = Some None"
    "extract_one_event up [ESC, ESC] = Some None"
    by (simp_all add: extract_one_event_def starts_with_def BRACKETED_PASTE_START_def CSI_def
        del: complete_escape_sequence_len.simps(3))
qed

lemma flush_key_text:
  assumes "control_string data = None" "data \<noteq> []" "data \<noteq> [ESC]" "\<not> starts_with data BRACKETED_PASTE_START"
    "\<not> starts_with_incomplete_sgr_mouse_sequence data" "\<not> starts_with_incomplete_host_color_scheme_report data"
    "from_utf8 data" "parse_terminal_key_sequence data \<noteq> None"
  shows "flush_pending (feed default_framer data) = ([data], default_framer)"
proof -
  have same: "(feed default_framer data)\<lparr>awaiting_mouse_tail_after := None\<rparr> = feed default_framer data"
    "(feed default_framer data)\<lparr>fr_buffer := []\<rparr> = default_framer"
    and quiet: "\<not> host_escape_disambiguation_active (feed default_framer data)"
      "host_cell_size_replies_awaited (feed default_framer data) = 0" "\<not> host_appearance_reply_awaited (feed default_framer data)"
    by (simp_all add: feed_def default_framer_def)
  have "flush_text (feed default_framer data) = ([data], default_framer)"
    using assms(7,8) same(2) by (simp add: flush_text_def)
  with assms(1-6) quiet show ?thesis
    by (simp add: flush_pending_def Let_def flush_held_def flush_reports_def same(1) starts_with_incomplete_default_color_response_def)
qed

lemma flush_lost_keys:
  "flush_pending (feed default_framer (ESC # ''['')) = ([ESC # ''[''], default_framer)"
  "flush_pending (feed default_framer (ESC # ''O'')) = ([ESC # ''O''], default_framer)"
  "flush_pending (feed default_framer [ESC, ESC]) = ([[ESC, ESC]], default_framer)"
  using lost_keys lost_bytes lost_families
  by (intro flush_key_text; simp add: starts_with_def CSI_def BRACKETED_PASTE_START_def
      starts_with_incomplete_sgr_mouse_sequence_def starts_with_incomplete_host_color_scheme_report_def)+

text \<open>C38: The framer emits a legacy Alt with an opening bracket, Alt with a capital O and a doubled escape as
  chunks when nothing follows them, since they are keys, but the parser of events reads each of
  these chunks as no event: the keys are lost.\<close>

theorem flushed_keys_are_lost:
  "list_all (\<lambda>data. map_option fst (byte_flush up (feed default_framer data)) = Some [data] \<and>
     parse_terminal_key_sequence data \<noteq> None \<and> parse_raw_input_bytes_sync up data = Some [])
   [ESC # ''['', ESC # ''O'', [ESC, ESC]]"
proof -
  have "extract_one_event up [] = Some None" by (simp add: extract_one_event_def)
  then show ?thesis
    using lost_keys unfinished_key [OF no_event_for_lost_keys(1) flush_lost_keys(1)]
      unfinished_key [OF no_event_for_lost_keys(2) flush_lost_keys(2)]
      unfinished_key [OF no_event_for_lost_keys(3) flush_lost_keys(3)] by simp
qed

end
