(* ===== verification/Mouse_Report.thy ===== *)
theory Mouse_Report
  imports Input_Timing
begin

text \<open>
  Mouse reports both ways: what \<open>src/herdr/src/input/encode.rs\<close> writes for a mouse event in the SGR encoding is
  framed and parsed by \<open>src/herdr/src/raw_input.rs\<close> as the event it was written for.
\<close>

section \<open>A report is heard as it was written\<close>

lemma ascii_utf8: "ascii s \<Longrightarrow> from_utf8 s"
proof (induction s rule: from_utf8.induct)
  case (1 s)
  show ?case
  proof (cases s)
    case (Cons c cs)
    then have first: "first_utf8 s = Utf8Char 1" using 1(2) by (simp add: ascii_def Let_def)
    then have "from_utf8 (drop 1 s)" using 1 Cons by (auto simp: ascii_def)
    then show ?thesis unfolding from_utf8.simps [of s] first by simp
  qed (simp add: from_utf8.simps)
qed

lemma ascii_digits [simp]: "ascii (show_nat n)"
proof -
  have "of_char c < (128 :: nat)" if "c \<in> set (show_nat n)" for c
    using show_nat_digits [of n] that by (auto simp: digit_value_def Let_def split: if_splits)
  then show ?thesis by (simp add: ascii_def list_all_iff)
qed

lemma ascii_append [simp]: "ascii (a @ b) \<longleftrightarrow> ascii a \<and> ascii b" "ascii (c # s) \<longleftrightarrow> of_char c < (128 :: nat) \<and> ascii s" "ascii []"
  by (simp_all add: ascii_def)

definition sgr_report :: "string \<Rightarrow> nat \<Rightarrow> nat \<Rightarrow> bool \<Rightarrow> string" where
  "sgr_report buttons column row release =
     CSI @ ''<'' @ buttons @ '';'' @ show_nat column @ '';'' @ show_nat row @ (if release then ''m'' else ''M'')"

lemma parse_u16_show: "n \<le> 65535 \<Longrightarrow> parse_u16 (show_nat n) = Some n"
  by (simp add: parse_u16_def parse_show)

text \<open>The fields of a report, whatever follows the row.\<close>

lemma parse_sgr_report:
  assumes "CHR '';'' \<notin> set buttons" "parse_u8 buttons = Some cb" "parse_mouse_cb (of_nat cb) = Some (kind, mods)"
    "column < 65535" "row < 65535"
  shows "parse_sgr_mouse (sgr_report buttons (column + 1) (row + 1) release) =
    Some (mouse_event (if release then release_kind kind else kind, mods) column row)"
proof -
  define payload where "payload = buttons @ CHR '';'' # show_nat (column + 1) @ CHR '';'' # show_nat (row + 1)"
  have report: "sgr_report buttons (column + 1) (row + 1) release = (CSI @ ''<'') @ payload @ [if release then CHR ''m'' else CHR ''M'']"
    by (simp add: sgr_report_def payload_def)
  have "split_on (CHR '';'') payload = [buttons, show_nat (column + 1), show_nat (row + 1)]"
    using assms(1) by (simp add: payload_def)
  moreover have "strip_prefix (CSI @ ''<'') (sgr_report buttons (column + 1) (row + 1) release) =
      Some (payload @ [if release then CHR ''m'' else CHR ''M''])"
    unfolding report by (rule strip_prefix_append)
  moreover have "checked_pred (n + 1) = Some n" for n by (simp add: checked_pred_def)
  ultimately show ?thesis
    using assms by (simp add: parse_sgr_mouse_def parse_u16_show del: One_nat_def)
qed

text \<open>The framer takes the whole report as one event.\<close>

lemma sgr_report_length:
  assumes "\<forall>c \<in> set buttons. c \<noteq> CHR ''M'' \<and> c \<noteq> CHR ''m''"
  shows "complete_escape_sequence_len (sgr_report buttons column row release) = Some (length (sgr_report buttons column row release))"
proof -
  define body where "body = CHR ''<'' # buttons @ '';'' @ show_nat column @ '';'' @ show_nat row"
  define final where "final = (if release then CHR ''m'' else CHR ''M'')"
  have report: "sgr_report buttons column row release = ESC # CHR ''['' # body @ [final]"
    by (simp add: sgr_report_def body_def final_def CSI_def)
  have plain: "digit_value (CHR ''M'') = None" "digit_value (CHR ''m'') = None" by (simp_all add: digit_value_def)
  have "CHR ''M'' \<notin> set buttons" "CHR ''m'' \<notin> set buttons" using assms by auto
  with plain have "CHR ''M'' \<notin> set body" "CHR ''m'' \<notin> set body"
    unfolding body_def by simp_all
  then have "position (\<lambda>b. b \<in> set ''Mm'') body = None"
    unfolding position_None by auto
  from position_rest [OF this, of "[final]"]
  have "position (\<lambda>b. b \<in> set ''Mm'') (body @ [final]) = Some (length body)"
    by (cases release) (simp_all add: final_def)
  then have "find_csi_final (ESC # CHR ''['' # body @ [final]) ''Mm'' = Some (length body + 3)"
    by (simp add: find_csi_final_def)
  moreover have "starts_with (ESC # CHR ''['' # body @ [final]) (CSI @ ''<'')" by (simp add: starts_with_def CSI_def body_def)
  ultimately show ?thesis
    unfolding report complete_csi csi_sequence_len_def by simp
qed

lemma sgr_report_event:
  assumes "ascii buttons" "parse_sgr_mouse (sgr_report buttons column row release) = Some mouse"
  shows "escape_event (sgr_report buttons column row release) = Some (Some (RawMouse mouse))"
proof -
  let ?r = "sgr_report buttons column row release"
  define body where "body = buttons @ '';'' @ show_nat column @ '';'' @ show_nat row"
  define final where "final = (if release then CHR ''m'' else CHR ''M'')"
  have report: "?r = ESC # CHR ''['' # CHR ''<'' # body @ [final]"
    by (simp add: sgr_report_def body_def final_def CSI_def)
  have "ascii ?r" using assms(1) by (simp add: sgr_report_def CSI_def ESC_def)
  then have utf8: "from_utf8 ?r" by (rule ascii_utf8)
  have "strip_prefix OSC ?r = None" by (simp add: report strip_prefix_def OSC_def)
  moreover have "strip_prefix (OSC @ ''4;'') ?r = None" by (simp add: report strip_prefix_def OSC_def)
  ultimately have colors: "parse_default_color_response ?r = Some None" "parse_palette_color_response ?r = Some None"
    by (simp_all add: parse_default_color_response_def parse_palette_color_response_def osc_body_def)
  have "strip_suffix ''t'' (CHR ''<'' # body @ [final]) = None"
    by (simp add: strip_suffix_def strip_prefix_def final_def)
  then have "parse_host_cell_size_report ?r = None"
    by (simp add: parse_host_cell_size_report_def report strip_prefix_def CSI_def)
  moreover have "parse_host_color_scheme_report ?r = None"
    by (simp add: parse_host_color_scheme_report_def report CSI_def)
  moreover have "\<not> starts_with ?r (CSI @ ''M'')" by (simp add: report starts_with_def CSI_def)
  ultimately show ?thesis using utf8 colors assms(2) by (simp add: escape_event_def) (simp add: report CSI_def)
qed

lemma push_sgr_report:
  assumes "ascii buttons" "\<forall>c \<in> set buttons. c \<noteq> CHR ''M'' \<and> c \<noteq> CHR ''m''"
    "parse_sgr_mouse (sgr_report buttons column row release) = Some mouse"
  shows "event_push up default_framer (sgr_report buttons column row release) = Some ([RawMouse mouse], default_framer)"
proof -
  let ?r = "sgr_report buttons column row release"
  have heads: "?r \<noteq> []" "hd ?r = ESC" "\<not> starts_with ?r BRACKETED_PASTE_START"
    by (simp_all add: sgr_report_def CSI_def BRACKETED_PASTE_START_def starts_with_def)
  have event: "extract_one_event up ?r = Some (Some (RawMouse mouse, length ?r))"
    using heads sgr_report_length [OF assms(2), of column row release] sgr_report_event [OF assms(1,3)]
    by (simp add: extract_one_event_def)
  have quiet: "note_event (RawMouse mouse) (feed default_framer ?r) = feed default_framer ?r"
    "(feed default_framer ?r)\<lparr>held_pending_host_reply_esc := False, fr_buffer := []\<rparr> = default_framer"
    by (simp_all add: note_event_def) (simp add: feed_def default_framer_def)
  have "drain_step up (feed default_framer ?r) = Continues [?r] default_framer"
    using event quiet by (simp add: drain_step_def orphan_step_def event_step_def)
  moreover have "drain_step up default_framer = Breaks default_framer"
    by (simp add: drain_step_def orphan_step_def event_step_def extract_one_event_def)
  ultimately have "byte_push up default_framer ?r = Some ([?r], default_framer)"
    by (simp add: byte_push_def drain_available_chunks.simps [of up "feed default_framer ?r"]
        drain_available_chunks.simps [of up default_framer])
  moreover have "?r \<noteq> [ESC]" by (simp add: sgr_report_def CSI_def)
  ultimately show ?thesis using event by (simp add: event_push_def events_and_state_def)
qed

definition modifier_bits :: "KeyModifiers \<Rightarrow> nat" where
  "modifier_bits mods =
     (if mods_contain mods SHIFT then 4 else 0) + (if mods_contain mods ALT then 8 else 0) + (if mods_contain mods CONTROL then 16 else 0)"

definition report_buttons :: "(nat \<times> bool \<times> MouseEventKind) list" where
  "report_buttons =
     [(0, False, MouseDown MouseLeft), (1, False, MouseDown MouseMiddle), (2, False, MouseDown MouseRight),
      (0, True, MouseUp MouseLeft), (1, True, MouseUp MouseMiddle), (2, True, MouseUp MouseRight),
      (32, False, MouseDrag MouseLeft), (33, False, MouseDrag MouseMiddle), (34, False, MouseDrag MouseRight),
      (64, False, MouseScrollUp), (65, False, MouseScrollDown), (66, False, MouseScrollLeft), (67, False, MouseScrollRight)]"

lemma mouse_cb_table:
  "list_all (\<lambda>(base, release, kind). list_all (\<lambda>mods. base + modifier_bits mods \<le> 95 \<and>
     map_option (\<lambda>(k, ms). (if release then release_kind k else k, ms)) (parse_mouse_cb (of_nat (base + modifier_bits mods))) = Some (kind, mods))
     [0, 1, 2, 3, 4, 5, 6, 7]) report_buttons"
  by code_simp

lemma three_bits: "mods AND 7 = mods \<Longrightarrow> mods \<in> set [0, 1, 2, 3, 4, 5, 6, 7 :: u8]"
proof -
  assume "mods AND 7 = mods"
  moreover have "mods AND 7 \<le> 7" by (rule word_and_le1)
  ultimately have "mods \<le> 7" by simp
  then have "unat mods < 8" by (simp add: word_le_nat_alt)
  then have "unat mods \<in> set [0..<8]" by simp
  then have "of_nat (unat mods) \<in> (of_nat :: nat \<Rightarrow> u8) ` set [0..<8]" by (rule imageI)
  then show ?thesis by (auto simp: upt_rec)
qed

definition writes_report :: "MouseEventKind \<Rightarrow> u16 \<Rightarrow> u16 \<Rightarrow> KeyModifiers \<Rightarrow> string \<Rightarrow> bool" where
  "writes_report kind column row mods report \<longleftrightarrow>
     encode_mouse_button kind column row mods MouseSgr = Some report \<or>
     encode_mouse_scroll kind column row mods MouseSgr = Some report"

lemma writes_sgr_report:
  assumes "writes_report kind column row mods report"
  shows "\<exists>base release. (base, release, kind) \<in> set report_buttons \<and>
    report = sgr_report (show_nat (base + modifier_bits mods)) (unat column + 1) (unat row + 1) release"
proof -
  have cb: "encode_mouse_cb base release column row mods MouseSgr =
      Some (sgr_report (show_nat (unat base + modifier_bits mods)) (unat column + 1) (unat row + 1) release)" for base release
    by (simp add: encode_mouse_cb_def sgr_report_def modifier_bits_def add.assoc)
  from assms show ?thesis
    unfolding writes_report_def encode_mouse_button_def encode_mouse_scroll_def cb
    by (auto simp: report_buttons_def mouse_button_number_def split: MouseEventKind.splits MouseButton.splits)
qed

text \<open>C26: What the encoder writes for a mouse event in the SGR encoding, a fresh framer hears as exactly that
  event, with nothing left over: its kind and button, its modifiers, its column and its row, in
  any column and row but the last that sixteen bits can hold.\<close>

theorem mouse_report_roundtrip:
  assumes "writes_report kind column row mods report" "mods AND 7 = mods" "column < 65535" "row < 65535"
  shows "event_push up default_framer report =
    Some ([RawMouse \<lparr>me_kind = kind, me_column = column, me_row = row, me_modifiers = mods\<rparr>], default_framer)"
proof -
  obtain base release where button: "(base, release, kind) \<in> set report_buttons"
    and report: "report = sgr_report (show_nat (base + modifier_bits mods)) (unat column + 1) (unat row + 1) release"
    using writes_sgr_report [OF assms(1)] by blast
  let ?cb = "base + modifier_bits mods"
  from button mouse_cb_table three_bits [OF assms(2)] have "?cb \<le> 95"
    and kind: "map_option (\<lambda>(k, ms). (if release then release_kind k else k, ms)) (parse_mouse_cb (of_nat ?cb)) = Some (kind, mods)"
    unfolding list_all_iff by blast+
  from kind obtain k where k: "parse_mouse_cb (of_nat ?cb) = Some (k, mods)" "(if release then release_kind k else k) = kind"
    by auto
  have "parse_u8 (show_nat ?cb) = Some ?cb" using \<open>?cb \<le> 95\<close> by (simp add: parse_u8_show)
  moreover have "unat column < 65535" "unat row < 65535" using assms(3,4) by (simp_all add: word_less_nat_alt)
  ultimately have "parse_sgr_mouse report = Some (mouse_event (kind, mods) (unat column) (unat row))"
    using parse_sgr_report [of "show_nat ?cb" ?cb k mods "unat column" "unat row" release] k by (simp add: report)
  moreover have "\<forall>c \<in> set (show_nat ?cb). c \<noteq> CHR ''M'' \<and> c \<noteq> CHR ''m''"
    using show_nat_plain [of "CHR ''M''" ?cb] show_nat_plain [of "CHR ''m''" ?cb] by (auto simp: digit_value_def)
  ultimately show ?thesis
    using push_sgr_report [of "show_nat ?cb"] by (simp add: report mouse_event_def)
qed

theorem mouse_report_roundtrip_witness:
  "\<exists>report. encode_mouse_scroll MouseScrollUp 4 7 (SHIFT OR ALT) MouseSgr = Some report \<and>
    event_push (\<lambda>_. False) default_framer report =
      Some ([RawMouse \<lparr>me_kind = MouseScrollUp, me_column = 4, me_row = 7, me_modifiers = SHIFT OR ALT\<rparr>], default_framer)"
proof -
  obtain report where report: "encode_mouse_scroll MouseScrollUp 4 7 (SHIFT OR ALT) MouseSgr = Some report"
    by (simp add: encode_mouse_scroll_def encode_mouse_cb_def Let_def)
  then have "writes_report MouseScrollUp 4 7 (SHIFT OR ALT) report" by (simp add: writes_report_def)
  moreover have "(SHIFT OR ALT) AND 7 = SHIFT OR ALT" by (simp add: SHIFT_def ALT_def)
  ultimately show ?thesis using mouse_report_roundtrip [of MouseScrollUp 4 7 "SHIFT OR ALT" report] report by auto
qed

end
