(* ===== verification/Mouse_Pixels.thy ===== *)
theory Mouse_Pixels
  imports Layout Mouse_Report
begin

text \<open>
  Mouse reports in pixels (\<open>src/herdr/src/input/mouse.rs\<close>): a report of the host is rewritten to the cell it hits,
  and a host pixel is carried into the pixels of a pane without leaving its cell. The query of the
  window's size is the argument of \<open>new_geometry\<close>.
\<close>

section \<open>Geometry\<close>

record HostGeometry =
  hg_cols :: u16
  hg_rows :: u16
  hg_width_px :: u32
  hg_height_px :: u32

datatype MousePosition = MouseCell u16 u16 | MousePixels u32 u32

record HostPixels =
  hp_x :: u32
  hp_y :: u32
  hp_geometry :: HostGeometry

definition new_geometry :: "u16 \<Rightarrow> u16 \<Rightarrow> u32 \<Rightarrow> u32 \<Rightarrow> HostGeometry option" where
  "new_geometry cols rows width_px height_px =
     (if 0 < cols \<and> 0 < rows \<and> 0 < width_px \<and> 0 < height_px
      then Some \<lparr>hg_cols = cols, hg_rows = rows, hg_width_px = width_px, hg_height_px = height_px\<rparr> else None)"

definition checked_sub :: "'a::len word \<Rightarrow> 'a word \<Rightarrow> 'a word option" where
  "checked_sub a b = (if b \<le> a then Some (a - b) else None)"

text \<open>The intermediate products are of 64 bits and cannot overflow; the casts back to 32 bits are \<open>of_nat\<close>.\<close>

definition cell_boundary :: "u16 \<Rightarrow> u16 \<Rightarrow> u32 \<Rightarrow> u32 option" where
  "cell_boundary index count extent =
     (if 0 < count \<and> index \<le> count \<and> 0 < extent
      then Some (of_nat (unat index * unat extent div unat count)) else None)"

definition grid_extent :: "u16 \<Rightarrow> u32 \<Rightarrow> u32 option" where
  "grid_extent count extent =
     (let count = ucast count in
      if 0 < count \<and> 0 < extent then Some (max (extent div count) 1 * count) else None)"

definition grid_cell :: "u32 \<Rightarrow> u16 \<Rightarrow> u32 \<Rightarrow> u16 option" where
  "grid_cell pixel count extent =
     (if count = 0 \<or> extent = 0 \<or> extent \<le> pixel then None
      else let cell = ((unat pixel + 1) * unat count - 1) div unat extent in
        if cell < 65536 \<and> cell < unat count then Some (of_nat cell) else None)"

definition scale_pixel :: "u32 \<Rightarrow> u32 \<Rightarrow> u32 \<Rightarrow> u32" where
  "scale_pixel pixel source target =
     of_nat (min (unat pixel * unat target div unat source) (unat (saturating_sub target 1)))"

definition geometry_cell :: "HostGeometry \<Rightarrow> u32 \<Rightarrow> u32 \<Rightarrow> (u16 \<times> u16) option" where
  "geometry_cell g x y = do {
     x \<leftarrow> checked_sub x 1;
     y \<leftarrow> checked_sub y 1;
     (if hg_width_px g \<le> x \<or> hg_height_px g \<le> y then None
      else do {
        width_px \<leftarrow> grid_extent (hg_cols g) (hg_width_px g);
        height_px \<leftarrow> grid_extent (hg_rows g) (hg_height_px g);
        column \<leftarrow> grid_cell (min x (width_px - 1)) (hg_cols g) width_px;
        row \<leftarrow> grid_cell (min y (height_px - 1)) (hg_rows g) height_px;
        Some (column, row) }) }"

definition map_axis_within_cell :: "u32 \<Rightarrow> u16 \<Rightarrow> u16 \<Rightarrow> u16 \<Rightarrow> u16 \<Rightarrow> u32 \<Rightarrow> u32 \<Rightarrow> u32 option" where
  "map_axis_within_cell pixel host_cell pane_start pane_cells host_cells host_extent child_extent = do {
     local_cell \<leftarrow> checked_sub host_cell pane_start;
     (if pane_cells \<le> local_cell then None
      else do {
        host_grid_extent \<leftarrow> grid_extent host_cells host_extent;
        source_start \<leftarrow> cell_boundary host_cell host_cells host_grid_extent;
        host_next \<leftarrow> checked_add host_cell 1;
        source_end \<leftarrow> cell_boundary host_next host_cells host_grid_extent;
        target_start \<leftarrow> cell_boundary local_cell pane_cells child_extent;
        local_next \<leftarrow> checked_add local_cell 1;
        target_end \<leftarrow> cell_boundary local_next pane_cells child_extent;
        source_width \<leftarrow> checked_sub source_end source_start;
        target_width \<leftarrow> checked_sub target_end target_start;
        offset \<leftarrow> checked_sub pixel 1;
        offset \<leftarrow> checked_sub offset source_start;
        (if source_width = 0 \<or> target_width = 0 \<or> source_width \<le> offset then None
         else do {
           mapped \<leftarrow> checked_add target_start (scale_pixel offset source_width target_width);
           checked_add mapped 1 }) }) }"

definition pane_position :: "HostPixels \<Rightarrow> Rect \<Rightarrow> u32 \<Rightarrow> u32 \<Rightarrow> MousePosition option" where
  "pane_position p inner child_width_px child_height_px = do {
     (host_column, host_row) \<leftarrow> geometry_cell (hp_geometry p) (hp_x p) (hp_y p);
     end_column \<leftarrow> checked_add (rect_x inner) (rect_width inner);
     end_row \<leftarrow> checked_add (rect_y inner) (rect_height inner);
     (if host_column < rect_x inner \<or> end_column \<le> host_column \<or> host_row < rect_y inner \<or> end_row \<le> host_row then None
      else do {
        x \<leftarrow> map_axis_within_cell (hp_x p) host_column (rect_x inner) (rect_width inner) (hg_cols (hp_geometry p))
          (hg_width_px (hp_geometry p)) child_width_px;
        y \<leftarrow> map_axis_within_cell (hp_y p) host_row (rect_y inner) (rect_height inner) (hg_rows (hp_geometry p))
          (hg_height_px (hp_geometry p)) child_height_px;
        Some (MousePixels x y) }) }"


section \<open>Reports\<close>

definition parse_number :: "string \<Rightarrow> u32 option" where
  "parse_number value = (if value \<noteq> [] \<and> list_all is_ascii_digit value then parse_u32 value else None)"

definition report_body :: "string \<Rightarrow> string option" where
  "report_body data = do {
     body \<leftarrow> strip_prefix (CSI @ ''<'') data;
     (case strip_suffix ''M'' body of Some b \<Rightarrow> Some b | None \<Rightarrow> strip_suffix ''m'' body) }"

definition parse_report :: "string \<Rightarrow> (u32 \<times> u32) option" where
  "parse_report data = do {
     body \<leftarrow> report_body data;
     (case split_on (CHR '';'') body of
        [buttons, x, y] \<Rightarrow> do {
          parse_number buttons;
          x \<leftarrow> parse_number x;
          y \<leftarrow> parse_number y;
          Some (x, y) }
      | _ \<Rightarrow> None) }"

definition report_at_cell :: "string \<Rightarrow> u16 \<Rightarrow> u16 \<Rightarrow> string option" where
  "report_at_cell data column row = do {
     body \<leftarrow> strip_prefix (CSI @ ''<'') data;
     let suffix = (if strip_suffix ''M'' body \<noteq> None then ''M'' else ''m'');
     body \<leftarrow> strip_suffix suffix body;
     (case split_on (CHR '';'') body of
        [] \<Rightarrow> None
      | buttons # _ \<Rightarrow>
          if from_utf8 buttons
          then Some (CSI @ ''<'' @ buttons @ '';'' @ show_nat (unat column + 1) @ '';'' @ show_nat (unat row + 1) @ suffix)
          else None) }"

text \<open>\<open>handle_pixel_mouse\<close> of \<open>src/herdr/src/client/shell/input.rs\<close>, up to the event it hands on: \<open>Some None\<close> where it
  returns without one.\<close>

definition pixel_mouse_event :: "(u32 \<Rightarrow> bool) \<Rightarrow> HostGeometry \<Rightarrow> string \<Rightarrow> (MouseEvent \<times> HostPixels) option option" where
  "pixel_mouse_event is_uppercase geometry data =
     (case parse_report data of
        None \<Rightarrow> Some None
      | Some (x, y) \<Rightarrow>
          (case geometry_cell geometry x y of
             None \<Rightarrow> Some None
           | Some (column, row) \<Rightarrow>
               (case report_at_cell data column row of
                  None \<Rightarrow> Some None
                | Some cell_report \<Rightarrow>
                    (case parse_raw_input_bytes_sync is_uppercase cell_report of
                       None \<Rightarrow> None
                     | Some [RawMouse m] \<Rightarrow> Some (Some (m, \<lparr>hp_x = x, hp_y = y, hp_geometry = geometry\<rparr>))
                     | Some _ \<Rightarrow> Some None))))"

section \<open>Cells and their pixels\<close>

text \<open>The cell of a pixel is the one whose boundaries enclose it.\<close>

lemma boundary_cell_nat:
  assumes "0 < n" "0 < (e :: nat)"
  shows "i * e div n \<le> p \<longleftrightarrow> i \<le> ((p + 1) * n - 1) div e"
proof -
  have "i * e div n \<le> p \<longleftrightarrow> i * e div n < p + 1" by linarith
  also have "\<dots> \<longleftrightarrow> i * e < (p + 1) * n" using assms(1) by (rule div_less_iff_less_mult)
  also have "\<dots> \<longleftrightarrow> i * e \<le> (p + 1) * n - 1" using assms(1) by (cases "(p + 1) * n") auto
  also have "\<dots> \<longleftrightarrow> i \<le> ((p + 1) * n - 1) div e" using assms(2) by (simp add: less_eq_div_iff_mult_less_eq)
  finally show ?thesis .
qed

lemma cell_nat_bound:
  assumes "0 < n" "p < (e :: nat)"
  shows "((p + 1) * n - 1) div e < n"
proof -
  have "(p + 1) * n \<le> e * n" using assms(2) by (intro mult_right_mono) auto
  moreover have "0 < e * n" using assms by simp
  ultimately have "(p + 1) * n - 1 < e * n" by linarith
  then have "(p + 1) * n - 1 < n * e" by (simp only: mult.commute)
  then show ?thesis using assms by (simp add: div_less_iff_less_mult)
qed

lemma unat_u16_less: "unat (c :: u16) < 65536"
  using unsigned_less [of c, where ?'a = nat] by simp

lemma unat_u32_less: "unat (c :: u32) < 4294967296"
  using unsigned_less [of c, where ?'a = nat] by simp

lemma grid_cell_nat:
  assumes "0 < count" "pixel < extent"
  shows "\<exists>c. grid_cell pixel count extent = Some c \<and> unat c = ((unat pixel + 1) * unat count - 1) div unat extent \<and> c < count"
proof -
  let ?c = "((unat pixel + 1) * unat count - 1) div unat extent"
  have "?c < unat count"
    using assms by (intro cell_nat_bound) (simp_all add: word_less_nat_alt)
  then have "?c < 65536" using unat_u16_less [of count] by linarith
  then have "unat (of_nat ?c :: u16) = ?c" by (simp add: unat_of_nat take_bit_nat_eq_self)
  moreover have "extent \<noteq> 0" using assms(2) by auto
  ultimately show ?thesis
    using assms \<open>?c < 65536\<close> \<open>?c < unat count\<close> by (auto simp: grid_cell_def word_less_nat_alt word_le_nat_alt)
qed

text \<open>A boundary is the boundary of the naturals: the cast loses nothing.\<close>

lemma boundary_nat:
  assumes "cell_boundary index count extent = Some b"
  shows "0 < unat count \<and> 0 < unat extent \<and> unat index \<le> unat count \<and>
    unat b = unat index * unat extent div unat count \<and> unat b \<le> unat extent"
proof -
  have *: "0 < unat count" "0 < unat extent" "unat index \<le> unat count" "b = of_nat (unat index * unat extent div unat count)"
    using assms by (auto simp: cell_boundary_def word_less_nat_alt word_le_nat_alt unat_gt_0 split: if_splits)
  have "unat index * unat extent div unat count \<le> unat count * unat extent div unat count"
    using *(3) by (intro div_le_mono mult_right_mono) auto
  then have le: "unat index * unat extent div unat count \<le> unat extent" using *(1) by simp
  then have "unat b = unat index * unat extent div unat count"
    using unat_u32_less [of extent] by (simp add: *(4) unat_of_nat take_bit_nat_eq_self)
  with * le show ?thesis by simp
qed

lemma unat_widen_u16: "unat (ucast (c :: u16) :: u32) = unat c"
proof -
  have "unat c < 2 ^ LENGTH(32)" using unat_u16_less [of c] by (rule less_trans) simp
  then show ?thesis unfolding unsigned_ucast_eq by (rule take_bit_nat_eq_self)
qed

lemma grid_extent_nat:
  assumes "grid_extent count extent = Some e"
  shows "unat e = max (unat extent div unat count) 1 * unat count \<and> 0 < unat count"
proof -
  note count = unat_widen_u16 [of count]
  have *: "0 < unat count" "e = max (extent div ucast count) 1 * ucast count"
    using assms by (auto simp: grid_extent_def Let_def word_less_nat_alt count split: if_splits)
  have "unat (max (extent div ucast count) 1) = max (unat extent div unat count) 1"
    by (simp add: max_def word_le_nat_alt unat_div count)
  moreover have "unat count < 4294967296" using unat_u16_less [of count] by (rule less_trans) simp
  then have "max (unat extent div unat count) 1 * unat count < 4294967296"
    using unat_u32_less [of extent] div_times_less_eq_dividend [of "unat extent" "unat count"]
    by (simp add: max_def del: div_times_less_eq_dividend)
  ultimately show ?thesis using * by (simp add: unat_word_ariths count)
qed

lemma geometry_axis:
  assumes "0 < count" "0 < extent"
  shows "\<exists>e c. grid_extent count extent = Some e \<and> grid_cell (min pixel (e - 1)) count e = Some c \<and> c < count"
proof -
  obtain e where e: "grid_extent count extent = Some e"
  proof -
    have "(0 :: u32) < ucast count"
      using assms(1) by (simp add: word_less_nat_alt unat_widen_u16)
    with assms(2) that show thesis by (simp add: grid_extent_def Let_def)
  qed
  have "0 < unat e" using grid_extent_nat [OF e] by (simp add: max_def)
  then have "unat (e - 1) < unat e" by (simp add: unat_minus_one unat_gt_0)
  then have "min pixel (e - 1) < e" by (simp add: min_def word_less_nat_alt word_le_nat_alt)
  from grid_cell_nat [OF assms(1) this] e show ?thesis by blast
qed

text \<open>Every pixel of the host's window hits a cell of its grid, whatever the window's size is compared with
  the grid, the pixels behind the last full cell included.\<close>

lemma geometry_hit:
  assumes "new_geometry cols rows width_px height_px = Some g" "1 \<le> x" "x \<le> width_px" "1 \<le> y" "y \<le> height_px"
  shows "\<exists>column row. geometry_cell g x y = Some (column, row) \<and> column < cols \<and> row < rows"
proof -
  have g: "g = \<lparr>hg_cols = cols, hg_rows = rows, hg_width_px = width_px, hg_height_px = height_px\<rparr>"
    and pos: "0 < cols" "0 < rows" "0 < width_px" "0 < height_px"
    using assms(1) by (auto simp: new_geometry_def split: if_splits)
  have less: "a - 1 < b" if "1 \<le> a" "a \<le> b" for a b :: u32
  proof -
    have "unat (a - 1) = unat a - 1" using that(1) by (simp add: unat_sub)
    with that show ?thesis by (simp add: word_less_nat_alt word_le_nat_alt)
  qed
  obtain e c where x: "grid_extent cols width_px = Some e" "grid_cell (min (x - 1) (e - 1)) cols e = Some c" "c < cols"
    using geometry_axis [OF pos(1,3)] by blast
  obtain f r where y: "grid_extent rows height_px = Some f" "grid_cell (min (y - 1) (f - 1)) rows f = Some r" "r < rows"
    using geometry_axis [OF pos(2,4)] by blast
  have "\<not> width_px \<le> x - 1" "\<not> height_px \<le> y - 1" using less assms(2-5) by (simp_all add: not_le)
  with assms(2,4) x y show ?thesis by (simp add: geometry_cell_def g checked_sub_def)
qed

text \<open>A pixel carried along one axis stays in its cell.\<close>

lemma scale_nat:
  "0 < target \<Longrightarrow> unat (scale_pixel pixel source target) < unat target"
proof -
  assume "0 < target"
  then have pos: "0 < unat target" by (simp add: word_less_nat_alt)
  have "unat (saturating_sub target 1) = unat target - 1" by (simp add: unat_saturating_sub)
  then have "min (unat pixel * unat target div unat source) (unat (saturating_sub target 1)) < unat target"
    using pos by linarith
  moreover from this have "unat (scale_pixel pixel source target) =
      min (unat pixel * unat target div unat source) (unat (saturating_sub target 1))"
    using unat_u32_less [of target] unfolding scale_pixel_def by (simp add: unat_of_nat take_bit_nat_eq_self)
  ultimately show ?thesis by simp
qed

lemma checked_add_nat: "checked_add a b = Some c \<Longrightarrow> c = a + b \<and> unat c = unat a + unat b"
  for a b c :: "'a::len word"
  using unat_add_no_wrap [of a b] by (simp add: checked_add_Some)

lemma axis_stays_in_cell:
  assumes "map_axis_within_cell pixel host_cell pane_start pane_cells host_cells host_extent child_extent = Some v"
  shows "1 \<le> v \<and> v \<le> child_extent \<and> pane_start \<le> host_cell \<and>
    grid_cell (v - 1) pane_cells child_extent = Some (host_cell - pane_start)"
proof -
  let ?i = "host_cell - pane_start"
  obtain a b off src m j where start: "pane_start \<le> host_cell" "\<not> pane_cells \<le> ?i"
    and a: "cell_boundary ?i pane_cells child_extent = Some a"
    and j: "checked_add ?i 1 = Some j" and b: "cell_boundary j pane_cells child_extent = Some b"
    and w: "a \<le> b" "b - a \<noteq> 0"
    and m: "checked_add a (scale_pixel off src (b - a)) = Some m" "checked_add m 1 = Some v"
    using assms
    by (auto simp: map_axis_within_cell_def bind_eq_Some_conv checked_sub_def split: if_splits)
  have less: "unat (scale_pixel off src (b - a)) < unat b - unat a"
    using scale_nat [of "b - a" off src] w by (simp add: unat_sub word_gt_0)
  have v: "v = m + 1" "unat m = unat a + unat (scale_pixel off src (b - a))" "unat v = unat m + 1"
    using checked_add_nat [OF m(1)] checked_add_nat [OF m(2)] unsigned_1 by metis+
  have i: "unat j = unat ?i + 1" using checked_add_nat [OF j] unsigned_1 by metis
  note bounds = boundary_nat [OF a] boundary_nat [OF b]
  have "unat m < unat child_extent" using less v bounds by linarith
  then have m_less: "m < child_extent" by (simp add: word_less_nat_alt)
  have "0 < pane_cells" using bounds by (simp add: word_less_nat_alt)
  from grid_cell_nat [OF this m_less] obtain c where c: "grid_cell m pane_cells child_extent = Some c"
    "unat c = ((unat m + 1) * unat pane_cells - 1) div unat child_extent" by blast
  have cell: "n * unat child_extent div unat pane_cells \<le> unat m \<longleftrightarrow> n \<le> unat c" for n
    unfolding c(2) using boundary_cell_nat bounds by blast
  have ab: "unat a = unat ?i * unat child_extent div unat pane_cells"
    "unat b = (unat ?i + 1) * unat child_extent div unat pane_cells"
    using bounds unfolding i by blast+
  have "unat ?i \<le> unat c" "\<not> unat ?i + 1 \<le> unat c"
    unfolding cell [symmetric] ab [symmetric] using less v(2) by linarith+
  then have "unat c = unat ?i" by linarith
  then have "c = ?i" by (rule unsigned_word_eqI)
  moreover have "1 \<le> v" "v \<le> child_extent"
    using v m_less by (simp_all add: word_le_nat_alt word_less_nat_alt)
  ultimately show ?thesis using c(1) start v(1) by simp
qed

text \<open>A mouse position carried into the pixels of a pane lies inside the pane and hits the cell of the pane
  that the host's pixel hits on the screen: scaling between the two sizes never moves the mouse to
  a neighbouring cell.\<close>

theorem pane_pixels_keep_cell:
  assumes "pane_position p inner child_width_px child_height_px = Some (MousePixels x y)"
  shows "\<exists>column row. geometry_cell (hp_geometry p) (hp_x p) (hp_y p) = Some (column, row) \<and>
    1 \<le> x \<and> x \<le> child_width_px \<and> grid_cell (x - 1) (rect_width inner) child_width_px = Some (column - rect_x inner) \<and>
    1 \<le> y \<and> y \<le> child_height_px \<and> grid_cell (y - 1) (rect_height inner) child_height_px = Some (row - rect_y inner)"
  using assms
  by (auto simp: pane_position_def bind_eq_Some_conv split: if_splits dest!: axis_stays_in_cell)

theorem pane_pixels_keep_cell_witness:
  "\<exists>x y. pane_position \<lparr>hp_x = 100, hp_y = 50, hp_geometry = \<lparr>hg_cols = 80, hg_rows = 24, hg_width_px = 800, hg_height_px = 480\<rparr>\<rparr>
      \<lparr>rect_x = 5, rect_y = 1, rect_width = 20, rect_height = 10\<rparr> 333 217 = Some (MousePixels x y) \<and>
    1 \<le> x \<and> x \<le> 333 \<and> 1 \<le> y \<and> y \<le> 217"
proof -
  let ?p = "\<lparr>hp_x = 100, hp_y = 50, hp_geometry = \<lparr>hg_cols = 80, hg_rows = 24, hg_width_px = 800, hg_height_px = 480\<rparr>\<rparr>"
  let ?r = "\<lparr>rect_x = 5, rect_y = 1, rect_width = 20, rect_height = 10\<rparr>"
  have "pane_position ?p ?r 333 217 \<noteq> None"
    by (simp add: pane_position_def geometry_cell_def grid_extent_def grid_cell_def map_axis_within_cell_def cell_boundary_def
        scale_pixel_def checked_sub_def checked_add_def saturating_sub_def Let_def min_def max_def word_le_nat_alt word_less_nat_alt)
  then obtain q where q: "pane_position ?p ?r 333 217 = Some q" by auto
  then obtain x y where "q = MousePixels x y"
    by (auto simp: pane_position_def bind_eq_Some_conv split: if_splits)
  with q pane_pixels_keep_cell [of ?p ?r 333 217 x y] show ?thesis by auto
qed

section \<open>From pixels to an event\<close>

lemma digits_plain:
  assumes "list_all is_ascii_digit buttons"
  shows "digit_value c = None \<Longrightarrow> c \<notin> set buttons" "ascii buttons"
  using assms by (auto simp: is_ascii_digit_def digit_value_def ascii_def list_all_iff Let_def)

lemma show_nat_all_digits: "list_all is_ascii_digit (show_nat n)"
  using show_nat_digits [of n] by (auto simp: list_all_iff is_ascii_digit_def digit_value_def Let_def split: if_splits)

lemma parse_number_show: "parse_number (show_nat (unat v)) = Some v"
  by (simp add: parse_number_def show_nat_all_digits)

lemma sgr_report_parts:
  assumes "CHR '';'' \<notin> set buttons"
  shows "strip_prefix (CSI @ ''<'') (sgr_report buttons c r release) =
      Some ((buttons @ CHR '';'' # show_nat c @ CHR '';'' # show_nat r) @ (if release then ''m'' else ''M''))"
    and "split_on (CHR '';'') (buttons @ CHR '';'' # show_nat c @ CHR '';'' # show_nat r) = [buttons, show_nat c, show_nat r]"
proof -
  have "sgr_report buttons c r release =
      (CSI @ ''<'') @ (buttons @ CHR '';'' # show_nat c @ CHR '';'' # show_nat r) @ (if release then ''m'' else ''M'')"
    by (simp add: sgr_report_def)
  then show "strip_prefix (CSI @ ''<'') (sgr_report buttons c r release) =
      Some ((buttons @ CHR '';'' # show_nat c @ CHR '';'' # show_nat r) @ (if release then ''m'' else ''M''))"
    by (simp only: strip_prefix_append)
  show "split_on (CHR '';'') (buttons @ CHR '';'' # show_nat c @ CHR '';'' # show_nat r) = [buttons, show_nat c, show_nat r]"
    using assms by simp
qed

lemma other_suffix: "strip_suffix ''M'' (s @ ''m'') = None"
  by (simp add: strip_suffix_def strip_prefix_def)

lemma parse_digits_wider: "parse_digits limit acc s = Some v \<Longrightarrow> limit \<le> limit' \<Longrightarrow> parse_digits limit' acc s = Some v"
  by (induction limit acc s rule: parse_digits.induct) (auto split: option.splits if_splits)

lemma sgr_report_pixels:
  assumes "list_all is_ascii_digit buttons" "parse_u8 buttons = Some cb"
  shows "parse_report (sgr_report buttons (unat x) (unat y) release) = Some (x, y)"
    and "report_at_cell (sgr_report buttons (unat x) (unat y) release) column row =
      Some (sgr_report buttons (unat column + 1) (unat row + 1) release)"
proof -
  have plain: "CHR '';'' \<notin> set buttons" using digits_plain(1) [OF assms(1)] by simp
  obtain payload where payload:
    "strip_prefix (CSI @ ''<'') (sgr_report buttons (unat x) (unat y) release) = Some (payload @ (if release then ''m'' else ''M''))"
    "split_on (CHR '';'') payload = [buttons, show_nat (unat x), show_nat (unat y)]"
    using sgr_report_parts [OF plain] by blast
  have "buttons \<noteq> []" using assms(2) by (auto simp: parse_u8_def parse_unsigned_def)
  moreover have "\<exists>v. parse_u32 buttons = Some v"
    using assms(2) parse_digits_wider [of 255 _ _ _ 4294967295]
    by (cases buttons) (auto simp: parse_u32_def parse_u8_def parse_unsigned_def simp del: parse_digits.simps split: if_splits)
  ultimately obtain v where number: "parse_number buttons = Some v" using assms(1) by (auto simp: parse_number_def)
  show "parse_report (sgr_report buttons (unat x) (unat y) release) = Some (x, y)"
    unfolding parse_report_def report_body_def payload(1)
    using number by (cases release) (simp_all add: payload(2) other_suffix parse_number_show)
  have "from_utf8 buttons" using digits_plain(2) [OF assms(1)] by (rule ascii_utf8)
  then show "report_at_cell (sgr_report buttons (unat x) (unat y) release) column row =
      Some (sgr_report buttons (unat column + 1) (unat row + 1) release)"
    unfolding report_at_cell_def payload(1)
    by (cases release) (simp_all add: payload(2) other_suffix sgr_report_def)
qed

lemma flush_default: "event_flush up default_framer = Some ([], default_framer)"
  using flush_nothing [of default_framer up] by (simp add: event_flush_def events_and_state_def)

text \<open>C27: A mouse report in pixels inside the host's window is heard as the event of its button at the cell of
  its pixel: reading the pixels, finding the cell, rewriting the report and parsing it again lose
  neither the button nor the modifiers, and no report is refused.\<close>

theorem pixel_report_becomes_cell_event:
  assumes "new_geometry cols rows width_px height_px = Some g" "1 \<le> x" "x \<le> width_px" "1 \<le> y" "y \<le> height_px"
    "list_all is_ascii_digit buttons" "parse_u8 buttons = Some cb" "parse_mouse_cb (of_nat cb) = Some (kind, mods)"
  shows "\<exists>column row. geometry_cell g x y = Some (column, row) \<and>
    pixel_mouse_event up g (sgr_report buttons (unat x) (unat y) release) =
      Some (Some (\<lparr>me_kind = if release then release_kind kind else kind, me_column = column, me_row = row, me_modifiers = mods\<rparr>,
        \<lparr>hp_x = x, hp_y = y, hp_geometry = g\<rparr>))"
proof -
  obtain column row where cell: "geometry_cell g x y = Some (column, row)" "column < cols" "row < rows"
    using geometry_hit [OF assms(1-5)] by blast
  have "unat column < 65535" "unat row < 65535"
    using cell(2,3) unat_u16_less [of cols] unat_u16_less [of rows] unfolding word_less_nat_alt by linarith+
  then have "parse_sgr_mouse (sgr_report buttons (unat column + 1) (unat row + 1) release) =
      Some (mouse_event (if release then release_kind kind else kind, mods) (unat column) (unat row))"
    using digits_plain(1) [OF assms(6)] assms(7,8) by (intro parse_sgr_report) simp_all
  moreover have "\<forall>c \<in> set buttons. c \<noteq> CHR ''M'' \<and> c \<noteq> CHR ''m''"
    using digits_plain(1) [OF assms(6), of "CHR ''M''"] digits_plain(1) [OF assms(6), of "CHR ''m''"]
    by (auto simp: digit_value_def)
  ultimately have "event_push up default_framer (sgr_report buttons (unat column + 1) (unat row + 1) release) =
      Some ([RawMouse (mouse_event (if release then release_kind kind else kind, mods) (unat column) (unat row))], default_framer)"
    using digits_plain(2) [OF assms(6)] by (intro push_sgr_report)
  then have "parse_raw_input_bytes_sync up (sgr_report buttons (unat column + 1) (unat row + 1) release) =
      Some [RawMouse (mouse_event (if release then release_kind kind else kind, mods) (unat column) (unat row))]"
    by (simp add: parse_raw_input_bytes_sync_def flush_default)
  with cell sgr_report_pixels(1) [OF assms(6,7), of x y release]
    sgr_report_pixels(2) [OF assms(6,7), of x y release column row] show ?thesis
    by (simp add: pixel_mouse_event_def mouse_event_def)
qed

theorem pixel_report_becomes_cell_event_witness:
  "\<exists>g column row. new_geometry 80 24 803 481 = Some g \<and> geometry_cell g 803 481 = Some (column, row) \<and>
    pixel_mouse_event (\<lambda>_. False) g (sgr_report ''16'' 803 481 False) =
      Some (Some (\<lparr>me_kind = MouseDown MouseLeft, me_column = column, me_row = row, me_modifiers = CONTROL\<rparr>,
        \<lparr>hp_x = 803, hp_y = 481, hp_geometry = g\<rparr>))"
proof -
  obtain g where g: "new_geometry 80 24 803 481 = Some g" by (simp add: new_geometry_def)
  have "list_all is_ascii_digit ''16''" "parse_u8 ''16'' = Some 16" "parse_mouse_cb (of_nat 16) = Some (MouseDown MouseLeft, CONTROL)"
    by code_simp+
  from pixel_report_becomes_cell_event [OF g _ _ _ _ this, of 803 481 "\<lambda>_. False" False] g show ?thesis by simp
qed

end
