(* ===== verification/Key_Types.thy ===== *)
theory Key_Types
  imports Raw_Sequence
begin

text \<open>
  The types of what the parsers of keys return: whatever bytes a terminal sends, the character of a key
  is a character, its modifiers are the six known ones, its count is one and a release has no text.
\<close>

definition is_char :: "u32 \<Rightarrow> bool" where
  "is_char ch \<longleftrightarrow> char_from_u32 ch = Some ch"

definition well_typed_key :: "TerminalKey \<Rightarrow> bool" where
  "well_typed_key key \<longleftrightarrow>
     (\<forall>ch. tk_code key = KeyChar ch \<longrightarrow> is_char ch) \<and> tk_modifiers key AND 0x3F = tk_modifiers key \<and>
     tk_repeat_count key = 1 \<and> (tk_kind key = Release \<longrightarrow> tk_generated_text key = None)"

lemma is_char_small: "ch < 0xD800 \<Longrightarrow> is_char ch"
  by (simp add: is_char_def char_from_u32_def)

lemma is_char_from: "char_from_u32 v = Some ch \<Longrightarrow> is_char ch"
  by (auto simp: is_char_def char_from_u32_def split: if_splits)

lemma unat_of_small: "n < 4294967296 \<Longrightarrow> unat (of_nat n :: u32) = n"
  by (simp add: unat_of_nat take_bit_nat_eq_self)

lemma is_char_nat: "n < 0xD800 \<or> 0xE000 \<le> n \<and> n \<le> 0x10FFFF \<Longrightarrow> is_char (of_nat n)"
  using unat_of_small [of n] by (auto simp: is_char_def char_from_u32_def word_less_nat_alt word_le_nat_alt)

lemma is_char_low: "ch = of_nat n \<Longrightarrow> n < 0xD800 \<Longrightarrow> is_char ch"
  using is_char_nat [of n] by blast

lemma is_char_chr [simp]: "is_char (chr c)"
proof -
  have "(of_char c :: nat) < 0xD800" by (rule less_trans [of _ 256]) simp_all
  then show ?thesis unfolding chr_def by (intro is_char_nat) simp
qed

lemma mods_ok: "key_modifiers_from_u8 n AND 0x3F = key_modifiers_from_u8 n"
  by (simp add: key_modifiers_from_u8_def Let_def SHIFT_def ALT_def CONTROL_def SUPER_def HYPER_def META_def)

lemma or_mods_ok:
  fixes a b :: u8
  assumes "a AND 0x3F = a" "b AND 0x3F = b"
  shows "(a OR b) AND 0x3F = a OR b"
  using assms by (simp add: bit.conj_disj_distrib2)

lemma known_mods [simp]: "SHIFT AND 0x3F = SHIFT" "ALT AND 0x3F = ALT" "CONTROL AND 0x3F = CONTROL"
  by (simp_all add: SHIFT_def ALT_def CONTROL_def)

lemma new_key_typed [simp]:
  "well_typed_key (new_key code mods) \<longleftrightarrow> (\<forall>ch. code = KeyChar ch \<longrightarrow> is_char ch) \<and> mods AND 0x3F = mods"
  by (auto simp: well_typed_key_def new_key_def)

lemma with_kind_typed [simp]: "well_typed_key key \<Longrightarrow> well_typed_key (with_kind kind key)"
  by (simp add: well_typed_key_def with_kind_def Let_def)

lemma with_text_typed [simp]: "well_typed_key key \<Longrightarrow> well_typed_key (with_generated_text t key)"
  by (simp add: well_typed_key_def with_generated_text_def)

lemma with_shifted_typed [simp]: "well_typed_key key \<Longrightarrow> well_typed_key (with_shifted_codepoint c key)"
  by (simp add: well_typed_key_def with_shifted_codepoint_def)

lemma with_bytes_typed [simp]: "well_typed_key (with_vt_bytes b key) = well_typed_key key"
  by (simp add: well_typed_key_def with_vt_bytes_def)

lemma with_commit_typed [simp]: "well_typed_key key \<Longrightarrow> well_typed_key (with_text_commit up key)"
  by (auto simp: well_typed_key_def with_text_commit_def Let_def)

lemma alt_typed [simp]: "well_typed_key key \<Longrightarrow> well_typed_key (key\<lparr>tk_modifiers := tk_modifiers key OR ALT\<rparr>)"
  by (auto simp: well_typed_key_def intro: or_mods_ok)

lemma kitty_code_typed: "kitty_codepoint_to_keycode v = Some code \<Longrightarrow> code = KeyChar ch \<Longrightarrow> is_char ch"
proof -
  assume code: "kitty_codepoint_to_keycode v = Some code" "code = KeyChar ch"
  show ?thesis
  proof (cases "57399 \<le> unat v \<and> unat v \<le> 57408")
    case True
    then have "ch = of_nat (48 + (unat v - 57399))"
      using code by (simp add: kitty_codepoint_to_keycode_def Let_def del: of_nat_add of_nat_diff)
    moreover have "48 + (unat v - 57399) < 0xD800" using True by linarith
    ultimately show ?thesis by (rule is_char_low)
  next
    case False
    with code show ?thesis
      by (auto simp: kitty_codepoint_to_keycode_def Let_def intro: is_char_from split: if_splits)
  qed
qed

text \<open>What a computation in the option type returns, if it returns.\<close>

definition yields :: "('a \<Rightarrow> bool) \<Rightarrow> 'a option \<Rightarrow> bool" where
  "yields P r \<longleftrightarrow> (\<forall>v. r = Some v \<longrightarrow> P v)"

lemma yields_intros:
  "(\<And>x. m = Some x \<Longrightarrow> yields P (f x)) \<Longrightarrow> yields P (Option.bind m f)"
  "(\<And>a b. e = (a, b) \<Longrightarrow> yields P (g a b)) \<Longrightarrow> yields P (case e of (a, b) \<Rightarrow> g a b)"
  "P v \<Longrightarrow> yields P (Some v)"
  by (auto simp: yields_def bind_eq_Some_conv split: prod.split)

lemma yieldsD: "yields P r \<Longrightarrow> r = Some v \<Longrightarrow> P v"
  by (simp add: yields_def)

lemma kitty_key_yields: "yields well_typed_key (parse_kitty_key_sequence data)"
  unfolding parse_kitty_key_sequence_def Let_def
  by (intro yields_intros)
    (auto intro!: with_text_typed with_shifted_typed with_kind_typed or_mods_ok simp: mods_ok dest: kitty_code_typed split: option.split)

lemma other_key_yields: "yields well_typed_key (parse_modify_other_keys_sequence data)"
  unfolding parse_modify_other_keys_sequence_def
  by (intro yields_intros) (auto simp: mods_ok dest: kitty_code_typed)

lemma modified_key_yields:
  "(\<And>ch. code \<noteq> Some (KeyChar ch)) \<Longrightarrow> yields well_typed_key (modified_key code parts)"
  unfolding modified_key_def Let_def
  by (intro yields_intros) (auto simp: mods_ok)

lemma letters_are_no_chars: "letter_code c \<noteq> Some (KeyChar ch)" "tilde_code s \<noteq> Some (KeyChar ch)"
  by (simp_all add: letter_code_def tilde_code_def)

lemma tilde_yields: "yields well_typed_key (parse_tilde_special body)"
  unfolding parse_tilde_special_def by (intro yields_intros modified_key_yields) (rule letters_are_no_chars)

lemma xterm_yields: "yields well_typed_key (parse_xterm_modified_special_sequence data)"
proof -
  have "yields well_typed_key (do { parts \<leftarrow> p; modified_key (letter_code c) parts })" for p c
    by (intro yields_intros modified_key_yields) (rule letters_are_no_chars)
  then show ?thesis
    unfolding parse_xterm_modified_special_sequence_def
    by (intro yields_intros) (auto split: option.split list.split intro: tilde_yields simp: yields_def [of _ None])
qed

lemma legacy_specials_typed: "map_of legacy_specials data = Some key \<Longrightarrow> well_typed_key key"
  by (drule map_of_SomeD) (auto simp: legacy_specials_def Let_def)

lemma ctrl_yields: "yields well_typed_key (parse_legacy_ctrl_char ch)"
  by (auto simp: yields_def parse_legacy_ctrl_char_def is_char_small intro: is_char_from split: if_splits)

lemma single_yields: "is_char ch \<Longrightarrow> yields well_typed_key (parse_single_char ch)"
  using ctrl_yields [of ch] by (auto simp: yields_def parse_single_char_def split: option.splits)

text \<open>A well-formed string decodes to characters.\<close>

lemma continuation_nat: "continuation c \<Longrightarrow> (of_char c :: nat) mod 64 = of_char c - 128 \<and> 128 \<le> (of_char c :: nat) \<and> of_char c < (192 :: nat)"
  by (auto simp: continuation_def Let_def mod_if)

lemma utf8_tail_char: "utf8_tail w n cs = Utf8Char m \<Longrightarrow> n \<le> length cs \<and> (\<forall>i < n. continuation (cs ! i)) \<and> m = w"
proof (induction w n cs rule: utf8_tail.induct)
  case (3 w n c cs)
  then show ?case by (auto simp: less_Suc_eq_0_disj split: if_splits)
qed simp_all

lemma three_bytes:
  fixes n a b :: nat
  assumes "0xE0 \<le> n" "n < 0xF0" "b < 64" "a < 64" "n = 0xED \<Longrightarrow> a < 32"
  shows "(n - 224) * 4096 + a * 64 + b < 0xD800 \<or> 0xE000 \<le> (n - 224) * 4096 + a * 64 + b \<and> (n - 224) * 4096 + a * 64 + b \<le> 0x10FFFF"
proof -
  obtain m where n: "n = 224 + m" using assms(1) by (metis le_Suc_ex)
  consider "m \<le> 12" | "m = 13" | "14 \<le> m" by linarith
  then show ?thesis
  proof cases
    case 1
    then have "m * 4096 + a * 64 + b < 0xD800" using assms(3,4) by linarith
    then show ?thesis by (simp add: n)
  next
    case 2
    then have "a < 32" using assms(5) by (simp add: n)
    then have "m * 4096 + a * 64 + b < 0xD800" using assms(3) 2 by linarith
    then show ?thesis by (simp add: n)
  next
    case 3
    then have "0xE000 \<le> m * 4096 + a * 64 + b" "m * 4096 + a * 64 + b \<le> 0x10FFFF"
      using assms(2-4) by (simp_all add: n)
    then show ?thesis by (simp add: n)
  qed
qed

lemma four_bytes:
  fixes n a b c :: nat
  assumes "0xF0 \<le> n" "n \<le> 0xF4" "b < 64" "c < 64" "a < 64" "n = 0xF0 \<Longrightarrow> 16 \<le> a" "n = 0xF4 \<Longrightarrow> a < 16"
  shows "0xE000 \<le> (n - 240) * 262144 + a * 4096 + b * 64 + c \<and> (n - 240) * 262144 + a * 4096 + b * 64 + c \<le> 0x10FFFF"
proof -
  obtain m where n: "n = 240 + m" using assms(1) by (metis le_Suc_ex)
  consider "m = 0" | "1 \<le> m" "m \<le> 3" | "m = 4" using assms(2) n by linarith
  then have "0xE000 \<le> m * 262144 + a * 4096 + b * 64 + c \<and> m * 262144 + a * 4096 + b * 64 + c \<le> 0x10FFFF"
  proof cases
    case 1
    with assms(6) n have "16 \<le> a" by simp
    with 1 assms(3-5) show ?thesis by simp
  next
    case 2
    with assms(3-5) show ?thesis by simp
  next
    case 3
    with assms(7) n have "a < 16" by simp
    with 3 assms(3,4) show ?thesis by simp
  qed
  then show ?thesis by (simp add: n)
qed

text \<open>The number that the first character of a string denotes.\<close>

lemma first_char_value:
  assumes "first_utf8 (b # bs) = Utf8Char n" "next_char (b # bs) = Some (ch, rest)"
  shows "is_char ch"
proof -
  let ?n = "of_char b :: nat"
  have byte: "(of_char c :: nat) < 256" for c by simp
  consider "?n < 128" | "\<not> ?n < 128" "0xC2 \<le> ?n" "?n < 0xE0" | "0xE0 \<le> ?n" "?n < 0xF0" | "0xF0 \<le> ?n" "?n \<le> 0xF4"
    using assms(1) by (force simp: Let_def split: if_splits)
  then show ?thesis
  proof cases
    case 1
    with assms(2) have "ch = of_nat ?n" by (simp add: next_char_def Let_def)
    moreover have "?n < 0xD800" using 1 by linarith
    ultimately show ?thesis by (rule is_char_low)
  next
    case 2
    define t where "t = (if 0 < length bs then of_char (bs ! 0) mod 64 else 0 :: nat)"
    have "ch = of_nat (?n mod 32 * 64 + t)"
      using assms(2) 2 by (simp add: next_char_def Let_def t_def)
    moreover have "?n mod 32 < 32" "t < 64" by (simp_all add: t_def)
    then have "?n mod 32 * 64 + t < 0xD800" by linarith
    ultimately show ?thesis by (rule is_char_low)
  next
    case 3
    then obtain c ds where bs: "bs = c # ds" "second_ok ?n c" "utf8_tail 3 1 ds = Utf8Char n"
      using assms(1) by (cases bs) (auto simp: Let_def split: if_splits)
    let ?a = "(of_char c :: nat) mod 64"
    have ds: "ds \<noteq> []" using utf8_tail_char [OF bs(3)] by auto
    with assms(2) 3 bs(1) have ch: "ch = of_nat (?n mod 16 * 4096 + ?a * 64 + of_char (ds ! 0) mod 64)"
      by (cases ds) (auto simp: next_char_def Let_def)
    have m: "?n mod 16 = ?n - 224" using 3 by (simp add: mod_if)
    have "(of_char (ds ! 0) :: nat) mod 64 < 64" "?a < 64" by simp_all
    moreover have "?a < 32" if "?n = 0xED" using bs(2) that by (auto simp: second_ok_def Let_def mod_if split: if_splits)
    ultimately have "?n mod 16 * 4096 + ?a * 64 + of_char (ds ! 0) mod 64 < 0xD800 \<or>
        0xE000 \<le> ?n mod 16 * 4096 + ?a * 64 + of_char (ds ! 0) mod 64 \<and> ?n mod 16 * 4096 + ?a * 64 + of_char (ds ! 0) mod 64 \<le> 0x10FFFF"
      unfolding m using 3 by (intro three_bytes)
    then show ?thesis unfolding ch by (rule is_char_nat)
  next
    case 4
    then obtain c ds where bs: "bs = c # ds" "second_ok ?n c" "utf8_tail 4 2 ds = Utf8Char n"
      using assms(1) by (cases bs) (auto simp: Let_def split: if_splits)
    let ?a = "(of_char c :: nat) mod 64"
    have "2 \<le> length ds" using utf8_tail_char [OF bs(3)] by simp
    with assms(2) 4 bs(1) have ch: "ch = of_nat (?n mod 8 * 262144 + ?a * 4096 + of_char (ds ! 0) mod 64 * 64 + of_char (ds ! 1) mod 64)"
      by (cases ds; cases "tl ds") (auto simp: next_char_def Let_def)
    have m: "?n mod 8 = ?n - 240" using 4 by (simp add: mod_if)
    have "(of_char (ds ! 0) :: nat) mod 64 < 64" "(of_char (ds ! 1) :: nat) mod 64 < 64" "?a < 64" by simp_all
    moreover have "16 \<le> ?a" if "?n = 0xF0" using bs(2) that by (auto simp: second_ok_def Let_def mod_if split: if_splits)
    moreover have "?a < 16" if "?n = 0xF4" using bs(2) that by (auto simp: second_ok_def Let_def mod_if split: if_splits)
    ultimately have "0xE000 \<le> ?n mod 8 * 262144 + ?a * 4096 + of_char (ds ! 0) mod 64 * 64 + of_char (ds ! 1) mod 64 \<and>
        ?n mod 8 * 262144 + ?a * 4096 + of_char (ds ! 0) mod 64 * 64 + of_char (ds ! 1) mod 64 \<le> 0x10FFFF"
      unfolding m using 4 by (intro four_bytes)
    then show ?thesis unfolding ch by (intro is_char_nat) blast
  qed
qed

lemma single_char_valid:
  assumes "from_utf8 s" "single_char s = Some ch"
  shows "is_char ch"
proof (cases s)
  case (Cons b bs)
  then obtain rest where next_ch: "next_char (b # bs) = Some (ch, rest)"
    using assms(2) by (auto simp: single_char_def split: option.splits list.splits)
  obtain n where "first_utf8 (b # bs) = Utf8Char n"
    using assms(1) unfolding Cons by (subst (asm) from_utf8.simps) (simp del: first_utf8.simps split: utf8_first.splits)
  from first_char_value [OF this next_ch] show ?thesis .
qed (use assms in \<open>simp add: single_char_def next_char_def\<close>)

lemma escape_rest_utf8: "from_utf8 (ESC # s) \<Longrightarrow> from_utf8 s"
  by (subst (asm) from_utf8.simps) (simp add: ESC_def)

lemma legacy_yields: "from_utf8 data \<Longrightarrow> yields well_typed_key (parse_legacy_key_sequence data)"
proof (induction data rule: parse_legacy_key_sequence.induct)
  case (1 data)
  have special: "yields well_typed_key (parse_legacy_special_sequence data)"
    using xterm_yields [of data] legacy_specials_typed [of data]
    by (auto simp: parse_legacy_special_sequence_def yields_def split: option.splits)
  show ?case
  proof (cases data)
    case (Cons c rest)
    show ?thesis
    proof (cases "c = ESC")
      case True
      have alt: "well_typed_key (key\<lparr>tk_modifiers := tk_modifiers key OR ALT\<rparr>)"
        if "parse_legacy_special_sequence data = None" "data \<noteq> [byte 13]" "data \<noteq> [byte 9]" "data \<noteq> [ESC]"
          "data \<noteq> [ESC, byte 127]" "data \<noteq> [byte 127]" "single_char rest \<noteq> None" "parse_legacy_key_sequence rest = Some key" for key
        using "1.IH" [OF that(1-6) Cons True] that(7,8) "1.prems" Cons True escape_rest_utf8 [of rest]
        by (auto dest: yieldsD)
      show ?thesis
        unfolding parse_legacy_key_sequence.simps [of data]
        using special alt True Cons
        by (auto simp: yields_def split: option.splits)
    next
      case False
      have "yields well_typed_key (Option.bind (single_char data) parse_single_char)"
        using single_char_valid [OF "1.prems"] by (intro yields_intros single_yields)
      then show ?thesis
        unfolding parse_legacy_key_sequence.simps [of data]
        using special False Cons
        by (auto simp: yields_def split: option.splits)
    qed
  next
    case Nil
    then show ?thesis
      unfolding parse_legacy_key_sequence.simps [of data] using special by (auto simp: yields_def split: option.splits)
  qed
qed

lemma key_sequence_typed: "from_utf8 data \<Longrightarrow> parse_terminal_key_sequence data = Some key \<Longrightarrow> well_typed_key key"
  using yieldsD [OF kitty_key_yields] yieldsD [OF other_key_yields] yieldsD [OF legacy_yields]
  by (auto simp: parse_terminal_key_sequence_def split: option.splits)

text \<open>C29: Whatever bytes a terminal sends, a key event read from them is a key: its character is a Unicode scalar
  value, its modifiers are among the six known ones, it counts once, and a release carries no text.\<close>

theorem key_events_are_well_typed:
  assumes "extract_one_event up buf = Some (Some (RawKey key, consumed))"
  shows "well_typed_key key"
proof (cases "hd buf = ESC")
  case True
  then obtain s where "escape_event s = Some (Some (RawKey key))"
    using assms by (auto simp: extract_one_event_def Let_def split: if_splits option.splits)
  then obtain k where "from_utf8 s" "parse_terminal_key_sequence s = Some k" "key = with_vt_bytes (bytes_of s) k"
    by (auto simp: escape_event_def split: if_splits option.splits)
  then show ?thesis using key_sequence_typed by simp
next
  case False
  then have "first_complete_utf8_char_len buf = Some consumed"
    "\<exists>k b. parse_terminal_key_sequence (take consumed buf) = Some k \<and> key = with_vt_bytes b (with_text_commit up k)"
    using assms by (auto simp: extract_one_event_def Let_def split: if_splits option.splits)
  moreover from this(1) have "from_utf8 (take consumed buf)"
    by (auto simp: first_complete_utf8_char_len_def split: list.splits option.splits if_splits)
  ultimately show ?thesis using key_sequence_typed by auto
qed

theorem key_events_are_well_typed_witness:
  "\<exists>key. extract_one_event (\<lambda>_. False) ''a'' = Some (Some (RawKey key, 1)) \<and> well_typed_key key"
proof -
  have "extract_one_event (\<lambda>_. False) ''a'' = Some (Some (RawKey
      \<lparr>tk_code = KeyChar 97, tk_modifiers = 0, tk_kind = Press, tk_repeat_count = 1, tk_shifted_codepoint = None,
       tk_generated_text = Some ''a'', tk_physical_identity_hint = False, tk_windows_dead_key = False, tk_source = Vt [97]\<rparr>, 1))"
    by code_simp
  with key_events_are_well_typed [OF this] show ?thesis by blast
qed

end
