(* ===== verification/Public_Id.thy ===== *)
theory Public_Id
  imports Text_Parse
begin

text \<open>
  The public ids of workspaces, tabs and panes (the free functions of
  \<open>herdr/src/workspace.rs\<close>): numbers without a zero digit in an alphabet of 32 characters, the ids
  built from them, the process-wide counter of workspaces and its reservation when a session is
  restored. A \<open>usize\<close> is a natural number; where the code checks for overflow the limit is that of
  64 bits.
\<close>

definition USIZE_MAX :: nat where "USIZE_MAX = 2 ^ 64 - 1"

definition PUBLIC_ID_ALPHABET :: string where
  "PUBLIC_ID_ALPHABET = ''123456789ABCDEFGHJKMNPQRSTVWXYZ0''"

text \<open>The loop of the encoder, in the order it pushes the digits.\<close>

function encode_digits :: "nat \<Rightarrow> string" where
  "encode_digits value =
     (if value = 0 then []
      else PUBLIC_ID_ALPHABET ! ((value - 1) mod length PUBLIC_ID_ALPHABET) #
           encode_digits ((value - 1) div length PUBLIC_ID_ALPHABET))"
  by auto
termination
  by (relation "measure id") (auto simp: PUBLIC_ID_ALPHABET_def)

declare encode_digits.simps [simp del]

definition encode_public_number :: "nat \<Rightarrow> string" where
  "encode_public_number value = (if value = 0 then ''0'' else rev (encode_digits value))"

definition checked_usize :: "nat \<Rightarrow> nat option" where
  "checked_usize n = (if n \<le> USIZE_MAX then Some n else None)"

text \<open>The characters of a string are compared with ASCII characters, so its bytes will do.\<close>

fun decode_digits :: "nat \<Rightarrow> string \<Rightarrow> nat option" where
  "decode_digits decoded [] = Some decoded"
| "decode_digits decoded (ch # chs) =
     do {
       digit \<leftarrow> position (\<lambda>candidate. candidate = ch) PUBLIC_ID_ALPHABET;
       scaled \<leftarrow> checked_usize (decoded * length PUBLIC_ID_ALPHABET);
       next \<leftarrow> checked_usize (scaled + (digit + 1));
       decode_digits next chs
     }"

definition decode_public_number :: "string \<Rightarrow> nat option" where
  "decode_public_number value = decode_digits 0 value"

definition public_workspace_number :: "string \<Rightarrow> nat option" where
  "public_workspace_number i = Option.bind (strip_prefix ''w'' i) decode_public_number"

definition public_pane_id_for_number :: "string \<Rightarrow> nat \<Rightarrow> string" where
  "public_pane_id_for_number workspace_id pane_number = workspace_id @ '':p'' @ encode_public_number pane_number"

definition public_tab_id_for_number :: "string \<Rightarrow> nat \<Rightarrow> string" where
  "public_tab_id_for_number workspace_id tab_number = workspace_id @ '':t'' @ encode_public_number tab_number"

text \<open>The counter \<open>NEXT_WORKSPACE_ID\<close> is read and incremented in one atomic step.\<close>

definition generate_workspace_id :: "u64 \<Rightarrow> string \<times> u64" where
  "generate_workspace_id counter = (''w'' @ encode_public_number (unat counter), counter + 1)"

text \<open>The loop of \<open>reserve_workspace_ids\<close> retries until the counter is at least \<open>next\<close>, which is
  one atomic maximum; nothing is reserved when no id has a number or the next number is no
  \<open>usize\<close>.\<close>

definition reserve_workspace_ids :: "string list \<Rightarrow> u64 \<Rightarrow> u64" where
  "reserve_workspace_ids ids counter =
     (case List.map_filter public_workspace_number ids of
        [] \<Rightarrow> counter
      | n # ns \<Rightarrow>
          (case checked_usize (Max (set (n # ns)) + 1) of
             None \<Rightarrow> counter
           | Some next \<Rightarrow> if counter < of_nat next then of_nat next else counter))"

text \<open>The rest of a tab name that begins with exactly one digit.\<close>

definition numbered_tab_suffix :: "string \<Rightarrow> string option" where
  "numbered_tab_suffix name =
     (case name of
        [] \<Rightarrow> None
      | c # cs \<Rightarrow>
          if digit_value c \<noteq> None \<and> \<not> (case cs of [] \<Rightarrow> False | d # _ \<Rightarrow> digit_value d \<noteq> None)
          then str_slice name 1 (length name) else None)"

section \<open>Numbers both ways\<close>

lemma usize_numeral [simp]: "numeral k \<le> USIZE_MAX \<longleftrightarrow> numeral k \<le> (18446744073709551615 :: nat)"
  "numeral k < USIZE_MAX \<longleftrightarrow> numeral k < (18446744073709551615 :: nat)" "1 \<le> USIZE_MAX" "0 < USIZE_MAX"
  by (simp_all add: USIZE_MAX_def)

lemma alphabet_length [simp]: "length PUBLIC_ID_ALPHABET = 32"
  by (simp add: PUBLIC_ID_ALPHABET_def)

lemma alphabet_distinct: "distinct PUBLIC_ID_ALPHABET"
  by (simp add: PUBLIC_ID_ALPHABET_def)

lemma position_alphabet [simp]:
  "i < 32 \<Longrightarrow> position (\<lambda>candidate. candidate = PUBLIC_ID_ALPHABET ! i) PUBLIC_ID_ALPHABET = Some i"
proof -
  assume i: "i < 32"
  then obtain j where j: "position (\<lambda>c. c = PUBLIC_ID_ALPHABET ! i) PUBLIC_ID_ALPHABET = Some j"
    using position_exists [of "PUBLIC_ID_ALPHABET ! i" PUBLIC_ID_ALPHABET "\<lambda>c. c = PUBLIC_ID_ALPHABET ! i"] by auto
  from position_Some [OF this] i have "j < 32 \<and> PUBLIC_ID_ALPHABET ! j = PUBLIC_ID_ALPHABET ! i" by simp
  then have "j = i" using nth_eq_iff_index_eq [OF alphabet_distinct, of j i] i by simp
  with j show ?thesis by simp
qed

lemma decode_digits_append:
  "decode_digits d (xs @ ys) = Option.bind (decode_digits d xs) (\<lambda>v. decode_digits v ys)"
  by (induction xs arbitrary: d) (auto simp: bind_eq_Some_conv split: option.splits bind_splits)

lemma decode_rev_digits: "n \<le> USIZE_MAX \<Longrightarrow> decode_digits 0 (rev (encode_digits n)) = Some n"
proof (induction n rule: encode_digits.induct)
  case (1 n)
  show ?case
  proof (cases "n = 0")
    case True
    then show ?thesis by (simp add: encode_digits.simps)
  next
    case False
    let ?q = "(n - 1) div 32" and ?r = "(n - 1) mod 32"
    have split: "?q * 32 + (?r + 1) = n" using False by simp
    then have "checked_usize (?q * 32) = Some (?q * 32)" "checked_usize (?q * 32 + (?r + 1)) = Some n"
      using 1(2) by (auto simp: checked_usize_def)
    moreover have "decode_digits 0 (rev (encode_digits ?q)) = Some ?q"
      using 1 False split by simp
    ultimately show ?thesis
      using False by (subst encode_digits.simps) (simp add: decode_digits_append del: Suc_pred)
  qed
qed

lemma decode_encode: "0 < n \<Longrightarrow> n \<le> USIZE_MAX \<Longrightarrow> decode_public_number (encode_public_number n) = Some n"
  by (simp add: decode_public_number_def encode_public_number_def decode_rev_digits)

lemma decode_digits_ge: "decode_digits d s = Some n \<Longrightarrow> d + length s \<le> n \<and> n \<le> max d USIZE_MAX"
  by (induction s arbitrary: d) (fastforce simp: bind_eq_Some_conv checked_usize_def split: if_splits)+

lemma decode_digits_canonical: "decode_digits 0 s = Some n \<Longrightarrow> rev (encode_digits n) = s"
proof (induction s arbitrary: n rule: rev_induct)
  case Nil
  then show ?case by (simp add: encode_digits.simps)
next
  case (snoc c s)
  then obtain q i where q: "decode_digits 0 s = Some q"
      and i: "position (\<lambda>candidate. candidate = c) PUBLIC_ID_ALPHABET = Some i" and n: "n = q * 32 + (i + 1)"
    by (auto simp: decode_digits_append bind_eq_Some_conv checked_usize_def split: if_splits)
  from position_Some [OF i] have "i < 32" "PUBLIC_ID_ALPHABET ! i = c" by simp_all
  moreover have "(n - 1) mod 32 = i" "(n - 1) div 32 = q" "n \<noteq> 0" using n \<open>i < 32\<close> by simp_all
  ultimately show ?case
    using snoc.IH [OF q] by (subst encode_digits.simps) simp
qed

text \<open>Public numbers are written and read without loss and in one way only: every number from one
  to the largest \<open>usize\<close> is read back from what was written, and a non-empty text that is read as a
  number is exactly what is written for it.\<close>

theorem public_number_roundtrip:
  "(0 < n \<and> n \<le> USIZE_MAX \<longrightarrow> decode_public_number (encode_public_number n) = Some n) \<and>
   (s \<noteq> [] \<and> decode_public_number s = Some m \<longrightarrow> encode_public_number m = s \<and> 0 < m \<and> m \<le> USIZE_MAX)"
proof (intro conjI impI)
  assume s: "s \<noteq> [] \<and> decode_public_number s = Some m"
  then have d: "decode_digits 0 s = Some m" by (simp add: decode_public_number_def)
  have "length s \<le> m" "m \<le> max 0 USIZE_MAX" using decode_digits_ge [OF d] by simp_all
  moreover from s this have "0 < m" by (cases s) auto
  ultimately show "0 < m" "m \<le> USIZE_MAX" "encode_public_number m = s"
    using decode_digits_canonical [OF d] by (simp_all add: encode_public_number_def)
qed (simp add: decode_encode)

theorem public_number_roundtrip_witness:
  "decode_public_number (encode_public_number 1000) = Some 1000 \<and> encode_public_number 1000 = ''Z8''"
proof -
  have e: "encode_public_number 1000 = ''Z8''"
    by (simp add: encode_public_number_def encode_digits.simps PUBLIC_ID_ALPHABET_def)
  then show ?thesis using public_number_roundtrip [of 1000 "''Z8''" 1000] by simp
qed

section \<open>Ids of workspaces\<close>

lemma encode_inj: "0 < m \<Longrightarrow> 0 < n \<Longrightarrow> m \<le> USIZE_MAX \<Longrightarrow> n \<le> USIZE_MAX \<Longrightarrow>
    encode_public_number m = encode_public_number n \<Longrightarrow> m = n"
  by (metis decode_encode option.inject)

lemma unat_usize: "unat c \<le> USIZE_MAX" for c :: u64
proof -
  have "unat c < 2 ^ 64" using unsigned_less [of c, where ?'a = nat] by simp
  then show ?thesis unfolding USIZE_MAX_def by linarith
qed

text \<open>C40: After a session was restored and its ids reserved, a fresh workspace id is none of theirs,
  unless a restored id uses up the last number, and the counter never goes back.\<close>

theorem reserved_ids_are_fresh:
  assumes "0 < counter" and "\<forall>i \<in> set ids. \<forall>n. public_workspace_number i = Some n \<longrightarrow> n < USIZE_MAX"
  shows "fst (generate_workspace_id (reserve_workspace_ids ids counter)) \<notin> set ids \<and>
         counter \<le> reserve_workspace_ids ids counter"
proof -
  let ?c = "reserve_workspace_ids ids counter" and ?ns = "List.map_filter public_workspace_number ids"
  have max_less: "n \<in> set ?ns \<Longrightarrow> n < USIZE_MAX" for n
    using assms(2) by (auto simp: List.map_filter_def)
  have le: "counter \<le> ?c"
    by (auto simp: reserve_workspace_ids_def split: list.splits option.splits)
  have above: "n < unat ?c" if n: "n \<in> set ?ns" for n
  proof -
    from n obtain m ms where ns: "?ns = m # ms" by (cases ?ns) auto
    let ?x = "Max (set ?ns) + 1"
    have "Max (set ?ns) < USIZE_MAX" by (rule max_less [OF Max_in]) (use n in auto)
    then have x: "checked_usize ?x = Some ?x" "unat (of_nat ?x :: u64) = ?x"
      by (simp_all add: checked_usize_def USIZE_MAX_def unat_of_nat del: of_nat_Suc of_nat_add)
    have "n < ?x" using Max_ge [OF _ n] by simp
    moreover have "of_nat ?x \<le> ?c" unfolding reserve_workspace_ids_def ns
      using x(1) ns by (auto simp del: of_nat_Suc of_nat_add)
    ultimately show ?thesis using x(2) by (simp add: word_le_nat_alt del: of_nat_Suc of_nat_add)
  qed
  have pos: "0 < unat ?c" using le assms(1) by (simp add: word_le_nat_alt word_less_nat_alt)
  have "fst (generate_workspace_id ?c) \<notin> set ids"
  proof
    assume i: "fst (generate_workspace_id ?c) \<in> set ids"
    have "public_workspace_number (fst (generate_workspace_id ?c)) = Some (unat ?c)"
      using decode_encode [OF pos unat_usize]
      by (simp add: generate_workspace_id_def public_workspace_number_def strip_prefix_def)
    with i have "unat ?c \<in> set ?ns" by (force simp: List.map_filter_def)
    from above [OF this] show False by simp
  qed
  with le show ?thesis by simp
qed

theorem reserved_ids_are_fresh_witness:
  "fst (generate_workspace_id (reserve_workspace_ids [''w3'', ''project'', ''wA''] 1)) \<notin> set [''w3'', ''project'', ''wA''] \<and>
   1 \<le> reserve_workspace_ids [''w3'', ''project'', ''wA''] 1"
proof (rule reserved_ids_are_fresh)
  show "\<forall>i \<in> set [''w3'', ''project'', ''wA'']. \<forall>n. public_workspace_number i = Some n \<longrightarrow> n < USIZE_MAX"
    by (simp add: public_workspace_number_def strip_prefix_def decode_public_number_def PUBLIC_ID_ALPHABET_def
        checked_usize_def USIZE_MAX_def)
qed simp

end
