(* ===== verification/Tab.thy ===== *)
theory Tab
  imports Layout Public_Id "HOL-Library.AList"
begin

text \<open>
  A tab of a workspace (\<open>herdr/src/workspace/tab.rs\<close>): its layout, the view state of its panes
  and its root pane. Hash maps are association lists in the order of their iteration. Starting a
  program in a pane is an argument that succeeds or fails; the geometry, theme and channels a tab
  only hands on to it are left out.
\<close>

section \<open>Panes, terminals and the ids of the process\<close>

datatype TerminalId = TerminalId string

record PaneState =
  attached_terminal_id :: TerminalId
  seen :: bool
  right_click_passthrough :: bool

definition new_pane_state :: "TerminalId \<Rightarrow> PaneState" where
  "new_pane_state terminal =
     \<lparr>attached_terminal_id = terminal, seen = True, right_click_passthrough = False\<rparr>"

text \<open>What \<open>TerminalState::new\<close> and \<open>with_launch_argv\<close> set; every other field is constant.\<close>

record TerminalStart =
  term_id :: TerminalId
  term_cwd :: string
  launch_argv :: "string list option"

record Globals =
  next_pane_id :: u32
  next_workspace_id :: u64
  next_terminal_id :: u64

fun show_hex :: "nat \<Rightarrow> string" where
  "show_hex n =
     (let digit = ''0123456789abcdef'' ! (n mod 16)
      in if n < 16 then [digit] else show_hex (n div 16) @ [digit])"

declare show_hex.simps [simp del]

definition alloc_terminal_id :: "nat \<Rightarrow> Globals \<Rightarrow> TerminalId \<times> Globals" where
  "alloc_terminal_id micros g =
     (TerminalId (''term_'' @ show_hex micros @ show_hex (unat (next_terminal_id g))),
      g\<lparr>next_terminal_id := next_terminal_id g + 1\<rparr>)"

datatype PaneLaunchIdentity = Inherit | Managed string string string | OmitPane

record PaneLaunchEnv =
  extra :: "(string \<times> string) list"
  identity :: PaneLaunchIdentity

definition from_extra :: "(string \<times> string) list \<Rightarrow> PaneLaunchEnv" where
  "from_extra env = \<lparr>extra = env, identity = Inherit\<rparr>"

definition with_identity :: "PaneLaunchEnv \<Rightarrow> string \<Rightarrow> string \<Rightarrow> string \<Rightarrow> PaneLaunchEnv" where
  "with_identity self workspace tab pane = self\<lparr>identity := Managed workspace tab pane\<rparr>"

text \<open>The program of a pane: the user's shell, a shell command or an argument vector.\<close>

datatype SplitCommand = ShellCommand string | Argv "string list"

type_synonym 'rt spawner =
  "PaneId \<Rightarrow> string \<Rightarrow> PaneLaunchEnv \<Rightarrow> SplitCommand option \<Rightarrow> string + 'rt"

section \<open>The tab\<close>

record Tab =
  tab_custom_name :: "string option"
  number :: nat
  root_pane :: PaneId
  tab_layout :: TileLayout
  tab_panes :: "(PaneId \<times> PaneState) list"
  zoomed :: bool

record MovedPane =
  moved_id :: PaneId
  moved_state :: PaneState

record 'rt NewPane =
  new_id :: PaneId
  new_terminal :: TerminalStart
  new_runtime :: 'rt

definition new_with_runtime ::
    "'rt spawner \<Rightarrow> nat \<Rightarrow> Globals \<Rightarrow> nat \<Rightarrow> string \<Rightarrow> PaneLaunchEnv \<Rightarrow> string list option \<Rightarrow>
     (string + Tab \<times> TerminalStart \<times> 'rt) \<times> Globals" where
  "new_with_runtime spawn micros g num initial_cwd launch_env argv =
     (let (layout, root_id, n) = new_layout (next_pane_id g);
          g = g\<lparr>next_pane_id := n\<rparr>
      in case spawn root_id initial_cwd launch_env (map_option Argv argv) of
           Inl e \<Rightarrow> (Inl e, g)
         | Inr runtime \<Rightarrow>
             (let (terminal_id, g) = alloc_terminal_id micros g
              in (Inr (\<lparr>tab_custom_name = None, number = num, root_pane = root_id, tab_layout = layout,
                        tab_panes = [(root_id, new_pane_state terminal_id)], zoomed = False\<rparr>,
                       \<lparr>term_id = terminal_id, term_cwd = initial_cwd, launch_argv = argv\<rparr>, runtime), g)))"

definition is_auto_named :: "Tab \<Rightarrow> bool" where
  "is_auto_named self \<longleftrightarrow> tab_custom_name self = None"

definition tab_set_custom_name :: "Tab \<Rightarrow> string \<Rightarrow> Tab" where
  "tab_set_custom_name self name = self\<lparr>tab_custom_name := Some name\<rparr>"

text \<open>The working directory of the process, or the root, is \<open>here\<close>. A failure of the program
  takes the new pane out of the layout again.\<close>

definition split_pane_with_runtime ::
    "'rt spawner \<Rightarrow> nat \<Rightarrow> string \<Rightarrow> Globals \<Rightarrow> Tab \<Rightarrow> PaneId \<Rightarrow> bool \<Rightarrow> Direction \<Rightarrow> f32 option \<Rightarrow>
     string option \<Rightarrow> PaneLaunchEnv \<Rightarrow> SplitCommand option \<Rightarrow>
     ((string + 'rt NewPane) \<times> Tab \<times> Globals) option" where
  "split_pane_with_runtime spawn micros here g self target focus_new_pane direction ratio cwd launch_env command =
     (case split_pane (next_pane_id g) (tab_layout self) target direction
             (case ratio of Some r \<Rightarrow> r | None \<Rightarrow> f32_half) of
        (None, layout, n) \<Rightarrow>
          Some (Inl ''split target pane is not in the layout'', self\<lparr>tab_layout := layout\<rparr>, g\<lparr>next_pane_id := n\<rparr>)
      | (Some new, layout, n) \<Rightarrow>
          (let g = g\<lparr>next_pane_id := n\<rparr>;
               actual_cwd = (case cwd of Some c \<Rightarrow> c | None \<Rightarrow> here);
               launch_argv = (case command of Some (Argv argv) \<Rightarrow> Some argv | _ \<Rightarrow> None)
           in case spawn new actual_cwd launch_env command of
                Inl e \<Rightarrow>
                  map_option (\<lambda>(_, layout). (Inl e, self\<lparr>tab_layout := layout\<rparr>, g)) (close_pane layout new)
              | Inr runtime \<Rightarrow>
                  (let (terminal_id, g) = alloc_terminal_id micros g;
                       layout = (if focus_new_pane then focus_pane layout new else layout)
                   in Some (Inr \<lparr>new_id = new,
                                 new_terminal = \<lparr>term_id = terminal_id, term_cwd = actual_cwd, launch_argv = launch_argv\<rparr>,
                                 new_runtime = runtime\<rparr>,
                            self\<lparr>tab_layout := layout,
                                 tab_panes := AList.update new (new_pane_state terminal_id) (tab_panes self),
                                 zoomed := False\<rparr>, g))))"

definition tab_split_focused_command ::
    "'rt spawner \<Rightarrow> nat \<Rightarrow> string \<Rightarrow> Globals \<Rightarrow> Tab \<Rightarrow> Direction \<Rightarrow> string option \<Rightarrow> string \<Rightarrow> PaneLaunchEnv \<Rightarrow>
     ((string + 'rt NewPane) \<times> Tab \<times> Globals) option" where
  "tab_split_focused_command spawn micros here g self direction cwd command launch_env =
     split_pane_with_runtime spawn micros here g self (tl_focus (tab_layout self)) True direction None cwd
       launch_env (Some (ShellCommand command))"

definition promoted_root_if_needed :: "Tab \<Rightarrow> PaneId \<Rightarrow> PaneId option" where
  "promoted_root_if_needed self closing =
     (if root_pane self \<noteq> closing then None
      else find (\<lambda>i. i \<noteq> closing) (pane_ids (tab_layout self)))"

text \<open>\<open>close_pane\<close> and \<open>remove_pane\<close> of a tab are \<open>detach_pane\<close>.\<close>

definition detach_pane :: "Tab \<Rightarrow> PaneId \<Rightarrow> ((PaneId \<times> TerminalId) option \<times> Tab) option" where
  "detach_pane self i =
     (if pane_count (tab_layout self) \<le> 1 then Some (None, self)
      else
        let next_root = promoted_root_if_needed self i
        in case close_pane (tab_layout self) i of
             None \<Rightarrow> None
           | Some (_, layout) \<Rightarrow>
               (let self = self\<lparr>tab_layout := layout\<rparr>
                in case map_of (tab_panes self) i of
                     None \<Rightarrow> Some (None, self)
                   | Some pane \<Rightarrow>
                       Some (Some (i, attached_terminal_id pane),
                             self\<lparr>tab_panes := AList.delete i (tab_panes self), zoomed := False,
                                  root_pane := (case next_root of Some r \<Rightarrow> r | None \<Rightarrow> root_pane self)\<rparr>)))"

definition tab_from_existing_pane :: "nat \<Rightarrow> string option \<Rightarrow> MovedPane \<Rightarrow> Tab" where
  "tab_from_existing_pane num name moved =
     \<lparr>tab_custom_name = name, number = num, root_pane = moved_id moved,
      tab_layout = from_saved (Pane (moved_id moved)) (moved_id moved),
      tab_panes = [(moved_id moved, moved_state moved)], zoomed = False\<rparr>"

definition tab_take_pane :: "Tab \<Rightarrow> PaneId \<Rightarrow> (MovedPane option \<times> Tab) option" where
  "tab_take_pane self i =
     (case map_of (tab_panes self) i of
        None \<Rightarrow> Some (None, self)
      | Some pane \<Rightarrow>
          map_option
            (\<lambda>self. (Some \<lparr>moved_id = i, moved_state = pane\<rparr>,
                     self\<lparr>tab_panes := AList.delete i (tab_panes self), zoomed := False\<rparr>))
            (if 1 < pane_count (tab_layout self)
             then map_option (\<lambda>(_, layout).
                    self\<lparr>tab_layout := layout,
                         root_pane := (case promoted_root_if_needed self i of Some r \<Rightarrow> r | None \<Rightarrow> root_pane self)\<rparr>)
                    (close_pane (tab_layout self) i)
             else Some self))"

definition insert_existing_pane ::
    "Tab \<Rightarrow> PaneId \<Rightarrow> MovedPane \<Rightarrow> Direction \<Rightarrow> f32 \<Rightarrow> bool \<Rightarrow> (MovedPane + PaneId) \<times> Tab" where
  "insert_existing_pane self target moved direction ratio focus =
     (let (ok, layout) = insert_pane_near (tab_layout self) target (moved_id moved) direction ratio focus
      in if \<not> ok then (Inl moved, self\<lparr>tab_layout := layout\<rparr>)
         else (Inr (moved_id moved),
               self\<lparr>tab_layout := layout,
                    tab_panes := AList.update (moved_id moved) (moved_state moved) (tab_panes self),
                    zoomed := False\<rparr>))"

definition tab_terminal_id :: "Tab \<Rightarrow> PaneId \<Rightarrow> TerminalId option" where
  "tab_terminal_id self i = map_option attached_terminal_id (map_of (tab_panes self) i)"

section \<open>Invariant of a tab\<close>

definition tab_ids :: "Tab \<Rightarrow> PaneId list" where
  "tab_ids tab = pane_ids (tab_layout tab)"

definition tab_inv :: "u32 \<Rightarrow> Tab \<Rightarrow> bool" where
  "tab_inv n tab \<longleftrightarrow>
     layout_inv (n, tab_layout tab) \<and> set (map fst (tab_panes tab)) = set (tab_ids tab) \<and>
     distinct (map fst (tab_panes tab)) \<and> root_pane tab \<in> set (tab_ids tab)"

lemma layout_inv_mono: "layout_inv (n, l) \<Longrightarrow> n \<le> n' \<Longrightarrow> layout_inv (n', l)"
  by (auto simp: layout_inv_def list_all_iff)

lemma tab_inv_mono: "tab_inv n tab \<Longrightarrow> n \<le> n' \<Longrightarrow> tab_inv n' tab"
  by (auto simp: tab_inv_def layout_inv_mono)

lemma pane_count_ids: "pane_count (tab_layout tab) = length (tab_ids tab)"
  by (simp add: pane_count_def count_panes_eq tab_ids_def pane_ids_eq)

lemma tab_ids_nonempty [simp]: "tab_ids tab \<noteq> []"
  by (simp add: tab_ids_def pane_ids_eq)

lemma tab_inv_ids:
  assumes "tab_inv n tab"
  shows "distinct (tab_ids tab)" "i \<in> set (tab_ids tab) \<Longrightarrow> raw i < n"
    "map_of (tab_panes tab) i = None \<longleftrightarrow> i \<notin> set (tab_ids tab)"
  using assms by (auto simp: tab_inv_def layout_inv_def tab_ids_def list_all_iff map_of_eq_None_iff)

text \<open>Closing a pane of a layout with others keeps the rest, in order.\<close>

lemma close_pane_ids:
  assumes "layout_inv (n, l)" "1 < length (pane_ids l)" "i \<in> set (pane_ids l)"
  shows "\<exists>l'. close_pane l i = Some (True, l') \<and> layout_inv (n, l') \<and> pane_ids l' = remove1 i (pane_ids l)"
proof -
  obtain b l' where close: "close_pane l i = Some (b, l')" and ids: "b" "pane_ids l' = remove1 i (pane_ids l)"
  proof (cases "i = tl_focus l")
    case True
    with close_focused_spec [OF assms(1,2)] that show ?thesis by (auto simp: close_pane_def pane_ids_eq)
  next
    case False
    with close_pane_other [OF assms(1-3)] that show ?thesis by (auto simp: pane_ids_eq)
  qed
  with close_inv [OF assms(1) close] show ?thesis by auto
qed

lemma new_layout_ids:
  "n \<noteq> - 1 \<Longrightarrow> new_layout n = (l, i, n') \<Longrightarrow> layout_inv (n', l) \<and> pane_ids l = [i] \<and> i = PaneId n \<and> n' = n + 1"
  using alloc_less [of n] by (auto simp: new_layout_def alloc_def layout_inv_def pane_ids_eq ratios_ok_def)

lemma split_pane_ids:
  assumes "layout_inv (n, l)" "n \<noteq> - 1" "split_pane n l t d r = (Some new, l', n')"
  shows "layout_inv (n', l') \<and> pane_ids l' = insert_after t new (pane_ids l) \<and> new = PaneId n \<and> n' = n + 1 \<and>
    t \<in> set (pane_ids l) \<and> new \<notin> set (pane_ids l)"
proof -
  obtain p where p: "find_pane_mut (tl_root l) t = Some p"
    using assms(3) by (auto simp: split_pane_def split: option.splits)
  have "t \<in> set (pane_ids l)" using find_pane_mut_in [OF p] by (simp add: pane_ids_eq)
  moreover have "PaneId n \<notin> set (pane_ids l)" using assms(1) by (auto simp: layout_inv_def list_all_iff)
  moreover have "pane_ids l' = insert_after t new (pane_ids l) \<and> new = PaneId n \<and> n' = n + 1"
    using assms(3) p by (auto simp: split_pane_def alloc_def pane_ids_eq node_ids_assign [OF p])
  ultimately show ?thesis using split_inv [OF assms] by simp
qed

lemma insert_pane_ids:
  assumes "layout_inv (n, l)" "raw i < n" "insert_pane_near l t i d r foc = (ok, l')"
  shows "layout_inv (n, l') \<and> (ok \<longleftrightarrow> t \<in> set (pane_ids l) \<and> i \<notin> set (pane_ids l)) \<and>
    (if ok then pane_ids l' = insert_after t i (pane_ids l) else l' = l)"
proof -
  have "layout_inv (n, l')" using insert_inv [OF assms(1,2), of t d r foc] assms(3) by simp
  moreover have "(ok \<longleftrightarrow> t \<in> set (pane_ids l) \<and> i \<notin> set (pane_ids l)) \<and>
    (if ok then pane_ids l' = insert_after t i (pane_ids l) else l' = l)"
  proof (cases "find_pane_mut (tl_root l) t")
    case None
    then have "t \<notin> set (pane_ids l)" by (simp add: pane_ids_eq)
    with None assms(3) show ?thesis by (auto simp: insert_pane_near_def simp del: find_pane_mut_None split: if_splits)
  next
    case (Some p)
    then have "t \<in> set (pane_ids l)" using find_pane_mut_in [OF Some] by (simp add: pane_ids_eq)
    with Some assms(3) show ?thesis
      by (auto simp: insert_pane_near_def Let_def pane_ids_eq set_focus_def node_ids_assign [OF Some]
          split: if_splits)
  qed
  ultimately show ?thesis by simp
qed

section \<open>What the operations do\<close>

lemma new_tab_ids:
  assumes "next_pane_id g \<noteq> - 1" "new_with_runtime spawn micros g num cwd env argv = (r, g')"
  shows "next_pane_id g' = next_pane_id g + 1 \<and> next_workspace_id g' = next_workspace_id g \<and>
    (case r of Inl e \<Rightarrow> True
     | Inr (tab, _, _) \<Rightarrow> tab_inv (next_pane_id g') tab \<and> tab_ids tab = [PaneId (next_pane_id g)] \<and>
         root_pane tab = PaneId (next_pane_id g) \<and> number tab = num)"
proof -
  obtain l i n where new: "new_layout (next_pane_id g) = (l, i, n)" by (cases "new_layout (next_pane_id g)")
  from new_layout_ids [OF assms(1) new] assms(2) new show ?thesis
    by (cases "spawn i cwd env (map_option Argv argv)")
      (auto simp: new_with_runtime_def alloc_terminal_id_def tab_inv_def tab_ids_def)
qed

text \<open>A split that succeeds puts the new pane after its target, in a tab with no pane zoomed; one that
  fails leaves the tab as it was.\<close>

lemma split_tab_cases:
  assumes inv: "tab_inv (next_pane_id g) self" and g: "next_pane_id g \<noteq> - 1"
    and t: "target \<in> set (tab_ids self)"
  obtains (failed) e where "split_pane_with_runtime spawn micros here g self target foc d ratio cwd env command =
      Some (Inl e, self, g\<lparr>next_pane_id := next_pane_id g + 1\<rparr>)"
  | (split) new self' g' where "split_pane_with_runtime spawn micros here g self target foc d ratio cwd env command =
      Some (Inr new, self', g')" "new_id new = PaneId (next_pane_id g)" "next_pane_id g' = next_pane_id g + 1"
      "next_workspace_id g' = next_workspace_id g"
      "tab_inv (next_pane_id g') self'" "tab_ids self' = insert_after target (new_id new) (tab_ids self)"
      "number self' = number self" "tab_custom_name self' = tab_custom_name self" "root_pane self' = root_pane self"
proof -
  let ?r = "case ratio of Some r \<Rightarrow> r | None \<Rightarrow> f32_half"
  have l: "layout_inv (next_pane_id g, tab_layout self)" using inv by (simp add: tab_inv_def)
  obtain new l' n where sp: "split_pane (next_pane_id g) (tab_layout self) target d ?r = (Some new, l', n)"
    using t by (cases "find_pane_mut (tl_root (tab_layout self)) target")
      (auto simp: split_pane_def tab_ids_def pane_ids_eq alloc_def)
  note ids = split_pane_ids [OF l g sp]
  let ?cwd = "case cwd of Some c \<Rightarrow> c | None \<Rightarrow> here"
  show thesis
  proof (cases "spawn new ?cwd env command")
    case (Inl e)
    have "close_pane l' new = Some (True, tab_layout self)" by (rule split_close_roundtrip [OF l sp])
    with sp Inl ids show thesis by (intro failed [of e]) (simp add: split_pane_with_runtime_def Let_def)
  next
    case (Inr rt)
    define l2 where "l2 = (if foc then focus_pane l' new else l')"
    have new: "new \<in> set (pane_ids l')" using ids by simp
    have l2: "layout_inv (n, l2)" "pane_ids l2 = pane_ids l'"
      using ids new set_focus_inv [of n l' new]
      by (auto simp: l2_def focus_pane_def set_focus_def pane_ids_eq)
    obtain tid g' where al: "alloc_terminal_id micros (g\<lparr>next_pane_id := n\<rparr>) = (tid, g')" "next_pane_id g' = n"
      "next_workspace_id g' = next_workspace_id g"
      by (simp add: alloc_terminal_id_def)
    let ?self = "self\<lparr>tab_layout := l2, tab_panes := AList.update new (new_pane_state tid) (tab_panes self),
        zoomed := False\<rparr>"
    have "tab_inv n ?self"
      using l2 ids inv by (auto simp: tab_inv_def tab_ids_def AList.dom_update distinct_update)
    with sp Inr al ids l2 show thesis
      by (intro split [of "\<lparr>new_id = new, new_terminal = \<lparr>term_id = tid, term_cwd = ?cwd,
              launch_argv = (case command of Some (Argv argv) \<Rightarrow> Some argv | _ \<Rightarrow> None)\<rparr>, new_runtime = rt\<rparr>" ?self g'])
        (simp_all add: split_pane_with_runtime_def Let_def tab_ids_def l2_def)
  qed
qed

lemma promoted_root:
  assumes "tab_inv n self" "1 < length (tab_ids self)" "i \<in> set (tab_ids self)"
  shows "(case promoted_root_if_needed self i of Some r \<Rightarrow> r | None \<Rightarrow> root_pane self) \<in> set (remove1 i (tab_ids self))"
proof -
  have d: "distinct (tab_ids self)" by (rule tab_inv_ids [OF assms(1)])
  have "\<exists>j \<in> set (tab_ids self). j \<noteq> i"
  proof (rule ccontr)
    assume "\<not> ?thesis"
    then have "set (tab_ids self) \<subseteq> {i}" by auto
    then have "card (set (tab_ids self)) \<le> 1" using card_mono [of "{i}"] by simp
    with assms(2) distinct_card [OF d] show False by simp
  qed
  then obtain j where j: "find (\<lambda>j. j \<noteq> i) (tab_ids self) = Some j"
    by (cases "find (\<lambda>j. j \<noteq> i) (tab_ids self)") (auto simp: find_None_iff)
  then have "j \<in> set (tab_ids self)" "j \<noteq> i" by (auto simp: find_Some_iff)
  with j assms(1) d show ?thesis
    by (auto simp: promoted_root_if_needed_def tab_ids_def tab_inv_def)
qed

lemma close_in_tab:
  assumes inv: "tab_inv n self" and i: "i \<in> set (tab_ids self)" and len: "1 < length (tab_ids self)"
  shows "\<exists>l pane. close_pane (tab_layout self) i = Some (True, l) \<and> map_of (tab_panes self) i = Some pane \<and>
    pane_ids l = remove1 i (tab_ids self) \<and>
    tab_inv n (self\<lparr>tab_layout := l, tab_panes := AList.delete i (tab_panes self), zoomed := False,
      root_pane := (case promoted_root_if_needed self i of Some r \<Rightarrow> r | None \<Rightarrow> root_pane self)\<rparr>)"
proof -
  have "layout_inv (n, tab_layout self)" using inv by (simp add: tab_inv_def)
  from close_pane_ids [OF this] i len obtain l where l: "close_pane (tab_layout self) i = Some (True, l)"
      "layout_inv (n, l)" "pane_ids l = remove1 i (tab_ids self)"
    by (auto simp: tab_ids_def)
  moreover obtain pane where "map_of (tab_panes self) i = Some pane"
    using tab_inv_ids(3) [OF inv, of i] i by auto
  moreover have "set (map fst (AList.delete i (tab_panes self))) = set (tab_ids self) - {i}"
    using inv by (simp add: delete_keys tab_inv_def del: set_map)
  moreover have "distinct (map fst (AList.delete i (tab_panes self)))"
    using inv by (simp add: tab_inv_def distinct_delete)
  ultimately show ?thesis
    using promoted_root [OF inv len i] tab_inv_ids(1) [OF inv]
    by (auto simp: tab_inv_def tab_ids_def)
qed

lemma detach_cases:
  assumes "tab_inv n self"
  shows "if 1 < length (tab_ids self) \<and> i \<in> set (tab_ids self)
    then \<exists>t self'. detach_pane self i = Some (Some (i, t), self') \<and> tab_inv n self' \<and>
           tab_ids self' = remove1 i (tab_ids self) \<and> number self' = number self
    else detach_pane self i = Some (None, self)"
proof (cases "1 < length (tab_ids self) \<and> i \<in> set (tab_ids self)")
  case True
  with close_in_tab [OF assms] obtain l pane where
    "close_pane (tab_layout self) i = Some (True, l)" "map_of (tab_panes self) i = Some pane"
    "pane_ids l = remove1 i (tab_ids self)"
    "tab_inv n (self\<lparr>tab_layout := l, tab_panes := AList.delete i (tab_panes self), zoomed := False,
      root_pane := (case promoted_root_if_needed self i of Some r \<Rightarrow> r | None \<Rightarrow> root_pane self)\<rparr>)"
    by blast
  with True show ?thesis by (simp add: detach_pane_def pane_count_ids tab_ids_def Let_def cong: option.case_cong)
next
  case False
  then have "length (pane_ids (tab_layout self)) \<le> 1 \<or> i \<notin> set (pane_ids (tab_layout self))"
    by (auto simp: tab_ids_def)
  moreover have "layout_inv (n, tab_layout self)" using assms by (simp add: tab_inv_def)
  ultimately have "close_pane (tab_layout self) i = Some (False, tab_layout self)" by (rule close_pane_refused [rotated])
  with False tab_inv_ids(3) [OF assms, of i] show ?thesis
    by (auto simp: detach_pane_def pane_count_ids Let_def)
qed

lemma take_cases:
  assumes "tab_inv n self" "i \<in> set (tab_ids self)"
  shows "\<exists>moved self'. tab_take_pane self i = Some (Some moved, self') \<and> moved_id moved = i \<and>
    (1 < length (tab_ids self) \<longrightarrow> tab_inv n self' \<and> tab_ids self' = remove1 i (tab_ids self) \<and> number self' = number self)"
proof -
  obtain pane where pane: "map_of (tab_panes self) i = Some pane"
    using tab_inv_ids(3) [OF assms(1), of i] assms(2) by auto
  show ?thesis
  proof (cases "1 < length (tab_ids self)")
    case True
    with close_in_tab [OF assms] obtain l where
      "close_pane (tab_layout self) i = Some (True, l)" "pane_ids l = remove1 i (tab_ids self)"
      "tab_inv n (self\<lparr>tab_layout := l, tab_panes := AList.delete i (tab_panes self), zoomed := False,
        root_pane := (case promoted_root_if_needed self i of Some r \<Rightarrow> r | None \<Rightarrow> root_pane self)\<rparr>)"
      by blast
    with True pane show ?thesis by (auto simp: tab_take_pane_def pane_count_ids tab_ids_def tab_inv_def)
  next
    case False
    with pane show ?thesis by (simp add: tab_take_pane_def pane_count_ids)
  qed
qed

lemma from_existing_inv:
  "raw (moved_id moved) < n \<Longrightarrow> tab_inv n (tab_from_existing_pane num name moved) \<and>
     tab_ids (tab_from_existing_pane num name moved) = [moved_id moved]"
  by (simp add: tab_inv_def tab_ids_def tab_from_existing_pane_def layout_inv_def from_saved_def pane_ids_eq ratios_ok_def)

lemma insert_cases:
  assumes "tab_inv n self" "raw (moved_id moved) < n" "insert_existing_pane self t moved d r foc = (res, self')"
  shows "tab_inv n self' \<and> number self' = number self \<and>
    (if t \<in> set (tab_ids self) \<and> moved_id moved \<notin> set (tab_ids self)
     then res = Inr (moved_id moved) \<and> tab_ids self' = insert_after t (moved_id moved) (tab_ids self)
     else res = Inl moved \<and> self' = self)"
proof -
  obtain ok l where ins: "insert_pane_near (tab_layout self) t (moved_id moved) d r foc = (ok, l)"
    by (cases "insert_pane_near (tab_layout self) t (moved_id moved) d r foc")
  let ?self = "self\<lparr>tab_layout := l, tab_panes := AList.update (moved_id moved) (moved_state moved) (tab_panes self),
      zoomed := False\<rparr>"
  have self: "layout_inv (n, tab_layout self)" "set (map fst (tab_panes self)) = set (tab_ids self)"
    "distinct (map fst (tab_panes self))" "root_pane self \<in> set (tab_ids self)"
    using assms(1) by (simp_all add: tab_inv_def)
  note ids = insert_pane_ids [OF self(1) assms(2) ins]
  show ?thesis
  proof (cases ok)
    case True
    have "set (map fst (tab_panes ?self)) = insert (moved_id moved) (set (tab_ids self))"
      using self(2) by (simp add: AList.update_keys insert_absorb del: set_map)
    moreover have "distinct (map fst (tab_panes ?self))" using self(3) by (simp add: distinct_update)
    ultimately have "tab_inv n ?self"
      unfolding tab_inv_def using True ids self(4) by (simp add: tab_ids_def)
    with True ids ins assms(3) show ?thesis by (auto simp: insert_existing_pane_def tab_ids_def)
  next
    case False
    with ids ins assms show ?thesis by (auto simp: insert_existing_pane_def tab_ids_def)
  qed
qed

text \<open>Splitting a pane is all or nothing. A split whose program does not start, or whose target is
  not in the tab, leaves the tab exactly as it was, with its layout, its focus, the focus before and
  its zoom; a split that succeeds adds one pane, just after its target, and focuses it only when
  asked.\<close>

theorem split_is_all_or_nothing:
  assumes inv: "tab_inv (next_pane_id g) self" and g: "next_pane_id g \<noteq> - 1"
  shows "\<exists>r self' g'. split_pane_with_runtime spawn micros here g self target foc d ratio cwd env command = Some (r, self', g') \<and>
    (case r of
       Inl e \<Rightarrow> self' = self \<and>
         (target \<in> set (tab_ids self) \<longrightarrow>
            spawn (PaneId (next_pane_id g)) (case cwd of Some c \<Rightarrow> c | None \<Rightarrow> here) env command = Inl e)
     | Inr new \<Rightarrow> target \<in> set (tab_ids self) \<and> tab_inv (next_pane_id g') self' \<and>
         tab_ids self' = insert_after target (new_id new) (tab_ids self) \<and> \<not> zoomed self' \<and>
         tl_focus (tab_layout self') = (if foc then new_id new else tl_focus (tab_layout self)))"
proof (cases "target \<in> set (tab_ids self)")
  case False
  then have "find_pane_mut (tl_root (tab_layout self)) target = None" by (simp add: tab_ids_def pane_ids_eq)
  with False show ?thesis by (simp add: split_pane_with_runtime_def split_pane_def del: find_pane_mut_None)
next
  case True
  let ?r = "case ratio of Some r \<Rightarrow> r | None \<Rightarrow> f32_half" and ?cwd = "case cwd of Some c \<Rightarrow> c | None \<Rightarrow> here"
  have l: "layout_inv (next_pane_id g, tab_layout self)" using inv by (simp add: tab_inv_def)
  obtain new l' n where sp: "split_pane (next_pane_id g) (tab_layout self) target d ?r = (Some new, l', n)"
      and foc': "tl_focus l' = tl_focus (tab_layout self)"
    using True by (cases "find_pane_mut (tl_root (tab_layout self)) target")
      (auto simp: split_pane_def tab_ids_def pane_ids_eq alloc_def)
  note ids = split_pane_ids [OF l g sp]
  show ?thesis
  proof (rule split_tab_cases [OF inv g True, of spawn micros here foc d ratio cwd env command])
    fix e assume e: "split_pane_with_runtime spawn micros here g self target foc d ratio cwd env command =
      Some (Inl e, self, g\<lparr>next_pane_id := next_pane_id g + 1\<rparr>)"
    then have "spawn new ?cwd env command = Inl e" using sp
      by (cases "spawn new ?cwd env command") (auto simp: split_pane_with_runtime_def Let_def alloc_terminal_id_def)
    with e ids show ?thesis by simp
  next
    fix new' self' g'
    assume s: "split_pane_with_runtime spawn micros here g self target foc d ratio cwd env command =
        Some (Inr new', self', g')" "tab_inv (next_pane_id g') self'"
      "tab_ids self' = insert_after target (new_id new') (tab_ids self)"
    have "\<not> zoomed self' \<and> tl_focus (tab_layout self') = (if foc then new_id new' else tl_focus (tab_layout self))"
      using s(1) sp foc' ids
      by (cases "spawn new ?cwd env command")
        (auto simp: split_pane_with_runtime_def Let_def alloc_terminal_id_def focus_pane_def set_focus_def)
    with s True show ?thesis by simp
  qed
qed

definition example_tab :: Tab where
  "example_tab =
     tab_from_existing_pane 1 None \<lparr>moved_id = PaneId 1, moved_state = new_pane_state (TerminalId ''term_01'')\<rparr>"

lemma example_tab [simp]: "tab_inv 2 example_tab" "tab_ids example_tab = [PaneId 1]"
  using from_existing_inv [of "\<lparr>moved_id = PaneId 1, moved_state = new_pane_state (TerminalId ''term_01'')\<rparr>" 2 1 None]
  by (simp_all add: example_tab_def)

theorem split_is_all_or_nothing_witness:
  "\<exists>r self' g'. split_pane_with_runtime (\<lambda>_ _ _ _. Inl ''no shell'' :: string + unit) 0 ''/''
      \<lparr>next_pane_id = 2, next_workspace_id = 2, next_terminal_id = 2\<rparr> example_tab (PaneId 1) True Horizontal None
      None (from_extra []) None = Some (r, self', g') \<and>
    (case r of Inl e \<Rightarrow> self' = example_tab | Inr new \<Rightarrow> length (tab_ids self') = 2)"
proof -
  let ?g = "\<lparr>next_pane_id = 2, next_workspace_id = 2, next_terminal_id = 2\<rparr> :: Globals"
  have "tab_inv (next_pane_id ?g) example_tab" "next_pane_id ?g \<noteq> - 1" by simp_all
  from split_is_all_or_nothing [OF this, of "\<lambda>_ _ _ _. Inl ''no shell'' :: string + unit" 0 "''/''" "PaneId 1"
      True Horizontal None None "from_extra []" None]
  show ?thesis by (elim exE conjE) (intro exI conjI, assumption, auto split: sum.splits)
qed

end
