(* ===== verification/Workspace.thy ===== *)
theory Workspace
  imports Tab "HOL-Library.Multiset"
begin

text \<open>
  A workspace (\<open>herdr/src/workspace.rs\<close>): its tabs, the active one, and the public numbers of its
  tabs and panes. The cached labels and git state, the metadata tokens and the channels of a workspace
  are left out; they never influence what is modelled.
\<close>

section \<open>Lists\<close>

definition vec_remove :: "nat \<Rightarrow> 'a list \<Rightarrow> 'a list" where
  "vec_remove i xs = take i xs @ drop (Suc i) xs"

definition vec_insert :: "nat \<Rightarrow> 'a \<Rightarrow> 'a list \<Rightarrow> 'a list" where
  "vec_insert i x xs = take i xs @ x # drop i xs"

definition vec_get :: "'a list \<Rightarrow> nat \<Rightarrow> 'a option" where
  "vec_get xs i = (if i < length xs then Some (xs ! i) else None)"

section \<open>The workspace\<close>

record WorktreeSpaceMembership =
  space_key :: string
  space_label :: string
  repo_root :: string
  checkout_path :: string
  is_linked_worktree :: bool

record Workspace =
  ws_id :: string
  ws_custom_name :: "string option"
  identity_cwd :: string
  worktree_space :: "WorktreeSpaceMembership option"
  public_pane_numbers :: "(PaneId \<times> nat) list"
  next_public_pane_number :: nat
  next_public_tab_number :: nat
  tabs :: "Tab list"
  ws_active :: nat

record TakenPane =
  taken_moved :: MovedPane
  removed_tab_idx :: "nat option"
  workspace_empty :: bool

definition adjust_active_tab_after_removal :: "Workspace \<Rightarrow> nat \<Rightarrow> Workspace" where
  "adjust_active_tab_after_removal self removed_idx =
     (if tabs self = [] then self\<lparr>ws_active := 0\<rparr>
      else if length (tabs self) \<le> ws_active self then self\<lparr>ws_active := length (tabs self) - 1\<rparr>
      else if removed_idx \<le> ws_active self \<and> 0 < ws_active self then self\<lparr>ws_active := ws_active self - 1\<rparr>
      else self)"

definition register_new_pane_with_number :: "Workspace \<Rightarrow> PaneId \<Rightarrow> nat \<Rightarrow> Workspace" where
  "register_new_pane_with_number self i num =
     self\<lparr>public_pane_numbers := AList.update i num (public_pane_numbers self),
          next_public_pane_number := max (next_public_pane_number self) (num + 1)\<rparr>"

definition unregister_pane :: "Workspace \<Rightarrow> PaneId \<Rightarrow> Workspace" where
  "unregister_pane self i = self\<lparr>public_pane_numbers := AList.delete i (public_pane_numbers self)\<rparr>"

definition launch_env_for_new_pane :: "Workspace \<Rightarrow> nat \<Rightarrow> nat \<Rightarrow> (string \<times> string) list \<Rightarrow> PaneLaunchEnv" where
  "launch_env_for_new_pane self tab_number pane_number env =
     with_identity (from_extra env) (ws_id self) (public_tab_id_for_number (ws_id self) tab_number)
       (public_pane_id_for_number (ws_id self) pane_number)"

definition ws_from_existing_pane ::
    "Globals \<Rightarrow> string option \<Rightarrow> string option \<Rightarrow> string \<Rightarrow> MovedPane \<Rightarrow> Workspace \<times> Globals" where
  "ws_from_existing_pane g label tab_label cwd moved =
     (let (i, n) = generate_workspace_id (next_workspace_id g)
      in (\<lparr>ws_id = i, ws_custom_name = label, identity_cwd = cwd, worktree_space = None,
           public_pane_numbers = [(moved_id moved, 1)], next_public_pane_number = 2,
           next_public_tab_number = 2, tabs = [tab_from_existing_pane 1 tab_label moved], ws_active = 0\<rparr>,
          g\<lparr>next_workspace_id := n\<rparr>))"

text \<open>\<open>new\<close> and \<open>new_with_extra_env\<close> are this with no arguments for a program; the branch on an
  empty environment only saves a vector.\<close>

definition new_with_tab ::
    "'rt spawner \<Rightarrow> nat \<Rightarrow> Globals \<Rightarrow> string \<Rightarrow> string list option \<Rightarrow> (string \<times> string) list \<Rightarrow>
     (string + Workspace \<times> TerminalStart \<times> 'rt) \<times> Globals" where
  "new_with_tab spawn micros g initial_cwd argv env =
     (let (i, n) = generate_workspace_id (next_workspace_id g);
          g = g\<lparr>next_workspace_id := n\<rparr>;
          launch_env = with_identity (from_extra env) i (public_tab_id_for_number i 1) (public_pane_id_for_number i 1)
      in case new_with_runtime spawn micros g 1 initial_cwd launch_env argv of
           (Inl e, g) \<Rightarrow> (Inl e, g)
         | (Inr (tab, terminal, runtime), g) \<Rightarrow>
             (Inr (\<lparr>ws_id = i, ws_custom_name = None, identity_cwd = initial_cwd, worktree_space = None,
                    public_pane_numbers = [(root_pane tab, 1)], next_public_pane_number = 2,
                    next_public_tab_number = 2, tabs = [tab], ws_active = 0\<rparr>, terminal, runtime), g))"

definition active_tab :: "Workspace \<Rightarrow> Tab option" where
  "active_tab self = vec_get (tabs self) (ws_active self)"

definition tab_display_name_with_index_base :: "Workspace \<Rightarrow> nat \<Rightarrow> nat \<Rightarrow> string option" where
  "tab_display_name_with_index_base self tab_idx index_base =
     map_option
       (\<lambda>tab. let position = tab_idx + index_base
        in case tab_custom_name tab of
             Some name \<Rightarrow>
               (case numbered_tab_suffix name of
                  Some suffix \<Rightarrow> show_nat position @ suffix
                | None \<Rightarrow> name)
           | None \<Rightarrow> show_nat position)
       (vec_get (tabs self) tab_idx)"

definition tab_display_name :: "Workspace \<Rightarrow> nat \<Rightarrow> string option" where
  "tab_display_name self tab_idx = tab_display_name_with_index_base self tab_idx 1"

definition see_panes :: "Tab \<Rightarrow> Tab" where
  "see_panes tab = tab\<lparr>tab_panes := map (\<lambda>(i, pane). (i, pane\<lparr>seen := True\<rparr>)) (tab_panes tab)\<rparr>"

definition switch_tab :: "Workspace \<Rightarrow> nat \<Rightarrow> Workspace" where
  "switch_tab self idx =
     (if idx < length (tabs self)
      then self\<lparr>ws_active := idx, tabs := (tabs self)[idx := see_panes (tabs self ! idx)]\<rparr>
      else self)"

text \<open>The channels of the active tab are wanted, which panics when there is no active tab.\<close>

definition create_tab_with_runtime ::
    "'rt spawner \<Rightarrow> nat \<Rightarrow> Globals \<Rightarrow> Workspace \<Rightarrow> string \<Rightarrow> string list option \<Rightarrow> (string \<times> string) list \<Rightarrow>
     ((string + nat \<times> TerminalStart \<times> 'rt) \<times> Workspace \<times> Globals) option" where
  "create_tab_with_runtime spawn micros g self cwd argv env =
     (let num = next_public_tab_number self;
          self = self\<lparr>next_public_tab_number := num + 1\<rparr>;
          pane_number = next_public_pane_number self;
          launch_env = launch_env_for_new_pane self num pane_number env
      in if active_tab self = None then None
         else case new_with_runtime spawn micros g num cwd launch_env argv of
                (Inl e, g) \<Rightarrow> Some (Inl e, self, g)
              | (Inr (tab, terminal, runtime), g) \<Rightarrow>
                  (let self = register_new_pane_with_number self (root_pane tab) pane_number;
                       self = self\<lparr>tabs := tabs self @ [tab]\<rparr>
                   in Some (Inr (length (tabs self) - 1, terminal, runtime), self, g)))"

text \<open>The correction of the active tab after tab \<open>idx\<close> was removed, as \<open>close_tab\<close>,
  \<open>remove_pane\<close> and \<open>close_pane\<close> have it.\<close>

definition after_removal :: "Workspace \<Rightarrow> nat \<Rightarrow> Workspace" where
  "after_removal self idx =
     (if length (tabs self) \<le> ws_active self then self\<lparr>ws_active := length (tabs self) - 1\<rparr>
      else if idx \<le> ws_active self \<and> 0 < ws_active self then self\<lparr>ws_active := ws_active self - 1\<rparr>
      else self)"

definition close_tab :: "Workspace \<Rightarrow> nat \<Rightarrow> bool \<times> Workspace" where
  "close_tab self idx =
     (if length (tabs self) \<le> 1 \<or> length (tabs self) \<le> idx then (False, self)
      else
        let tab = tabs self ! idx;
            self = self\<lparr>tabs := vec_remove idx (tabs self)\<rparr>;
            self = fold (\<lambda>i w. unregister_pane w i) (map fst (tab_panes tab)) self
        in (True, after_removal self idx))"

definition move_tab :: "Workspace \<Rightarrow> nat \<Rightarrow> nat \<Rightarrow> bool \<times> Workspace" where
  "move_tab self source_idx insert_idx =
     (if length (tabs self) \<le> source_idx \<or> length (tabs self) < insert_idx then (False, self)
      else
        let target_idx = min (if source_idx < insert_idx then insert_idx - 1 else insert_idx) (length (tabs self) - 1)
        in if source_idx = target_idx then (False, self)
           else
             let active_root_pane = map_option root_pane (vec_get (tabs self) (ws_active self));
                 tab = tabs self ! source_idx;
                 self = self\<lparr>tabs := vec_insert target_idx tab (vec_remove source_idx (tabs self))\<rparr>
             in (True, self\<lparr>ws_active :=
                  (case Option.bind active_root_pane (\<lambda>r. position (\<lambda>tab. root_pane tab = r) (tabs self)) of
                     Some i \<Rightarrow> i | None \<Rightarrow> target_idx)\<rparr>))"

definition find_tab_index_for_pane :: "Workspace \<Rightarrow> PaneId \<Rightarrow> nat option" where
  "find_tab_index_for_pane self i = position (\<lambda>tab. map_of (tab_panes tab) i \<noteq> None) (tabs self)"

definition ws_split_focused_command ::
    "'rt spawner \<Rightarrow> nat \<Rightarrow> string \<Rightarrow> Globals \<Rightarrow> Workspace \<Rightarrow> Direction \<Rightarrow> string option \<Rightarrow> string \<Rightarrow>
     (string \<times> string) list \<Rightarrow> ((string + 'rt NewPane) \<times> Workspace \<times> Globals) option" where
  "ws_split_focused_command spawn micros here g self direction cwd command env =
     (let pane_number = next_public_pane_number self
      in case active_tab self of
           None \<Rightarrow> None
         | Some tab \<Rightarrow>
             (let launch_env = launch_env_for_new_pane self (number tab) pane_number env
              in case tab_split_focused_command spawn micros here g tab direction cwd command launch_env of
                   None \<Rightarrow> None
                 | Some (r, tab, g) \<Rightarrow>
                     (let self = self\<lparr>tabs := (tabs self)[ws_active self := tab]\<rparr>
                      in case r of
                           Inl e \<Rightarrow> Some (Inl e, self, g)
                         | Inr new \<Rightarrow> Some (Inr new, register_new_pane_with_number self (new_id new) pane_number, g))))"

text \<open>All the other splits of a workspace, with a ratio or not, of a shell or of an argument vector. The
  pane may be in no tab, which is the outer \<open>None\<close> of the result.\<close>

definition ws_split_pane_with_runtime ::
    "'rt spawner \<Rightarrow> nat \<Rightarrow> string \<Rightarrow> Globals \<Rightarrow> Workspace \<Rightarrow> PaneId \<Rightarrow> Direction \<Rightarrow> f32 option \<Rightarrow> string option \<Rightarrow>
     (string \<times> string) list \<Rightarrow> bool \<Rightarrow> string list option \<Rightarrow>
     ((string + nat \<times> 'rt NewPane) option \<times> Workspace \<times> Globals) option" where
  "ws_split_pane_with_runtime spawn micros here g self i direction ratio cwd env focus_new_pane argv =
     (case find_tab_index_for_pane self i of
        None \<Rightarrow> Some (None, self, g)
      | Some tab_idx \<Rightarrow>
          (let pane_number = next_public_pane_number self;
               tab = tabs self ! tab_idx;
               launch_env = launch_env_for_new_pane self (number tab) pane_number env
           in case split_pane_with_runtime spawn micros here g tab i focus_new_pane direction ratio cwd
                     launch_env (map_option Argv argv) of
                None \<Rightarrow> None
              | Some (r, tab, g) \<Rightarrow>
                  (let self = self\<lparr>tabs := (tabs self)[tab_idx := tab]\<rparr>
                   in case r of
                        Inl e \<Rightarrow> Some (Some (Inl e), self, g)
                      | Inr new \<Rightarrow>
                          Some (Some (Inr (tab_idx, new)),
                                register_new_pane_with_number self (new_id new) pane_number, g))))"

text \<open>\<open>close_pane\<close> and \<open>remove_pane\<close> of a workspace are the same code; the flag tells the caller to
  close the workspace.\<close>

definition ws_remove_pane :: "Workspace \<Rightarrow> PaneId \<Rightarrow> (bool \<times> Workspace) option" where
  "ws_remove_pane self i =
     (case find_tab_index_for_pane self i of
        None \<Rightarrow> Some (False, self)
      | Some tab_idx \<Rightarrow>
          if pane_count (tab_layout (tabs self ! tab_idx)) \<le> 1 then
            (if length (tabs self) \<le> 1 then Some (True, self)
             else Some (False, after_removal (unregister_pane (self\<lparr>tabs := vec_remove tab_idx (tabs self)\<rparr>) i) tab_idx))
          else case detach_pane (tabs self ! tab_idx) i of
                 None \<Rightarrow> None
               | Some (removed, tab) \<Rightarrow>
                   (let self = self\<lparr>tabs := (tabs self)[tab_idx := tab]\<rparr>
                    in Some (False, case removed of
                                      Some (r, _) \<Rightarrow> unregister_pane self r
                                    | None \<Rightarrow> self)))"

definition ws_take_pane :: "Workspace \<Rightarrow> PaneId \<Rightarrow> (TakenPane option \<times> Workspace) option" where
  "ws_take_pane self i =
     (case find_tab_index_for_pane self i of
        None \<Rightarrow> Some (None, self)
      | Some tab_idx \<Rightarrow>
          if pane_count (tab_layout (tabs self ! tab_idx)) \<le> 1 then
            (let tab = tabs self ! tab_idx;
                 self = self\<lparr>tabs := vec_remove tab_idx (tabs self)\<rparr>
             in case tab_take_pane tab i of
                  None \<Rightarrow> None
                | Some (None, _) \<Rightarrow> Some (None, self)
                | Some (Some moved, _) \<Rightarrow>
                    (let self = adjust_active_tab_after_removal self tab_idx
                     in Some (Some \<lparr>taken_moved = moved, removed_tab_idx = Some tab_idx,
                                   workspace_empty = (tabs self = [])\<rparr>, self)))
          else case tab_take_pane (tabs self ! tab_idx) i of
                 None \<Rightarrow> None
               | Some (moved, tab) \<Rightarrow>
                   Some (map_option (\<lambda>moved. \<lparr>taken_moved = moved, removed_tab_idx = None, workspace_empty = False\<rparr>) moved,
                         self\<lparr>tabs := (tabs self)[tab_idx := tab]\<rparr>))"

definition register_moved_pane :: "Workspace \<Rightarrow> PaneId \<Rightarrow> Workspace" where
  "register_moved_pane self i =
     (if map_of (public_pane_numbers self) i = None
      then register_new_pane_with_number self i (next_public_pane_number self) else self)"

definition insert_moved_pane_into_tab ::
    "Workspace \<Rightarrow> nat \<Rightarrow> PaneId \<Rightarrow> MovedPane \<Rightarrow> Direction \<Rightarrow> f32 \<Rightarrow> bool \<Rightarrow> (MovedPane + PaneId) \<times> Workspace" where
  "insert_moved_pane_into_tab self tab_idx target moved direction ratio focus =
     (case vec_get (tabs self) tab_idx of
        None \<Rightarrow> (Inl moved, self)
      | Some tab \<Rightarrow>
          (let (r, tab) = insert_existing_pane tab target moved direction ratio focus;
               self = self\<lparr>tabs := (tabs self)[tab_idx := tab]\<rparr>
           in case r of
                Inl moved \<Rightarrow> (Inl moved, self)
              | Inr _ \<Rightarrow> (Inr (moved_id moved), register_moved_pane self (moved_id moved))))"

definition create_tab_from_existing_pane :: "Workspace \<Rightarrow> MovedPane \<Rightarrow> string option \<Rightarrow> nat \<times> Workspace" where
  "create_tab_from_existing_pane self moved label =
     (let num = next_public_tab_number self;
          self = self\<lparr>next_public_tab_number := num + 1\<rparr>;
          tab = tab_from_existing_pane num label moved;
          self = register_moved_pane self (moved_id moved);
          self = self\<lparr>tabs := tabs self @ [tab]\<rparr>
      in (length (tabs self) - 1, self))"

definition public_pane_number :: "Workspace \<Rightarrow> PaneId \<Rightarrow> nat option" where
  "public_pane_number self i = map_of (public_pane_numbers self) i"

definition public_tab_number :: "Workspace \<Rightarrow> nat \<Rightarrow> nat option" where
  "public_tab_number self tab_idx = map_option number (vec_get (tabs self) tab_idx)"

definition ws_set_custom_name :: "Workspace \<Rightarrow> string \<Rightarrow> Workspace" where
  "ws_set_custom_name self name = self\<lparr>ws_custom_name := Some name\<rparr>"

definition ws_pane_state :: "Workspace \<Rightarrow> PaneId \<Rightarrow> PaneState option" where
  "ws_pane_state self i =
     Option.bind (find (\<lambda>tab. map_of (tab_panes tab) i \<noteq> None) (tabs self)) (\<lambda>tab. map_of (tab_panes tab) i)"

definition ws_terminal_id :: "Workspace \<Rightarrow> PaneId \<Rightarrow> TerminalId option" where
  "ws_terminal_id self i =
     Option.bind (find (\<lambda>tab. tab_terminal_id tab i \<noteq> None) (tabs self)) (\<lambda>tab. tab_terminal_id tab i)"

definition focused_pane_id :: "Workspace \<Rightarrow> PaneId option" where
  "focused_pane_id self = map_option (\<lambda>tab. tl_focus (tab_layout tab)) (active_tab self)"

section \<open>Lists again\<close>

lemma vec_split:
  assumes "i < length xs"
  obtains as bs where "xs = as @ xs ! i # bs" "length as = i" "vec_remove i xs = as @ bs" "\<And>y. xs[i := y] = as @ y # bs"
  using assms id_take_nth_drop [OF assms] upd_conv_take_nth_drop [OF assms]
  by (intro that [of "take i xs" "drop (Suc i) xs"]) (simp_all add: vec_remove_def)

lemma mset_vec_insert [simp]: "mset (vec_insert i x xs) = add_mset x (mset xs)"
proof -
  have "mset xs = mset (take i xs) + mset (drop i xs)" by (metis append_take_drop_id mset_append)
  then show ?thesis by (simp add: vec_insert_def)
qed

lemma mset_vec_remove: "i < length xs \<Longrightarrow> mset xs = add_mset (xs ! i) (mset (vec_remove i xs))"
  using id_take_nth_drop [of i xs] by (metis mset.simps(2) mset_append union_mset_add_mset_right vec_remove_def)

lemma length_vec_remove [simp]: "i < length xs \<Longrightarrow> length (vec_remove i xs) = length xs - 1"
  by (simp add: vec_remove_def)

lemma update_fresh: "i \<notin> fst ` set m \<Longrightarrow> AList.update i k m = m @ [(i, k)]"
  by (induction m) auto

section \<open>Invariant of a workspace\<close>

definition ws_ids :: "Workspace \<Rightarrow> PaneId list" where
  "ws_ids w = concat (map tab_ids (tabs w))"

definition tabs_ok :: "u32 \<Rightarrow> nat \<Rightarrow> Tab list \<Rightarrow> bool" where
  "tabs_ok n bound ts \<longleftrightarrow>
     list_all (tab_inv n) ts \<and> distinct (concat (map tab_ids ts)) \<and> distinct (map number ts) \<and>
     list_all (\<lambda>tab. 0 < number tab \<and> number tab < bound) ts \<and> 0 < bound"

definition numbers_ok :: "PaneId set \<Rightarrow> nat \<Rightarrow> (PaneId \<times> nat) list \<Rightarrow> bool" where
  "numbers_ok ids bound m \<longleftrightarrow>
     fst ` set m = ids \<and> distinct (map fst m) \<and> distinct (map snd m) \<and>
     list_all (\<lambda>(_, v). 0 < v \<and> v < bound) m \<and> 0 < bound"

definition active_ok :: "nat \<Rightarrow> Tab list \<Rightarrow> bool" where
  "active_ok active ts \<longleftrightarrow> active < length ts \<or> ts = [] \<and> active = 0"

text \<open>\<open>E\<close> is a pane on the move that is registered and in no tab.\<close>

definition ws_core :: "u32 \<Rightarrow> PaneId set \<Rightarrow> Workspace \<Rightarrow> bool" where
  "ws_core n E w \<longleftrightarrow>
     tabs_ok n (next_public_tab_number w) (tabs w) \<and>
     numbers_ok (set (ws_ids w) \<union> E) (next_public_pane_number w) (public_pane_numbers w) \<and>
     set (ws_ids w) \<inter> E = {} \<and> active_ok (ws_active w) (tabs w)"

definition ws_inv :: "u32 \<Rightarrow> Workspace \<Rightarrow> bool" where
  "ws_inv n w \<longleftrightarrow> ws_core n {} w \<and> tabs w \<noteq> []"

lemma tabs_ok_mono: "tabs_ok n b ts \<Longrightarrow> n \<le> n' \<Longrightarrow> tabs_ok n' b ts"
  by (auto simp: tabs_ok_def list_all_iff tab_inv_mono)

lemma ws_core_mono: "ws_core n E w \<Longrightarrow> n \<le> n' \<Longrightarrow> ws_core n' E w"
  by (auto simp: ws_core_def tabs_ok_mono)

lemma ws_inv_mono: "ws_inv n w \<Longrightarrow> n \<le> n' \<Longrightarrow> ws_inv n' w"
  by (auto simp: ws_inv_def ws_core_mono)

lemma tabs_ok_replace:
  assumes "tabs_ok n b (as @ t # bs)" "tab_inv n' t'" "n \<le> n'" "number t' = number t"
    "set (tab_ids t') \<inter> set (concat (map tab_ids (as @ bs))) = {}"
  shows "tabs_ok n' b (as @ t' # bs)"
proof -
  have "list_all (tab_inv n') (as @ t' # bs)" using assms(1,2)
    by (auto simp: tabs_ok_def list_all_iff intro: tab_inv_mono [OF _ assms(3)])
  moreover have "distinct (concat (map tab_ids (as @ t' # bs)))"
    using assms(1,5) tab_inv_ids(1) [OF assms(2)] by (auto simp: tabs_ok_def)
  ultimately show ?thesis using assms(1,4) by (simp add: tabs_ok_def)
qed

lemma tabs_ok_remove: "tabs_ok n b (as @ t # bs) \<Longrightarrow> tabs_ok n b (as @ bs)"
  by (auto simp: tabs_ok_def)

lemma tabs_ok_append:
  assumes "tabs_ok n b ts" "tab_inv n t" "number t = b" "set (tab_ids t) \<inter> set (concat (map tab_ids ts)) = {}"
  shows "tabs_ok n (b + 1) (ts @ [t])"
  using assms tab_inv_ids(1) [OF assms(2)] by (force simp: tabs_ok_def list_all_iff)

lemma concat_perm: "mset ts = mset us \<Longrightarrow> mset (concat (map f ts)) = mset (concat (map f us))"
  by (simp add: mset_concat) (metis mset_map sum_mset_sum_list)

lemma tabs_ok_perm: "mset ts = mset us \<Longrightarrow> tabs_ok n b ts \<Longrightarrow> tabs_ok n b us"
  using concat_perm [of ts us tab_ids]
  by (auto simp: tabs_ok_def list_all_iff dest: mset_eq_setD
      intro: mset_eq_imp_distinct_iff [THEN iffD1, rotated] simp del: mset_concat)

lemma numbers_register:
  "numbers_ok ids b m \<Longrightarrow> i \<notin> ids \<Longrightarrow> b \<le> k \<Longrightarrow> numbers_ok (insert i ids) (max b (k + 1)) (AList.update i k m)"
  by (force simp: numbers_ok_def update_fresh list_all_iff)

lemma numbers_unregister: "numbers_ok ids b m \<Longrightarrow> numbers_ok (ids - {i}) b (AList.delete i m)"
  by (auto simp: numbers_ok_def AList.delete_eq distinct_map_filter list_all_iff)

lemma tabs_ok_fresh: "tabs_ok n b ts \<Longrightarrow> PaneId n \<notin> set (concat (map tab_ids ts))"
  using tab_inv_ids(2) [of n] by (fastforce simp: tabs_ok_def list_all_iff)

lemma ws_core_fresh: "ws_core n E w \<Longrightarrow> PaneId n \<notin> set (ws_ids w)"
  using tabs_ok_fresh by (auto simp: ws_core_def ws_ids_def)

lemma ws_core_tab: "ws_core n E w \<Longrightarrow> tab \<in> set (tabs w) \<Longrightarrow> tab_inv n tab"
  by (auto simp: ws_core_def tabs_ok_def list_all_iff)

lemma ws_core_raw:
  assumes "ws_core n E w" "i \<in> set (ws_ids w)"
  shows "raw i < n"
proof -
  from assms(2) obtain tab where "tab \<in> set (tabs w)" "i \<in> set (tab_ids tab)" by (auto simp: ws_ids_def)
  with tab_inv_ids(2) [OF ws_core_tab [OF assms(1)]] show ?thesis by blast
qed

lemma find_tab:
  assumes "ws_core n E w"
  shows "find_tab_index_for_pane w i = None \<longleftrightarrow> i \<notin> set (ws_ids w)"
    and "find_tab_index_for_pane w i = Some idx \<Longrightarrow> idx < length (tabs w) \<and> tab_inv n (tabs w ! idx) \<and> i \<in> set (tab_ids (tabs w ! idx))"
proof -
  let ?P = "\<lambda>tab. map_of (tab_panes tab) i \<noteq> None"
  have in_tab: "?P tab \<longleftrightarrow> i \<in> set (tab_ids tab)" if "tab \<in> set (tabs w)" for tab
    using tab_inv_ids(3) [OF ws_core_tab [OF assms that], of i] by argo
  have "find_tab_index_for_pane w i = None \<longleftrightarrow> (\<forall>tab \<in> set (tabs w). \<not> ?P tab)"
    by (simp only: find_tab_index_for_pane_def position_None)
  also have "\<dots> \<longleftrightarrow> (\<forall>tab \<in> set (tabs w). i \<notin> set (tab_ids tab))" using in_tab by blast
  also have "\<dots> \<longleftrightarrow> i \<notin> set (ws_ids w)" by (simp add: ws_ids_def)
  finally show "find_tab_index_for_pane w i = None \<longleftrightarrow> i \<notin> set (ws_ids w)" .
  assume "find_tab_index_for_pane w i = Some idx"
  then have idx: "idx < length (tabs w)" "?P (tabs w ! idx)"
    using position_Some [of ?P "tabs w" idx] unfolding find_tab_index_for_pane_def by blast+
  have mem: "tabs w ! idx \<in> set (tabs w)" using idx(1) by (rule nth_mem)
  show "idx < length (tabs w) \<and> tab_inv n (tabs w ! idx) \<and> i \<in> set (tab_ids (tabs w ! idx))"
    using idx ws_core_tab [OF assms mem] in_tab [OF mem] by blast
qed

section \<open>Replacing and removing a tab\<close>

lemma core_replace:
  assumes w: "ws_core n E w" and idx: "idx < length (tabs w)"
    and t': "tab_inv n' t'" "n \<le> n'" "number t' = number (tabs w ! idx)"
    and fresh: "set (tab_ids t') \<inter> (set (ws_ids w) - set (tab_ids (tabs w ! idx))) = {}"
  shows "tabs_ok n' (next_public_tab_number w) ((tabs w)[idx := t'])"
    and "set (concat (map tab_ids ((tabs w)[idx := t']))) =
      set (ws_ids w) - set (tab_ids (tabs w ! idx)) \<union> set (tab_ids t')"
    and "active_ok (ws_active w) ((tabs w)[idx := t'])"
proof -
  obtain as bs where s: "tabs w = as @ tabs w ! idx # bs" "(tabs w)[idx := t'] = as @ t' # bs"
    using idx by (metis vec_split)
  have ok: "tabs_ok n (next_public_tab_number w) (as @ tabs w ! idx # bs)"
    using w s(1) by (simp add: ws_core_def)
  then have rest: "set (concat (map tab_ids (as @ bs))) = set (ws_ids w) - set (tab_ids (tabs w ! idx))"
    unfolding ws_ids_def by (subst s(1)) (auto simp: tabs_ok_def)
  have "set (tab_ids t') \<inter> set (concat (map tab_ids (as @ bs))) = {}"
    using fresh unfolding rest .
  from tabs_ok_replace [OF ok t' this]
  show "tabs_ok n' (next_public_tab_number w) ((tabs w)[idx := t'])" by (simp only: s(2))
  show "set (concat (map tab_ids ((tabs w)[idx := t']))) =
      set (ws_ids w) - set (tab_ids (tabs w ! idx)) \<union> set (tab_ids t')"
    unfolding s(2) rest [symmetric] by auto
  show "active_ok (ws_active w) ((tabs w)[idx := t'])"
    using w idx by (auto simp: ws_core_def active_ok_def)
qed

lemma core_remove:
  assumes w: "ws_core n E w" and idx: "idx < length (tabs w)"
  shows "tabs_ok n (next_public_tab_number w) (vec_remove idx (tabs w))"
    and "set (concat (map tab_ids (vec_remove idx (tabs w)))) = set (ws_ids w) - set (tab_ids (tabs w ! idx))"
proof -
  obtain as bs where s: "tabs w = as @ tabs w ! idx # bs" "vec_remove idx (tabs w) = as @ bs"
    using idx by (metis vec_split)
  have ok: "tabs_ok n (next_public_tab_number w) (as @ tabs w ! idx # bs)"
    using w s(1) by (simp add: ws_core_def)
  then show "tabs_ok n (next_public_tab_number w) (vec_remove idx (tabs w))"
    unfolding s(2) by (rule tabs_ok_remove)
  show "set (concat (map tab_ids (vec_remove idx (tabs w)))) = set (ws_ids w) - set (tab_ids (tabs w ! idx))"
    unfolding s(2) ws_ids_def using ok by (subst s(1)) (auto simp: tabs_ok_def)
qed

lemma tab_in_ws: "idx < length (tabs w) \<Longrightarrow> set (tab_ids (tabs w ! idx)) \<subseteq> set (ws_ids w)"
  using nth_mem by (fastforce simp: ws_ids_def)

lemma active_after_removal:
  "active_ok active ts \<Longrightarrow> idx < length ts \<Longrightarrow> 1 < length ts \<Longrightarrow>
     active_ok (ws_active (after_removal (w\<lparr>tabs := vec_remove idx ts, ws_active := active\<rparr>) idx)) (vec_remove idx ts)"
  by (auto simp: active_ok_def after_removal_def)

lemma after_removal_simps [simp]:
  "tabs (after_removal w i) = tabs w" "ws_ids (after_removal w i) = ws_ids w"
  "public_pane_numbers (after_removal w i) = public_pane_numbers w"
  "next_public_pane_number (after_removal w i) = next_public_pane_number w"
  "next_public_tab_number (after_removal w i) = next_public_tab_number w"
  by (simp_all add: after_removal_def ws_ids_def)

lemma fold_unregister:
  "fold (\<lambda>i w. unregister_pane w i) is w = w\<lparr>public_pane_numbers := fold AList.delete is (public_pane_numbers w)\<rparr>"
  by (induction "is" arbitrary: w) (simp_all add: unregister_pane_def)

lemma numbers_unregister_all:
  "numbers_ok ids b m \<Longrightarrow> numbers_ok (ids - set is) b (fold AList.delete is m)"
proof (induction "is" arbitrary: ids m)
  case (Cons i "is")
  from Cons.IH [OF numbers_unregister [OF Cons.prems, of i]] show ?case by (simp add: Diff_insert2 [symmetric] insert_Diff_if)
qed simp

section \<open>Every operation keeps the invariant\<close>

lemma create_tab_cases:
  assumes w: "ws_inv (next_pane_id g) w" and g: "next_pane_id g \<noteq> - 1"
  shows "\<exists>r w' g'. create_tab_with_runtime spawn micros g w cwd argv env = Some (r, w', g') \<and>
    next_pane_id g' = next_pane_id g + 1 \<and> next_workspace_id g' = next_workspace_id g \<and>
    ws_inv (next_pane_id g') w' \<and> ws_id w' = ws_id w \<and>
    (case r of
       Inl e \<Rightarrow> ws_ids w' = ws_ids w \<and> public_pane_numbers w' = public_pane_numbers w \<and>
         next_public_pane_number w' = next_public_pane_number w
     | Inr _ \<Rightarrow> ws_ids w' = ws_ids w @ [PaneId (next_pane_id g)] \<and>
         public_pane_numbers w' = public_pane_numbers w @ [(PaneId (next_pane_id g), next_public_pane_number w)] \<and>
         next_public_pane_number w' = next_public_pane_number w + 1)"
proof -
  let ?n = "next_pane_id g"
  let ?w = "w\<lparr>next_public_tab_number := next_public_tab_number w + 1\<rparr>"
  let ?env = "launch_env_for_new_pane ?w (next_public_tab_number w) (next_public_pane_number w) env"
  obtain r g' where new: "new_with_runtime spawn micros g (next_public_tab_number w) cwd ?env argv = (r, g')"
    by (cases "new_with_runtime spawn micros g (next_public_tab_number w) cwd ?env argv")
  note tab = new_tab_ids [OF g new]
  have le: "?n \<le> next_pane_id g'" using tab alloc_less [OF g] by simp
  have core: "ws_core ?n {} w" "tabs w \<noteq> []" using w by (simp_all add: ws_inv_def)
  note core' = ws_core_mono [OF core(1) le]
  have act: "active_tab ?w \<noteq> None" using core by (auto simp: active_tab_def vec_get_def ws_core_def active_ok_def)
  show ?thesis
  proof (cases r)
    case (Inl e)
    have "tabs_ok (next_pane_id g') (next_public_tab_number w + 1) (tabs w)"
      using core' by (auto simp: ws_core_def tabs_ok_def list_all_iff)
    then have "ws_inv (next_pane_id g') ?w" using core' core(2) by (simp add: ws_inv_def ws_core_def ws_ids_def)
    with Inl new act tab show ?thesis by (simp add: create_tab_with_runtime_def Let_def ws_ids_def)
  next
    case (Inr res)
    then obtain tab terminal rt where res: "r = Inr (tab, terminal, rt)" by (cases res) auto
    with tab have t: "tab_inv (next_pane_id g') tab" "tab_ids tab = [PaneId ?n]" "root_pane tab = PaneId ?n"
      "number tab = next_public_tab_number w" by auto
    have fresh: "PaneId ?n \<notin> set (ws_ids w)" by (rule ws_core_fresh [OF core(1)])
    have nums: "numbers_ok (set (ws_ids w)) (next_public_pane_number w) (public_pane_numbers w)"
      using core by (simp add: ws_core_def)
    have upd: "AList.update (PaneId ?n) (next_public_pane_number w) (public_pane_numbers w) =
        public_pane_numbers w @ [(PaneId ?n, next_public_pane_number w)]"
      using nums fresh by (simp add: update_fresh numbers_ok_def)
    let ?w' = "register_new_pane_with_number ?w (PaneId ?n) (next_public_pane_number w)\<lparr>tabs := tabs w @ [tab]\<rparr>"
    have "tabs_ok (next_pane_id g') (next_public_tab_number w + 1) (tabs w @ [tab])"
      using core' t fresh by (intro tabs_ok_append) (auto simp: ws_core_def ws_ids_def)
    moreover have "active_ok (ws_active w) (tabs w @ [tab])"
      using core by (auto simp: ws_core_def active_ok_def)
    ultimately have "ws_inv (next_pane_id g') ?w'"
      using numbers_register [OF nums fresh, of "next_public_pane_number w"] t
      by (simp add: ws_inv_def ws_core_def register_new_pane_with_number_def ws_ids_def)
    with res new act tab t upd show ?thesis
      by (simp add: create_tab_with_runtime_def Let_def register_new_pane_with_number_def ws_ids_def)
  qed
qed

lemma close_tab_inv:
  assumes w: "ws_inv n w" and c: "close_tab w idx = (ok, w')"
  shows "ws_inv n w' \<and> ws_id w' = ws_id w \<and> next_public_pane_number w' = next_public_pane_number w \<and>
    set (public_pane_numbers w') \<subseteq> set (public_pane_numbers w) \<and>
    (if ok then idx < length (tabs w) \<and> set (ws_ids w') = set (ws_ids w) - set (tab_ids (tabs w ! idx)) else w' = w)"
proof (cases "length (tabs w) \<le> 1 \<or> length (tabs w) \<le> idx")
  case True
  with assms show ?thesis by (simp add: close_tab_def)
next
  case False
  then have idx: "idx < length (tabs w)" "1 < length (tabs w)" by simp_all
  have core: "ws_core n {} w" using w by (simp add: ws_inv_def)
  let ?is = "map fst (tab_panes (tabs w ! idx))"
  let ?w = "w\<lparr>tabs := vec_remove idx (tabs w),
      public_pane_numbers := fold AList.delete ?is (public_pane_numbers w)\<rparr>"
  have w': "w' = after_removal ?w idx" "ok"
    using c False by (simp_all add: close_tab_def Let_def fold_unregister)
  have "set ?is = set (tab_ids (tabs w ! idx))"
    using ws_core_tab [OF core nth_mem [OF idx(1)]] by (simp add: tab_inv_def)
  moreover have "numbers_ok (set (ws_ids w)) (next_public_pane_number w) (public_pane_numbers w)"
    using core by (simp add: ws_core_def)
  note numbers_unregister_all [OF this, of ?is]
  moreover have "active_ok (ws_active w') (vec_remove idx (tabs w))"
    using core idx by (auto simp: w'(1) after_removal_def active_ok_def ws_core_def)
  moreover have "set (fold AList.delete is m) \<subseteq> set m" for "is" and m :: "(PaneId \<times> nat) list"
    by (induction "is" arbitrary: m) (fastforce simp: AList.delete_eq)+
  moreover have "vec_remove idx (tabs w) \<noteq> []" using length_vec_remove [OF idx(1)] idx(2) by (metis diff_is_0_eq leD list.size(3))
  moreover have "ws_id w' = ws_id w" by (simp add: w' after_removal_def)
  ultimately show ?thesis
    using core_remove [OF core idx(1)] idx(1) w'(2)
    by (simp add: ws_inv_def ws_core_def w'(1) ws_ids_def)
qed

lemma see_panes_inv: "tab_inv n tab \<Longrightarrow> tab_inv n (see_panes tab) \<and> tab_ids (see_panes tab) = tab_ids tab \<and>
    number (see_panes tab) = number tab"
  by (auto simp: tab_inv_def see_panes_def tab_ids_def comp_def case_prod_beta image_image)

lemma switch_tab_inv:
  assumes "ws_inv n w"
  shows "ws_inv n (switch_tab w idx) \<and> ws_id (switch_tab w idx) = ws_id w \<and>
    set (ws_ids (switch_tab w idx)) = set (ws_ids w) \<and>
    public_pane_numbers (switch_tab w idx) = public_pane_numbers w \<and>
    next_public_pane_number (switch_tab w idx) = next_public_pane_number w"
proof (cases "idx < length (tabs w)")
  case False
  with assms show ?thesis by (simp add: switch_tab_def)
next
  case True
  have core: "ws_core n {} w" using assms by (simp add: ws_inv_def)
  let ?t = "see_panes (tabs w ! idx)"
  have t: "tab_inv n ?t" "tab_ids ?t = tab_ids (tabs w ! idx)" "number ?t = number (tabs w ! idx)"
    using see_panes_inv [OF ws_core_tab [OF core nth_mem [OF True]]] by simp_all
  have "set (tab_ids ?t) \<inter> (set (ws_ids w) - set (tab_ids (tabs w ! idx))) = {}" by (simp add: t)
  note r = core_replace [OF core True t(1) order_refl t(3) this]
  have "set (concat (map tab_ids ((tabs w)[idx := ?t]))) = set (ws_ids w)"
    unfolding r(2) t(2) using tab_in_ws [OF True] by blast
  moreover have "active_ok idx ((tabs w)[idx := ?t])" using True by (simp add: active_ok_def)
  ultimately show ?thesis
    using r(1) core assms True by (simp add: switch_tab_def ws_inv_def ws_core_def ws_ids_def)
qed

text \<open>A pane that was split in tab \<open>idx\<close> is registered under the next number.\<close>

lemma register_split:
  assumes core: "ws_core n {} w" and idx: "idx < length (tabs w)" and n': "n \<le> n'"
    and t: "tab_inv n' t" "tab_ids t = insert_after i new (tab_ids (tabs w ! idx))" "number t = number (tabs w ! idx)"
    and i: "i \<in> set (tab_ids (tabs w ! idx))" and new: "new \<notin> set (ws_ids w)"
    and w': "w' = register_new_pane_with_number (w\<lparr>tabs := (tabs w)[idx := t]\<rparr>) new (next_public_pane_number w)"
  shows "ws_inv n' w' \<and> set (ws_ids w') = insert new (set (ws_ids w)) \<and>
    public_pane_numbers w' = public_pane_numbers w @ [(new, next_public_pane_number w)] \<and>
    next_public_pane_number w' = next_public_pane_number w + 1"
proof -
  have ids: "set (tab_ids t) = insert new (set (tab_ids (tabs w ! idx)))" using i by (simp add: t(2))
  have "set (tab_ids t) \<inter> (set (ws_ids w) - set (tab_ids (tabs w ! idx))) = {}" using new by (auto simp: ids)
  note r = core_replace [OF core idx t(1) n' t(3) this]
  have all: "set (concat (map tab_ids ((tabs w)[idx := t]))) = insert new (set (ws_ids w))"
    unfolding r(2) ids using tab_in_ws [OF idx] by blast
  have nums: "numbers_ok (set (ws_ids w)) (next_public_pane_number w) (public_pane_numbers w)"
    using core by (simp add: ws_core_def)
  have "AList.update new (next_public_pane_number w) (public_pane_numbers w) =
      public_pane_numbers w @ [(new, next_public_pane_number w)]"
    using nums new by (simp add: update_fresh numbers_ok_def)
  then show ?thesis
    using r(1,3) all idx numbers_register [OF nums new, of "next_public_pane_number w"]
    by (simp add: w' register_new_pane_with_number_def ws_inv_def ws_core_def ws_ids_def) (use idx in force)
qed

lemma split_ws_cases:
  assumes w: "ws_inv (next_pane_id g) w" and g: "next_pane_id g \<noteq> - 1"
    and s: "ws_split_pane_with_runtime spawn micros here g w i d ratio cwd env foc argv = res"
  shows "\<exists>r w' g'. res = Some (r, w', g') \<and> next_workspace_id g' = next_workspace_id g \<and>
    next_pane_id g' \<in> {next_pane_id g, next_pane_id g + 1} \<and> ws_inv (next_pane_id g') w' \<and> ws_id w' = ws_id w \<and>
    (case r of
       Some (Inr (idx, new)) \<Rightarrow> i \<in> set (ws_ids w) \<and> new_id new = PaneId (next_pane_id g) \<and>
         next_pane_id g' = next_pane_id g + 1 \<and>
         set (ws_ids w') = insert (new_id new) (set (ws_ids w)) \<and>
         public_pane_numbers w' = public_pane_numbers w @ [(new_id new, next_public_pane_number w)] \<and>
         next_public_pane_number w' = next_public_pane_number w + 1
     | _ \<Rightarrow> w' = w)"
proof (cases "find_tab_index_for_pane w i")
  case None
  with w s show ?thesis by (auto simp: ws_split_pane_with_runtime_def)
next
  case (Some idx)
  have core: "ws_core (next_pane_id g) {} w" using w by (simp add: ws_inv_def)
  note f = find_tab(2) [OF core Some]
  let ?t = "tabs w ! idx" and ?c = "map_option Argv argv"
  let ?env = "launch_env_for_new_pane w (number ?t) (next_public_pane_number w) env"
  have t: "tab_inv (next_pane_id g) ?t" "i \<in> set (tab_ids ?t)" "idx < length (tabs w)" using f by auto
  show ?thesis
  proof (rule split_tab_cases [OF t(1) g t(2), of spawn micros here foc d ratio cwd ?env ?c])
    fix e assume e: "split_pane_with_runtime spawn micros here g ?t i foc d ratio cwd ?env ?c =
      Some (Inl e, ?t, g\<lparr>next_pane_id := next_pane_id g + 1\<rparr>)"
    have "ws_inv (next_pane_id g + 1) w" by (rule ws_inv_mono [OF w]) (use alloc_less [OF g] in simp)
    with e Some s show ?thesis by (auto simp: ws_split_pane_with_runtime_def Let_def)
  next
    fix new t' g'
    assume new: "split_pane_with_runtime spawn micros here g ?t i foc d ratio cwd ?env ?c = Some (Inr new, t', g')"
      "new_id new = PaneId (next_pane_id g)" "next_pane_id g' = next_pane_id g + 1"
      "next_workspace_id g' = next_workspace_id g" "tab_inv (next_pane_id g') t'"
      "tab_ids t' = insert_after i (new_id new) (tab_ids ?t)" "number t' = number ?t"
    define w' where "w' = register_new_pane_with_number (w\<lparr>tabs := (tabs w)[idx := t']\<rparr>) (new_id new) (next_public_pane_number w)"
    have "new_id new \<notin> set (ws_ids w)" using ws_core_fresh [OF core] new(2) by simp
    from register_split [OF core t(3) _ new(5,6,7) t(2) this w'_def] new(3) alloc_less [OF g]
    have "ws_inv (next_pane_id g') w' \<and> set (ws_ids w') = insert (new_id new) (set (ws_ids w)) \<and>
      public_pane_numbers w' = public_pane_numbers w @ [(new_id new, next_public_pane_number w)] \<and>
      next_public_pane_number w' = next_public_pane_number w + 1" by simp
    moreover have "res = Some (Some (Inr (idx, new)), w', g')"
      using new(1) Some s by (simp add: ws_split_pane_with_runtime_def Let_def w'_def)
    moreover have "ws_id w' = ws_id w" by (simp add: w'_def register_new_pane_with_number_def)
    moreover have "i \<in> set (ws_ids w)" using tab_in_ws [OF t(3)] t(2) by blast
    ultimately show ?thesis using new(2-4) by auto
  qed
qed

lemma remove_pane_cases:
  assumes w: "ws_inv n w" and r: "ws_remove_pane w i = res"
  shows "\<exists>close w'. res = Some (close, w') \<and> ws_inv n w' \<and> ws_id w' = ws_id w \<and>
    next_public_pane_number w' = next_public_pane_number w \<and>
    set (public_pane_numbers w') \<subseteq> set (public_pane_numbers w) \<and>
    (if close then w' = w \<and> ws_ids w = [i] else set (ws_ids w') = set (ws_ids w) - {i})"
proof (cases "find_tab_index_for_pane w i")
  case None
  have core: "ws_core n {} w" using w by (simp add: ws_inv_def)
  with None w r find_tab(1) [OF core, of i] show ?thesis by (auto simp: ws_remove_pane_def)
next
  case (Some idx)
  have core: "ws_core n {} w" using w by (simp add: ws_inv_def)
  note f = find_tab(2) [OF core Some]
  let ?t = "tabs w ! idx"
  have t: "tab_inv n ?t" "i \<in> set (tab_ids ?t)" "idx < length (tabs w)" using f by auto
  have nums: "numbers_ok (set (ws_ids w)) (next_public_pane_number w) (public_pane_numbers w)"
    using core by (simp add: ws_core_def)
  have del: "set (AList.delete i m) \<subseteq> set m" for m :: "(PaneId \<times> nat) list" by (auto simp: AList.delete_eq)
  show ?thesis
  proof (cases "length (tab_ids ?t) \<le> 1")
    case True
    then have one: "tab_ids ?t = [i]" using t(2) by (cases "tab_ids ?t") auto
    show ?thesis
    proof (cases "length (tabs w) \<le> 1")
      case single: True
      then have "tabs w = [?t]" using t(3) by (cases "tabs w") auto
      then have "ws_ids w = [i]" using one by (metis concat.simps list.simps(8,9) append_Nil2 ws_ids_def)
      moreover have "res = Some (True, w)" using True single Some r by (simp add: ws_remove_pane_def pane_count_ids)
      ultimately show ?thesis using w by (intro exI [of _ True] exI [of _ w]) simp
    next
      case False
      define w' where "w' = after_removal (unregister_pane (w\<lparr>tabs := vec_remove idx (tabs w)\<rparr>) i) idx"
      have "active_ok (ws_active w') (vec_remove idx (tabs w))"
        using core t(3) False by (auto simp: w'_def unregister_pane_def after_removal_def active_ok_def ws_core_def)
      moreover have "vec_remove idx (tabs w) \<noteq> []"
        using length_vec_remove [OF t(3)] False by (metis diff_is_0_eq list.size(3))
      ultimately have "ws_inv n w' \<and> set (ws_ids w') = set (ws_ids w) - {i}"
        using core_remove [OF core t(3)] numbers_unregister [OF nums, of i]
        by (simp add: ws_inv_def ws_core_def w'_def unregister_pane_def ws_ids_def one)
      moreover have "ws_id w' = ws_id w \<and> next_public_pane_number w' = next_public_pane_number w \<and>
          public_pane_numbers w' = AList.delete i (public_pane_numbers w)"
        by (simp add: w'_def unregister_pane_def after_removal_def)
      moreover have "res = Some (False, w')"
        using True False Some r by (simp add: ws_remove_pane_def pane_count_ids w'_def)
      ultimately show ?thesis using del by auto
    qed
  next
    case False
    with detach_cases [OF t(1), of i] t(2) obtain term_id t' where
      d: "detach_pane ?t i = Some (Some (i, term_id), t')" "tab_inv n t'" "tab_ids t' = remove1 i (tab_ids ?t)"
        "number t' = number ?t" by auto
    define w' where "w' = unregister_pane (w\<lparr>tabs := (tabs w)[idx := t']\<rparr>) i"
    have ids: "set (tab_ids t') = set (tab_ids ?t) - {i}" using tab_inv_ids(1) [OF t(1)] by (simp add: d(3))
    have "set (tab_ids t') \<inter> (set (ws_ids w) - set (tab_ids ?t)) = {}" by (auto simp: ids)
    note rep = core_replace [OF core t(3) d(2) order_refl d(4) this]
    have "set (concat (map tab_ids ((tabs w)[idx := t']))) = set (ws_ids w) - {i}"
      unfolding rep(2) ids using tab_in_ws [OF t(3)] t(2) by blast
    then have "ws_inv n w' \<and> set (ws_ids w') = set (ws_ids w) - {i}"
      using rep(1,3) numbers_unregister [OF nums, of i] t(3)
      by (simp add: ws_inv_def ws_core_def w'_def unregister_pane_def ws_ids_def) force
    moreover have "res = Some (False, w')"
      using False Some r d(1) by (simp add: ws_remove_pane_def pane_count_ids w'_def)
    ultimately show ?thesis using del
      by (intro exI [of _ False] exI [of _ w']) (simp add: w'_def unregister_pane_def)
  qed
qed

section \<open>Moving a pane and moving a tab\<close>

lemma adjust_is_after_removal:
  "tabs w \<noteq> [] \<Longrightarrow> adjust_active_tab_after_removal w idx = after_removal w idx"
  by (simp add: adjust_active_tab_after_removal_def after_removal_def)

text \<open>Taking a pane leaves it registered and in no tab; the workspace may be left without tabs.\<close>

lemma take_pane_cases:
  assumes w: "ws_inv n w" and i: "i \<in> set (ws_ids w)"
  shows "\<exists>taken w'. ws_take_pane w i = Some (Some taken, w') \<and> moved_id (taken_moved taken) = i \<and>
    ws_core n {i} w' \<and> set (ws_ids w') = set (ws_ids w) - {i} \<and> (workspace_empty taken \<longleftrightarrow> tabs w' = []) \<and>
    ws_id w' = ws_id w \<and> public_pane_numbers w' = public_pane_numbers w \<and>
    next_public_pane_number w' = next_public_pane_number w \<and>
    next_public_tab_number w' = next_public_tab_number w \<and>
    (\<forall>tab \<in> set (tabs w). i \<notin> set (tab_ids tab) \<longrightarrow> tab \<in> set (tabs w'))"
proof -
  have core: "ws_core n {} w" using w by (simp add: ws_inv_def)
  obtain idx where idx: "find_tab_index_for_pane w i = Some idx"
    using find_tab(1) [OF core, of i] i by auto
  note f = find_tab(2) [OF core idx]
  let ?t = "tabs w ! idx"
  have t: "tab_inv n ?t" "i \<in> set (tab_ids ?t)" "idx < length (tabs w)" using f by auto
  obtain moved t' where m: "tab_take_pane ?t i = Some (Some moved, t')" "moved_id moved = i"
      "1 < length (tab_ids ?t) \<longrightarrow> tab_inv n t' \<and> tab_ids t' = remove1 i (tab_ids ?t) \<and> number t' = number ?t"
    using take_cases [OF t(1,2)] by blast
  have nums: "numbers_ok (set (ws_ids w)) (next_public_pane_number w) (public_pane_numbers w)"
    using core by (simp add: ws_core_def)
  have again: "insert i (set (ws_ids w) - {i}) = set (ws_ids w)" using i by blast
  show ?thesis
  proof (cases "length (tab_ids ?t) \<le> 1")
    case True
    then have one: "tab_ids ?t = [i]" using t(2) by (cases "tab_ids ?t") auto
    let ?w = "w\<lparr>tabs := vec_remove idx (tabs w)\<rparr>"
    define w' where "w' = adjust_active_tab_after_removal ?w idx"
    have w': "tabs w' = vec_remove idx (tabs w)" "w' = w\<lparr>tabs := tabs w', ws_active := ws_active w'\<rparr>"
      by (simp_all add: w'_def adjust_active_tab_after_removal_def)
    have "vec_remove idx (tabs w) = [] \<longleftrightarrow> length (tabs w) - 1 = 0"
      by (simp only: length_vec_remove [OF t(3), symmetric] length_0_conv)
    then have "active_ok (ws_active w') (tabs w')"
      using core t(3) length_vec_remove [OF t(3)]
      by (auto simp: w'_def adjust_active_tab_after_removal_def active_ok_def ws_core_def)
    moreover have ids: "set (ws_ids w') = set (ws_ids w) - {i}"
      using core_remove(2) [OF core t(3)] by (simp add: ws_ids_def w'(1) one)
    moreover have "tabs_ok n (next_public_tab_number w) (tabs w')"
      using core_remove(1) [OF core t(3)] by (simp add: w'(1))
    ultimately have "ws_core n {i} w'"
      using nums again unfolding ws_core_def by (subst (1 4 5) w'(2)) simp
    moreover have "ws_take_pane w i = Some (Some \<lparr>taken_moved = moved, removed_tab_idx = Some idx,
        workspace_empty = (tabs w' = [])\<rparr>, w')"
      using idx m(1) True by (simp add: ws_take_pane_def pane_count_ids w'_def Let_def)
    moreover have "ws_id w' = ws_id w" "public_pane_numbers w' = public_pane_numbers w"
      "next_public_pane_number w' = next_public_pane_number w" "next_public_tab_number w' = next_public_tab_number w"
      by (simp_all add: w'_def adjust_active_tab_after_removal_def)
    moreover have "\<forall>tab \<in> set (tabs w). i \<notin> set (tab_ids tab) \<longrightarrow> tab \<in> set (tabs w')"
      using mset_vec_remove [OF t(3)] t(2) by (metis insertE mset_eq_setD set_mset_add_mset_insert set_mset_mset w'(1))
    ultimately show ?thesis using ids m(2) by simp
  next
    case False
    with m(3) have t': "tab_inv n t'" "tab_ids t' = remove1 i (tab_ids ?t)" "number t' = number ?t" by auto
    have tids: "set (tab_ids t') = set (tab_ids ?t) - {i}" using tab_inv_ids(1) [OF t(1)] by (simp add: t'(2))
    have "set (tab_ids t') \<inter> (set (ws_ids w) - set (tab_ids ?t)) = {}" by (auto simp: tids)
    note rep = core_replace [OF core t(3) t'(1) order_refl t'(3) this]
    let ?w = "w\<lparr>tabs := (tabs w)[idx := t']\<rparr>"
    have ids: "set (ws_ids ?w) = set (ws_ids w) - {i}"
      using rep(2) tab_in_ws [OF t(3)] t(2) unfolding tids by (auto simp: ws_ids_def)
    have "ws_core n {i} ?w" unfolding ws_core_def using rep(1,3) nums again ids by simp
    moreover have "ws_take_pane w i = Some (Some \<lparr>taken_moved = moved, removed_tab_idx = None,
        workspace_empty = False\<rparr>, ?w)"
      using idx m(1) False by (simp add: ws_take_pane_def pane_count_ids)
    moreover have "tabs ?w \<noteq> []" using t(3) by auto
    moreover have "tab \<in> set (tabs ?w)" if tab: "tab \<in> set (tabs w)" "i \<notin> set (tab_ids tab)" for tab
    proof -
      obtain k where "k < length (tabs w)" "tab = tabs w ! k" using tab(1) by (auto simp: in_set_conv_nth)
      with tab(2) t(2) have "(tabs w)[idx := t'] ! k = tab" by (cases "k = idx") auto
      moreover have "k < length ((tabs w)[idx := t'])" using \<open>k < length (tabs w)\<close> by simp
      ultimately have "tab \<in> set ((tabs w)[idx := t'])" by (metis nth_mem)
      then show ?thesis by simp
    qed
    ultimately show ?thesis using ids m(2) by simp
  qed
qed

lemma unregister_core:
  "ws_core n {i} w \<Longrightarrow> ws_core n {} (unregister_pane w i) \<and> ws_ids (unregister_pane w i) = ws_ids w"
  using numbers_unregister [of "set (ws_ids w) \<union> {i}" "next_public_pane_number w" "public_pane_numbers w" i]
  by (simp add: ws_core_def unregister_pane_def ws_ids_def)

text \<open>A pane on the move is registered again, unless it still is.\<close>

lemma register_moved:
  assumes "numbers_ok (ids \<union> E) b m" "E \<subseteq> {i}" "i \<notin> ids"
    and "public_pane_numbers w = m" "next_public_pane_number w = b"
  shows "numbers_ok (insert i ids) (next_public_pane_number (register_moved_pane w i))
      (public_pane_numbers (register_moved_pane w i)) \<and>
    b \<le> next_public_pane_number (register_moved_pane w i) \<and>
    (\<forall>p v. (p, v) \<in> set (public_pane_numbers (register_moved_pane w i)) \<longrightarrow> (p, v) \<in> set m \<or> b \<le> v)"
proof (cases "map_of m i")
  case None
  then have "i \<notin> fst ` set m" by (simp add: map_of_eq_None_iff)
  then have E: "ids \<union> E = ids" "i \<notin> ids" using assms by (auto simp: numbers_ok_def)
  with None assms(1,4,5) \<open>i \<notin> fst ` set m\<close> numbers_register [of ids b m i b] show ?thesis
    by (simp add: register_moved_pane_def register_new_pane_with_number_def update_fresh)
next
  case (Some v)
  then have "i \<in> fst ` set m" by (force dest: map_of_SomeD)
  then have "E = {i}" using assms by (auto simp: numbers_ok_def)
  with Some assms show ?thesis by (simp add: register_moved_pane_def)
qed

lemma register_moved_simps [simp]:
  "tabs (register_moved_pane w i) = tabs w" "ws_active (register_moved_pane w i) = ws_active w"
  "next_public_tab_number (register_moved_pane w i) = next_public_tab_number w"
  "ws_id (register_moved_pane w i) = ws_id w"
  by (simp_all add: register_moved_pane_def register_new_pane_with_number_def)

lemma insert_moved_cases:
  assumes core: "ws_core n E w" and E: "E \<subseteq> {moved_id moved}" and fresh: "moved_id moved \<notin> set (ws_ids w)"
    and raw: "raw (moved_id moved) < n" and ins: "insert_moved_pane_into_tab w idx t moved d r foc = (res, w')"
  shows "ws_id w' = ws_id w \<and>
    (if idx < length (tabs w) \<and> t \<in> set (tab_ids (tabs w ! idx))
     then res = Inr (moved_id moved) \<and> ws_inv n w' \<and> set (ws_ids w') = insert (moved_id moved) (set (ws_ids w)) \<and>
       idx < length (tabs w') \<and> moved_id moved \<in> set (tab_ids (tabs w' ! idx)) \<and>
       next_public_pane_number w \<le> next_public_pane_number w' \<and>
       (\<forall>p v. (p, v) \<in> set (public_pane_numbers w') \<longrightarrow> (p, v) \<in> set (public_pane_numbers w) \<or> next_public_pane_number w \<le> v)
     else res = Inl moved \<and> w' = w)"
proof (cases "idx < length (tabs w)")
  case False
  with ins show ?thesis by (simp add: insert_moved_pane_into_tab_def vec_get_def)
next
  case idx: True
  let ?t = "tabs w ! idx" and ?i = "moved_id moved"
  obtain r' t' where r': "insert_existing_pane ?t t moved d r foc = (r', t')"
    by (cases "insert_existing_pane ?t t moved d r foc")
  have inv: "tab_inv n ?t" using ws_core_tab [OF core nth_mem [OF idx]] .
  have i: "?i \<notin> set (tab_ids ?t)" using fresh tab_in_ws [OF idx] by blast
  note c = insert_cases [OF inv raw r']
  show ?thesis
  proof (cases "t \<in> set (tab_ids ?t)")
    case False
    with c i ins r' idx show ?thesis by (simp add: insert_moved_pane_into_tab_def vec_get_def)
  next
    case True
    with c i have t': "tab_inv n t'" "number t' = number ?t" "tab_ids t' = insert_after t ?i (tab_ids ?t)" "r' = Inr ?i"
      by simp_all
    let ?w = "w\<lparr>tabs := (tabs w)[idx := t']\<rparr>"
    have tids: "set (tab_ids t') = insert ?i (set (tab_ids ?t))" using True by (simp add: t'(3))
    have "set (tab_ids t') \<inter> (set (ws_ids w) - set (tab_ids ?t)) = {}" using fresh by (auto simp: tids)
    note rep = core_replace [OF core idx t'(1) order_refl t'(2) this]
    have w': "w' = register_moved_pane ?w ?i" "res = Inr ?i"
      using ins r' idx t'(4) by (simp_all add: insert_moved_pane_into_tab_def vec_get_def)
    have ids: "set (concat (map tab_ids ((tabs w)[idx := t']))) = insert ?i (set (ws_ids w))"
      unfolding rep(2) tids using tab_in_ws [OF idx] by blast
    have "numbers_ok (set (ws_ids w) \<union> E) (next_public_pane_number w) (public_pane_numbers w)"
      using core by (simp add: ws_core_def)
    note reg = register_moved [OF this E fresh, of ?w]
    have ne: "(tabs w)[idx := t'] \<noteq> []" using idx by auto
    show ?thesis
      using w' idx True reg rep(1,3) ids ne tids by (simp add: ws_inv_def ws_core_def ws_ids_def)
  qed
qed

lemma create_from_existing_cases:
  assumes core: "ws_core n E w" and E: "E \<subseteq> {moved_id moved}" and fresh: "moved_id moved \<notin> set (ws_ids w)"
    and raw: "raw (moved_id moved) < n" and c: "create_tab_from_existing_pane w moved label = (idx, w')"
  shows "ws_id w' = ws_id w \<and> ws_inv n w' \<and> set (ws_ids w') = insert (moved_id moved) (set (ws_ids w)) \<and>
    idx = length (tabs w) \<and> idx < length (tabs w') \<and> moved_id moved \<in> set (tab_ids (tabs w' ! idx)) \<and>
    next_public_pane_number w \<le> next_public_pane_number w' \<and>
    (\<forall>p v. (p, v) \<in> set (public_pane_numbers w') \<longrightarrow> (p, v) \<in> set (public_pane_numbers w) \<or> next_public_pane_number w \<le> v)"
proof -
  let ?i = "moved_id moved" and ?t = "tab_from_existing_pane (next_public_tab_number w) label moved"
  let ?w = "w\<lparr>next_public_tab_number := next_public_tab_number w + 1\<rparr>"
  have t: "tab_inv n ?t" "tab_ids ?t = [?i]" "number ?t = next_public_tab_number w"
    using from_existing_inv [OF raw] by (simp_all add: tab_from_existing_pane_def)
  have w': "w' = register_moved_pane ?w ?i\<lparr>tabs := tabs w @ [?t]\<rparr>" "idx = length (tabs w)"
    using c by (simp_all add: create_tab_from_existing_pane_def Let_def)
  have "tabs_ok n (next_public_tab_number w + 1) (tabs w @ [?t])"
    using core t fresh by (intro tabs_ok_append) (auto simp: ws_core_def ws_ids_def)
  moreover have "numbers_ok (set (ws_ids w) \<union> E) (next_public_pane_number w) (public_pane_numbers w)"
    using core by (simp add: ws_core_def)
  note reg = register_moved [OF this E fresh, of ?w]
  moreover have "active_ok (ws_active w) (tabs w @ [?t])" using core by (auto simp: ws_core_def active_ok_def)
  ultimately show ?thesis
    using w' t(2) by (simp add: ws_inv_def ws_core_def ws_ids_def)
qed

lemma same_tab: "distinct (concat (map f ts)) \<Longrightarrow> a \<in> set ts \<Longrightarrow> b \<in> set ts \<Longrightarrow> x \<in> set (f a) \<Longrightarrow> x \<in> set (f b) \<Longrightarrow> a = b"
  by (induction ts) auto

text \<open>Moving a tab takes it out of the strip and puts it back before the tab the user pointed at, and
  changes nothing else: the other tabs keep their order, and the tab that was active stays active,
  wherever it now stands. A move to the place the tab already has, or from or to outside the strip, is
  refused.\<close>

theorem move_tab_correct:
  assumes "ws_inv n w"
  shows "case move_tab w source insert_idx of (ok, w') \<Rightarrow>
    (ok \<longleftrightarrow> source < length (tabs w) \<and> insert_idx \<le> length (tabs w) \<and> insert_idx \<noteq> source \<and> insert_idx \<noteq> source + 1) \<and>
    (if ok then
       tabs w' = vec_insert (if source < insert_idx then insert_idx - 1 else insert_idx) (tabs w ! source)
         (vec_remove source (tabs w)) \<and>
       active_tab w' = active_tab w \<and> active_tab w' \<noteq> None \<and>
       w' = w\<lparr>tabs := tabs w', ws_active := ws_active w'\<rparr>
     else w' = w)"
proof (cases "source < length (tabs w) \<and> insert_idx \<le> length (tabs w) \<and> insert_idx \<noteq> source \<and> insert_idx \<noteq> source + 1")
  case False
  then have "move_tab w source insert_idx = (False, w)" by (auto simp: move_tab_def Let_def)
  with False show ?thesis by auto
next
  case True
  let ?k = "if source < insert_idx then insert_idx - 1 else insert_idx"
  define ts where "ts = vec_insert ?k (tabs w ! source) (vec_remove source (tabs w))"
  have core: "tabs_ok n (next_public_tab_number w) (tabs w)" "ws_active w < length (tabs w)"
    using assms by (auto simp: ws_inv_def ws_core_def active_ok_def)
  have perm: "mset ts = mset (tabs w)" using mset_vec_remove [of source "tabs w"] True by (simp add: ts_def)
  then have sets: "set ts = set (tabs w)" by (rule mset_eq_setD)
  let ?a = "tabs w ! ws_active w"
  have a: "?a \<in> set ts" using core(2) by (simp add: sets)
  then obtain i where i: "position (\<lambda>tab. root_pane tab = root_pane ?a) ts = Some i"
    using position_exists [of ?a ts "\<lambda>tab. root_pane tab = root_pane ?a"] by auto
  have i': "i < length ts" "root_pane (ts ! i) = root_pane ?a" using position_Some [OF i] by auto
  have root: "root_pane tab \<in> set (tab_ids tab)" if "tab \<in> set (tabs w)" for tab
    using core(1) that by (auto simp: tabs_ok_def list_all_iff tab_inv_def)
  have "ts ! i = ?a"
  proof (rule same_tab)
    show "distinct (concat (map tab_ids ts))" using tabs_ok_perm [OF perm [symmetric] core(1)] by (simp add: tabs_ok_def)
    show "ts ! i \<in> set ts" "?a \<in> set ts" using i'(1) a by simp_all
    then show "root_pane ?a \<in> set (tab_ids (ts ! i))" "root_pane ?a \<in> set (tab_ids ?a)"
      using root [of "ts ! i"] root [of ?a] by (simp_all add: i'(2) sets)
  qed
  moreover have "min ?k (length (tabs w) - 1) = ?k" "source \<noteq> ?k" using True by auto
  then have "move_tab w source insert_idx = (True, w\<lparr>tabs := ts, ws_active := i\<rparr>)"
    using True core(2) i by (simp add: move_tab_def Let_def vec_get_def ts_def)
  ultimately show ?thesis
    using True core(2) i'(1) by (simp add: active_tab_def vec_get_def ts_def)
qed

lemma move_tab_inv:
  assumes "ws_inv n w" "move_tab w source insert_idx = (ok, w')"
  shows "ws_inv n w' \<and> ws_id w' = ws_id w \<and> set (ws_ids w') = set (ws_ids w) \<and>
    public_pane_numbers w' = public_pane_numbers w \<and> next_public_pane_number w' = next_public_pane_number w"
proof -
  define k where "k = min (if source < insert_idx then insert_idx - 1 else insert_idx) (length (tabs w) - 1)"
  define ts where "ts = vec_insert k (tabs w ! source) (vec_remove source (tabs w))"
  define i where "i = (case Option.bind (map_option root_pane (vec_get (tabs w) (ws_active w)))
    (\<lambda>r. position (\<lambda>tab. root_pane tab = r) ts) of Some i \<Rightarrow> i | None \<Rightarrow> k)"
  have mv: "move_tab w source insert_idx =
      (if length (tabs w) \<le> source \<or> length (tabs w) < insert_idx \<or> source = k then (False, w)
       else (True, w\<lparr>tabs := ts, ws_active := i\<rparr>))"
    unfolding move_tab_def Let_def k_def [symmetric] ts_def i_def by simp
  show ?thesis
  proof (cases "length (tabs w) \<le> source \<or> length (tabs w) < insert_idx \<or> source = k")
    case True
    with assms mv show ?thesis by simp
  next
    case False
    have core: "ws_core n {} w" using assms(1) by (simp add: ws_inv_def)
    have perm: "mset ts = mset (tabs w)" using mset_vec_remove [of source "tabs w"] False by (simp add: ts_def)
    then have sets: "set ts = set (tabs w)" "length ts = length (tabs w)" by (auto dest: mset_eq_setD mset_eq_length)
    have w': "w' = w\<lparr>tabs := ts, ws_active := i\<rparr>" using assms(2) mv False by simp
    have "k < length ts" using False sets by (auto simp: k_def)
    then have i: "i < length ts" by (auto simp: i_def bind_eq_Some_conv split: option.splits dest: position_Some)
    have ids: "set (concat (map tab_ids ts)) = set (ws_ids w)" by (simp add: ws_ids_def sets)
    have "ts \<noteq> []" using i by auto
    then show ?thesis using tabs_ok_perm [OF perm [symmetric]] core i ids
      by (simp add: w' ws_inv_def ws_core_def ws_ids_def active_ok_def)
  qed
qed

section \<open>The machine of a workspace\<close>

lemma new_workspace_inv:
  assumes "next_pane_id g \<noteq> - 1" "new_with_tab spawn micros g cwd argv env = (Inr (w, terminal, rt), g')"
  shows "ws_inv (next_pane_id g') w \<and> ws_ids w = [PaneId (next_pane_id g)] \<and>
    next_pane_id g' = next_pane_id g + 1 \<and> ws_id w = fst (generate_workspace_id (next_workspace_id g)) \<and>
    next_workspace_id g' = next_workspace_id g + 1"
proof -
  obtain i where i: "fst (generate_workspace_id (next_workspace_id g)) = i" by simp
  let ?g = "g\<lparr>next_workspace_id := next_workspace_id g + 1\<rparr>"
  let ?env = "with_identity (from_extra env) i (public_tab_id_for_number i 1) (public_pane_id_for_number i 1)"
  have gen: "generate_workspace_id (next_workspace_id g) = (i, next_workspace_id g + 1)"
    using i by (simp add: generate_workspace_id_def)
  obtain r g1 where r: "new_with_runtime spawn micros ?g 1 cwd ?env argv = (r, g1)"
    by (cases "new_with_runtime spawn micros ?g 1 cwd ?env argv")
  have inr: "new_with_tab spawn micros g cwd argv env = (case r of Inl e \<Rightarrow> (Inl e, g1)
      | Inr (tab, terminal, runtime) \<Rightarrow> (Inr (\<lparr>ws_id = i, ws_custom_name = None, identity_cwd = cwd, worktree_space = None,
         public_pane_numbers = [(root_pane tab, 1)], next_public_pane_number = 2, next_public_tab_number = 2,
         tabs = [tab], ws_active = 0\<rparr>, terminal, runtime), g1))"
    unfolding new_with_tab_def gen prod.case Let_def r by (simp split: sum.split)
  with assms(2) obtain tab where tab: "r = Inr (tab, terminal, rt)" "g' = g1"
    and w: "w = \<lparr>ws_id = i, ws_custom_name = None, identity_cwd = cwd, worktree_space = None,
      public_pane_numbers = [(root_pane tab, 1)], next_public_pane_number = 2, next_public_tab_number = 2,
      tabs = [tab], ws_active = 0\<rparr>"
    by (cases r) auto
  have "next_pane_id ?g \<noteq> - 1" using assms(1) by simp
  from new_tab_ids [OF this r] tab have t: "tab_inv (next_pane_id g') tab" "tab_ids tab = [PaneId (next_pane_id g)]"
      "root_pane tab = PaneId (next_pane_id g)" "number tab = 1" "next_pane_id g' = next_pane_id g + 1"
      "next_workspace_id g' = next_workspace_id g + 1" by auto
  show ?thesis
    using t(1-4) unfolding w ws_inv_def ws_core_def ws_ids_def tabs_ok_def numbers_ok_def active_ok_def
    by (simp add: t(5,6) i)
qed

lemma existing_workspace_inv:
  assumes "raw (moved_id moved) < n"
  shows "ws_inv n (fst (ws_from_existing_pane g label tab_label cwd moved)) \<and>
    ws_ids (fst (ws_from_existing_pane g label tab_label cwd moved)) = [moved_id moved]"
  using from_existing_inv [OF assms, of 1 tab_label]
  by (simp add: ws_from_existing_pane_def generate_workspace_id_def ws_inv_def ws_core_def ws_ids_def tabs_ok_def
      numbers_ok_def active_ok_def tab_from_existing_pane_def)

text \<open>Splitting the focused pane is splitting that pane, with a shell command as its program.\<close>

lemma split_focused_as_split:
  assumes w: "ws_inv n w" and tab: "active_tab w = Some tab"
    and s: "ws_split_focused_command spawn micros here g w d cwd command env = Some (r, w', g')"
  shows "\<exists>r'. ws_split_pane_with_runtime (\<lambda>p c e _. spawn p c e (Some (ShellCommand command))) micros here g w
    (tl_focus (tab_layout tab)) d None cwd env True None = Some (r', w', g')"
proof -
  let ?f = "tl_focus (tab_layout tab)"
  have core: "ws_core n {} w" using w by (simp add: ws_inv_def)
  have act: "ws_active w < length (tabs w)" "tab = tabs w ! ws_active w"
    using tab by (auto simp: active_tab_def vec_get_def split: if_splits)
  have ok: "distinct (concat (map tab_ids (tabs w)))" "distinct (map number (tabs w))"
    using core by (simp_all add: ws_core_def tabs_ok_def)
  have f: "?f \<in> set (tab_ids tab)"
    using ws_core_tab [OF core nth_mem [OF act(1)]] by (simp add: act(2) tab_inv_def layout_inv_def tab_ids_def)
  then have "?f \<in> set (ws_ids w)" using tab_in_ws [OF act(1)] by (auto simp: act(2))
  then obtain idx where idx: "find_tab_index_for_pane w ?f = Some idx" using find_tab(1) [OF core, of ?f] by auto
  note fi = find_tab(2) [OF core idx]
  have "tabs w ! idx = tab" by (rule same_tab [OF ok(1) _ _ _ f]) (use fi act in auto)
  then have "number (tabs w ! idx) = number (tabs w ! ws_active w)" by (simp add: act(2))
  then have idx': "idx = ws_active w"
    using nth_eq_iff_index_eq [OF ok(2), of idx "ws_active w"] fi act(1) by simp
  let ?spawn = "\<lambda>p c e _. spawn p c e (Some (ShellCommand command))"
  let ?env = "launch_env_for_new_pane w (number tab) (next_public_pane_number w) env"
  have "split_pane_with_runtime spawn micros here g tab ?f True d None cwd ?env (Some (ShellCommand command)) =
      split_pane_with_runtime ?spawn micros here g tab ?f True d None cwd ?env None"
    unfolding split_pane_with_runtime_def option.case SplitCommand.case by (rule refl)
  with s idx idx' act tab show ?thesis
    by (auto simp: ws_split_focused_command_def tab_split_focused_command_def ws_split_pane_with_runtime_def Let_def
        split: option.splits sum.splits prod.splits)
qed

text \<open>What happens to a workspace: its own operations and ids of panes drawn elsewhere in the process. What
  a started program returns is not looked at.\<close>

inductive ws_own :: "Globals \<times> Workspace \<Rightarrow> Globals \<times> Workspace \<Rightarrow> bool" where
  ws_create: "next_pane_id g \<noteq> - 1 \<Longrightarrow>
    create_tab_with_runtime (spawn :: unit spawner) micros g w cwd argv env = Some (r, w', g') \<Longrightarrow> ws_own (g, w) (g', w')"
| ws_close: "close_tab w idx = (ok, w') \<Longrightarrow> ws_own (g, w) (g, w')"
| ws_move: "move_tab w source insert_idx = (ok, w') \<Longrightarrow> ws_own (g, w) (g, w')"
| ws_switch: "ws_own (g, w) (g, switch_tab w idx)"
| ws_rename: "ws_own (g, w) (g, ws_set_custom_name w name)"
| ws_split: "next_pane_id g \<noteq> - 1 \<Longrightarrow>
    ws_split_pane_with_runtime (spawn :: unit spawner) micros here g w i d ratio cwd env foc argv = Some (r', w', g') \<Longrightarrow>
    ws_own (g, w) (g', w')"
| ws_split_focused: "next_pane_id g \<noteq> - 1 \<Longrightarrow>
    ws_split_focused_command (spawn :: unit spawner) micros here g w d cwd command env = Some (r0, w', g') \<Longrightarrow>
    ws_own (g, w) (g', w')"
| ws_remove: "ws_remove_pane w i = Some (close, w') \<Longrightarrow> ws_own (g, w) (g, w')"
| ws_elsewhere: "next_pane_id g \<le> next_pane_id g' \<Longrightarrow> next_workspace_id g \<le> next_workspace_id g' \<Longrightarrow> ws_own (g, w) (g', w)"

text \<open>A pane may also be moved within the workspace, be given away or be received.\<close>

inductive ws_step :: "Globals \<times> Workspace \<Rightarrow> Globals \<times> Workspace \<Rightarrow> bool" where
  ws_own: "ws_own s t \<Longrightarrow> ws_step s t"
| ws_move_pane: "ws_take_pane w i = Some (Some taken, w1) \<Longrightarrow>
    insert_moved_pane_into_tab w1 idx t (taken_moved taken) d ratio' foc = (Inr p, w') \<Longrightarrow> ws_step (g, w) (g, w')"
| ws_move_to_new_tab: "ws_take_pane w i = Some (Some taken, w1) \<Longrightarrow>
    create_tab_from_existing_pane w1 (taken_moved taken) label = (idx, w') \<Longrightarrow> ws_step (g, w) (g, w')"
| ws_give: "ws_take_pane w i = Some (Some taken, w1) \<Longrightarrow> \<not> workspace_empty taken \<Longrightarrow>
    ws_step (g, w) (g, unregister_pane w1 i)"
| ws_receive: "raw (moved_id moved) < next_pane_id g \<Longrightarrow> moved_id moved \<notin> set (ws_ids w) \<Longrightarrow>
    insert_moved_pane_into_tab w idx t moved d ratio' foc = (r'', w') \<Longrightarrow> ws_step (g, w) (g, w')"
| ws_receive_in_new_tab: "raw (moved_id moved) < next_pane_id g \<Longrightarrow> moved_id moved \<notin> set (ws_ids w) \<Longrightarrow>
    create_tab_from_existing_pane w moved label = (idx, w') \<Longrightarrow> ws_step (g, w) (g, w')"

definition ws_grows :: "Workspace \<Rightarrow> Workspace \<Rightarrow> bool" where
  "ws_grows w w' \<longleftrightarrow>
     ws_id w' = ws_id w \<and> next_public_pane_number w \<le> next_public_pane_number w' \<and>
     (\<forall>p v. (p, v) \<in> set (public_pane_numbers w') \<longrightarrow> (p, v) \<in> set (public_pane_numbers w) \<or> next_public_pane_number w \<le> v)"

lemma ws_grows_refl [simp]: "ws_grows w w"
  by (simp add: ws_grows_def)

lemma ws_grows_trans: "ws_grows a b \<Longrightarrow> ws_grows b c \<Longrightarrow> ws_grows a c"
  unfolding ws_grows_def by (metis le_trans)

lemma ws_take_id: "ws_take_pane w i = Some (Some taken, w1) \<Longrightarrow> ws_inv n w \<Longrightarrow> i \<in> set (ws_ids w)"
  using find_tab(1) [of n "{}" w i] by (cases "i \<in> set (ws_ids w)") (auto simp: ws_take_pane_def ws_inv_def)

lemma ws_take_step:
  assumes "ws_inv n w" "ws_take_pane w i = Some (Some taken, w1)"
  shows "ws_core n {i} w1" "moved_id (taken_moved taken) = i" "i \<notin> set (ws_ids w1)" "raw i < n" "ws_grows w w1"
    "workspace_empty taken \<longleftrightarrow> tabs w1 = []" "set (ws_ids w1) = set (ws_ids w) - {i}"
proof -
  have i: "i \<in> set (ws_ids w)" by (rule ws_take_id [OF assms(2,1)])
  from take_pane_cases [OF assms(1) i] assms(2)
  show "ws_core n {i} w1" "moved_id (taken_moved taken) = i" "workspace_empty taken \<longleftrightarrow> tabs w1 = []"
    and ids: "set (ws_ids w1) = set (ws_ids w) - {i}" by auto
  then show "i \<notin> set (ws_ids w1)" by simp
  show "raw i < n" using ws_core_raw assms(1) i by (auto simp: ws_inv_def)
  from take_pane_cases [OF assms(1) i] assms(2) show "ws_grows w w1" by (auto simp: ws_grows_def)
qed

lemma ws_own_safe:
  assumes "ws_own s t" "s = (g, w)" "t = (g', w')" "ws_inv (next_pane_id g) w"
  shows "ws_inv (next_pane_id g') w' \<and> ws_grows w w' \<and> next_pane_id g \<le> next_pane_id g' \<and>
    next_workspace_id g \<le> next_workspace_id g' \<and>
    (\<forall>p \<in> set (ws_ids w'). p \<in> set (ws_ids w) \<or> next_pane_id g \<le> raw p)"
  using assms
proof (cases rule: ws_own.cases)
  case (ws_create g0 spawn micros w0 cwd argv env r w1 g1)
  with create_tab_cases [of g w spawn micros cwd argv env] assms alloc_less [of "next_pane_id g"] show ?thesis
    by (auto simp: ws_grows_def split: sum.splits)
next
  case (ws_close w0 idx ok w1 g0)
  with close_tab_inv [of "next_pane_id g" w idx ok w'] assms show ?thesis by (auto simp: ws_grows_def split: if_splits)
next
  case (ws_move w0 source insert_idx ok w1 g0)
  with move_tab_inv [of "next_pane_id g" w source insert_idx ok w'] assms show ?thesis by (auto simp: ws_grows_def)
next
  case (ws_switch g0 w0 idx)
  with switch_tab_inv [of "next_pane_id g" w idx] assms show ?thesis by (auto simp: ws_grows_def)
next
  case (ws_rename g0 w0 name)
  with assms show ?thesis
    by (auto simp: ws_grows_def ws_set_custom_name_def ws_inv_def ws_core_def ws_ids_def)
next
  case (ws_split g0 spawn micros here w0 i d ratio cwd env foc argv r w1 g1)
  with split_ws_cases [of g w spawn micros here i d ratio cwd env foc argv] assms alloc_less [of "next_pane_id g"]
  show ?thesis by (auto simp: ws_grows_def split: option.splits sum.splits)
next
  case (ws_split_focused g0 spawn micros here w0 d cwd command env r w1 g1)
  then have s': "ws_split_focused_command spawn micros here g w d cwd command env = Some (r, w', g')"
    "next_pane_id g \<noteq> - 1" using assms by auto
  then obtain tab where tab: "active_tab w = Some tab"
    by (auto simp: ws_split_focused_command_def Let_def split: option.splits)
  from split_focused_as_split [OF assms(4) tab s'(1)] obtain r' where
    "ws_split_pane_with_runtime (\<lambda>p c e _. spawn p c e (Some (ShellCommand command))) micros here g w
      (tl_focus (tab_layout tab)) d None cwd env True None = Some (r', w', g')" by blast
  from split_ws_cases [OF assms(4) s'(2) this] alloc_less [OF s'(2)] show ?thesis
    by (auto simp: ws_grows_def split: option.splits sum.splits)
next
  case (ws_remove w0 i close w1 g0)
  with remove_pane_cases [of "next_pane_id g" w i] assms show ?thesis by (auto simp: ws_grows_def split: if_splits)
next
  case (ws_elsewhere g0 g1 w0)
  with assms ws_inv_mono show ?thesis by (auto simp: ws_grows_def)
qed

lemma ws_step_safe:
  assumes "ws_step s t" "s = (g, w)" "t = (g', w')" "ws_inv (next_pane_id g) w"
  shows "ws_inv (next_pane_id g') w' \<and> ws_grows w w' \<and> next_pane_id g \<le> next_pane_id g'"
  using assms
proof (cases rule: ws_step.cases)
  case ws_own
  with ws_own_safe [OF _ assms(2-4)] show ?thesis by simp
next
  case (ws_move_pane w0 i taken w1 idx t d ratio' foc p w2 g0)
  note tk = ws_take_step [of "next_pane_id g" w i taken w1]
  with ws_move_pane assms insert_moved_cases [of "next_pane_id g" "{i}" w1 "taken_moved taken" idx t d ratio' foc "Inr p" w']
  have "ws_inv (next_pane_id g) w' \<and> ws_grows w1 w' \<and> ws_grows w w1"
    by (auto simp: ws_grows_def split: if_splits)
  then show ?thesis using ws_grows_trans ws_move_pane assms by auto
next
  case (ws_move_to_new_tab w0 i taken w1 label idx w2 g0)
  note tk = ws_take_step [of "next_pane_id g" w i taken w1]
  with ws_move_to_new_tab assms create_from_existing_cases [of "next_pane_id g" "{i}" w1 "taken_moved taken" label idx w']
  have "ws_inv (next_pane_id g) w' \<and> ws_grows w1 w' \<and> ws_grows w w1" by (auto simp: ws_grows_def)
  then show ?thesis using ws_grows_trans ws_move_to_new_tab assms by auto
next
  case (ws_give w0 i taken w1 g0)
  note tk = ws_take_step [of "next_pane_id g" w i taken w1]
  with ws_give assms have core: "ws_core (next_pane_id g) {i} w1" "ws_grows w w1" "tabs w1 \<noteq> []" by auto
  moreover have "ws_grows w1 (unregister_pane w1 i)"
    by (auto simp: ws_grows_def unregister_pane_def AList.delete_eq)
  ultimately show ?thesis
    using unregister_core [OF core(1)] ws_grows_trans ws_give assms by (auto simp: ws_inv_def unregister_pane_def)
next
  case (ws_receive moved g0 w0 idx t d ratio' foc r w1)
  with insert_moved_cases [of "next_pane_id g" "{}" w moved idx t d ratio' foc r w'] assms show ?thesis
    by (auto simp: ws_grows_def ws_inv_def split: if_splits)
next
  case (ws_receive_in_new_tab moved g0 w0 label idx w1)
  with create_from_existing_cases [of "next_pane_id g" "{}" w moved label idx w'] assms show ?thesis
    by (auto simp: ws_grows_def ws_inv_def)
qed

definition ws_init :: "Globals \<times> Workspace \<Rightarrow> bool" where
  "ws_init = (\<lambda>(g', w).
     (\<exists>(spawn :: unit spawner) micros g cwd argv env terminal.
        next_pane_id g \<noteq> - 1 \<and> new_with_tab spawn micros g cwd argv env = (Inr (w, terminal, ()), g')) \<or>
     (\<exists>g label tab_label cwd moved.
        raw (moved_id moved) < next_pane_id g \<and> ws_from_existing_pane g label tab_label cwd moved = (w, g')))"

interpretation workspace: safe_machine ws_init ws_step "\<lambda>(g, w). ws_inv (next_pane_id g) w"
proof unfold_locales
  fix s assume s: "ws_init s"
  obtain g' w where gw: "s = (g', w)" by (cases s)
  from s consider (new) spawn micros g cwd argv env terminal where "next_pane_id g \<noteq> - 1"
      "new_with_tab (spawn :: unit spawner) micros g cwd argv env = (Inr (w, terminal, ()), g')"
    | (old) g label tab_label cwd moved where "raw (moved_id moved) < next_pane_id g"
      "ws_from_existing_pane g label tab_label cwd moved = (w, g')"
    by (auto simp: ws_init_def gw)
  then show "case s of (g, w) \<Rightarrow> ws_inv (next_pane_id g) w"
  proof cases
    case new
    from new_workspace_inv [OF new] have "ws_inv (next_pane_id g') w" by blast
    then show ?thesis by (simp add: gw)
  next
    case old
    have "next_pane_id g' = next_pane_id g" using old(2) by (auto simp: ws_from_existing_pane_def Let_def split: prod.splits)
    with existing_workspace_inv [OF old(1), of g label tab_label cwd] old(2) show ?thesis by (simp add: gw)
  qed
next
  fix s t assume "case s of (g, w) \<Rightarrow> ws_inv (next_pane_id g) w" "ws_step s t"
  then show "case t of (g, w) \<Rightarrow> ws_inv (next_pane_id g) w"
    using ws_step_safe [of s t] by (cases s; cases t) auto
qed

text \<open>C11: Every workspace that can be reached has at least one tab and an active one; no pane is in two
  tabs; each tab has its root pane and the view state of exactly its own panes; and exactly the panes of
  the workspace have public numbers, all different and below the next one, as the tabs have theirs.\<close>

theorem workspace_reachable_invariant:
  assumes "reach ws_init ws_step (g, w)"
  shows "active_tab w \<noteq> None \<and> distinct (ws_ids w) \<and>
    (\<forall>tab \<in> set (tabs w). tab_inv (next_pane_id g) tab \<and> root_pane tab \<in> set (tab_ids tab)) \<and>
    dom (public_pane_number w) = set (ws_ids w) \<and> inj_on (public_pane_number w) (set (ws_ids w)) \<and>
    (\<forall>i v. public_pane_number w i = Some v \<longrightarrow> 0 < v \<and> v < next_public_pane_number w) \<and>
    distinct (map number (tabs w)) \<and> (\<forall>tab \<in> set (tabs w). 0 < number tab \<and> number tab < next_public_tab_number w)"
proof -
  have inv: "ws_inv (next_pane_id g) w" using workspace.reach_inv [OF assms] by simp
  then have ok: "tabs_ok (next_pane_id g) (next_public_tab_number w) (tabs w)"
      "numbers_ok (set (ws_ids w)) (next_public_pane_number w) (public_pane_numbers w)"
      "ws_active w < length (tabs w)"
    by (auto simp: ws_inv_def ws_core_def active_ok_def)
  have num: "public_pane_number w = map_of (public_pane_numbers w)" by (auto simp: public_pane_number_def)
  have d: "dom (public_pane_number w) = set (ws_ids w)"
    using ok(2) by (simp add: num dom_map_of_conv_image_fst numbers_ok_def)
  have "inj_on (public_pane_number w) (set (ws_ids w))"
  proof (rule inj_onI)
    fix p q assume pq: "p \<in> set (ws_ids w)" "public_pane_number w p = public_pane_number w q"
    then obtain v where "(p, v) \<in> set (public_pane_numbers w)" "(q, v) \<in> set (public_pane_numbers w)"
      using d by (metis domD map_of_SomeD num)
    moreover have "inj_on snd (set (public_pane_numbers w))" using ok(2) by (simp add: numbers_ok_def distinct_map)
    ultimately show "p = q" using inj_onD [of snd _ "(p, v)" "(q, v)"] by auto
  qed
  moreover have "0 < v \<and> v < next_public_pane_number w" if "public_pane_number w i = Some v" for i v
    using ok(2) map_of_SomeD [of "public_pane_numbers w" i v] that by (auto simp: num numbers_ok_def list_all_iff)
  moreover have "tab_inv (next_pane_id g) tab \<and> root_pane tab \<in> set (tab_ids tab) \<and> 0 < number tab \<and>
      number tab < next_public_tab_number w" if "tab \<in> set (tabs w)" for tab
    using ok(1) that by (auto simp: tabs_ok_def list_all_iff tab_inv_def)
  ultimately show ?thesis using ok d by (auto simp: active_tab_def vec_get_def tabs_ok_def ws_ids_def)
qed

text \<open>C13: A public number is never given to a second pane. Whatever happens to a workspace, the numbers its
  panes have below the next number are those they had before; a number once passed is the number of its
  pane or of none, and the id of the workspace stays the same.\<close>

theorem public_numbers_never_reused:
  assumes "ws_inv (next_pane_id g) w" "ws_step\<^sup>*\<^sup>* (g, w) (g', w')"
  shows "ws_id w' = ws_id w \<and> next_public_pane_number w \<le> next_public_pane_number w' \<and>
    (\<forall>i v. public_pane_number w' i = Some v \<and> v < next_public_pane_number w \<longrightarrow> public_pane_number w i = Some v)"
proof -
  have "ws_inv (next_pane_id g') w' \<and> ws_grows w w'"
    using assms(2)
  proof (induction "(g', w')" arbitrary: g' w' rule: rtranclp_induct)
    case base
    with assms(1) show ?case by simp
  next
    case (step s)
    obtain g1 w1 where s: "s = (g1, w1)" by (cases s)
    with step have "ws_inv (next_pane_id g1) w1" "ws_grows w w1" by auto
    with ws_step_safe [OF step(2) s refl] ws_grows_trans show ?case by blast
  qed
  then have grows: "ws_grows w w'" by simp
  have "public_pane_number w i = Some v" if v: "public_pane_number w' i = Some v" "v < next_public_pane_number w" for i v
  proof -
    have "(i, v) \<in> set (public_pane_numbers w')" using v(1) by (auto simp: public_pane_number_def dest: map_of_SomeD)
    with grows v(2) have "(i, v) \<in> set (public_pane_numbers w)" by (fastforce simp: ws_grows_def)
    moreover have "distinct (map fst (public_pane_numbers w))"
      using assms(1) by (simp add: ws_inv_def ws_core_def numbers_ok_def)
    ultimately show ?thesis by (simp add: public_pane_number_def)
  qed
  with grows show ?thesis by (simp add: ws_grows_def)
qed

section \<open>Examples\<close>

definition example_globals :: Globals where
  "example_globals = \<lparr>next_pane_id = 3, next_workspace_id = 1, next_terminal_id = 3\<rparr>"

definition example_pane :: "u32 \<Rightarrow> MovedPane" where
  "example_pane i = \<lparr>moved_id = PaneId i, moved_state = new_pane_state (TerminalId ''term_0'')\<rparr>"

definition example_ws :: Workspace where
  "example_ws = fst (ws_from_existing_pane example_globals None None ''/'' (example_pane 1))"

text \<open>One workspace with a tab of pane 1, and the same with pane 2 moved in as a second tab.\<close>

definition example_ws2 :: Workspace where
  "example_ws2 = snd (create_tab_from_existing_pane example_ws (example_pane 2) (Some ''logs''))"

lemma example_ws:
  shows "ws_inv 3 example_ws" "ws_ids example_ws = [PaneId 1]"
    and "reach ws_init ws_step (example_globals\<lparr>next_workspace_id := 2\<rparr>, example_ws)"
proof -
  have r: "raw (moved_id (example_pane 1)) < 3" by (simp add: example_pane_def)
  from existing_workspace_inv [OF r] show "ws_inv 3 example_ws" "ws_ids example_ws = [PaneId 1]"
    by (simp_all add: example_ws_def example_pane_def)
  have "ws_from_existing_pane example_globals None None ''/'' (example_pane 1) =
      (example_ws, example_globals\<lparr>next_workspace_id := 2\<rparr>)"
    by (simp add: example_ws_def ws_from_existing_pane_def Let_def generate_workspace_id_def example_globals_def)
  moreover have "raw (moved_id (example_pane 1)) < next_pane_id example_globals"
    using r by (simp add: example_globals_def)
  ultimately have "ws_init (example_globals\<lparr>next_workspace_id := 2\<rparr>, example_ws)" unfolding ws_init_def by blast
  then show "reach ws_init ws_step (example_globals\<lparr>next_workspace_id := 2\<rparr>, example_ws)" by (rule reach_init)
qed

lemma example_ws2:
  shows "ws_inv 3 example_ws2" "length (tabs example_ws2) = 2"
    and "ws_step (example_globals, example_ws) (example_globals, example_ws2)"
proof -
  obtain idx where c: "create_tab_from_existing_pane example_ws (example_pane 2) (Some ''logs'') = (idx, example_ws2)"
    by (metis example_ws2_def prod.collapse)
  have m: "moved_id (example_pane 2) \<notin> set (ws_ids example_ws)" "raw (moved_id (example_pane 2)) < 3"
    by (simp_all add: example_ws example_pane_def)
  have "ws_core 3 {} example_ws" using example_ws(1) by (simp add: ws_inv_def)
  from create_from_existing_cases [OF this _ m c] show "ws_inv 3 example_ws2" by simp
  show "length (tabs example_ws2) = 2"
    by (simp add: example_ws2_def create_tab_from_existing_pane_def Let_def example_ws_def ws_from_existing_pane_def
        generate_workspace_id_def)
  show "ws_step (example_globals, example_ws) (example_globals, example_ws2)"
    using m c by (intro ws_receive_in_new_tab) (simp_all add: example_globals_def)
qed

theorem workspace_reachable_invariant_witness:
  "active_tab example_ws \<noteq> None \<and> dom (public_pane_number example_ws) = {PaneId 1}"
  using workspace_reachable_invariant [OF example_ws(3)] by (simp add: example_ws(2))

theorem public_numbers_never_reused_witness:
  "ws_id example_ws2 = ws_id example_ws \<and>
   next_public_pane_number example_ws \<le> next_public_pane_number example_ws2"
proof -
  have "ws_inv (next_pane_id example_globals) example_ws" using example_ws(1) by (simp add: example_globals_def)
  from public_numbers_never_reused [OF this r_into_rtranclp [where r = ws_step, OF example_ws2(3)]] show ?thesis by simp
qed

theorem move_tab_correct_witness:
  "case move_tab example_ws2 0 2 of (ok, w') \<Rightarrow> ok \<and> active_tab w' = active_tab example_ws2"
  using move_tab_correct [OF example_ws2(1), of 0 2]
  by (cases "move_tab example_ws2 0 2") (simp add: example_ws2(2))

end
