(* ===== verification/App_Panes.thy ===== *)
theory App_Panes
  imports Workspace
begin

text \<open>
  The workspaces of the server and the ids its API speaks of them: \<open>herdr/src/app/ids.rs\<close>, the moves
  of panes between tabs and workspaces (\<open>handle_pane_move\<close> and \<open>recover_failed_pane_move\<close> of
  \<open>herdr/src/app/api/panes.rs\<close>) and the navigation they use (\<open>herdr/src/app/actions.rs\<close>). The
  answers in JSON, the events of the API, logging and the schedule of the next save are left out. An
  index out of range is a panic, \<open>None\<close>.
\<close>

section \<open>The state\<close>

record App =
  workspaces :: "Workspace list"
  active :: "nat option"
  selected :: nat
  terminal_mode :: bool
  previous_pane_focus :: "(string \<times> PaneId) option"
  pane_id_aliases :: "(u32 \<times> PaneId) list"
  public_pane_id_aliases :: "(string \<times> PaneId) list"

definition parse_usize :: "string \<Rightarrow> nat option" where "parse_usize = parse_unsigned USIZE_MAX"

text \<open>\<open>rsplit_once\<close> with a pattern that cannot overlap itself: the last place it occurs.\<close>

fun rsplit_once :: "string \<Rightarrow> string \<Rightarrow> (string \<times> string) option" where
  "rsplit_once pat [] = None"
| "rsplit_once pat (c # cs) =
     (case rsplit_once pat cs of
        Some (a, b) \<Rightarrow> Some (c # a, b)
      | None \<Rightarrow> map_option (\<lambda>rest. ([], rest)) (strip_prefix pat (c # cs)))"

section \<open>Ids\<close>

definition find_pane :: "App \<Rightarrow> PaneId \<Rightarrow> (nat \<times> PaneState) option" where
  "find_pane self i =
     Option.bind (position (\<lambda>ws. ws_pane_state ws i \<noteq> None) (workspaces self))
       (\<lambda>ws_idx. map_option (\<lambda>pane. (ws_idx, pane)) (ws_pane_state (workspaces self ! ws_idx) i))"

definition public_workspace_id :: "App \<Rightarrow> nat \<Rightarrow> string option" where
  "public_workspace_id self ws_idx = map_option ws_id (vec_get (workspaces self) ws_idx)"

definition public_tab_id :: "App \<Rightarrow> nat \<Rightarrow> nat \<Rightarrow> string option" where
  "public_tab_id self ws_idx tab_idx =
     do {
       ws \<leftarrow> vec_get (workspaces self) ws_idx;
       tab_number \<leftarrow> public_tab_number ws tab_idx;
       Some (public_tab_id_for_number (ws_id ws) tab_number)
     }"

definition public_pane_id :: "App \<Rightarrow> nat \<Rightarrow> PaneId \<Rightarrow> string option" where
  "public_pane_id self ws_idx i =
     do {
       ws \<leftarrow> vec_get (workspaces self) ws_idx;
       pane_number \<leftarrow> public_pane_number ws i;
       Some (public_pane_id_for_number (ws_id ws) pane_number)
     }"

definition parse_workspace_id :: "App \<Rightarrow> string \<Rightarrow> nat option" where
  "parse_workspace_id self i =
     (case position (\<lambda>workspace. ws_id workspace = i) (workspaces self) of
        Some ws_idx \<Rightarrow> Some ws_idx
      | None \<Rightarrow>
          (case do { rest \<leftarrow> strip_prefix ''w_'' i; n \<leftarrow> parse_usize rest; checked_pred n } of
             Some ws_idx \<Rightarrow> Some ws_idx
           | None \<Rightarrow> Option.bind (parse_usize i) checked_pred))"

definition tab_exists :: "App \<Rightarrow> nat \<Rightarrow> nat \<Rightarrow> (nat \<times> nat) option" where
  "tab_exists self ws_idx tab_idx =
     do { ws \<leftarrow> vec_get (workspaces self) ws_idx; _ \<leftarrow> vec_get (tabs ws) tab_idx; Some (ws_idx, tab_idx) }"

definition parse_tab_id :: "App \<Rightarrow> string \<Rightarrow> (nat \<times> nat) option" where
  "parse_tab_id self i =
     (case strip_prefix ''t_'' i of
        Some rest \<Rightarrow>
          do {
            (ws_raw, tab_raw) \<leftarrow> rsplit_once ''_'' rest;
            ws_idx \<leftarrow> parse_workspace_id self ws_raw;
            n \<leftarrow> parse_usize tab_raw;
            tab_idx \<leftarrow> checked_pred n;
            tab_exists self ws_idx tab_idx
          }
      | None \<Rightarrow>
          do {
            (ws_raw, tab_raw) \<leftarrow> rsplit_once '':'' i;
            ws_idx \<leftarrow> parse_workspace_id self ws_raw;
            tab_idx \<leftarrow>
              (case strip_prefix ''t'' tab_raw of
                 Some encoded \<Rightarrow>
                   do {
                     tab_number \<leftarrow> decode_public_number encoded;
                     ws \<leftarrow> vec_get (workspaces self) ws_idx;
                     position (\<lambda>tab. number tab = tab_number) (tabs ws)
                   }
               | None \<Rightarrow> Option.bind (parse_usize tab_raw) checked_pred);
            tab_exists self ws_idx tab_idx
          })"

definition resolve_raw_pane_id :: "App \<Rightarrow> u32 \<Rightarrow> PaneId option" where
  "resolve_raw_pane_id self r =
     (case map_of (pane_id_aliases self) r of
        Some alias \<Rightarrow> map_option (\<lambda>_. alias) (find_pane self alias)
      | None \<Rightarrow> if find_pane self (PaneId r) \<noteq> None then Some (PaneId r) else None)"

definition pane_with_number :: "App \<Rightarrow> nat \<Rightarrow> nat \<Rightarrow> (nat \<times> PaneId) option" where
  "pane_with_number self ws_idx pane_number =
     do {
       ws \<leftarrow> vec_get (workspaces self) ws_idx;
       (i, _) \<leftarrow> find (\<lambda>(_, num). num = pane_number) (public_pane_numbers ws);
       Some (ws_idx, i)
     }"

definition parse_pane_id :: "App \<Rightarrow> string \<Rightarrow> (nat \<times> PaneId) option" where
  "parse_pane_id self i =
     (case map_of (public_pane_id_aliases self) i of
        Some alias \<Rightarrow> map_option (\<lambda>(ws_idx, _). (ws_idx, alias)) (find_pane self alias)
      | None \<Rightarrow>
          (case strip_prefix ''p_'' i of
             Some rest \<Rightarrow>
               (case rsplit_once ''_'' rest of
                  Some (ws_raw, pane_raw) \<Rightarrow>
                    do {
                      ws_idx \<leftarrow> parse_workspace_id self ws_raw;
                      r \<leftarrow> parse_u32 pane_raw;
                      p \<leftarrow> resolve_raw_pane_id self r;
                      ws \<leftarrow> vec_get (workspaces self) ws_idx;
                      _ \<leftarrow> ws_pane_state ws p;
                      Some (ws_idx, p)
                    }
                | None \<Rightarrow>
                    do {
                      r \<leftarrow> parse_u32 rest;
                      p \<leftarrow> resolve_raw_pane_id self r;
                      (ws_idx, _) \<leftarrow> find_pane self p;
                      Some (ws_idx, p)
                    })
           | None \<Rightarrow>
               (case rsplit_once '':p'' i of
                  Some (ws_raw, pane_number_raw) \<Rightarrow>
                    do {
                      ws_idx \<leftarrow> parse_workspace_id self ws_raw;
                      pane_number \<leftarrow> decode_public_number pane_number_raw;
                      pane_with_number self ws_idx pane_number
                    }
                | None \<Rightarrow>
                    do {
                      (ws_raw, pane_number_raw) \<leftarrow> rsplit_once ''-'' i;
                      ws_idx \<leftarrow> parse_workspace_id self ws_raw;
                      pane_number \<leftarrow> parse_usize pane_number_raw;
                      pane_with_number self ws_idx pane_number
                    })))"

definition parse_current_public_pane_id :: "App \<Rightarrow> string \<Rightarrow> (nat \<times> PaneId) option" where
  "parse_current_public_pane_id self i =
     do {
       (ws_idx, p) \<leftarrow> parse_pane_id self i;
       if public_pane_id self ws_idx p = Some i then Some (ws_idx, p) else None
     }"

section \<open>Navigation\<close>

definition current_pane_focus_target :: "App \<Rightarrow> (string \<times> PaneId) option" where
  "current_pane_focus_target self =
     do {
       ws_idx \<leftarrow> active self;
       ws \<leftarrow> vec_get (workspaces self) ws_idx;
       p \<leftarrow> focused_pane_id ws;
       Some (ws_id ws, p)
     }"

definition record_pane_focus_change :: "App \<Rightarrow> (string \<times> PaneId) option \<Rightarrow> nat \<Rightarrow> PaneId \<Rightarrow> App" where
  "record_pane_focus_change self previous ws_idx p =
     (case vec_get (workspaces self) ws_idx of
        None \<Rightarrow> self
      | Some ws \<Rightarrow> if previous \<noteq> Some (ws_id ws, p) then self\<lparr>previous_pane_focus := previous\<rparr> else self)"

definition record_pane_focus_after_navigation :: "App \<Rightarrow> (string \<times> PaneId) option \<Rightarrow> App" where
  "record_pane_focus_after_navigation self previous =
     (if previous \<noteq> current_pane_focus_target self then self\<lparr>previous_pane_focus := previous\<rparr> else self)"

definition switch_workspace_tab :: "App \<Rightarrow> nat \<Rightarrow> nat \<Rightarrow> bool \<times> App" where
  "switch_workspace_tab self ws_idx tab_idx =
     (if tab_exists self ws_idx tab_idx = None then (False, self)
      else
        let previous = current_pane_focus_target self;
            self = self\<lparr>active := Some ws_idx, selected := ws_idx,
                        workspaces := (workspaces self)[ws_idx := switch_tab (workspaces self ! ws_idx) tab_idx]\<rparr>
        in (True, record_pane_focus_after_navigation self previous))"

text \<open>The active workspace must exist when the strip of workspaces is reordered.\<close>

definition move_workspace :: "App \<Rightarrow> nat \<Rightarrow> nat \<Rightarrow> (bool \<times> App) option" where
  "move_workspace self source_idx insert_idx =
     (if length (workspaces self) \<le> source_idx \<or> length (workspaces self) < insert_idx then Some (False, self)
      else
        let target_idx = (if source_idx < insert_idx then insert_idx - 1 else insert_idx)
        in if source_idx = target_idx then Some (False, self)
           else if (case active self of Some idx \<Rightarrow> length (workspaces self) \<le> idx | None \<Rightarrow> False) then None
           else
             let active_id = map_option (\<lambda>idx. ws_id (workspaces self ! idx)) (active self);
                 selected_id = map_option ws_id (vec_get (workspaces self) (selected self));
                 moved = vec_insert target_idx (workspaces self ! source_idx) (vec_remove source_idx (workspaces self));
                 find_id = (\<lambda>i. position (\<lambda>ws. ws_id ws = i) moved)
             in Some (True, self\<lparr>workspaces := moved, active := Option.bind active_id find_id,
                      selected := (case Option.bind selected_id find_id of Some i \<Rightarrow> i | None \<Rightarrow> 0)\<rparr>))"

section \<open>Moving a pane\<close>

datatype PaneMoveDestination =
    ToTab string "string option" Direction "f32 option"
  | ToNewTab "string option" "string option"
  | ToNewWorkspace "string option" "string option"

datatype ResolvedPaneMoveDestination =
    ExistingTab string PaneId Direction f32 bool
  | NewTab string "string option"
  | NewWorkspace "string option" "string option"

datatype PaneMoveReason = SameTab | ZoomedTab

datatype MoveOutcome =
    MoveError string
  | MoveUnchanged PaneMoveReason
  | MoveDone nat nat PaneId

record PaneMoveRecoveryContext =
  ctx_source :: nat
  ctx_workspace_id :: string
  ctx_workspace_label :: "string option"
  ctx_tab_label :: "string option"
  ctx_space :: "WorktreeSpaceMembership option"
  ctx_cwd :: string

definition split_direction_to_layout :: "bool \<Rightarrow> Direction" where
  "split_direction_to_layout right = (if right then Horizontal else Vertical)"

text \<open>What the request asks for; the left value is an answer without a move.\<close>

definition resolve_pane_move ::
    "App \<Rightarrow> nat \<Rightarrow> nat \<Rightarrow> string \<Rightarrow> PaneMoveDestination \<Rightarrow> (MoveOutcome + ResolvedPaneMoveDestination) option" where
  "resolve_pane_move self source_ws source_tab previous_workspace_id destination =
     (case destination of
        ToTab tab_id target split ratio \<Rightarrow>
          (case parse_tab_id self tab_id of
             None \<Rightarrow> Some (Inl (MoveError ''tab_not_found''))
           | Some (target_ws, target_tab) \<Rightarrow>
               if source_ws = target_ws \<and> source_tab = target_tab then Some (Inl (MoveUnchanged SameTab))
               else if zoomed (tabs (workspaces self ! target_ws) ! target_tab) then Some (Inl (MoveUnchanged ZoomedTab))
               else
                 (case (case target of
                          Some r \<Rightarrow>
                            (case parse_pane_id self r of
                               None \<Rightarrow> Inl ''target_pane_not_found''
                             | Some (pane_ws, p) \<Rightarrow>
                                 if pane_ws \<noteq> target_ws \<or>
                                    find_tab_index_for_pane (workspaces self ! pane_ws) p \<noteq> Some target_tab
                                 then Inl ''target_pane_not_found'' else Inr p)
                        | None \<Rightarrow> Inr (tl_focus (tab_layout (tabs (workspaces self ! target_ws) ! target_tab)))) of
                    Inl e \<Rightarrow> Some (Inl (MoveError e))
                  | Inr p \<Rightarrow>
                      (case public_tab_id self target_ws target_tab of
                         None \<Rightarrow> Some (Inl (MoveError ''tab_not_found''))
                       | Some target_tab_id \<Rightarrow>
                           Some (Inr (ExistingTab target_tab_id p split
                             (case ratio of Some r \<Rightarrow> r | None \<Rightarrow> f32_half) (source_ws \<noteq> target_ws))))))
      | ToNewTab workspace_id label \<Rightarrow>
          (case workspace_id of
             None \<Rightarrow> Some (Inr (NewTab previous_workspace_id label))
           | Some i \<Rightarrow>
               (case parse_workspace_id self i of
                  None \<Rightarrow> Some (Inl (MoveError ''workspace_not_found''))
                | Some ws_idx \<Rightarrow> map_option (\<lambda>target. Inr (NewTab target label)) (public_workspace_id self ws_idx)))
      | ToNewWorkspace label tab_label \<Rightarrow> Some (Inr (NewWorkspace label tab_label)))"

definition is_cross_workspace :: "ResolvedPaneMoveDestination \<Rightarrow> string \<Rightarrow> bool" where
  "is_cross_workspace resolved previous_workspace_id =
     (case resolved of
        ExistingTab _ _ _ _ cross \<Rightarrow> cross
      | NewTab workspace_id _ \<Rightarrow> workspace_id \<noteq> previous_workspace_id
      | NewWorkspace _ _ \<Rightarrow> True)"

definition close_source_workspace :: "App \<Rightarrow> nat \<Rightarrow> App" where
  "close_source_workspace self source_ws =
     (let self = self\<lparr>workspaces := vec_remove source_ws (workspaces self)\<rparr>
      in if workspaces self = [] then self\<lparr>active := None, selected := 0\<rparr>
         else
           let last = length (workspaces self) - 1;
               shift = (\<lambda>idx. if idx = source_ws then min source_ws last
                              else if source_ws < idx then idx - 1 else idx)
           in self\<lparr>active := map_option shift (active self), selected := shift (selected self)\<rparr>)"

definition recover_failed_pane_move ::
    "Globals \<Rightarrow> App \<Rightarrow> PaneMoveRecoveryContext \<Rightarrow> MovedPane \<Rightarrow> (App \<times> Globals) option" where
  "recover_failed_pane_move g self ctx moved =
     (case parse_workspace_id self (ctx_workspace_id ctx) of
        Some ws_idx \<Rightarrow>
          map_option
            (\<lambda>ws. (self\<lparr>workspaces := (workspaces self)[ws_idx :=
                      snd (create_tab_from_existing_pane ws moved (ctx_tab_label ctx))]\<rparr>, g))
            (vec_get (workspaces self) ws_idx)
      | None \<Rightarrow>
          (let (ws, g) = ws_from_existing_pane g (ctx_workspace_label ctx) (ctx_tab_label ctx)
                           (ctx_cwd ctx) moved;
               ws = ws\<lparr>ws_id := ctx_workspace_id ctx, worktree_space := ctx_space ctx\<rparr>;
               insert_idx = min (ctx_source ctx) (length (workspaces self));
               shift = (\<lambda>idx. if insert_idx \<le> idx then idx + 1 else idx);
               self = self\<lparr>active := map_option shift (active self),
                           selected := (if workspaces self \<noteq> [] then shift (selected self) else selected self)\<rparr>
           in Some (self\<lparr>workspaces := vec_insert insert_idx ws (workspaces self)\<rparr>, g)))"

text \<open>Where the pane goes: its workspace, its tab, and the state with it there, or an error with the pane
  recovered. \<open>cwd\<close> is the directory of its terminal.\<close>

definition place_moved_pane ::
    "Globals \<Rightarrow> App \<Rightarrow> PaneMoveRecoveryContext \<Rightarrow> ResolvedPaneMoveDestination \<Rightarrow> MovedPane \<Rightarrow> bool \<Rightarrow> string \<Rightarrow>
     ((string + nat \<times> nat) \<times> App \<times> Globals) option" where
  "place_moved_pane g self ctx resolved moved focus cwd =
     (let failed = map_option (\<lambda>(self, g). (Inl ''pane_move_failed'', self, g))
      in case resolved of
           ExistingTab tab_id target split ratio _ \<Rightarrow>
             (case parse_tab_id self tab_id of
                None \<Rightarrow> failed (recover_failed_pane_move g self ctx moved)
              | Some (target_ws, target_tab) \<Rightarrow>
                  (let (r, ws) = insert_moved_pane_into_tab (workspaces self ! target_ws) target_tab target moved split
                                   ratio focus;
                       self = self\<lparr>workspaces := (workspaces self)[target_ws := ws]\<rparr>
                   in case r of
                        Inl moved \<Rightarrow> failed (recover_failed_pane_move g self ctx moved)
                      | Inr _ \<Rightarrow> Some (Inr (target_ws, target_tab), self, g)))
         | NewTab workspace_id label \<Rightarrow>
             (case parse_workspace_id self workspace_id of
                None \<Rightarrow> failed (recover_failed_pane_move g self ctx moved)
              | Some target_ws \<Rightarrow>
                  (case vec_get (workspaces self) target_ws of
                     None \<Rightarrow> None
                   | Some ws \<Rightarrow>
                       (let (target_tab, ws) = create_tab_from_existing_pane ws moved label
                        in Some (Inr (target_ws, target_tab), self\<lparr>workspaces := (workspaces self)[target_ws := ws]\<rparr>, g))))
         | NewWorkspace label tab_label \<Rightarrow>
             (let (ws, g) = ws_from_existing_pane g label tab_label cwd moved;
                  self = self\<lparr>workspaces := workspaces self @ [ws]\<rparr>
              in Some (Inr (length (workspaces self) - 1, 0), self, g)))"

definition focus_moved_pane :: "App \<Rightarrow> (string \<times> PaneId) option \<Rightarrow> bool \<Rightarrow> nat \<Rightarrow> nat \<Rightarrow> PaneId \<Rightarrow> App" where
  "focus_moved_pane self previous_focus focus ws_idx tab_idx p =
     (if focus \<or> active self = None
      then (record_pane_focus_change (snd (switch_workspace_tab self ws_idx tab_idx)) previous_focus ws_idx p)
             \<lparr>terminal_mode := True\<rparr>
      else self)"

definition remove_alias_shadowed_by_new_pane :: "App \<Rightarrow> PaneId \<Rightarrow> App" where
  "remove_alias_shadowed_by_new_pane self p =
     self\<lparr>pane_id_aliases := AList.delete (raw p) (pane_id_aliases self)\<rparr>"

text \<open>The move itself, once its destination is known.\<close>

definition leave_source :: "App \<Rightarrow> nat \<Rightarrow> Workspace \<Rightarrow> bool \<Rightarrow> bool \<Rightarrow> PaneId \<Rightarrow> string \<Rightarrow> App" where
  "leave_source self source_ws ws emptied cross p previous_pane_id =
     (let self = self\<lparr>workspaces := (workspaces self)[source_ws := if cross then unregister_pane ws p else ws]\<rparr>;
          self = (if cross
                  then self\<lparr>public_pane_id_aliases := AList.update previous_pane_id p (public_pane_id_aliases self)\<rparr>
                  else self)
      in if emptied \<and> cross then close_source_workspace self source_ws else self)"

definition perform_pane_move ::
    "Globals \<Rightarrow> App \<Rightarrow> PaneMoveRecoveryContext \<Rightarrow> ResolvedPaneMoveDestination \<Rightarrow> nat \<Rightarrow> PaneId \<Rightarrow> string \<Rightarrow> bool \<Rightarrow>
     string \<Rightarrow> (MoveOutcome \<times> App \<times> Globals) option" where
  "perform_pane_move g self ctx resolved source_ws p previous_pane_id focus cwd =
     (let previous_focus = current_pane_focus_target self
      in case vec_get (workspaces self) source_ws of
           None \<Rightarrow> Some (MoveError ''pane_move_failed'', self, g)
         | Some ws \<Rightarrow>
             (case ws_take_pane ws p of
                None \<Rightarrow> None
              | Some (None, ws) \<Rightarrow>
                  Some (MoveError ''pane_move_failed'', self\<lparr>workspaces := (workspaces self)[source_ws := ws]\<rparr>, g)
              | Some (Some taken, ws) \<Rightarrow>
                  (let self = leave_source self source_ws ws (workspace_empty taken)
                                (is_cross_workspace resolved (ctx_workspace_id ctx)) p previous_pane_id
                   in case place_moved_pane g self ctx resolved (taken_moved taken) focus cwd of
                        None \<Rightarrow> None
                      | Some (Inl e, self, g) \<Rightarrow> Some (MoveError e, self, g)
                      | Some (Inr (target_ws, target_tab), self, g) \<Rightarrow>
                          Some (MoveDone target_ws target_tab p,
                                remove_alias_shadowed_by_new_pane
                                  (focus_moved_pane self previous_focus focus target_ws target_tab p) p, g))))"

definition handle_pane_move ::
    "Globals \<Rightarrow> App \<Rightarrow> string \<Rightarrow> PaneMoveDestination \<Rightarrow> bool \<Rightarrow> string \<Rightarrow> (MoveOutcome \<times> App \<times> Globals) option" where
  "handle_pane_move g self requested destination focus cwd =
     (case parse_pane_id self requested of
        None \<Rightarrow> Some (MoveError ''pane_not_found'', self, g)
      | Some (source_ws, p) \<Rightarrow>
          (case find_tab_index_for_pane (workspaces self ! source_ws) p of
             None \<Rightarrow> Some (MoveError ''pane_not_found'', self, g)
           | Some source_tab \<Rightarrow>
               (let ws = workspaces self ! source_ws;
                    tab = tabs ws ! source_tab;
                    previous_pane_id = (case public_pane_id self source_ws p of Some i \<Rightarrow> i | None \<Rightarrow> requested)
                in if public_tab_id self source_ws source_tab = None then Some (MoveError ''tab_not_found'', self, g)
                   else if tab_terminal_id tab p = None then Some (MoveError ''pane_not_found'', self, g)
                   else
                     let ctx = \<lparr>ctx_source = source_ws, ctx_workspace_id = ws_id ws,
                                ctx_workspace_label = ws_custom_name ws, ctx_tab_label = tab_custom_name tab,
                                ctx_space = worktree_space ws, ctx_cwd = identity_cwd ws\<rparr>
                     in if zoomed tab then Some (MoveUnchanged ZoomedTab, self, g)
                        else case resolve_pane_move self source_ws source_tab (ws_id ws) destination of
                               None \<Rightarrow> None
                             | Some (Inl outcome) \<Rightarrow> Some (outcome, self, g)
                             | Some (Inr resolved) \<Rightarrow>
                                 perform_pane_move g self ctx resolved source_ws p previous_pane_id focus cwd)))"

section \<open>A pane that dies\<close>

definition close_dead_workspace :: "App \<Rightarrow> nat \<Rightarrow> App" where
  "close_dead_workspace self ws_idx =
     (let active_workspace_id = map_option ws_id (Option.bind (active self) (vec_get (workspaces self)));
          selected_workspace_id = map_option ws_id (vec_get (workspaces self) (selected self));
          self = self\<lparr>workspaces := vec_remove ws_idx (workspaces self)\<rparr>;
          find_id = (\<lambda>i. position (\<lambda>ws. ws_id ws = i) (workspaces self))
      in if workspaces self = [] then self\<lparr>active := None, selected := 0, terminal_mode := False\<rparr>
         else
           let self = (case Option.bind active_workspace_id find_id of
                         Some idx \<Rightarrow> self\<lparr>active := Some idx\<rparr> | None \<Rightarrow> self);
               last = length (workspaces self) - 1;
               self = self\<lparr>active := map_option (\<lambda>idx. min idx last) (active self)\<rparr>;
               self = (case Option.bind selected_workspace_id find_id of
                         Some idx \<Rightarrow> self\<lparr>selected := idx\<rparr> | None \<Rightarrow> self)
           in self\<lparr>selected := min (selected self) last\<rparr>)"

definition handle_pane_died :: "App \<Rightarrow> PaneId \<Rightarrow> App option" where
  "handle_pane_died self p =
     (let self = (case previous_pane_focus self of
                    Some (_, q) \<Rightarrow> if q = p then self\<lparr>previous_pane_focus := None\<rparr> else self
                  | None \<Rightarrow> self)
      in case position (\<lambda>ws. find_tab_index_for_pane ws p \<noteq> None) (workspaces self) of
           None \<Rightarrow> Some self
         | Some ws_idx \<Rightarrow>
             (let self = self\<lparr>pane_id_aliases := filter (\<lambda>(_, alias). alias \<noteq> p) (pane_id_aliases self),
                              public_pane_id_aliases := filter (\<lambda>(_, alias). alias \<noteq> p) (public_pane_id_aliases self)\<rparr>
              in map_option
                   (\<lambda>(should_close, ws).
                      let self = self\<lparr>workspaces := (workspaces self)[ws_idx := ws]\<rparr>
                      in if should_close then close_dead_workspace self ws_idx else self)
                   (ws_remove_pane (workspaces self ! ws_idx) p)))"

section \<open>Public ids are read back\<close>

lemma encode_digits_inj: "encode_digits m = encode_digits n \<Longrightarrow> m = n"
proof (induction m arbitrary: n rule: encode_digits.induct)
  case (1 m)
  show ?case
  proof (cases "m = 0 \<or> n = 0")
    case True
    with 1(2) show ?thesis by (auto simp: encode_digits.simps split: if_splits)
  next
    case False
    with 1(2) have eq: "PUBLIC_ID_ALPHABET ! ((m - 1) mod 32) = PUBLIC_ID_ALPHABET ! ((n - 1) mod 32)"
      "encode_digits ((m - 1) div 32) = encode_digits ((n - 1) div 32)"
      by (subst (asm) (1 2) encode_digits.simps; simp)+
    have "(m - 1) div 32 = (n - 1) div 32" using 1(1) False eq(2) by simp
    moreover have "(m - 1) mod 32 = (n - 1) mod 32"
      using eq(1) nth_eq_iff_index_eq [OF alphabet_distinct, of "(m - 1) mod 32" "(n - 1) mod 32"] by simp
    ultimately have "m - 1 = n - 1" by (metis div_mult_mod_eq)
    with False show ?thesis by linarith
  qed
qed

lemma encode_digits_set: "set (encode_digits n) \<subseteq> set PUBLIC_ID_ALPHABET"
proof (induction n rule: encode_digits.induct)
  case (1 n)
  then show ?case by (cases "n = 0") (auto simp: encode_digits.simps [of n] encode_digits.simps [of 0])
qed

lemma encode_plain: "set (encode_public_number n) \<subseteq> set PUBLIC_ID_ALPHABET"
  using encode_digits_set [of n] by (auto simp: encode_public_number_def PUBLIC_ID_ALPHABET_def)

lemma encode_no_separator [simp]: "CHR '':'' \<notin> set (encode_public_number n)"
  using encode_plain [of n] by (auto simp: PUBLIC_ID_ALPHABET_def)

lemma encode_public_inj: "0 < m \<Longrightarrow> 0 < n \<Longrightarrow> encode_public_number m = encode_public_number n \<Longrightarrow> m = n"
  by (auto simp: encode_public_number_def dest: encode_digits_inj)

lemma rsplit_absent: "c \<notin> set s \<Longrightarrow> rsplit_once (c # q) s = None"
  by (induction s) (auto simp: strip_prefix_def)

lemma rsplit_last: "c \<notin> set q \<Longrightarrow> c \<notin> set b \<Longrightarrow> rsplit_once (c # q) (a @ c # q @ b) = Some (a, b)"
proof (induction a)
  case Nil
  then have "rsplit_once (c # q) (q @ b) = None" by (intro rsplit_absent) simp
  then show ?case by (simp add: strip_prefix_def)
qed simp

lemma rsplit_pane_id: "rsplit_once '':p'' (public_pane_id_for_number i n) = Some (i, encode_public_number n)"
  using rsplit_last [of "CHR '':''" "''p''" "encode_public_number n" i] by (simp add: public_pane_id_for_number_def)

lemma rsplit_tab_id: "rsplit_once '':'' (public_tab_id_for_number i n) = Some (i, CHR ''t'' # encode_public_number n)"
  using rsplit_last [of "CHR '':''" "[]" "CHR ''t'' # encode_public_number n" i]
  by (simp add: public_tab_id_for_number_def)

lemma public_pane_id_inj:
  "0 < m \<Longrightarrow> 0 < n \<Longrightarrow> public_pane_id_for_number i m = public_pane_id_for_number j n \<Longrightarrow> i = j \<and> m = n"
  using rsplit_pane_id [of i m] rsplit_pane_id [of j n] encode_public_inj by auto

text \<open>The ids of the program itself begin with a \<open>w\<close>; a restored id may be any that is not read as one
  of the older forms, and its number, if it has one, is below the counter.\<close>

definition id_ok :: "u64 \<Rightarrow> string \<Rightarrow> bool" where
  "id_ok counter i \<longleftrightarrow>
     strip_prefix ''p_'' i = None \<and> strip_prefix ''t_'' i = None \<and>
     (case public_workspace_number i of Some k \<Rightarrow> k < unat counter | None \<Rightarrow> True)"

lemma id_ok_mono: "id_ok c i \<Longrightarrow> c \<le> c' \<Longrightarrow> id_ok c' i"
  by (auto simp: id_ok_def word_le_nat_alt split: option.splits)

lemma counter_less: "n \<noteq> - 1 \<Longrightarrow> n < n + 1" for n :: u64
proof -
  assume "n \<noteq> - 1"
  then have "unat n \<noteq> 2 ^ 64 - 1"
    using unat_minus_one_max [where 'a = 64] by (auto simp: word_unat_eq_iff)
  then have "unat n + 1 < 2 ^ LENGTH(64)" using unsigned_less [of n, where ?'a = nat] by simp
  then show ?thesis by (simp add: word_less_nat_alt unat_add_no_wrap)
qed

lemma id_ok_generated: "0 < c \<Longrightarrow> c \<noteq> - 1 \<Longrightarrow> id_ok (c + 1) (fst (generate_workspace_id c)) \<and> \<not> id_ok c (fst (generate_workspace_id c))"
proof -
  assume c: "0 < c" "c \<noteq> - 1"
  have "0 < unat c" using c(1) by (simp add: word_less_nat_alt)
  then have n: "public_workspace_number (fst (generate_workspace_id c)) = Some (unat c)"
    using decode_encode [OF _ unat_usize] by (simp add: generate_workspace_id_def public_workspace_number_def strip_prefix_def)
  have "unat c < unat (c + 1)" using counter_less [OF c(2)] by (simp add: word_less_nat_alt)
  with n show ?thesis by (simp add: id_ok_def) (simp add: generate_workspace_id_def strip_prefix_def)
qed

lemma prefix_of_id: "a \<noteq> CHR '':'' \<Longrightarrow> strip_prefix [a, CHR ''_''] i = None \<Longrightarrow> strip_prefix [a, CHR ''_''] (i @ CHR '':'' # r) = None"
  by (cases i rule: remdups_adj.cases) (auto simp: strip_prefix_def split: if_splits)

lemma parse_workspace_id_own:
  assumes "distinct (map ws_id (workspaces app))" "k < length (workspaces app)"
  shows "parse_workspace_id app (ws_id (workspaces app ! k)) = Some k"
proof -
  obtain j where j: "position (\<lambda>w. ws_id w = ws_id (workspaces app ! k)) (workspaces app) = Some j"
    using position_exists [of "workspaces app ! k" "workspaces app" "\<lambda>w. ws_id w = ws_id (workspaces app ! k)"] assms(2)
    by auto
  from position_Some [OF this] have "j < length (workspaces app)" "ws_id (workspaces app ! j) = ws_id (workspaces app ! k)"
    by auto
  then have "j = k" using nth_eq_iff_index_eq [OF assms(1), of j k] assms(2) by simp
  with j show ?thesis by (simp add: parse_workspace_id_def)
qed

lemma find_number:
  assumes "numbers_ok ids b m" "(p, v) \<in> set m"
  shows "find (\<lambda>(_, num). num = v) m = Some (p, v)"
proof -
  obtain x where x: "find (\<lambda>(_, num). num = v) m = Some x"
    using assms(2) by (cases "find (\<lambda>(_, num). num = v) m") (auto simp: find_None_iff)
  then obtain k where "k < length m" "m ! k = x" "snd x = v" by (auto simp: find_Some_iff)
  then have "x \<in> set m" "snd x = v" by auto
  moreover have "inj_on snd (set m)" using assms(1) by (simp add: numbers_ok_def distinct_map)
  ultimately show ?thesis using x assms(2) inj_onD [of snd "set m" x "(p, v)"] by auto
qed

lemma parse_tab_public:
  assumes "distinct (map ws_id (workspaces app))" "k < length (workspaces app)" "workspaces app ! k = w"
    and "id_ok c (ws_id w)" "j < length (tabs w)" "distinct (map number (tabs w))"
    and "0 < number (tabs w ! j)" "number (tabs w ! j) \<le> USIZE_MAX"
  shows "parse_tab_id app (public_tab_id_for_number (ws_id w) (number (tabs w ! j))) = Some (k, j)"
proof -
  let ?n = "number (tabs w ! j)"
  obtain j' where j': "position (\<lambda>tab. number tab = ?n) (tabs w) = Some j'"
    using position_exists [of "tabs w ! j" "tabs w" "\<lambda>tab. number tab = ?n"] assms(5) by auto
  from position_Some [OF this] have "j' < length (tabs w)" "number (tabs w ! j') = ?n" by auto
  then have "j' = j" using nth_eq_iff_index_eq [OF assms(6), of j' j] assms(5) by simp
  moreover have "strip_prefix ''t_'' (public_tab_id_for_number (ws_id w) ?n) = None"
    using assms(4) prefix_of_id [of "CHR ''t''" "ws_id w"] by (simp add: id_ok_def public_tab_id_for_number_def)
  moreover have "strip_prefix ''t'' (CHR ''t'' # encode_public_number ?n) = Some (encode_public_number ?n)"
    by (simp add: strip_prefix_def)
  ultimately show ?thesis
    using j' parse_workspace_id_own [OF assms(1,2)] assms(2,3,5) decode_encode [OF assms(7,8)] rsplit_tab_id [of "ws_id w" ?n]
    by (simp add: parse_tab_id_def tab_exists_def vec_get_def)
qed

section \<open>Invariant of the server\<close>

definition all_panes :: "App \<Rightarrow> PaneId list" where
  "all_panes app = concat (map ws_ids (workspaces app))"

definition spaces_ok :: "u32 \<Rightarrow> u64 \<Rightarrow> Workspace list \<Rightarrow> bool" where
  "spaces_ok n c wss \<longleftrightarrow>
     list_all (ws_inv n) wss \<and> distinct (map ws_id wss) \<and> distinct (concat (map ws_ids wss)) \<and>
     list_all (\<lambda>w. id_ok c (ws_id w)) wss"

text \<open>An alias is a public id that no pane has any more and none will get.\<close>

definition retired :: "u64 \<Rightarrow> Workspace list \<Rightarrow> string \<Rightarrow> bool" where
  "retired c wss i \<longleftrightarrow>
     (\<exists>wid v. i = public_pane_id_for_number wid v \<and> 0 < v \<and> id_ok c wid \<and>
        (\<forall>w \<in> set wss. ws_id w = wid \<longrightarrow> v < next_public_pane_number w \<and> v \<notin> snd ` set (public_pane_numbers w)))"

definition index_ok :: "nat option \<Rightarrow> nat \<Rightarrow> Workspace list \<Rightarrow> bool" where
  "index_ok act sel wss \<longleftrightarrow>
     (case act of None \<Rightarrow> True | Some k \<Rightarrow> k < length wss) \<and> (sel < length wss \<or> wss = [] \<and> sel = 0)"

definition app_inv :: "Globals \<times> App \<Rightarrow> bool" where
  "app_inv = (\<lambda>(g, app).
     spaces_ok (next_pane_id g) (next_workspace_id g) (workspaces app) \<and>
     (\<forall>(i, p) \<in> set (public_pane_id_aliases app). retired (next_workspace_id g) (workspaces app) i) \<and>
     index_ok (active app) (selected app) (workspaces app) \<and> 0 < next_workspace_id g)"

lemma distinct_concat_update:
  assumes "distinct (concat (map f xs))" "t < length xs" "distinct (f y)"
    "set (f y) \<inter> (set (concat (map f xs)) - set (f (xs ! t))) = {}"
  shows "distinct (concat (map f (xs[t := y])))"
    and "set (concat (map f (xs[t := y]))) = set (concat (map f xs)) - set (f (xs ! t)) \<union> set (f y)"
proof -
  obtain as bs where s: "xs = as @ xs ! t # bs" "xs[t := y] = as @ y # bs"
    using assms(2) by (metis vec_split)
  have d: "distinct (concat (map f (as @ xs ! t # bs)))" using assms(1) s(1) by simp
  have all: "set (concat (map f xs)) = set (concat (map f as)) \<union> set (f (xs ! t)) \<union> set (concat (map f bs))"
    by (subst (1) s(1)) auto
  have rest: "set (concat (map f (as @ bs))) = set (concat (map f xs)) - set (f (xs ! t))"
    unfolding all using d by auto
  with assms(4) have "set (f y) \<inter> set (concat (map f (as @ bs))) = {}" by simp
  with d assms(3) show "distinct (concat (map f (xs[t := y])))" unfolding s(2) by auto
  show "set (concat (map f (xs[t := y]))) = set (concat (map f xs)) - set (f (xs ! t)) \<union> set (f y)"
    unfolding s(2) rest [symmetric] by auto
qed

lemma distinct_concat_remove:
  assumes "distinct (concat (map f xs))" "t < length xs"
  shows "distinct (concat (map f (vec_remove t xs)))"
    and "set (concat (map f (vec_remove t xs))) = set (concat (map f xs)) - set (f (xs ! t))"
proof -
  obtain as bs where s: "xs = as @ xs ! t # bs" "vec_remove t xs = as @ bs"
    using assms(2) by (metis vec_split)
  have d: "distinct (concat (map f (as @ xs ! t # bs)))" using assms(1) s(1) by simp
  then show "distinct (concat (map f (vec_remove t xs)))" unfolding s(2) by auto
  have all: "set (concat (map f xs)) = set (concat (map f as)) \<union> set (f (xs ! t)) \<union> set (concat (map f bs))"
    by (subst (1) s(1)) auto
  show "set (concat (map f (vec_remove t xs))) = set (concat (map f xs)) - set (f (xs ! t))"
    unfolding s(2) all using d by auto
qed

lemma distinct_map_remove:
  assumes "distinct (map f xs)" "t < length xs"
  shows "distinct (map f (vec_remove t xs))"
proof -
  obtain as bs where "xs = as @ xs ! t # bs" and r: "vec_remove t xs = as @ bs"
    using assms(2) by (metis vec_split)
  with assms(1) have "distinct (map f (as @ xs ! t # bs))" by simp
  then show ?thesis by (simp add: r)
qed

lemma nth_disjoint:
  "distinct (concat (map f xs)) \<Longrightarrow> j < length xs \<Longrightarrow> k < length xs \<Longrightarrow> x \<in> set (f (xs ! j)) \<Longrightarrow> x \<in> set (f (xs ! k)) \<Longrightarrow> j = k"
proof (induction xs arbitrary: j k)
  case (Cons y ys)
  then show ?case
    by (cases j; cases k) (fastforce dest: nth_mem)+
qed simp

lemma ws_inv_distinct: "ws_inv n w \<Longrightarrow> distinct (ws_ids w)"
  by (simp add: ws_inv_def ws_core_def tabs_ok_def ws_ids_def)

lemma spaces_ok_mono: "spaces_ok n c wss \<Longrightarrow> n \<le> n' \<Longrightarrow> c \<le> c' \<Longrightarrow> spaces_ok n' c' wss"
  by (auto simp: spaces_ok_def list_all_iff ws_inv_mono id_ok_mono)

lemma spaces_nth: "spaces_ok n c wss \<Longrightarrow> k < length wss \<Longrightarrow> ws_inv n (wss ! k) \<and> id_ok c (ws_id (wss ! k))"
  by (simp add: spaces_ok_def list_all_length)

lemma all_panes_nth: "p \<in> set (concat (map ws_ids wss)) \<longleftrightarrow> (\<exists>k < length wss. p \<in> set (ws_ids (wss ! k)))"
proof -
  have "p \<in> set (concat (map ws_ids wss)) \<longleftrightarrow> (\<exists>w \<in> set wss. p \<in> set (ws_ids w))" by auto
  then show ?thesis by (metis in_set_conv_nth)
qed

lemma ws_pane_some:
  assumes "ws_core n E w"
  shows "ws_pane_state w p \<noteq> None \<longleftrightarrow> p \<in> set (ws_ids w)"
proof (cases "find (\<lambda>tab. map_of (tab_panes tab) p \<noteq> None) (tabs w)")
  case None
  then have "position (\<lambda>tab. map_of (tab_panes tab) p \<noteq> None) (tabs w) = None"
    unfolding find_None_iff position_None by blast
  with None find_tab(1) [OF assms, of p] show ?thesis
    unfolding find_tab_index_for_pane_def ws_pane_state_def by simp
next
  case (Some tab)
  then have "tab \<in> set (tabs w)" "map_of (tab_panes tab) p \<noteq> None" by (auto simp: find_Some_iff)
  moreover have "p \<in> set (tab_ids tab)"
    using calculation tab_inv_ids(3) [OF ws_core_tab [OF assms], of tab p] by metis
  ultimately show ?thesis using Some by (auto simp: ws_pane_state_def ws_ids_def)
qed

lemma find_pane_own:
  assumes ok: "spaces_ok n c (workspaces app)" and k: "k < length (workspaces app)"
    and p: "p \<in> set (ws_ids (workspaces app ! k))"
  shows "\<exists>pane. find_pane app p = Some (k, pane)"
proof -
  have some: "ws_pane_state (workspaces app ! j) p \<noteq> None \<longleftrightarrow> p \<in> set (ws_ids (workspaces app ! j))"
    if "j < length (workspaces app)" for j
  proof (rule ws_pane_some)
    show "ws_core n {} (workspaces app ! j)" using spaces_nth [OF ok that] by (simp add: ws_inv_def)
  qed
  obtain j where j: "position (\<lambda>ws. ws_pane_state ws p \<noteq> None) (workspaces app) = Some j"
    using position_exists [of "workspaces app ! k" "workspaces app" "\<lambda>ws. ws_pane_state ws p \<noteq> None"] some [OF k] p k by auto
  from position_Some [OF j] have "j < length (workspaces app)" "ws_pane_state (workspaces app ! j) p \<noteq> None" by blast+
  then have "j = k" using nth_disjoint [of ws_ids "workspaces app" j k p] ok k p some by (simp add: spaces_ok_def)
  then show ?thesis using j some [OF k] p by (auto simp: find_pane_def)
qed

lemma find_pane_range: "find_pane app p = Some (k, pane) \<Longrightarrow> k < length (workspaces app) \<and> ws_pane_state (workspaces app ! k) p = Some pane"
  by (auto simp: find_pane_def bind_eq_Some_conv dest: position_Some)

lemma vec_get_Some [simp]: "vec_get xs i = Some x \<longleftrightarrow> i < length xs \<and> x = xs ! i"
  by (auto simp: vec_get_def)

lemma parse_pane_range: "parse_pane_id app i = Some (k, p) \<Longrightarrow> k < length (workspaces app)"
  by (auto simp: parse_pane_id_def pane_with_number_def bind_eq_Some_conv split: option.splits dest: find_pane_range)

lemma live_not_retired:
  assumes "k < length wss" "ws_inv n (wss ! k)" "(p, v) \<in> set (public_pane_numbers (wss ! k))"
    and "i = public_pane_id_for_number (ws_id (wss ! k)) v"
  shows "\<not> retired c wss i"
proof
  assume "retired c wss i"
  then obtain wid u where r: "i = public_pane_id_for_number wid u" "0 < u"
    "\<forall>w \<in> set wss. ws_id w = wid \<longrightarrow> u < next_public_pane_number w \<and> u \<notin> snd ` set (public_pane_numbers w)"
    unfolding retired_def by blast
  have "0 < v" using assms(2,3) by (auto simp: ws_inv_def ws_core_def numbers_ok_def list_all_iff)
  then have "ws_id (wss ! k) = wid \<and> v = u"
    by (rule public_pane_id_inj [OF _ r(2)]) (use assms(4) r(1) in simp)
  with r(3) assms(1,3) show False by force
qed

lemma parse_pane_public:
  assumes ok: "spaces_ok n c (workspaces app)" and k: "k < length (workspaces app)"
    and v: "(p, v) \<in> set (public_pane_numbers (workspaces app ! k))" "v \<le> USIZE_MAX"
    and i: "i = public_pane_id_for_number (ws_id (workspaces app ! k)) v"
    and fresh: "map_of (public_pane_id_aliases app) i = None"
  shows "parse_pane_id app i = Some (k, p)"
proof -
  let ?w = "workspaces app ! k"
  have w: "ws_inv n ?w" "id_ok c (ws_id ?w)" using spaces_nth [OF ok k] by simp_all
  then have nums: "numbers_ok (set (ws_ids ?w)) (next_public_pane_number ?w) (public_pane_numbers ?w)"
    by (simp add: ws_inv_def ws_core_def)
  with v(1) have "0 < v" by (auto simp: numbers_ok_def list_all_iff)
  then have dec: "decode_public_number (encode_public_number v) = Some v" using v(2) by (rule decode_encode)
  have "strip_prefix ''p_'' i = None"
    using w(2) prefix_of_id [of "CHR ''p''" "ws_id ?w"] by (simp add: id_ok_def i public_pane_id_for_number_def)
  then show ?thesis
    using fresh dec find_number [OF nums v(1)] k parse_workspace_id_own [OF _ k] ok rsplit_pane_id [of "ws_id ?w" v]
    by (simp add: parse_pane_id_def pane_with_number_def i spaces_ok_def vec_get_def)
qed

lemma parse_tab_range: "parse_tab_id app i = Some (t, j) \<Longrightarrow> t < length (workspaces app) \<and> j < length (tabs (workspaces app ! t))"
  by (auto simp: parse_tab_id_def tab_exists_def bind_eq_Some_conv split: option.splits)

lemma map_id_update: "ws_id w' = ws_id (wss ! t) \<Longrightarrow> map ws_id (wss[t := w']) = map ws_id wss"
  by (metis list_update_beyond list_update_id map_update not_less)

lemma ids_ok_update:
  "list_all (\<lambda>w. id_ok c (ws_id w)) wss \<Longrightarrow> ws_id w' = ws_id (wss ! t) \<Longrightarrow> t < length wss \<Longrightarrow>
     list_all (\<lambda>w. id_ok c (ws_id w)) (wss[t := w'])"
  by (simp add: list_all_length nth_list_update)

lemma retired_update:
  assumes r: "retired c wss i" and t: "t < length wss" and g: "ws_grows (wss ! t) w'"
  shows "retired c (wss[t := w']) i"
proof -
  obtain wid v where i: "i = public_pane_id_for_number wid v" "0 < v" "id_ok c wid"
    and old: "\<And>w. w \<in> set wss \<Longrightarrow> ws_id w = wid \<Longrightarrow> v < next_public_pane_number w \<and> v \<notin> snd ` set (public_pane_numbers w)"
    using r unfolding retired_def by blast
  have "v < next_public_pane_number w \<and> v \<notin> snd ` set (public_pane_numbers w)"
    if w: "w \<in> set (wss[t := w'])" "ws_id w = wid" for w
  proof (cases "w = w'")
    case False
    with w(1) have "w \<in> set wss" by (meson insertE set_update_subset_insert subsetD)
    with old w(2) show ?thesis by blast
  next
    case True
    have o: "v < next_public_pane_number (wss ! t)" "v \<notin> snd ` set (public_pane_numbers (wss ! t))"
      using old [of "wss ! t"] t w(2) g True by (auto simp: ws_grows_def)
    have "v \<notin> snd ` set (public_pane_numbers w')"
    proof
      assume "v \<in> snd ` set (public_pane_numbers w')"
      then obtain q where "(q, v) \<in> set (public_pane_numbers w')" by auto
      with g have "(q, v) \<in> set (public_pane_numbers (wss ! t)) \<or> next_public_pane_number (wss ! t) \<le> v"
        by (auto simp: ws_grows_def)
      with o show False by force
    qed
    with o(1) g True show ?thesis by (auto simp: ws_grows_def)
  qed
  with i show ?thesis unfolding retired_def by blast
qed

lemma retired_subset: "retired c wss i \<Longrightarrow> set us \<subseteq> set wss \<Longrightarrow> retired c us i"
  unfolding retired_def by blast

lemma retired_append:
  "retired c wss i \<Longrightarrow> \<not> id_ok c (ws_id w) \<Longrightarrow> c \<le> c' \<Longrightarrow> retired c' (wss @ [w]) i"
  unfolding retired_def by (auto intro: id_ok_mono)

lemma set_vec_remove: "set (vec_remove i xs) \<subseteq> set xs"
  by (auto simp: vec_remove_def dest: in_set_takeD in_set_dropD)

lemma retired_mono: "retired c wss i \<Longrightarrow> c \<le> c' \<Longrightarrow> retired c' wss i"
  unfolding retired_def using id_ok_mono by blast

text \<open>C12: The public id of a pane names it: in every state the server can reach, what \<open>public_pane_id\<close>
  writes for a pane, \<open>parse_pane_id\<close> reads back as that pane in that workspace, whatever aliases of
  moved panes there are, and what \<open>public_tab_id\<close> writes for a tab, \<open>parse_tab_id\<close> reads back as
  that tab.\<close>

theorem public_ids_roundtrip:
  assumes inv: "app_inv (g, app)"
  shows "(public_pane_id app k p = Some i \<and> next_public_pane_number (workspaces app ! k) \<le> USIZE_MAX \<longrightarrow>
            parse_pane_id app i = Some (k, p) \<and> parse_current_public_pane_id app i = Some (k, p)) \<and>
         (public_tab_id app k j = Some t \<and> next_public_tab_number (workspaces app ! k) \<le> USIZE_MAX \<longrightarrow>
            parse_tab_id app t = Some (k, j))"
proof (intro conjI impI)
  have ok: "spaces_ok (next_pane_id g) (next_workspace_id g) (workspaces app)" using inv by (simp add: app_inv_def)
  assume a: "public_pane_id app k p = Some i \<and> next_public_pane_number (workspaces app ! k) \<le> USIZE_MAX"
  let ?w = "workspaces app ! k"
  from a obtain v where k: "k < length (workspaces app)" and v: "(p, v) \<in> set (public_pane_numbers ?w)"
    and i: "i = public_pane_id_for_number (ws_id ?w) v"
    by (auto simp: public_pane_id_def public_pane_number_def bind_eq_Some_conv dest: map_of_SomeD)
  have w: "ws_inv (next_pane_id g) ?w" using spaces_nth [OF ok k] by simp
  with v have "v < next_public_pane_number ?w"
    by (auto simp: ws_inv_def ws_core_def numbers_ok_def list_all_iff)
  with a have v': "v \<le> USIZE_MAX" by simp
  have "map_of (public_pane_id_aliases app) i = None"
  proof (rule ccontr)
    assume "map_of (public_pane_id_aliases app) i \<noteq> None"
    then obtain q where "(i, q) \<in> set (public_pane_id_aliases app)" by (auto dest: map_of_SomeD)
    with inv have "retired (next_workspace_id g) (workspaces app) i" by (auto simp: app_inv_def)
    with live_not_retired [OF k w v i] show False by simp
  qed
  from parse_pane_public [OF ok k v v' i this] show "parse_pane_id app i = Some (k, p)" .
  with a show "parse_current_public_pane_id app i = Some (k, p)" by (simp add: parse_current_public_pane_id_def)
next
  have ok: "spaces_ok (next_pane_id g) (next_workspace_id g) (workspaces app)" using inv by (simp add: app_inv_def)
  assume a: "public_tab_id app k j = Some t \<and> next_public_tab_number (workspaces app ! k) \<le> USIZE_MAX"
  let ?w = "workspaces app ! k"
  from a have k: "k < length (workspaces app)" and j: "j < length (tabs ?w)"
    and t: "t = public_tab_id_for_number (ws_id ?w) (number (tabs ?w ! j))"
    by (auto simp: public_tab_id_def public_tab_number_def bind_eq_Some_conv)
  have w: "ws_inv (next_pane_id g) ?w" "id_ok (next_workspace_id g) (ws_id ?w)" using spaces_nth [OF ok k] by simp_all
  then have "distinct (map number (tabs ?w))" "0 < number (tabs ?w ! j) \<and> number (tabs ?w ! j) < next_public_tab_number ?w"
    using j by (auto simp: ws_inv_def ws_core_def tabs_ok_def list_all_length)
  with parse_tab_public [OF _ k refl w(2) j] ok a t show "parse_tab_id app t = Some (k, j)" by (simp add: spaces_ok_def)
qed

section \<open>Examples\<close>

definition example_app :: App where
  "example_app = \<lparr>workspaces = [example_ws2], active = Some 0, selected = 0, terminal_mode = True,
     previous_pane_focus = None, pane_id_aliases = [], public_pane_id_aliases = []\<rparr>"

definition example_counters :: Globals where
  "example_counters = example_globals\<lparr>next_workspace_id := 2\<rparr>"

lemma example_ws2_parts: "ws_id example_ws2 = ''w1''" "public_pane_numbers example_ws2 = [(PaneId 1, 1), (PaneId 2, 2)]"
  "next_public_pane_number example_ws2 = 3" "next_public_tab_number example_ws2 = 3"
  "map number (tabs example_ws2) = [1, 2]" "map tab_ids (tabs example_ws2) = [[PaneId 1], [PaneId 2]]"
  "map zoomed (tabs example_ws2) = [False, False]"
  by (simp_all add: example_ws2_def create_tab_from_existing_pane_def Let_def example_ws_def ws_from_existing_pane_def
      generate_workspace_id_def example_globals_def encode_public_number_def encode_digits.simps PUBLIC_ID_ALPHABET_def
      register_moved_pane_def register_new_pane_with_number_def example_pane_def tab_from_existing_pane_def
      tab_ids_def from_saved_def pane_ids_eq)

lemma example_app: "app_inv (example_counters, example_app)"
proof -
  have "id_ok 2 ''w1''"
    using id_ok_generated [of 1] by (simp add: generate_workspace_id_def encode_public_number_def encode_digits.simps PUBLIC_ID_ALPHABET_def)
  then show "app_inv (example_counters, example_app)"
    using example_ws2(1) ws_inv_distinct [OF example_ws2(1)]
    by (simp add: app_inv_def example_app_def example_counters_def example_globals_def spaces_ok_def index_ok_def example_ws2_parts(1))
qed

theorem public_ids_roundtrip_witness:
  "parse_pane_id example_app ''w1:p2'' = Some (0, PaneId 2) \<and> parse_tab_id example_app ''w1:t2'' = Some (0, 1)"
proof -
  have w: "workspaces example_app = [example_ws2]" by (simp add: example_app_def)
  have "map number (tabs example_ws2) ! 1 = 2" by (simp add: example_ws2_parts)
  then have t: "number (tabs example_ws2 ! Suc 0) = 2" by (simp add: example_ws2(2))
  have "public_pane_id example_app 0 (PaneId 2) = Some ''w1:p2''" "public_tab_id example_app 0 1 = Some ''w1:t2''"
    by (simp_all add: public_pane_id_def public_pane_number_def public_pane_id_for_number_def public_tab_id_def
        public_tab_number_def public_tab_id_for_number_def vec_get_def w t example_ws2(2) example_ws2_parts(1,2)
        encode_public_number_def encode_digits.simps PUBLIC_ID_ALPHABET_def)
  with public_ids_roundtrip [OF example_app, of 0 "PaneId 2" "''w1:p2''" 1 "''w1:t2''"] show ?thesis
    by (simp add: w example_ws2_parts(3,4) USIZE_MAX_def)
qed

end
