(* ===== verification/Pane_Move.thy ===== *)
theory Pane_Move
  imports App_Panes
begin

text \<open>
  Moving a pane between tabs and workspaces, end to end: no pane is lost or doubled, every workspace stays
  well formed, an answer that is an error changes nothing, and the ids a client knows the pane by go
  on naming it.
\<close>

section \<open>A workspace that changes among others\<close>

definition fits :: "App \<Rightarrow> bool" where
  "fits app \<longleftrightarrow> list_all (\<lambda>w. next_public_tab_number w \<le> USIZE_MAX \<and> next_public_pane_number w \<le> USIZE_MAX) (workspaces app)"

text \<open>While pane \<open>p\<close> is on the move, the workspace \<open>t\<close> may have registered it without a tab.\<close>

definition mid :: "u32 \<Rightarrow> u64 \<Rightarrow> PaneId \<Rightarrow> nat \<Rightarrow> Workspace list \<Rightarrow> bool" where
  "mid n c p t wss \<longleftrightarrow>
     (\<forall>k < length wss. k \<noteq> t \<longrightarrow> ws_inv n (wss ! k)) \<and>
     (t < length wss \<longrightarrow> ws_core n {} (wss ! t) \<or> ws_core n {p} (wss ! t)) \<and>
     distinct (map ws_id wss) \<and> distinct (concat (map ws_ids wss)) \<and> p \<notin> set (concat (map ws_ids wss)) \<and>
     list_all (\<lambda>w. id_ok c (ws_id w)) wss"

lemma spaces_mid: "spaces_ok n c wss \<Longrightarrow> p \<notin> set (concat (map ws_ids wss)) \<Longrightarrow> mid n c p t wss"
  by (auto simp: mid_def spaces_ok_def list_all_length ws_inv_def)

lemma arrive:
  assumes m: "mid n c p t wss" and t: "t < length wss" and w': "ws_inv n w'" "ws_id w' = ws_id (wss ! t)"
    and ids: "set (ws_ids w') = insert p (set (ws_ids (wss ! t)))"
  shows "spaces_ok n c (wss[t := w'])"
    and "set (concat (map ws_ids (wss[t := w']))) = insert p (set (concat (map ws_ids wss)))"
proof -
  have sub: "set (ws_ids (wss ! t)) \<subseteq> set (concat (map ws_ids wss))" by (metis all_panes_nth subsetI t)
  have "set (ws_ids w') \<inter> (set (concat (map ws_ids wss)) - set (ws_ids (wss ! t))) = {}"
    using m unfolding ids mid_def by blast
  moreover have "distinct (concat (map ws_ids wss))" using m by (simp add: mid_def)
  ultimately have d: "distinct (concat (map ws_ids (wss[t := w'])))"
    "set (concat (map ws_ids (wss[t := w']))) = set (concat (map ws_ids wss)) - set (ws_ids (wss ! t)) \<union> set (ws_ids w')"
    using distinct_concat_update [of ws_ids wss, OF _ t ws_inv_distinct [OF w'(1)]] by blast+
  show "set (concat (map ws_ids (wss[t := w']))) = insert p (set (concat (map ws_ids wss)))"
    using d(2) m sub unfolding ids mid_def by blast
  have "ws_inv n (wss[t := w'] ! k)" if "k < length wss" for k
    using m w'(1) that by (cases "k = t") (auto simp: mid_def)
  then have "list_all (ws_inv n) (wss[t := w'])" by (simp add: list_all_length)
  moreover have "distinct (map ws_id (wss[t := w']))" using m unfolding map_id_update [OF w'(2)] mid_def by blast
  moreover have "list_all (\<lambda>w. id_ok c (ws_id w)) (wss[t := w'])"
    by (rule ids_ok_update [OF _ w'(2) t]) (use m in \<open>simp add: mid_def\<close>)
  ultimately show "spaces_ok n c (wss[t := w'])" using d(1) by (simp only: spaces_ok_def simp_thms)
qed

section \<open>Leaving the source\<close>

lemma leave_workspaces:
  "workspaces (leave_source app s w1 emptied cross p i) =
     (let wss = (workspaces app)[s := if cross then unregister_pane w1 p else w1]
      in if emptied \<and> cross then vec_remove s wss else wss)"
  by (simp add: leave_source_def close_source_workspace_def Let_def)

lemma leave_aliases:
  "public_pane_id_aliases (leave_source app s w1 emptied cross p i) =
     (if cross then AList.update i p (public_pane_id_aliases app) else public_pane_id_aliases app)"
  by (simp add: leave_source_def close_source_workspace_def Let_def)

lemma leave_index:
  assumes "index_ok (active app) (selected app) (workspaces app)" "s < length (workspaces app)"
  shows "let app1 = leave_source app s w1 emptied cross p i in index_ok (active app1) (selected app1) (workspaces app1)"
proof (cases "emptied \<and> cross")
  case False
  with assms show ?thesis by (auto simp: leave_source_def Let_def index_ok_def split: option.splits)
next
  case True
  let ?wss = "vec_remove s ((workspaces app)[s := unregister_pane w1 p])"
  have len: "length ?wss = length (workspaces app) - 1" using assms(2) by simp
  show ?thesis
  proof (cases "?wss = []")
    case t: True
    with True show ?thesis by (simp add: leave_source_def close_source_workspace_def Let_def index_ok_def)
  next
    case False
    then have "0 < length ?wss" by simp
    with len True False assms show ?thesis
      by (auto simp: leave_source_def close_source_workspace_def Let_def index_ok_def split: option.splits)
  qed
qed

lemma leave_source_mid:
  assumes ok: "spaces_ok n c (workspaces app)" and s: "s < length (workspaces app)"
    and tk: "ws_take_pane (workspaces app ! s) p = Some (Some taken, w1)"
    and wss: "wss = workspaces (leave_source app s w1 (workspace_empty taken) cross p i)"
  shows "set (concat (map ws_ids wss)) = set (all_panes app) - {p}"
    and "if cross then spaces_ok n c wss else wss = (workspaces app)[s := w1] \<and> mid n c p s wss"
proof -
  let ?W = "workspaces app" and ?w = "workspaces app ! s"
  have w: "ws_inv n ?w" using spaces_nth [OF ok s] by simp
  note st = ws_take_step [OF w tk]
  have p: "p \<in> set (ws_ids ?w)" by (rule ws_take_id [OF tk w])
  define u where "u = (if cross then unregister_pane w1 p else w1)"
  have u: "ws_core n (if cross then {} else {p}) u" "set (ws_ids u) = set (ws_ids ?w) - {p}" "ws_id u = ws_id ?w"
    "tabs u = tabs w1"
    using unregister_core [OF st(1)] st(1,5,7) by (auto simp: u_def ws_grows_def unregister_pane_def)
  have du: "distinct (ws_ids u)" using u(1) by (simp add: ws_core_def tabs_ok_def ws_ids_def)
  have dis: "distinct (concat (map ws_ids ?W))" using ok by (simp add: spaces_ok_def)
  have "set (ws_ids u) \<inter> (set (concat (map ws_ids ?W)) - set (ws_ids ?w)) = {}" unfolding u(2) by blast
  note upd = distinct_concat_update [OF dis s du this]
  have sub: "set (ws_ids ?w) \<subseteq> set (concat (map ws_ids ?W))" by (metis all_panes_nth subsetI s)
  have all: "set (concat (map ws_ids (?W[s := u]))) = set (all_panes app) - {p}"
    using upd(2) sub p unfolding u(2) all_panes_def by blast
  have ids: "distinct (map ws_id (?W[s := u]))" "list_all (\<lambda>w. id_ok c (ws_id w)) (?W[s := u])"
    using ok map_id_update [OF u(3)] ids_ok_update [OF _ u(3) s] by (auto simp: spaces_ok_def)
  have others: "ws_inv n (?W[s := u] ! k)" if "k < length ?W" "k \<noteq> s" for k
    using spaces_nth [OF ok that(1)] that(2) by simp
  have wss': "wss = (if workspace_empty taken \<and> cross then vec_remove s (?W[s := u]) else ?W[s := u])"
    by (simp add: wss leave_workspaces u_def Let_def)
  show "set (concat (map ws_ids wss)) = set (all_panes app) - {p}"
  proof (cases "workspace_empty taken \<and> cross")
    case True
    then have "ws_ids u = []" using st(6) u(4) by (simp add: ws_ids_def)
    then have "set (ws_ids (?W[s := u] ! s)) = {}" using s by simp
    moreover have "s < length (?W[s := u])" using s by simp
    note distinct_concat_remove(2) [OF upd(1) this]
    ultimately show ?thesis unfolding wss' using True all by simp
  next
    case False
    then have "wss = ?W[s := u]" using wss' by auto
    with all show ?thesis by simp
  qed
  show "if cross then spaces_ok n c wss else wss = ?W[s := w1] \<and> mid n c p s wss"
  proof (cases cross)
    case False
    have "p \<notin> set (concat (map ws_ids (?W[s := u])))" unfolding all by simp
    with False ids upd(1) others u(1) have "mid n c p s (?W[s := u])" by (simp add: mid_def)
    with False show ?thesis by (simp add: wss' u_def)
  next
    case cr: True
    show ?thesis
    proof (cases "workspace_empty taken")
      case False
      then have "ws_inv n u" using u(1,4) st(6) cr by (simp add: ws_inv_def)
      then have "ws_inv n (?W[s := u] ! k)" if "k < length ?W" for k
        using others [OF that] s by (cases "k = s") auto
      with ids upd(1) show ?thesis using cr False by (simp add: wss' spaces_ok_def list_all_length)
    next
      case True
      have inv: "ws_inv n v" if "v \<in> set (vec_remove s (?W[s := u]))" for v
      proof -
        have "vec_remove s (?W[s := u]) = vec_remove s ?W" using s by (simp add: vec_remove_def)
        with that ok set_vec_remove [of s ?W] show ?thesis by (auto simp: spaces_ok_def list_all_iff)
      qed
      have "distinct (map ws_id (vec_remove s (?W[s := u])))"
        by (rule distinct_map_remove [OF ids(1)]) (use s in simp)
      moreover have "s < length (?W[s := u])" using s by simp
      note distinct_concat_remove(1) [OF upd(1) this]
      moreover have "list_all (\<lambda>w. id_ok c (ws_id w)) (vec_remove s (?W[s := u]))"
        using ids(2) set_vec_remove [of s "?W[s := u]"] by (auto simp: list_all_iff)
      ultimately show ?thesis using cr True inv by (simp add: wss' spaces_ok_def list_all_iff)
    qed
  qed
qed

section \<open>Arriving\<close>

lemma keeps_number:
  assumes "map_of (public_pane_numbers w) (moved_id moved) \<noteq> None"
  shows "public_pane_numbers (snd (create_tab_from_existing_pane w moved label)) = public_pane_numbers w"
    and "insert_moved_pane_into_tab w idx t moved d r foc = (Inr q, w') \<Longrightarrow> public_pane_numbers w' = public_pane_numbers w"
  using assms
  by (auto simp: create_tab_from_existing_pane_def Let_def register_moved_pane_def insert_moved_pane_into_tab_def
      split: option.splits sum.splits prod.splits)

lemma insert_keeps_tab_numbers:
  "insert_moved_pane_into_tab w idx t moved d r foc = (Inr q, w') \<Longrightarrow> map number (tabs w') = map number (tabs w)"
  by (auto simp: insert_moved_pane_into_tab_def insert_existing_pane_def Let_def vec_get_def map_update
      list_update_same_conv split: if_splits sum.splits prod.splits)

lemma create_holds_moved:
  "create_tab_from_existing_pane w moved label = (j, w') \<Longrightarrow> tab_ids (tabs w' ! j) = [moved_id moved]"
  by (auto simp: create_tab_from_existing_pane_def Let_def tab_ids_def tab_from_existing_pane_def from_saved_def pane_ids_eq)

text \<open>The pane is in its new tab, nothing else has moved, and no retired id was given out again.\<close>

definition placed :: "Globals \<Rightarrow> App \<Rightarrow> PaneId \<Rightarrow> nat \<Rightarrow> nat \<Rightarrow> App \<Rightarrow> Globals \<Rightarrow> bool" where
  "placed g app p k j app' g' \<longleftrightarrow>
     spaces_ok (next_pane_id g') (next_workspace_id g') (workspaces app') \<and>
     set (all_panes app') = insert p (set (all_panes app)) \<and>
     (\<forall>i. retired (next_workspace_id g) (workspaces app) i \<longrightarrow> retired (next_workspace_id g') (workspaces app') i) \<and>
     k < length (workspaces app') \<and> j < length (tabs (workspaces app' ! k)) \<and>
     p \<in> set (tab_ids (tabs (workspaces app' ! k) ! j)) \<and>
     app' = app\<lparr>workspaces := workspaces app'\<rparr> \<and> length (workspaces app) \<le> length (workspaces app') \<and>
     0 < next_workspace_id g'"

lemma placed_in:
  assumes m: "mid (next_pane_id g) (next_workspace_id g) p t (workspaces app)" and t: "t < length (workspaces app)"
    and w': "ws_inv (next_pane_id g) w'" "ws_grows (workspaces app ! t) w'"
      "set (ws_ids w') = insert p (set (ws_ids (workspaces app ! t)))"
      "j < length (tabs w')" "p \<in> set (tab_ids (tabs w' ! j))"
    and c: "0 < next_workspace_id g"
  shows "placed g app p t j (app\<lparr>workspaces := (workspaces app)[t := w']\<rparr>) g"
proof -
  have id: "ws_id w' = ws_id (workspaces app ! t)" using w'(2) by (simp add: ws_grows_def)
  note a = arrive [OF m t w'(1) id w'(3)]
  show ?thesis
    using a t w' c retired_update [OF _ t w'(2)] by (simp add: placed_def all_panes_def)
qed

lemma mid_target:
  assumes "mid n c p t wss" "t < length wss"
  obtains E where "E \<subseteq> {p}" "ws_core n E (wss ! t)" "p \<notin> set (ws_ids (wss ! t))"
proof -
  have "p \<notin> set (ws_ids (wss ! t))" using assms by (metis all_panes_nth mid_def)
  with assms that show thesis by (auto simp: mid_def)
qed

lemma place_in_tab:
  assumes m: "mid (next_pane_id g) (next_workspace_id g) p t (workspaces app)" and t: "t < length (workspaces app)"
    and c: "0 < next_workspace_id g" and p: "moved_id moved = p" "raw p < next_pane_id g"
    and parse: "parse_tab_id app tab_id = Some (t, j)"
    and j: "j < length (tabs (workspaces app ! t))" "target \<in> set (tab_ids (tabs (workspaces app ! t) ! j))"
  shows "\<exists>w'. place_moved_pane g app ctx (ExistingTab tab_id target split ratio cross) moved focus cwd =
      Some (Inr (t, j), app\<lparr>workspaces := (workspaces app)[t := w']\<rparr>, g) \<and>
    placed g app p t j (app\<lparr>workspaces := (workspaces app)[t := w']\<rparr>) g \<and>
    ws_id w' = ws_id (workspaces app ! t) \<and>
    number (tabs w' ! j) = number (tabs (workspaces app ! t) ! j) \<and>
    (map_of (public_pane_numbers (workspaces app ! t)) p \<noteq> None \<longrightarrow>
       public_pane_numbers w' = public_pane_numbers (workspaces app ! t))"
proof -
  let ?w = "workspaces app ! t"
  obtain E where E: "E \<subseteq> {p}" "ws_core (next_pane_id g) E ?w" "p \<notin> set (ws_ids ?w)" by (rule mid_target [OF m t])
  obtain r w' where ins: "insert_moved_pane_into_tab ?w j target moved split ratio focus = (r, w')"
    by (cases "insert_moved_pane_into_tab ?w j target moved split ratio focus")
  note i = insert_moved_cases [OF E(2) _ _ _ ins]
  have i': "ws_id w' = ws_id ?w" "r = Inr p" "ws_inv (next_pane_id g) w'" "set (ws_ids w') = insert p (set (ws_ids ?w))"
    "j < length (tabs w')" "p \<in> set (tab_ids (tabs w' ! j))" "ws_grows ?w w'"
    using i E p j by (auto simp: ws_grows_def)
  have "placed g app p t j (app\<lparr>workspaces := (workspaces app)[t := w']\<rparr>) g"
    by (rule placed_in [OF m t i'(3,7,4,5,6) c])
  moreover have "place_moved_pane g app ctx (ExistingTab tab_id target split ratio cross) moved focus cwd =
      Some (Inr (t, j), app\<lparr>workspaces := (workspaces app)[t := w']\<rparr>, g)"
    using parse ins i'(2) by (simp add: place_moved_pane_def Let_def)
  moreover have "map_of (public_pane_numbers ?w) p \<noteq> None \<longrightarrow> public_pane_numbers w' = public_pane_numbers ?w"
    using keeps_number(2) [of ?w moved j target split ratio focus p w'] ins i'(2) p(1) by blast
  moreover have "number (tabs w' ! j) = number (tabs ?w ! j)"
  proof -
    have "map number (tabs w') ! j = map number (tabs ?w) ! j" using insert_keeps_tab_numbers ins i'(2) by metis
    with i'(5) j(1) show ?thesis by simp
  qed
  moreover have "ws_id w' = ws_id ?w" using i'(7) by (simp add: ws_grows_def)
  ultimately show ?thesis by blast
qed

lemma place_in_new_tab:
  assumes m: "mid (next_pane_id g) (next_workspace_id g) p t (workspaces app)" and t: "t < length (workspaces app)"
    and c: "0 < next_workspace_id g" and p: "moved_id moved = p" "raw p < next_pane_id g"
    and parse: "parse_workspace_id app workspace_id = Some t"
  shows "\<exists>j w'. place_moved_pane g app ctx (NewTab workspace_id label) moved focus cwd =
      Some (Inr (t, j), app\<lparr>workspaces := (workspaces app)[t := w']\<rparr>, g) \<and>
    placed g app p t j (app\<lparr>workspaces := (workspaces app)[t := w']\<rparr>) g \<and>
    ws_id w' = ws_id (workspaces app ! t) \<and>
    tab_ids (tabs w' ! j) = [p] \<and>
    (map_of (public_pane_numbers (workspaces app ! t)) p \<noteq> None \<longrightarrow>
       public_pane_numbers w' = public_pane_numbers (workspaces app ! t))"
proof -
  let ?w = "workspaces app ! t"
  obtain E where E: "E \<subseteq> {p}" "ws_core (next_pane_id g) E ?w" "p \<notin> set (ws_ids ?w)" by (rule mid_target [OF m t])
  obtain j w' where cr: "create_tab_from_existing_pane ?w moved label = (j, w')"
    by (cases "create_tab_from_existing_pane ?w moved label")
  note i = create_from_existing_cases [OF E(2) _ _ _ cr]
  have i': "ws_inv (next_pane_id g) w'" "set (ws_ids w') = insert p (set (ws_ids ?w))"
    "j < length (tabs w')" "p \<in> set (tab_ids (tabs w' ! j))" "ws_grows ?w w'"
    using i E p by (auto simp: ws_grows_def)
  have "placed g app p t j (app\<lparr>workspaces := (workspaces app)[t := w']\<rparr>) g"
    by (rule placed_in [OF m t i'(1,5,2,3,4) c])
  moreover have "place_moved_pane g app ctx (NewTab workspace_id label) moved focus cwd =
      Some (Inr (t, j), app\<lparr>workspaces := (workspaces app)[t := w']\<rparr>, g)"
    using parse cr t by (simp add: place_moved_pane_def Let_def vec_get_def)
  moreover have "map_of (public_pane_numbers ?w) p \<noteq> None \<longrightarrow> public_pane_numbers w' = public_pane_numbers ?w"
    using keeps_number(1) [of ?w moved label] cr p(1) by simp
  moreover have "tab_ids (tabs w' ! j) = [p]" using create_holds_moved [OF cr] p(1) by simp
  moreover have "ws_id w' = ws_id ?w" using i'(5) by (simp add: ws_grows_def)
  ultimately show ?thesis by blast
qed

lemma place_in_new_workspace:
  assumes ok: "spaces_ok (next_pane_id g) (next_workspace_id g) (workspaces app)"
    and c: "0 < next_workspace_id g" "next_workspace_id g \<noteq> - 1"
    and p: "moved_id moved = p" "raw p < next_pane_id g" "p \<notin> set (all_panes app)"
  shows "\<exists>j k app' g'. place_moved_pane g app ctx (NewWorkspace label tab_label) moved focus cwd =
      Some (Inr (k, j), app', g') \<and> placed g app p k j app' g' \<and>
    ws_ids (workspaces app' ! k) = [p]"
proof -
  let ?c = "next_workspace_id g"
  obtain w g' where new: "ws_from_existing_pane g label tab_label cwd moved = (w, g')"
    by (cases "ws_from_existing_pane g label tab_label cwd moved")
  have w: "ws_inv (next_pane_id g) w" "ws_ids w = [p]" "ws_id w = fst (generate_workspace_id ?c)"
      "g' = g\<lparr>next_workspace_id := ?c + 1\<rparr>" "length (tabs w) = 1"
    using existing_workspace_inv [of moved "next_pane_id g" g label tab_label cwd] p new
    by (auto simp: ws_from_existing_pane_def Let_def generate_workspace_id_def)
  have less: "?c < ?c + 1" by (rule counter_less [OF c(2)])
  have id: "id_ok (?c + 1) (ws_id w)" "\<not> id_ok ?c (ws_id w)" using id_ok_generated [OF c] by (simp_all add: w(3))
  then have fresh: "ws_id w \<notin> ws_id ` set (workspaces app)" using ok by (auto simp: spaces_ok_def list_all_iff)
  have "spaces_ok (next_pane_id g) (?c + 1) (workspaces app)"
    by (rule spaces_ok_mono [OF ok]) (use less in auto)
  then have "spaces_ok (next_pane_id g) (?c + 1) (workspaces app @ [w])"
    using w(1,2) id(1) fresh p(3) by (auto simp: spaces_ok_def all_panes_def)
  moreover have "retired (?c + 1) (workspaces app @ [w]) i" if "retired ?c (workspaces app) i" for i
    by (rule retired_append [OF that id(2)]) (use less in simp)
  moreover obtain tab where tab: "tabs w = [tab]" using w(5) by (auto simp: length_Suc_conv)
  moreover have "p \<in> set (tab_ids tab)" using w(2) tab by (simp add: ws_ids_def)
  moreover have "0 < ?c + 1" using less by (metis word_gt_0 word_not_simps(1))
  ultimately have "placed g app p (length (workspaces app)) 0 (app\<lparr>workspaces := workspaces app @ [w]\<rparr>) g'"
    using w(2,4) by (auto simp: placed_def all_panes_def)
  moreover have "place_moved_pane g app ctx (NewWorkspace label tab_label) moved focus cwd =
      Some (Inr (length (workspaces app), 0), app\<lparr>workspaces := workspaces app @ [w]\<rparr>, g')"
    using new by (simp add: place_moved_pane_def Let_def)
  moreover have "ws_ids ((workspaces app @ [w]) ! length (workspaces app)) = [p]" using w(2) by simp
  ultimately show ?thesis by fastforce
qed

section \<open>The whole move\<close>

lemma switch_grows: "ws_inv n w \<Longrightarrow> ws_grows w (switch_tab w idx)"
  using switch_tab_inv [of n w idx] by (simp add: ws_grows_def)

lemma switch_tab_ids: "j < length (tabs w) \<Longrightarrow> tab_ids (tabs (switch_tab w idx) ! j) = tab_ids (tabs w ! j)"
  and switch_tab_length: "length (tabs (switch_tab w idx)) = length (tabs w)"
  by (auto simp: switch_tab_def see_panes_def tab_ids_def nth_list_update)

lemma switch_tab_lists: "map number (tabs (switch_tab w idx)) = map number (tabs w)"
  "ws_ids (switch_tab w idx) = ws_ids w"
proof -
  have "map tab_ids (tabs (switch_tab w idx)) = map tab_ids (tabs w)"
    by (rule nth_equalityI) (simp_all add: switch_tab_ids switch_tab_length)
  then show "ws_ids (switch_tab w idx) = ws_ids w" by (simp only: ws_ids_def)
  show "map number (tabs (switch_tab w idx)) = map number (tabs w)"
    by (auto simp: switch_tab_def see_panes_def map_update list_update_same_conv)
qed

lemma spaces_switch:
  assumes ok: "spaces_ok n c wss" and k: "k < length wss"
  shows "spaces_ok n c (wss[k := switch_tab (wss ! k) j]) \<and>
    set (concat (map ws_ids (wss[k := switch_tab (wss ! k) j]))) = set (concat (map ws_ids wss)) \<and>
    (\<forall>i. retired c wss i \<longrightarrow> retired c (wss[k := switch_tab (wss ! k) j]) i)"
proof -
  let ?w = "wss ! k" and ?w' = "switch_tab (wss ! k) j"
  have w: "ws_inv n ?w" using spaces_nth [OF ok k] by simp
  have w': "ws_inv n ?w'" "ws_id ?w' = ws_id ?w" "set (ws_ids ?w') = set (ws_ids ?w)" using switch_tab_inv [OF w] by simp_all
  have dis: "distinct (concat (map ws_ids wss))" using ok by (simp add: spaces_ok_def)
  have "set (ws_ids ?w') \<inter> (set (concat (map ws_ids wss)) - set (ws_ids ?w)) = {}" unfolding w'(3) by blast
  note d = distinct_concat_update [OF dis k ws_inv_distinct [OF w'(1)] this]
  have sub: "set (ws_ids ?w) \<subseteq> set (concat (map ws_ids wss))" by (metis all_panes_nth subsetI k)
  have "ws_inv n (wss[k := ?w'] ! i)" if "i < length wss" for i
    using spaces_nth [OF ok that] w'(1) that by (cases "i = k") auto
  then have "list_all (ws_inv n) (wss[k := ?w'])" by (simp add: list_all_length)
  moreover have "distinct (map ws_id (wss[k := ?w']))" using ok unfolding map_id_update [OF w'(2)] spaces_ok_def by blast
  moreover have "list_all (\<lambda>w. id_ok c (ws_id w)) (wss[k := ?w'])"
    by (rule ids_ok_update [OF _ w'(2) k]) (use ok in \<open>simp add: spaces_ok_def\<close>)
  ultimately have "spaces_ok n c (wss[k := ?w'])" using d(1) by (simp only: spaces_ok_def simp_thms)
  moreover have "set (concat (map ws_ids (wss[k := ?w']))) = set (concat (map ws_ids wss))"
    using d(2) sub unfolding w'(3) by blast
  moreover have "retired c (wss[k := ?w']) i" if "retired c wss i" for i
    by (rule retired_update [OF that k switch_grows [OF w]])
  ultimately show ?thesis by blast
qed

text \<open>Giving the pane the focus changes no pane.\<close>

lemma focus_moved:
  assumes ok: "spaces_ok n c (workspaces app)" and k: "k < length (workspaces app)" "j < length (tabs (workspaces app ! k))"
    and idx: "index_ok (active app) (selected app) (workspaces app)" and app': "app' = focus_moved_pane app prev focus k j p"
  shows "spaces_ok n c (workspaces app') \<and> set (all_panes app') = set (all_panes app) \<and>
    (\<forall>i. retired c (workspaces app) i \<longrightarrow> retired c (workspaces app') i) \<and>
    index_ok (active app') (selected app') (workspaces app') \<and> length (workspaces app') = length (workspaces app) \<and>
    tab_ids (tabs (workspaces app' ! k) ! j) = tab_ids (tabs (workspaces app ! k) ! j) \<and>
    length (tabs (workspaces app' ! k)) = length (tabs (workspaces app ! k)) \<and>
    public_pane_id_aliases app' = public_pane_id_aliases app \<and>
    public_pane_numbers (workspaces app' ! k) = public_pane_numbers (workspaces app ! k) \<and>
    ws_id (workspaces app' ! k) = ws_id (workspaces app ! k) \<and>
    map number (tabs (workspaces app' ! k)) = map number (tabs (workspaces app ! k)) \<and>
    ws_ids (workspaces app' ! k) = ws_ids (workspaces app ! k)"
proof (cases "focus \<or> active app = None")
  case False
  then have "app' = app" unfolding app' focus_moved_pane_def by (rule if_not_P)
  with ok idx show ?thesis by simp
next
  case True
  let ?wss = "(workspaces app)[k := switch_tab (workspaces app ! k) j]"
  have wss: "workspaces app' = ?wss" "public_pane_id_aliases app' = public_pane_id_aliases app"
      "active app' = Some k" "selected app' = k"
    using True k
    by (auto simp: app' focus_moved_pane_def switch_workspace_tab_def Let_def tab_exists_def vec_get_def
        record_pane_focus_change_def record_pane_focus_after_navigation_def split: option.splits)
  have w: "ws_inv n (workspaces app ! k)" using spaces_nth [OF ok k(1)] by simp
  from spaces_switch [OF ok k(1)] switch_tab_inv [OF w] wss k show ?thesis
    by (simp add: all_panes_def index_ok_def switch_tab_ids switch_tab_length switch_tab_lists)
qed

lemma nth_vec_remove: "k < length xs \<Longrightarrow> k \<noteq> s \<Longrightarrow> xs ! k \<in> set (vec_remove s xs)"
proof (cases "k < s")
  case True
  assume "k < length xs"
  with True have "xs ! k = take s xs ! k" "k < length (take s xs)" by simp_all
  then show ?thesis unfolding vec_remove_def by (metis UnI1 nth_mem set_append)
next
  case False
  assume k: "k < length xs" "k \<noteq> s"
  with False have "xs ! k = drop (Suc s) xs ! (k - Suc s)" "k - Suc s < length (drop (Suc s) xs)" by simp_all
  then show ?thesis unfolding vec_remove_def by (metis UnI2 nth_mem set_append)
qed

lemma leave_survives:
  assumes ok: "spaces_ok n c (workspaces app)" and s: "s < length (workspaces app)"
    and tk: "ws_take_pane (workspaces app ! s) p = Some (Some taken, w1)"
    and t2: "t2 < length (workspaces app)" and tab: "t2 = s \<Longrightarrow> tab \<in> set (tabs (workspaces app ! s)) \<and> p \<notin> set (tab_ids tab)"
      "t2 \<noteq> s \<Longrightarrow> tab \<in> set (tabs (workspaces app ! t2))"
    and wss: "wss = workspaces (leave_source app s w1 (workspace_empty taken) cross p i)"
  shows "\<exists>t < length wss. ws_id (wss ! t) = ws_id (workspaces app ! t2) \<and> tab \<in> set (tabs (wss ! t))"
proof -
  let ?W = "workspaces app" and ?w = "workspaces app ! s"
  have w: "ws_inv n ?w" using spaces_nth [OF ok s] by simp
  note st = ws_take_step [OF w tk]
  define u where "u = (if cross then unregister_pane w1 p else w1)"
  have u: "ws_id u = ws_id ?w" "tabs u = tabs w1" using st(5) by (auto simp: u_def ws_grows_def unregister_pane_def)
  have in_u: "tab \<in> set (tabs u)" if "t2 = s"
    using take_pane_cases [OF w ws_take_id [OF tk w]] tk tab(1) [OF that] u(2) by auto
  let ?x = "?W[s := u] ! t2"
  have x: "ws_id ?x = ws_id (?W ! t2)" "tab \<in> set (tabs ?x)"
    using in_u tab(2) u(1) s by (cases "t2 = s"; simp)+
  have "?x \<in> set wss"
  proof (cases "workspace_empty taken \<and> cross")
    case True
    then have "tabs u = []" using st(6) u(2) by simp
    with in_u have "t2 \<noteq> s" by auto
    then have "?x \<in> set (vec_remove s (?W[s := u]))" using t2 by (intro nth_vec_remove) simp_all
    with True show ?thesis by (simp add: wss leave_workspaces Let_def u_def)
  next
    case False
    then have "wss = ?W[s := u]" by (auto simp: wss leave_workspaces Let_def u_def)
    then show ?thesis using t2 by (metis length_list_update nth_mem)
  qed
  with x show ?thesis by (metis in_set_conv_nth)
qed

lemma leave_retired:
  assumes ok: "spaces_ok n c (workspaces app)" and s: "s < length (workspaces app)"
    and tk: "ws_take_pane (workspaces app ! s) p = Some (Some taken, w1)"
    and al: "\<forall>(i, q) \<in> set (public_pane_id_aliases app). retired c (workspaces app) i"
    and i: "i = public_pane_id_for_number (ws_id (workspaces app ! s)) v"
      "(p, v) \<in> set (public_pane_numbers (workspaces app ! s))"
    and app1: "app1 = leave_source app s w1 (workspace_empty taken) cross p i"
  shows "\<forall>(i, q) \<in> set (public_pane_id_aliases app1). retired c (workspaces app1) i"
proof -
  let ?W = "workspaces app" and ?w = "workspaces app ! s"
  have w: "ws_inv n ?w" "id_ok c (ws_id ?w)" using spaces_nth [OF ok s] by simp_all
  note st = ws_take_step [OF w(1) tk]
  have same: "ws_id w1 = ws_id ?w" "public_pane_numbers w1 = public_pane_numbers ?w"
      "next_public_pane_number w1 = next_public_pane_number ?w"
    using take_pane_cases [OF w(1) ws_take_id [OF tk w(1)]] tk by auto
  define u where "u = (if cross then unregister_pane w1 p else w1)"
  have u: "ws_grows ?w u" "ws_id u = ws_id ?w" "next_public_pane_number u = next_public_pane_number ?w"
    using same by (auto simp: u_def ws_grows_def unregister_pane_def AList.delete_eq)
  have sub: "set (workspaces app1) \<subseteq> set (?W[s := u])"
    using set_vec_remove [of s "?W[s := u]"] by (auto simp: app1 leave_workspaces Let_def u_def)
  have old: "retired c (workspaces app1) j" if "retired c ?W j" for j
    by (rule retired_subset [OF retired_update [OF that s u(1)] sub])
  have "retired c (workspaces app1) i" if cross
  proof -
    have nums: "numbers_ok (set (ws_ids ?w)) (next_public_pane_number ?w) (public_pane_numbers ?w)"
      using w(1) by (simp add: ws_inv_def ws_core_def)
    then have v: "0 < v" "v < next_public_pane_number ?w" using i(2) by (auto simp: numbers_ok_def list_all_iff)
    have "v \<notin> snd ` set (public_pane_numbers u)"
    proof
      assume "v \<in> snd ` set (public_pane_numbers u)"
      then obtain q where q': "(q, v) \<in> set (public_pane_numbers u)" by auto
      have "public_pane_numbers u = AList.delete p (public_pane_numbers ?w)"
        using that by (simp add: u_def unregister_pane_def same)
      with q' have q: "(q, v) \<in> set (public_pane_numbers ?w)" "q \<noteq> p" by (auto simp: AList.delete_eq)
      have "inj_on snd (set (public_pane_numbers ?w))" using nums by (simp add: numbers_ok_def distinct_map)
      from inj_onD [OF this _ q(1) i(2)] q(2) show False by simp
    qed
    moreover have "x = u" if x: "x \<in> set (?W[s := u])" "ws_id x = ws_id ?w" for x
    proof -
      obtain k where k: "k < length ?W" "x = ?W[s := u] ! k" using x(1) by (auto simp: in_set_conv_nth)
      have "map ws_id (?W[s := u]) = map ws_id ?W" by (rule map_id_update [OF u(2)])
      then have "ws_id x = map ws_id ?W ! k" using k by (metis length_list_update nth_map)
      then have "map ws_id ?W ! k = map ws_id ?W ! s" using x(2) s by simp
      moreover have "distinct (map ws_id ?W)" using ok by (simp add: spaces_ok_def)
      ultimately have "k = s" using k(1) s nth_eq_iff_index_eq [of "map ws_id ?W" k s] by simp
      with k s show ?thesis by simp
    qed
    ultimately have "retired c (?W[s := u]) i"
      unfolding retired_def using i(1) v w(2) u(3) by metis
    then show ?thesis using sub by (rule retired_subset)
  qed
  moreover have "set (AList.update i p m) \<subseteq> insert (i, p) (set m)" for m :: "(string \<times> PaneId) list"
    by (induction m) auto
  ultimately show ?thesis using al old by (fastforce simp: app1 leave_aliases split: if_splits)
qed


text \<open>Tab \<open>j\<close> of \<open>w\<close> is where the request asked \<open>p\<close> to go: the tab that was named, a new tab of the
  workspace that was named (the pane's own by default), or a workspace of its own.\<close>

definition where_asked :: "App \<Rightarrow> nat \<Rightarrow> PaneMoveDestination \<Rightarrow> Workspace \<Rightarrow> nat \<Rightarrow> PaneId \<Rightarrow> bool" where
  "where_asked app s destination w j p =
     (case destination of
        ToTab tab_id _ _ _ \<Rightarrow>
          (case parse_tab_id app tab_id of
             None \<Rightarrow> False
           | Some (t, i) \<Rightarrow>
               ws_id w = ws_id (workspaces app ! t) \<and>
               number (tabs w ! j) = number (tabs (workspaces app ! t) ! i))
      | ToNewTab workspace_id _ \<Rightarrow>
          (case (case workspace_id of None \<Rightarrow> Some s | Some i \<Rightarrow> parse_workspace_id app i) of
             None \<Rightarrow> False
           | Some t \<Rightarrow> ws_id w = ws_id (workspaces app ! t) \<and> tab_ids (tabs w ! j) = [p])
      | ToNewWorkspace _ _ \<Rightarrow> ws_ids w = [p])"

lemma where_asked_cong:
  assumes "ws_id w = ws_id w'" "map number (tabs w) = map number (tabs w')" "ws_ids w = ws_ids w'"
    "tab_ids (tabs w ! j) = tab_ids (tabs w' ! j)" "j < length (tabs w')"
  shows "where_asked app s destination w j p = where_asked app s destination w' j p"
proof -
  have "length (tabs w) = length (tabs w')" by (rule map_eq_imp_length_eq [OF assms(2)])
  then have num: "number (tabs w ! j) = number (tabs w' ! j)" using assms(2,5) by (metis nth_map)
  show ?thesis unfolding where_asked_def assms(1,3,4) num by (rule refl)
qed

text \<open>What the request resolves to: a place that is there, and not the pane's own tab.\<close>

lemma resolve_cases:
  assumes ok: "spaces_ok n c (workspaces app)"
    and r: "resolve_pane_move app s st wid destination = Some (Inr resolved)" and s: "s < length (workspaces app)"
      "wid = ws_id (workspaces app ! s)"
  obtains (tab) t j target split ratio where
      "resolved = ExistingTab (public_tab_id_for_number (ws_id (workspaces app ! t)) (number (tabs (workspaces app ! t) ! j)))
        target split ratio (s \<noteq> t)"
      "t < length (workspaces app)" "j < length (tabs (workspaces app ! t))" "t = s \<Longrightarrow> j \<noteq> st"
      "target \<in> set (tab_ids (tabs (workspaces app ! t) ! j))"
      "\<And>w i p. ws_id w = ws_id (workspaces app ! t) \<Longrightarrow> number (tabs w ! i) = number (tabs (workspaces app ! t) ! j) \<Longrightarrow>
         where_asked app s destination w i p"
    | (new_tab) t label where "resolved = NewTab (ws_id (workspaces app ! t)) label" "t < length (workspaces app)"
      "\<And>w i p. ws_id w = ws_id (workspaces app ! t) \<Longrightarrow> tab_ids (tabs w ! i) = [p] \<Longrightarrow> where_asked app s destination w i p"
    | (new_workspace) label tab_label where "resolved = NewWorkspace label tab_label"
      "\<And>w i p. ws_ids w = [p] \<Longrightarrow> where_asked app s destination w i p"
proof (cases destination)
  case (ToTab tab_id target split ratio)
  let ?W = "workspaces app"
  obtain t j where parse: "parse_tab_id app tab_id = Some (t, j)"
    using r ToTab by (auto simp: resolve_pane_move_def split: option.splits)
  then have tj: "t < length ?W" "j < length (tabs (?W ! t))" by (auto dest: parse_tab_range)
  have w: "ws_core n {} (?W ! t)" using spaces_nth [OF ok tj(1)] by (simp add: ws_inv_def)
  have focus: "tl_focus (tab_layout (tabs (?W ! t) ! j)) \<in> set (tab_ids (tabs (?W ! t) ! j))"
    using ws_core_tab [OF w, of "tabs (?W ! t) ! j"] tj(2) by (simp add: tab_inv_def layout_inv_def tab_ids_def)
  have not_own: "t = s \<Longrightarrow> j \<noteq> st"
    using r by (auto simp: resolve_pane_move_def ToTab parse)
  have pub: "public_tab_id app t j = Some (public_tab_id_for_number (ws_id (?W ! t)) (number (tabs (?W ! t) ! j)))"
    using tj by (simp add: public_tab_id_def public_tab_number_def vec_get_def)
  have found: "q \<in> set (tab_ids (tabs (?W ! t) ! j))" if "find_tab_index_for_pane (?W ! t) q = Some j" for q
    using find_tab(2) [OF w that] by blast
  have "\<exists>q ratio'. q \<in> set (tab_ids (tabs (?W ! t) ! j)) \<and>
    resolved = ExistingTab (public_tab_id_for_number (ws_id (?W ! t)) (number (tabs (?W ! t) ! j))) q split ratio' (s \<noteq> t)"
    using r tj focus by (auto simp: resolve_pane_move_def ToTab parse pub found split: option.splits if_splits sum.splits)
  then obtain q ratio' where q: "q \<in> set (tab_ids (tabs (?W ! t) ! j))"
    and res: "resolved = ExistingTab (public_tab_id_for_number (ws_id (?W ! t)) (number (tabs (?W ! t) ! j))) q split ratio' (s \<noteq> t)"
    by blast
  show thesis by (rule tab [OF res tj not_own q]) (simp_all add: where_asked_def ToTab parse)
next
  case (ToNewTab workspace_id label)
  obtain t where t: "resolved = NewTab (ws_id (workspaces app ! t)) label" "t < length (workspaces app)"
    "(case workspace_id of None \<Rightarrow> Some s | Some i \<Rightarrow> parse_workspace_id app i) = Some t"
    using r s ToNewTab by (auto simp: resolve_pane_move_def public_workspace_id_def split: option.splits)
  show thesis by (rule new_tab [OF t(1,2)]) (simp add: where_asked_def ToNewTab t(3))
next
  case (ToNewWorkspace label tab_label)
  with r have "resolved = NewWorkspace label tab_label" by (simp add: resolve_pane_move_def)
  then show thesis by (rule new_workspace) (simp add: where_asked_def ToNewWorkspace)
qed

text \<open>A pane that has left its source arrives, whatever the destination.\<close>

lemma move_arrives:
  assumes ok: "spaces_ok (next_pane_id g) (next_workspace_id g) (workspaces app)" and fits: "fits app"
    and c: "0 < next_workspace_id g" "next_workspace_id g \<noteq> - 1"
    and s: "s < length (workspaces app)" and st: "st < length (tabs (workspaces app ! s))" "p \<in> set (tab_ids (tabs (workspaces app ! s) ! st))"
    and tk: "ws_take_pane (workspaces app ! s) p = Some (Some taken, w1)"
    and r: "resolve_pane_move app s st (ws_id (workspaces app ! s)) destination = Some (Inr resolved)"
    and cross: "cross = is_cross_workspace resolved (ws_id (workspaces app ! s))"
    and app1: "app1 = leave_source app s w1 (workspace_empty taken) cross p i"
  shows "\<exists>k j app2 g2. place_moved_pane g app1 ctx resolved (taken_moved taken) focus cwd = Some (Inr (k, j), app2, g2) \<and>
    placed g app1 p k j app2 g2 \<and> where_asked app s destination (workspaces app2 ! k) j p \<and>
    (\<not> cross \<longrightarrow> k = s \<and> ws_id (workspaces app2 ! s) = ws_id (workspaces app ! s) \<and>
       public_pane_numbers (workspaces app2 ! s) = public_pane_numbers (workspaces app ! s))"
proof -
  let ?W = "workspaces app" and ?w = "workspaces app ! s"
  have w: "ws_inv (next_pane_id g) ?w" using spaces_nth [OF ok s] by simp
  note step = ws_take_step [OF w tk]
  have same: "ws_id w1 = ws_id ?w" "public_pane_numbers w1 = public_pane_numbers ?w"
    using take_pane_cases [OF w ws_take_id [OF tk w]] tk by auto
  have wss: "workspaces app1 = workspaces (leave_source app s w1 (workspace_empty taken) cross p i)" by (simp add: app1)
  note left = leave_source_mid [OF ok s tk wss]
  have gone: "p \<notin> set (all_panes app1)" using left(1) by (simp add: all_panes_def)
  have ids: "distinct (map ws_id ?W)" using ok by (simp add: spaces_ok_def)
  have mid: "mid (next_pane_id g) (next_workspace_id g) p t (workspaces app1)" if "\<not> cross \<Longrightarrow> t = s" for t
  proof (cases cross)
    case True
    then show ?thesis using left(2) spaces_mid [of _ _ "workspaces app1" p t] gone by (simp add: all_panes_def)
  next
    case False
    have "mid (next_pane_id g) (next_workspace_id g) p s (workspaces app1)" using left(2) False by auto
    with that False show ?thesis by simp
  qed
  have dist1: "distinct (map ws_id (workspaces app1))" using mid [of s] by (simp add: mid_def)
  have stay: "workspaces app1 ! s = w1 \<and> s < length (workspaces app1)" if "\<not> cross"
    using left(2) that s by simp
  have numbered: "map_of (public_pane_numbers w1) p \<noteq> None"
    using w same(2) ws_take_id [OF tk w]
    by (auto simp: map_of_eq_None_iff ws_inv_def ws_core_def numbers_ok_def)
  show ?thesis
    using ok r s refl
  proof (cases rule: resolve_cases)
    case (tab t2 j target split ratio)
    let ?tab = "tabs (?W ! t2) ! j"
    have cr: "cross \<longleftrightarrow> s \<noteq> t2" by (simp add: cross tab(1) is_cross_workspace_def)
    have w2: "ws_core (next_pane_id g) {} (?W ! t2)" "id_ok (next_workspace_id g) (ws_id (?W ! t2))"
      using spaces_nth [OF ok tab(2)] by (simp_all add: ws_inv_def)
    have other: "p \<notin> set (tab_ids ?tab)" if "t2 = s"
    proof
      assume "p \<in> set (tab_ids ?tab)"
      then have "j = st" using nth_disjoint [of tab_ids "tabs ?w" j st p] w st tab(3) that
        by (simp add: ws_inv_def ws_core_def tabs_ok_def)
      with tab(4) that show False by simp
    qed
    have "\<exists>t < length (workspaces app1). ws_id (workspaces app1 ! t) = ws_id (?W ! t2) \<and> ?tab \<in> set (tabs (workspaces app1 ! t))"
      by (rule leave_survives [OF ok s tk tab(2) _ _ wss]) (use other tab(3) in auto)
    then obtain t where t: "t < length (workspaces app1)" "ws_id (workspaces app1 ! t) = ws_id (?W ! t2)"
      "?tab \<in> set (tabs (workspaces app1 ! t))" by blast
    have ts: "\<not> cross \<Longrightarrow> t = s"
      using t(1,2) cr stay same(1) dist1 nth_eq_iff_index_eq [of "map ws_id (workspaces app1)" t s] by auto
    obtain j' where j': "j' < length (tabs (workspaces app1 ! t))" "tabs (workspaces app1 ! t) ! j' = ?tab"
      using t(3) by (auto simp: in_set_conv_nth)
    obtain E where E: "ws_core (next_pane_id g) E (workspaces app1 ! t)" using mid_target [OF mid [OF ts] t(1)] by blast
    have n: "0 < number ?tab" "number ?tab \<le> USIZE_MAX"
      using w2(1) tab(2,3) fits by (fastforce simp: ws_core_def tabs_ok_def list_all_length fits_def)+
    have parse: "parse_tab_id app1 (public_tab_id_for_number (ws_id (?W ! t2)) (number ?tab)) = Some (t, j')"
      using parse_tab_public [OF dist1 t(1) refl, of "next_workspace_id g" j'] t(2) w2(2) j' n E
      by (simp add: ws_core_def tabs_ok_def)
    have target: "target \<in> set (tab_ids (tabs (workspaces app1 ! t) ! j'))" using tab(5) j'(2) by simp
    from place_in_tab [OF mid [OF ts] t(1) c(1) step(2,4) parse j'(1) target, where ctx = ctx and focus = focus and cwd = cwd
        and split = split and ratio = ratio and cross = "s \<noteq> t2"]
    obtain w' where w': "place_moved_pane g app1 ctx resolved (taken_moved taken) focus cwd =
        Some (Inr (t, j'), app1\<lparr>workspaces := (workspaces app1)[t := w']\<rparr>, g)"
      "placed g app1 p t j' (app1\<lparr>workspaces := (workspaces app1)[t := w']\<rparr>) g" "ws_id w' = ws_id (workspaces app1 ! t)" "number (tabs w' ! j') = number (tabs (workspaces app1 ! t) ! j')"
      "map_of (public_pane_numbers (workspaces app1 ! t)) p \<noteq> None \<longrightarrow> public_pane_numbers w' = public_pane_numbers (workspaces app1 ! t)"
      unfolding tab(1) by blast
    have arrived: "where_asked app s destination w' j' p"
      using tab(6) [of w' j'] w'(3,4) t(2) j'(2) by simp
    have "t = s \<and> ws_id w' = ws_id ?w \<and> public_pane_numbers w' = public_pane_numbers ?w" if "\<not> cross"
      using ts [OF that] w'(3,5) stay [OF that] same numbered by simp
    with w'(1,2) show ?thesis using t(1) arrived by (intro exI conjI) auto
  next
    case (new_tab t2 label)
    have cr: "cross \<longleftrightarrow> s \<noteq> t2"
      using ids s new_tab(2) nth_eq_iff_index_eq [of "map ws_id ?W" t2 s]
      by (auto simp: cross new_tab(1) is_cross_workspace_def)
    have "\<exists>t < length (workspaces app1). ws_id (workspaces app1 ! t) = ws_id (?W ! t2)"
    proof (cases "t2 = s")
      case True
      with cr stay same(1) show ?thesis by auto
    next
      case False
      have "tabs (?W ! t2) \<noteq> []" using spaces_nth [OF ok new_tab(2)] by (simp add: ws_inv_def)
      then have "hd (tabs (?W ! t2)) \<in> set (tabs (?W ! t2))" by simp
      with leave_survives [OF ok s tk new_tab(2) _ _ wss] False show ?thesis by blast
    qed
    then obtain t where t: "t < length (workspaces app1)" "ws_id (workspaces app1 ! t) = ws_id (?W ! t2)" by blast
    have ts: "\<not> cross \<Longrightarrow> t = s"
      using t(1,2) cr stay same(1) dist1 nth_eq_iff_index_eq [of "map ws_id (workspaces app1)" t s] by auto
    have parse: "parse_workspace_id app1 (ws_id (?W ! t2)) = Some t"
      using parse_workspace_id_own [OF dist1 t(1)] t(2) by simp
    from place_in_new_tab [OF mid [OF ts] t(1) c(1) step(2,4) parse, where ctx = ctx and focus = focus and cwd = cwd and label = label]
    obtain j w' where w': "place_moved_pane g app1 ctx resolved (taken_moved taken) focus cwd =
        Some (Inr (t, j), app1\<lparr>workspaces := (workspaces app1)[t := w']\<rparr>, g)"
      "placed g app1 p t j (app1\<lparr>workspaces := (workspaces app1)[t := w']\<rparr>) g" "ws_id w' = ws_id (workspaces app1 ! t)" "tab_ids (tabs w' ! j) = [p]"
      "map_of (public_pane_numbers (workspaces app1 ! t)) p \<noteq> None \<longrightarrow> public_pane_numbers w' = public_pane_numbers (workspaces app1 ! t)"
      unfolding new_tab(1) by blast
    have arrived: "where_asked app s destination w' j p" using new_tab(3) [of w' j] w'(3,4) t(2) by simp
    have "t = s \<and> ws_id w' = ws_id ?w \<and> public_pane_numbers w' = public_pane_numbers ?w" if "\<not> cross"
      using ts [OF that] w'(3,5) stay [OF that] same numbered by simp
    with w'(1,2) show ?thesis using t(1) arrived by (intro exI conjI) auto
  next
    case (new_workspace label tab_label)
    then have cross by (simp add: cross is_cross_workspace_def)
    moreover from this have "spaces_ok (next_pane_id g) (next_workspace_id g) (workspaces app1)" using left(2) by simp
    ultimately show ?thesis
      using place_in_new_workspace [OF _ c step(2,4) gone] new_workspace(2) unfolding new_workspace(1) by blast
  qed
qed

text \<open>The move of a pane that has a place to go.\<close>

lemma perform_move:
  assumes inv: "app_inv (g, app)" and fits: "fits app" and c: "next_workspace_id g \<noteq> - 1"
    and s: "s < length (workspaces app)" and st: "find_tab_index_for_pane (workspaces app ! s) p = Some st"
    and r: "resolve_pane_move app s st (ws_id (workspaces app ! s)) destination = Some (Inr resolved)"
    and ctx: "ctx_workspace_id ctx = ws_id (workspaces app ! s)"
    and i: "public_pane_id app s p = Some i"
  shows "\<exists>k j app' g'. perform_pane_move g app ctx resolved s p i focus cwd = Some (MoveDone k j p, app', g') \<and>
    app_inv (g', app') \<and> set (all_panes app') = set (all_panes app) \<and>
    k < length (workspaces app') \<and> j < length (tabs (workspaces app' ! k)) \<and>
    p \<in> set (tab_ids (tabs (workspaces app' ! k) ! j)) \<and> parse_pane_id app' i = Some (k, p) \<and>
    where_asked app s destination (workspaces app' ! k) j p"
proof -
  let ?W = "workspaces app" and ?w = "workspaces app ! s"
  have ok: "spaces_ok (next_pane_id g) (next_workspace_id g) ?W" and al: "\<forall>(i, q) \<in> set (public_pane_id_aliases app). retired (next_workspace_id g) ?W i"
    and idx: "index_ok (active app) (selected app) ?W" and c0: "0 < next_workspace_id g"
    using inv by (simp_all add: app_inv_def)
  have w: "ws_inv (next_pane_id g) ?w" "ws_core (next_pane_id g) {} ?w" using spaces_nth [OF ok s] by (simp_all add: ws_inv_def)
  note f = find_tab(2) [OF w(2) st]
  then have p: "p \<in> set (ws_ids ?w)" using tab_in_ws [of st ?w] by blast
  obtain taken w1 where tk: "ws_take_pane ?w p = Some (Some taken, w1)" using take_pane_cases [OF w(1) p] by blast
  define cross where "cross = is_cross_workspace resolved (ws_id ?w)"
  define app1 where "app1 = leave_source app s w1 (workspace_empty taken) cross p i"
  obtain v where v: "(p, v) \<in> set (public_pane_numbers ?w)" and iv: "i = public_pane_id_for_number (ws_id ?w) v"
    using i by (auto simp: public_pane_id_def public_pane_number_def bind_eq_Some_conv dest: map_of_SomeD)
  from move_arrives [OF ok fits c0 c s _ _ tk r cross_def app1_def, of ctx focus cwd] f
  obtain k j app2 g2 where place: "place_moved_pane g app1 ctx resolved (taken_moved taken) focus cwd = Some (Inr (k, j), app2, g2)"
    and pl: "placed g app1 p k j app2 g2" and asked: "where_asked app s destination (workspaces app2 ! k) j p"
    and same: "\<not> cross \<Longrightarrow> k = s \<and> ws_id (workspaces app2 ! s) = ws_id ?w \<and> public_pane_numbers (workspaces app2 ! s) = public_pane_numbers ?w"
    by blast
  define app3 where "app3 = focus_moved_pane app2 (current_pane_focus_target app) focus k j p"
  define app' where "app' = remove_alias_shadowed_by_new_pane app3 p"
  have runs: "perform_pane_move g app ctx resolved s p i focus cwd = Some (MoveDone k j p, app', g2)"
    using s tk place by (simp add: perform_pane_move_def vec_get_def ctx Let_def cross_def app1_def app'_def app3_def)
  have app': "workspaces app' = workspaces app3" "active app' = active app3" "selected app' = selected app3"
    "public_pane_id_aliases app' = public_pane_id_aliases app3" "all_panes app' = all_panes app3"
    by (simp_all add: app'_def remove_alias_shadowed_by_new_pane_def all_panes_def)
  have left: "set (all_panes app1) = set (all_panes app) - {p}"
    using leave_source_mid(1) [OF ok s tk refl, of cross i] by (simp add: app1_def all_panes_def)
  have ret1: "\<forall>(i, q) \<in> set (public_pane_id_aliases app1). retired (next_workspace_id g) (workspaces app1) i"
    by (rule leave_retired [OF ok s tk al iv v app1_def])
  have idx1: "index_ok (active app1) (selected app1) (workspaces app1)"
    using leave_index [OF idx s, of w1 "workspace_empty taken" cross p i] by (simp add: app1_def Let_def)
  have two: "active app2 = active app1" "selected app2 = selected app1" "public_pane_id_aliases app2 = public_pane_id_aliases app1"
    using pl by (metis App.select_convs App.surjective App.update_convs placed_def)+
  have idx2: "index_ok (active app2) (selected app2) (workspaces app2)"
    using idx1 pl unfolding two by (auto simp: index_ok_def placed_def split: option.splits)
  have k: "k < length (workspaces app2)" "j < length (tabs (workspaces app2 ! k))" and
    ok2: "spaces_ok (next_pane_id g2) (next_workspace_id g2) (workspaces app2)" using pl by (simp_all add: placed_def)
  note fo = focus_moved [OF ok2 k idx2 app3_def]
  have inv': "app_inv (g2, app')"
    using fo pl ret1 by (auto simp: app_inv_def app' placed_def two)
  have panes: "set (all_panes app') = set (all_panes app)"
    using fo pl left p all_panes_nth [of p ?W] s by (auto simp: app' placed_def all_panes_def)
  have there: "p \<in> set (tab_ids (tabs (workspaces app' ! k) ! j))" using fo pl by (simp add: app' placed_def)
  have k': "k < length (workspaces app')" "j < length (tabs (workspaces app' ! k))" using fo k by (simp_all add: app')
  have ok3: "spaces_ok (next_pane_id g2) (next_workspace_id g2) (workspaces app')" using fo by (simp add: app')
  have "parse_pane_id app' i = Some (k, p)"
  proof (cases cross)
    case True
    have "map_of (public_pane_id_aliases app') i = Some p"
      using fo True by (simp add: app' two app1_def leave_aliases AList.update_conv')
    moreover obtain pane where "find_pane app' p = Some (k, pane)"
      using find_pane_own [OF ok3 k'(1)] there tab_in_ws [OF k'(2)] by blast
    ultimately show ?thesis by (simp add: parse_pane_id_def)
  next
    case False
    have nums: "(p, v) \<in> set (public_pane_numbers (workspaces app' ! k))" "ws_id (workspaces app' ! k) = ws_id ?w"
      using fo same [OF False] v by (simp_all add: app')
    have "v < next_public_pane_number ?w" using w(2) v by (auto simp: ws_core_def numbers_ok_def list_all_iff)
    then have v': "v \<le> USIZE_MAX" using fits s by (fastforce simp: fits_def list_all_length)
    have wk: "ws_inv (next_pane_id g2) (workspaces app' ! k)" using spaces_nth [OF ok3 k'(1)] by simp
    have i': "i = public_pane_id_for_number (ws_id (workspaces app' ! k)) v" by (simp add: iv nums(2))
    have "map_of (public_pane_id_aliases app') i = None"
    proof (rule ccontr)
      assume "map_of (public_pane_id_aliases app') i \<noteq> None"
      then obtain q where "(i, q) \<in> set (public_pane_id_aliases app')" by (auto dest: map_of_SomeD)
      with inv' have "retired (next_workspace_id g2) (workspaces app') i" by (auto simp: app_inv_def)
      with live_not_retired [OF k'(1) wk nums(1) i'] show False by simp
    qed
    from parse_pane_public [OF ok3 k'(1) nums(1) v' i' this] show ?thesis .
  qed
  moreover have "where_asked app s destination (workspaces app' ! k) j p"
    using where_asked_cong [of "workspaces app3 ! k" "workspaces app2 ! k" j] fo k asked by (simp add: app')
  ultimately show ?thesis using runs inv' panes k' there by blast
qed

lemma resolve_outcome:
  "resolve_pane_move app s st wid destination = Some (Inl out) \<Longrightarrow> (\<exists>e. out = MoveError e) \<or> (\<exists>r. out = MoveUnchanged r)"
  by (auto simp: resolve_pane_move_def split: PaneMoveDestination.splits option.splits if_splits sum.splits prod.splits)

lemma resolve_total:
  assumes "spaces_ok n c (workspaces app)" "resolve_pane_move app s st wid destination = None"
  shows "\<exists>i label k. destination = ToNewTab (Some i) label \<and> parse_workspace_id app i = Some k \<and> length (workspaces app) \<le> k"
  using assms(2)
  by (auto simp: resolve_pane_move_def public_workspace_id_def vec_get_def
      split: PaneMoveDestination.splits option.splits if_splits sum.splits prod.splits)

text \<open>What a request to move a pane does.\<close>

lemma move_pane:
  assumes "app_inv (g, app)" "fits app" "next_workspace_id g \<noteq> - 1"
  shows "case handle_pane_move g app requested destination focus cwd of
      None \<Rightarrow> (\<exists>i label k. destination = ToNewTab (Some i) label \<and> parse_workspace_id app i = Some k \<and>
                 length (workspaces app) \<le> k)
    | Some (MoveDone k j p, app', g') \<Rightarrow>
        app_inv (g', app') \<and> set (all_panes app') = set (all_panes app) \<and>
        k < length (workspaces app') \<and> j < length (tabs (workspaces app' ! k)) \<and>
        p \<in> set (tab_ids (tabs (workspaces app' ! k) ! j)) \<and>
        (\<exists>s i. parse_pane_id app requested = Some (s, p) \<and> public_pane_id app s p = Some i \<and>
           parse_pane_id app' i = Some (k, p) \<and> where_asked app s destination (workspaces app' ! k) j p)
    | Some (_, app', g') \<Rightarrow> app' = app \<and> g' = g"
proof (cases "parse_pane_id app requested")
  case None
  then show ?thesis by (simp add: handle_pane_move_def)
next
  case (Some x)
  obtain s p where x: "x = (s, p)" by (cases x)
  have ok: "spaces_ok (next_pane_id g) (next_workspace_id g) (workspaces app)" using assms(1) by (simp add: app_inv_def)
  have s: "s < length (workspaces app)" using Some x parse_pane_range by blast
  let ?w = "workspaces app ! s"
  have core: "ws_core (next_pane_id g) {} ?w" using spaces_nth [OF ok s] by (simp add: ws_inv_def)
  show ?thesis
  proof (cases "find_tab_index_for_pane ?w p")
    case None
    with Some x show ?thesis by (simp add: handle_pane_move_def)
  next
    case tab: (Some st)
    note f = find_tab(2) [OF core tab]
    have "p \<in> set (ws_ids ?w)" using f tab_in_ws [of st ?w] by blast
    then have "map_of (public_pane_numbers ?w) p \<noteq> None"
      using core by (auto simp: map_of_eq_None_iff ws_core_def numbers_ok_def)
    then obtain i where i: "public_pane_id app s p = Some i"
      using s by (auto simp: public_pane_id_def public_pane_number_def vec_get_def)
    have t: "public_tab_id app s st \<noteq> None" "tab_terminal_id (tabs ?w ! st) p \<noteq> None"
      using s f tab_inv_ids(3) [of "next_pane_id g" "tabs ?w ! st" p]
      by (auto simp: public_tab_id_def public_tab_number_def tab_terminal_id_def vec_get_def)
    show ?thesis
    proof (cases "zoomed (tabs ?w ! st)")
      case True
      with Some x tab i t show ?thesis by (auto simp: handle_pane_move_def Let_def)
    next
      case zoom: False
      show ?thesis
      proof (cases "resolve_pane_move app s st (ws_id ?w) destination")
        case None
        with resolve_total [OF ok None] Some x tab i t zoom show ?thesis by (auto simp: handle_pane_move_def Let_def)
      next
        case res: (Some r)
        show ?thesis
        proof (cases r)
          case (Inl out)
          with resolve_outcome res Some x tab i t zoom show ?thesis by (fastforce simp: handle_pane_move_def Let_def)
        next
          case (Inr resolved)
          let ?ctx = "\<lparr>ctx_source = s, ctx_workspace_id = ws_id ?w, ctx_workspace_label = ws_custom_name ?w,
            ctx_tab_label = tab_custom_name (tabs ?w ! st), ctx_space = worktree_space ?w, ctx_cwd = identity_cwd ?w\<rparr>"
          have "handle_pane_move g app requested destination focus cwd = perform_pane_move g app ?ctx resolved s p i focus cwd"
            using Some x tab i t zoom res Inr by (auto simp: handle_pane_move_def Let_def)
          with perform_move [OF assms s tab res [unfolded Inr] _ i, of ?ctx focus cwd] Some x i show ?thesis by auto
        qed
      qed
    qed
  qed
qed

text \<open>C3: Moving a pane loses nothing. In every state the server can reach, a request to move a pane
  leaves every workspace well formed and the panes of the server the same ones, each in one tab; when
  the answer is that it moved, it is in the tab, the new tab or the new workspace that was asked for,
  and the public id it had before still names it there (as an alias once it has left its workspace);
  when the answer is an error or that nothing changed, nothing has changed. The recovery path is never
  needed, and the only request the server does not survive is one that asks for a new tab in a
  workspace with a number beyond those there are.\<close>

theorem move_pane_correct:
  assumes "app_inv (g, app)" "fits app" "next_workspace_id g \<noteq> - 1"
  shows "case handle_pane_move g app requested destination focus cwd of
      None \<Rightarrow> (\<exists>i label k. destination = ToNewTab (Some i) label \<and> parse_workspace_id app i = Some k \<and>
                 length (workspaces app) \<le> k)
    | Some (MoveDone k j p, app', g') \<Rightarrow>
        app_inv (g', app') \<and> set (all_panes app') = set (all_panes app) \<and>
        k < length (workspaces app') \<and> j < length (tabs (workspaces app' ! k)) \<and>
        p \<in> set (tab_ids (tabs (workspaces app' ! k) ! j)) \<and>
        (\<exists>s i. parse_pane_id app requested = Some (s, p) \<and> public_pane_id app s p = Some i \<and>
           parse_pane_id app' i = Some (k, p) \<and> where_asked app s destination (workspaces app' ! k) j p)
    | Some (_, app', g') \<Rightarrow> app' = app \<and> g' = g"
  by (rule move_pane [OF assms])

text \<open>C39: A new tab in a workspace that is not there brings the server down: a workspace may be named by
  its number, the number is not checked against the workspaces there are, and it is used as an index.
  So a request with a number that is too large, which any client can send, has no answer, whatever
  the pane it moves.\<close>

theorem move_to_unknown_workspace_panics:
  assumes "app_inv (g, app)" "k < length (workspaces app)" "j < length (tabs (workspaces app ! k))"
    and "p \<in> set (tab_ids (tabs (workspaces app ! k) ! j))" "\<not> zoomed (tabs (workspaces app ! k) ! j)"
    and "parse_pane_id app requested = Some (k, p)"
    and "ws_id ` set (workspaces app) \<inter> {i} = {}" "strip_prefix ''w_'' i = None"
    and "parse_usize i = Some n" "length (workspaces app) < n"
  shows "handle_pane_move g app requested (ToNewTab (Some i) label) focus cwd = None"
proof -
  let ?w = "workspaces app ! k"
  have ok: "spaces_ok (next_pane_id g) (next_workspace_id g) (workspaces app)" using assms(1) by (simp add: app_inv_def)
  have core: "ws_core (next_pane_id g) {} ?w" using spaces_nth [OF ok assms(2)] by (simp add: ws_inv_def)
  have p: "p \<in> set (ws_ids ?w)" using tab_in_ws [OF assms(3)] assms(4) by blast
  then obtain st where st: "find_tab_index_for_pane ?w p = Some st" using find_tab(1) [OF core, of p] by auto
  note f = find_tab(2) [OF core st]
  have "st = j" using nth_disjoint [of tab_ids "tabs ?w" st j p] core f assms(3,4) by (simp add: ws_core_def tabs_ok_def)
  have t: "public_tab_id app k j \<noteq> None" "tab_terminal_id (tabs ?w ! j) p \<noteq> None"
    using assms(2,3) f tab_inv_ids(3) [of "next_pane_id g" "tabs ?w ! j" p] \<open>st = j\<close>
    by (auto simp: public_tab_id_def public_tab_number_def tab_terminal_id_def vec_get_def)
  have "position (\<lambda>w. ws_id w = i) (workspaces app) = None" using assms(7) by (auto simp: position_None)
  then have "parse_workspace_id app i = Some (n - 1)"
    using assms(8,9,10) by (simp add: parse_workspace_id_def checked_pred_def)
  moreover have "\<not> n - 1 < length (workspaces app)" using assms(10) by simp
  ultimately show ?thesis
    using assms(5,6) st t \<open>st = j\<close>
    by (auto simp: handle_pane_move_def Let_def resolve_pane_move_def public_workspace_id_def vec_get_def)
qed

section \<open>Examples\<close>

lemma example_fits: "fits example_app"
  by (simp add: fits_def example_app_def example_ws2_parts USIZE_MAX_def)

lemma example_parse: "parse_pane_id example_app ''w1:p2'' = Some (0, PaneId 2)"
proof -
  have ok: "spaces_ok 3 2 (workspaces example_app)"
    using example_app(1) by (simp add: app_inv_def example_counters_def example_globals_def)
  show ?thesis
    by (rule parse_pane_public [OF ok, of 0 _ 2])
       (simp_all add: example_app_def example_ws2_parts USIZE_MAX_def public_pane_id_for_number_def
          encode_public_number_def encode_digits.simps PUBLIC_ID_ALPHABET_def)
qed

theorem move_pane_correct_witness:
  "case handle_pane_move example_counters example_app ''w1:p2'' (ToNewWorkspace None None) True ''/'' of
     None \<Rightarrow> False
   | Some (_, app', g') \<Rightarrow> app_inv (g', app') \<and> set (all_panes app') = {PaneId 1, PaneId 2}"
proof -
  have "set (all_panes example_app) = {PaneId 1, PaneId 2}"
    by (simp add: all_panes_def example_app_def ws_ids_def example_ws2_parts)
  moreover have "next_workspace_id example_counters \<noteq> - 1" by (simp add: example_counters_def)
  ultimately show ?thesis
    using move_pane_correct [OF example_app example_fits, where requested = "''w1:p2''" and destination = "ToNewWorkspace None None" and
        focus = True and cwd = "''/''"] example_app(1)
    by (auto split: option.splits prod.splits MoveOutcome.splits)
qed

theorem move_to_unknown_workspace_panics_witness:
  "handle_pane_move example_counters example_app ''w1:p2'' (ToNewTab (Some ''99'') None) True ''/'' = None"
proof -
  have w: "workspaces example_app = [example_ws2]" by (simp add: example_app_def)
  have len: "length (tabs example_ws2) = 2" by (rule example_ws2(2))
  have t: "tab_ids (tabs example_ws2 ! Suc 0) = [PaneId 2]" "\<not> zoomed (tabs example_ws2 ! Suc 0)"
    using nth_map [of 1 "tabs example_ws2" tab_ids] nth_map [of 1 "tabs example_ws2" zoomed] len example_ws2_parts(6,7)
    by simp_all
  have "parse_usize ''99'' = Some 99"
    by (simp add: parse_usize_def parse_unsigned_def USIZE_MAX_def digit_value_def of_char_def)
  then show ?thesis
    using move_to_unknown_workspace_panics [OF example_app(1), of 0 1 "PaneId 2" "''w1:p2''" "''99''" 99 None True "''/''"]
    by (simp add: w len t example_parse example_ws2_parts(1) strip_prefix_def)
qed

end
