(* ===== verification/App_Workspaces.thy ===== *)
theory App_Workspaces
  imports App_Panes
begin

text \<open>
  The workspaces of the server as its API changes them: focus, zoom, order, creation and closing
  (\<open>herdr/src/app/actions.rs\<close>, \<open>create_workspace_with_launch_env\<close> of \<open>herdr/src/app/creation.rs\<close>, and
  the handlers of \<open>herdr/src/app/api/workspaces.rs\<close>, \<open>tabs.rs\<close> and \<open>panes.rs\<close>). The answers in JSON,
  the events, logging, saving, the records of terminals and of the panes of plugins are left out; a
  handler's answer is an error code or success. Closing a workspace that is one of a worktree group
  closes the group.
\<close>

section \<open>Focus\<close>

definition pane_is_in_active_tab :: "App \<Rightarrow> nat \<Rightarrow> PaneId \<Rightarrow> bool option" where
  "pane_is_in_active_tab self ws_idx p =
     (if active self \<noteq> Some ws_idx then Some False
      else map_option
             (\<lambda>ws. case find_tab_index_for_pane ws p of Some tab_idx \<Rightarrow> tab_idx = ws_active ws | None \<Rightarrow> False)
             (vec_get (workspaces self) ws_idx))"

definition switch_workspace :: "App \<Rightarrow> nat \<Rightarrow> App" where
  "switch_workspace self idx =
     (if idx < length (workspaces self)
      then
        let previous = current_pane_focus_target self;
            ws = workspaces self ! idx;
            self = self\<lparr>active := Some idx, selected := idx,
                        workspaces := (workspaces self)[idx := switch_tab ws (ws_active ws)]\<rparr>
        in record_pane_focus_after_navigation self previous
      else self)"

definition focus_pane_in_workspace :: "App \<Rightarrow> nat \<Rightarrow> PaneId \<Rightarrow> bool \<times> App" where
  "focus_pane_in_workspace self ws_idx p =
     (case vec_get (workspaces self) ws_idx of
        None \<Rightarrow> (False, self)
      | Some ws \<Rightarrow>
          (case find_tab_index_for_pane ws p of
             None \<Rightarrow> (False, self)
           | Some tab_idx \<Rightarrow>
               let previous = current_pane_focus_target self
               in if previous = Some (ws_id ws, p) then (False, self)
                  else
                    let self = snd (switch_workspace_tab self ws_idx tab_idx)
                    in case vec_get (workspaces self) ws_idx of
                         None \<Rightarrow> (False, self)
                       | Some ws \<Rightarrow>
                           (case vec_get (tabs ws) tab_idx of
                              None \<Rightarrow> (False, self)
                            | Some tab \<Rightarrow>
                                (True,
                                 self\<lparr>workspaces := (workspaces self)[ws_idx :=
                                        ws\<lparr>tabs := (tabs ws)[tab_idx :=
                                             tab\<lparr>tab_layout := focus_pane (tab_layout tab) p\<rparr>]\<rparr>],
                                      previous_pane_focus := previous\<rparr>))))"

definition mark_active_tab_seen :: "App \<Rightarrow> bool \<times> App" where
  "mark_active_tab_seen self =
     (case Option.bind (active self) (\<lambda>ws_idx. map_option (\<lambda>ws. (ws_idx, ws)) (vec_get (workspaces self) ws_idx)) of
        None \<Rightarrow> (False, self)
      | Some (ws_idx, ws) \<Rightarrow>
          (case active_tab ws of
             None \<Rightarrow> (False, self)
           | Some tab \<Rightarrow>
               (list_ex (\<lambda>(_, pane). \<not> seen pane) (tab_panes tab),
                self\<lparr>workspaces := (workspaces self)[ws_idx :=
                       ws\<lparr>tabs := (tabs ws)[ws_active ws := see_panes tab]\<rparr>]\<rparr>)))"

section \<open>Zoom\<close>

datatype PaneZoomCommand = ToggleZoom | ZoomOn | ZoomOff

datatype PaneZoomNoopReason = SinglePane | AlreadyZoomed | AlreadyUnzoomed

record PaneZoomOutcome =
  zoom_changed :: bool
  zoom_focus_changed :: bool
  zoom_reason :: "PaneZoomNoopReason option"
  zoom_is_on :: bool

definition apply_pane_zoom :: "App \<Rightarrow> nat \<Rightarrow> PaneId \<Rightarrow> PaneZoomCommand \<Rightarrow> PaneZoomOutcome option \<times> App" where
  "apply_pane_zoom self ws_idx p command =
     (case Option.bind (vec_get (workspaces self) ws_idx) (\<lambda>ws. find_tab_index_for_pane ws p) of
        None \<Rightarrow> (None, self)
      | Some tab_idx \<Rightarrow>
          let (focus_changed, self) = focus_pane_in_workspace self ws_idx p
          in case vec_get (workspaces self) ws_idx of
               None \<Rightarrow> (None, self)
             | Some ws \<Rightarrow>
                 (case vec_get (tabs ws) tab_idx of
                    None \<Rightarrow> (None, self)
                  | Some tab \<Rightarrow>
                      let unchanged = (\<lambda>reason. (Some \<lparr>zoom_changed = False, zoom_focus_changed = focus_changed,
                                         zoom_reason = Some reason, zoom_is_on = zoomed tab\<rparr>, self))
                      in if pane_count (tab_layout tab) \<le> 1 then unchanged SinglePane
                         else if command = ZoomOn \<and> zoomed tab then unchanged AlreadyZoomed
                         else if command = ZoomOff \<and> \<not> zoomed tab then unchanged AlreadyUnzoomed
                         else
                           let desired = (case command of ToggleZoom \<Rightarrow> \<not> zoomed tab | ZoomOn \<Rightarrow> True | ZoomOff \<Rightarrow> False)
                           in (Some \<lparr>zoom_changed = True, zoom_focus_changed = focus_changed,
                                     zoom_reason = None, zoom_is_on = desired\<rparr>,
                               self\<lparr>workspaces := (workspaces self)[ws_idx :=
                                      ws\<lparr>tabs := (tabs ws)[tab_idx := tab\<lparr>zoomed := desired\<rparr>]\<rparr>]\<rparr>)))"

section \<open>Order\<close>

definition move_workspace_block :: "App \<Rightarrow> string list \<Rightarrow> string option \<Rightarrow> (bool \<times> App) option" where
  "move_workspace_block self ids before =
     (let present = (\<lambda>i. list_ex (\<lambda>ws. ws_id ws = i) (workspaces self))
      in if ids = [] \<or> \<not> distinct ids \<or> \<not> list_all present ids \<or>
            (case before of Some i \<Rightarrow> i \<in> set ids \<or> \<not> present i | None \<Rightarrow> False)
         then Some (False, self)
         else
           let rest = map ws_id (filter (\<lambda>ws. ws_id ws \<notin> set ids) (workspaces self));
               insert_idx = (case Option.bind before (\<lambda>i. position (\<lambda>candidate. candidate = i) rest) of
                               Some idx \<Rightarrow> idx | None \<Rightarrow> length rest);
               desired = take insert_idx rest @ ids @ drop insert_idx rest
           in if map ws_id (workspaces self) = desired then Some (False, self)
              else if (case active self of Some idx \<Rightarrow> length (workspaces self) \<le> idx | None \<Rightarrow> False) then None
              else
                let active_id = map_option (\<lambda>idx. ws_id (workspaces self ! idx)) (active self);
                    selected_id = map_option ws_id (vec_get (workspaces self) (selected self));
                    rank = (\<lambda>ws. case map_of (rev (zip desired [0..<length desired])) (ws_id ws) of Some n \<Rightarrow> n | None \<Rightarrow> USIZE_MAX);
                    moved = sort_key rank (workspaces self);
                    find_id = (\<lambda>i. position (\<lambda>ws. ws_id ws = i) moved)
                in Some (True, self\<lparr>workspaces := moved, active := Option.bind active_id find_id,
                         selected := (case Option.bind selected_id find_id of Some i \<Rightarrow> i | None \<Rightarrow> 0)\<rparr>))"

section \<open>Closing\<close>

definition remove_pane_focus_record :: "App \<Rightarrow> PaneId list \<Rightarrow> App" where
  "remove_pane_focus_record self ids =
     (case previous_pane_focus self of
        Some (_, p) \<Rightarrow> if p \<in> set ids then self\<lparr>previous_pane_focus := None\<rparr> else self
      | None \<Rightarrow> self)"

definition workspace_close_indices :: "App \<Rightarrow> nat \<Rightarrow> nat list" where
  "workspace_close_indices self ws_idx =
     (case Option.bind (vec_get (workspaces self) ws_idx) worktree_space of
        None \<Rightarrow> [ws_idx]
      | Some space \<Rightarrow>
          if is_linked_worktree space then [ws_idx]
          else
            let indices = filter
                  (\<lambda>idx. case worktree_space (workspaces self ! idx) of
                           Some member \<Rightarrow> space_key member = space_key space | None \<Rightarrow> False)
                  [0..<length (workspaces self)]
            in if 2 \<le> length indices then indices else [ws_idx])"

definition workspace_close_would_close_worktree_group :: "App \<Rightarrow> nat \<Rightarrow> bool" where
  "workspace_close_would_close_worktree_group self ws_idx \<longleftrightarrow> 2 \<le> length (workspace_close_indices self ws_idx)"

definition confirm_implicit_worktree_group_close :: "bool \<Rightarrow> App \<Rightarrow> nat \<Rightarrow> bool" where
  "confirm_implicit_worktree_group_close confirm_close self ws_idx \<longleftrightarrow>
     confirm_close \<and> workspace_close_would_close_worktree_group self ws_idx"

definition close_pane_would_close_workspace :: "App \<Rightarrow> nat \<Rightarrow> PaneId \<Rightarrow> bool" where
  "close_pane_would_close_workspace self ws_idx p =
     (case vec_get (workspaces self) ws_idx of
        None \<Rightarrow> False
      | Some ws \<Rightarrow>
          (case find_tab_index_for_pane ws p of
             None \<Rightarrow> False
           | Some tab_idx \<Rightarrow> pane_count (tab_layout (tabs ws ! tab_idx)) \<le> 1 \<and> length (tabs ws) \<le> 1))"

definition pane_ids_for_workspace :: "App \<Rightarrow> nat \<Rightarrow> PaneId list" where
  "pane_ids_for_workspace self ws_idx =
     (case vec_get (workspaces self) ws_idx of
        None \<Rightarrow> []
      | Some ws \<Rightarrow> concat (map (\<lambda>tab. pane_ids (tab_layout tab)) (tabs ws)))"

definition close_selected_workspace :: "App \<Rightarrow> App option" where
  "close_selected_workspace self =
     (if workspaces self = [] then Some self
      else
        let indices = workspace_close_indices self (selected self);
            gone = concat (map (pane_ids_for_workspace self) indices);
            active_workspace_id = map_option ws_id (Option.bind (active self) (vec_get (workspaces self)));
            self = remove_pane_focus_record self gone
        in if list_ex (\<lambda>idx. length (workspaces self) \<le> idx) indices then None
           else
             let self = self\<lparr>workspaces := fold vec_remove (rev indices) (workspaces self)\<rparr>
             in Some (if workspaces self = [] then self\<lparr>active := None, selected := 0\<rparr>
                      else
                        let self = (case Option.bind active_workspace_id
                                           (\<lambda>i. position (\<lambda>ws. ws_id ws = i) (workspaces self)) of
                                      Some idx \<Rightarrow> self\<lparr>selected := idx\<rparr> | None \<Rightarrow> self);
                            self = (if length (workspaces self) \<le> selected self
                                    then self\<lparr>selected := length (workspaces self) - 1\<rparr> else self)
                        in self\<lparr>active := Some (selected self)\<rparr>))"

definition ws_close_pane :: "Workspace \<Rightarrow> PaneId \<Rightarrow> (bool \<times> Workspace) option" where
  "ws_close_pane self i =
     (case find_tab_index_for_pane self i of
        None \<Rightarrow> Some (False, self)
      | Some tab_idx \<Rightarrow>
          if pane_count (tab_layout (tabs self ! tab_idx)) \<le> 1 then
            (if length (tabs self) \<le> 1 then Some (True, self)
             else Some (False, after_removal (unregister_pane (self\<lparr>tabs := vec_remove tab_idx (tabs self)\<rparr>) i) tab_idx))
          else case detach_pane (tabs self ! tab_idx) i of
                 None \<Rightarrow> None
               | Some (removed, tab) \<Rightarrow>
                   (let self = self\<lparr>tabs := (tabs self)[tab_idx := tab]\<rparr>
                    in Some (False, case removed of
                                      Some (r, _) \<Rightarrow> unregister_pane self r
                                    | None \<Rightarrow> self)))"

section \<open>Handlers\<close>

definition handle_workspace_focus :: "App \<Rightarrow> string \<Rightarrow> (string + unit) \<times> App" where
  "handle_workspace_focus self i =
     (case parse_workspace_id self i of
        None \<Rightarrow> (Inl ''workspace_not_found'', self)
      | Some idx \<Rightarrow>
          if vec_get (workspaces self) idx = None then (Inl ''workspace_not_found'', self)
          else (Inr (), switch_workspace self idx))"

definition handle_workspace_rename :: "App \<Rightarrow> string \<Rightarrow> string \<Rightarrow> (string + unit) \<times> App" where
  "handle_workspace_rename self i label =
     (case Option.bind (parse_workspace_id self i) (\<lambda>idx. map_option (\<lambda>ws. (idx, ws)) (vec_get (workspaces self) idx)) of
        None \<Rightarrow> (Inl ''workspace_not_found'', self)
      | Some (idx, ws) \<Rightarrow>
          (Inr (), self\<lparr>workspaces := (workspaces self)[idx := ws_set_custom_name ws label]\<rparr>))"

definition handle_workspace_move :: "App \<Rightarrow> string \<Rightarrow> nat \<Rightarrow> ((string + unit) \<times> App) option" where
  "handle_workspace_move self i insert_index =
     (case parse_workspace_id self i of
        None \<Rightarrow> Some (Inl ''workspace_not_found'', self)
      | Some idx \<Rightarrow>
          if vec_get (workspaces self) idx = None then Some (Inl ''workspace_not_found'', self)
          else if length (workspaces self) < insert_index then Some (Inl ''workspace_move_failed'', self)
          else map_option (\<lambda>(_, self). (Inr (), self)) (move_workspace self idx insert_index))"

fun resolve_block :: "App \<Rightarrow> string list \<Rightarrow> string list \<Rightarrow> string + string list" where
  "resolve_block self seen_ids [] = Inr seen_ids"
| "resolve_block self seen_ids (requested # rest) =
     (case Option.bind (parse_workspace_id self requested) (vec_get (workspaces self)) of
        None \<Rightarrow> Inl ''workspace_not_found''
      | Some ws \<Rightarrow>
          if ws_id ws \<in> set seen_ids then Inl ''workspace_move_block_failed''
          else resolve_block self (seen_ids @ [ws_id ws]) rest)"

definition handle_workspace_move_block :: "App \<Rightarrow> string list \<Rightarrow> string option \<Rightarrow> ((string + unit) \<times> App) option" where
  "handle_workspace_move_block self requested before =
     (if requested = [] then Some (Inl ''workspace_move_block_failed'', self)
      else case resolve_block self [] requested of
             Inl e \<Rightarrow> Some (Inl e, self)
           | Inr ids \<Rightarrow>
               (case (case before of
                        None \<Rightarrow> Inr None
                      | Some i \<Rightarrow>
                          (case Option.bind (parse_workspace_id self i) (vec_get (workspaces self)) of
                             None \<Rightarrow> Inl ''workspace_not_found''
                           | Some ws \<Rightarrow> if ws_id ws \<in> set ids then Inl ''workspace_move_block_failed''
                                        else Inr (Some (ws_id ws)))) of
                  Inl e \<Rightarrow> Some (Inl e, self)
                | Inr before_id \<Rightarrow> map_option (\<lambda>(_, self). (Inr (), self)) (move_workspace_block self ids before_id)))"

definition handle_workspace_close :: "App \<Rightarrow> string \<Rightarrow> bool \<Rightarrow> ((string + unit) \<times> App) option" where
  "handle_workspace_close self i close_group =
     (case parse_workspace_id self i of
        None \<Rightarrow> Some (Inl ''workspace_not_found'', self)
      | Some idx \<Rightarrow>
          if vec_get (workspaces self) idx = None then Some (Inl ''workspace_not_found'', self)
          else if 2 \<le> length (workspace_close_indices self idx) \<and> \<not> close_group
               then Some (Inl ''workspace_group_close_required'', self)
          else map_option (\<lambda>self. (Inr (), self)) (close_selected_workspace (self\<lparr>selected := idx\<rparr>)))"

definition handle_tab_focus :: "App \<Rightarrow> string \<Rightarrow> (string + unit) \<times> App" where
  "handle_tab_focus self i =
     (case parse_tab_id self i of
        None \<Rightarrow> (Inl ''tab_not_found'', self)
      | Some (ws_idx, tab_idx) \<Rightarrow> (Inr (), snd (switch_workspace_tab self ws_idx tab_idx)))"

definition handle_tab_rename :: "App \<Rightarrow> string \<Rightarrow> string \<Rightarrow> (string + unit) \<times> App" where
  "handle_tab_rename self i label =
     (case parse_tab_id self i of
        None \<Rightarrow> (Inl ''tab_not_found'', self)
      | Some (ws_idx, tab_idx) \<Rightarrow>
          (case vec_get (workspaces self) ws_idx of
             None \<Rightarrow> (Inl ''tab_not_found'', self)
           | Some ws \<Rightarrow>
               (case vec_get (tabs ws) tab_idx of
                  None \<Rightarrow> (Inl ''tab_not_found'', self)
                | Some tab \<Rightarrow>
                    (Inr (), self\<lparr>workspaces := (workspaces self)[ws_idx :=
                       ws\<lparr>tabs := (tabs ws)[tab_idx := tab_set_custom_name tab label]\<rparr>]\<rparr>))))"

definition handle_tab_move :: "App \<Rightarrow> string \<Rightarrow> nat \<Rightarrow> (string + unit) \<times> App" where
  "handle_tab_move self i insert_index =
     (case parse_tab_id self i of
        None \<Rightarrow> (Inl ''tab_not_found'', self)
      | Some (ws_idx, tab_idx) \<Rightarrow>
          (case vec_get (workspaces self) ws_idx of
             None \<Rightarrow> (Inl ''tab_not_found'', self)
           | Some ws \<Rightarrow>
               if length (tabs ws) < insert_index then (Inl ''tab_move_failed'', self)
               else (Inr (), self\<lparr>workspaces := (workspaces self)[ws_idx := snd (move_tab ws tab_idx insert_index)]\<rparr>)))"

definition handle_tab_close :: "bool \<Rightarrow> App \<Rightarrow> string \<Rightarrow> ((string + unit) \<times> App) option" where
  "handle_tab_close confirm_close self i =
     (case parse_tab_id self i of
        None \<Rightarrow> Some (Inl ''tab_not_found'', self)
      | Some (ws_idx, tab_idx) \<Rightarrow>
          if public_tab_id self ws_idx tab_idx = None then Some (Inl ''tab_not_found'', self)
          else
          (case vec_get (workspaces self) ws_idx of
             None \<Rightarrow> Some (Inl ''tab_not_found'', self)
           | Some ws \<Rightarrow>
               let ids = (case vec_get (tabs ws) tab_idx of Some tab \<Rightarrow> pane_ids (tab_layout tab) | None \<Rightarrow> [])
               in if length (tabs ws) \<le> 1 then
                    (if confirm_implicit_worktree_group_close confirm_close self ws_idx
                     then Some (Inl ''confirmation_required'', self)
                     else map_option (\<lambda>self. (Inr (), remove_pane_focus_record self ids))
                            (close_selected_workspace (self\<lparr>selected := ws_idx\<rparr>)))
                  else
                    let (ok, ws) = close_tab ws tab_idx;
                        self = self\<lparr>workspaces := (workspaces self)[ws_idx := ws]\<rparr>
                    in if ok then Some (Inr (), remove_pane_focus_record self ids)
                       else Some (Inl ''tab_close_failed'', self)))"

definition close_pane_target :: "bool \<Rightarrow> App \<Rightarrow> string \<Rightarrow> ((string + unit) \<times> App) option" where
  "close_pane_target confirm_close self i =
     (case parse_pane_id self i of
        None \<Rightarrow> Some (Inl ''pane_not_found'', self)
      | Some (ws_idx, p) \<Rightarrow>
          if public_pane_id self ws_idx p = None then Some (Inl ''pane_not_found'', self)
          else if close_pane_would_close_workspace self ws_idx p \<and>
                  confirm_implicit_worktree_group_close confirm_close self ws_idx
          then Some (Inl ''confirmation_required'', self)
          else
            case vec_get (workspaces self) ws_idx of
              None \<Rightarrow> Some (Inl ''pane_not_found'', self)
            | Some ws \<Rightarrow>
                (case ws_close_pane ws p of
                   None \<Rightarrow> None
                 | Some (should_close, ws) \<Rightarrow>
                     let self = remove_pane_focus_record (self\<lparr>workspaces := (workspaces self)[ws_idx := ws]\<rparr>) [p]
                     in if should_close
                        then map_option (\<lambda>self. (Inr (), self)) (close_selected_workspace (self\<lparr>selected := ws_idx\<rparr>))
                        else Some (Inr (), self)))"

section \<open>Creation\<close>

definition create_workspace_with_launch_env ::
    "'rt spawner \<Rightarrow> nat \<Rightarrow> Globals \<Rightarrow> App \<Rightarrow> string \<Rightarrow> bool \<Rightarrow> (string \<times> string) list \<Rightarrow> (string + nat) \<times> App \<times> Globals" where
  "create_workspace_with_launch_env spawn micros g self initial_cwd focus env =
     (case new_with_tab spawn micros g initial_cwd None env of
        (Inl e, g) \<Rightarrow> (Inl e, self, g)
      | (Inr (ws, _, _), g) \<Rightarrow>
          (let self = self\<lparr>workspaces := workspaces self @ [ws]\<rparr>;
               idx = length (workspaces self) - 1;
               self = remove_alias_shadowed_by_new_pane self (root_pane (tabs (workspaces self ! idx) ! 0));
               self = (if focus \<or> active self = None then (switch_workspace self idx)\<lparr>terminal_mode := True\<rparr> else self)
           in (Inr idx, self, g)))"

text \<open>\<open>cwd\<close> and \<open>env\<close> are those the request or the defaults give.\<close>

definition handle_tab_create ::
    "'rt spawner \<Rightarrow> nat \<Rightarrow> Globals \<Rightarrow> App \<Rightarrow> string option \<Rightarrow> string \<Rightarrow> bool \<Rightarrow> string option \<Rightarrow> (string \<times> string) list \<Rightarrow>
     ((string + nat \<times> nat) \<times> App \<times> Globals) option" where
  "handle_tab_create spawn micros g self workspace_id cwd focus label env =
     (case (case workspace_id of Some i \<Rightarrow> parse_workspace_id self i | None \<Rightarrow> active self) of
        None \<Rightarrow> Some (Inl ''workspace_not_found'', self, g)
      | Some ws_idx \<Rightarrow>
          (case vec_get (workspaces self) ws_idx of
             None \<Rightarrow> Some (Inl ''tab_create_failed'', self, g)
           | Some ws \<Rightarrow>
               (case create_tab_with_runtime spawn micros g ws cwd None env of
                  None \<Rightarrow> None
                | Some (r, ws, g) \<Rightarrow>
                    (let self = self\<lparr>workspaces := (workspaces self)[ws_idx := ws]\<rparr>
                     in case r of
                          Inl e \<Rightarrow> Some (Inl ''tab_create_failed'', self, g)
                        | Inr (tab_idx, _, _) \<Rightarrow>
                            (let tab = tabs ws ! tab_idx;
                                 self = remove_alias_shadowed_by_new_pane self (root_pane tab);
                                 named = (case label of Some l \<Rightarrow> tab_set_custom_name tab l | None \<Rightarrow> tab);
                                 self = self\<lparr>workspaces := (workspaces self)[ws_idx := ws\<lparr>tabs := (tabs ws)[tab_idx := named]\<rparr>]\<rparr>;
                                 self = (if focus
                                         then (snd (switch_workspace_tab self ws_idx tab_idx))\<lparr>terminal_mode := True\<rparr>
                                         else self)
                             in Some (Inr (ws_idx, tab_idx), self, g))))))"

lemma ws_close_pane_is_remove: "ws_close_pane = ws_remove_pane"
  by (simp add: ws_close_pane_def ws_remove_pane_def fun_eq_iff)

section \<open>What a step does to the server\<close>

lemma app_inv_parts:
  assumes "app_inv (g, app)"
  shows "spaces_ok (next_pane_id g) (next_workspace_id g) (workspaces app)"
    "\<And>i p. (i, p) \<in> set (public_pane_id_aliases app) \<Longrightarrow> retired (next_workspace_id g) (workspaces app) i"
    "index_ok (active app) (selected app) (workspaces app)" "0 < next_workspace_id g"
  using assms by (auto simp: app_inv_def)

lemma app_invI:
  assumes "spaces_ok (next_pane_id g) (next_workspace_id g) (workspaces app)" "0 < next_workspace_id g"
    "\<And>i p. (i, p) \<in> set (public_pane_id_aliases app) \<Longrightarrow> retired (next_workspace_id g) (workspaces app) i"
    "index_ok (active app) (selected app) (workspaces app)"
  shows "app_inv (g, app)"
  using assms by (auto simp: app_inv_def)

text \<open>A workspace that changes under rules of its own, with panes new to the server.\<close>

lemma app_update:
  assumes inv: "app_inv (g, app)" and k: "k < length (workspaces app)"
    and w': "ws_inv (next_pane_id g') w'" "ws_grows (workspaces app ! k) w'"
    and ids: "\<forall>p \<in> set (ws_ids w'). p \<in> set (ws_ids (workspaces app ! k)) \<or> next_pane_id g \<le> raw p"
    and g': "next_pane_id g \<le> next_pane_id g'" "next_workspace_id g \<le> next_workspace_id g'"
  shows "app_inv (g', app\<lparr>workspaces := (workspaces app)[k := w']\<rparr>)"
proof (rule app_invI)
  let ?W = "workspaces app"
  note parts = app_inv_parts [OF inv]
  have ok: "spaces_ok (next_pane_id g') (next_workspace_id g') ?W" by (rule spaces_ok_mono [OF parts(1) g'])
  have id: "ws_id w' = ws_id (?W ! k)" using w'(2) by (simp add: ws_grows_def)
  have raw: "raw p < next_pane_id g" if p: "p \<in> set (concat (map ws_ids ?W))" for p
  proof -
    obtain j where j: "j < length ?W" "p \<in> set (ws_ids (?W ! j))" using p all_panes_nth by blast
    then have "ws_core (next_pane_id g) {} (?W ! j)" using spaces_nth [OF parts(1) j(1)] by (simp add: ws_inv_def)
    from ws_core_raw [OF this] j(2) show ?thesis by blast
  qed
  have "set (ws_ids w') \<inter> (set (concat (map ws_ids ?W)) - set (ws_ids (?W ! k))) = {}"
    using ids raw by (auto dest: leD)
  moreover have "distinct (concat (map ws_ids ?W))" using ok by (simp add: spaces_ok_def)
  ultimately have d: "distinct (concat (map ws_ids (?W[k := w'])))"
    using distinct_concat_update(1) [of ws_ids ?W k w'] k ws_inv_distinct [OF w'(1)] by blast
  have "ws_inv (next_pane_id g') (?W[k := w'] ! j)" if "j < length ?W" for j
    using spaces_nth [OF ok that] w'(1) that by (cases "j = k") auto
  then have "list_all (ws_inv (next_pane_id g')) (?W[k := w'])" by (simp add: list_all_length)
  moreover have "distinct (map ws_id (?W[k := w']))" using ok unfolding map_id_update [OF id] spaces_ok_def by blast
  moreover have "list_all (\<lambda>w. id_ok (next_workspace_id g') (ws_id w)) (?W[k := w'])"
    by (rule ids_ok_update [OF _ id k]) (use ok in \<open>simp add: spaces_ok_def\<close>)
  ultimately have "spaces_ok (next_pane_id g') (next_workspace_id g') (?W[k := w'])"
    using d by (simp only: spaces_ok_def simp_thms)
  then show "spaces_ok (next_pane_id g') (next_workspace_id g') (workspaces (app\<lparr>workspaces := ?W[k := w']\<rparr>))" by simp
  show "0 < next_workspace_id g'" using parts(4) g'(2) by (rule less_le_trans)
  show "retired (next_workspace_id g') (workspaces (app\<lparr>workspaces := ?W[k := w']\<rparr>)) i"
    if "(i, p) \<in> set (public_pane_id_aliases (app\<lparr>workspaces := ?W[k := w']\<rparr>))" for i p
    using retired_update [OF retired_mono [OF parts(2) g'(2)] k w'(2), of i p] that by simp
  show "index_ok (active (app\<lparr>workspaces := ?W[k := w']\<rparr>)) (selected (app\<lparr>workspaces := ?W[k := w']\<rparr>))
      (workspaces (app\<lparr>workspaces := ?W[k := w']\<rparr>))"
    using parts(3) by (auto simp: index_ok_def split: option.splits)
qed

lemma app_own:
  assumes "app_inv (g, app)" "k < length (workspaces app)" "ws_own (g, workspaces app ! k) (g', w')"
  shows "app_inv (g', app\<lparr>workspaces := (workspaces app)[k := w']\<rparr>)"
proof -
  have "ws_inv (next_pane_id g) (workspaces app ! k)"
    using spaces_nth [OF app_inv_parts(1) [OF assms(1)] assms(2)] by simp
  from ws_own_safe [OF assms(3) refl refl this] app_update [OF assms(1,2)] show ?thesis by blast
qed

text \<open>Fields the invariant does not look at, and the two it looks at only for their range.\<close>

lemma app_inv_cong:
  "workspaces app' = workspaces app \<Longrightarrow> public_pane_id_aliases app' = public_pane_id_aliases app \<Longrightarrow>
     active app' = active app \<Longrightarrow> selected app' = selected app \<Longrightarrow> app_inv (g, app) \<Longrightarrow> app_inv (g, app')"
  by (simp add: app_inv_def)

lemma record_focus_simps [simp]:
  "workspaces (record_pane_focus_after_navigation app q) = workspaces app"
  "public_pane_id_aliases (record_pane_focus_after_navigation app q) = public_pane_id_aliases app"
  "active (record_pane_focus_after_navigation app q) = active app"
  "selected (record_pane_focus_after_navigation app q) = selected app"
  by (simp_all add: record_pane_focus_after_navigation_def)

lemma remove_focus_simps [simp]:
  "workspaces (remove_pane_focus_record app ids) = workspaces app"
  "public_pane_id_aliases (remove_pane_focus_record app ids) = public_pane_id_aliases app"
  "active (remove_pane_focus_record app ids) = active app"
  "selected (remove_pane_focus_record app ids) = selected app"
  by (simp_all add: remove_pane_focus_record_def split: option.splits)

lemma shadowed_simps [simp]:
  "workspaces (remove_alias_shadowed_by_new_pane app p) = workspaces app"
  "public_pane_id_aliases (remove_alias_shadowed_by_new_pane app p) = public_pane_id_aliases app"
  "active (remove_alias_shadowed_by_new_pane app p) = active app"
  "selected (remove_alias_shadowed_by_new_pane app p) = selected app"
  by (simp_all add: remove_alias_shadowed_by_new_pane_def)

lemma switch_workspace_inv: "app_inv (g, app) \<Longrightarrow> app_inv (g, switch_workspace app k)"
proof (cases "k < length (workspaces app)")
  case True
  assume inv: "app_inv (g, app)"
  have "app_inv (g, app\<lparr>workspaces := (workspaces app)[k := switch_tab (workspaces app ! k) (ws_active (workspaces app ! k))]\<rparr>)"
    by (rule app_own [OF inv True]) (rule ws_switch)
  with True show ?thesis by (auto simp: switch_workspace_def Let_def app_inv_def index_ok_def)
qed (simp add: switch_workspace_def)

lemma switch_workspace_tab_inv: "app_inv (g, app) \<Longrightarrow> app_inv (g, snd (switch_workspace_tab app k j))"
proof (cases "tab_exists app k j = None")
  case True
  assume "app_inv (g, app)"
  with True show ?thesis by (simp add: switch_workspace_tab_def)
next
  case False
  assume inv: "app_inv (g, app)"
  have k: "k < length (workspaces app)" using False by (auto simp: tab_exists_def bind_eq_Some_conv)
  have "app_inv (g, app\<lparr>workspaces := (workspaces app)[k := switch_tab (workspaces app ! k) j]\<rparr>)"
    by (rule app_own [OF inv k]) (rule ws_switch)
  with False k show ?thesis by (auto simp: switch_workspace_tab_def Let_def app_inv_def index_ok_def)
qed

text \<open>A tab that is replaced by one with the same panes, number and registered ids.\<close>

lemma ws_same_tab:
  assumes w: "ws_inv n w" and j: "j < length (tabs w)" and t: "tab_inv n t" "tab_ids t = tab_ids (tabs w ! j)"
      "number t = number (tabs w ! j)"
  shows "ws_inv n (w\<lparr>tabs := (tabs w)[j := t]\<rparr>) \<and> ws_grows w (w\<lparr>tabs := (tabs w)[j := t]\<rparr>) \<and>
    ws_ids (w\<lparr>tabs := (tabs w)[j := t]\<rparr>) = ws_ids w"
proof -
  have core: "ws_core n {} w" using w by (simp add: ws_inv_def)
  have "set (tab_ids t) \<inter> (set (ws_ids w) - set (tab_ids (tabs w ! j))) = {}" by (simp add: t)
  note r = core_replace [OF core j t(1) order_refl t(3) this]
  have "map tab_ids ((tabs w)[j := t]) = map tab_ids (tabs w)" by (simp add: map_update t(2) list_update_same_conv j)
  then have c: "concat (map tab_ids ((tabs w)[j := t])) = ws_ids w" by (simp only: ws_ids_def)
  have "tabs (w\<lparr>tabs := ts\<rparr>) = ts" for ts by simp
  then have ids: "ws_ids (w\<lparr>tabs := (tabs w)[j := t]\<rparr>) = ws_ids w"
    by (simp only: ws_ids_def [of "w\<lparr>tabs := (tabs w)[j := t]\<rparr>"] c)
  show ?thesis
    using w core r j ids c by (auto simp: ws_inv_def ws_core_def ws_grows_def)
qed

lemma app_same_tab:
  assumes inv: "app_inv (g, app)" and k: "k < length (workspaces app)" and j: "j < length (tabs (workspaces app ! k))"
    and t: "tab_inv (next_pane_id g) t" "tab_ids t = tab_ids (tabs (workspaces app ! k) ! j)"
      "number t = number (tabs (workspaces app ! k) ! j)"
  shows "app_inv (g, app\<lparr>workspaces := (workspaces app)[k := (workspaces app ! k)\<lparr>tabs := (tabs (workspaces app ! k))[j := t]\<rparr>]\<rparr>)"
proof -
  have "ws_inv (next_pane_id g) (workspaces app ! k)" using spaces_nth [OF app_inv_parts(1) [OF inv] k] by simp
  note w = ws_same_tab [OF this j t]
  show ?thesis by (rule app_update [OF inv k]) (use w in auto)
qed

lemma focus_pane_ids: "pane_ids (focus_pane l p) = pane_ids l"
  by (simp add: focus_pane_def set_focus_def pane_ids_eq)

lemma focus_tab_inv: "tab_inv n tab \<Longrightarrow> tab_inv n (tab\<lparr>tab_layout := focus_pane (tab_layout tab) p\<rparr>)"
  using set_focus_inv [of n "tab_layout tab"]
  by (simp add: tab_inv_def tab_ids_def focus_pane_ids) (auto simp: focus_pane_def tab_ids_def)

lemma focus_pane_in_workspace_inv:
  assumes "app_inv (g, app)" shows "app_inv (g, snd (focus_pane_in_workspace app k p))"
proof (cases "k < length (workspaces app)")
  case False
  with assms show ?thesis by (simp add: focus_pane_in_workspace_def vec_get_def)
next
  case k: True
  show ?thesis
  proof (cases "find_tab_index_for_pane (workspaces app ! k) p")
    case None
    with k assms show ?thesis by (simp add: focus_pane_in_workspace_def vec_get_def)
  next
    case tab: (Some j)
    let ?app = "snd (switch_workspace_tab app k j)"
    have inv: "app_inv (g, ?app)" by (rule switch_workspace_tab_inv [OF assms])
    have go: "app_inv (g, ?app\<lparr>workspaces := (workspaces ?app)[k := (workspaces ?app ! k)\<lparr>tabs :=
        (tabs (workspaces ?app ! k))[j := (tabs (workspaces ?app ! k) ! j)\<lparr>tab_layout :=
          focus_pane (tab_layout (tabs (workspaces ?app ! k) ! j)) p\<rparr>]\<rparr>], previous_pane_focus := q\<rparr>)"
      if kj: "k < length (workspaces ?app)" "j < length (tabs (workspaces ?app ! k))" for q
    proof -
      have "ws_core (next_pane_id g) {} (workspaces ?app ! k)"
        using spaces_nth [OF app_inv_parts(1) [OF inv] kj(1)] by (simp add: ws_inv_def)
      from ws_core_tab [OF this nth_mem [OF kj(2)]]
      have "tab_inv (next_pane_id g) (tabs (workspaces ?app ! k) ! j)" .
      from app_same_tab [OF inv kj focus_tab_inv [OF this]] show ?thesis
        by (rule app_inv_cong [rotated -1]) (simp_all add: tab_ids_def focus_pane_ids)
    qed
    with inv k tab assms show ?thesis
      by (simp add: focus_pane_in_workspace_def Let_def vec_get_def)
  qed
qed

lemma mark_seen_inv: "app_inv (g, app) \<Longrightarrow> app_inv (g, snd (mark_active_tab_seen app))"
proof -
  assume inv: "app_inv (g, app)"
  have "app_inv (g, app\<lparr>workspaces := (workspaces app)[k := (workspaces app ! k)\<lparr>tabs := (tabs (workspaces app ! k))
      [ws_active (workspaces app ! k) := see_panes tab]\<rparr>]\<rparr>)"
    if k: "k < length (workspaces app)" and tab: "active_tab (workspaces app ! k) = Some tab" for k tab
  proof -
    have j: "ws_active (workspaces app ! k) < length (tabs (workspaces app ! k))"
      "tab = tabs (workspaces app ! k) ! ws_active (workspaces app ! k)" using tab by (simp_all add: active_tab_def)
    have "ws_core (next_pane_id g) {} (workspaces app ! k)"
      using spaces_nth [OF app_inv_parts(1) [OF inv] k] by (simp add: ws_inv_def)
    from ws_core_tab [OF this nth_mem [OF j(1)]] have "tab_inv (next_pane_id g) tab" by (simp add: j(2))
    from see_panes_inv [OF this] app_same_tab [OF inv k j(1)] show ?thesis by (simp add: j(2))
  qed
  with inv show ?thesis
    by (auto simp: mark_active_tab_seen_def bind_eq_Some_conv split: option.splits)
qed

lemma zoom_inv:
  assumes "app_inv (g, app)" shows "app_inv (g, snd (apply_pane_zoom app k p command))"
proof -
  let ?app = "snd (focus_pane_in_workspace app k p)"
  have inv: "app_inv (g, ?app)" by (rule focus_pane_in_workspace_inv [OF assms])
  have go: "app_inv (g, ?app\<lparr>workspaces := (workspaces ?app)[k := (workspaces ?app ! k)\<lparr>tabs :=
      (tabs (workspaces ?app ! k))[j := (tabs (workspaces ?app ! k) ! j)\<lparr>zoomed := z\<rparr>]\<rparr>]\<rparr>)"
    if kj: "k < length (workspaces ?app)" "j < length (tabs (workspaces ?app ! k))" for j z
  proof -
    have "ws_core (next_pane_id g) {} (workspaces ?app ! k)"
      using spaces_nth [OF app_inv_parts(1) [OF inv] kj(1)] by (simp add: ws_inv_def)
    from ws_core_tab [OF this nth_mem [OF kj(2)]]
    have "tab_inv (next_pane_id g) ((tabs (workspaces ?app ! k) ! j)\<lparr>zoomed := z\<rparr>)" by (simp add: tab_inv_def tab_ids_def)
    from app_same_tab [OF inv kj this] show ?thesis by (simp add: tab_ids_def)
  qed
  show ?thesis
    using assms inv go
    by (auto simp: apply_pane_zoom_def Let_def case_prod_beta split: option.splits)
qed

section \<open>Order\<close>

lemma position_id:
  assumes "distinct (map ws_id wss)" "w \<in> set wss"
  shows "\<exists>i. position (\<lambda>ws. ws_id ws = ws_id w) wss = Some i \<and> i < length wss \<and> wss ! i = w"
proof -
  obtain i where i: "position (\<lambda>ws. ws_id ws = ws_id w) wss = Some i"
    using position_exists [OF assms(2), of "\<lambda>ws. ws_id ws = ws_id w"] by auto
  from position_Some [OF this] have "i < length wss" "ws_id (wss ! i) = ws_id w" by auto
  moreover from this have "wss ! i = w"
    using inj_onD [OF distinct_map [THEN iffD1, THEN conjunct2, OF assms(1)], of "wss ! i" w] assms(2) by simp
  ultimately show ?thesis using i by blast
qed

lemma spaces_perm: "mset us = mset wss \<Longrightarrow> spaces_ok n c wss \<Longrightarrow> spaces_ok n c us"
proof -
  assume p: "mset us = mset wss" and ok: "spaces_ok n c wss"
  have "mset (map ws_id us) = mset (map ws_id wss)" using p by simp
  then have "distinct (map ws_id us) = distinct (map ws_id wss)" by (rule mset_eq_imp_distinct_iff)
  moreover have "distinct (concat (map ws_ids us)) = distinct (concat (map ws_ids wss))"
    by (rule mset_eq_imp_distinct_iff [OF concat_perm [OF p]])
  ultimately show ?thesis
    using ok mset_eq_setD [OF p] unfolding spaces_ok_def list_all_iff by argo
qed

lemma retired_set: "set us = set wss \<Longrightarrow> retired c us i = retired c wss i"
  by (simp add: retired_def)

text \<open>What both reorderings do with the active and the selected workspace.\<close>

lemma reorder:
  assumes inv: "app_inv (g, app)" and p: "mset us = mset (workspaces app)"
    and a: "a = Option.bind (map_option (\<lambda>k. ws_id (workspaces app ! k)) (active app)) (\<lambda>i. position (\<lambda>ws. ws_id ws = i) us)"
    and s: "s = (case Option.bind (map_option ws_id (vec_get (workspaces app) (selected app)))
      (\<lambda>i. position (\<lambda>ws. ws_id ws = i) us) of Some i \<Rightarrow> i | None \<Rightarrow> 0)"
    and ne: "workspaces app \<noteq> []"
  shows "app_inv (g, app\<lparr>workspaces := us, active := a, selected := s\<rparr>)"
    "map_option ((!) us) a = map_option ((!) (workspaces app)) (active app)" "us ! s = workspaces app ! selected app"
proof -
  let ?W = "workspaces app"
  note parts = app_inv_parts [OF inv]
  have ok: "spaces_ok (next_pane_id g) (next_workspace_id g) us" by (rule spaces_perm [OF p parts(1)])
  then have d: "distinct (map ws_id us)" by (simp add: spaces_ok_def)
  have sets: "set us = set ?W" using p by (rule mset_eq_setD)
  have find: "\<exists>i. position (\<lambda>ws. ws_id ws = ws_id (?W ! k)) us = Some i \<and> i < length us \<and> us ! i = ?W ! k"
    if "k < length ?W" for k using position_id [OF d, of "?W ! k"] that sets by simp
  have sel: "selected app < length ?W" using parts(3) ne by (auto simp: index_ok_def)
  from find [OF this] have s': "s < length us \<and> us ! s = ?W ! selected app" using sel by (auto simp: s vec_get_def)
  have a': "case active app of None \<Rightarrow> a = None | Some k \<Rightarrow> \<exists>i. a = Some i \<and> i < length us \<and> us ! i = ?W ! k"
    using parts(3) find by (auto simp: a index_ok_def split: option.splits)
  show "us ! s = ?W ! selected app" using s' by simp
  show "map_option ((!) us) a = map_option ((!) ?W) (active app)" using a' by (auto split: option.splits)
  show "app_inv (g, app\<lparr>workspaces := us, active := a, selected := s\<rparr>)"
  proof (rule app_invI)
    show "index_ok (active (app\<lparr>workspaces := us, active := a, selected := s\<rparr>))
        (selected (app\<lparr>workspaces := us, active := a, selected := s\<rparr>)) (workspaces (app\<lparr>workspaces := us, active := a, selected := s\<rparr>))"
      using s' a' by (auto simp: index_ok_def split: option.splits)
  qed (use ok parts(2,4) retired_set [OF sets] in auto)
qed

lemma move_workspace_inv:
  assumes inv: "app_inv (g, app)"
  shows "\<exists>ok app'. move_workspace app source insert_idx = Some (ok, app') \<and> app_inv (g, app')"
proof (cases "length (workspaces app) \<le> source \<or> length (workspaces app) < insert_idx \<or>
    source = (if source < insert_idx then insert_idx - 1 else insert_idx)")
  case True
  with inv show ?thesis by (auto simp: move_workspace_def Let_def)
next
  case False
  let ?us = "vec_insert (if source < insert_idx then insert_idx - 1 else insert_idx) (workspaces app ! source)
    (vec_remove source (workspaces app))"
  have perm: "mset ?us = mset (workspaces app)" using mset_vec_remove [of source "workspaces app"] False by simp
  have ne: "workspaces app \<noteq> []" using False by auto
  note r = reorder(1) [OF inv perm refl refl ne]
  have "\<not> (case active app of Some idx \<Rightarrow> length (workspaces app) \<le> idx | None \<Rightarrow> False)"
    using app_inv_parts(3) [OF inv] by (auto simp: index_ok_def split: option.splits)
  with False r show ?thesis by (auto simp: move_workspace_def Let_def)
qed

text \<open>The order that \<open>sort_by_key\<close> makes of the positions wanted is the order wanted.\<close>

lemma map_of_positions:
  assumes "distinct ds" "j < length ds"
  shows "map_of (rev (zip ds [0..<length ds])) (ds ! j) = Some j"
proof -
  have "(ds ! j, j) \<in> set (rev (zip ds [0..<length ds]))" using assms(2) by (auto simp: in_set_zip)
  moreover have "distinct (map fst (rev (zip ds [0..<length ds])))" using assms(1) by (simp add: rev_map [symmetric])
  ultimately show ?thesis by simp
qed

lemma sort_to_order:
  assumes d: "distinct ds" and p: "mset (map f xs) = mset ds"
    and r: "r = (\<lambda>x. case map_of (rev (zip ds [0..<length ds])) (f x) of Some n \<Rightarrow> n | None \<Rightarrow> m)"
  shows "map f (sort_key r xs) = ds"
proof -
  have rank: "\<exists>j < length ds. f x = ds ! j \<and> r x = j" if "x \<in> set xs" for x
  proof -
    have "f x \<in> set ds" using that mset_eq_setD [OF p] by auto
    then obtain j where "j < length ds" "f x = ds ! j" by (auto simp: in_set_conv_nth)
    with map_of_positions [OF d] show ?thesis by (auto simp: r)
  qed
  let ?h = "\<lambda>i. case map_of (rev (zip ds [0..<length ds])) i of Some n \<Rightarrow> n | None \<Rightarrow> m"
  have "map ?h ds = [0..<length ds]"
    by (rule nth_equalityI) (simp_all add: map_of_positions [OF d])
  moreover have "mset (map r xs) = image_mset ?h (mset (map f xs))" by (simp add: r multiset.map_comp comp_def)
  ultimately have "mset (map r xs) = mset [0..<length ds]" by (metis mset_map p)
  then have "mset (map r (sort_key r xs)) = mset [0..<length ds]" by simp
  moreover have "sorted (map r (sort_key r xs))" by (rule sorted_sort_key)
  ultimately have ranks: "map r (sort_key r xs) = [0..<length ds]"
    by (metis properties_for_sort sorted_upt sort_upt)
  have len: "length (sort_key r xs) = length ds" using arg_cong [OF ranks, of length] by simp
  show ?thesis
  proof (rule nth_equalityI)
    fix j assume j: "j < length (map f (sort_key r xs))"
    let ?x = "sort_key r xs ! j"
    have "?x \<in> set xs" using j nth_mem [of j "sort_key r xs"] by simp
    from rank [OF this] obtain i where "f ?x = ds ! i" "r ?x = i" by blast
    moreover have "r ?x = j" using arg_cong [OF ranks, of "\<lambda>l. l ! j"] j len by simp
    ultimately show "map f (sort_key r xs) ! j = ds ! j" using j by simp
  qed (use len in simp)
qed

text \<open>The order a request to move the workspaces \<open>ids\<close> before \<open>before\<close> asks for.\<close>

definition wanted_order :: "string list \<Rightarrow> string option \<Rightarrow> string list \<Rightarrow> string list" where
  "wanted_order ids before all =
     (let rest = filter (\<lambda>i. i \<notin> set ids) all
      in case before of None \<Rightarrow> rest @ ids
         | Some b \<Rightarrow> takeWhile (\<lambda>i. i \<noteq> b) rest @ ids @ dropWhile (\<lambda>i. i \<noteq> b) rest)"

lemma position_split: "position (\<lambda>x. x = b) xs = Some k \<Longrightarrow> take k xs = takeWhile (\<lambda>x. x \<noteq> b) xs \<and> drop k xs = dropWhile (\<lambda>x. x \<noteq> b) xs"
  by (induction xs arbitrary: k) (auto split: if_splits)

lemma wanted_mset: "distinct ids \<Longrightarrow> set ids \<subseteq> set all \<Longrightarrow> distinct all \<Longrightarrow> mset (wanted_order ids before all) = mset all"
proof -
  assume a: "distinct ids" "set ids \<subseteq> set all" "distinct all"
  let ?rest = "filter (\<lambda>i. i \<notin> set ids) all"
  have "mset (wanted_order ids before all) = mset (?rest @ ids)"
  proof (cases before)
    case (Some b)
    have "mset ?rest = mset (takeWhile (\<lambda>i. i \<noteq> b) ?rest @ dropWhile (\<lambda>i. i \<noteq> b) ?rest)" by simp
    with Some show ?thesis by (simp add: wanted_order_def Let_def del: takeWhile_dropWhile_id)
  qed (simp add: wanted_order_def)
  moreover have "distinct (?rest @ ids)" "set (?rest @ ids) = set all" using a by auto
  then have "mset (?rest @ ids) = mset all" using a(3) by (simp only: set_eq_iff_mset_eq_distinct)
  ultimately show ?thesis by simp
qed

lemma before_index:
  assumes "before = None \<or> (\<exists>b. before = Some b \<and> b \<in> set rest)"
    and k: "k = (case Option.bind before (\<lambda>i. position (\<lambda>x. x = i) rest) of Some idx \<Rightarrow> idx | None \<Rightarrow> length rest)"
  shows "take k rest @ ids @ drop k rest =
    (case before of None \<Rightarrow> rest @ ids | Some b \<Rightarrow> takeWhile (\<lambda>i. i \<noteq> b) rest @ ids @ dropWhile (\<lambda>i. i \<noteq> b) rest)"
proof (cases before)
  case (Some b)
  with assms(1) obtain j where "position (\<lambda>x. x = b) rest = Some j" using position_exists [of b rest "\<lambda>x. x = b"] by auto
  with Some k position_split [OF this] show ?thesis by simp
qed (simp add: k)

text \<open>What moving a block of workspaces does.\<close>

lemma move_block:
  assumes inv: "app_inv (g, app)"
  shows "case move_workspace_block app ids before of None \<Rightarrow> False | Some (ok, app') \<Rightarrow>
    (let all = map ws_id (workspaces app)
     in (ok \<longleftrightarrow> ids \<noteq> [] \<and> distinct ids \<and> set ids \<subseteq> set all \<and>
           (case before of None \<Rightarrow> True | Some b \<Rightarrow> b \<in> set all - set ids) \<and> wanted_order ids before all \<noteq> all) \<and>
        (if ok then
           map ws_id (workspaces app') = wanted_order ids before all \<and> mset (workspaces app') = mset (workspaces app) \<and>
           map_option ((!) (workspaces app')) (active app') = map_option ((!) (workspaces app)) (active app) \<and>
           workspaces app' ! selected app' = workspaces app ! selected app
         else app' = app)) \<and> app_inv (g, app')"
proof -
  let ?W = "workspaces app" and ?all = "map ws_id (workspaces app)"
  define ok where "ok \<longleftrightarrow> ids \<noteq> [] \<and> distinct ids \<and> set ids \<subseteq> set ?all \<and>
    (case before of None \<Rightarrow> True | Some b \<Rightarrow> b \<in> set ?all - set ids)"
  have present: "list_ex (\<lambda>ws. ws_id ws = i) ?W \<longleftrightarrow> i \<in> set ?all" for i by (auto simp: list_ex_iff)
  have guard: "(ids = [] \<or> \<not> distinct ids \<or> \<not> list_all (\<lambda>i. list_ex (\<lambda>ws. ws_id ws = i) ?W) ids \<or>
      (case before of Some i \<Rightarrow> i \<in> set ids \<or> \<not> list_ex (\<lambda>ws. ws_id ws = i) ?W | None \<Rightarrow> False)) \<longleftrightarrow> \<not> ok"
    unfolding present ok_def by (auto simp: list_all_iff split: option.splits)
  define rest where "rest = map ws_id (filter (\<lambda>ws. ws_id ws \<notin> set ids) ?W)"
  have rest: "rest = filter (\<lambda>i. i \<notin> set ids) ?all" by (simp add: rest_def filter_map comp_def)
  define k where "k = (case Option.bind before (\<lambda>i. position (\<lambda>x. x = i) rest) of Some idx \<Rightarrow> idx | None \<Rightarrow> length rest)"
  have d: "distinct ?all" using app_inv_parts(1) [OF inv] by (simp add: spaces_ok_def)
  show ?thesis
  proof (cases "ok \<and> wanted_order ids before ?all \<noteq> ?all")
    case False
    have "ok \<Longrightarrow> take k rest @ ids @ drop k rest = wanted_order ids before ?all"
      using before_index [OF _ k_def, of ids] by (auto simp: ok_def wanted_order_def rest Let_def split: option.splits)
    with False have "\<not> ok \<or> ?all = take k rest @ ids @ drop k rest" by auto
    then have "move_workspace_block app ids before = Some (False, app)"
      unfolding move_workspace_block_def Let_def guard rest_def [symmetric] k_def [symmetric] by auto
    with False inv show ?thesis by (auto simp: ok_def Let_def)
  next
    case True
    let ?want = "wanted_order ids before ?all"
    have want: "take k rest @ ids @ drop k rest = ?want"
      using True before_index [OF _ k_def, of ids] by (auto simp: ok_def wanted_order_def rest Let_def split: option.splits)
    have m: "mset ?want = mset ?all" by (rule wanted_mset) (use True d in \<open>auto simp: ok_def\<close>)
    then have dw: "distinct ?want" using d mset_eq_imp_distinct_iff by blast
    define r where "r = (\<lambda>ws :: Workspace. case map_of (rev (zip ?want [0..<length ?want])) (ws_id ws) of Some n \<Rightarrow> n | None \<Rightarrow> USIZE_MAX)"
    have order: "map ws_id (sort_key r ?W) = ?want" by (rule sort_to_order [OF dw m [symmetric] r_def])
    have ne: "?W \<noteq> []" using True by (auto simp: ok_def)
    have "mset (sort_key r ?W) = mset ?W" by simp
    note re = reorder [OF inv this refl refl ne]
    have act: "\<not> (case active app of Some idx \<Rightarrow> length ?W \<le> idx | None \<Rightarrow> False)"
      using app_inv_parts(3) [OF inv] by (auto simp: index_ok_def split: option.splits)
    have "?all \<noteq> ?want" using True by metis
    then have "move_workspace_block app ids before = Some (True, app\<lparr>workspaces := sort_key r ?W,
        active := Option.bind (map_option (\<lambda>k. ws_id (?W ! k)) (active app)) (\<lambda>i. position (\<lambda>ws. ws_id ws = i) (sort_key r ?W)),
        selected := (case Option.bind (map_option ws_id (vec_get ?W (selected app)))
          (\<lambda>i. position (\<lambda>ws. ws_id ws = i) (sort_key r ?W)) of Some i \<Rightarrow> i | None \<Rightarrow> 0)\<rparr>)"
      unfolding move_workspace_block_def Let_def guard rest_def [symmetric] k_def [symmetric] want r_def
      using True act by simp
    with True order re show ?thesis by (simp add: ok_def Let_def)
  qed
qed

text \<open>C10: Moving a block of workspaces gives exactly the order that was asked for: the workspaces that stay
  keep their order, and the block stands, in the order of the request, before the workspace named or at
  the end. It is refused, and nothing changes, when the block is empty, names a workspace twice or one
  that is not there, when the workspace it should stand before is in it or is not there, or when
  nothing would move. The workspaces themselves are the same ones, the active one stays active and the
  selected one selected.\<close>

theorem move_workspace_block_correct:
  assumes inv: "app_inv (g, app)"
  shows "case move_workspace_block app ids before of None \<Rightarrow> False | Some (ok, app') \<Rightarrow>
    (let all = map ws_id (workspaces app)
     in (ok \<longleftrightarrow> ids \<noteq> [] \<and> distinct ids \<and> set ids \<subseteq> set all \<and>
           (case before of None \<Rightarrow> True | Some b \<Rightarrow> b \<in> set all - set ids) \<and> wanted_order ids before all \<noteq> all) \<and>
        (if ok then
           map ws_id (workspaces app') = wanted_order ids before all \<and> mset (workspaces app') = mset (workspaces app) \<and>
           map_option ((!) (workspaces app')) (active app') = map_option ((!) (workspaces app)) (active app) \<and>
           workspaces app' ! selected app' = workspaces app ! selected app
         else app' = app))"
  using move_block [OF inv, of ids before] by (auto simp: Let_def split: option.splits prod.splits)

section \<open>Closing\<close>

lemma fold_remove_append:
  "sorted_wrt (>) js \<Longrightarrow> \<forall>j \<in> set js. j < length xs \<Longrightarrow> fold vec_remove js (xs @ ys) = fold vec_remove js xs @ ys"
proof (induction js arbitrary: xs)
  case (Cons j js)
  then have j: "j < length xs" "\<forall>i \<in> set js. i < length (vec_remove j xs)" by (simp_all, fastforce)
  then have "vec_remove j (xs @ ys) = vec_remove j xs @ ys" by (simp add: vec_remove_def)
  with Cons j show ?case by simp
qed simp

text \<open>Removing, from the last, the entries that have a property leaves those that have not.\<close>

lemma remove_indices:
  "fold vec_remove (rev (filter (\<lambda>i. P (xs ! i)) [0..<length xs])) xs = filter (\<lambda>x. \<not> P x) xs"
proof (induction xs rule: rev_induct)
  case (snoc x xs)
  let ?is = "filter (\<lambda>i. P (xs ! i)) [0..<length xs]"
  have "filter (\<lambda>i. P ((xs @ [x]) ! i)) [0..<length (xs @ [x])] = ?is @ (if P x then [length xs] else [])"
    by (auto simp: nth_append intro!: filter_cong)
  moreover have "vec_remove (length xs) (xs @ [x]) = xs" by (simp add: vec_remove_def)
  moreover have "sorted_wrt (<) ?is" by (intro sorted_wrt_filter strict_sorted_list_of_set) simp
  then have "sorted_wrt (>) (rev ?is)" by (simp add: sorted_wrt_rev)
  then have "fold vec_remove (rev ?is) (xs @ [x]) = fold vec_remove (rev ?is) xs @ [x]"
    by (rule fold_remove_append) simp
  ultimately show ?case using snoc by simp
qed simp

text \<open>The workspaces that closing \<open>w\<close> closes: the group of its worktrees when it is the primary checkout, and
  only itself otherwise.\<close>

definition closes_with :: "Workspace \<Rightarrow> Workspace \<Rightarrow> bool" where
  "closes_with w v =
     (case worktree_space w of
        Some space \<Rightarrow>
          if is_linked_worktree space then ws_id v = ws_id w
          else (case worktree_space v of Some member \<Rightarrow> space_key member = space_key space | None \<Rightarrow> False)
      | None \<Rightarrow> ws_id v = ws_id w)"

lemma closes_self [simp]: "closes_with w w"
  by (simp add: closes_with_def split: option.splits)

lemma filter_one: "distinct (map f xs) \<Longrightarrow> k < length xs \<Longrightarrow> filter (\<lambda>x. f x \<noteq> f (xs ! k)) xs = vec_remove k xs"
proof -
  assume d: "distinct (map f xs)" and k: "k < length xs"
  obtain as bs where s: "xs = as @ xs ! k # bs" "vec_remove k xs = as @ bs" using k by (metis vec_split)
  have "distinct (map f (as @ xs ! k # bs))" using d s(1) by simp
  then have "filter (\<lambda>x. f x \<noteq> f (xs ! k)) (as @ xs ! k # bs) = as @ bs"
    by (auto simp: image_iff intro!: arg_cong2 [where f = append] filter_True)
  with s show ?thesis by metis
qed

lemma singleton_list: "x \<in> set xs \<Longrightarrow> \<not> 2 \<le> length xs \<Longrightarrow> xs = [x]"
  by (cases xs rule: remdups_adj.cases) auto

lemma close_indices:
  assumes d: "distinct (map ws_id (workspaces app))" and k: "k < length (workspaces app)"
  shows "fold vec_remove (rev (workspace_close_indices app k)) (workspaces app) =
      filter (\<lambda>w. \<not> closes_with (workspaces app ! k) w) (workspaces app)"
    and "\<forall>i \<in> set (workspace_close_indices app k). i < length (workspaces app)"
proof -
  let ?W = "workspaces app" and ?w = "workspaces app ! k"
  have one: "closes_with ?w = (\<lambda>v. ws_id v = ws_id ?w) \<Longrightarrow> filter (\<lambda>w. \<not> closes_with ?w w) ?W = vec_remove k ?W"
    using filter_one [OF d k] by simp
  have "fold vec_remove (rev (workspace_close_indices app k)) ?W = filter (\<lambda>w. \<not> closes_with ?w w) ?W \<and>
    (\<forall>i \<in> set (workspace_close_indices app k). i < length ?W)"
  proof (cases "\<exists>space. worktree_space ?w = Some space \<and> \<not> is_linked_worktree space")
    case False
    then have "workspace_close_indices app k = [k]" "closes_with ?w = (\<lambda>v. ws_id v = ws_id ?w)"
      using k by (auto simp: workspace_close_indices_def vec_get_def closes_with_def fun_eq_iff split: option.splits)
    with one k show ?thesis by simp
  next
    case True
    then obtain space where sp: "worktree_space ?w = Some space" "\<not> is_linked_worktree space" by blast
    let ?is = "filter (\<lambda>i. closes_with ?w (?W ! i)) [0..<length ?W]"
    have "workspace_close_indices app k = (if 2 \<le> length ?is then ?is else [k])"
      using sp k by (simp add: workspace_close_indices_def vec_get_def closes_with_def Let_def)
    moreover have "?is = [k]" if "\<not> 2 \<le> length ?is"
      by (rule singleton_list [OF _ that]) (use k in simp)
    ultimately have "workspace_close_indices app k = ?is" by simp
    with remove_indices [of "closes_with ?w" ?W] show ?thesis by auto
  qed
  then show "fold vec_remove (rev (workspace_close_indices app k)) ?W = filter (\<lambda>w. \<not> closes_with ?w w) ?W"
    "\<forall>i \<in> set (workspace_close_indices app k). i < length ?W" by blast+
qed

lemma distinct_concat_filter: "distinct (concat (map f xs)) \<Longrightarrow> distinct (concat (map f (filter P xs)))"
  by (induction xs) auto

lemma spaces_filter: "spaces_ok n c wss \<Longrightarrow> spaces_ok n c (filter P wss)"
  by (auto simp: spaces_ok_def list_all_iff distinct_map_filter distinct_concat_filter)

text \<open>What closing the selected workspace does.\<close>

lemma close_selected:
  assumes inv: "app_inv (g, app)"
  shows "case close_selected_workspace app of None \<Rightarrow> False | Some app' \<Rightarrow>
    app_inv (g, app') \<and>
    (if workspaces app = [] then app' = app
     else workspaces app' = filter (\<lambda>w. \<not> closes_with (workspaces app ! selected app) w) (workspaces app) \<and>
       (if workspaces app' = [] then active app' = None
        else active app' = Some (selected app') \<and> selected app' < length (workspaces app') \<and>
          (case active app of None \<Rightarrow> True
           | Some k \<Rightarrow> closes_with (workspaces app ! selected app) (workspaces app ! k) \<or>
               workspaces app' ! selected app' = workspaces app ! k)))"
proof (cases "workspaces app = []")
  case True
  with inv show ?thesis by (simp add: close_selected_workspace_def)
next
  case False
  let ?W = "workspaces app" and ?sel = "selected app"
  note parts = app_inv_parts [OF inv]
  have sel: "?sel < length ?W" using parts(3) False by (auto simp: index_ok_def)
  have d: "distinct (map ws_id ?W)" using parts(1) by (simp add: spaces_ok_def)
  define rest where "rest = filter (\<lambda>w. \<not> closes_with (?W ! ?sel) w) ?W"
  note c = close_indices [OF d sel, folded rest_def]
  define old where "old = map_option ws_id (Option.bind (active app) (vec_get ?W))"
  define s where "s = (case Option.bind old (\<lambda>i. position (\<lambda>ws. ws_id ws = i) rest) of Some i \<Rightarrow> i | None \<Rightarrow> ?sel)"
  define s' where "s' = (if length rest \<le> s then length rest - 1 else s)"
  have ok: "spaces_ok (next_pane_id g) (next_workspace_id g) rest" unfolding rest_def by (rule spaces_filter [OF parts(1)])
  have sub: "set rest \<subseteq> set ?W" by (auto simp: rest_def)
  have "\<not> list_ex (\<lambda>idx. length ?W \<le> idx) (workspace_close_indices app ?sel)" using c(2) by (auto simp: list_ex_iff)
  then obtain app' where app': "close_selected_workspace app = Some app'" and
    f: "workspaces app' = rest" "active app' = (if rest = [] then None else Some s')"
      "selected app' = (if rest = [] then 0 else s')" "public_pane_id_aliases app' = public_pane_id_aliases app"
    using False c(1) unfolding close_selected_workspace_def
    by (simp add: Let_def old_def [symmetric] s'_def s_def split: option.splits)
  have inv': "app_inv (g, app')"
    by (rule app_invI) (use ok parts(2,4) f retired_subset [OF _ sub] in \<open>auto simp: index_ok_def s'_def\<close>)
  have keep: "rest ! s' = ?W ! k" if k: "active app = Some k" "\<not> closes_with (?W ! ?sel) (?W ! k)" for k
  proof -
    have kl: "k < length ?W" using parts(3) k(1) by (simp add: index_ok_def)
    have "?W ! k \<in> set rest" using kl k(2) by (simp add: rest_def)
    moreover have "distinct (map ws_id rest)" using ok by (simp add: spaces_ok_def)
    ultimately obtain i where "position (\<lambda>ws. ws_id ws = ws_id (?W ! k)) rest = Some i" "i < length rest" "rest ! i = ?W ! k"
      using position_id by blast
    with k kl show ?thesis by (simp add: s'_def s_def old_def vec_get_def)
  qed
  have "rest \<noteq> [] \<Longrightarrow> s' < length rest" by (auto simp: s'_def)
  with app' f inv' keep False show ?thesis
    by (auto simp: rest_def [symmetric] split: option.splits)
qed

text \<open>C7: Closing the selected workspace closes exactly what it should: the whole group of worktrees when it
  is the primary checkout of one, and otherwise that workspace alone. The rest keep their order, the
  workspace that was active stays the active one if it is still there, and whatever was closed there is
  an active workspace, which is the selected one, as long as there are any.\<close>

theorem close_workspace_correct:
  assumes inv: "app_inv (g, app)"
  shows "case close_selected_workspace app of None \<Rightarrow> False | Some app' \<Rightarrow>
    app_inv (g, app') \<and>
    (if workspaces app = [] then app' = app
     else workspaces app' = filter (\<lambda>w. \<not> closes_with (workspaces app ! selected app) w) (workspaces app) \<and>
       (if workspaces app' = [] then active app' = None
        else active app' = Some (selected app') \<and> selected app' < length (workspaces app') \<and>
          (case active app of None \<Rightarrow> True
           | Some k \<Rightarrow> closes_with (workspaces app ! selected app) (workspaces app ! k) \<or>
               workspaces app' ! selected app' = workspaces app ! k)))"
  by (rule close_selected [OF inv])

section \<open>A pane that dies\<close>

lemma close_dead:
  assumes inv: "app_inv (g, app)" and k: "k < length (workspaces app)" and app': "app' = close_dead_workspace app k"
  shows "app_inv (g, app')" "workspaces app' = vec_remove k (workspaces app)"
    "\<And>j. active app = Some j \<Longrightarrow> j \<noteq> k \<Longrightarrow> \<exists>i. active app' = Some i \<and> i < length (workspaces app') \<and>
       workspaces app' ! i = workspaces app ! j"
proof -
  let ?W = "workspaces app" and ?us = "vec_remove k (workspaces app)"
  note parts = app_inv_parts [OF inv]
  have d: "distinct (map ws_id ?W)" using parts(1) by (simp add: spaces_ok_def)
  have ok: "spaces_ok (next_pane_id g) (next_workspace_id g) ?us"
    unfolding filter_one [OF d k, symmetric] by (rule spaces_filter [OF parts(1)])
  have sub: "set ?us \<subseteq> set ?W" by (rule set_vec_remove)
  have du: "distinct (map ws_id ?us)" using ok by (simp add: spaces_ok_def)
  define a where "a = (case Option.bind (map_option ws_id (Option.bind (active app) (vec_get ?W)))
    (\<lambda>i. position (\<lambda>ws. ws_id ws = i) ?us) of Some idx \<Rightarrow> Some idx | None \<Rightarrow> active app)"
  define s where "s = (case Option.bind (map_option ws_id (vec_get ?W (selected app)))
    (\<lambda>i. position (\<lambda>ws. ws_id ws = i) ?us) of Some idx \<Rightarrow> idx | None \<Rightarrow> selected app)"
  have f: "workspaces app' = ?us" "public_pane_id_aliases app' = public_pane_id_aliases app"
    "?us \<noteq> [] \<Longrightarrow> active app' = map_option (\<lambda>idx. min idx (length ?us - 1)) a"
    "?us \<noteq> [] \<Longrightarrow> selected app' = min s (length ?us - 1)"
    "?us = [] \<Longrightarrow> active app' = None \<and> selected app' = 0"
    by (auto simp: app' close_dead_workspace_def Let_def a_def s_def split: option.splits)
  show "workspaces app' = ?us" by (rule f(1))
  have "?us \<noteq> [] \<Longrightarrow> min x (length ?us - 1) < length ?us" for x by (cases ?us) auto
  then have "index_ok (active app') (selected app') (workspaces app')"
    using f(3-5) unfolding f(1) by (cases "?us = []") (auto simp: index_ok_def split: option.splits)
  then show "app_inv (g, app')"
    by (intro app_invI) (use ok parts(2,4) f(1,2) retired_subset [OF _ sub] in auto)
  show "\<exists>i. active app' = Some i \<and> i < length (workspaces app') \<and> workspaces app' ! i = ?W ! j"
    if j: "active app = Some j" "j \<noteq> k" for j
  proof -
    have jl: "j < length ?W" using parts(3) j(1) by (simp add: index_ok_def)
    have "?W ! j \<in> set ?us"
      unfolding filter_one [OF d k, symmetric] using jl j(2) k nth_eq_iff_index_eq [OF d, of j k] by simp
    then obtain i where i: "position (\<lambda>ws. ws_id ws = ws_id (?W ! j)) ?us = Some i" "i < length ?us" "?us ! i = ?W ! j"
      using position_id [OF du] by blast
    then have "a = Some i" using j(1) jl by (simp add: a_def vec_get_def)
    moreover have "?us \<noteq> []" using i(2) by auto
    ultimately show ?thesis using f(1,3) i by simp
  qed
qed

text \<open>What a pane that dies does.\<close>

lemma pane_died:
  assumes inv: "app_inv (g, app)"
  shows "case handle_pane_died app p of None \<Rightarrow> False | Some app' \<Rightarrow>
    app_inv (g, app') \<and> set (all_panes app') = set (all_panes app) - {p} \<and>
    (p \<in> set (all_panes app) \<longrightarrow> p \<notin> snd ` set (public_pane_id_aliases app') \<and> p \<notin> snd ` set (pane_id_aliases app')) \<and>
    (case active app of None \<Rightarrow> True | Some k \<Rightarrow> ws_ids (workspaces app ! k) = [p] \<or>
       (\<exists>i. active app' = Some i \<and> i < length (workspaces app') \<and> ws_id (workspaces app' ! i) = ws_id (workspaces app ! k)))"
proof -
  let ?W = "workspaces app"
  note parts = app_inv_parts [OF inv]
  define app0 where "app0 = (case previous_pane_focus app of
    Some (_, q) \<Rightarrow> if q = p then app\<lparr>previous_pane_focus := None\<rparr> else app | None \<Rightarrow> app)"
  have f0: "workspaces app0 = ?W" "active app0 = active app" "selected app0 = selected app"
    "public_pane_id_aliases app0 = public_pane_id_aliases app"
    by (simp_all add: app0_def split: option.splits)
  have found: "find_tab_index_for_pane w p \<noteq> None \<longleftrightarrow> p \<in> set (ws_ids w)" if w: "w \<in> set ?W" for w
  proof -
    have "ws_core (next_pane_id g) {} w" using parts(1) w by (auto simp: spaces_ok_def list_all_iff ws_inv_def)
    from find_tab(1) [OF this, of p] show ?thesis by argo
  qed
  have died: "handle_pane_died app p = (case position (\<lambda>ws. find_tab_index_for_pane ws p \<noteq> None) ?W of None \<Rightarrow> Some app0
    | Some k \<Rightarrow> (let app1 = app0\<lparr>pane_id_aliases := filter (\<lambda>(_, alias). alias \<noteq> p) (pane_id_aliases app0),
          public_pane_id_aliases := filter (\<lambda>(_, alias). alias \<noteq> p) (public_pane_id_aliases app0)\<rparr>
        in map_option (\<lambda>(c, ws). let app2 = app1\<lparr>workspaces := (workspaces app1)[k := ws]\<rparr>
             in if c then close_dead_workspace app2 k else app2) (ws_remove_pane (workspaces app1 ! k) p)))"
    unfolding handle_pane_died_def Let_def app0_def [symmetric] f0(1) by (rule refl)
  show ?thesis
  proof (cases "position (\<lambda>ws. find_tab_index_for_pane ws p \<noteq> None) ?W")
    case None
    then have no: "p \<notin> set (all_panes app)" using found by (auto simp: position_None all_panes_def)
    have "app_inv (g, app0)" by (rule app_inv_cong [OF f0(1,4,2,3) inv])
    moreover have "case active app of None \<Rightarrow> True | Some k \<Rightarrow> k < length ?W" using parts(3) by (simp add: index_ok_def)
    ultimately show ?thesis
      using None no f0 by (auto simp: died all_panes_def split: option.splits)
  next
    case (Some k)
    from position_Some [OF Some] have k: "k < length ?W" and "find_tab_index_for_pane (?W ! k) p \<noteq> None" by blast+
    with found [OF nth_mem [OF k]] have p: "p \<in> set (ws_ids (?W ! k))" by blast
    define app1 where "app1 = app0\<lparr>pane_id_aliases := filter (\<lambda>(_, alias). alias \<noteq> p) (pane_id_aliases app0),
          public_pane_id_aliases := filter (\<lambda>(_, alias). alias \<noteq> p) (public_pane_id_aliases app0)\<rparr>"
    have f1: "workspaces app1 = ?W" "active app1 = active app" "selected app1 = selected app"
      "set (public_pane_id_aliases app1) \<subseteq> set (public_pane_id_aliases app)"
      "p \<notin> snd ` set (public_pane_id_aliases app1)" "p \<notin> snd ` set (pane_id_aliases app1)"
      by (auto simp: app1_def f0)
    have inv1: "app_inv (g, app1)"
      by (rule app_invI) (use parts f1 in auto)
    have w: "ws_inv (next_pane_id g) (?W ! k)" using spaces_nth [OF parts(1) k] by simp
    obtain c w' where r: "ws_remove_pane (?W ! k) p = Some (c, w')" "ws_inv (next_pane_id g) w'"
      "ws_id w' = ws_id (?W ! k)" "next_public_pane_number w' = next_public_pane_number (?W ! k)"
      "set (public_pane_numbers w') \<subseteq> set (public_pane_numbers (?W ! k))"
      "if c then w' = ?W ! k \<and> ws_ids (?W ! k) = [p] else set (ws_ids w') = set (ws_ids (?W ! k)) - {p}"
      using remove_pane_cases [OF w refl, of p] by blast
    let ?app2 = "app1\<lparr>workspaces := ?W[k := w']\<rparr>"
    have "ws_grows (?W ! k) w'" using r(3,4,5) by (auto simp: ws_grows_def)
    moreover have "\<forall>q \<in> set (ws_ids w'). q \<in> set (ws_ids (?W ! k))" using r(6) by (auto split: if_splits)
    ultimately have inv2: "app_inv (g, ?app2)"
      using app_update [OF inv1, of k g w'] k r(2) f1(1) by simp
    have dc: "distinct (concat (map ws_ids ?W))" using parts(1) by (simp add: spaces_ok_def)
    have act: "case active app of None \<Rightarrow> True | Some j \<Rightarrow> j < length ?W" using parts(3) by (simp add: index_ok_def)
    have eq: "handle_pane_died app p = Some (if c then close_dead_workspace ?app2 k else ?app2)"
      using Some r(1) by (simp add: died app1_def [symmetric] f1(1) Let_def)
    show ?thesis
    proof (cases c)
      case False
      have "set (ws_ids w') \<inter> (set (concat (map ws_ids ?W)) - set (ws_ids (?W ! k))) = {}" using r(6) False by auto
      note d = distinct_concat_update(2) [OF dc k ws_inv_distinct [OF r(2)] this]
      have sub: "set (ws_ids (?W ! k)) \<subseteq> set (concat (map ws_ids ?W))" by (metis all_panes_nth subsetI k)
      have others: "p \<notin> set (concat (map ws_ids ?W)) - set (ws_ids (?W ! k))" using p by simp
      have "set (all_panes ?app2) = set (all_panes app) - {p}"
        using d sub others r(6) False by (simp add: all_panes_def f1(1)) blast
      moreover have "case active app of None \<Rightarrow> True | Some j \<Rightarrow> \<exists>i. active ?app2 = Some i \<and> i < length (workspaces ?app2) \<and>
          ws_id (workspaces ?app2 ! i) = ws_id (?W ! j)"
      proof -
        have "ws_id (?W[k := w'] ! j) = ws_id (?W ! j)" if "j < length ?W" for j
          using r(3) that by (cases "j = k") simp_all
        with act show ?thesis by (auto simp: f1(2) split: option.splits)
      qed
      ultimately show ?thesis using eq False inv2 f1(5,6) by (auto split: option.splits)
    next
      case True
      then have w': "w' = ?W ! k" "ws_ids (?W ! k) = [p]" using r(6) by simp_all
      then have ws2: "workspaces ?app2 = ?W" by simp
      have kl: "k < length (workspaces ?app2)" using k by simp
      note cd = close_dead [OF inv2 kl refl]
      have "set (all_panes (close_dead_workspace ?app2 k)) = set (all_panes app) - {p}"
        unfolding all_panes_def cd(2) ws2 using distinct_concat_remove(2) [OF dc k] w'(2) by simp
      moreover have "case active app of None \<Rightarrow> True | Some j \<Rightarrow> j = k \<or>
          (\<exists>i. active (close_dead_workspace ?app2 k) = Some i \<and> i < length (workspaces (close_dead_workspace ?app2 k)) \<and>
             ws_id (workspaces (close_dead_workspace ?app2 k) ! i) = ws_id (?W ! j))"
        using cd(3) unfolding ws2 by (fastforce simp: f1(2) split: option.splits)
      moreover have "public_pane_id_aliases (close_dead_workspace ?app2 k) = public_pane_id_aliases app1"
        "pane_id_aliases (close_dead_workspace ?app2 k) = pane_id_aliases app1"
        by (simp_all add: close_dead_workspace_def Let_def split: option.splits)
      ultimately show ?thesis using eq True cd(1) f1(5,6) w'(2) by (auto split: option.splits)
    qed
  qed
qed

text \<open>C8: When the program of a pane ends, exactly that pane goes: every other pane stays, in its tab and
  workspace, the state stays well formed, no alias names the pane any more, and the workspace the user was
  in stays the active one unless it was the pane's and had no other. No such event panics.\<close>

theorem pane_died_correct:
  assumes inv: "app_inv (g, app)"
  shows "case handle_pane_died app p of None \<Rightarrow> False | Some app' \<Rightarrow>
    app_inv (g, app') \<and> set (all_panes app') = set (all_panes app) - {p} \<and>
    (p \<in> set (all_panes app) \<longrightarrow> p \<notin> snd ` set (public_pane_id_aliases app') \<and> p \<notin> snd ` set (pane_id_aliases app')) \<and>
    (case active app of None \<Rightarrow> True | Some k \<Rightarrow> ws_ids (workspaces app ! k) = [p] \<or>
       (\<exists>i. active app' = Some i \<and> i < length (workspaces app') \<and> ws_id (workspaces app' ! i) = ws_id (workspaces app ! k)))"
  by (rule pane_died [OF inv])

section \<open>Creation\<close>

lemma app_inv_mono:
  assumes "app_inv (g, app)" "next_pane_id g \<le> next_pane_id g'" "next_workspace_id g \<le> next_workspace_id g'"
  shows "app_inv (g', app)"
proof (rule app_invI)
  note parts = app_inv_parts [OF assms(1)]
  show "spaces_ok (next_pane_id g') (next_workspace_id g') (workspaces app)" by (rule spaces_ok_mono [OF parts(1) assms(2,3)])
  show "0 < next_workspace_id g'" using parts(4) assms(3) by (rule less_le_trans)
  show "\<And>i p. (i, p) \<in> set (public_pane_id_aliases app) \<Longrightarrow> retired (next_workspace_id g') (workspaces app) i"
    using retired_mono [OF parts(2) assms(3)] by blast
qed (rule app_inv_parts(3) [OF assms(1)])

lemma new_with_tab_ids:
  assumes "next_pane_id g \<noteq> - 1" "next_workspace_id g \<noteq> - 1" "new_with_tab spawn micros g cwd argv env = (r, g')"
  shows "next_pane_id g \<le> next_pane_id g' \<and> next_workspace_id g' = next_workspace_id g + 1"
proof -
  let ?g = "g\<lparr>next_workspace_id := next_workspace_id g + 1\<rparr>"
  obtain i where gen: "generate_workspace_id (next_workspace_id g) = (i, next_workspace_id g + 1)"
    by (simp add: generate_workspace_id_def)
  let ?env = "with_identity (from_extra env) i (public_tab_id_for_number i 1) (public_pane_id_for_number i 1)"
  obtain r1 g1 where n: "new_with_runtime spawn micros ?g 1 cwd ?env argv = (r1, g1)"
    by (cases "new_with_runtime spawn micros ?g 1 cwd ?env argv")
  have "next_pane_id ?g \<noteq> - 1" using assms(1) by simp
  from new_tab_ids [OF this n] alloc_less [OF assms(1)]
  have "next_pane_id g \<le> next_pane_id g1 \<and> next_workspace_id g1 = next_workspace_id g + 1" by auto
  moreover have "g' = g1" using assms(3) n by (auto simp: new_with_tab_def gen Let_def split: sum.splits)
  ultimately show ?thesis by simp
qed

lemma create_workspace_inv:
  assumes inv: "app_inv (g, app)" and c: "next_pane_id g \<noteq> - 1" "next_workspace_id g \<noteq> - 1"
    and cr: "create_workspace_with_launch_env spawn micros g app cwd focus env = (r, app', g')"
  shows "app_inv (g', app')"
proof -
  obtain r0 where n: "new_with_tab spawn micros g cwd None env = (r0, g')"
    using cr by (auto simp: create_workspace_with_launch_env_def Let_def split: prod.splits sum.splits)
  note ids = new_with_tab_ids [OF c n]
  have less: "next_workspace_id g < next_workspace_id g + 1" by (rule counter_less [OF c(2)])
  have mono: "app_inv (g', app)" by (rule app_inv_mono [OF inv]) (use ids less in auto)
  show ?thesis
  proof (cases r0)
    case (Inl e)
    with cr n mono show ?thesis by (simp add: create_workspace_with_launch_env_def)
  next
    case (Inr x)
    obtain w terminal rt where x: "x = (w, terminal, rt)" by (cases x)
    note parts = app_inv_parts [OF mono]
    from new_workspace_inv [OF c(1) n [unfolded Inr x]]
    have w: "ws_inv (next_pane_id g') w" "ws_ids w = [PaneId (next_pane_id g)]" "ws_id w = fst (generate_workspace_id (next_workspace_id g))"
      by blast+
    have id: "id_ok (next_workspace_id g') (ws_id w)" "\<not> id_ok (next_workspace_id g) (ws_id w)"
      using id_ok_generated [OF app_inv_parts(4) [OF inv] c(2)] ids by (simp_all add: w(3))
    have fresh: "ws_id w \<notin> ws_id ` set (workspaces app)"
      using id(2) app_inv_parts(1) [OF inv] by (auto simp: spaces_ok_def list_all_iff)
    have new: "PaneId (next_pane_id g) \<notin> set (concat (map ws_ids (workspaces app)))"
    proof
      assume "PaneId (next_pane_id g) \<in> set (concat (map ws_ids (workspaces app)))"
      then obtain j where j: "j < length (workspaces app)" "PaneId (next_pane_id g) \<in> set (ws_ids (workspaces app ! j))"
        using all_panes_nth by blast
      have "ws_core (next_pane_id g) {} (workspaces app ! j)"
        using spaces_nth [OF app_inv_parts(1) [OF inv] j(1)] by (simp add: ws_inv_def)
      from ws_core_fresh [OF this] j(2) show False by blast
    qed
    let ?app = "app\<lparr>workspaces := workspaces app @ [w]\<rparr>"
    have "app_inv (g', ?app)"
    proof (rule app_invI)
      show "spaces_ok (next_pane_id g') (next_workspace_id g') (workspaces ?app)"
        using parts(1) w(1,2) id(1) fresh new by (auto simp: spaces_ok_def)
      show "index_ok (active ?app) (selected ?app) (workspaces ?app)"
        using parts(3) by (auto simp: index_ok_def split: option.splits)
      have "next_workspace_id g \<le> next_workspace_id g'" using ids less by simp
      then show "retired (next_workspace_id g') (workspaces ?app) i" if "(i, p) \<in> set (public_pane_id_aliases ?app)" for i p
        using retired_append [OF app_inv_parts(2) [OF inv] id(2), of i p] that by simp
    qed (rule parts(4))
    then have "app_inv (g', remove_alias_shadowed_by_new_pane ?app q)" for q by (rule app_inv_cong [rotated -1]) simp_all
    note shadow = this
    have "app_inv (g', (switch_workspace (remove_alias_shadowed_by_new_pane ?app q) idx)\<lparr>terminal_mode := True\<rparr>)" for q idx
      by (rule app_inv_cong [OF _ _ _ _ switch_workspace_inv [OF shadow]]) simp_all
    with shadow cr n show ?thesis
      by (auto simp: create_workspace_with_launch_env_def Let_def Inr x split: if_splits)
  qed
qed

lemma rename_tab: "tab_inv n (tab_set_custom_name tab l) = tab_inv n tab" "tab_ids (tab_set_custom_name tab l) = tab_ids tab"
  "number (tab_set_custom_name tab l) = number tab"
  by (simp_all add: tab_set_custom_name_def tab_inv_def tab_ids_def)

lemma app_tab_inv:
  assumes "app_inv (g, app)" "k < length (workspaces app)" "j < length (tabs (workspaces app ! k))"
  shows "tab_inv (next_pane_id g) (tabs (workspaces app ! k) ! j)"
  using ws_core_tab [OF _ nth_mem [OF assms(3)]] spaces_nth [OF app_inv_parts(1) [OF assms(1)] assms(2)]
  by (auto simp: ws_inv_def)

lemma create_tab_inv:
  assumes inv: "app_inv (g, app)" and c: "next_pane_id g \<noteq> - 1"
    and cr: "handle_tab_create (spawn :: unit spawner) micros g app workspace_id cwd focus label env = Some (r, app', g')"
  shows "app_inv (g', app')"
proof (cases "case workspace_id of Some i \<Rightarrow> parse_workspace_id app i | None \<Rightarrow> active app")
  case None
  with cr inv show ?thesis by (simp add: handle_tab_create_def)
next
  case (Some k)
  show ?thesis
  proof (cases "k < length (workspaces app)")
    case False
    with cr inv Some show ?thesis by (simp add: handle_tab_create_def vec_get_def)
  next
    case k: True
    obtain r0 w g1 where ct: "create_tab_with_runtime spawn micros g (workspaces app ! k) cwd None env = Some (r0, w, g1)"
      using cr Some k by (cases "create_tab_with_runtime spawn micros g (workspaces app ! k) cwd None env")
        (auto simp: handle_tab_create_def vec_get_def)
    let ?app = "app\<lparr>workspaces := (workspaces app)[k := w]\<rparr>"
    have own: "app_inv (g1, ?app)" by (rule app_own [OF inv k]) (rule ws_create [OF c ct])
    show ?thesis
    proof (cases r0)
      case (Inl e)
      with cr Some k ct own show ?thesis by (simp add: handle_tab_create_def vec_get_def)
    next
      case (Inr x)
      obtain j terminal rt where x: "x = (j, terminal, rt)" by (cases x)
      have j: "j < length (tabs w)"
        using ct by (auto simp: create_tab_with_runtime_def Let_def Inr x register_new_pane_with_number_def split: if_splits prod.splits sum.splits)
      let ?app1 = "remove_alias_shadowed_by_new_pane ?app (root_pane (tabs w ! j))"
      have inv1: "app_inv (g1, ?app1)" by (rule app_inv_cong [OF _ _ _ _ own]) simp_all
      have kk: "k < length (workspaces ?app1)" "workspaces ?app1 ! k = w" using k by simp_all
      have named: "app_inv (g1, ?app1\<lparr>workspaces := (workspaces ?app1)[k := w\<lparr>tabs := (tabs w)[j := t]\<rparr>]\<rparr>)"
        if "t = (case label of Some l \<Rightarrow> tab_set_custom_name (tabs w ! j) l | None \<Rightarrow> tabs w ! j)" for t
        using app_same_tab [OF inv1 kk(1), unfolded kk(2), OF j] app_tab_inv [OF inv1 kk(1), unfolded kk(2), OF j] that
        by (auto simp: rename_tab split: option.splits)
      define app2 where "app2 = ?app1\<lparr>workspaces := (workspaces ?app1)[k := w\<lparr>tabs := (tabs w)[j :=
        (case label of Some l \<Rightarrow> tab_set_custom_name (tabs w ! j) l | None \<Rightarrow> tabs w ! j)]\<rparr>]\<rparr>"
      have inv2: "app_inv (g1, app2)" unfolding app2_def by (rule named [OF refl])
      have "app' = (if focus then (snd (switch_workspace_tab app2 k j))\<lparr>terminal_mode := True\<rparr> else app2)" "g' = g1"
        using cr Some k ct by (auto simp: handle_tab_create_def vec_get_def Inr x Let_def app2_def split: if_splits)
      moreover have "app_inv (g1, (snd (switch_workspace_tab app2 k j))\<lparr>terminal_mode := True\<rparr>)"
        by (rule app_inv_cong [OF _ _ _ _ switch_workspace_tab_inv [OF inv2]]) simp_all
      ultimately show ?thesis using inv2 by simp
    qed
  qed
qed

section \<open>Requests\<close>

text \<open>A request that is answered, in a state that is well formed again.\<close>

definition answered :: "Globals \<Rightarrow> ('a \<times> App) option \<Rightarrow> bool" where
  "answered g r \<longleftrightarrow> (case r of None \<Rightarrow> False | Some (_, app') \<Rightarrow> app_inv (g, app'))"

lemma answered_simps [simp]: "answered g (Some (a, app')) = app_inv (g, app')" "\<not> answered g None"
  by (simp_all add: answered_def)

lemma close_selected_ok:
  assumes "app_inv (g, app)" "k < length (workspaces app)"
  obtains app' where "close_selected_workspace (app\<lparr>selected := k\<rparr>) = Some app'" "app_inv (g, app')"
proof -
  have "app_inv (g, app\<lparr>selected := k\<rparr>)" using assms by (auto simp: app_inv_def index_ok_def split: option.splits)
  from close_selected [OF this] show thesis using that by (auto split: option.splits)
qed

lemma workspace_requests:
  assumes inv: "app_inv (g, app)"
  shows "answered g (Some (handle_workspace_focus app i))" "answered g (Some (handle_workspace_rename app i label))"
    "answered g (handle_workspace_move app i n)" "answered g (handle_workspace_move_block app ids before)"
    "answered g (handle_workspace_close app i close_all)"
proof -
  show "answered g (Some (handle_workspace_focus app i))"
    using inv switch_workspace_inv [OF inv] by (simp add: handle_workspace_focus_def split: option.splits)
  have "app_inv (g, app\<lparr>workspaces := (workspaces app)[k := ws_set_custom_name (workspaces app ! k) label]\<rparr>)"
    if "k < length (workspaces app)" for k
    by (rule app_own [OF inv that]) (rule ws_rename)
  with inv show "answered g (Some (handle_workspace_rename app i label))"
    by (auto simp: handle_workspace_rename_def bind_eq_Some_conv split: option.splits)
  have "answered g (map_option (\<lambda>(_, self). (Inr () :: string + unit, self)) (move_workspace app k n))" for k
    using move_workspace_inv [OF inv, of k n] by auto
  with inv show "answered g (handle_workspace_move app i n)"
    by (simp add: handle_workspace_move_def split: option.splits)
  have "answered g (map_option (\<lambda>(_, self). (Inr () :: string + unit, self)) (move_workspace_block app ids' b))" for ids' b
    using move_block [OF inv, of ids' b] by (auto simp: answered_def split: option.splits)
  with inv show "answered g (handle_workspace_move_block app ids before)"
    unfolding handle_workspace_move_block_def by (auto split: sum.splits)
  have "answered g (map_option (\<lambda>self. (Inr () :: string + unit, self)) (close_selected_workspace (app\<lparr>selected := k\<rparr>)))"
    if "k < length (workspaces app)" for k
    using close_selected_ok [OF inv that] by (metis answered_simps(1) option.simps(9))
  with inv show "answered g (handle_workspace_close app i close_all)"
    by (auto simp: handle_workspace_close_def vec_get_def split: option.splits)
qed

lemma tab_requests:
  assumes inv: "app_inv (g, app)"
  shows "answered g (Some (handle_tab_focus app i))" "answered g (Some (handle_tab_rename app i label))"
    "answered g (Some (handle_tab_move app i n))" "answered g (handle_tab_close confirm app i)"
proof -
  show "answered g (Some (handle_tab_focus app i))"
    using inv switch_workspace_tab_inv [OF inv] by (auto simp: handle_tab_focus_def split: option.splits)
  have "app_inv (g, app\<lparr>workspaces := (workspaces app)[k := (workspaces app ! k)\<lparr>tabs :=
      (tabs (workspaces app ! k))[j := tab_set_custom_name (tabs (workspaces app ! k) ! j) label]\<rparr>]\<rparr>)"
    if kj: "k < length (workspaces app)" "j < length (tabs (workspaces app ! k))" for k j
    by (rule app_same_tab [OF inv kj]) (use app_tab_inv [OF inv kj] in \<open>simp_all add: rename_tab\<close>)
  with inv show "answered g (Some (handle_tab_rename app i label))"
    by (auto simp: handle_tab_rename_def split: option.splits)
  have "app_inv (g, app\<lparr>workspaces := (workspaces app)[k := snd (move_tab (workspaces app ! k) j n)]\<rparr>)"
    if "k < length (workspaces app)" for k j
    by (rule app_own [OF inv that], rule ws_move, rule prod.collapse [symmetric])
  with inv show "answered g (Some (handle_tab_move app i n))"
    by (auto simp: handle_tab_move_def split: option.splits)
  have close: "app_inv (g, app\<lparr>workspaces := (workspaces app)[k := snd (close_tab (workspaces app ! k) j)]\<rparr>)"
    if "k < length (workspaces app)" for k j
    by (rule app_own [OF inv that], rule ws_close, rule prod.collapse [symmetric])
  have forget: "app_inv (g, app') \<Longrightarrow> app_inv (g, remove_pane_focus_record app' ids)" for app' ids
    by (rule app_inv_cong [rotated -1]) simp_all
  have whole: "answered g (map_option (\<lambda>self. (Inr () :: string + unit, remove_pane_focus_record self ids)) (close_selected_workspace (app\<lparr>selected := k\<rparr>)))"
    if "k < length (workspaces app)" for k ids
    using close_selected_ok [OF inv that] forget by (metis answered_simps(1) option.simps(9))
  show "answered g (handle_tab_close confirm app i)"
  proof (cases "parse_tab_id app i")
    case None
    with inv show ?thesis by (simp add: handle_tab_close_def)
  next
    case (Some x)
    obtain k j where x: "x = (k, j)" by (cases x)
    with Some parse_tab_range have k: "k < length (workspaces app)" by blast
    obtain ok w' where ct: "close_tab (workspaces app ! k) j = (ok, w')" by (cases "close_tab (workspaces app ! k) j")
    with close [OF k, of j] have "app_inv (g, app\<lparr>workspaces := (workspaces app)[k := w']\<rparr>)" by simp
    with inv whole [OF k] forget k ct show ?thesis
      by (simp add: handle_tab_close_def Some x vec_get_def Let_def)
  qed
qed

lemma pane_requests:
  assumes inv: "app_inv (g, app)"
  shows "answered g (close_pane_target confirm app i)"
    "answered g (Some (focus_pane_in_workspace app k p))" "answered g (Some (apply_pane_zoom app k p command))"
    "answered g (Some (mark_active_tab_seen app))"
proof -
  show "answered g (Some (focus_pane_in_workspace app k p))" "answered g (Some (apply_pane_zoom app k p command))"
    "answered g (Some (mark_active_tab_seen app))"
    using focus_pane_in_workspace_inv [OF inv] zoom_inv [OF inv] mark_seen_inv [OF inv] by (simp_all add: answered_def case_prod_beta)
  show "answered g (close_pane_target confirm app i)"
  proof (cases "parse_pane_id app i")
    case None
    with inv show ?thesis by (simp add: close_pane_target_def)
  next
    case (Some x)
    obtain k p where x: "x = (k, p)" by (cases x)
    with Some parse_pane_range have k: "k < length (workspaces app)" by blast
    let ?w = "workspaces app ! k"
    have w: "ws_inv (next_pane_id g) ?w" using spaces_nth [OF app_inv_parts(1) [OF inv] k] by simp
    obtain c w' where r: "ws_close_pane ?w p = Some (c, w')"
      using remove_pane_cases [OF w refl, of p] by (auto simp: ws_close_pane_is_remove)
    let ?app = "remove_pane_focus_record (app\<lparr>workspaces := (workspaces app)[k := w']\<rparr>) [p]"
    have "app_inv (g, app\<lparr>workspaces := (workspaces app)[k := w']\<rparr>)"
      by (rule app_own [OF inv k], rule ws_remove) (use r in \<open>simp add: ws_close_pane_is_remove\<close>)
    then have inv': "app_inv (g, ?app)" by (rule app_inv_cong [rotated -1]) simp_all
    have "answered g (map_option (\<lambda>self. (Inr () :: string + unit, self)) (close_selected_workspace (?app\<lparr>selected := k\<rparr>)))"
      using close_selected_ok [OF inv', of k] k by (metis answered_simps(1) length_list_update option.simps(9)
          remove_focus_simps(1) App.select_convs(1) App.update_convs(1) App.surjective)
    with inv inv' k r show ?thesis
      by (simp add: close_pane_target_def Some x vec_get_def Let_def)
  qed
qed


section \<open>Examples\<close>

definition example_two :: App where
  "example_two = example_app\<lparr>workspaces := [example_ws2, fst (ws_from_existing_pane example_counters None None ''/'' (example_pane 0))]\<rparr>"

definition example_counters2 :: Globals where
  "example_counters2 = example_counters\<lparr>next_workspace_id := 3\<rparr>"

lemma example_two: "app_inv (example_counters2, example_two)" "map ws_id (workspaces example_two) = [''w1'', ''w2'']"
  "length (workspaces example_two) = 2"
proof -
  let ?w = "fst (ws_from_existing_pane example_counters None None ''/'' (example_pane 0))"
  have w: "ws_inv 3 ?w" "ws_ids ?w = [PaneId 0]"
    using existing_workspace_inv [of "example_pane 0" 3 example_counters None None "''/''"] by (simp_all add: example_pane_def)
  have id: "ws_id ?w = ''w2''"
    by (simp add: ws_from_existing_pane_def Let_def example_counters_def generate_workspace_id_def encode_public_number_def
        encode_digits.simps PUBLIC_ID_ALPHABET_def)
  have "id_ok 3 ''w2''"
    using id_ok_generated [of 2] by (simp add: generate_workspace_id_def encode_public_number_def encode_digits.simps PUBLIC_ID_ALPHABET_def)
  moreover have "app_inv (example_counters2, example_app)"
    by (rule app_inv_mono [OF example_app]) (simp_all add: example_counters2_def example_counters_def)
  moreover have "ws_ids example_ws2 = [PaneId 1, PaneId 2]" by (simp add: ws_ids_def example_ws2_parts)
  ultimately show "app_inv (example_counters2, example_two)"
    using w id by (simp add: app_inv_def example_two_def example_app_def example_counters2_def example_counters_def
        example_globals_def spaces_ok_def index_ok_def example_ws2_parts(1))
  show "map ws_id (workspaces example_two) = [''w1'', ''w2'']" using id by (simp add: example_two_def example_ws2_parts(1))
  show "length (workspaces example_two) = 2" by (simp add: example_two_def)
qed

theorem move_workspace_block_correct_witness:
  "case move_workspace_block example_two [''w2''] (Some ''w1'') of None \<Rightarrow> False
   | Some (ok, app') \<Rightarrow> ok \<and> map ws_id (workspaces app') = [''w2'', ''w1'']"
proof -
  have "wanted_order [''w2''] (Some ''w1'') [''w1'', ''w2''] = [''w2'', ''w1'']" by (simp add: wanted_order_def)
  then show ?thesis
    using move_workspace_block_correct [OF example_two(1), of "[''w2'']" "Some ''w1''"]
    unfolding example_two(2) Let_def by (auto split: option.splits prod.splits)
qed

theorem close_workspace_correct_witness:
  "case close_selected_workspace example_app of None \<Rightarrow> False
   | Some app' \<Rightarrow> workspaces app' = [] \<and> active app' = None"
  using close_workspace_correct [OF example_app]
  by (auto simp: example_app_def split: option.splits)

theorem pane_died_correct_witness:
  "case handle_pane_died example_app (PaneId 2) of None \<Rightarrow> False | Some app' \<Rightarrow> set (all_panes app') = {PaneId 1}"
proof -
  have "set (all_panes example_app) = {PaneId 1, PaneId 2}"
    by (simp add: all_panes_def example_app_def ws_ids_def example_ws2_parts)
  then show ?thesis
    using pane_died_correct [OF example_app, of "PaneId 2"] by (auto split: option.splits)
qed


end
