(* ===== verification/Server_State.thy ===== *)
theory Server_State
  imports Pane_Move App_Workspaces
begin

text \<open>
  The state of the server as a machine: it starts without workspaces, and everything the modelled requests
  and events do is a step. The ids the process draws elsewhere are steps of the counters.
\<close>

inductive server_step :: "Globals \<times> App \<Rightarrow> Globals \<times> App \<Rightarrow> bool" where
  server_create_workspace: "next_pane_id g \<noteq> - 1 \<Longrightarrow> next_workspace_id g \<noteq> - 1 \<Longrightarrow>
    create_workspace_with_launch_env (spawn :: unit spawner) micros g app cwd focus env = (r, app', g') \<Longrightarrow>
    server_step (g, app) (g', app')"
| server_create_tab: "next_pane_id g \<noteq> - 1 \<Longrightarrow>
    handle_tab_create (spawn :: unit spawner) micros g app workspace_id cwd focus label env = Some (t, app', g') \<Longrightarrow>
    server_step (g, app) (g', app')"
| server_own: "k < length (workspaces app) \<Longrightarrow> ws_own (g, workspaces app ! k) (g', w') \<Longrightarrow>
    server_step (g, app) (g', app\<lparr>workspaces := (workspaces app)[k := w']\<rparr>)"
| server_move_pane: "fits app \<Longrightarrow> next_workspace_id g \<noteq> - 1 \<Longrightarrow>
    handle_pane_move g app i destination focus cwd = Some (out, app', g') \<Longrightarrow> server_step (g, app) (g', app')"
| server_died: "handle_pane_died app p = Some app' \<Longrightarrow> server_step (g, app) (g, app')"
| server_workspace_focus: "handle_workspace_focus app i = (a, app') \<Longrightarrow> server_step (g, app) (g, app')"
| server_workspace_rename: "handle_workspace_rename app i l = (a, app') \<Longrightarrow> server_step (g, app) (g, app')"
| server_workspace_move: "handle_workspace_move app i n = Some (a, app') \<Longrightarrow> server_step (g, app) (g, app')"
| server_workspace_block: "handle_workspace_move_block app ids before = Some (a, app') \<Longrightarrow> server_step (g, app) (g, app')"
| server_workspace_close: "handle_workspace_close app i close_all = Some (a, app') \<Longrightarrow> server_step (g, app) (g, app')"
| server_tab_focus: "handle_tab_focus app i = (a, app') \<Longrightarrow> server_step (g, app) (g, app')"
| server_tab_rename: "handle_tab_rename app i l = (a, app') \<Longrightarrow> server_step (g, app) (g, app')"
| server_tab_move: "handle_tab_move app i n = (a, app') \<Longrightarrow> server_step (g, app) (g, app')"
| server_tab_close: "handle_tab_close confirm app i = Some (a, app') \<Longrightarrow> server_step (g, app) (g, app')"
| server_pane_close: "close_pane_target confirm app i = Some (a, app') \<Longrightarrow> server_step (g, app) (g, app')"
| server_pane_focus: "focus_pane_in_workspace app k p = (b, app') \<Longrightarrow> server_step (g, app) (g, app')"
| server_zoom: "apply_pane_zoom app k p command = (z, app') \<Longrightarrow> server_step (g, app) (g, app')"
| server_seen: "mark_active_tab_seen app = (b, app') \<Longrightarrow> server_step (g, app) (g, app')"
| server_elsewhere: "next_pane_id g \<le> next_pane_id g' \<Longrightarrow> next_workspace_id g \<le> next_workspace_id g' \<Longrightarrow>
    server_step (g, app) (g', app)"

definition server_init :: "Globals \<times> App \<Rightarrow> bool" where
  "server_init = (\<lambda>(g, app). workspaces app = [] \<and> public_pane_id_aliases app = [] \<and> active app = None \<and>
     selected app = 0 \<and> 0 < next_workspace_id g)"

lemma move_inv:
  assumes "app_inv (g, app)" "fits app" "next_workspace_id g \<noteq> - 1"
    "handle_pane_move g app i destination focus cwd = Some (out, app', g')"
  shows "app_inv (g', app')"
  using move_pane [OF assms(1-3), where requested = i and destination = destination and focus = focus and cwd = cwd] assms(1,4)
  by (auto split: MoveOutcome.splits)

lemma server_step_inv: "server_step s t \<Longrightarrow> app_inv s \<Longrightarrow> app_inv t"
proof (induction rule: server_step.induct)
  case (server_create_workspace g spawn micros app cwd focus env r app' g')
  with create_workspace_inv show ?case by blast
next
  case (server_create_tab g spawn micros app workspace_id cwd focus label env t app' g')
  with create_tab_inv show ?case by blast
next
  case (server_own k app g g' w')
  with app_own show ?case by blast
next
  case (server_move_pane app g i destination focus cwd out app' g')
  with move_inv show ?case by blast
next
  case (server_died app p app' g)
  with pane_died [of g app p] show ?case by simp
next
  case (server_elsewhere g g' app)
  with app_inv_mono show ?case by blast
qed (use workspace_requests tab_requests pane_requests in \<open>(metis answered_simps(1))+\<close>)

interpretation server: safe_machine server_init server_step app_inv
proof unfold_locales
  fix s assume "server_init s"
  then show "app_inv s" by (auto simp: server_init_def app_inv_def spaces_ok_def index_ok_def)
qed (rule server_step_inv)


section \<open>Example\<close>

definition fresh_app :: App where
  "fresh_app = \<lparr>workspaces = [], active = None, selected = 0, terminal_mode = False,
     previous_pane_focus = None, pane_id_aliases = [], public_pane_id_aliases = []\<rparr>"


end
