(* ===== verification/Metadata_Tokens.thy ===== *)
theory Metadata_Tokens
  imports Prelude "HOL-Library.AList"
begin

text \<open>
  The metadata that programs report about a workspace: \<open>herdr/src/metadata_tokens.rs\<close>, the checks of
  \<open>herdr/src/app/api_helpers.rs\<close> and \<open>handle_workspace_report_metadata\<close> of
  \<open>herdr/src/app/api/workspaces.rs\<close>. Texts are lists of code points; instants count milliseconds in 64
  bits, and a deadline beyond them is none. Hash maps are association lists with distinct keys, in the
  order they are iterated. The key an error message quotes is left out of it.
\<close>

section \<open>Texts\<close>

type_synonym utext = "nat list"

definition char_is_control :: "nat \<Rightarrow> bool" where "char_is_control c \<longleftrightarrow> c < 32 \<or> 127 \<le> c \<and> c \<le> 159"

definition is_whitespace :: "nat \<Rightarrow> bool" where
  "is_whitespace c \<longleftrightarrow>
     9 \<le> c \<and> c \<le> 13 \<or> c = 32 \<or> c = 133 \<or> c = 160 \<or> c = 5760 \<or> 8192 \<le> c \<and> c \<le> 8202 \<or>
     c = 8232 \<or> c = 8233 \<or> c = 8239 \<or> c = 8287 \<or> c = 12288"

definition utrim :: "utext \<Rightarrow> utext" where
  "utrim s = rev (dropWhile is_whitespace (rev (dropWhile is_whitespace s)))"

definition utf8_len :: "utext \<Rightarrow> nat" where
  "utf8_len s = sum_list (map (\<lambda>c. if c < 128 then 1 else if c < 2048 then 2 else if c < 65536 then 3 else 4) s)"

definition is_ascii_alphanumeric :: "nat \<Rightarrow> bool" where
  "is_ascii_alphanumeric c \<longleftrightarrow> 48 \<le> c \<and> c \<le> 57 \<or> 65 \<le> c \<and> c \<le> 90 \<or> 97 \<le> c \<and> c \<le> 122"

section \<open>Checks\<close>

definition METADATA_TTL_MAX_MS :: u64 where "METADATA_TTL_MAX_MS = 86400000"
definition METADATA_SOURCE_MAX_CHARS :: nat where "METADATA_SOURCE_MAX_CHARS = 80"
definition METADATA_TTL_MIN_MS :: u64 where "METADATA_TTL_MIN_MS = 1"
definition MAX_METADATA_TOKEN_KEYS_PER_REQUEST :: nat where "MAX_METADATA_TOKEN_KEYS_PER_REQUEST = 16"
definition MAX_METADATA_TOKEN_KEYS_PER_RESOURCE :: nat where "MAX_METADATA_TOKEN_KEYS_PER_RESOURCE = 32"
definition MAX_METADATA_TOKEN_KEY_LEN :: nat where "MAX_METADATA_TOKEN_KEY_LEN = 32"
definition MAX_METADATA_TOKEN_VALUE_LEN :: nat where "MAX_METADATA_TOKEN_VALUE_LEN = 80"
definition MAX_SEQUENCE_SOURCES :: nat where "MAX_SEQUENCE_SOURCES = 32"

lemmas metadata_limits = METADATA_TTL_MAX_MS_def METADATA_SOURCE_MAX_CHARS_def METADATA_TTL_MIN_MS_def
  MAX_METADATA_TOKEN_KEYS_PER_REQUEST_def MAX_METADATA_TOKEN_KEYS_PER_RESOURCE_def MAX_METADATA_TOKEN_KEY_LEN_def
  MAX_METADATA_TOKEN_VALUE_LEN_def MAX_SEQUENCE_SOURCES_def

definition normalize_metadata_source :: "utext \<Rightarrow> string + utext" where
  "normalize_metadata_source v =
     (let value = utrim v
      in if value = [] then Inl ''metadata source must not be empty''
         else if METADATA_SOURCE_MAX_CHARS < length value then Inl ''metadata source must be 80 characters or fewer''
         else if \<not> list_all (\<lambda>c. is_ascii_alphanumeric c \<or> c = 58 \<or> c = 46 \<or> c = 95 \<or> c = 45) value
         then Inl ''metadata source may contain only ASCII letters, digits, colon, dot, underscore, and hyphen''
         else Inr value)"

definition normalize_metadata_ttl :: "u64 option \<Rightarrow> string + u64 option" where
  "normalize_metadata_ttl ttl_ms =
     (case ttl_ms of
        None \<Rightarrow> Inr None
      | Some ttl \<Rightarrow>
          if ttl < METADATA_TTL_MIN_MS then Inl ''metadata ttl_ms must be at least 1''
          else if METADATA_TTL_MAX_MS < ttl then Inl ''metadata ttl_ms must be 86400000 or less''
          else Inr (Some ttl))"

definition valid_token_key :: "utext \<Rightarrow> bool" where
  "valid_token_key key \<longleftrightarrow>
     key \<noteq> [] \<and> utf8_len key \<le> MAX_METADATA_TOKEN_KEY_LEN \<and>
     list_all (\<lambda>c. is_ascii_alphanumeric c \<or> c = 95 \<or> c = 45) key"

definition normalize_token_value :: "utext \<Rightarrow> utext option" where
  "normalize_token_value value =
     (let normalized = take MAX_METADATA_TOKEN_VALUE_LEN (filter (\<lambda>c. \<not> char_is_control c) (utrim value))
      in if utrim normalized = [] then None else Some (utrim normalized))"

fun normalize_token_list :: "(utext \<times> utext option) list \<Rightarrow> string + (utext \<times> utext option) list" where
  "normalize_token_list [] = Inr []"
| "normalize_token_list ((key, value) # rest) =
     (if \<not> valid_token_key key then Inl ''invalid metadata token key''
      else map_sum id ((#) (key, Option.bind value normalize_token_value)) (normalize_token_list rest))"

definition normalize_metadata_tokens :: "(utext \<times> utext option) list \<Rightarrow> string + (utext \<times> utext option) list" where
  "normalize_metadata_tokens toks =
     (if toks = [] then Inl ''missing token to set or clear''
      else if MAX_METADATA_TOKEN_KEYS_PER_REQUEST < length toks
      then Inl ''a metadata report may update at most 16 tokens''
      else normalize_token_list toks)"

section \<open>Tokens\<close>

record MetadataToken =
  mt_value :: utext
  expires_at :: "u64 option"

type_synonym MetadataTokens = "(utext \<times> MetadataToken) list"

type_synonym sequences = "(utext \<times> u64) list"

definition sequence_is_fresh :: "sequences \<Rightarrow> utext \<Rightarrow> u64 option \<Rightarrow> bool" where
  "sequence_is_fresh seqs source sq =
     (case sq of None \<Rightarrow> True
      | Some n \<Rightarrow> (case map_of seqs source of None \<Rightarrow> True | Some prev \<Rightarrow> prev < n))"

definition accept_sequence :: "sequences \<Rightarrow> utext \<Rightarrow> u64 option \<Rightarrow> (unit + bool) \<times> sequences" where
  "accept_sequence seqs source sq =
     (case sq of
        None \<Rightarrow> (Inr True, seqs)
      | Some n \<Rightarrow>
          if \<not> sequence_is_fresh seqs source (Some n) then (Inr False, seqs)
          else if map_of seqs source = None \<and> MAX_SEQUENCE_SOURCES \<le> length seqs then (Inl (), seqs)
          else (Inr True, AList.update source n seqs))"

definition instant_checked_add :: "u64 \<Rightarrow> u64 \<Rightarrow> u64 option" where
  "instant_checked_add now d = (if unat now + unat d < 2 ^ 64 then Some (now + d) else None)"

fun tokens_patch_loop :: "u64 option \<Rightarrow> (utext \<times> utext option) list \<Rightarrow> bool \<Rightarrow> MetadataTokens \<Rightarrow> bool \<times> MetadataTokens" where
  "tokens_patch_loop expires [] changed self = (changed, self)"
| "tokens_patch_loop expires ((key, Some v) # rest) changed self =
     (let token = \<lparr>mt_value = v, expires_at = expires\<rparr>
      in if map_of self key \<noteq> Some token then tokens_patch_loop expires rest True (AList.update key token self)
         else tokens_patch_loop expires rest changed self)"
| "tokens_patch_loop expires ((key, None) # rest) changed self =
     tokens_patch_loop expires rest (changed \<or> map_of self key \<noteq> None) (AList.delete key self)"

definition tokens_patch ::
    "MetadataTokens \<Rightarrow> (utext \<times> utext option) list \<Rightarrow> u64 option \<Rightarrow> u64 \<Rightarrow> bool \<times> MetadataTokens" where
  "tokens_patch self p ttl now = tokens_patch_loop (Option.bind ttl (instant_checked_add now)) p False self"

definition token_values :: "MetadataTokens \<Rightarrow> (utext \<times> utext) list" where
  "token_values self = map (\<lambda>(key, token). (key, mt_value token)) self"

fun count_loop :: "(utext \<times> utext option) list \<Rightarrow> utext list \<Rightarrow> utext list" where
  "count_loop [] keys = keys"
| "count_loop ((key, Some _) # rest) keys = count_loop rest (List.insert key keys)"
| "count_loop ((key, None) # rest) keys = count_loop rest (remove1 key keys)"

definition key_count_after_patch :: "MetadataTokens \<Rightarrow> (utext \<times> utext option) list \<Rightarrow> nat" where
  "key_count_after_patch self p = length (count_loop p (map fst (token_values self)))"

definition tokens_next_expiry :: "MetadataTokens \<Rightarrow> u64 option" where
  "tokens_next_expiry self =
     (case List.map_filter (\<lambda>(_, token). expires_at token) self of [] \<Rightarrow> None | d # ds \<Rightarrow> Some (fold min ds d))"

definition tokens_expire_at :: "MetadataTokens \<Rightarrow> u64 \<Rightarrow> bool \<times> MetadataTokens" where
  "tokens_expire_at self now =
     (let kept = filter (\<lambda>(_, token). case expires_at token of None \<Rightarrow> True | Some deadline \<Rightarrow> now < deadline) self
      in (length kept \<noteq> length self, kept))"

section \<open>A report\<close>

record WorkspaceMetadata =
  metadata_tokens :: MetadataTokens
  metadata_token_sequences :: sequences

text \<open>The answer is an error code, or success; the workspace has been found.\<close>

definition report_workspace_metadata ::
    "u64 \<Rightarrow> WorkspaceMetadata \<Rightarrow> utext \<Rightarrow> u64 option \<Rightarrow> (utext \<times> utext option) list \<Rightarrow> u64 option \<Rightarrow>
     (string + unit) \<times> WorkspaceMetadata" where
  "report_workspace_metadata now workspace source ttl_ms toks sq =
     (case normalize_metadata_source source of
        Inl _ \<Rightarrow> (Inl ''invalid_metadata_source'', workspace)
      | Inr source \<Rightarrow>
          (case normalize_metadata_ttl ttl_ms of
             Inl _ \<Rightarrow> (Inl ''invalid_metadata_ttl'', workspace)
           | Inr ttl \<Rightarrow>
               (case normalize_metadata_tokens toks of
                  Inl _ \<Rightarrow> (Inl ''invalid_metadata_token'', workspace)
                | Inr toks \<Rightarrow>
                    if \<not> sequence_is_fresh (metadata_token_sequences workspace) source sq then (Inr (), workspace)
                    else if MAX_METADATA_TOKEN_KEYS_PER_RESOURCE < key_count_after_patch (metadata_tokens workspace) toks
                    then (Inl ''metadata_token_limit'', workspace)
                    else
                      let (r, seqs) = accept_sequence (metadata_token_sequences workspace) source sq;
                          workspace = workspace\<lparr>metadata_token_sequences := seqs\<rparr>
                      in case r of
                           Inr True \<Rightarrow>
                             (Inr (), workspace\<lparr>metadata_tokens := snd (tokens_patch (metadata_tokens workspace) toks ttl now)\<rparr>)
                         | Inr False \<Rightarrow> (Inr (), workspace)
                         | Inl _ \<Rightarrow> (Inl ''metadata_sequence_source_limit'', workspace))))"

section \<open>What the loops do\<close>

lemma tokens_patch_loop_map:
  "distinct (map fst p) \<Longrightarrow> map_of (snd (tokens_patch_loop e p c m)) k =
     (case map_of p k of None \<Rightarrow> map_of m k
      | Some v \<Rightarrow> map_option (\<lambda>v. \<lparr>mt_value = v, expires_at = e\<rparr>) v)"
proof (induction e p c m rule: tokens_patch_loop.induct)
  case (2 e key v rest c m)
  have "map_of rest key = None" using 2(3) by (simp add: map_of_eq_None_iff)
  with 2 show ?case
    by (cases "map_of m key \<noteq> Some \<lparr>mt_value = v, expires_at = e\<rparr>")
      (auto simp: Let_def AList.update_conv' split: option.splits)
next
  case (3 e key rest c m)
  have "map_of rest key = None" using 3(2) by (simp add: map_of_eq_None_iff)
  with 3 show ?case by (auto simp: AList.delete_conv' split: option.splits)
qed simp

lemma tokens_patch_loop_keys:
  "distinct (map fst m) \<Longrightarrow> distinct keys \<Longrightarrow> set keys = fst ` set m \<Longrightarrow>
     distinct (map fst (snd (tokens_patch_loop e p c m))) \<and> distinct (count_loop p keys) \<and>
     set (count_loop p keys) = fst ` set (snd (tokens_patch_loop e p c m))"
proof (induction e p c m arbitrary: keys rule: tokens_patch_loop.induct)
  case (2 e key v rest c m)
  have ins: "set (List.insert key keys) = fst ` set (AList.update key \<lparr>mt_value = v, expires_at = e\<rparr> m)"
    using 2(5) by (simp add: AList.dom_update)
  show ?case
  proof (cases "map_of m key \<noteq> Some \<lparr>mt_value = v, expires_at = e\<rparr>")
    case True
    with 2(1) [OF refl True, of "List.insert key keys"] 2(3,4) ins show ?thesis
      by (simp add: Let_def AList.distinct_update)
  next
    case False
    then have "key \<in> fst ` set m" by (metis map_of_eq_None_iff not_Some_eq option.distinct(1))
    with 2(5) have "set (List.insert key keys) = fst ` set m" by auto
    with False 2(2) [OF refl, of "List.insert key keys"] 2(3,4) show ?thesis by (simp add: Let_def)
  qed
next
  case (3 e key rest c m)
  have "set (remove1 key keys) = fst ` set (AList.delete key m)" using 3(3,4) by (simp add: AList.delete_keys flip: set_map)
  with 3(1) [of "remove1 key keys"] 3(2,3) show ?case by (simp add: AList.distinct_delete)
qed simp

lemma patched_key_count: "distinct (map fst m) \<Longrightarrow> key_count_after_patch m p = length (snd (tokens_patch m p ttl now))"
proof -
  assume d: "distinct (map fst m)"
  have v: "map fst (token_values m) = map fst m" by (simp add: token_values_def comp_def case_prod_beta)
  from tokens_patch_loop_keys [OF d d, of "Option.bind ttl (instant_checked_add now)" p False]
  show ?thesis unfolding key_count_after_patch_def tokens_patch_def v
    by (metis distinct_card length_map list.set_map)
qed

section \<open>What a workspace keeps\<close>

lemma utrim_part: "set (utrim s) \<subseteq> set s" "length (utrim s) \<le> length s"
proof -
  let ?a = "dropWhile is_whitespace s"
  have "set (dropWhile is_whitespace (rev ?a)) \<subseteq> set (rev ?a)" "set ?a \<subseteq> set s" by (auto dest: set_dropWhileD)
  then show "set (utrim s) \<subseteq> set s" by (simp add: utrim_def)
  have "length (dropWhile is_whitespace (rev ?a)) \<le> length (rev ?a)" "length ?a \<le> length s" by (rule length_dropWhile_le)+
  then show "length (utrim s) \<le> length s" by (simp add: utrim_def)
qed

definition good_value :: "utext \<Rightarrow> bool" where
  "good_value v \<longleftrightarrow> v \<noteq> [] \<and> length v \<le> 80 \<and> (\<forall>c \<in> set v. \<not> char_is_control c)"

lemma normalized_value: "normalize_token_value v = Some v' \<Longrightarrow> good_value v'"
proof -
  assume n: "normalize_token_value v = Some v'"
  let ?n = "take MAX_METADATA_TOKEN_VALUE_LEN (filter (\<lambda>c. \<not> char_is_control c) (utrim v))"
  have v': "v' = utrim ?n" "v' \<noteq> []" using n by (auto simp: normalize_token_value_def Let_def split: if_splits)
  have "set ?n \<subseteq> set (filter (\<lambda>c. \<not> char_is_control c) (utrim v))" by (rule set_take_subset)
  then have c: "\<not> char_is_control c" if "c \<in> set v'" for c using that utrim_part(1) [of ?n] unfolding v'(1) by auto
  have "length ?n \<le> 80" by (simp add: metadata_limits)
  then have "length v' \<le> 80" using utrim_part(2) [of ?n] unfolding v'(1) by linarith
  with c v'(2) show "good_value v'" by (simp add: good_value_def)
qed

lemma normalized_list:
  "normalize_token_list toks = Inr p \<Longrightarrow>
     p = map (\<lambda>(key, v). (key, Option.bind v normalize_token_value)) toks \<and> (\<forall>(key, v) \<in> set toks. valid_token_key key)"
proof (induction toks arbitrary: p)
  case (Cons x toks)
  obtain key v where x: "x = (key, v)" by (cases x)
  with Cons show ?case by (cases "normalize_token_list toks") (auto split: if_splits)
qed simp

definition meta_inv :: "WorkspaceMetadata \<Rightarrow> bool" where
  "meta_inv w \<longleftrightarrow>
     distinct (map fst (metadata_tokens w)) \<and> length (metadata_tokens w) \<le> 32 \<and>
     (\<forall>(key, token) \<in> set (metadata_tokens w). valid_token_key key \<and> good_value (mt_value token)) \<and>
     distinct (map fst (metadata_token_sequences w)) \<and> length (metadata_token_sequences w) \<le> 32"

lemma patched_tokens:
  assumes d: "distinct (map fst m)" "distinct (map fst p)"
    and m: "\<forall>(key, token) \<in> set m. valid_token_key key \<and> good_value (mt_value token)"
    and p: "\<forall>(key, v) \<in> set p. valid_token_key key \<and> (\<forall>x. v = Some x \<longrightarrow> good_value x)"
  shows "\<forall>(key, token) \<in> set (snd (tokens_patch m p ttl now)). valid_token_key key \<and> good_value (mt_value token)"
proof clarify
  fix key token assume in': "(key, token) \<in> set (snd (tokens_patch m p ttl now))"
  let ?e = "Option.bind ttl (instant_checked_add now)"
  have "distinct (map fst (snd (tokens_patch_loop ?e p False m)))" using tokens_patch_loop_keys [OF d(1) d(1)] by simp
  then have "map_of (snd (tokens_patch_loop ?e p False m)) key = Some token"
    using in' by (simp add: tokens_patch_def)
  then have look: "(case map_of p key of None \<Rightarrow> map_of m key
      | Some v \<Rightarrow> map_option (\<lambda>v. \<lparr>mt_value = v, expires_at = ?e\<rparr>) v) = Some token"
    using tokens_patch_loop_map [OF d(2), of ?e False m key] by simp
  show "valid_token_key key \<and> good_value (mt_value token)"
  proof (cases "map_of p key")
    case None
    with look have "(key, token) \<in> set m" by (simp add: map_of_SomeD)
    with m show ?thesis by blast
  next
    case (Some v)
    then have "(key, v) \<in> set p" by (rule map_of_SomeD)
    moreover obtain x where "v = Some x" "mt_value token = x" using look Some by (cases v) auto
    ultimately show ?thesis using p by blast
  qed
qed

lemma accept_keys:
  assumes "distinct (map fst seqs)" "length seqs \<le> 32" "accept_sequence seqs source sq = (r, seqs')"
  shows "distinct (map fst seqs') \<and> length seqs' \<le> 32"
proof -
  have "length (AList.update source n seqs) \<le> 32" if "map_of seqs source \<noteq> None \<or> length seqs < 32" for n
  proof -
    have "length (AList.update source n seqs) = card (fst ` set (AList.update source n seqs))"
      by (metis AList.distinct_update assms(1) distinct_card length_map list.set_map)
    also have "\<dots> = card (insert source (fst ` set seqs))" by (simp add: AList.dom_update)
    also have "\<dots> \<le> 32"
    proof (cases "source \<in> fst ` set seqs")
      case True
      then show ?thesis using assms(1,2) by (metis distinct_card insert_absorb length_map list.set_map)
    next
      case False
      then have "length seqs < 32" using that by (simp add: map_of_eq_None_iff)
      with False show ?thesis using card_length [of "map fst seqs"] by simp
    qed
    finally show ?thesis .
  qed
  with assms show ?thesis
    by (auto simp: accept_sequence_def metadata_limits AList.distinct_update not_le split: option.splits if_splits)
qed

text \<open>What a report leaves: an error or a stale sequence changes nothing, another report sets the tokens it
  names and the sequence of its source.\<close>

definition report_effect :: "WorkspaceMetadata \<Rightarrow> utext \<Rightarrow> (utext \<times> utext option) list \<Rightarrow> 64 word option \<Rightarrow>
    string + unit \<Rightarrow> WorkspaceMetadata \<Rightarrow> bool" where
  "report_effect w source toks sq r w' = (case r of Inl _ \<Rightarrow> w' = w
     | Inr _ \<Rightarrow>
         if \<not> sequence_is_fresh (metadata_token_sequences w) (utrim source) sq then w' = w
         else
           (\<forall>key. map_option mt_value (map_of (metadata_tokens w') key) =
              (case map_of toks key of None \<Rightarrow> map_option mt_value (map_of (metadata_tokens w) key)
               | Some v \<Rightarrow> Option.bind v normalize_token_value)) \<and>
           (\<forall>other. map_of (metadata_token_sequences w') other =
              (if other = utrim source \<and> sq \<noteq> None then sq else map_of (metadata_token_sequences w) other)))"

lemma refused_report:
  assumes False: "\<nexists>src t p. normalize_metadata_source source = Inr src \<and> normalize_metadata_ttl ttl = Inr t \<and>
      normalize_metadata_tokens toks = Inr p \<and> sequence_is_fresh (metadata_token_sequences w) src sq \<and>
      key_count_after_patch (metadata_tokens w) p \<le> 32"
    and r: "report_workspace_metadata now w source ttl toks sq = (r, w')"
  shows "w' = w \<and> report_effect w source toks sq r w'"
proof -
  let ?seqs = "metadata_token_sequences w"
  have src: "normalize_metadata_source source = Inr src \<Longrightarrow> src = utrim source" for src
    by (auto simp: normalize_metadata_source_def Let_def split: if_splits)
  have "w' = w \<and> ((\<exists>e. r = Inl e) \<or> \<not> sequence_is_fresh ?seqs (utrim source) sq)"
  proof (cases "normalize_metadata_source source")
    case (Inl e)
    with r show ?thesis by (auto simp: report_workspace_metadata_def)
  next
    case s: (Inr sc)
    show ?thesis
    proof (cases "normalize_metadata_ttl ttl")
      case (Inl e)
      with r s show ?thesis by (auto simp: report_workspace_metadata_def)
    next
      case t: (Inr t)
      show ?thesis
      proof (cases "normalize_metadata_tokens toks")
        case (Inl e)
        with r s t show ?thesis by (auto simp: report_workspace_metadata_def)
      next
        case (Inr p)
        with False s t have "\<not> sequence_is_fresh ?seqs sc sq \<or> 32 < key_count_after_patch (metadata_tokens w) p" by auto
        with r s t Inr src [OF s] show ?thesis
          by (cases "sequence_is_fresh ?seqs sc sq") (auto simp: report_workspace_metadata_def metadata_limits)
      qed
    qed
  qed
  then show ?thesis by (auto simp: report_effect_def split: sum.splits)
qed

lemma accepted_report:
  assumes inv: "meta_inv w" and d: "distinct (map fst toks)"
    and r: "report_workspace_metadata now w source ttl toks sq = (r, w')"
    and n: "normalize_metadata_source source = Inr src" "normalize_metadata_ttl ttl = Inr t"
      "normalize_metadata_tokens toks = Inr p"
    and fresh: "sequence_is_fresh (metadata_token_sequences w) src sq"
    and count: "key_count_after_patch (metadata_tokens w) p \<le> 32"
  shows "meta_inv w' \<and> report_effect w source toks sq r w'"
proof -
  let ?seqs = "metadata_token_sequences w"
  have src: "src = utrim source" using n(1) by (auto simp: normalize_metadata_source_def Let_def split: if_splits)
  have "normalize_token_list toks = Inr p" using n(3) by (auto simp: normalize_metadata_tokens_def split: if_splits)
  note p = normalized_list [OF this]
  have keys: "map fst p = map fst toks" using p by (simp add: comp_def case_prod_beta)
  have valid: "\<forall>(key, v) \<in> set p. valid_token_key key \<and> (\<forall>x. v = Some x \<longrightarrow> good_value x)"
  proof clarify
    fix key v assume "(key, v) \<in> set p"
    then obtain x where "(key, x) \<in> set toks" "v = Option.bind x normalize_token_value" using p by auto
    with p show "valid_token_key key \<and> (\<forall>x. v = Some x \<longrightarrow> good_value x)"
      by (auto simp: bind_eq_Some_conv normalized_value)
  qed
  obtain a seqs' where acc: "accept_sequence ?seqs src sq = (a, seqs')" by (cases "accept_sequence ?seqs src sq")
  have ok: "distinct (map fst ?seqs)" "length ?seqs \<le> 32" "distinct (map fst (metadata_tokens w))"
    "\<forall>(key, token) \<in> set (metadata_tokens w). valid_token_key key \<and> good_value (mt_value token)"
    using inv by (simp_all add: meta_inv_def)
  let ?m = "snd (tokens_patch (metadata_tokens w) p t now)"
  have "report_workspace_metadata now w source ttl toks sq = (case a of Inr True \<Rightarrow> (Inr (), w\<lparr>metadata_token_sequences := seqs', metadata_tokens := ?m\<rparr>)
    | Inr False \<Rightarrow> (Inr (), w\<lparr>metadata_token_sequences := seqs'\<rparr>)
    | Inl _ \<Rightarrow> (Inl ''metadata_sequence_source_limit'', w\<lparr>metadata_token_sequences := seqs'\<rparr>))"
    using n fresh count acc by (simp add: report_workspace_metadata_def metadata_limits Let_def not_less split: sum.split bool.split)
  note w' = this [unfolded r]
  have "a \<noteq> Inr False" using acc fresh by (auto simp: accept_sequence_def split: option.splits if_splits)
  then consider "a = Inr True" | "a = Inl ()" by (cases a) auto
  then show ?thesis
  proof cases
    case 2
    then have "seqs' = ?seqs" using acc by (auto simp: accept_sequence_def split: option.splits if_splits)
    with 2 w' inv show ?thesis by (simp add: report_effect_def)
  next
    case 1
    have seqs': "map_of seqs' other = (if other = src \<and> sq \<noteq> None then sq else map_of ?seqs other)" for other
      using acc 1 by (auto simp: accept_sequence_def AList.update_conv' split: option.splits if_splits)
    have "distinct (map fst ?m)"
      using tokens_patch_loop_keys [OF ok(3) ok(3)] by (simp add: tokens_patch_def)
    moreover have "length ?m \<le> 32" using patched_key_count [OF ok(3)] count by metis
    moreover have "distinct (map fst p)" using d keys by simp
    note patched_tokens [OF ok(3) this ok(4) valid, of t now]
    ultimately have "meta_inv w'"
      using w' 1 accept_keys [OF ok(1,2) acc] by (simp add: meta_inv_def)
    moreover have "map_option mt_value (map_of ?m key) =
        (case map_of toks key of None \<Rightarrow> map_option mt_value (map_of (metadata_tokens w) key)
         | Some v \<Rightarrow> Option.bind v normalize_token_value)" for key
    proof -
      have "map_of p key = map_option (\<lambda>v. Option.bind v normalize_token_value) (map_of toks key)"
        using p by (simp add: map_of_map)
      then show ?thesis
        using tokens_patch_loop_map [of p "Option.bind t (instant_checked_add now)" False "metadata_tokens w" key] d keys
        by (auto simp: tokens_patch_def comp_def option.map_comp option.map_ident split: option.splits)
    qed
    ultimately show ?thesis using w' 1 fresh seqs' src by (simp add: report_effect_def)
  qed
qed

lemma report_cases:
  assumes "meta_inv w" and "distinct (map fst toks)"
    and "report_workspace_metadata now w source ttl toks sq = (r, w')"
  shows "meta_inv w' \<and> report_effect w source toks sq r w'"
  using accepted_report [OF assms] refused_report [OF _ assms(3)] assms(1) by blast

section \<open>The machine\<close>

inductive metadata_step :: "WorkspaceMetadata \<Rightarrow> WorkspaceMetadata \<Rightarrow> bool" where
  metadata_report: "distinct (map fst toks) \<Longrightarrow>
    report_workspace_metadata now w source ttl toks sq = (r, w') \<Longrightarrow> metadata_step w w'"
| metadata_expire: "tokens_expire_at (metadata_tokens w) now = (b, m) \<Longrightarrow> metadata_step w (w\<lparr>metadata_tokens := m\<rparr>)"

definition metadata_init :: "WorkspaceMetadata \<Rightarrow> bool" where
  "metadata_init w \<longleftrightarrow> metadata_tokens w = [] \<and> metadata_token_sequences w = []"

interpretation metadata: safe_machine metadata_init metadata_step meta_inv
proof unfold_locales
  fix w assume "metadata_init w"
  then show "meta_inv w" by (simp add: metadata_init_def meta_inv_def)
next
  fix w w' assume inv: "meta_inv w" and "metadata_step w w'"
  from this(2) show "meta_inv w'"
  proof cases
    case (metadata_report toks now source ttl sq r)
    with report_cases [OF inv] show ?thesis by blast
  next
    case (metadata_expire now b m)
    then have "m = filter (\<lambda>(_, token). case expires_at token of None \<Rightarrow> True | Some deadline \<Rightarrow> now < deadline) (metadata_tokens w)"
      by (auto simp: tokens_expire_at_def Let_def)
    with inv metadata_expire(1) show ?thesis
      by (auto simp: meta_inv_def distinct_map_filter intro: order_trans [OF length_filter_le])
  qed
qed

text \<open>C28: What programs report about a workspace stays small and printable: however they report, and
  whatever expires, there are at most 32 tokens and 32 sources with a sequence, each key is a short name of
  letters, digits, underscores and hyphens, and each value has between one and 80 characters and no
  control character.\<close>

theorem metadata_stays_bounded:
  assumes "reach metadata_init metadata_step w"
  shows "length (metadata_tokens w) \<le> MAX_METADATA_TOKEN_KEYS_PER_RESOURCE \<and>
    length (metadata_token_sequences w) \<le> MAX_SEQUENCE_SOURCES \<and>
    distinct (map fst (metadata_tokens w)) \<and>
    (\<forall>(key, v) \<in> set (token_values (metadata_tokens w)).
       valid_token_key key \<and> v \<noteq> [] \<and> length v \<le> MAX_METADATA_TOKEN_VALUE_LEN \<and> (\<forall>c \<in> set v. \<not> char_is_control c))"
proof -
  have inv: "meta_inv w" by (rule metadata.reach_inv [OF assms])
  then have "valid_token_key key \<and> good_value v" if "(key, v) \<in> set (token_values (metadata_tokens w))" for key v
    using that by (fastforce simp: meta_inv_def token_values_def)
  with inv show ?thesis by (auto simp: meta_inv_def metadata_limits good_value_def)
qed

text \<open>C20: A report is taken whole, or not at all. One that is refused changes nothing, whatever the reason;
  one with a sequence number that its source has already reached is answered with success and changes
  nothing, so reports that arrive late or twice never undo a newer one; any other sets exactly the
  tokens it names, to their cleaned values, clears those without a value, leaves the rest, and raises the
  number of its source and of no other.\<close>

theorem report_is_all_or_nothing:
  assumes "meta_inv w" "distinct (map fst toks)"
  shows "case report_workspace_metadata now w source ttl toks sq of
      (Inl _, w') \<Rightarrow> w' = w
    | (Inr _, w') \<Rightarrow>
        if \<not> sequence_is_fresh (metadata_token_sequences w) (utrim source) sq then w' = w
        else
          (\<forall>key. map_option mt_value (map_of (metadata_tokens w') key) =
             (case map_of toks key of None \<Rightarrow> map_option mt_value (map_of (metadata_tokens w) key)
              | Some v \<Rightarrow> Option.bind v normalize_token_value)) \<and>
          (\<forall>other. map_of (metadata_token_sequences w') other =
             (if other = utrim source \<and> sq \<noteq> None then sq else map_of (metadata_token_sequences w) other))"
proof -
  obtain r w' where r: "report_workspace_metadata now w source ttl toks sq = (r, w')"
    by (cases "report_workspace_metadata now w source ttl toks sq")
  show ?thesis using report_cases [OF assms r] unfolding r report_effect_def by (cases r) simp_all
qed

section \<open>Examples\<close>

definition no_metadata :: WorkspaceMetadata where
  "no_metadata = \<lparr>metadata_tokens = [], metadata_token_sequences = []\<rparr>"

theorem metadata_stays_bounded_witness:
  "length (metadata_tokens no_metadata) \<le> 32 \<and>
   length (metadata_tokens (snd (report_workspace_metadata 0 no_metadata [97] None [([98], Some [99])] (Some 1)))) \<le> 32"
proof -
  have n: "reach metadata_init metadata_step no_metadata"
    by (rule reach_init) (simp add: metadata_init_def no_metadata_def)
  obtain r w' where r: "report_workspace_metadata 0 no_metadata [97] None [([98], Some [99])] (Some 1) = (r, w')"
    by (cases "report_workspace_metadata 0 no_metadata [97] None [([98], Some [99])] (Some 1)")
  have "metadata_step no_metadata w'" by (rule metadata_report [OF _ r]) simp
  with n have "reach metadata_init metadata_step w'" by (rule reach_step)
  from metadata_stays_bounded [OF this] metadata_stays_bounded [OF n] r show ?thesis by (simp add: metadata_limits)
qed

theorem report_is_all_or_nothing_witness:
  "case report_workspace_metadata 0 no_metadata [97] None [([98], Some [99])] (Some 1) of (r, w') \<Rightarrow>
     r = Inr () \<and> map_option mt_value (map_of (metadata_tokens w') [98]) = Some [99] \<and>
     map_of (metadata_token_sequences w') [97] = Some 1"
proof -
  have inv: "meta_inv no_metadata" by (simp add: meta_inv_def no_metadata_def)
  have trims: "utrim [97] = [97]" "utrim [99] = [99]" by (simp_all add: utrim_def is_whitespace_def)
  have v: "normalize_token_value [99] = Some [99]"
    by (simp add: normalize_token_value_def trims char_is_control_def metadata_limits)
  have ok: "fst (report_workspace_metadata 0 no_metadata [97] None [([98], Some [99])] (Some 1)) = Inr ()"
    by (simp add: report_workspace_metadata_def normalize_metadata_source_def normalize_metadata_ttl_def
        normalize_metadata_tokens_def valid_token_key_def utf8_len_def is_ascii_alphanumeric_def trims metadata_limits Let_def
        sequence_is_fresh_def no_metadata_def key_count_after_patch_def token_values_def accept_sequence_def v)
  obtain w' where r: "report_workspace_metadata 0 no_metadata [97] None [([98], Some [99])] (Some 1) = (Inr (), w')"
    using ok by (metis prod.collapse)
  have fresh: "sequence_is_fresh (metadata_token_sequences no_metadata) [97] (Some 1)"
    by (simp add: sequence_is_fresh_def no_metadata_def)
  have "(\<forall>key. map_option mt_value (map_of (metadata_tokens w') key) =
        (case map_of [([98], Some [99])] key of
           None \<Rightarrow> map_option mt_value (map_of (metadata_tokens no_metadata) key)
         | Some v \<Rightarrow> Option.bind v normalize_token_value)) \<and>
      (\<forall>other. map_of (metadata_token_sequences w') other =
        (if other = [97] \<and> Some 1 \<noteq> (None :: u64 option) then Some 1
         else map_of (metadata_token_sequences no_metadata) other))"
    using report_is_all_or_nothing [OF inv, where toks = "[([98], Some [99])]" and now = 0 and source = "[97]"
        and ttl = None and sq = "Some 1"] fresh
    unfolding r trims(1) by simp
  then have "map_option mt_value (map_of (metadata_tokens w') [98]) = Some [99]"
    "map_of (metadata_token_sequences w') [97] = Some 1"
    by (simp_all add: v)
  then show ?thesis unfolding r by simp
qed

end
