(* ===== verification/Spec2Isabelle.thy ===== *)
theory Spec2Isabelle
  imports Layout_Geometry Selection Surface_Codec Surface_Sync Event_Hub Render_Signal Endpoint_Registry Popup_Size Client_Connection Mouse_Pixels Key_Types Server_State Metadata_Tokens
begin

text \<open>
  Verification of \<open>herdr\<close>, the terminal workspace manager of this repository (Rust, under
  \<open>src/herdr/src\<close>). A server process owns workspaces, each a list of tabs, each a tiling of
  panes with a program on a pseudo terminal in every pane. A client process (the client shell) reads
  the raw bytes of the user's terminal, turns them into key and mouse events, routes them, and sends
  the server leases on pressed keys and the input for panes. The server sends every client the
  surfaces of its panes as a stream of messages in a negotiated codec, and the client keeps one
  surface per pane and draws it. Around them stand the event history of the API, the endpoints of a
  client that is connected to several machines, and the popup of a workspace. The theories follow
  this path.

  Theories and sources (all paths are under \<open>src/herdr/src\<close>):

  \<^item> \<open>Prelude\<close>: names of the machine integers and their saturating and checked arithmetic,
    little-endian bytes, decimal numbers, results as sums, iterator adaptors, spliced lists, and the
    two contracts every stateful component interprets: \<open>safe_machine\<close> (an invariant that holds
    initially and is kept by every step) and \<open>data_refinement\<close> (steps simulated by an abstract
    object).
  \<^item> \<open>F32\<close>: the values of \<open>f32\<close> a split ratio can have, with the rounding of the
    operations the layout applies to them.
  \<^item> \<open>Layout\<close>, \<open>Layout_Geometry\<close> (\<open>layout.rs\<close>): the binary tree of a tab, the focus
    and the focus before it, every operation as the code has it; then rectangles, borders, navigation
    and mouse resizing. \<open>layout_step\<close> is the machine; ids are drawn from a counter that has not
    run through its \<open>2^32\<close> values.
  \<^item> \<open>Public_Id\<close>, \<open>Tab\<close>, \<open>Workspace\<close> (\<open>workspace.rs\<close>, \<open>workspace/tab.rs\<close>,
    \<open>terminal/id.rs\<close>): the numbers in base 32 and the counters that give ids, the panes of a tab
    beside their layout, and a workspace with the public numbers of its panes. \<open>Globals\<close> holds the
    counters of the process; starting a program is an argument that succeeds or fails.
  \<^item> \<open>App_Panes\<close> (\<open>app/ids.rs\<close>, \<open>app/state.rs\<close>, \<open>app/actions.rs\<close>): the list of
    workspaces, what the ids of a request name, the aliases that keep the old id of a moved pane
    working, the focus history, and a pane whose program ends.
  \<^item> \<open>Pane_Move\<close> (\<open>handle_pane_move\<close> of \<open>app/api/panes.rs\<close>): the request that moves a pane,
    from its ids to the new state or the recovery of the old one.
  \<^item> \<open>App_Workspaces\<close> (\<open>app/actions.rs\<close>, \<open>app/creation.rs\<close>, \<open>app/api/workspaces.rs\<close>,
    \<open>app/api/tabs.rs\<close>, \<open>app/api/panes.rs\<close>): focus, zoom, order, creation and closing, with the
    handlers that ask for them. \<open>Server_State\<close>: all of these as the steps of one machine, from a
    server without workspaces.
  \<^item> \<open>Metadata_Tokens\<close> (\<open>metadata_tokens.rs\<close>, \<open>app/api_helpers.rs\<close>): what programs report
    about a workspace.
  \<^item> \<open>Selection\<close> (\<open>selection.rs\<close>): the gesture from press to release, coordinates that
    survive scrolling, the highlight and the test of a cell.
  \<^item> \<open>Wire\<close> (\<open>protocol/wire.rs\<close>): the surface messages, colours and modifiers, framing and
    the version check.
  \<^item> \<open>Surface_Grid\<close>, \<open>Surface_Decode\<close>, \<open>Surface_Codec\<close>, \<open>Surface_Delta\<close>
    (\<open>protocol/surface_delta.rs\<close>, \<open>protocol/surface_delta/decode.rs\<close>): changed rows and their
    application, the decoder that bounds every allocation, that it accepts what the sender encodes,
    and the sender with its choice between a delta and a whole surface.
  \<^item> \<open>Surface_Scroll\<close>, \<open>Surface_Scroll_Apply\<close>, \<open>Surface_Scroll_Message\<close>
    (\<open>protocol/surface_scroll.rs\<close>): how a patch that scrolls is applied, that it means the
    unscrolled rows it stands for, and how the sender finds the shift and writes the message.
  \<^item> \<open>Surface_Reuse\<close> (\<open>protocol/surface_reuse.rs\<close>): messages that reuse the cells of the
    surface before, and the decoder of a connection with all its refusals.
  \<^item> \<open>Render_Stream\<close>, \<open>Surface_Sync\<close> (\<open>server/render_stream.rs\<close> and the stores of the
    client): the server's baseline per pane, and both ends together. The locale
    \<open>surface_codec\<close> states what a codec owes the stream (the decoder turns the message into the
    surface that was sent); the three codecs interpret it, and \<open>link_step\<close> interleaves sending,
    delivery, resets and the loss of either end.
  \<^item> \<open>Text_Parse\<close>, \<open>Terminal_Theme\<close> (\<open>terminal_theme.rs\<close>): strings as UTF-8 bytes
    with slices that panic inside a character, the parsers of the terminal's answers about colours.
  \<^item> \<open>Terminal_Key\<close>, \<open>Key_Encode\<close>, \<open>Key_Parse\<close> (\<open>input/model.rs\<close>,
    \<open>input/encode.rs\<close>, \<open>input/parse.rs\<close>): key events, the bytes a program in a pane gets for
    them, and the sequences a terminal sends for them.
  \<^item> \<open>Raw_Sequence\<close>, \<open>Raw_Input\<close>, \<open>Input_Timing\<close>, \<open>Mouse_Report\<close>, \<open>Key_Types\<close>
    (\<open>raw_input.rs\<close>): the recogniser of one event, the framer with its buffer, its idle flush and
    the answers of the host it waits for. The locale \<open>chunked_input\<close> is the contract of a framer
    fed in pieces; the framer of the code interprets it.
  \<^item> \<open>Mouse_Pixels\<close> (\<open>input/mouse.rs\<close>, \<open>client/shell/input.rs\<close>): mouse reports in pixels.
  \<^item> \<open>Input_Lease\<close> (\<open>input/lease.rs\<close>, key handling of \<open>client/shell\<close>): which key is held
    by whom, so that a release goes where the press went.
  \<^item> \<open>Client_Connection\<close> (\<open>server/clients.rs\<close>): the inputs a client holds down as the server
    sees them, the place a client looks at, deferred renders.
  \<^item> \<open>Endpoint_Registry\<close> (\<open>client/endpoint.rs\<close>, \<open>client/endpoint/health.rs\<close>,
    \<open>client/endpoint/registry.rs\<close>): heartbeats, connections and their failures, for any
    transport.
  \<^item> \<open>Event_Hub\<close> (\<open>api/event_hub.rs\<close>), \<open>Render_Signal\<close> (\<open>render_signal.rs\<close>),
    \<open>Popup_Size\<close> (\<open>popup_size.rs\<close>).

  What is shown. A surface the server prepares, encodes in any of the codecs and commits is the
  surface the client holds after decoding, also for patches that scroll, and both ends agree in every
  reachable state of the connection; the decoder accepts nothing outside its limits and refuses
  without losing its baseline. The rectangles of a tab cover its area exactly once in every reachable
  layout; closing and splitting behave as described at each theorem. Cutting the raw input at other
  places changes no event, no byte is lost or doubled, the loops end, and a lone escape is passed on
  within two idle intervals. What the encoders of keys and mouse reports write, the parsers read back.
  No program sees the release of a key whose press it did not see, and every press it saw is
  released. Whatever clients ask of a server, no pane is in two places and no alias hides a pane; public
  ids are read back as what they were written for and never given twice; moving a pane loses none;
  closing takes exactly what it should; and every modelled request is answered, but for the move to a
  workspace number that is too large, which is shown to panic. The remaining properties treat the selection, the registry, the history and the signal.

  Conventions. Words are kept at the width of the source wherever it can overflow; \<open>usize\<close> is a
  natural number, with the limits of 64 bits written out where the code checks for them. A panic is
  \<open>None\<close>, an error a value of a sum. Hash maps are maps, and where the code iterates over one the
  order is an argument. What is not under \<open>src\<close> is an argument with its documented behaviour as a
  named predicate (\<open>..._spec\<close>): \<open>bincode\<close>, \<open>serde_json\<close>, \<open>base64\<close>, the key tables of
  \<open>crossterm\<close>, the Unicode tables, the rectangles of \<open>ratatui\<close>, the transport of an endpoint.

  Bounds and fuel. Every loop of the source is a structural recursion or a \<open>function\<close> with a
  measure, so no definition carries fuel. \<open>drain_loop_ends\<close> states for the draining loop of the
  framer how many rounds it takes at most: two more than the buffer has bytes.

  Not modelled. Of the server's state, the records of terminals and plugins, the working directories and
  git state of workspaces, the restoring of a saved session, and the answers in JSON and the events,
  which are put together after the state has changed. The terminal emulator and what wraps it (\<open>crates/ghostty-vt\<close>, \<open>pane.rs\<close>,
  \<open>terminal/\<close>, \<open>kitty_graphics\<close>) is a foreign library behind an unsafe interface; \<open>platform/\<close>,
  \<open>pty/\<close>, \<open>remote/\<close>, \<open>ipc.rs\<close> and the transports are system calls; the command line, the
  configuration, the integrations, the persistence, the updater and the agents' detection manifests
  are text and file handling around the core; the drawing (\<open>ui/\<close>, \<open>protocol/render_ansi.rs\<close>, the
  views of \<open>client/shell\<close>) writes cells of \<open>ratatui\<close>. Within modelled files the Windows branches
  and the operations compiled only for tests are left out. The other programs of the repository
  (\<open>ud\<close>, \<open>clipboard\<close>, \<open>herdr-tmux\<close>) call tools and move files; the rest are dotfiles.
\<close>

end
